(* ===== verification/Prelude.thy ===== *)
theory Prelude
  imports Main "HOL-Library.Word" "HOL-Library.Code_Target_Nat"
begin

text \<open>
  Shared vocabulary of the development: the machine integers and byte strings of the Rust code,
  its result type, little-endian encodings, and the wrap-around of unsigned additions.  Lemmas
  that several components use are collected in \<open>byte_simps\<close> (lengths and round trips of the
  byte encodings) or declared \<open>[simp]\<close>.
\<close>

named_theorems byte_simps "little-endian encodings: lengths and round trips"

section \<open>Machine integers and bytes\<close>

type_synonym u8 = "8 word"
type_synonym u16 = "16 word"
type_synonym u32 = "32 word"
type_synonym u64 = "64 word"

type_synonym bytes = "u8 list"

text \<open>The error of a fallible operation is the left summand, as \<open>Err\<close> is in \<open>Result\<close>.\<close>

type_synonym ('a, 'e) result = "'e + 'a"

abbreviation Ok :: "'a \<Rightarrow> 'e + 'a" where "Ok \<equiv> Inr"
abbreviation Err :: "'e \<Rightarrow> 'e + 'a" where "Err \<equiv> Inl"

definition is_ok :: "'e + 'a \<Rightarrow> bool" where
  "is_ok r = (case r of Inl _ \<Rightarrow> False | Inr _ \<Rightarrow> True)"

lemma is_ok_simps [simp]: "is_ok (Inr x)" "\<not> is_ok (Inl e)"
  by (simp_all add: is_ok_def)

section \<open>Counters of 64 bits held as natural numbers\<close>

text \<open>
  Clocks and sequence numbers are \<open>u64\<close> in the code.  They are natural numbers here; an addition
  that can leave the range is written with \<open>wrap64\<close>, the wrap-around of a release build.
\<close>

definition wrap64 :: "nat \<Rightarrow> nat" where
  "wrap64 n = n mod 2 ^ 64"

definition wrap32 :: "nat \<Rightarrow> nat" where
  "wrap32 n = n mod 2 ^ 32"

lemma wrap64_id [simp]: "n < 2 ^ 64 \<Longrightarrow> wrap64 n = n"
  by (simp add: wrap64_def)

lemma wrap64_less [simp]: "wrap64 n < 2 ^ 64"
  by (simp add: wrap64_def)

lemma wrap_less_numeral [simp]:
  "wrap64 n < 18446744073709551616" "wrap32 n < 4294967296"
  using wrap64_less [of n] by (simp_all add: wrap32_def)

lemma wrap64_le: "wrap64 n \<le> n"
  by (simp add: wrap64_def)

lemma wrap32_id [simp]: "n < 2 ^ 32 \<Longrightarrow> wrap32 n = n"
  by (simp add: wrap32_def)

lemma wrap32_less [simp]: "wrap32 n < 2 ^ 32"
  by (simp add: wrap32_def)

section \<open>Little-endian bytes\<close>

lemma unat_less: "unat (w :: 'a::len word) < 2 ^ LENGTH('a)"
  by (rule unsigned_less)

lemma unat_u8_less [simp]: "unat (b :: u8) < 256"
  using unat_less [of b] by simp

fun le_bytes :: "nat \<Rightarrow> nat \<Rightarrow> bytes" where
  "le_bytes 0 v = []"
| "le_bytes (Suc n) v = word_of_nat (v mod 256) # le_bytes n (v div 256)"

fun le_value :: "bytes \<Rightarrow> nat" where
  "le_value [] = 0"
| "le_value (b # bs) = unat b + 256 * le_value bs"

lemma le_bytes_numeral [simp]:
  "le_bytes (numeral k) v = word_of_nat (v mod 256) # le_bytes (pred_numeral k) (v div 256)"
  by (simp only: numeral_eq_Suc [of k] le_bytes.simps)

lemma length_le_bytes [simp, byte_simps]: "length (le_bytes n v) = n"
  by (induction n arbitrary: v) auto

lemma byte_digit_less: "b < 256 \<Longrightarrow> l < p \<Longrightarrow> b + 256 * l < 256 * (p :: nat)"
  by linarith

lemma le_value_bound: "le_value bs < 256 ^ length bs"
  by (induction bs) (simp_all add: byte_digit_less)

lemma le_value_le_bytes: "le_value (le_bytes n v) = v mod 256 ^ n"
proof (induction n arbitrary: v)
  case 0
  then show ?case by simp
next
  case (Suc n)
  have "unat (word_of_nat (v mod 256) :: u8) = v mod 256"
    by (simp add: unat_of_nat)
  then show ?case
    by (simp add: Suc.IH mod_mult2_eq)
qed

lemma le_bytes_le_value [simp]: "le_bytes (length bs) (le_value bs) = bs"
proof (induction bs)
  case Nil
  then show ?case by simp
next
  case (Cons b bs)
  have "unat b < 256" by simp
  then show ?case using Cons.IH by simp
qed

text \<open>\<open>to_le_bytes\<close> and \<open>from_le_bytes\<close> of the unsigned types, at any width of whole bytes.\<close>

definition to_le :: "'a::len word \<Rightarrow> bytes" where
  "to_le w = le_bytes (LENGTH('a) div 8) (unat w)"

definition from_le :: "bytes \<Rightarrow> 'a::len word" where
  "from_le bs = word_of_nat (le_value bs)"

lemma length_to_le [simp]: "length (to_le (w :: 'a::len word)) = LENGTH('a) div 8"
  by (simp add: to_le_def)

lemma from_le_to_le:
  assumes "LENGTH('a::len) = 8 * n"
  shows "from_le (to_le (w :: 'a word)) = w"
proof -
  have "(256::nat) ^ n = 2 ^ LENGTH('a)"
    by (simp add: assms power_mult)
  then have "le_value (to_le w) = unat w"
    using assms unat_less [of w] by (simp add: to_le_def le_value_le_bytes)
  then show ?thesis by (simp add: from_le_def)
qed

lemma to_le_from_le:
  assumes "LENGTH('a::len) = 8 * length bs"
  shows "to_le (from_le bs :: 'a word) = bs"
proof -
  have "(256::nat) ^ length bs = 2 ^ LENGTH('a)"
    by (simp add: assms power_mult)
  then have "unat (word_of_nat (le_value bs) :: 'a word) = le_value bs"
    using le_value_bound [of bs] by (simp add: unat_of_nat)
  then show ?thesis
    using assms by (simp add: to_le_def from_le_def)
qed

lemma from_le_to_le_u16 [simp, byte_simps]: "from_le (to_le (w :: u16)) = w"
  by (rule from_le_to_le [where n = 2]) simp

lemma from_le_to_le_u32 [simp, byte_simps]: "from_le (to_le (w :: u32)) = w"
  by (rule from_le_to_le [where n = 4]) simp

lemma from_le_to_le_u64 [simp, byte_simps]: "from_le (to_le (w :: u64)) = w"
  by (rule from_le_to_le [where n = 8]) simp

lemma to_le_from_le_u16 [byte_simps]: "length bs = 2 \<Longrightarrow> to_le (from_le bs :: u16) = bs"
  by (rule to_le_from_le) simp

lemma to_le_from_le_u32 [byte_simps]: "length bs = 4 \<Longrightarrow> to_le (from_le bs :: u32) = bs"
  by (rule to_le_from_le) simp

lemma to_le_from_le_u64 [byte_simps]: "length bs = 8 \<Longrightarrow> to_le (from_le bs :: u64) = bs"
  by (rule to_le_from_le) simp

section \<open>Slices\<close>

text \<open>\<open>buf[a..b]\<close>, used only where the code has checked \<open>b \<le> len\<close>.\<close>

definition subslice :: "nat \<Rightarrow> nat \<Rightarrow> 'a list \<Rightarrow> 'a list" where
  "subslice a b xs = take (b - a) (drop a xs)"

lemma length_subslice [simp]: "length (subslice a b xs) = min (b - a) (length xs - a)"
  by (simp add: subslice_def)

lemma subslice_append_drop: "a \<le> b \<Longrightarrow> subslice a b xs @ drop b xs = drop a xs"
proof -
  assume "a \<le> b"
  then have "drop b xs = drop (b - a) (drop a xs)" by simp
  then show ?thesis by (simp only: subslice_def append_take_drop_id)
qed

lemma subslice_append:
  assumes "a \<le> b" "b \<le> c"
  shows "subslice a b xs @ subslice b c xs = subslice a c xs"
proof -
  have "c - a = (b - a) + (c - b)" using assms by simp
  moreover have "drop (b - a) (drop a xs) = drop b xs" using assms by simp
  ultimately show ?thesis by (simp only: subslice_def take_add)
qed

text \<open>Reading a field out of a buffer and writing it back.\<close>

lemma to_le_field_u16 [byte_simps]:
  "b = a + 2 \<Longrightarrow> b \<le> length xs \<Longrightarrow> to_le (from_le (subslice a b xs) :: u16) = subslice a b xs"
  by (intro to_le_from_le_u16) simp

lemma to_le_field_u32 [byte_simps]:
  "b = a + 4 \<Longrightarrow> b \<le> length xs \<Longrightarrow> to_le (from_le (subslice a b xs) :: u32) = subslice a b xs"
  by (intro to_le_from_le_u32) simp

lemma to_le_field_u64 [byte_simps]:
  "b = a + 8 \<Longrightarrow> b \<le> length xs \<Longrightarrow> to_le (from_le (subslice a b xs) :: u64) = subslice a b xs"
  by (intro to_le_from_le_u64) simp

lemma subslice_0_drop [byte_simps]: "subslice 0 b xs @ drop b xs = xs"
  by (simp add: subslice_def)

lemma subslice_join [byte_simps]:
  "a \<le> b \<Longrightarrow> subslice a b xs @ drop b xs = drop a xs"
  "a \<le> b \<Longrightarrow> b \<le> c \<Longrightarrow> subslice a b xs @ subslice b c xs = subslice a c xs"
  "a \<le> b \<Longrightarrow> b \<le> c \<Longrightarrow> subslice a b xs @ subslice b c xs @ ys = subslice a c xs @ ys"
  by (simp_all add: subslice_append_drop subslice_append flip: append_assoc)

lemma subslice_whole: "subslice a (length xs) xs = drop a xs"
  by (simp add: subslice_def)

end
