(* ===== verification/BMap.thy ===== *)
theory BMap
  imports Prelude "HOL-Library.List_Lexorder"
begin

text \<open>
  The standard library's \<open>BTreeMap\<close>: a finite map that iterates in ascending key order.  The
  type holds the entries as a list with strictly ascending keys, so iteration order, \<open>len\<close>,
  the first key and \<open>split_off\<close> are those of the library, and two maps are equal exactly when
  they hold the same entries.
\<close>

named_theorems bmap_simps "lookups after the operations of an ordered map"

section \<open>The type\<close>

typedef (overloaded) ('k::linorder, 'v) bmap =
  "{xs :: ('k \<times> 'v) list. sorted_wrt (<) (map fst xs)}"
  morphisms bm_entries Abs_bmap
proof
  show "[] \<in> {xs :: ('k \<times> 'v) list. sorted_wrt (<) (map fst xs)}" by simp
qed

setup_lifting type_definition_bmap

fun ins_entry :: "'k::linorder \<Rightarrow> 'v \<Rightarrow> ('k \<times> 'v) list \<Rightarrow> ('k \<times> 'v) list" where
  "ins_entry k v [] = [(k, v)]"
| "ins_entry k v ((j, w) # xs) =
     (if k < j then (k, v) # (j, w) # xs
      else if k = j then (k, v) # xs
      else (j, w) # ins_entry k v xs)"

lemma keys_ins_entry: "set (map fst (ins_entry k v xs)) = insert k (set (map fst xs))"
proof (induction xs)
  case Nil
  then show ?case by simp
next
  case (Cons x xs)
  obtain j w where x: "x = (j, w)" by (cases x)
  show ?case
    by (simp add: x Cons.IH insert_commute del: set_map)
qed

lemma sorted_ins_entry:
  "sorted_wrt (<) (map fst xs) \<Longrightarrow> sorted_wrt (<) (map fst (ins_entry k v xs))"
proof (induction xs)
  case Nil
  then show ?case by simp
next
  case (Cons x xs)
  obtain j w where x: "x = (j, w)" by (cases x)
  show ?case
    using Cons keys_ins_entry [of k v xs] by (auto simp: x)
qed

lemma map_of_ins_entry:
  "sorted_wrt (<) (map fst xs) \<Longrightarrow> map_of (ins_entry k v xs) = (map_of xs)(k \<mapsto> v)"
  by (induction xs) (auto simp: fun_eq_iff)

lemma sorted_filter_entries:
  "sorted_wrt (<) (map fst xs) \<Longrightarrow> sorted_wrt (<) (map fst (filter P xs))"
  by (induction xs) auto

lemma map_of_below_None: "\<forall>y \<in> set xs. j < fst y \<Longrightarrow> map_of xs (j :: 'a::linorder) = None"
  by (induction xs) auto

lemma map_of_filter_entries:
  fixes xs :: "('k::linorder \<times> 'v) list"
  assumes "sorted_wrt (<) (map fst xs)"
  shows "map_of (filter P xs) k =
    (case map_of xs k of None \<Rightarrow> None | Some v \<Rightarrow> if P (k, v) then Some v else None)"
  using assms
proof (induction xs)
  case Nil
  then show ?case by simp
next
  case (Cons x xs)
  obtain j w where x: "x = (j, w)" by (cases x)
  have "\<forall>y \<in> set xs. j < fst y" using Cons.prems by (simp add: x)
  then have none: "map_of xs j = None" by (rule map_of_below_None)
  have IH: "map_of (filter P xs) k =
      (case map_of xs k of None \<Rightarrow> None | Some v \<Rightarrow> if P (k, v) then Some v else None)"
    using Cons by simp
  show ?case
    by (cases "k = j") (use IH none in \<open>simp_all add: x\<close>)
qed

section \<open>The operations\<close>

lift_definition bm_empty :: "('k::linorder, 'v) bmap" is "[]" by simp

definition bm_get :: "('k::linorder, 'v) bmap \<Rightarrow> 'k \<Rightarrow> 'v option" where
  "bm_get m = map_of (bm_entries m)"

definition bm_contains :: "('k::linorder, 'v) bmap \<Rightarrow> 'k \<Rightarrow> bool" where
  "bm_contains m k \<longleftrightarrow> bm_get m k \<noteq> None"

definition bm_keys :: "('k::linorder, 'v) bmap \<Rightarrow> 'k list" where
  "bm_keys m = map fst (bm_entries m)"

definition bm_values :: "('k::linorder, 'v) bmap \<Rightarrow> 'v list" where
  "bm_values m = map snd (bm_entries m)"

definition bm_len :: "('k::linorder, 'v) bmap \<Rightarrow> nat" where
  "bm_len m = length (bm_entries m)"

lift_definition bm_insert :: "'k::linorder \<Rightarrow> 'v \<Rightarrow> ('k, 'v) bmap \<Rightarrow> ('k, 'v) bmap"
  is ins_entry by (rule sorted_ins_entry)

text \<open>\<open>retain\<close>: the predicate sees key and value.\<close>

lift_definition bm_retain :: "('k \<times> 'v \<Rightarrow> bool) \<Rightarrow> ('k::linorder, 'v) bmap \<Rightarrow> ('k, 'v) bmap"
  is filter by (rule sorted_filter_entries)

definition bm_remove :: "'k::linorder \<Rightarrow> ('k, 'v) bmap \<Rightarrow> ('k, 'v) bmap" where
  "bm_remove k m = bm_retain (\<lambda>(j, _). j \<noteq> k) m"

text \<open>\<open>split_off(&k)\<close>, of which the code keeps the returned upper part.\<close>

definition bm_from :: "'k::linorder \<Rightarrow> ('k, 'v) bmap \<Rightarrow> ('k, 'v) bmap" where
  "bm_from k m = bm_retain (\<lambda>(j, _). k \<le> j) m"

text \<open>\<open>entry(k).or_insert(v)\<close>: the first value stays.\<close>

definition bm_or_insert :: "'k::linorder \<Rightarrow> 'v \<Rightarrow> ('k, 'v) bmap \<Rightarrow> ('k, 'v) bmap" where
  "bm_or_insert k v m = (if bm_contains m k then m else bm_insert k v m)"

text \<open>A pass of \<open>iter_mut\<close> that rewrites every value in place.\<close>

lift_definition bm_map :: "('k \<Rightarrow> 'v \<Rightarrow> 'w) \<Rightarrow> ('k::linorder, 'v) bmap \<Rightarrow> ('k, 'w) bmap"
  is "\<lambda>f. map (\<lambda>(k, v). (k, f k v))"
  by (simp add: comp_def split_beta)

text \<open>\<open>get_mut\<close> followed by an update of the value found.\<close>

definition bm_update :: "'k::linorder \<Rightarrow> ('v \<Rightarrow> 'v) \<Rightarrow> ('k, 'v) bmap \<Rightarrow> ('k, 'v) bmap" where
  "bm_update k f m = (case bm_get m k of None \<Rightarrow> m | Some v \<Rightarrow> bm_insert k (f v) m)"

definition bm_first :: "('k::linorder, 'v) bmap \<Rightarrow> 'k option" where
  "bm_first m = (case bm_keys m of [] \<Rightarrow> None | k # _ \<Rightarrow> Some k)"

section \<open>Laws\<close>

lemma bm_entries_sorted: "sorted_wrt (<) (bm_keys m)"
  using bm_entries [of m] by (simp add: bm_keys_def)

lemma bm_keys_distinct: "distinct (bm_keys m)"
  using bm_entries_sorted [of m] by (simp add: strict_sorted_iff)

lemma bm_get_empty [simp, bmap_simps]: "bm_get bm_empty k = None"
  by (simp add: bm_get_def bm_empty.rep_eq)

lemma bm_get_insert [simp, bmap_simps]:
  "bm_get (bm_insert k v m) j = (if j = k then Some v else bm_get m j)"
  using bm_entries [of m] by (simp add: bm_get_def bm_insert.rep_eq map_of_ins_entry)

lemma bm_get_retain [bmap_simps]:
  "bm_get (bm_retain P m) k =
     (case bm_get m k of None \<Rightarrow> None | Some v \<Rightarrow> if P (k, v) then Some v else None)"
  using bm_entries [of m] by (simp add: bm_get_def bm_retain.rep_eq map_of_filter_entries)

lemma bm_get_remove [simp, bmap_simps]:
  "bm_get (bm_remove k m) j = (if j = k then None else bm_get m j)"
  by (simp add: bm_remove_def bm_get_retain split: option.splits)

lemma bm_get_from [simp, bmap_simps]:
  "bm_get (bm_from k m) j = (if k \<le> j then bm_get m j else None)"
  by (simp add: bm_from_def bm_get_retain split: option.splits)

lemma bm_get_or_insert [bmap_simps]:
  "bm_get (bm_or_insert k v m) j =
     (if j = k \<and> bm_get m k = None then Some v else bm_get m j)"
  by (auto simp: bm_or_insert_def bm_contains_def)

lemma bm_get_map [simp, bmap_simps]:
  "bm_get (bm_map f m) k = map_option (f k) (bm_get m k)"
proof -
  have "map_of (map (\<lambda>(k, v). (k, f k v)) xs) k = map_option (f k) (map_of xs k)"
    for xs
    by (induction xs) auto
  then show ?thesis by (simp add: bm_get_def bm_map.rep_eq)
qed

lemma bm_get_update [bmap_simps]:
  "bm_get (bm_update k f m) j = (if j = k then map_option f (bm_get m k) else bm_get m j)"
  by (auto simp: bm_update_def split: option.splits)

lemma sorted_entries_determined:
  "sorted_wrt (<) (map fst xs) \<Longrightarrow> sorted_wrt (<) (map fst ys) \<Longrightarrow> map_of xs = map_of ys \<Longrightarrow>
   xs = ys" for xs ys :: "('k::linorder \<times> 'v) list"
proof -
  assume s: "sorted_wrt (<) (map fst xs)" "sorted_wrt (<) (map fst ys)" and e: "map_of xs = map_of ys"
  have "set (map fst ys) = set (map fst xs)"
    using e by (metis dom_map_of_conv_image_fst list.set_map)
  then have k: "map fst ys = map fst xs"
    by (rule strict_sorted_equal [OF s])
  have d: "distinct (map fst xs)" "distinct (map fst ys)"
    using s by (auto simp: strict_sorted_iff)
  show "xs = ys"
  proof (rule nth_equalityI)
    show len: "length xs = length ys" using k by (metis length_map)
    fix i assume i: "i < length xs"
    have f: "fst (xs ! i) = fst (ys ! i)"
      using k i len by (metis nth_map)
    have "map_of xs (fst (xs ! i)) = Some (snd (xs ! i))"
      using d i by (simp add: map_of_eq_Some_iff)
    moreover have "map_of ys (fst (ys ! i)) = Some (snd (ys ! i))"
      using d i len by (simp add: map_of_eq_Some_iff)
    ultimately show "xs ! i = ys ! i" using e f by (simp add: prod_eq_iff)
  qed
qed

lemma bm_eqI: "(\<And>k. bm_get m k = bm_get n k) \<Longrightarrow> m = n"
  using sorted_entries_determined [of "bm_entries m" "bm_entries n"] bm_entries [of m] bm_entries [of n]
  by (auto simp: bm_get_def bm_entries_inject fun_eq_iff)

text \<open>Keys, entries and length.\<close>

lemma set_bm_keys: "set (bm_keys m) = {k. bm_get m k \<noteq> None}"
  by (auto simp: bm_keys_def bm_get_def map_of_eq_None_iff)

lemma bm_entries_iff: "(k, v) \<in> set (bm_entries m) \<longleftrightarrow> bm_get m k = Some v"
  using bm_keys_distinct [of m] by (simp add: bm_get_def bm_keys_def map_of_eq_Some_iff)

lemma set_bm_values: "set (bm_values m) = {v. \<exists>k. bm_get m k = Some v}"
  by (force simp: bm_values_def bm_entries_iff [symmetric])

lemma bm_len_keys: "bm_len m = card {k. bm_get m k \<noteq> None}"
  by (metis bm_keys_def bm_keys_distinct bm_len_def distinct_card length_map set_bm_keys)

lemma finite_bm_dom [simp]: "finite {k. bm_get m k \<noteq> None}"
  by (metis List.finite_set set_bm_keys)

lemma bm_len_empty [simp]: "bm_len bm_empty = 0"
  by (simp add: bm_len_def bm_empty.rep_eq)

lemma bm_len_0_iff: "bm_len m = 0 \<longleftrightarrow> m = bm_empty"
  by (metis bm_empty.rep_eq bm_entries_inject bm_len_def length_0_conv)

lemma bm_len_insert:
  "bm_len (bm_insert k v m) = (if bm_get m k = None then Suc (bm_len m) else bm_len m)"
proof -
  have "{j. bm_get (bm_insert k v m) j \<noteq> None} = insert k {j. bm_get m j \<noteq> None}" by auto
  then show ?thesis
    by (simp only: bm_len_keys card_insert_if [OF finite_bm_dom] mem_Collect_eq) simp
qed

lemma bm_len_retain_le: "bm_len (bm_retain P m) \<le> bm_len m"
  by (simp add: bm_len_def bm_retain.rep_eq)

lemma bm_len_remove:
  "bm_len (bm_remove k m) = (if bm_get m k = None then bm_len m else bm_len m - 1)"
proof -
  have "{j. bm_get (bm_remove k m) j \<noteq> None} = {j. bm_get m j \<noteq> None} - {k}" by auto
  then show ?thesis by (auto simp: bm_len_keys card_Diff_singleton_if)
qed

lemma bm_len_map [simp]: "bm_len (bm_map f m) = bm_len m"
  by (simp add: bm_len_def bm_map.rep_eq)

lemma bm_keys_map [simp]: "bm_keys (bm_map f m) = bm_keys m"
  by (simp add: bm_keys_def bm_map.rep_eq comp_def split_beta)

lemma bm_len_update [simp]: "bm_len (bm_update k f m) = bm_len m"
  by (auto simp: bm_update_def bm_len_insert split: option.splits)

lemma bm_len_or_insert_le: "bm_len (bm_or_insert k v m) \<le> Suc (bm_len m)"
  by (simp add: bm_or_insert_def bm_len_insert)

lemma bm_len_from_le: "bm_len (bm_from k m) \<le> bm_len m"
  by (simp add: bm_from_def bm_len_retain_le)

lemma bm_contains_iff [simp]: "bm_contains m k \<longleftrightarrow> bm_get m k \<noteq> None"
  by (simp add: bm_contains_def)

lemma bm_update_absent: "bm_get m k = None \<Longrightarrow> bm_update k f m = m"
  by (simp add: bm_update_def)

lemma bm_remove_absent: "bm_get m k = None \<Longrightarrow> bm_remove k m = m"
  by (rule bm_eqI) simp

text \<open>The first key is the least one.\<close>

lemma bm_first_None [simp]: "bm_first m = None \<longleftrightarrow> m = bm_empty"
  by (auto simp: bm_first_def bm_keys_def bm_len_0_iff [symmetric] bm_len_def split: list.splits)

lemma bm_first_Some:
  assumes "bm_first m = Some k"
  shows "bm_get m k \<noteq> None" and "bm_get m j \<noteq> None \<Longrightarrow> k \<le> j"
proof -
  from assms obtain ks where ks: "bm_keys m = k # ks"
    by (auto simp: bm_first_def split: list.splits)
  then show "bm_get m k \<noteq> None"
    using set_bm_keys [of m] by auto
  show "k \<le> j" if "bm_get m j \<noteq> None"
  proof -
    have "j \<in> set (k # ks)" using that set_bm_keys [of m] ks by auto
    then show ?thesis using bm_entries_sorted [of m] ks by auto
  qed
qed

lemma bm_entries_empty [simp]: "bm_entries bm_empty = []"
  by (rule bm_empty.rep_eq)

lemma bm_keys_empty [simp]: "bm_keys bm_empty = []"
  by (simp add: bm_keys_def)

lemma bm_values_empty [simp]: "bm_values bm_empty = []"
  by (simp add: bm_values_def)

text \<open>Two maps are equal when their entries are.\<close>

instantiation bmap :: (linorder, equal) equal
begin

definition equal_bmap :: "('a, 'b) bmap \<Rightarrow> ('a, 'b) bmap \<Rightarrow> bool" where
  "equal_bmap m n \<longleftrightarrow> bm_entries m = bm_entries n"

instance
  by standard (simp add: equal_bmap_def bm_entries_inject)

end

text \<open>Evaluation of a map built by insertions.\<close>

lemmas bm_eval = bm_insert.rep_eq bm_retain.rep_eq bm_map.rep_eq bm_empty.rep_eq
  bm_keys_def bm_values_def bm_len_def bm_first_def bm_remove_def bm_from_def

end
