(* ===== verification/Ids.thy ===== *)
theory Ids
  imports BMap "HOL-Library.Char_ord"
begin

text \<open>
  The identifiers of \<open>crates/protocol/src/ids.rs\<close>, the error type of
  \<open>crates/protocol/src/error.rs\<close>, text as UTF-8 bytes, and the socket addresses of the standard
  library.  Identifiers are ordered as the derived \<open>Ord\<close> orders them, so that they can be keys
  of an ordered map.
\<close>

section \<open>Text\<close>

text \<open>A Rust \<open>str\<close> is its UTF-8 bytes; literals of the code are ASCII.\<close>

definition str :: "string \<Rightarrow> bytes" where
  "str s = map of_char s"

lemma length_str [simp]: "length (str s) = length s"
  by (simp add: str_def)

section \<open>Identifiers\<close>

datatype session_id = SessionId (session_bytes: bytes)

datatype token_id = TokenId (token_bytes: bytes)

datatype member_id = MemberId (member_num: u16)

datatype destination_id = DestinationId (destination_num: u16)

datatype role = Musician | Listener

definition HOST_MEMBER_ID :: member_id where
  "HOST_MEMBER_ID = MemberId 0"

instantiation member_id :: linorder
begin

definition less_eq_member_id :: "member_id \<Rightarrow> member_id \<Rightarrow> bool" where
  "less_eq_member_id a b \<longleftrightarrow> member_num a \<le> member_num b"

definition less_member_id :: "member_id \<Rightarrow> member_id \<Rightarrow> bool" where
  "less_member_id a b \<longleftrightarrow> member_num a < member_num b"

instance
  by standard
    (auto simp: less_eq_member_id_def less_member_id_def intro: member_id.expand)

end

instantiation destination_id :: linorder
begin

definition less_eq_destination_id :: "destination_id \<Rightarrow> destination_id \<Rightarrow> bool" where
  "less_eq_destination_id a b \<longleftrightarrow> destination_num a \<le> destination_num b"

definition less_destination_id :: "destination_id \<Rightarrow> destination_id \<Rightarrow> bool" where
  "less_destination_id a b \<longleftrightarrow> destination_num a < destination_num b"

instance
  by standard
    (auto simp: less_eq_destination_id_def less_destination_id_def intro: destination_id.expand)

end

lemma MemberId_le [simp]: "MemberId a \<le> MemberId b \<longleftrightarrow> a \<le> b"
  by (simp add: less_eq_member_id_def)

lemma MemberId_less [simp]: "MemberId a < MemberId b \<longleftrightarrow> a < b"
  by (simp add: less_member_id_def)

text \<open>\<open>format!("{b:02x}")\<close> of every byte.\<close>

definition hex_digit :: "nat \<Rightarrow> u8" where
  "hex_digit n = (if n < 10 then of_nat (48 + n) else of_nat (87 + n))"

definition hex :: "bytes \<Rightarrow> bytes" where
  "hex bs = concat (map (\<lambda>b. [hex_digit (unat b div 16), hex_digit (unat b mod 16)]) bs)"

definition session_hex :: "session_id \<Rightarrow> bytes" where
  "session_hex s = hex (session_bytes s)"

lemma length_hex: "length (hex bs) = 2 * length bs"
  by (simp add: hex_def length_concat comp_def sum_list_triv)

lemma unat_hex_digit: "n < 16 \<Longrightarrow> unat (hex_digit n) = (if n < 10 then 48 + n else 87 + n)"
  by (simp add: hex_digit_def unat_of_nat del: of_nat_add)

lemma hex_digit_inj: "m < 16 \<Longrightarrow> n < 16 \<Longrightarrow> hex_digit m = hex_digit n \<longleftrightarrow> m = n"
proof -
  assume mn: "m < 16" "n < 16"
  have "unat (hex_digit m) = unat (hex_digit n) \<Longrightarrow> m = n"
    using mn by (simp add: unat_hex_digit split: if_splits)
  then show ?thesis by auto
qed

lemma hex_byte_inj:
  "hex_digit (unat b div 16) = hex_digit (unat c div 16) \<Longrightarrow>
   hex_digit (unat b mod 16) = hex_digit (unat c mod 16) \<Longrightarrow> b = c" for b c :: u8
proof -
  assume "hex_digit (unat b div 16) = hex_digit (unat c div 16)"
    and "hex_digit (unat b mod 16) = hex_digit (unat c mod 16)"
  then have "unat b div 16 = unat c div 16" "unat b mod 16 = unat c mod 16"
    using unat_u8_less [of b] unat_u8_less [of c] by (simp_all add: hex_digit_inj less_mult_imp_div_less)
  then have "unat b = unat c" by (metis div_mult_mod_eq)
  then show "b = c" by (rule unsigned_word_eqI)
qed

lemma hex_inj: "hex a = hex b \<Longrightarrow> a = b"
proof (induction a arbitrary: b)
  case Nil
  then show ?case by (cases b) (simp_all add: hex_def)
next
  case (Cons x a)
  then show ?case by (cases b) (auto simp: hex_def intro: hex_byte_inj)
qed

section \<open>Errors\<close>

text \<open>
  The payloads of \<open>Handshake\<close> and \<open>Encode\<close> are the error values of the \<open>snow\<close> and \<open>postcard\<close>
  crates; no code branches on them and they are left out.
\<close>

datatype error =
    Malformed
  | UnknownPacketType u8
  | VersionMismatch u16 u16
  | Handshake
  | Invite string
  | Token string
  | Replay
  | Decrypt
  | Encode
  | LinkFull

section \<open>Addresses\<close>

datatype ip_addr = V4 (octets: bytes) | V6 (octets: bytes)

definition ip_ok :: "ip_addr \<Rightarrow> bool" where
  "ip_ok a = (case a of V4 o4 \<Rightarrow> length o4 = 4 | V6 o6 \<Rightarrow> length o6 = 16)"

datatype sock_addr = SockAddr (sock_ip: ip_addr) (sock_port: u16)

end
