(* ===== verification/Text.thy ===== *)
theory Text
  imports Ids
begin

text \<open>
  UTF-8 text and its truncation on a character boundary: \<open>fit_head\<close>, \<open>fit_stream_reason\<close> and
  \<open>fit_server_log_line\<close> of \<open>crates/protocol/src/control.rs\<close>, with the standard library's
  \<open>str::is_char_boundary\<close>, the validity every \<open>str\<close> has, and \<open>str::trim\<close>.
\<close>

section \<open>Valid text\<close>

definition utf8_cont :: "u8 \<Rightarrow> bool" where
  "utf8_cont b \<longleftrightarrow> 128 \<le> b \<and> b < 192"

definition cont_at :: "bytes \<Rightarrow> nat \<Rightarrow> bool" where
  "cont_at s i \<longleftrightarrow> i < length s \<and> utf8_cont (s ! i)"

text \<open>Length of a character by its first byte, 0 for a byte that starts none.\<close>

definition lead_len :: "u8 \<Rightarrow> nat" where
  "lead_len b =
     (if b < 128 then 1 else if 194 \<le> b \<and> b < 224 then 2
      else if 224 \<le> b \<and> b < 240 then 3 else if 240 \<le> b \<and> b < 245 then 4 else 0)"

text \<open>No overlong form, no surrogate, nothing past U+10FFFF.\<close>

definition second_ok :: "u8 \<Rightarrow> u8 \<Rightarrow> bool" where
  "second_ok b c \<longleftrightarrow> (b = 224 \<longrightarrow> 160 \<le> c) \<and> (b = 237 \<longrightarrow> c < 160) \<and> (b = 240 \<longrightarrow> 144 \<le> c) \<and>
     (b = 244 \<longrightarrow> c < 144)"

text \<open>Bytes of the character a string starts with; 0 when it starts with none.\<close>

definition char_len :: "bytes \<Rightarrow> nat" where
  "char_len s =
     (if s = [] then 0
      else (let n = lead_len (s ! 0) in
        if list_all (cont_at s) [1..<n] \<and> (1 < n \<longrightarrow> second_ok (s ! 0) (s ! 1)) then n else 0))"

lemma lead_len_le_4: "lead_len b \<le> 4"
  by (simp add: lead_len_def)

lemma lead_len_not_cont: "0 < lead_len b \<Longrightarrow> \<not> utf8_cont b"
  by (auto simp: lead_len_def utf8_cont_def word_le_nat_alt word_less_nat_alt split: if_splits)

lemma char_len_pos:
  "0 < char_len s \<longleftrightarrow> s \<noteq> [] \<and> 0 < lead_len (s ! 0) \<and> (\<forall>j. 0 < j \<and> j < lead_len (s ! 0) \<longrightarrow> cont_at s j) \<and>
     (1 < lead_len (s ! 0) \<longrightarrow> second_ok (s ! 0) (s ! 1))"
  by (auto simp: char_len_def Let_def list_all_iff Suc_le_eq)

lemma char_len_val: "0 < char_len s \<Longrightarrow> char_len s = lead_len (s ! 0)"
  by (auto simp: char_len_def Let_def split: if_splits)

lemma char_len_bound: "char_len s \<le> length s"
proof (cases "char_len s \<le> 1")
  case True
  then show ?thesis by (cases s) (auto simp: char_len_def)
next
  case False
  then have "cont_at s (char_len s - 1)"
    using char_len_pos [of s] char_len_val [of s] by simp
  then have "char_len s - 1 < length s" by (simp add: cont_at_def)
  then show ?thesis by linarith
qed

lemma char_len_le_4: "char_len s \<le> 4"
  using char_len_val [of s] lead_len_le_4 [of "s ! 0"] by (cases "0 < char_len s") auto

function valid_utf8 :: "bytes \<Rightarrow> bool" where
  "valid_utf8 s = (if s = [] then True
     else if char_len s = 0 then False else valid_utf8 (drop (char_len s) s))"
  by pat_completeness auto
termination
  by (relation "measure length") (use char_len_bound in \<open>auto simp: less_le_trans\<close>)

declare valid_utf8.simps [simp del]

lemma valid_utf8_Nil [simp]: "valid_utf8 []"
  by (subst valid_utf8.simps) simp

section \<open>Boundaries\<close>

definition is_char_boundary :: "bytes \<Rightarrow> nat \<Rightarrow> bool" where
  "is_char_boundary s i =
     (if i = 0 then True else if length s \<le> i then i = length s else \<not> utf8_cont (s ! i))"

text \<open>The loop that steps back to a boundary; index 0 always is one.\<close>

fun floor_boundary :: "bytes \<Rightarrow> nat \<Rightarrow> nat" where
  "floor_boundary s 0 = 0"
| "floor_boundary s (Suc e) = (if is_char_boundary s (Suc e) then Suc e else floor_boundary s e)"

definition fit_head :: "bytes \<Rightarrow> nat \<Rightarrow> bytes" where
  "fit_head text cap = (if length text \<le> cap then text else take (floor_boundary text cap) text)"

abbreviation (input) STREAM_REASON_BUDGET :: nat where "STREAM_REASON_BUDGET \<equiv> 128"
abbreviation (input) MAX_SERVER_LOG_LINE :: nat where "MAX_SERVER_LOG_LINE \<equiv> 320"

definition fit_stream_reason :: "bytes \<Rightarrow> bytes" where
  "fit_stream_reason reason = fit_head reason STREAM_REASON_BUDGET"

definition fit_server_log_line :: "bytes \<Rightarrow> bytes" where
  "fit_server_log_line line = fit_head line MAX_SERVER_LOG_LINE"

section \<open>Facts about the first character\<close>

lemma char_len_head:
  assumes "0 < char_len s"
  shows "\<not> utf8_cont (s ! 0)" and "0 < i \<Longrightarrow> i < char_len s \<Longrightarrow> cont_at s i"
  using char_len_val [OF assms] iffD1 [OF char_len_pos assms]
  by (auto simp: lead_len_not_cont)

lemma valid_unfold: "valid_utf8 s \<Longrightarrow> s \<noteq> [] \<Longrightarrow> 0 < char_len s \<and> valid_utf8 (drop (char_len s) s)"
  by (subst (asm) valid_utf8.simps) (simp split: if_splits)

lemma valid_starts: "valid_utf8 s \<Longrightarrow> s \<noteq> [] \<Longrightarrow> \<not> utf8_cont (s ! 0)"
  by (simp add: valid_unfold char_len_head)

text \<open>A boundary past the first character is a boundary of the rest.\<close>

lemma boundary_drop:
  assumes "valid_utf8 s" "s \<noteq> []" "char_len s \<le> i" "i \<le> length s"
  shows "is_char_boundary s i \<longleftrightarrow> is_char_boundary (drop (char_len s) s) (i - char_len s)"
proof -
  let ?n = "char_len s"
  have v: "valid_utf8 (drop ?n s)" "0 < ?n" using valid_unfold [OF assms(1,2)] by auto
  show ?thesis
  proof (cases "i = ?n \<and> i < length s")
    case True
    then have "\<not> utf8_cont (drop ?n s ! 0)" using v by (intro valid_starts) auto
    then show ?thesis using True v by (auto simp: is_char_boundary_def)
  next
    case False
    then show ?thesis using assms v by (auto simp: is_char_boundary_def)
  qed
qed

lemma boundary_inside:
  "0 < i \<Longrightarrow> i < char_len s \<Longrightarrow> \<not> is_char_boundary s i"
  using char_len_head(2) [of s i] char_len_bound [of s]
  by (auto simp: is_char_boundary_def cont_at_def)

text \<open>Cutting valid text at a boundary leaves valid text.\<close>

lemma char_len_take:
  assumes "char_len s \<le> i" "0 < char_len s"
  shows "char_len (take i s) = char_len s"
proof -
  let ?n = "lead_len (s ! 0)"
  have n: "char_len s = ?n" "?n \<le> length s"
    using char_len_val [OF assms(2)] char_len_bound [of s] by auto
  then have i: "0 < i" "?n \<le> i" "take i s ! 0 = s ! 0" using assms by auto
  have "0 < char_len (take i s)"
    using assms(2) i n unfolding char_len_pos by (auto simp: cont_at_def)
  from char_len_val [OF this] show ?thesis using i n by simp
qed

lemma valid_take_boundary:
  "valid_utf8 s \<Longrightarrow> i \<le> length s \<Longrightarrow> is_char_boundary s i \<Longrightarrow> valid_utf8 (take i s)"
proof (induction s arbitrary: i rule: valid_utf8.induct)
  case (1 s)
  let ?n = "char_len s"
  show ?case
  proof (cases "s = [] \<or> i = 0")
    case True
    then have "take i s = []" by auto
    then show ?thesis by (simp only: valid_utf8_Nil)
  next
    case False
    then have ne: "s \<noteq> []" and i: "0 < i" by auto
    have v: "0 < ?n" "valid_utf8 (drop ?n s)" using valid_unfold [OF "1.prems"(1) ne] by auto
    have ni: "?n \<le> i"
    proof (rule ccontr)
      assume "\<not> ?n \<le> i"
      then show False using boundary_inside [of i s] i "1.prems"(3) by simp
    qed
    have rest: "valid_utf8 (take (i - ?n) (drop ?n s))"
    proof (rule "1.IH" [OF ne])
      show "?n \<noteq> 0" using v by simp
      show "valid_utf8 (drop ?n s)" by (rule v)
      show "i - ?n \<le> length (drop ?n s)" using "1.prems"(2) by simp
      show "is_char_boundary (drop ?n s) (i - ?n)"
        using boundary_drop [OF "1.prems"(1) ne ni "1.prems"(2)] "1.prems"(3) by simp
    qed
    have len: "char_len (take i s) = ?n" by (rule char_len_take [OF ni v(1)])
    have "drop (char_len (take i s)) (take i s) = take (i - ?n) (drop ?n s)"
      by (simp only: len drop_take)
    then have "valid_utf8 (drop (char_len (take i s)) (take i s))" using rest by (simp only:)
    moreover have "char_len (take i s) \<noteq> 0" using len v(1) by simp
    ultimately show ?thesis by (subst valid_utf8.simps) (simp only: if_False if_True if_cancel)
  qed
qed

section \<open>The cut\<close>

lemma floor_boundary_numeral [simp]:
  "floor_boundary s (numeral k) =
     (if is_char_boundary s (numeral k) then numeral k else floor_boundary s (pred_numeral k))"
  by (simp only: numeral_eq_Suc [of k] floor_boundary.simps)

lemma floor_boundary_is: "is_char_boundary s (floor_boundary s e)"
  by (induction e) (auto simp: is_char_boundary_def)

lemma floor_boundary_le: "floor_boundary s e \<le> e"
  by (induction e) (auto simp: le_SucI)

lemma floor_boundary_greatest: "is_char_boundary s j \<Longrightarrow> j \<le> e \<Longrightarrow> j \<le> floor_boundary s e"
  by (induction e) (auto simp: le_Suc_eq)

text \<open>No position is more than three bytes past a boundary.\<close>

lemma boundary_near:
  "valid_utf8 s \<Longrightarrow> i \<le> length s \<Longrightarrow> \<exists>j. is_char_boundary s j \<and> j \<le> i \<and> i \<le> j + 3"
proof (induction s arbitrary: i rule: valid_utf8.induct)
  case (1 s)
  let ?n = "char_len s"
  show ?case
  proof (cases "s = [] \<or> i < ?n")
    case True
    then have "is_char_boundary s 0 \<and> 0 \<le> i \<and> i \<le> 0 + 3"
      using char_len_le_4 [of s] "1.prems"(2) by (auto simp: is_char_boundary_def)
    then show ?thesis by blast
  next
    case False
    then have ne: "s \<noteq> []" and ni: "?n \<le> i" by auto
    have v: "0 < ?n" "valid_utf8 (drop ?n s)" using valid_unfold [OF "1.prems"(1) ne] by auto
    have "\<exists>j. is_char_boundary (drop ?n s) j \<and> j \<le> i - ?n \<and> i - ?n \<le> j + 3"
      using "1.IH" [OF ne _ v(2), of "i - ?n"] v "1.prems"(2) by simp
    then obtain j where j: "is_char_boundary (drop ?n s) j" "j \<le> i - ?n" "i - ?n \<le> j + 3" by blast
    have "is_char_boundary s (?n + j)"
      using boundary_drop [OF "1.prems"(1) ne, of "?n + j"] j ni "1.prems"(2) by simp
    moreover have "?n + j \<le> i \<and> i \<le> ?n + j + 3" using j ni by auto
    ultimately show ?thesis by blast
  qed
qed

lemma fit_head_length: "length (fit_head s cap) \<le> cap"
  using floor_boundary_le [of s cap] by (auto simp: fit_head_def)

lemma fit_head_valid: "valid_utf8 s \<Longrightarrow> valid_utf8 (fit_head s cap)"
  using floor_boundary_le [of s cap]
  by (auto simp: fit_head_def intro!: valid_take_boundary floor_boundary_is)

lemma fit_head_prefix: "fit_head s cap = take (length (fit_head s cap)) s"
  using floor_boundary_le [of s cap] by (auto simp: fit_head_def)

lemma fit_head_keeps:
  assumes "valid_utf8 s"
  shows "min cap (length s) \<le> length (fit_head s cap) + 3"
proof (cases "length s \<le> cap")
  case True
  then show ?thesis by (simp add: fit_head_def)
next
  case False
  obtain j where j: "is_char_boundary s j" "j \<le> cap" "cap \<le> j + 3"
    using boundary_near [OF assms, of cap] False by auto
  have "j \<le> floor_boundary s cap" by (rule floor_boundary_greatest [OF j(1,2)])
  then show ?thesis using j floor_boundary_le [of s cap] False by (simp add: fit_head_def)
qed

text \<open>Cutting a reason or a log line to its cap keeps the head: the result is valid text, a
  prefix of the line, within the cap, and loses at most three bytes of what would have fitted.\<close>

theorem fit_head_correct:
  assumes "valid_utf8 s"
  shows "valid_utf8 (fit_head s cap) \<and> length (fit_head s cap) \<le> cap \<and>
    fit_head s cap = take (length (fit_head s cap)) s \<and>
    min cap (length s) \<le> length (fit_head s cap) + 3"
  using assms fit_head_valid fit_head_length fit_head_prefix fit_head_keeps by blast

theorem fit_head_correct_witness:
  "valid_utf8 [97, 226, 130, 172] \<and> length (fit_head [97, 226, 130, 172] 3) = 1"
proof -
  have v: "valid_utf8 [97, 226, 130, 172]"
    by (simp add: valid_utf8.simps char_len_def lead_len_def second_ok_def cont_at_def
        utf8_cont_def Let_def upt_rec)
  have "fit_head [97, 226, 130, 172] 3 = [97]"
    by (simp add: fit_head_def is_char_boundary_def utf8_cont_def)
  then show ?thesis using v fit_head_correct [OF v, of 3] by simp
qed


section \<open>Trimming\<close>

text \<open>The UTF-8 forms of the characters with the Unicode property \<open>White_Space\<close>.\<close>

definition WHITESPACE :: "bytes list" where
  "WHITESPACE = [[9], [10], [11], [12], [13], [32], [194, 133], [194, 160], [225, 154, 128],
     [226, 128, 128], [226, 128, 129], [226, 128, 130], [226, 128, 131], [226, 128, 132],
     [226, 128, 133], [226, 128, 134], [226, 128, 135], [226, 128, 136], [226, 128, 137],
     [226, 128, 138], [226, 128, 168], [226, 128, 169], [226, 128, 175], [226, 129, 159],
     [227, 128, 128]]"

fun trim_front :: "nat \<Rightarrow> bytes list \<Rightarrow> bytes \<Rightarrow> bytes" where
  "trim_front 0 ws s = s"
| "trim_front (Suc n) ws s =
     (case find (\<lambda>w. take (length w) s = w) ws of
        None \<Rightarrow> s
      | Some w \<Rightarrow> trim_front n ws (drop (length w) s))"

text \<open>\<open>str::trim\<close>; every round drops at least a byte, so the length is fuel enough.\<close>

definition str_trim :: "bytes \<Rightarrow> bytes" where
  "str_trim s =
     (let t = trim_front (length s) WHITESPACE s
      in rev (trim_front (length t) (map rev WHITESPACE) (rev t)))"

lemma trim_front_length: "length (trim_front n ws s) \<le> length s"
proof (induction n arbitrary: s)
  case 0
  then show ?case by simp
next
  case (Suc n)
  have "length (trim_front n ws (drop k s)) \<le> length s" for k
    using Suc.IH [of "drop k s"] by simp
  then show ?case by (simp split: option.splits)
qed

lemma str_trim_length: "length (str_trim s) \<le> length s"
  using trim_front_length [of "length s" WHITESPACE s]
    trim_front_length [of "length (trim_front (length s) WHITESPACE s)" "map rev WHITESPACE"
      "rev (trim_front (length s) WHITESPACE s)"]
  by (simp add: str_trim_def Let_def)

lemma trim_front_none: "find (\<lambda>w. take (length w) s = w) ws = None \<Longrightarrow> trim_front n ws s = s"
  by (cases n) simp_all

text \<open>Text that begins and ends with a printable ASCII byte is left alone.\<close>

lemma whitespace_heads: "w \<in> set WHITESPACE \<Longrightarrow> w \<noteq> [] \<and> (hd w \<le> 32 \<or> 128 \<le> hd w) \<and> (last w \<le> 32 \<or> 128 \<le> last w)"
  by (auto simp: WHITESPACE_def)

lemma str_trim_id:
  assumes "s \<noteq> []" "32 < hd s" "hd s < 128" "32 < last s" "last s < 128"
  shows "str_trim s = s"
proof -
  have front: "find (\<lambda>w. take (length w) s = w) WHITESPACE = None"
  proof (rule ccontr)
    assume "find (\<lambda>w. take (length w) s = w) WHITESPACE \<noteq> None"
    then obtain w where w: "w \<in> set WHITESPACE" "take (length w) s = w"
      by (auto simp: find_None_iff)
    have "hd w = hd s" using w whitespace_heads [OF w(1)] by (metis hd_take length_greater_0_conv)
    then show False using whitespace_heads [OF w(1)] assms by auto
  qed
  have rear: "find (\<lambda>w. take (length w) (rev s) = w) (map rev WHITESPACE) = None"
  proof (rule ccontr)
    assume "find (\<lambda>w. take (length w) (rev s) = w) (map rev WHITESPACE) \<noteq> None"
    then obtain w where w: "w \<in> set WHITESPACE" "take (length w) (rev s) = rev w"
      by (auto simp: find_None_iff)
    have "hd (rev w) = hd (rev s)" using w whitespace_heads [OF w(1)] by (metis hd_take length_greater_0_conv)
    then have "last w = last s" by (simp add: hd_rev)
    then show False using whitespace_heads [OF w(1)] assms by auto
  qed
  show ?thesis by (simp add: str_trim_def trim_front_none [OF front] trim_front_none [OF rear])
qed

section \<open>Numbers as text\<close>

fun decimal_digits :: "nat \<Rightarrow> bytes" where
  "decimal_digits n = (if n < 10 then [of_nat (48 + n)]
     else decimal_digits (n div 10) @ [of_nat (48 + n mod 10)])"

declare decimal_digits.simps [simp del]

lemma length_decimal_digits: "n < 10 ^ Suc k \<Longrightarrow> length (decimal_digits n) \<le> Suc k"
proof (induction k arbitrary: n)
  case 0
  then show ?case by (subst decimal_digits.simps) simp
next
  case (Suc k)
  then have "n div 10 < 10 ^ Suc k" by (simp add: less_mult_imp_div_less)
  then have "length (decimal_digits (n div 10)) \<le> Suc k" by (rule Suc.IH)
  then show ?case by (subst decimal_digits.simps) simp
qed

end
