(* ===== verification/Control.thy ===== *)
theory Control
  imports Text
begin

text \<open>
  The messages of the control plane: the types of \<open>crates/protocol/src/control.rs\<close> that travel,
  and \<open>check_lengths\<close>, the caps both ends of a link apply to every variable-length field.

  A \<open>String\<close> is its bytes (valid UTF-8 wherever the code can build one, \<open>msg_text_ok\<close>), a
  \<open>[u8; 32]\<close> a byte list of that length, and an \<open>f32\<close> its IEEE 754 bit pattern.
\<close>

section \<open>Caps\<close>

abbreviation (input) MAX_CHAT_LEN :: nat where "MAX_CHAT_LEN \<equiv> 1000"
abbreviation (input) MAX_NAME_LEN :: nat where "MAX_NAME_LEN \<equiv> 64"
abbreviation (input) MAX_STREAM_KEY_LEN :: nat where "MAX_STREAM_KEY_LEN \<equiv> 256"
abbreviation (input) MAX_STREAM_REASON_LEN :: nat where "MAX_STREAM_REASON_LEN \<equiv> 200"
abbreviation (input) MAX_DESTINATIONS :: nat where "MAX_DESTINATIONS \<equiv> 8"
abbreviation (input) MAX_RECORD_REASON_LEN :: nat where "MAX_RECORD_REASON_LEN \<equiv> 200"
abbreviation (input) MAX_AVATAR_BYTES :: nat where "MAX_AVATAR_BYTES \<equiv> 262144"
abbreviation (input) AVATAR_CHUNK_BYTES :: nat where "AVATAR_CHUNK_BYTES \<equiv> 1024"
abbreviation (input) MAX_DATAGRAM_BYTES :: nat where "MAX_DATAGRAM_BYTES \<equiv> 2048"

section \<open>Types\<close>

type_synonym f32 = u32

type_synonym hash32 = bytes

datatype stream_platform = Twitch | YouTube

definition platform_as_str :: "stream_platform \<Rightarrow> bytes" where
  "platform_as_str p = (case p of Twitch \<Rightarrow> str ''twitch'' | YouTube \<Rightarrow> str ''youtube'')"

datatype stream_key = StreamKey (expose: bytes)

definition key_len :: "stream_key \<Rightarrow> nat" where
  "key_len k = length (expose k)"

definition key_is_empty :: "stream_key \<Rightarrow> bool" where
  "key_is_empty k \<longleftrightarrow> expose k = []"

datatype stream_op =
    AddDestination destination_id stream_platform stream_key
  | RemoveDestination destination_id
  | StreamStart
  | StreamStop

datatype destination_state =
    DestIdle
  | DestConnecting
  | DestLive
  | DestFailed (dest_reason: bytes)

datatype broadcast_readiness = Ready | Unavailable (unavailable_reason: bytes)

record destination_status =
  ds_id :: destination_id
  ds_platform :: stream_platform
  ds_state :: destination_state
  ds_bitrate_kbps :: u32
  ds_dropped_frames :: u64
  ds_repeated_frames :: u64

datatype record_op = RecordStart | RecordStop

datatype recording_state =
    RecIdle
  | RecRecording
  | RecUploading
  | RecFailed (rec_reason: bytes)

record member_info =
  mi_id :: member_id
  mi_role :: role
  mi_name :: bytes
  mi_connected :: bool
  mi_avatar_hash :: "hash32 option"
  mi_quiet :: bool

datatype control_msg =
    Roster "member_info list"
  | Chat member_id bytes  \<comment> \<open>from, text\<close>
  | MixerSet member_id f32 f32 bool  \<comment> \<open>target, gain in dB, pan, muted\<close>
  | MetronomeSet u16 u8 bool  \<comment> \<open>bpm, beats per bar, enabled\<close>
  | ClickEnable bool
  | Ping u32 u64  \<comment> \<open>nonce, time sent\<close>
  | Pong u32 u64
  | Revoke token_id
  | Bye bytes
  | Stats f32 u16 f32  \<comment> \<open>uplink loss, jitter depth, recovered\<close>
  | BroadcastMixSet member_id f32 f32 bool
  | BroadcastAudition bool
  | SetAvatar hash32 u32  \<comment> \<open>hash, length\<close>
  | AvatarChunk hash32 u16 u16 bytes  \<comment> \<open>hash, index, total, data\<close>
  | AvatarRequest hash32
  | StreamCtl stream_op
  | StreamStatus "destination_status list"
  | RecordCtl record_op
  | RecordStatus recording_state bool  \<comment> \<open>state, stems\<close>
  | SetName bytes
  | BroadcastReady broadcast_readiness
  | ServerLog bytes
  | HearSelf bool

section \<open>The length rules\<close>

definition state_reason_ok :: "destination_state \<Rightarrow> bool" where
  "state_reason_ok s =
     (case s of DestFailed reason \<Rightarrow> length reason \<le> MAX_STREAM_REASON_LEN | _ \<Rightarrow> True)"

fun check_lengths :: "control_msg \<Rightarrow> (unit, error) result" where
  "check_lengths (Chat _ text) =
     (if MAX_CHAT_LEN < length text then Err Malformed else Ok ())"
| "check_lengths (Bye reason) =
     (if MAX_CHAT_LEN < length reason then Err Malformed else Ok ())"
| "check_lengths (AvatarChunk _ _ _ data) =
     (if AVATAR_CHUNK_BYTES < length data then Err Malformed else Ok ())"
| "check_lengths (StreamCtl op) =
     (case op of
        AddDestination _ _ key \<Rightarrow>
          (if key_is_empty key \<or> MAX_STREAM_KEY_LEN < key_len key then Err Malformed else Ok ())
      | _ \<Rightarrow> Ok ())"
| "check_lengths (StreamStatus destinations) =
     (if MAX_DESTINATIONS < length destinations then Err Malformed
      else if list_ex (\<lambda>d. \<not> state_reason_ok (ds_state d)) destinations then Err Malformed
      else Ok ())"
| "check_lengths (RecordStatus state _) =
     (case state of
        RecFailed reason \<Rightarrow>
          (if MAX_RECORD_REASON_LEN < length reason then Err Malformed else Ok ())
      | _ \<Rightarrow> Ok ())"
| "check_lengths (BroadcastReady state) =
     (case state of
        Unavailable reason \<Rightarrow>
          (if MAX_STREAM_REASON_LEN < length reason then Err Malformed else Ok ())
      | _ \<Rightarrow> Ok ())"
| "check_lengths (ServerLog line) =
     (if MAX_SERVER_LOG_LINE < length line then Err Malformed else Ok ())"
| "check_lengths (Roster members) =
     (if list_ex (\<lambda>m. MAX_NAME_LEN < length (mi_name m)) members then Err Malformed else Ok ())"
| "check_lengths (SetName name) =
     (if MAX_NAME_LEN < length name then Err Malformed else Ok ())"
| "check_lengths _ = Ok ()"

lemma check_lengths_err: "check_lengths m = Err e \<Longrightarrow> e = Malformed"
  by (cases m)
    (auto split: if_splits stream_op.splits recording_state.splits broadcast_readiness.splits)

lemma check_lengths_cases: "check_lengths m = Ok () \<or> check_lengths m = Err Malformed"
  by (cases m)
    (auto split: stream_op.splits recording_state.splits broadcast_readiness.splits)

section \<open>What a sender can hold\<close>

text \<open>Strings are UTF-8 and hashes and token ids have their array length.\<close>

definition member_info_text_ok :: "member_info \<Rightarrow> bool" where
  "member_info_text_ok m \<longleftrightarrow> valid_utf8 (mi_name m) \<and>
     (case mi_avatar_hash m of None \<Rightarrow> True | Some h \<Rightarrow> length h = 32)"

definition dest_status_text_ok :: "destination_status \<Rightarrow> bool" where
  "dest_status_text_ok d \<longleftrightarrow>
     (case ds_state d of DestFailed r \<Rightarrow> valid_utf8 r | _ \<Rightarrow> True)"

fun msg_text_ok :: "control_msg \<Rightarrow> bool" where
  "msg_text_ok (Roster members) = list_all member_info_text_ok members"
| "msg_text_ok (Chat _ text) = valid_utf8 text"
| "msg_text_ok (Revoke jti) = (length (token_bytes jti) = 16)"
| "msg_text_ok (Bye reason) = valid_utf8 reason"
| "msg_text_ok (SetAvatar hash _) = (length hash = 32)"
| "msg_text_ok (AvatarChunk hash _ _ _) = (length hash = 32)"
| "msg_text_ok (AvatarRequest hash) = (length hash = 32)"
| "msg_text_ok (StreamCtl op) =
     (case op of AddDestination _ _ key \<Rightarrow> valid_utf8 (expose key) | _ \<Rightarrow> True)"
| "msg_text_ok (StreamStatus ds) = list_all dest_status_text_ok ds"
| "msg_text_ok (RecordStatus state _) =
     (case state of RecFailed r \<Rightarrow> valid_utf8 r | _ \<Rightarrow> True)"
| "msg_text_ok (SetName name) = valid_utf8 name"
| "msg_text_ok (BroadcastReady state) =
     (case state of Unavailable r \<Rightarrow> valid_utf8 r | _ \<Rightarrow> True)"
| "msg_text_ok (ServerLog line) = valid_utf8 line"
| "msg_text_ok _ = True"

text \<open>A status built the way the code builds one always passes the rules of the link.\<close>

definition reason_fitted :: "destination_state \<Rightarrow> bool" where
  "reason_fitted s = (case s of DestFailed r \<Rightarrow> (\<exists>raw. r = fit_stream_reason raw) | _ \<Rightarrow> True)"

lemma fit_stream_reason_length: "length (fit_stream_reason raw) \<le> MAX_STREAM_REASON_LEN"
  using fit_head_length [of raw 128] by (simp add: fit_stream_reason_def)

lemma fitted_reason_ok: "reason_fitted s \<Longrightarrow> state_reason_ok s"
  by (auto simp: reason_fitted_def state_reason_ok_def fit_stream_reason_length
      split: destination_state.splits)

lemma fitted_status_sendable:
  assumes "length ds \<le> MAX_DESTINATIONS" "list_all (\<lambda>d. reason_fitted (ds_state d)) ds"
  shows "check_lengths (StreamStatus ds) = Ok ()"
proof -
  have "\<not> list_ex (\<lambda>d. \<not> state_reason_ok (ds_state d)) ds"
    using assms(2) fitted_reason_ok by (auto simp: list_ex_iff list_all_iff)
  then show ?thesis using assms(1) by simp
qed

lemma fitted_log_line_sendable: "check_lengths (ServerLog (fit_server_log_line line)) = Ok ()"
  using fit_head_length [of line 320] by (simp add: fit_server_log_line_def not_less)

end
