(* ===== verification/Interfaces.thy ===== *)
theory Interfaces
  imports Prelude
begin

text \<open>
  The contracts the components rely on, as locales.  Each is interpreted on the model's own
  definitions in the theory that provides them: a codec that reads back what it wrote, a codec
  in which every accepted byte string is the one encoding of its value, a machine whose every
  step keeps an invariant, a filter that lets each key through at most once, and a limiter whose
  grants are bounded by the budget it had.
\<close>

section \<open>Codecs\<close>

locale byte_codec =
  fixes enc :: "'a \<Rightarrow> 'b"
    and dec :: "'b \<Rightarrow> 'e + 'a"
    and valid :: "'a \<Rightarrow> bool"
  assumes dec_enc: "valid x \<Longrightarrow> dec (enc x) = Inr x"
begin

lemma enc_inj: "valid x \<Longrightarrow> valid y \<Longrightarrow> enc x = enc y \<Longrightarrow> x = y"
  by (metis dec_enc sum.inject(2))

end

locale canonical_codec = byte_codec +
  assumes enc_dec: "dec b = Inr x \<Longrightarrow> enc x = b"
    and dec_valid: "dec b = Inr x \<Longrightarrow> valid x"
begin

lemma dec_iff: "dec b = Inr x \<longleftrightarrow> valid x \<and> b = enc x"
  using dec_enc dec_valid enc_dec by blast

lemma dec_inj: "dec b = Inr x \<Longrightarrow> dec c = Inr x \<Longrightarrow> b = c"
  using enc_dec by blast

end

section \<open>Machines with an invariant\<close>

locale invariant_machine =
  fixes step :: "'s \<Rightarrow> 'e \<Rightarrow> 's"
    and inv :: "'s \<Rightarrow> bool"
    and ok :: "'e \<Rightarrow> bool"
  assumes step_inv: "inv s \<Longrightarrow> ok e \<Longrightarrow> inv (step s e)"
begin

lemma run_inv: "inv s \<Longrightarrow> list_all ok es \<Longrightarrow> inv (foldl step s es)"
  by (induction es arbitrary: s) (auto intro: step_inv)

lemma run_inv_prefix:
  assumes "inv s" "list_all ok (es @ fs)"
  shows "inv (foldl step s es)"
  using assms by (auto intro: run_inv)

end

section \<open>Filters that accept each key once\<close>

locale once_filter =
  fixes accept :: "'w \<Rightarrow> 'k \<Rightarrow> bool \<times> 'w"
    and refused :: "'w \<Rightarrow> 'k \<Rightarrow> bool"
    and inv :: "'w \<Rightarrow> bool"
  assumes accept_iff: "inv w \<Longrightarrow> fst (accept w k) \<longleftrightarrow> \<not> refused w k"
    and accept_refuses: "inv w \<Longrightarrow> refused (snd (accept w k)) k"
    and refused_mono: "inv w \<Longrightarrow> refused w k \<Longrightarrow> refused (snd (accept w j)) k"
    and accept_inv: "inv w \<Longrightarrow> inv (snd (accept w k))"
begin

fun accepted :: "'w \<Rightarrow> 'k list \<Rightarrow> 'k list" where
  "accepted w [] = []"
| "accepted w (k # ks) =
     (let (a, w') = accept w k in if a then k # accepted w' ks else accepted w' ks)"

lemma refused_not_accepted:
  "inv w \<Longrightarrow> refused w k \<Longrightarrow> k \<notin> set (accepted w ks)"
proof (induction ks arbitrary: w)
  case Nil
  then show ?case by simp
next
  case (Cons j ks)
  have "refused (snd (accept w j)) k" "inv (snd (accept w j))"
    using Cons.prems by (auto intro: refused_mono accept_inv)
  then have "k \<notin> set (accepted (snd (accept w j)) ks)"
    by (intro Cons.IH)
  moreover have "j \<noteq> k" if "fst (accept w j)"
    using that Cons.prems accept_iff by blast
  ultimately show ?case by (auto simp: split_beta Let_def)
qed

lemma accepted_distinct: "inv w \<Longrightarrow> distinct (accepted w ks)"
proof (induction ks arbitrary: w)
  case Nil
  then show ?case by simp
next
  case (Cons j ks)
  have "j \<notin> set (accepted (snd (accept w j)) ks)"
    using Cons.prems by (intro refused_not_accepted) (auto intro: accept_inv accept_refuses)
  moreover have "distinct (accepted (snd (accept w j)) ks)"
    using Cons.prems by (intro Cons.IH accept_inv)
  ultimately show ?case by (simp add: split_beta Let_def)
qed

end

section \<open>Rate limiters\<close>

text \<open>
  \<open>allowance b t\<close> bounds what the limiter can still grant up to time \<open>t\<close>; a grant lowers it.
\<close>

locale rate_limiter =
  fixes spend :: "'b \<Rightarrow> nat \<Rightarrow> bool \<times> 'b"
    and allowance :: "'b \<Rightarrow> nat \<Rightarrow> nat"
    and inv :: "'b \<Rightarrow> bool"
  assumes spend_grant: "inv b \<Longrightarrow> fst (spend b t) \<Longrightarrow> t \<le> h \<Longrightarrow>
      allowance (snd (spend b t)) h + 1 \<le> allowance b h"
    and spend_refuse: "inv b \<Longrightarrow> t \<le> h \<Longrightarrow> allowance (snd (spend b t)) h \<le> allowance b h"
    and spend_inv: "inv b \<Longrightarrow> inv (snd (spend b t))"
begin

fun grants :: "'b \<Rightarrow> nat list \<Rightarrow> nat" where
  "grants b [] = 0"
| "grants b (t # ts) =
     (let (g, b') = spend b t in (if g then 1 else 0) + grants b' ts)"

lemma grants_bound:
  "inv b \<Longrightarrow> (\<forall>t \<in> set ts. t \<le> h) \<Longrightarrow> grants b ts \<le> allowance b h"
proof (induction ts arbitrary: b)
  case Nil
  then show ?case by simp
next
  case (Cons t ts)
  have "grants (snd (spend b t)) ts \<le> allowance (snd (spend b t)) h"
    using Cons.prems by (intro Cons.IH) (auto intro: spend_inv)
  moreover have "t \<le> h" using Cons.prems by simp
  ultimately show ?case
    using spend_grant [of b t h] spend_refuse [of b t h] Cons.prems(1)
    by (auto simp: split_beta Let_def)
qed

end

end
