(* ===== verification/Crypto.thy ===== *)
theory Crypto
  imports Ids
begin

text \<open>
  The cryptographic crates (\<open>blake2\<close>, \<open>chacha20poly1305\<close>, \<open>x25519-dalek\<close>, \<open>snow\<close>,
  \<open>ed25519-dalek\<close>) are not part of the repository.  They are a record of functions that every
  definition using them takes as an argument.  What the code relies on is stated as named
  predicates over the record, each a documented property of the algorithm.
\<close>

record ('hs, 'ts) crypto =
  blake2s_mac16 :: "bytes \<Rightarrow> bytes \<Rightarrow> bytes"  \<comment> \<open>key, message\<close>
  blake2s_mac24 :: "bytes \<Rightarrow> bytes \<Rightarrow> bytes"
  blake2s256 :: "bytes \<Rightarrow> bytes"
  xaead_encrypt :: "bytes \<Rightarrow> bytes \<Rightarrow> bytes \<Rightarrow> bytes \<Rightarrow> bytes"  \<comment> \<open>key, nonce, aad, message\<close>
  xaead_decrypt :: "bytes \<Rightarrow> bytes \<Rightarrow> bytes \<Rightarrow> bytes \<Rightarrow> bytes option"
  diffie_hellman :: "bytes \<Rightarrow> bytes \<Rightarrow> bytes option"
    \<comment> \<open>private, public; \<open>None\<close> when the exchange is not contributory\<close>
  x25519_public :: "bytes \<Rightarrow> bytes"
  noise_write_init :: "bytes \<Rightarrow> bytes \<Rightarrow> bytes \<Rightarrow> bytes \<Rightarrow> (bytes \<times> 'hs) option"
    \<comment> \<open>own private key, server's public key, prologue, payload: first message, handshake state\<close>
  noise_read_init :: "bytes \<Rightarrow> bytes \<Rightarrow> bytes \<Rightarrow> (bytes \<times> bytes \<times> 'hs) option"
    \<comment> \<open>private key, prologue, message: payload, initiator's static key, handshake state\<close>
  noise_write_resp :: "'hs \<Rightarrow> bytes \<Rightarrow> (bytes \<times> 'hs) option"  \<comment> \<open>payload: second message\<close>
  noise_read_resp :: "'hs \<Rightarrow> bytes \<Rightarrow> (bytes \<times> 'hs) option"  \<comment> \<open>second message: payload\<close>
  noise_into_transport :: "'hs \<Rightarrow> 'ts option"
  transport_write :: "'ts \<Rightarrow> u64 \<Rightarrow> bytes \<Rightarrow> bytes option"  \<comment> \<open>counter, plaintext\<close>
  transport_read :: "'ts \<Rightarrow> u64 \<Rightarrow> bytes \<Rightarrow> bytes option"  \<comment> \<open>counter, ciphertext\<close>
  ed25519_sign :: "bytes \<Rightarrow> bytes \<Rightarrow> bytes"  \<comment> \<open>issuer's secret key, message\<close>
  ed25519_public :: "bytes \<Rightarrow> bytes"
  ed25519_verify :: "bytes \<Rightarrow> bytes \<Rightarrow> bytes \<Rightarrow> bool"  \<comment> \<open>public key, message, signature\<close>

text \<open>Output widths: 16 bytes of \<open>Blake2sMac<U16>\<close>, 24 of \<open>Blake2sMac<U24>\<close>, and a 16-byte tag.\<close>

definition mac_widths :: "('hs, 'ts) crypto \<Rightarrow> bool" where
  "mac_widths c \<longleftrightarrow> (\<forall>k m. length (blake2s_mac16 c k m) = 16 \<and> length (blake2s_mac24 c k m) = 24)"

definition aead_widths :: "('hs, 'ts) crypto \<Rightarrow> bool" where
  "aead_widths c \<longleftrightarrow> (\<forall>k n a m. length (xaead_encrypt c k n a m) = length m + 16)"

text \<open>An AEAD opens what it sealed.\<close>

definition aead_opens :: "('hs, 'ts) crypto \<Rightarrow> bool" where
  "aead_opens c \<longleftrightarrow> (\<forall>k n a m. xaead_decrypt c k n a (xaead_encrypt c k n a m) = Some m)"

text \<open>
  ChaCha20-Poly1305 is deterministic: a ciphertext that opens is the one sealing of its message
  under the same key, nonce and additional data.
\<close>

definition aead_unique :: "('hs, 'ts) crypto \<Rightarrow> bool" where
  "aead_unique c \<longleftrightarrow>
     (\<forall>k n a x m. xaead_decrypt c k n a x = Some m \<longrightarrow> x = xaead_encrypt c k n a m)"


text \<open>A signature verifies under the public half of the key that made it.\<close>

definition signs :: "('hs, 'ts) crypto \<Rightarrow> bool" where
  "signs c \<longleftrightarrow> (\<forall>k m. ed25519_verify c (ed25519_public c k) m (ed25519_sign c k m))"

text \<open>
  Noise IK: a first message made for a server's public key under a prologue is read by its private
  key under the same prologue and by no other prologue; the second message is read by the handshake
  that is waiting for it; and the two transports of one handshake read what the other writes.
\<close>

definition noise_ik :: "('hs, 'ts) crypto \<Rightarrow> bool" where
  "noise_ik c \<longleftrightarrow>
     (\<forall>priv server prol payload msg hi.
        noise_write_init c priv (x25519_public c server) prol payload = Some (msg, hi) \<longrightarrow>
        (\<exists>hr. noise_read_init c server prol msg = Some (payload, x25519_public c priv, hr) \<and>
          (\<forall>p2 m2 hr'. noise_write_resp c hr p2 = Some (m2, hr') \<longrightarrow>
            (\<exists>hi'. noise_read_resp c hi m2 = Some (p2, hi') \<and>
              (\<forall>ti tr. noise_into_transport c hi' = Some ti \<longrightarrow>
                 noise_into_transport c hr' = Some tr \<longrightarrow>
                 (\<forall>n m x. (transport_write c tr n m = Some x \<longrightarrow> transport_read c ti n x = Some m) \<and>
                          (transport_write c ti n m = Some x \<longrightarrow> transport_read c tr n x = Some m)))))))"

end
