(* ===== verification/Wire.thy ===== *)
theory Wire
  imports Interfaces Crypto
begin

text \<open>
  The outer datagram framing of \<open>crates/protocol/src/wire.rs\<close>: the packet type, the parser and
  the builders, the two rejects and the handshake cookies.  The parser and the builders are one
  canonical codec: every packet reads back, and every datagram that parses is the one encoding of
  its packet.
\<close>

section \<open>Constants\<close>

abbreviation (input) TYPE_HANDSHAKE_INIT :: u8 where "TYPE_HANDSHAKE_INIT \<equiv> 1"
abbreviation (input) TYPE_HANDSHAKE_RESP :: u8 where "TYPE_HANDSHAKE_RESP \<equiv> 2"
abbreviation (input) TYPE_TRANSPORT :: u8 where "TYPE_TRANSPORT \<equiv> 3"
abbreviation (input) TYPE_VERSION_REJECT :: u8 where "TYPE_VERSION_REJECT \<equiv> 4"
abbreviation (input) TYPE_CAPACITY_REJECT :: u8 where "TYPE_CAPACITY_REJECT \<equiv> 5"
abbreviation (input) TYPE_COOKIE_CHALLENGE :: u8 where "TYPE_COOKIE_CHALLENGE \<equiv> 6"
abbreviation (input) TYPE_COOKIED_INIT :: u8 where "TYPE_COOKIED_INIT \<equiv> 7"

abbreviation (input) COOKIE_BYTES :: nat where "COOKIE_BYTES \<equiv> 16"
abbreviation (input) COOKIE_NONCE_BYTES :: nat where "COOKIE_NONCE_BYTES \<equiv> 24"
abbreviation (input) COOKIE_SEALED_BYTES :: nat where "COOKIE_SEALED_BYTES \<equiv> COOKIE_BYTES + 16"

abbreviation (input) CHANNEL_MEDIA :: u8 where "CHANNEL_MEDIA \<equiv> 0"
abbreviation (input) CHANNEL_CONTROL :: u8 where "CHANNEL_CONTROL \<equiv> 1"

abbreviation (input) PROTOCOL_VERSION :: u16 where "PROTOCOL_VERSION \<equiv> 2"

definition REJECT_DOMAIN :: bytes where "REJECT_DOMAIN = str ''jamstream-version-reject''"
definition CAPACITY_DOMAIN :: bytes where "CAPACITY_DOMAIN = str ''jamstream-capacity-reject''"
definition COOKIE_DOMAIN :: bytes where "COOKIE_DOMAIN = str ''jamstream-cookie''"
definition COOKIE_NONCE_DOMAIN :: bytes where "COOKIE_NONCE_DOMAIN = str ''jamstream-cookie-nonce''"

datatype reject_key = RejectKey bytes
datatype cookie_key = CookieKey bytes
datatype cookie_reply_key = CookieReplyKey bytes

section \<open>Packets\<close>

datatype packet =
    HandshakeInit u16 bytes  \<comment> \<open>version, noise\<close>
  | HandshakeResp bytes
  | Transport member_id u64 bytes  \<comment> \<open>member, counter, ciphertext\<close>
  | VersionReject u16 u16 bytes  \<comment> \<open>ours, theirs, mac\<close>
  | CapacityReject bytes
  | CookieChallenge bytes bytes  \<comment> \<open>nonce, sealed\<close>
  | CookiedInit bytes u16 bytes  \<comment> \<open>cookie, version, noise\<close>

text \<open>The fixed array widths of the Rust variants.\<close>

fun packet_ok :: "packet \<Rightarrow> bool" where
  "packet_ok (VersionReject _ _ mac) = (length mac = 16)"
| "packet_ok (CapacityReject mac) = (length mac = 16)"
| "packet_ok (CookieChallenge nonce sealed) =
     (length nonce = COOKIE_NONCE_BYTES \<and> length sealed = COOKIE_SEALED_BYTES)"
| "packet_ok (CookiedInit cookie _ _) = (length cookie = COOKIE_BYTES)"
| "packet_ok _ = True"

definition parse :: "bytes \<Rightarrow> (packet, error) result" where
  "parse buf = (case buf of
     [] \<Rightarrow> Err Malformed
   | tag # rest \<Rightarrow>
       if tag = TYPE_HANDSHAKE_INIT then
         (if length rest < 2 then Err Malformed
          else Ok (HandshakeInit (from_le (subslice 0 2 rest)) (drop 2 rest)))
       else if tag = TYPE_HANDSHAKE_RESP then Ok (HandshakeResp rest)
       else if tag = TYPE_TRANSPORT then
         (if length rest < 10 then Err Malformed
          else Ok (Transport (MemberId (from_le (subslice 0 2 rest)))
                 (from_le (subslice 2 10 rest)) (drop 10 rest)))
       else if tag = TYPE_VERSION_REJECT then
         (if length rest \<noteq> 20 then Err Malformed
          else Ok (VersionReject (from_le (subslice 0 2 rest)) (from_le (subslice 2 4 rest))
                 (subslice 4 20 rest)))
       else if tag = TYPE_CAPACITY_REJECT then
         (if length rest \<noteq> 16 then Err Malformed else Ok (CapacityReject rest))
       else if tag = TYPE_COOKIE_CHALLENGE then
         (if length rest \<noteq> COOKIE_NONCE_BYTES + COOKIE_SEALED_BYTES then Err Malformed
          else Ok (CookieChallenge (take COOKIE_NONCE_BYTES rest) (drop COOKIE_NONCE_BYTES rest)))
       else if tag = TYPE_COOKIED_INIT then
         (if length rest < COOKIE_BYTES + 2 then Err Malformed
          else (let cookie = take COOKIE_BYTES rest; rest' = drop COOKIE_BYTES rest
                in Ok (CookiedInit cookie (from_le (subslice 0 2 rest')) (drop 2 rest'))))
       else Err (UnknownPacketType tag))"

section \<open>Builders\<close>

definition build_handshake_init :: "u16 \<Rightarrow> bytes \<Rightarrow> bytes" where
  "build_handshake_init version noise = TYPE_HANDSHAKE_INIT # to_le version @ noise"

definition build_handshake_resp :: "bytes \<Rightarrow> bytes" where
  "build_handshake_resp noise = TYPE_HANDSHAKE_RESP # noise"

definition append_transport_header :: "member_id \<Rightarrow> u64 \<Rightarrow> bytes \<Rightarrow> bytes" where
  "append_transport_header member counter out =
     out @ [TYPE_TRANSPORT] @ to_le (member_num member) @ to_le counter"

definition build_transport :: "member_id \<Rightarrow> u64 \<Rightarrow> bytes \<Rightarrow> bytes" where
  "build_transport member counter ciphertext =
     append_transport_header member counter [] @ ciphertext"

definition build_cookied_init :: "bytes \<Rightarrow> u16 \<Rightarrow> bytes \<Rightarrow> bytes" where
  "build_cookied_init cookie version noise = TYPE_COOKIED_INIT # cookie @ to_le version @ noise"

section \<open>Rejects\<close>

text \<open>\<open>keyed\<close> absorbs the domain; the updates after it are concatenated.\<close>

definition keyed :: "('hs, 'ts) crypto \<Rightarrow> reject_key \<Rightarrow> bytes \<Rightarrow> bytes \<Rightarrow> bytes" where
  "keyed c key domain msg = (case key of RejectKey k \<Rightarrow> blake2s_mac16 c k (domain @ msg))"

definition reject_mac :: "('hs, 'ts) crypto \<Rightarrow> reject_key \<Rightarrow> u16 \<Rightarrow> u16 \<Rightarrow> bytes \<Rightarrow> bytes"
  where
  "reject_mac c key ours theirs init_packet =
     keyed c key REJECT_DOMAIN
       (to_le ours @ to_le theirs @ take (min (length init_packet) 64) init_packet)"

definition capacity_mac :: "('hs, 'ts) crypto \<Rightarrow> reject_key \<Rightarrow> bytes \<Rightarrow> bytes" where
  "capacity_mac c key init_packet =
     keyed c key CAPACITY_DOMAIN (take (min (length init_packet) 64) init_packet)"

text \<open>The accumulated difference of two MACs; \<open>zip\<close> stops at the shorter one.\<close>

definition equal_mac :: "bytes \<Rightarrow> bytes \<Rightarrow> bool" where
  "equal_mac expected got = (foldl (\<lambda>acc (a, b). or acc (xor a b)) 0 (zip expected got) = 0)"

definition build_version_reject ::
  "('hs, 'ts) crypto \<Rightarrow> reject_key \<Rightarrow> u16 \<Rightarrow> u16 \<Rightarrow> bytes \<Rightarrow> bytes" where
  "build_version_reject c key ours theirs init_packet =
     (let mac = reject_mac c key ours theirs init_packet
      in TYPE_VERSION_REJECT # to_le ours @ to_le theirs @ mac)"

definition verify_version_reject ::
  "('hs, 'ts) crypto \<Rightarrow> reject_key \<Rightarrow> u16 \<Rightarrow> u16 \<Rightarrow> bytes \<Rightarrow> bytes \<Rightarrow> bool" where
  "verify_version_reject c key ours theirs mac init_packet_sent =
     equal_mac (reject_mac c key ours theirs init_packet_sent) mac"

definition build_capacity_reject :: "('hs, 'ts) crypto \<Rightarrow> reject_key \<Rightarrow> bytes \<Rightarrow> bytes" where
  "build_capacity_reject c key init_packet =
     (let mac = capacity_mac c key init_packet in TYPE_CAPACITY_REJECT # mac)"

definition verify_capacity_reject ::
  "('hs, 'ts) crypto \<Rightarrow> reject_key \<Rightarrow> bytes \<Rightarrow> bytes \<Rightarrow> bool" where
  "verify_capacity_reject c key mac init_packet_sent =
     equal_mac (capacity_mac c key init_packet_sent) mac"

section \<open>Cookies\<close>

definition tagged_ip :: "ip_addr \<Rightarrow> bytes" where
  "tagged_ip source = (case source of V4 os \<Rightarrow> 4 # os | V6 os \<Rightarrow> 6 # os)"

definition cookie_for :: "('hs, 'ts) crypto \<Rightarrow> cookie_key \<Rightarrow> ip_addr \<Rightarrow> bytes" where
  "cookie_for c key source =
     (case key of CookieKey k \<Rightarrow> blake2s_mac16 c k (COOKIE_DOMAIN @ tagged_ip source))"

definition cookie_matches ::
  "('hs, 'ts) crypto \<Rightarrow> cookie_key \<Rightarrow> ip_addr \<Rightarrow> bytes \<Rightarrow> bool" where
  "cookie_matches c key source cookie = equal_mac (cookie_for c key source) cookie"

definition challenge_nonce ::
  "('hs, 'ts) crypto \<Rightarrow> cookie_key \<Rightarrow> ip_addr \<Rightarrow> bytes \<Rightarrow> bytes" where
  "challenge_nonce c key source init_packet =
     (case key of CookieKey k \<Rightarrow>
        blake2s_mac24 c k (COOKIE_NONCE_DOMAIN @ tagged_ip source @ init_packet))"

definition build_cookie_challenge ::
  "('hs, 'ts) crypto \<Rightarrow> cookie_reply_key \<Rightarrow> cookie_key \<Rightarrow> ip_addr \<Rightarrow> bytes \<Rightarrow> bytes" where
  "build_cookie_challenge c reply_key cookie_key source init_packet =
     (let cookie = cookie_for c cookie_key source;
          nonce = challenge_nonce c cookie_key source init_packet;
          sealed = (case reply_key of CookieReplyKey k \<Rightarrow> xaead_encrypt c k nonce init_packet cookie)
      in TYPE_COOKIE_CHALLENGE # nonce @ sealed)"

definition open_cookie_challenge ::
  "('hs, 'ts) crypto \<Rightarrow> cookie_reply_key \<Rightarrow> bytes \<Rightarrow> bytes \<Rightarrow> bytes \<Rightarrow> bytes option" where
  "open_cookie_challenge c reply_key nonce sealed init_packet_sent =
     (case reply_key of CookieReplyKey k \<Rightarrow>
        (case xaead_decrypt c k nonce init_packet_sent sealed of
           None \<Rightarrow> None
         | Some plain \<Rightarrow> if length plain = COOKIE_BYTES then Some plain else None))"

definition split_channel :: "bytes \<Rightarrow> (u8 \<times> bytes, error) result" where
  "split_channel plain = (case plain of [] \<Rightarrow> Err Malformed | chan # body \<Rightarrow> Ok (chan, body))"

section \<open>The framing is a canonical codec\<close>

text \<open>The layout of each packet, by the builder the code has for it.\<close>

fun packet_bytes :: "packet \<Rightarrow> bytes" where
  "packet_bytes (HandshakeInit version noise) = build_handshake_init version noise"
| "packet_bytes (HandshakeResp noise) = build_handshake_resp noise"
| "packet_bytes (Transport member counter ct) = build_transport member counter ct"
| "packet_bytes (VersionReject ours theirs mac) =
     TYPE_VERSION_REJECT # to_le ours @ to_le theirs @ mac"
| "packet_bytes (CapacityReject mac) = TYPE_CAPACITY_REJECT # mac"
| "packet_bytes (CookieChallenge nonce sealed) = TYPE_COOKIE_CHALLENGE # nonce @ sealed"
| "packet_bytes (CookiedInit cookie version noise) = build_cookied_init cookie version noise"

lemmas builder_defs = build_handshake_init_def build_handshake_resp_def build_transport_def
  append_transport_header_def build_cookied_init_def

lemma parse_packet_bytes: "packet_ok p \<Longrightarrow> parse (packet_bytes p) = Ok p"
  by (cases p) (simp_all add: parse_def builder_defs subslice_def)

lemma parse_canonical: "parse b = Ok p \<Longrightarrow> packet_bytes p = b \<and> packet_ok p"
proof (cases b)
  case Nil
  then show "parse b = Ok p \<Longrightarrow> ?thesis" by (simp add: parse_def)
next
  case (Cons tag rest)
  assume "parse b = Ok p"
  then show ?thesis
    using Cons subslice_whole [of 4 rest] subslice_0_drop [of 2 "drop COOKIE_BYTES rest"]
    by (auto simp: parse_def builder_defs Let_def byte_simps split: if_splits)
qed

interpretation framing: canonical_codec packet_bytes parse packet_ok
  by unfold_locales (simp_all add: parse_packet_bytes parse_canonical)

text \<open>C31. A datagram parses to a packet exactly when it is that packet's one encoding: every packet
  of the wire reads back as itself, and nothing else, a truncation or a trailing byte on a
  fixed-size packet included, reads as it.\<close>

theorem framing_exact: "parse b = Ok p \<longleftrightarrow> packet_ok p \<and> b = packet_bytes p"
  by (rule framing.dec_iff)

lemma length_packet_bytes:
  "length (build_handshake_init v noise) = 3 + length noise"
  "length (build_transport m k ct) = 11 + length ct"
  "length (build_cookied_init cookie v noise) = 3 + length cookie + length noise"
  by (simp_all add: builder_defs)

section \<open>MAC comparison\<close>

lemma fold_diff_zero:
  "foldl (\<lambda>acc (a, b). or acc (xor a b)) acc xs = 0 \<longleftrightarrow>
   acc = 0 \<and> (\<forall>(a, b) \<in> set xs. a = b)" for acc :: "'a::len word"
proof (induction xs arbitrary: acc)
  case Nil
  then show ?case by simp
next
  case (Cons x xs)
  obtain a b where x: "x = (a, b)" by (cases x)
  have "or acc (xor a b) = 0 \<longleftrightarrow> acc = 0 \<and> a = b"
    by (metis or_eq_0_iff xor_self_eq bit.xor_cancel_right xor.right_neutral xor.left_commute)
  then show ?case by (simp add: x Cons.IH conj_assoc)
qed

lemma equal_mac_iff: "length a = length b \<Longrightarrow> equal_mac a b \<longleftrightarrow> a = b"
  unfolding equal_mac_def fold_diff_zero
  by (induction a b rule: list_induct2) auto

lemma mac_lengths:
  assumes "mac_widths c"
  shows "length (reject_mac c key ours theirs init) = 16"
    and "length (capacity_mac c key init) = 16"
    and "length (cookie_for c ck source) = COOKIE_BYTES"
    and "length (challenge_nonce c ck source init) = COOKIE_NONCE_BYTES"
  using assms
  by (cases key; cases ck;
      simp add: mac_widths_def reject_mac_def capacity_mac_def keyed_def cookie_for_def
        challenge_nonce_def)+

text \<open>A client that checks the reject it parsed accepts a version reject or a capacity reject
  exactly when its MAC is the one its own handshake and its own init give, and the packet the
  server builds passes that check.\<close>

theorem rejects_verify:
  assumes "mac_widths c" and "length mac = 16"
  shows "(verify_version_reject c key ours theirs mac init \<longleftrightarrow>
        mac = reject_mac c key ours theirs init) \<and>
    (verify_capacity_reject c key mac init \<longleftrightarrow> mac = capacity_mac c key init) \<and>
    parse (build_version_reject c key ours theirs init) =
      Ok (VersionReject ours theirs (reject_mac c key ours theirs init)) \<and>
    parse (build_capacity_reject c key init) = Ok (CapacityReject (capacity_mac c key init))"
  using assms mac_lengths [OF assms(1)]
    parse_packet_bytes [of "VersionReject ours theirs (reject_mac c key ours theirs init)"]
    parse_packet_bytes [of "CapacityReject (capacity_mac c key init)"]
  by (auto simp: verify_version_reject_def verify_capacity_reject_def equal_mac_iff
      build_version_reject_def build_capacity_reject_def)

text \<open>A concrete choice of the primitives, at which the hypotheses of the theorems hold.\<close>

definition sample_crypto :: "(unit, unit) crypto" where
  "sample_crypto = \<lparr>
     blake2s_mac16 = (\<lambda>k m. take 16 (m @ replicate 16 0)),
     blake2s_mac24 = (\<lambda>k m. take 24 (m @ replicate 24 0)),
     blake2s256 = (\<lambda>m. take 32 (m @ replicate 32 0)),
     xaead_encrypt = (\<lambda>k n a m. m @ replicate 16 7),
     xaead_decrypt = (\<lambda>k n a x. if 16 \<le> length x \<and> drop (length x - 16) x = replicate 16 7
        then Some (take (length x - 16) x) else None),
     diffie_hellman = (\<lambda>s p. Some (s @ p)),
     x25519_public = (\<lambda>s. take 32 (s @ replicate 32 0)),
     noise_write_init = (\<lambda>s p prol m. Some (take 32 (s @ replicate 32 0) @ m, ())),
     noise_read_init = (\<lambda>s prol m. if length m < 32 then None else Some (drop 32 m, take 32 m, ())),
     noise_write_resp = (\<lambda>h p. Some (p, ())),
     noise_read_resp = (\<lambda>h m. Some (m, ())),
     noise_into_transport = (\<lambda>h. Some ()),
     transport_write = (\<lambda>t n m. Some (to_le n @ m)),
     transport_read = (\<lambda>t n x. if take 8 x = to_le n then Some (drop 8 x) else None),
     ed25519_sign = (\<lambda>k m. take 64 (m @ replicate 64 0)),
     ed25519_public = (\<lambda>k. k),
     ed25519_verify = (\<lambda>k m s. s = take 64 (m @ replicate 64 0))\<rparr>"

lemma sample_crypto_laws:
  "mac_widths sample_crypto" "aead_widths sample_crypto" "aead_opens sample_crypto"
  "aead_unique sample_crypto"
proof -
  show "mac_widths sample_crypto" "aead_widths sample_crypto" "aead_opens sample_crypto"
    by (auto simp: sample_crypto_def mac_widths_def aead_widths_def aead_opens_def min_def)
  have "x = take (length x - 16) x @ replicate 16 7"
    if "drop (length x - 16) x = replicate 16 7" for x :: bytes
    using that by (metis append_take_drop_id)
  then show "aead_unique sample_crypto"
    by (auto simp: sample_crypto_def aead_unique_def)
qed

theorem rejects_verify_witness:
  "verify_version_reject sample_crypto (RejectKey []) 2 1
      (reject_mac sample_crypto (RejectKey []) 2 1 [1, 2]) [1, 2] \<and>
   \<not> verify_capacity_reject sample_crypto (RejectKey []) (replicate 16 0) [1, 2]"
proof -
  have len: "length (reject_mac sample_crypto (RejectKey []) 2 1 [1, 2]) = 16"
    by (simp add: mac_lengths sample_crypto_laws)
  have h: "hd (capacity_mac sample_crypto (RejectKey []) [1, 2]) = 106"
    by (simp add: capacity_mac_def keyed_def sample_crypto_def CAPACITY_DOMAIN_def str_def)
  have "replicate 16 0 \<noteq> capacity_mac sample_crypto (RejectKey []) [1, 2]"
  proof
    assume "replicate 16 0 = capacity_mac sample_crypto (RejectKey []) [1, 2]"
    with h have "hd (replicate 16 (0 :: u8)) = 106" by metis
    then show False by simp
  qed
  then show ?thesis
    using rejects_verify [OF sample_crypto_laws(1) len, of "RejectKey []" 2 1 "[1, 2]"]
      rejects_verify [OF sample_crypto_laws(1), of "replicate 16 0" "RejectKey []" 2 1 "[1, 2]"]
    by simp
qed

section \<open>Domain separation\<close>

text \<open>
  A transparent MAC returns its message, so the bytes a MAC is taken over can be compared: two
  uses of a key are separated when these bytes differ.
\<close>

definition transparent_mac :: "('hs, 'ts) crypto \<Rightarrow> ('hs, 'ts) crypto" where
  "transparent_mac c = c\<lparr>blake2s_mac16 := \<lambda>_ m. m\<rparr>"

lemma tagged_ip_inj: "tagged_ip a = tagged_ip b \<longleftrightarrow> a = b"
  by (cases a; cases b) (simp_all add: tagged_ip_def)

lemmas mac_message = transparent_mac_def reject_mac_def capacity_mac_def keyed_def cookie_for_def

lemma to_le_inject: "to_le v = to_le w \<longleftrightarrow> v = w" for v w :: u16
  by (metis from_le_to_le_u16)

text \<open>No MAC the server issues can be replayed as another: the bytes authenticated by a version
  reject, a capacity reject and a cookie always differ; a version reject fixes both versions and
  the first 64 bytes of the init, a capacity reject the same bytes of the init, and a cookie
  exactly one address, a v4 address never colliding with a v6 one.\<close>

theorem mac_domains_separate:
  "reject_mac (transparent_mac c) k o1 t1 i1 \<noteq> capacity_mac (transparent_mac c) k2 i2 \<and>
   reject_mac (transparent_mac c) k o1 t1 i1 \<noteq> cookie_for (transparent_mac c) ck src \<and>
   capacity_mac (transparent_mac c) k2 i2 \<noteq> cookie_for (transparent_mac c) ck src \<and>
   (reject_mac (transparent_mac c) k o1 t1 i1 = reject_mac (transparent_mac c) k o2 t2 i2 \<longleftrightarrow>
      o1 = o2 \<and> t1 = t2 \<and> take 64 i1 = take 64 i2) \<and>
   (capacity_mac (transparent_mac c) k i1 = capacity_mac (transparent_mac c) k i2 \<longleftrightarrow>
      take 64 i1 = take 64 i2) \<and>
   (cookie_for (transparent_mac c) ck src = cookie_for (transparent_mac c) ck dst \<longleftrightarrow> src = dst)"
  by (cases k; cases k2; cases ck;
      simp add: mac_message REJECT_DOMAIN_def CAPACITY_DOMAIN_def COOKIE_DOMAIN_def str_def
        tagged_ip_inj to_le_inject append_eq_append_conv min_def)

section \<open>Cookie challenges\<close>

lemma build_cookie_challenge_bytes:
  "build_cookie_challenge c (CookieReplyKey k) ck src init =
     packet_bytes (CookieChallenge (challenge_nonce c ck src init)
       (xaead_encrypt c k (challenge_nonce c ck src init) init (cookie_for c ck src)))"
  by (simp add: build_cookie_challenge_def Let_def)

lemma length_build_cookie_challenge:
  "mac_widths c \<Longrightarrow> aead_widths c \<Longrightarrow> length (build_cookie_challenge c rk ck src init) = 57"
  by (cases rk) (simp add: build_cookie_challenge_bytes mac_lengths aead_widths_def)

text \<open>A client opens the challenge that answers its init and finds the cookie for its address;
  the packet is 57 bytes; and what opens against an init under the reply key is exactly the sealing
  of its cookie over that init.\<close>

theorem cookie_challenge_roundtrip:
  assumes "mac_widths c" "aead_widths c" "aead_opens c" "aead_unique c"
  shows "(\<exists>nonce sealed.
        parse (build_cookie_challenge c rk ck src init) = Ok (CookieChallenge nonce sealed) \<and>
        open_cookie_challenge c rk nonce sealed init = Some (cookie_for c ck src)) \<and>
    length (build_cookie_challenge c rk ck src init) = 57 \<and>
    (open_cookie_challenge c (CookieReplyKey k) nonce sealed init = Some cookie \<longleftrightarrow>
        length cookie = COOKIE_BYTES \<and> sealed = xaead_encrypt c k nonce init cookie)"
proof (intro conjI)
  obtain k' where rk: "rk = CookieReplyKey k'" by (cases rk)
  let ?n = "challenge_nonce c ck src init"
  let ?s = "xaead_encrypt c k' ?n init (cookie_for c ck src)"
  have "parse (build_cookie_challenge c rk ck src init) = Ok (CookieChallenge ?n ?s)"
    unfolding rk build_cookie_challenge_bytes
    using assms by (intro parse_packet_bytes) (simp add: mac_lengths aead_widths_def)
  moreover have "open_cookie_challenge c rk ?n ?s init = Some (cookie_for c ck src)"
    using assms by (simp add: rk open_cookie_challenge_def aead_opens_def mac_lengths)
  ultimately show "\<exists>nonce sealed.
      parse (build_cookie_challenge c rk ck src init) = Ok (CookieChallenge nonce sealed) \<and>
      open_cookie_challenge c rk nonce sealed init = Some (cookie_for c ck src)" by blast
  show "length (build_cookie_challenge c rk ck src init) = 57"
    using assms by (simp add: length_build_cookie_challenge)
  show "open_cookie_challenge c (CookieReplyKey k) nonce sealed init = Some cookie \<longleftrightarrow>
      length cookie = COOKIE_BYTES \<and> sealed = xaead_encrypt c k nonce init cookie"
    using assms(3,4)
    by (auto simp: open_cookie_challenge_def aead_unique_def aead_opens_def
        split: option.splits if_splits)
qed

theorem cookie_challenge_roundtrip_witness:
  "length (build_cookie_challenge sample_crypto (CookieReplyKey []) (CookieKey []) (V4 [1, 2, 3, 4]) [1]) = 57"
  using cookie_challenge_roundtrip [OF sample_crypto_laws, of "CookieReplyKey []" "CookieKey []"
      "V4 [1, 2, 3, 4]" "[1]"] by blast

end
