(* ===== verification/Link.thy ===== *)
theory Link
  imports Control Wire
begin

text \<open>
  The reliable, ordered control link of \<open>crates/protocol/src/control.rs\<close>: sequence numbers, a
  cumulative acknowledgement with a 32-bit selective bitmap, retransmission with backoff, a
  receive window and a give-up limit.

  The serialisation of a packet is the \<open>postcard\<close> crate's and is an argument of \<open>link_poll\<close> and
  \<open>link_receive\<close>; \<open>link_poll_packets\<close> and \<open>link_receive_packet\<close> are their bodies on packets.
  Sequence numbers and clocks are natural numbers below \<open>2^64\<close> with the additions that can leave
  that range written with \<open>wrap64\<close>.
\<close>

unbundle bit_operations_syntax

abbreviation (input) RTO_INITIAL_MS :: nat where "RTO_INITIAL_MS \<equiv> 100"
abbreviation (input) RTO_MAX_MS :: nat where "RTO_MAX_MS \<equiv> 2000"
abbreviation (input) MAX_SENDS :: nat where "MAX_SENDS \<equiv> 36"
abbreviation (input) RECV_WINDOW :: nat where "RECV_WINDOW \<equiv> 32"
abbreviation (input) MAX_PENDING :: nat where "MAX_PENDING \<equiv> 128"

section \<open>State\<close>

record ctl_packet =
  cp_ack :: nat
  cp_ack_bits :: u32
  cp_frame :: "(nat \<times> control_msg) option"

record pending =
  pd_seq :: nat
  pd_msg :: control_msg
  pd_next_send_ms :: nat
  pd_sends :: nat

record control_link =
  cl_next_seq :: nat
  cl_pending :: "pending list"
  cl_peer_ack :: nat
  cl_recv_next :: nat
  cl_out_of_order :: "(nat, control_msg) bmap"
  cl_need_ack :: bool
  cl_dead :: bool

definition link_new :: control_link where
  "link_new = \<lparr>cl_next_seq = 0, cl_pending = [], cl_peer_ack = 0, cl_recv_next = 0,
     cl_out_of_order = bm_empty, cl_need_ack = False, cl_dead = False\<rparr>"

section \<open>Operations\<close>

definition link_send :: "control_link \<Rightarrow> control_msg \<Rightarrow> (unit, error) result \<times> control_link" where
  "link_send l msg =
     (case check_lengths msg of
        Inl e \<Rightarrow> (Err e, l)
      | Inr _ \<Rightarrow>
          if MAX_PENDING \<le> length (cl_pending l) then (Err LinkFull, l)
          else
            (Ok (),
             l\<lparr>cl_next_seq := wrap64 (cl_next_seq l + 1),
               cl_pending := cl_pending l @
                 [\<lparr>pd_seq = cl_next_seq l, pd_msg = msg, pd_next_send_ms = 0, pd_sends = 0\<rparr>]\<rparr>))"

definition link_ack_bits :: "control_link \<Rightarrow> u32" where
  "link_ack_bits l =
     foldl (\<lambda>bits i. if bm_contains (cl_out_of_order l) (wrap64 (cl_recv_next l + 1 + i))
                     then bits OR push_bit i 1 else bits) 0 [0..<32]"

text \<open>
  One pass over the queue: the frames that go out, the queue after it, and whether a frame was
  given up.  The pass stops at the first frame past the limit.
\<close>

fun poll_pending ::
  "nat \<Rightarrow> nat \<Rightarrow> pending list \<Rightarrow> (nat \<times> control_msg) list \<times> pending list \<times> bool" where
  "poll_pending now limit [] = ([], [], False)"
| "poll_pending now limit (p # ps) =
     (if limit \<le> pd_seq p then ([], p # ps, False)
      else
        (let (out, rest, dead) = poll_pending now limit ps in
         if now < pd_next_send_ms p then (out, p # rest, dead)
         else if MAX_SENDS \<le> pd_sends p then (out, p # rest, True)
         else
           (let backoff = RTO_INITIAL_MS * 2 ^ min (pd_sends p) 6;
                p' = p\<lparr>pd_next_send_ms := wrap64 (now + min backoff RTO_MAX_MS),
                       pd_sends := pd_sends p + 1\<rparr>
            in ((pd_seq p, pd_msg p) # out, p' # rest, dead))))"

definition link_poll_packets :: "control_link \<Rightarrow> nat \<Rightarrow> ctl_packet list \<times> control_link" where
  "link_poll_packets l now =
     (let ack = cl_recv_next l;
          bits = link_ack_bits l;
          send_limit = wrap64 (cl_peer_ack l + RECV_WINDOW);
          (frames, pending, dead) = poll_pending now send_limit (cl_pending l);
          l' = l\<lparr>cl_pending := pending, cl_dead := cl_dead l \<or> dead\<rparr>;
          packet = (\<lambda>f. \<lparr>cp_ack = ack, cp_ack_bits = bits, cp_frame = f\<rparr>)
      in if frames \<noteq> [] then (map (packet \<circ> Some) frames, l'\<lparr>cl_need_ack := False\<rparr>)
         else if cl_need_ack l then ([packet None], l'\<lparr>cl_need_ack := False\<rparr>)
         else ([], l'))"

definition link_poll ::
  "(ctl_packet \<Rightarrow> bytes) \<Rightarrow> control_link \<Rightarrow> nat \<Rightarrow> bytes list \<times> control_link" where
  "link_poll pc_enc l now =
     (let (ps, l') = link_poll_packets l now in (map (\<lambda>p. CHANNEL_CONTROL # pc_enc p) ps, l'))"

lemma bm_len_remove_less: "bm_get m k = Some v \<Longrightarrow> bm_len (bm_remove k m) < bm_len m"
proof -
  assume g: "bm_get m k = Some v"
  then have "0 < bm_len m" by (metis bm_get_empty bm_len_0_iff neq0_conv option.distinct(1))
  then show ?thesis using g by (simp add: bm_len_remove)
qed

text \<open>Frames ready at the front are taken out in order.\<close>

function drain ::
  "nat \<Rightarrow> (nat, control_msg) bmap \<Rightarrow> control_msg list \<times> nat \<times> (nat, control_msg) bmap" where
  "drain next m =
     (case bm_get m next of
        None \<Rightarrow> ([], next, m)
      | Some msg \<Rightarrow>
          (let (out, n, m') = drain (wrap64 (next + 1)) (bm_remove next m)
           in (msg # out, n, m')))"
  by pat_completeness auto

termination
  by (relation "measure (\<lambda>(_, m). bm_len m)") (auto simp: bm_len_remove_less)

declare drain.simps [simp del]

definition retained :: "nat \<Rightarrow> u32 \<Rightarrow> pending \<Rightarrow> bool" where
  "retained ack bits p =
     (if pd_seq p < ack then False
      else if ack < pd_seq p \<and> pd_seq p - ack \<le> 32
        \<and> drop_bit (pd_seq p - ack - 1) bits AND 1 = 1 then False
      else True)"

definition link_receive_packet ::
  "control_link \<Rightarrow> ctl_packet \<Rightarrow> (control_msg list, error) result \<times> control_link" where
  "link_receive_packet l pkt =
     (let l1 = l\<lparr>cl_peer_ack := max (cl_peer_ack l) (cp_ack pkt),
                 cl_pending := filter (retained (cp_ack pkt) (cp_ack_bits pkt)) (cl_pending l)\<rparr>
      in case cp_frame pkt of
           None \<Rightarrow> (Ok [], l1)
         | Some (seq, msg) \<Rightarrow>
             (let l2 = l1\<lparr>cl_need_ack := True\<rparr> in
              case check_lengths msg of
                Inl e \<Rightarrow> (Err e, l2)
              | Inr _ \<Rightarrow>
                  if cl_recv_next l2 \<le> seq \<and> seq < wrap64 (cl_recv_next l2 + RECV_WINDOW)
                    \<and> \<not> bm_contains (cl_out_of_order l2) seq
                  then (let (delivered, n, m) =
                              drain (cl_recv_next l2) (bm_insert seq msg (cl_out_of_order l2))
                        in (Ok delivered, l2\<lparr>cl_recv_next := n, cl_out_of_order := m\<rparr>))
                  else (Ok [], l2)))"

definition link_receive ::
  "(bytes \<Rightarrow> (ctl_packet \<times> bytes) option) \<Rightarrow> control_link \<Rightarrow> bytes \<Rightarrow>
     (control_msg list, error) result \<times> control_link" where
  "link_receive pc_dec l buf =
     (if buf = [] \<or> hd buf \<noteq> CHANNEL_CONTROL then (Err Malformed, l)
      else case pc_dec (tl buf) of
             None \<Rightarrow> (Err Encode, l)
           | Some (pkt, rest) \<Rightarrow>
               if rest \<noteq> [] then (Err Malformed, l) else link_receive_packet l pkt)"

definition link_is_dead :: "control_link \<Rightarrow> bool" where
  "link_is_dead l = cl_dead l"

definition link_pending_len :: "control_link \<Rightarrow> nat" where
  "link_pending_len l = length (cl_pending l)"

definition link_buffered :: "control_link \<Rightarrow> nat" where
  "link_buffered l = bm_len (cl_out_of_order l)"


section \<open>Facts about the operations\<close>

text \<open>Taking frames out at the front: a run of consecutive keys, the rest untouched.\<close>

lemma drain_props:
  assumes "\<forall>k. bm_get m k \<noteq> None \<longrightarrow> k + 1 < 2 ^ 64"
  shows "case drain n m of (out, n', m') \<Rightarrow>
    n' = n + length out \<and> map Some out = map (bm_get m) [n..<n'] \<and> bm_get m n' = None \<and>
    (\<forall>k. bm_get m' k = (if n \<le> k \<and> k < n' then None else bm_get m k))"
  using assms
proof (induction n m rule: drain.induct)
  case (1 n m)
  show ?case
  proof (cases "bm_get m n")
    case None
    then show ?thesis by (auto simp: drain.simps [of n m])
  next
    case (Some msg)
    have w: "wrap64 (n + 1) = n + 1" using "1.prems" Some by auto
    obtain out n' m' where d: "drain (n + 1) (bm_remove n m) = (out, n', m')"
      by (cases "drain (n + 1) (bm_remove n m)") auto
    have pre: "\<forall>k. bm_get (bm_remove n m) k \<noteq> None \<longrightarrow> k + 1 < 2 ^ 64"
      using "1.prems" by auto
    have IH: "n' = n + 1 + length out" "map Some out = map (bm_get (bm_remove n m)) [n + 1..<n']"
      "bm_get (bm_remove n m) n' = None"
      "\<forall>k. bm_get m' k = (if n + 1 \<le> k \<and> k < n' then None else bm_get (bm_remove n m) k)"
      using "1.IH" [OF Some pre, unfolded w d prod.case] by blast+
    have eq: "drain n m = (msg # out, n', m')" by (simp only: drain.simps [of n m] Some w d option.case prod.case Let_def)
    have "map Some (msg # out) = map (bm_get m) (n # [n + 1..<n'])"
      using Some IH(2) by (auto intro!: map_cong)
    moreover have "[n..<n'] = n # [n + 1..<n']" using IH(1) by (simp add: upt_rec)
    ultimately show ?thesis using eq IH Some by auto
  qed
qed

lemma bit_and_1_iff: "w AND 1 = 1 \<longleftrightarrow> bit w 0" for w :: "'a::len word"
  by (simp add: and_one_eq bit_0 odd_iff_mod_2_eq_one)

lemma retained_iff:
  "retained ack bits p \<longleftrightarrow> ack \<le> pd_seq p \<and>
     \<not> (ack < pd_seq p \<and> pd_seq p \<le> ack + 32 \<and> bit bits (pd_seq p - ack - 1))"
  by (auto simp: retained_def bit_and_1_iff bit_drop_bit_eq)

text \<open>The selective bitmap says which of the next 32 frames are held.\<close>

lemma ack_bits_fold:
  "i < 32 \<Longrightarrow> n \<le> 32 \<Longrightarrow>
   bit (foldl (\<lambda>bits i. if P i then bits OR push_bit i 1 else bits) (0 :: u32) [0..<n]) i
     \<longleftrightarrow> i < n \<and> P i"
proof (induction n)
  case 0
  then show ?case by simp
next
  case (Suc n)
  then show ?case by (auto simp: bit_simps bit_1_iff less_Suc_eq)
qed

lemma bit_link_ack_bits:
  "i < 32 \<Longrightarrow>
   bit (link_ack_bits l) i \<longleftrightarrow> bm_get (cl_out_of_order l) (wrap64 (cl_recv_next l + 1 + i)) \<noteq> None"
  unfolding link_ack_bits_def
  using ack_bits_fold [of i 32 "\<lambda>i. bm_contains (cl_out_of_order l) (wrap64 (cl_recv_next l + 1 + i))"]
  by simp

text \<open>A pass over the queue keeps its frames and sends only frames of it below the limit.\<close>

lemma poll_pending_queue:
  "poll_pending now limit ps = (out, rest, dead) \<Longrightarrow>
   map (\<lambda>p. (pd_seq p, pd_msg p)) rest = map (\<lambda>p. (pd_seq p, pd_msg p)) ps"
  by (induction ps arbitrary: out rest dead) (auto split: prod.splits if_splits simp: Let_def)

lemma poll_pending_sent:
  "poll_pending now limit ps = (out, rest, dead) \<Longrightarrow> f \<in> set out \<Longrightarrow>
   f \<in> (\<lambda>p. (pd_seq p, pd_msg p)) ` set ps \<and> fst f < limit"
  by (induction ps arbitrary: out rest dead) (auto split: prod.splits if_splits simp: Let_def)

lemma poll_pending_sends:
  "poll_pending now limit ps = (out, rest, dead) \<Longrightarrow> \<forall>p \<in> set ps. pd_sends p \<le> MAX_SENDS \<Longrightarrow>
   \<forall>p \<in> set rest. pd_sends p \<le> MAX_SENDS"
  by (induction ps arbitrary: out rest dead) (auto split: prod.splits if_splits simp: Let_def)

lemma poll_pending_dead:
  "poll_pending now limit ps = (out, rest, True) \<Longrightarrow>
   \<exists>p \<in> set ps. MAX_SENDS \<le> pd_sends p \<and> pd_next_send_ms p \<le> now \<and> pd_seq p < limit"
  by (induction ps arbitrary: out rest) (auto split: prod.splits if_splits simp: Let_def not_less)

section \<open>The invariant of one link\<close>

text \<open>What a link keeps whatever its peer sends.\<close>

definition link_inv :: "control_link \<Rightarrow> bool" where
  "link_inv l \<longleftrightarrow> length (cl_pending l) \<le> MAX_PENDING \<and>
     (\<forall>p \<in> set (cl_pending l). check_lengths (pd_msg p) = Ok () \<and> pd_sends p \<le> MAX_SENDS) \<and>
     cl_recv_next l < 2 ^ 64 \<and>
     (\<forall>k m. bm_get (cl_out_of_order l) k = Some m \<longrightarrow>
        cl_recv_next l < k \<and> k < cl_recv_next l + RECV_WINDOW \<and> k < 2 ^ 64 \<and>
        check_lengths m = Ok ())"

lemma link_new_inv: "link_inv link_new"
  by (simp add: link_inv_def link_new_def)

lemma link_send_inv: "link_inv l \<Longrightarrow> link_inv (snd (link_send l m))"
  by (auto simp: link_send_def link_inv_def split: sum.splits)

lemma link_poll_packets_inv: "link_inv l \<Longrightarrow> link_inv (snd (link_poll_packets l now))"
proof -
  assume inv: "link_inv l"
  let ?limit = "wrap64 (cl_peer_ack l + RECV_WINDOW)"
  obtain out rest dead where p: "poll_pending now ?limit (cl_pending l) = (out, rest, dead)"
    by (cases "poll_pending now ?limit (cl_pending l)") auto
  have q: "map (\<lambda>p. (pd_seq p, pd_msg p)) rest = map (\<lambda>p. (pd_seq p, pd_msg p)) (cl_pending l)"
    by (rule poll_pending_queue [OF p])
  then have len: "length rest = length (cl_pending l)" by (metis length_map)
  have "map pd_msg rest = map pd_msg (cl_pending l)"
    using arg_cong [OF q, of "map snd"] by (simp add: comp_def)
  then have msgs: "pd_msg ` set rest = pd_msg ` set (cl_pending l)" by (metis list.set_map)
  have sends: "\<forall>p \<in> set rest. pd_sends p \<le> MAX_SENDS"
    using inv by (intro poll_pending_sends [OF p]) (simp add: link_inv_def)
  have "check_lengths (pd_msg p) = Ok ()" if "p \<in> set rest" for p
  proof -
    have "pd_msg p \<in> pd_msg ` set (cl_pending l)" using that msgs by blast
    then show ?thesis using inv by (auto simp: link_inv_def)
  qed
  then have "link_inv (l\<lparr>cl_pending := rest, cl_dead := d, cl_need_ack := a\<rparr>)" for d a
    using inv len sends by (simp add: link_inv_def)
  then show ?thesis
    using inv len sends \<open>\<And>p. p \<in> set rest \<Longrightarrow> check_lengths (pd_msg p) = Ok ()\<close>
    by (simp add: link_poll_packets_def p Let_def link_inv_def)
qed

text \<open>A frame the link takes lies in its window, so taking it never wraps.\<close>

lemma receive_accepts:
  assumes inv: "link_inv l" and legal: "check_lengths msg = Ok ()"
    and win: "cl_recv_next l \<le> seq" "seq < wrap64 (cl_recv_next l + RECV_WINDOW)"
    and d: "drain (cl_recv_next l) (bm_insert seq msg (cl_out_of_order l)) = (out, n, m)"
  shows "n = cl_recv_next l + length out"
    and "map Some out = map (bm_get (bm_insert seq msg (cl_out_of_order l))) [cl_recv_next l..<n]"
    and "bm_get m n = None" and "n \<le> cl_recv_next l + RECV_WINDOW" and "n < 2 ^ 64"
    and "bm_get m k = (if k < n then None else bm_get (bm_insert seq msg (cl_out_of_order l)) k)"
proof -
  let ?m = "bm_insert seq msg (cl_out_of_order l)" and ?r = "cl_recv_next l"
  have r: "?r + RECV_WINDOW < 2 ^ 64"
  proof (rule ccontr)
    assume big: "\<not> ?r + RECV_WINDOW < 2 ^ 64"
    have "?r < 2 ^ 64" using inv by (simp add: link_inv_def)
    then have "wrap64 (?r + RECV_WINDOW) = ?r + RECV_WINDOW - 2 ^ 64"
      using big by (simp add: wrap64_def mod_if)
    then show False using win \<open>?r < 2 ^ 64\<close> by simp
  qed
  then have w: "seq < ?r + RECV_WINDOW" using win by simp
  have keys: "?r \<le> k \<and> k < ?r + RECV_WINDOW" if "bm_get ?m k \<noteq> None" for k
    using that inv win w by (fastforce simp: link_inv_def split: if_splits)
  have "\<forall>k. bm_get ?m k \<noteq> None \<longrightarrow> k + 1 < 2 ^ 64" using keys r by fastforce
  from drain_props [OF this, of ?r]
  have P: "n = ?r + length out" "map Some out = map (bm_get ?m) [?r..<n]" "bm_get ?m n = None"
    "\<forall>k. bm_get m k = (if ?r \<le> k \<and> k < n then None else bm_get ?m k)"
    by (auto simp: d)
  show "n = ?r + length out" "map Some out = map (bm_get ?m) [?r..<n]" by (rule P)+
  show "bm_get m n = None" using P(3,4) by simp
  show bound: "n \<le> ?r + RECV_WINDOW"
  proof (cases "out = []")
    case True
    then show ?thesis using P(1) by simp
  next
    case False
    then have "n - 1 \<in> set [?r..<n]" using P(1) by (cases out) auto
    then have "bm_get ?m (n - 1) \<in> set (map Some out)" unfolding P(2) by simp
    then have "bm_get ?m (n - 1) \<noteq> None" by auto
    then have "n - 1 < ?r + RECV_WINDOW" using keys by blast
    then show ?thesis by simp
  qed
  show "n < 2 ^ 64" using bound r by simp
  have "bm_get ?m k = None" if "k < ?r" using that keys [of k] by (meson leD)
  then show "bm_get m k = (if k < n then None else bm_get ?m k)"
    using P(4) by (auto split: if_splits)
qed

lemma link_retire_inv:
  assumes "link_inv l"
  shows "link_inv (l\<lparr>cl_peer_ack := a, cl_pending := filter P (cl_pending l)\<rparr>)"
    and "link_inv (l\<lparr>cl_peer_ack := a, cl_pending := filter P (cl_pending l), cl_need_ack := b\<rparr>)"
  using assms by (auto simp: link_inv_def intro: order_trans [OF length_filter_le])


lemma link_receive_packet_inv: "link_inv l \<Longrightarrow> link_inv (snd (link_receive_packet l pkt))"
proof -
  assume inv: "link_inv l"
  let ?l1 = "l\<lparr>cl_peer_ack := max (cl_peer_ack l) (cp_ack pkt),
      cl_pending := filter (retained (cp_ack pkt) (cp_ack_bits pkt)) (cl_pending l)\<rparr>"
  let ?l2 = "?l1\<lparr>cl_need_ack := True\<rparr>"
  have i1: "link_inv ?l1"
    by (rule link_retire_inv(1) [OF inv])
  have i2: "link_inv ?l2" by (rule link_retire_inv(2) [OF inv])
  show ?thesis
  proof (cases "cp_frame pkt")
    case None
    then show ?thesis using i1 by (simp add: link_receive_packet_def Let_def)
  next
    case (Some f)
    obtain seq msg where f: "f = (seq, msg)" by (cases f)
    show ?thesis
    proof (cases "check_lengths msg = Ok () \<and> cl_recv_next l \<le> seq \<and>
        seq < wrap64 (cl_recv_next l + RECV_WINDOW) \<and> bm_get (cl_out_of_order l) seq = None")
      case False
      then show ?thesis using i2 Some f
        by (auto simp: link_receive_packet_def Let_def split: sum.splits)
    next
      case True
      obtain out n m where d:
        "drain (cl_recv_next l) (bm_insert seq msg (cl_out_of_order l)) = (out, n, m)"
        by (cases "drain (cl_recv_next l) (bm_insert seq msg (cl_out_of_order l))") auto
      have acc: "n < 2 ^ 64" "bm_get m n = None" "cl_recv_next l \<le> n"
        "\<And>k. bm_get m k = (if k < n then None else bm_get (bm_insert seq msg (cl_out_of_order l)) k)"
        using receive_accepts [OF inv _ _ _ d] True by auto
      have "seq < cl_recv_next l + RECV_WINDOW \<and> seq < 2 ^ 64"
        using True wrap64_less [of "cl_recv_next l + RECV_WINDOW"]
          wrap64_le [of "cl_recv_next l + RECV_WINDOW"] by linarith
      then have keys: "n < k \<and> k < n + RECV_WINDOW \<and> k < 2 ^ 64 \<and> check_lengths w = Ok ()"
        if "bm_get m k = Some w" for k w
        using that acc inv True
        by (cases "k = n") (fastforce simp: link_inv_def split: if_splits)+
      have "snd (link_receive_packet l pkt) = ?l2\<lparr>cl_recv_next := n, cl_out_of_order := m\<rparr>"
        using True Some f d by (simp add: link_receive_packet_def Let_def)
      then show ?thesis using i2 acc(1) keys by (simp add: link_inv_def)
    qed
  qed
qed

text \<open>What comes out of a link passed the length rules.\<close>

lemma link_delivers_legal:
  assumes inv: "link_inv l" and r: "fst (link_receive_packet l pkt) = Ok out"
  shows "\<forall>m \<in> set out. check_lengths m = Ok ()"
proof (cases "out = []")
  case True
  then show ?thesis by simp
next
  case False
  then obtain seq msg n m where f: "cp_frame pkt = Some (seq, msg)"
    and t: "check_lengths msg = Ok ()" "cl_recv_next l \<le> seq"
      "seq < wrap64 (cl_recv_next l + RECV_WINDOW)"
    and d: "drain (cl_recv_next l) (bm_insert seq msg (cl_out_of_order l)) = (out, n, m)"
    using r by (auto simp: link_receive_packet_def Let_def split: option.splits sum.splits
        if_splits prod.splits)
  have out: "map Some out =
      map (bm_get (bm_insert seq msg (cl_out_of_order l))) [cl_recv_next l..<n]"
    by (rule receive_accepts(2) [OF inv t d])
  have "check_lengths w = Ok ()" if "w \<in> set out" for w
  proof -
    have "Some w \<in> set (map Some out)" using that by simp
    then obtain k where "Some w = bm_get (bm_insert seq msg (cl_out_of_order l)) k"
      unfolding out by (auto simp del: bm_get_insert)
    then show ?thesis using inv t(1) by (auto simp: link_inv_def split: if_splits)
  qed
  then show ?thesis by blast
qed

section \<open>The serialiser's contract\<close>

definition ctl_packet_ok :: "ctl_packet \<Rightarrow> bool" where
  "ctl_packet_ok p \<longleftrightarrow> cp_ack p < 2 ^ 64 \<and>
     (case cp_frame p of None \<Rightarrow> True | Some (seq, msg) \<Rightarrow> seq < 2 ^ 64 \<and> msg_text_ok msg)"

text \<open>A packet reads back from its bytes and leaves what follows them.\<close>

definition codec_ok :: "(ctl_packet \<Rightarrow> bytes) \<Rightarrow> (bytes \<Rightarrow> (ctl_packet \<times> bytes) option) \<Rightarrow> bool" where
  "codec_ok pc_enc pc_dec \<longleftrightarrow> (\<forall>p rest. ctl_packet_ok p \<longrightarrow> pc_dec (pc_enc p @ rest) = Some (p, rest))"

lemma codec_reads: "codec_ok pc_enc pc_dec \<Longrightarrow> ctl_packet_ok p \<Longrightarrow> pc_dec (pc_enc p) = Some (p, [])"
  unfolding codec_ok_def by (metis append_Nil2)

section \<open>A link as a machine\<close>

datatype link_event = LSend control_msg | LPoll nat | LReceive bytes

definition link_step ::
  "(ctl_packet \<Rightarrow> bytes) \<Rightarrow> (bytes \<Rightarrow> (ctl_packet \<times> bytes) option) \<Rightarrow> control_link \<Rightarrow> link_event
     \<Rightarrow> control_link" where
  "link_step pc_enc pc_dec l e =
     (case e of
        LSend msg \<Rightarrow> snd (link_send l msg)
      | LPoll now \<Rightarrow> snd (link_poll pc_enc l now)
      | LReceive buf \<Rightarrow> snd (link_receive pc_dec l buf))"

lemma link_receive_inv: "link_inv l \<Longrightarrow> link_inv (snd (link_receive pc_dec l buf))"
  by (auto simp: link_receive_def link_receive_packet_inv split: option.splits)

lemma link_poll_inv: "link_inv l \<Longrightarrow> link_inv (snd (link_poll pc_enc l now))"
  using link_poll_packets_inv [of l now] by (auto simp: link_poll_def split: prod.splits)

interpretation link: invariant_machine "link_step pc_enc pc_dec" link_inv "\<lambda>_. True"
  for pc_enc pc_dec
  by unfold_locales
    (auto simp: link_step_def link_send_inv link_poll_inv link_receive_inv split: link_event.splits)

lemma link_inv_buffered:
  assumes "link_inv l"
  shows "link_buffered l < RECV_WINDOW"
proof -
  have "{k. bm_get (cl_out_of_order l) k \<noteq> None} \<subseteq> {cl_recv_next l + 1..<cl_recv_next l + 32}"
    using assms by (auto simp: link_inv_def Suc_le_eq)
  then have "card {k. bm_get (cl_out_of_order l) k \<noteq> None} \<le>
      card {cl_recv_next l + 1..<cl_recv_next l + 32}"
    by (intro card_mono) auto
  then show ?thesis by (simp add: link_buffered_def bm_len_keys)
qed

text \<open>Whatever the peer sends and whatever the serialiser makes of it, a link holds at most 128
  unacknowledged messages, each sent at most 36 times, and fewer than 32 out-of-order frames, all
  inside the window of 32 past the next expected one; every message it holds or delivers has
  passed the length rules.\<close>

theorem link_bounded:
  "let l = foldl (link_step pc_enc pc_dec) link_new es in
   link_pending_len l \<le> MAX_PENDING \<and> link_buffered l < RECV_WINDOW \<and>
   list_all (\<lambda>p. check_lengths (pd_msg p) = Ok () \<and> pd_sends p \<le> MAX_SENDS) (cl_pending l) \<and>
   list_all (\<lambda>(k, m). cl_recv_next l < k \<and> k < cl_recv_next l + RECV_WINDOW \<and> check_lengths m = Ok ())
     (bm_entries (cl_out_of_order l)) \<and>
   (\<forall>pkt. case fst (link_receive_packet l pkt) of
      Inl _ \<Rightarrow> True | Inr out \<Rightarrow> list_all (\<lambda>m. check_lengths m = Ok ()) out)"
proof -
  let ?l = "foldl (link_step pc_enc pc_dec) link_new es"
  have inv: "link_inv ?l"
    by (rule link.run_inv [OF link_new_inv]) (simp add: list_all_iff)
  have "case fst (link_receive_packet ?l pkt) of
      Inl _ \<Rightarrow> True | Inr out \<Rightarrow> list_all (\<lambda>m. check_lengths m = Ok ()) out" for pkt
    using link_delivers_legal [OF inv, of pkt] by (simp add: list_all_iff split: sum.splits)
  then show ?thesis
    using inv link_inv_buffered [OF inv]
    by (auto simp: link_inv_def link_pending_len_def Let_def list_all_iff bm_entries_iff)
qed

section \<open>Giving up\<close>

text \<open>Time that must pass before the \<open>n\<close>-th repeat of a frame is due.\<close>

definition backoff :: "nat \<Rightarrow> nat" where
  "backoff sends = min (RTO_INITIAL_MS * 2 ^ min sends 6) RTO_MAX_MS"

fun horizon :: "nat \<Rightarrow> nat" where
  "horizon 0 = 0"
| "horizon (Suc n) = horizon n + backoff n"

lemma horizon_36: "horizon 36 = 65100"
  by code_simp

definition patient :: "nat \<Rightarrow> control_link \<Rightarrow> bool" where
  "patient t0 l \<longleftrightarrow> \<not> cl_dead l \<and>
     (\<forall>p \<in> set (cl_pending l). pd_sends p = 0 \<or> t0 + horizon (pd_sends p) \<le> pd_next_send_ms p)"

definition early :: "nat \<Rightarrow> link_event \<Rightarrow> bool" where
  "early t0 e = (case e of LPoll now \<Rightarrow> t0 \<le> now \<and> now < t0 + 65100 | _ \<Rightarrow> True)"

lemma horizon_mono: "m \<le> n \<Longrightarrow> horizon m \<le> horizon n"
  by (induction n) (auto simp: le_Suc_eq)

lemma patient_due:
  assumes "pd_sends p = 0 \<or> t0 + horizon (pd_sends p) \<le> pd_next_send_ms p"
    and "pd_next_send_ms p \<le> now" "now < t0 + 65100"
  shows "pd_sends p < MAX_SENDS"
proof (rule ccontr)
  assume "\<not> pd_sends p < MAX_SENDS"
  then have "horizon 36 \<le> horizon (pd_sends p)" "pd_sends p \<noteq> 0" by (auto intro: horizon_mono)
  then show False using assms horizon_36 by linarith
qed

lemma poll_pending_patient:
  assumes now: "t0 \<le> now" "now < t0 + 65100" "now + 2000 < 2 ^ 64"
  shows "poll_pending now limit ps = (out, rest, dead) \<Longrightarrow>
    \<forall>p \<in> set ps. pd_sends p = 0 \<or> t0 + horizon (pd_sends p) \<le> pd_next_send_ms p \<Longrightarrow>
    \<not> dead \<and> (\<forall>p \<in> set rest. pd_sends p = 0 \<or> t0 + horizon (pd_sends p) \<le> pd_next_send_ms p)"
proof (induction ps arbitrary: out rest dead)
  case Nil
  then show ?case by auto
next
  case (Cons p ps)
  obtain out' rest' dead' where q: "poll_pending now limit ps = (out', rest', dead')"
    by (cases "poll_pending now limit ps") auto
  have IH: "\<not> dead'" "\<forall>p \<in> set rest'. pd_sends p = 0 \<or> t0 + horizon (pd_sends p) \<le> pd_next_send_ms p"
    using Cons.IH [OF q] Cons.prems(2) by auto
  have p: "pd_sends p = 0 \<or> t0 + horizon (pd_sends p) \<le> pd_next_send_ms p"
    using Cons.prems(2) by simp
  show ?case
  proof (cases "limit \<le> pd_seq p \<or> now < pd_next_send_ms p")
    case True
    then show ?thesis using Cons.prems q IH by (auto simp: Let_def split: if_splits)
  next
    case False
    then have due: "pd_sends p < MAX_SENDS" using patient_due [OF p _ now(2)] by simp
    have "t0 + horizon (pd_sends p) \<le> now"
      using p False now(1) by auto
    moreover have "wrap64 (now + backoff (pd_sends p)) = now + backoff (pd_sends p)"
      using now(3) by (intro wrap64_id) (simp add: backoff_def)
    ultimately show ?thesis
      using Cons.prems(1) q IH False due by (auto simp: Let_def backoff_def)
  qed
qed

lemma patient_step:
  assumes "t0 + 70000 < 2 ^ 64" "patient t0 l" "early t0 e"
  shows "patient t0 (link_step pc_enc pc_dec l e)"
proof (cases e)
  case (LSend m)
  then show ?thesis using assms(2)
    by (auto simp: link_step_def link_send_def patient_def split: sum.splits)
next
  case (LPoll now)
  let ?limit = "wrap64 (cl_peer_ack l + RECV_WINDOW)"
  obtain out rest dead where q: "poll_pending now ?limit (cl_pending l) = (out, rest, dead)"
    by (cases "poll_pending now ?limit (cl_pending l)") auto
  have "\<not> dead \<and> (\<forall>p \<in> set rest. pd_sends p = 0 \<or> t0 + horizon (pd_sends p) \<le> pd_next_send_ms p)"
    by (rule poll_pending_patient [OF _ _ _ q])
      (use assms LPoll in \<open>auto simp: early_def patient_def\<close>)
  then show ?thesis using assms(2) LPoll
    by (auto simp: link_step_def link_poll_def link_poll_packets_def q Let_def patient_def)
next
  case (LReceive buf)
  have "patient t0 (snd (link_receive_packet l pkt))" for pkt
    using assms(2) by (auto simp: link_receive_packet_def Let_def patient_def
        split: option.splits sum.splits prod.splits)
  then show ?thesis using assms(2) LReceive
    by (auto simp: link_step_def link_receive_def split: option.splits)
qed

text \<open>A link does not give its peer up in the first 65.1 seconds after it starts polling, however often
  it is polled and whatever arrives: a frame is sent 36 times with the doubling, capped backoff
  before the link is dead.\<close>

theorem give_up_horizon:
  assumes "t0 + 70000 < 2 ^ 64" "list_all (early t0) es"
  shows "\<not> link_is_dead (foldl (link_step pc_enc pc_dec) link_new es)"
proof -
  have "invariant_machine (link_step pc_enc pc_dec) (patient t0) (early t0)"
    by unfold_locales (rule patient_step [OF assms(1)])
  from invariant_machine.run_inv [OF this, of link_new es] assms(2)
  show ?thesis by (simp add: link_is_dead_def patient_def link_new_def)
qed

theorem give_up_horizon_witness:
  "\<not> link_is_dead (foldl (link_step (\<lambda>_. []) (\<lambda>_. None)) link_new
      [LSend (Ping 1 2), LPoll 1000, LPoll 1100, LPoll 1300, LPoll 1700, LPoll 66000])"
  by (rule give_up_horizon [of 1000]) (simp_all add: early_def)

end
