(* ===== verification/Postcard.thy ===== *)
theory Postcard
  imports Link
begin

text \<open>
  An executable serialiser for control packets that satisfies the contract the link relies on
  (\<open>codec_ok\<close>).  It follows the wire format the \<open>postcard\<close> crate documents and the comment on
  \<open>ControlMsg\<close> describes: a variant index, then the fields in order with no framing between them,
  integers as little-endian base-128 varints, lengths before variable-length fields.  The crate
  itself is not part of the repository; this instance shows that the contract can be met.
\<close>

section \<open>Primitives\<close>

type_synonym 'a reader = "bytes \<Rightarrow> ('a \<times> bytes) option"

definition and_then :: "'a reader \<Rightarrow> ('a \<Rightarrow> 'b reader) \<Rightarrow> 'b reader" where
  "and_then d f bs = (case d bs of None \<Rightarrow> None | Some (x, r) \<Rightarrow> f x r)"

definition give :: "'a \<Rightarrow> 'a reader" where
  "give x bs = Some (x, bs)"

definition reads :: "('a \<Rightarrow> bytes) \<Rightarrow> 'a reader \<Rightarrow> 'a \<Rightarrow> bool" where
  "reads e d x \<longleftrightarrow> (\<forall>r. d (e x @ r) = Some (x, r))"

lemma readsD: "reads e d x \<Longrightarrow> d (e x @ r) = Some (x, r)"
  by (simp add: reads_def)

lemma give_apply [simp]: "give x bs = Some (x, bs)"
  by (simp add: give_def)

function wr_nat :: "nat \<Rightarrow> bytes" where
  "wr_nat n = (if n < 128 then [of_nat n] else of_nat (128 + n mod 128) # wr_nat (n div 128))"
  by pat_completeness auto
termination by (relation "measure id") auto

declare wr_nat.simps [simp del]

fun rd_nat :: "nat reader" where
  "rd_nat [] = None"
| "rd_nat (b # bs) =
     (if b < 128 then Some (unat b, bs)
      else case rd_nat bs of None \<Rightarrow> None | Some (n, r) \<Rightarrow> Some (unat b - 128 + 128 * n, r))"

lemma rd_wr_nat [simp]: "rd_nat (wr_nat n @ r) = Some (n, r)"
proof (induction n rule: wr_nat.induct)
  case (1 n)
  show ?case
  proof (cases "n < 128")
    case True
    then have "unat (of_nat n :: u8) = n" by (simp add: unat_of_nat)
    then show ?thesis using True
      by (simp add: wr_nat.simps [of n] word_less_nat_alt)
  next
    case False
    have "unat (of_nat (128 + n mod 128) :: u8) = 128 + n mod 128"
      by (simp add: unat_of_nat del: of_nat_add)
    moreover have "n mod 128 + 128 * (n div 128) = n" by simp
    ultimately show ?thesis using False "1.IH" [OF False]
      by (simp add: wr_nat.simps [of n] word_less_nat_alt and_then_def del: of_nat_add)
  qed
qed

definition rd_word :: "'a::len word reader" where
  "rd_word = and_then rd_nat (\<lambda>n bs. if n < 2 ^ LENGTH('a) then Some (of_nat n, bs) else None)"

definition wr_word :: "'a::len word \<Rightarrow> bytes" where
  "wr_word w = wr_nat (unat w)"

lemma rd_wr_word [simp]: "rd_word (wr_word w @ r) = Some (w, r)" for w :: "'a::len word"
  using unat_less [of w] by (simp add: rd_word_def wr_word_def and_then_def)

definition rd_u64 :: "nat reader" where
  "rd_u64 = and_then rd_nat (\<lambda>n bs. if n < 2 ^ 64 then Some (n, bs) else None)"

lemma rd_wr_u64 [simp]: "n < 2 ^ 64 \<Longrightarrow> rd_u64 (wr_nat n @ r) = Some (n, r)"
  by (simp add: rd_u64_def and_then_def)

fun rd_byte :: "u8 reader" where
  "rd_byte [] = None"
| "rd_byte (b # bs) = Some (b, bs)"

definition wr_bool :: "bool \<Rightarrow> bytes" where
  "wr_bool b = [if b then 1 else 0]"

definition rd_bool :: "bool reader" where
  "rd_bool = and_then rd_byte (\<lambda>b bs. if b = 0 then Some (False, bs) else if b = 1 then Some (True, bs) else None)"

lemma rd_wr_bool [simp]: "rd_bool (wr_bool b @ r) = Some (b, r)"
  by (simp add: rd_bool_def wr_bool_def and_then_def)

text \<open>Arrays of a fixed length, and \<open>f32\<close> as its four bytes.\<close>

definition rd_raw :: "nat \<Rightarrow> bytes reader" where
  "rd_raw n bs = (if n \<le> length bs then Some (take n bs, drop n bs) else None)"

lemma rd_wr_raw [simp]: "length xs = n \<Longrightarrow> rd_raw n (xs @ r) = Some (xs, r)"
  by (simp add: rd_raw_def)

definition rd_f32 :: "f32 reader" where
  "rd_f32 = and_then (rd_raw 4) (\<lambda>bs. give (from_le bs))"

lemma rd_wr_f32 [simp]: "rd_f32 (to_le w @ r) = Some (w, r)" for w :: f32
  by (simp add: rd_f32_def and_then_def)

definition wr_vec :: "bytes \<Rightarrow> bytes" where
  "wr_vec xs = wr_nat (length xs) @ xs"

definition rd_vec :: "bytes reader" where
  "rd_vec = and_then rd_nat rd_raw"

lemma rd_wr_vec [simp]: "rd_vec (wr_vec xs @ r) = Some (xs, r)"
  by (simp add: rd_vec_def wr_vec_def and_then_def)

definition rd_str :: "bytes reader" where
  "rd_str = and_then rd_vec (\<lambda>s bs. if valid_utf8 s then Some (s, bs) else None)"

lemma rd_wr_str [simp]: "valid_utf8 s \<Longrightarrow> rd_str (wr_vec s @ r) = Some (s, r)"
  by (simp add: rd_str_def and_then_def)

fun wr_opt :: "('a \<Rightarrow> bytes) \<Rightarrow> 'a option \<Rightarrow> bytes" where
  "wr_opt e None = [0]"
| "wr_opt e (Some x) = 1 # e x"

definition rd_opt :: "'a reader \<Rightarrow> 'a option reader" where
  "rd_opt d = and_then rd_byte (\<lambda>b. if b = 0 then give None
     else if b = 1 then and_then d (\<lambda>x. give (Some x)) else (\<lambda>_. None))"

lemma rd_wr_opt:
  assumes "\<And>x. o' = Some x \<Longrightarrow> reads e d x"
  shows "rd_opt d (wr_opt e o' @ r) = Some (o', r)"
  using assms by (cases o') (simp_all add: rd_opt_def and_then_def readsD)

fun rd_many :: "'a reader \<Rightarrow> nat \<Rightarrow> 'a list reader" where
  "rd_many d 0 = give []"
| "rd_many d (Suc n) = and_then d (\<lambda>x. and_then (rd_many d n) (\<lambda>xs. give (x # xs)))"

definition wr_seq :: "('a \<Rightarrow> bytes) \<Rightarrow> 'a list \<Rightarrow> bytes" where
  "wr_seq e xs = wr_nat (length xs) @ concat (map e xs)"

definition rd_seq :: "'a reader \<Rightarrow> 'a list reader" where
  "rd_seq d = and_then rd_nat (rd_many d)"

lemma rd_many_concat:
  "(\<And>x. x \<in> set xs \<Longrightarrow> reads e d x) \<Longrightarrow>
   rd_many d (length xs) (concat (map e xs) @ r) = Some (xs, r)"
  by (induction xs) (simp_all add: and_then_def readsD)

lemma rd_wr_seq:
  "(\<And>x. x \<in> set xs \<Longrightarrow> reads e d x) \<Longrightarrow> rd_seq d (wr_seq e xs @ r) = Some (xs, r)"
  by (simp add: rd_seq_def wr_seq_def and_then_def rd_many_concat)


section \<open>The fields\<close>

definition wr_member_id :: "member_id \<Rightarrow> bytes" where
  "wr_member_id m = wr_word (member_num m)"

definition rd_member_id :: "member_id reader" where
  "rd_member_id = and_then rd_word (\<lambda>n. give (MemberId n))"

definition rd_tag :: "(u8 \<Rightarrow> 'a reader) \<Rightarrow> 'a reader" where
  "rd_tag f = and_then rd_byte f"

fun wr_platform :: "stream_platform \<Rightarrow> bytes" where
  "wr_platform Twitch = [0]"
| "wr_platform YouTube = [1]"

definition rd_platform :: "stream_platform reader" where
  "rd_platform = rd_tag (\<lambda>t. if t = 0 then give Twitch else if t = 1 then give YouTube else (\<lambda>_. None))"

fun wr_role :: "role \<Rightarrow> bytes" where
  "wr_role Musician = [0]"
| "wr_role Listener = [1]"

definition rd_role :: "role reader" where
  "rd_role = rd_tag (\<lambda>t. if t = 0 then give Musician else if t = 1 then give Listener else (\<lambda>_. None))"

definition wr_dest_id :: "destination_id \<Rightarrow> bytes" where
  "wr_dest_id d = wr_word (destination_num d)"

definition rd_dest_id :: "destination_id reader" where
  "rd_dest_id = and_then rd_word (\<lambda>n. give (DestinationId n))"

fun wr_stream_op :: "stream_op \<Rightarrow> bytes" where
  "wr_stream_op (AddDestination i p k) = 0 # wr_dest_id i @ wr_platform p @ wr_vec (expose k)"
| "wr_stream_op (RemoveDestination i) = 1 # wr_dest_id i"
| "wr_stream_op StreamStart = [2]"
| "wr_stream_op StreamStop = [3]"

definition rd_stream_op :: "stream_op reader" where
  "rd_stream_op = rd_tag (\<lambda>t.
     if t = 0 then and_then rd_dest_id (\<lambda>i. and_then rd_platform (\<lambda>p. and_then rd_str (\<lambda>k.
       give (AddDestination i p (StreamKey k)))))
     else if t = 1 then and_then rd_dest_id (\<lambda>i. give (RemoveDestination i))
     else if t = 2 then give StreamStart else if t = 3 then give StreamStop else (\<lambda>_. None))"

fun wr_dest_state :: "destination_state \<Rightarrow> bytes" where
  "wr_dest_state DestIdle = [0]"
| "wr_dest_state DestConnecting = [1]"
| "wr_dest_state DestLive = [2]"
| "wr_dest_state (DestFailed r) = 3 # wr_vec r"

definition rd_dest_state :: "destination_state reader" where
  "rd_dest_state = rd_tag (\<lambda>t. if t = 0 then give DestIdle else if t = 1 then give DestConnecting
     else if t = 2 then give DestLive
     else if t = 3 then and_then rd_str (\<lambda>r. give (DestFailed r)) else (\<lambda>_. None))"

definition wr_dest_status :: "destination_status \<Rightarrow> bytes" where
  "wr_dest_status d = wr_dest_id (ds_id d) @ wr_platform (ds_platform d) @
     wr_dest_state (ds_state d) @ wr_word (ds_bitrate_kbps d) @ wr_word (ds_dropped_frames d) @
     wr_word (ds_repeated_frames d)"

definition rd_dest_status :: "destination_status reader" where
  "rd_dest_status = and_then rd_dest_id (\<lambda>i. and_then rd_platform (\<lambda>p. and_then rd_dest_state (\<lambda>s.
     and_then rd_word (\<lambda>b. and_then rd_word (\<lambda>d. and_then rd_word (\<lambda>r.
       give \<lparr>ds_id = i, ds_platform = p, ds_state = s, ds_bitrate_kbps = b,
         ds_dropped_frames = d, ds_repeated_frames = r\<rparr>))))))"

fun wr_rec_state :: "recording_state \<Rightarrow> bytes" where
  "wr_rec_state RecIdle = [0]"
| "wr_rec_state RecRecording = [1]"
| "wr_rec_state RecUploading = [2]"
| "wr_rec_state (RecFailed r) = 3 # wr_vec r"

definition rd_rec_state :: "recording_state reader" where
  "rd_rec_state = rd_tag (\<lambda>t. if t = 0 then give RecIdle else if t = 1 then give RecRecording
     else if t = 2 then give RecUploading
     else if t = 3 then and_then rd_str (\<lambda>r. give (RecFailed r)) else (\<lambda>_. None))"

fun wr_ready :: "broadcast_readiness \<Rightarrow> bytes" where
  "wr_ready Ready = [0]"
| "wr_ready (Unavailable r) = 1 # wr_vec r"

definition rd_ready :: "broadcast_readiness reader" where
  "rd_ready = rd_tag (\<lambda>t. if t = 0 then give Ready
     else if t = 1 then and_then rd_str (\<lambda>r. give (Unavailable r)) else (\<lambda>_. None))"

definition wr_member_info :: "member_info \<Rightarrow> bytes" where
  "wr_member_info m = wr_member_id (mi_id m) @ wr_role (mi_role m) @ wr_vec (mi_name m) @
     wr_bool (mi_connected m) @ wr_opt id (mi_avatar_hash m) @ wr_bool (mi_quiet m)"

definition rd_member_info :: "member_info reader" where
  "rd_member_info = and_then rd_member_id (\<lambda>i. and_then rd_role (\<lambda>r. and_then rd_str (\<lambda>n.
     and_then rd_bool (\<lambda>c. and_then (rd_opt (rd_raw 32)) (\<lambda>h. and_then rd_bool (\<lambda>q.
       give \<lparr>mi_id = i, mi_role = r, mi_name = n, mi_connected = c, mi_avatar_hash = h,
         mi_quiet = q\<rparr>))))))"

lemmas reader_defs = and_then_def rd_tag_def

lemma rd_wr_member_id [simp]: "rd_member_id (wr_member_id m @ r) = Some (m, r)"
  by (simp add: rd_member_id_def wr_member_id_def reader_defs)

lemma rd_wr_dest_id [simp]: "rd_dest_id (wr_dest_id m @ r) = Some (m, r)"
  by (simp add: rd_dest_id_def wr_dest_id_def reader_defs)

lemma rd_wr_platform [simp]: "rd_platform (wr_platform p @ r) = Some (p, r)"
  by (cases p) (simp_all add: rd_platform_def reader_defs)

lemma rd_wr_role [simp]: "rd_role (wr_role p @ r) = Some (p, r)"
  by (cases p) (simp_all add: rd_role_def reader_defs)

lemma rd_wr_stream_op:
  "(case op' of AddDestination _ _ key \<Rightarrow> valid_utf8 (expose key) | _ \<Rightarrow> True) \<Longrightarrow>
   rd_stream_op (wr_stream_op op' @ r) = Some (op', r)"
  by (cases op') (simp_all add: rd_stream_op_def reader_defs)

lemma rd_wr_dest_state:
  "(case s of DestFailed r \<Rightarrow> valid_utf8 r | _ \<Rightarrow> True) \<Longrightarrow>
   rd_dest_state (wr_dest_state s @ r) = Some (s, r)"
  by (cases s) (simp_all add: rd_dest_state_def reader_defs)

lemma reads_dest_status: "dest_status_text_ok d \<Longrightarrow> reads wr_dest_status rd_dest_status d"
  by (simp add: reads_def wr_dest_status_def rd_dest_status_def dest_status_text_ok_def
      rd_wr_dest_state reader_defs)

lemma rd_wr_rec_state:
  "(case s of RecFailed r \<Rightarrow> valid_utf8 r | _ \<Rightarrow> True) \<Longrightarrow>
   rd_rec_state (wr_rec_state s @ r) = Some (s, r)"
  by (cases s) (simp_all add: rd_rec_state_def reader_defs)

lemma rd_wr_ready:
  "(case s of Unavailable r \<Rightarrow> valid_utf8 r | _ \<Rightarrow> True) \<Longrightarrow>
   rd_ready (wr_ready s @ r) = Some (s, r)"
  by (cases s) (simp_all add: rd_ready_def reader_defs)

lemma reads_member_info: "member_info_text_ok m \<Longrightarrow> reads wr_member_info rd_member_info m"
proof -
  assume ok: "member_info_text_ok m"
  then have "rd_opt (rd_raw 32) (wr_opt id (mi_avatar_hash m) @ r) = Some (mi_avatar_hash m, r)" for r
    by (intro rd_wr_opt) (simp add: member_info_text_ok_def reads_def)
  then show ?thesis
    using ok by (simp add: reads_def wr_member_info_def rd_member_info_def member_info_text_ok_def
        reader_defs)
qed

section \<open>Messages and packets\<close>

fun wr_msg :: "control_msg \<Rightarrow> bytes" where
  "wr_msg (Roster ms) = 0 # wr_seq wr_member_info ms"
| "wr_msg (Chat from text) = 1 # wr_member_id from @ wr_vec text"
| "wr_msg (MixerSet m g p q) = 2 # wr_member_id m @ to_le g @ to_le p @ wr_bool q"
| "wr_msg (MetronomeSet b n e) = 3 # wr_word b @ n # wr_bool e"
| "wr_msg (ClickEnable e) = 4 # wr_bool e"
| "wr_msg (Ping n s) = 5 # wr_word n @ wr_word s"
| "wr_msg (Pong n s) = 6 # wr_word n @ wr_word s"
| "wr_msg (Revoke j) = 7 # token_bytes j"
| "wr_msg (Bye r) = 8 # wr_vec r"
| "wr_msg (Stats l d r) = 9 # to_le l @ wr_word d @ to_le r"
| "wr_msg (BroadcastMixSet m g p q) = 10 # wr_member_id m @ to_le g @ to_le p @ wr_bool q"
| "wr_msg (BroadcastAudition e) = 11 # wr_bool e"
| "wr_msg (SetAvatar h l) = 12 # h @ wr_word l"
| "wr_msg (AvatarChunk h i n d) = 13 # h @ wr_word i @ wr_word n @ wr_vec d"
| "wr_msg (AvatarRequest h) = 14 # h"
| "wr_msg (StreamCtl op) = 15 # wr_stream_op op"
| "wr_msg (StreamStatus ds) = 16 # wr_seq wr_dest_status ds"
| "wr_msg (RecordCtl op) = [17, if op = RecordStart then 0 else 1]"
| "wr_msg (RecordStatus s b) = 18 # wr_rec_state s @ wr_bool b"
| "wr_msg (SetName n) = 19 # wr_vec n"
| "wr_msg (BroadcastReady s) = 20 # wr_ready s"
| "wr_msg (ServerLog l) = 21 # wr_vec l"
| "wr_msg (HearSelf e) = 22 # wr_bool e"

definition rd_mix :: "(member_id \<Rightarrow> f32 \<Rightarrow> f32 \<Rightarrow> bool \<Rightarrow> control_msg) \<Rightarrow> control_msg reader" where
  "rd_mix c = and_then rd_member_id (\<lambda>m. and_then rd_f32 (\<lambda>g. and_then rd_f32 (\<lambda>p.
     and_then rd_bool (\<lambda>q. give (c m g p q)))))"

definition rd_msg :: "control_msg reader" where
  "rd_msg = rd_tag (\<lambda>t.
     if t = 0 then and_then (rd_seq rd_member_info) (\<lambda>ms. give (Roster ms))
     else if t = 1 then and_then rd_member_id (\<lambda>m. and_then rd_str (\<lambda>s. give (Chat m s)))
     else if t = 2 then rd_mix MixerSet
     else if t = 3 then and_then rd_word (\<lambda>b. and_then rd_byte (\<lambda>n. and_then rd_bool (\<lambda>e.
       give (MetronomeSet b n e))))
     else if t = 4 then and_then rd_bool (\<lambda>e. give (ClickEnable e))
     else if t = 5 then and_then rd_word (\<lambda>n. and_then rd_word (\<lambda>s. give (Ping n s)))
     else if t = 6 then and_then rd_word (\<lambda>n. and_then rd_word (\<lambda>s. give (Pong n s)))
     else if t = 7 then and_then (rd_raw 16) (\<lambda>j. give (Revoke (TokenId j)))
     else if t = 8 then and_then rd_str (\<lambda>s. give (Bye s))
     else if t = 9 then and_then rd_f32 (\<lambda>l. and_then rd_word (\<lambda>d. and_then rd_f32 (\<lambda>r.
       give (Stats l d r))))
     else if t = 10 then rd_mix BroadcastMixSet
     else if t = 11 then and_then rd_bool (\<lambda>e. give (BroadcastAudition e))
     else if t = 12 then and_then (rd_raw 32) (\<lambda>h. and_then rd_word (\<lambda>l. give (SetAvatar h l)))
     else if t = 13 then and_then (rd_raw 32) (\<lambda>h. and_then rd_word (\<lambda>i. and_then rd_word (\<lambda>n.
       and_then rd_vec (\<lambda>d. give (AvatarChunk h i n d)))))
     else if t = 14 then and_then (rd_raw 32) (\<lambda>h. give (AvatarRequest h))
     else if t = 15 then and_then rd_stream_op (\<lambda>p. give (StreamCtl p))
     else if t = 16 then and_then (rd_seq rd_dest_status) (\<lambda>ds. give (StreamStatus ds))
     else if t = 17 then rd_tag (\<lambda>b. if b = 0 then give (RecordCtl RecordStart)
       else if b = 1 then give (RecordCtl RecordStop) else (\<lambda>_. None))
     else if t = 18 then and_then rd_rec_state (\<lambda>s. and_then rd_bool (\<lambda>b. give (RecordStatus s b)))
     else if t = 19 then and_then rd_str (\<lambda>s. give (SetName s))
     else if t = 20 then and_then rd_ready (\<lambda>s. give (BroadcastReady s))
     else if t = 21 then and_then rd_str (\<lambda>s. give (ServerLog s))
     else if t = 22 then and_then rd_bool (\<lambda>e. give (HearSelf e))
     else (\<lambda>_. None))"

lemma rd_wr_msg: "msg_text_ok m \<Longrightarrow> rd_msg (wr_msg m @ r) = Some (m, r)"
proof (cases m)
  case (Roster ms)
  moreover assume "msg_text_ok m"
  ultimately have "rd_seq rd_member_info (wr_seq wr_member_info ms @ r) = Some (ms, r)" for r
    by (intro rd_wr_seq reads_member_info) (simp add: list_all_iff)
  then show ?thesis using Roster by (simp add: rd_msg_def reader_defs)
next
  case (StreamStatus ds)
  moreover assume "msg_text_ok m"
  ultimately have "rd_seq rd_dest_status (wr_seq wr_dest_status ds @ r) = Some (ds, r)" for r
    by (intro rd_wr_seq reads_dest_status) (simp add: list_all_iff)
  then show ?thesis using StreamStatus by (simp add: rd_msg_def reader_defs)
next
  case (RecordCtl op)
  then show ?thesis by (cases op) (simp_all add: rd_msg_def reader_defs)
next
  case (Revoke j)
  moreover assume "msg_text_ok m"
  ultimately show ?thesis by (cases j) (simp add: rd_msg_def reader_defs)
next
  case (StreamCtl op)
  moreover assume "msg_text_ok m"
  ultimately show ?thesis by (simp add: rd_msg_def reader_defs rd_wr_stream_op)
next
  case (RecordStatus s b)
  moreover assume "msg_text_ok m"
  ultimately show ?thesis by (simp add: rd_msg_def reader_defs rd_wr_rec_state)
next
  case (BroadcastReady s)
  moreover assume "msg_text_ok m"
  ultimately show ?thesis by (simp add: rd_msg_def reader_defs rd_wr_ready)
qed (simp_all add: rd_msg_def rd_mix_def reader_defs)

definition wr_packet :: "ctl_packet \<Rightarrow> bytes" where
  "wr_packet p = wr_nat (cp_ack p) @ wr_word (cp_ack_bits p) @
     wr_opt (\<lambda>(seq, msg). wr_nat seq @ wr_msg msg) (cp_frame p)"

definition rd_packet :: "ctl_packet reader" where
  "rd_packet = and_then rd_u64 (\<lambda>a. and_then rd_word (\<lambda>b.
     and_then (rd_opt (and_then rd_u64 (\<lambda>s. and_then rd_msg (\<lambda>m. give (s, m))))) (\<lambda>f.
       give \<lparr>cp_ack = a, cp_ack_bits = b, cp_frame = f\<rparr>)))"

lemma postcard_ok: "codec_ok wr_packet rd_packet"
  unfolding codec_ok_def
proof (intro allI impI)
  fix p rest
  assume ok: "ctl_packet_ok p"
  let ?e = "\<lambda>(seq, msg). wr_nat seq @ wr_msg msg"
    and ?d = "and_then rd_u64 (\<lambda>s. and_then rd_msg (\<lambda>m. give (s, m)))"
  have "rd_opt ?d (wr_opt ?e (cp_frame p) @ r) = Some (cp_frame p, r)" for r
    by (rule rd_wr_opt)
      (use ok in \<open>auto simp: ctl_packet_ok_def reads_def reader_defs rd_wr_msg\<close>)
  then show "rd_packet (wr_packet p @ rest) = Some (p, rest)"
    using ok by (simp add: rd_packet_def wr_packet_def reader_defs ctl_packet_ok_def)
qed

text \<open>The serialiser and the reader are a codec in the sense of the shared contract.\<close>

interpretation packet: byte_codec wr_packet
  "\<lambda>bs. case rd_packet bs of Some (p, []) \<Rightarrow> Ok p | _ \<Rightarrow> Err Encode" ctl_packet_ok
  using codec_reads [OF postcard_ok] by unfold_locales simp

end
