(* ===== verification/Invite.thy ===== *)
theory Invite
  imports Postcard
begin

text \<open>
  Invites and admission tokens, \<open>crates/protocol/src/invite.rs\<close>.  The issuer signs the session, the
  server's key and the token; an invite string is the base64url form of the serialised invite behind
  a fixed prefix.

  The serialiser (\<open>postcard\<close>) and the base64 codec (\<open>data-encoding\<close>) are fields of the \<open>serde\<close>
  argument; \<open>serde_ok\<close> states what the code relies on.  A socket address is opaque here.
\<close>

section \<open>Types\<close>

record token =
  tk_member_id :: member_id
  tk_role :: role
  tk_name_hint :: "bytes option"
  tk_expires_unix :: nat
  tk_jti :: token_id

record invite =
  iv_session_id :: session_id
  iv_addresses :: "sock_addr list"
  iv_server_pk :: bytes
  iv_token :: token
  iv_signature :: bytes

record handshake_payload =
  hp_token :: token
  hp_signature :: bytes

record welcome_msg =
  wl_member_id :: member_id
  wl_sample_clock :: u64

record serde =
  claims_bytes :: "session_id \<Rightarrow> bytes \<Rightarrow> token \<Rightarrow> bytes"
  invite_bytes :: "invite \<Rightarrow> bytes"
  read_invite :: "bytes \<Rightarrow> (invite \<times> bytes) option"
  payload_bytes :: "handshake_payload \<Rightarrow> bytes"
  read_payload :: "bytes \<Rightarrow> (handshake_payload \<times> bytes) option"
  welcome_bytes :: "welcome_msg \<Rightarrow> bytes"
  read_welcome :: "bytes \<Rightarrow> (welcome_msg \<times> bytes) option"
  base64_encode :: "bytes \<Rightarrow> bytes"
  base64_decode :: "bytes \<Rightarrow> bytes option"

text \<open>The base64url alphabet.\<close>

definition base64_char :: "u8 \<Rightarrow> bool" where
  "base64_char b \<longleftrightarrow> (48 \<le> b \<and> b \<le> 57) \<or> (65 \<le> b \<and> b \<le> 90) \<or> (97 \<le> b \<and> b \<le> 122) \<or> b = 45 \<or> b = 95"

text \<open>Values the code can hold: array lengths, \<open>u64\<close> ranges, UTF-8 names.\<close>

definition token_ok :: "token \<Rightarrow> bool" where
  "token_ok k \<longleftrightarrow> tk_expires_unix k < 2 ^ 64 \<and> length (token_bytes (tk_jti k)) = 16 \<and>
     (case tk_name_hint k of None \<Rightarrow> True | Some n \<Rightarrow> valid_utf8 n)"

definition invite_ok :: "invite \<Rightarrow> bool" where
  "invite_ok i \<longleftrightarrow> length (session_bytes (iv_session_id i)) = 16 \<and> length (iv_server_pk i) = 32 \<and>
     length (iv_signature i) = 64 \<and> token_ok (iv_token i) \<and>
     list_all (\<lambda>a. ip_ok (sock_ip a)) (iv_addresses i)"

definition payload_ok :: "handshake_payload \<Rightarrow> bool" where
  "payload_ok p \<longleftrightarrow> token_ok (hp_token p) \<and> length (hp_signature p) = 64"

definition serde_ok :: "serde \<Rightarrow> bool" where
  "serde_ok s \<longleftrightarrow>
     (\<forall>i rest. invite_ok i \<longrightarrow> read_invite s (invite_bytes s i @ rest) = Some (i, rest)) \<and>
     (\<forall>p rest. payload_ok p \<longrightarrow> read_payload s (payload_bytes s p @ rest) = Some (p, rest)) \<and>
     (\<forall>w rest. read_welcome s (welcome_bytes s w @ rest) = Some (w, rest)) \<and>
     (\<forall>x. base64_decode s (base64_encode s x) = Some x \<and> list_all base64_char (base64_encode s x))"

section \<open>Signing and checking\<close>

definition URL_PREFIX :: bytes where "URL_PREFIX = str ''jamstream://join/''"
definition SIGN_DOMAIN :: bytes where "SIGN_DOMAIN = str ''jamstream-token-v1''"

definition claims :: "serde \<Rightarrow> session_id \<Rightarrow> bytes \<Rightarrow> token \<Rightarrow> bytes" where
  "claims s session server_pk token = SIGN_DOMAIN @ claims_bytes s session server_pk token"

definition mint ::
  "('hs, 'ts) crypto \<Rightarrow> serde \<Rightarrow> bytes \<Rightarrow> session_id \<Rightarrow> sock_addr list \<Rightarrow> bytes \<Rightarrow> token \<Rightarrow> invite" where
  "mint c s key session addresses server_pk token =
     (let msg = claims s session server_pk token;
          signature = ed25519_sign c key msg
      in \<lparr>iv_session_id = session, iv_addresses = addresses, iv_server_pk = server_pk,
          iv_token = token, iv_signature = signature\<rparr>)"

definition verify_token ::
  "('hs, 'ts) crypto \<Rightarrow> serde \<Rightarrow> bytes \<Rightarrow> session_id \<Rightarrow> bytes \<Rightarrow> token \<Rightarrow> bytes \<Rightarrow> nat \<Rightarrow>
     (unit, error) result" where
  "verify_token c s issuer_pk session server_pk token signature now_unix =
     (let msg = claims s session server_pk token
      in if \<not> ed25519_verify c issuer_pk msg signature
         then Err (Token ''has a bad signature'')
         else if tk_expires_unix token \<le> now_unix then Err (Token ''has expired'')
         else Ok ())"

section \<open>Invite strings\<close>

definition strip_prefix :: "bytes \<Rightarrow> bytes \<Rightarrow> bytes option" where
  "strip_prefix pre s =
     (if take (length pre) s = pre then Some (drop (length pre) s) else None)"

definition invite_encode :: "serde \<Rightarrow> invite \<Rightarrow> bytes" where
  "invite_encode s i = URL_PREFIX @ base64_encode s (invite_bytes s i)"

definition invite_decode :: "serde \<Rightarrow> bytes \<Rightarrow> (invite, error) result" where
  "invite_decode s text =
     (let raw = str_trim text;
          blob = (case strip_prefix URL_PREFIX raw of Some b \<Rightarrow> b | None \<Rightarrow> raw)
      in case base64_decode s blob of
           None \<Rightarrow> Err (Invite ''has invalid encoding'')
         | Some bs \<Rightarrow>
             (case read_invite s bs of
                None \<Rightarrow> Err (Invite ''is truncated or corrupt'')
              | Some (i, rest) \<Rightarrow>
                  if rest \<noteq> [] then Err (Invite ''is truncated or corrupt'')
                  else if iv_addresses i = [] then Err (Invite ''has no server address'')
                  else Ok i))"

section \<open>Facts\<close>

lemma base64_char_range: "base64_char b \<Longrightarrow> 32 < b \<and> b < 128 \<and> b \<noteq> 58"
  by (auto simp: base64_char_def word_le_nat_alt word_less_nat_alt)

lemma prefix_bytes:
  "length URL_PREFIX = 17" "58 \<in> set URL_PREFIX" "hd URL_PREFIX = 106" "URL_PREFIX \<noteq> []"
  by (simp_all add: URL_PREFIX_def str_def)

lemma strip_prefix_append: "strip_prefix pre (pre @ s) = Some s"
  by (simp add: strip_prefix_def)

text \<open>A bare blob never looks prefixed: the prefix has a colon.\<close>

lemma strip_prefix_blob: "list_all base64_char b \<Longrightarrow> strip_prefix URL_PREFIX b = None"
proof -
  assume b: "list_all base64_char b"
  have "take (length URL_PREFIX) b \<noteq> URL_PREFIX"
  proof
    assume "take (length URL_PREFIX) b = URL_PREFIX"
    then have "58 \<in> set b" using prefix_bytes(2) by (metis in_set_takeD)
    then show False using b base64_char_range by (auto simp: list_all_iff)
  qed
  then show ?thesis by (simp add: strip_prefix_def)
qed

lemma encode_trims:
  assumes "serde_ok s"
  shows "str_trim (invite_encode s i) = invite_encode s i"
proof (cases "base64_encode s (invite_bytes s i)")
  case Nil
  then show ?thesis by (simp add: invite_encode_def str_trim_id URL_PREFIX_def str_def)
next
  case (Cons b bs)
  have "list_all base64_char (base64_encode s (invite_bytes s i))" using assms by (simp add: serde_ok_def)
  then have "base64_char (last (base64_encode s (invite_bytes s i)))"
    using Cons by (metis last_in_set list.distinct(1) list_all_iff)
  then have "32 < last (invite_encode s i) \<and> last (invite_encode s i) < 128"
    using Cons base64_char_range by (simp add: invite_encode_def)
  then show ?thesis
    by (intro str_trim_id) (auto simp: invite_encode_def prefix_bytes)
qed

text \<open>An invite survives its string form: decoding what was encoded gives the invite back, with or
  without the prefix, exactly when it names a server address.\<close>

theorem invite_roundtrip:
  assumes "serde_ok s" "invite_ok i" "base64_encode s (invite_bytes s i) \<noteq> []"
  shows "invite_decode s (invite_encode s i) =
      (if iv_addresses i = [] then Err (Invite ''has no server address'') else Ok i) \<and>
    invite_decode s (base64_encode s (invite_bytes s i)) = invite_decode s (invite_encode s i)"
proof -
  let ?b = "base64_encode s (invite_bytes s i)"
  have b: "list_all base64_char ?b" "base64_decode s ?b = Some (invite_bytes s i)"
    "read_invite s (invite_bytes s i) = Some (i, [])"
    using assms(1,2) unfolding serde_ok_def by (blast, blast, metis append_Nil2)
  have hd_last: "base64_char (hd ?b)" "base64_char (last ?b)"
    using b(1) assms(3) by (simp_all add: list_all_iff)
  have trim: "str_trim ?b = ?b"
    using hd_last [THEN base64_char_range] assms(3) by (intro str_trim_id) auto
  show ?thesis
    using encode_trims [OF assms(1), of i] strip_prefix_append [of URL_PREFIX ?b]
      strip_prefix_blob [OF b(1)] trim b(2,3)
    by (simp add: invite_decode_def invite_encode_def Let_def)
qed

section \<open>An instance\<close>

text \<open>Fields one after another with the primitives of the packet serialiser; hexadecimal as base64.\<close>

definition wr_token :: "token \<Rightarrow> bytes" where
  "wr_token k = wr_member_id (tk_member_id k) @ wr_role (tk_role k) @ wr_opt wr_vec (tk_name_hint k) @
     wr_nat (tk_expires_unix k) @ token_bytes (tk_jti k)"

definition rd_token :: "token reader" where
  "rd_token = and_then rd_member_id (\<lambda>m. and_then rd_role (\<lambda>r. and_then (rd_opt rd_str) (\<lambda>n.
     and_then rd_u64 (\<lambda>e. and_then (rd_raw 16) (\<lambda>j.
       give \<lparr>tk_member_id = m, tk_role = r, tk_name_hint = n, tk_expires_unix = e, tk_jti = TokenId j\<rparr>)))))"

fun wr_ip :: "ip_addr \<Rightarrow> bytes" where
  "wr_ip (V4 b) = 0 # b"
| "wr_ip (V6 b) = 1 # b"

definition wr_addr :: "sock_addr \<Rightarrow> bytes" where
  "wr_addr a = wr_ip (sock_ip a) @ wr_word (sock_port a)"

definition rd_addr :: "sock_addr reader" where
  "rd_addr = and_then (rd_tag (\<lambda>t. if t = 0 then and_then (rd_raw 4) (\<lambda>b. give (V4 b))
     else if t = 1 then and_then (rd_raw 16) (\<lambda>b. give (V6 b)) else (\<lambda>_. None)))
     (\<lambda>i. and_then rd_word (\<lambda>p. give (SockAddr i p)))"

definition wr_invite :: "invite \<Rightarrow> bytes" where
  "wr_invite i = session_bytes (iv_session_id i) @ wr_seq wr_addr (iv_addresses i) @ iv_server_pk i @
     wr_token (iv_token i) @ iv_signature i"

definition rd_invite :: "invite reader" where
  "rd_invite = and_then (rd_raw 16) (\<lambda>s. and_then (rd_seq rd_addr) (\<lambda>a. and_then (rd_raw 32) (\<lambda>p.
     and_then rd_token (\<lambda>k. and_then (rd_raw 64) (\<lambda>g.
       give \<lparr>iv_session_id = SessionId s, iv_addresses = a, iv_server_pk = p, iv_token = k,
         iv_signature = g\<rparr>)))))"

definition wr_payload :: "handshake_payload \<Rightarrow> bytes" where
  "wr_payload p = wr_token (hp_token p) @ hp_signature p"

definition rd_payload :: "handshake_payload reader" where
  "rd_payload = and_then rd_token (\<lambda>k. and_then (rd_raw 64) (\<lambda>g.
     give \<lparr>hp_token = k, hp_signature = g\<rparr>))"

definition wr_welcome :: "welcome_msg \<Rightarrow> bytes" where
  "wr_welcome w = wr_member_id (wl_member_id w) @ wr_word (wl_sample_clock w)"

definition rd_welcome :: "welcome_msg reader" where
  "rd_welcome = and_then rd_member_id (\<lambda>m. and_then rd_word (\<lambda>c.
     give \<lparr>wl_member_id = m, wl_sample_clock = c\<rparr>))"

definition unhex_digit :: "u8 \<Rightarrow> nat" where
  "unhex_digit b = (if b < 58 then unat b - 48 else unat b - 87)"

fun unhex :: "bytes \<Rightarrow> bytes option" where
  "unhex [] = Some []"
| "unhex [b] = None"
| "unhex (a # b # bs) =
     map_option (Cons (of_nat (16 * unhex_digit a + unhex_digit b))) (unhex bs)"

lemma unhex_hex_digit: "n < 16 \<Longrightarrow> unhex_digit (hex_digit n) = n"
  using unat_hex_digit [of n] by (auto simp: unhex_digit_def word_less_nat_alt split: if_splits)

lemma unhex_hex: "unhex (hex bs) = Some bs"
proof (induction bs)
  case Nil
  then show ?case by (simp add: hex_def)
next
  case (Cons b bs)
  have "unat b div 16 < 16" "unat b mod 16 < 16"
    using unat_u8_less [of b] by (simp_all add: less_mult_imp_div_less)
  then show ?case
    using Cons.IH by (simp add: hex_def unhex_hex_digit flip: of_nat_mult of_nat_add)
qed

lemma hex_digit_char: "n < 16 \<Longrightarrow> base64_char (hex_digit n)"
  using unat_hex_digit [of n] by (auto simp: base64_char_def word_le_nat_alt split: if_splits)

lemma hex_chars: "list_all base64_char (hex bs)"
  by (induction bs) (auto simp: hex_def hex_digit_char less_mult_imp_div_less)

definition sample_serde :: serde where
  "sample_serde = \<lparr>claims_bytes = (\<lambda>s p k. session_bytes s @ p @ wr_token k),
     invite_bytes = wr_invite, read_invite = rd_invite, payload_bytes = wr_payload,
     read_payload = rd_payload, welcome_bytes = wr_welcome, read_welcome = rd_welcome,
     base64_encode = hex, base64_decode = unhex\<rparr>"

lemma rd_wr_token: "token_ok k \<Longrightarrow> rd_token (wr_token k @ r) = Some (k, r)"
proof -
  assume ok: "token_ok k"
  then have "rd_opt rd_str (wr_opt wr_vec (tk_name_hint k) @ r) = Some (tk_name_hint k, r)" for r
    by (intro rd_wr_opt) (simp add: token_ok_def reads_def)
  then show ?thesis using ok
    by (cases "tk_jti k") (simp add: rd_token_def wr_token_def reader_defs token_ok_def)
qed

lemma reads_addr: "ip_ok (sock_ip a) \<Longrightarrow> reads wr_addr rd_addr a"
  by (cases a; cases "sock_ip a")
    (simp_all add: reads_def wr_addr_def rd_addr_def reader_defs ip_ok_def)

lemma sample_serde_ok: "serde_ok sample_serde"
  unfolding serde_ok_def
proof (intro conjI allI impI)
  fix i rest
  assume ok: "invite_ok i"
  then have "rd_seq rd_addr (wr_seq wr_addr (iv_addresses i) @ r) = Some (iv_addresses i, r)" for r
    by (intro rd_wr_seq reads_addr) (simp add: invite_ok_def list_all_iff)
  then show "read_invite sample_serde (invite_bytes sample_serde i @ rest) = Some (i, rest)"
    using ok by (cases "iv_session_id i")
      (simp add: sample_serde_def rd_invite_def wr_invite_def reader_defs invite_ok_def rd_wr_token)
next
  fix p rest
  assume "payload_ok p"
  then show "read_payload sample_serde (payload_bytes sample_serde p @ rest) = Some (p, rest)"
    by (simp add: sample_serde_def rd_payload_def wr_payload_def reader_defs payload_ok_def rd_wr_token)
qed (simp_all add: sample_serde_def rd_welcome_def wr_welcome_def reader_defs unhex_hex hex_chars)

definition sample_token :: token where
  "sample_token = \<lparr>tk_member_id = MemberId 3, tk_role = Musician, tk_name_hint = Some [97, 110, 97],
     tk_expires_unix = 5000, tk_jti = TokenId (replicate 16 9)\<rparr>"

definition sample_invite :: invite where
  "sample_invite = mint sample_crypto sample_serde [1] (SessionId (replicate 16 2))
     [SockAddr (V4 [10, 0, 0, 1]) 4000] (replicate 32 5) sample_token"

lemma sample_token_ok: "token_ok sample_token"
  by (simp add: token_ok_def sample_token_def valid_utf8.simps char_len_def lead_len_def)

lemma sample_invite_ok: "invite_ok sample_invite"
  by (simp add: invite_ok_def sample_invite_def mint_def Let_def sample_token_ok sample_crypto_def
      ip_ok_def)

theorem invite_roundtrip_witness:
  "invite_decode sample_serde (invite_encode sample_serde sample_invite) = Ok sample_invite"
proof -
  have ne: "base64_encode sample_serde (invite_bytes sample_serde sample_invite) \<noteq> []"
    using length_hex [of "wr_invite sample_invite"] sample_invite_ok
    by (auto simp: sample_serde_def wr_invite_def invite_ok_def)
  have "iv_addresses sample_invite \<noteq> []" by (simp add: sample_invite_def mint_def Let_def)
  then show ?thesis using invite_roundtrip [OF sample_serde_ok sample_invite_ok ne] by simp
qed

text \<open>A minted token is admitted under the issuer's public key for its session, its server and until
  its expiry, and is refused as expired from then on.\<close>

theorem minted_token_verifies:
  assumes "signs c"
  shows "verify_token c s (ed25519_public c key) session server_pk token
      (iv_signature (mint c s key session addrs server_pk token)) now =
    (if tk_expires_unix token \<le> now then Err (Token ''has expired'') else Ok ())"
  using assms by (simp add: verify_token_def mint_def Let_def signs_def)

theorem minted_token_verifies_witness:
  "verify_token sample_crypto sample_serde [1] (SessionId []) [] sample_token
     (iv_signature (mint sample_crypto sample_serde [1] (SessionId []) [] [] sample_token)) 4999 = Ok () \<and>
   verify_token sample_crypto sample_serde [1] (SessionId []) [] sample_token
     (iv_signature (mint sample_crypto sample_serde [1] (SessionId []) [] [] sample_token)) 5000 =
     Err (Token ''has expired'')"
proof -
  have s: "signs sample_crypto" by (simp add: signs_def sample_crypto_def)
  have k: "ed25519_public sample_crypto [1] = [1]" by (simp add: sample_crypto_def)
  show ?thesis
    using minted_token_verifies [OF s, of sample_serde "[1]" "SessionId []" "[]" sample_token "[]"]
    by (simp add: k sample_token_def)
qed

end
