(* ===== verification/Replay.thy ===== *)
theory Replay
  imports Interfaces
begin

text \<open>
  The sliding replay window of \<open>crates/protocol/src/replay.rs\<close>, a 64-bit bitmap over counters
  of 64 bits.  It refines a set of counters: \<open>seen_set\<close> is what the bitmap stands for, and
  \<open>accept\<close> answers exactly whether the counter is new and not older than the window.
\<close>

unbundle bit_operations_syntax

abbreviation (input) WINDOW :: nat where "WINDOW \<equiv> 64"

record replay_window =
  rw_highest :: u64
  rw_bitmap :: u64
  rw_any :: bool

definition replay_new :: replay_window where
  "replay_new = \<lparr>rw_highest = 0, rw_bitmap = 0, rw_any = False\<rparr>"

definition replay_accept :: "replay_window \<Rightarrow> u64 \<Rightarrow> bool \<times> replay_window" where
  "replay_accept w counter =
     (if \<not> rw_any w then (True, \<lparr>rw_highest = counter, rw_bitmap = 1, rw_any = True\<rparr>)
      else if rw_highest w < counter then
        (let shift = unat (counter - rw_highest w);
             bm = (if WINDOW \<le> shift then 0 else push_bit shift (rw_bitmap w))
         in (True, w\<lparr>rw_bitmap := bm OR 1, rw_highest := counter\<rparr>))
      else
        (let offset = unat (rw_highest w - counter)
         in if WINDOW \<le> offset then (False, w)
            else
              (let mask = push_bit offset 1
               in if rw_bitmap w AND mask \<noteq> 0 then (False, w)
                  else (True, w\<lparr>rw_bitmap := rw_bitmap w OR mask\<rparr>))))"

section \<open>The set the window stands for\<close>

text \<open>Counters the window still remembers as accepted.\<close>

definition seen_set :: "replay_window \<Rightarrow> nat set" where
  "seen_set w = {c. rw_any w \<and> c \<le> unat (rw_highest w) \<and> unat (rw_highest w) - c < WINDOW \<and>
     bit (rw_bitmap w) (unat (rw_highest w) - c)}"

text \<open>Counters that \<open>accept\<close> refuses: those seen, and those older than the window.\<close>

definition replay_refused :: "replay_window \<Rightarrow> u64 \<Rightarrow> bool" where
  "replay_refused w c \<longleftrightarrow>
     rw_any w \<and> (unat c + WINDOW \<le> unat (rw_highest w) \<or> unat c \<in> seen_set w)"

lemma unat_diff_le: "a \<le> b \<Longrightarrow> unat (b - a) = unat b - unat a" for a b :: "'a::len word"
  by (rule unat_sub)

lemma replay_accept_iff: "fst (replay_accept w c) \<longleftrightarrow> \<not> replay_refused w c"
proof (cases "rw_any w")
  case False
  then show ?thesis by (simp add: replay_accept_def replay_refused_def)
next
  case True
  show ?thesis
  proof (cases "rw_highest w < c")
    case new: True
    then have "unat (rw_highest w) < unat c" by (simp add: word_less_nat_alt)
    then show ?thesis using True new
      by (simp add: replay_accept_def replay_refused_def seen_set_def Let_def)
  next
    case old: False
    then have le: "c \<le> rw_highest w" by (simp add: not_less)
    then have le': "unat c \<le> unat (rw_highest w)" by (simp add: word_le_nat_alt)
    have off: "unat (rw_highest w - c) = unat (rw_highest w) - unat c"
      using le by (rule unat_diff_le)
    show ?thesis using True old le'
      by (auto simp: replay_accept_def replay_refused_def seen_set_def Let_def off
          push_bit_of_1 and_exp_eq_0_iff_not_bit)
  qed
qed

text \<open>The step on the set: a new highest counter slides the window, an older one fills its bit.\<close>

lemma seen_set_advance:
  assumes "rw_any w" "rw_highest w < c"
  shows "seen_set (snd (replay_accept w c)) =
    {s \<in> insert (unat c) (seen_set w). unat c < s + WINDOW}"
proof -
  let ?h = "unat (rw_highest w)" and ?c = "unat c"
  have lt: "?h < ?c" using assms(2) by (simp add: word_less_nat_alt)
  have sh: "unat (c - rw_highest w) = ?c - ?h"
    using assms(2) by (intro unat_diff_le) simp
  let ?bm = "(if WINDOW \<le> ?c - ?h then 0 else push_bit (?c - ?h) (rw_bitmap w)) OR 1"
  have st: "snd (replay_accept w c) = w\<lparr>rw_bitmap := ?bm, rw_highest := c\<rparr>"
    using assms by (simp add: replay_accept_def Let_def sh)
  have b: "bit ?bm (?c - s) \<longleftrightarrow> s = ?c \<or> s \<le> ?h \<and> ?h - s < WINDOW \<and> bit (rw_bitmap w) (?h - s)"
    if "s \<le> ?c" "?c - s < WINDOW" for s
  proof (cases "s \<le> ?h")
    case True
    then have "?c - s = (?c - ?h) + (?h - s)" using lt by simp
    then show ?thesis using True that lt by (auto simp: bit_simps bit_1_iff)
  next
    case False
    then show ?thesis using that lt by (auto simp: bit_simps bit_1_iff)
  qed
  have "bit ?bm 0" using lt by (simp add: bit_simps)
  then show ?thesis
    unfolding st seen_set_def using assms(1) lt b by auto
qed

lemma seen_set_fill:
  assumes "rw_any w" "\<not> rw_highest w < c" "\<not> replay_refused w c"
  shows "seen_set (snd (replay_accept w c)) = insert (unat c) (seen_set w)"
proof -
  let ?h = "unat (rw_highest w)" and ?c = "unat c"
  have le: "c \<le> rw_highest w" using assms(2) by (simp add: not_less)
  then have le': "?c \<le> ?h" by (simp add: word_le_nat_alt)
  have off: "unat (rw_highest w - c) = ?h - ?c" using le by (rule unat_diff_le)
  have close: "?h - ?c < WINDOW" using assms(1,3) by (auto simp: replay_refused_def)
  have "fst (replay_accept w c)" using assms(3) by (simp add: replay_accept_iff)
  then have st: "snd (replay_accept w c) = w\<lparr>rw_bitmap := rw_bitmap w OR push_bit (?h - ?c) 1\<rparr>"
    using assms(1,2) close by (auto simp: replay_accept_def Let_def off split: if_splits)
  show ?thesis
    unfolding st seen_set_def using assms(1) le' close
    by (auto simp: bit_simps bit_1_iff)
qed

lemma seen_set_first: "\<not> rw_any w \<Longrightarrow> seen_set (snd (replay_accept w c)) = {unat c}"
  by (auto simp: replay_accept_def seen_set_def bit_1_iff)

lemma replay_refused_unchanged: "replay_refused w c \<Longrightarrow> snd (replay_accept w c) = w"
  using replay_accept_iff [of w c]
  by (auto simp: replay_accept_def replay_refused_def Let_def split: if_splits)

text \<open>The bitmap steps as the set does.\<close>

lemma replay_step:
  "fst (replay_accept w c) = (\<not> replay_refused w c) \<and>
   seen_set (snd (replay_accept w c)) =
     (if replay_refused w c then seen_set w
      else {s \<in> insert (unat c) (seen_set w).
              (if rw_any w then max (unat c) (unat (rw_highest w)) else unat c) < s + WINDOW})"
proof (intro conjI)
  show "fst (replay_accept w c) = (\<not> replay_refused w c)" by (rule replay_accept_iff)
  have near: "unat (rw_highest w) < s + WINDOW" if "s \<in> seen_set w" for s
    using that by (auto simp: seen_set_def)
  have none: "seen_set w = {}" if "\<not> rw_any w"
    using that by (simp add: seen_set_def)
  consider "replay_refused w c" | "\<not> rw_any w"
    | "rw_any w" "rw_highest w < c" "\<not> replay_refused w c"
    | "rw_any w" "\<not> rw_highest w < c" "\<not> replay_refused w c" by blast
  then show "seen_set (snd (replay_accept w c)) =
     (if replay_refused w c then seen_set w
      else {s \<in> insert (unat c) (seen_set w).
              (if rw_any w then max (unat c) (unat (rw_highest w)) else unat c) < s + WINDOW})"
  proof cases
    case 1
    then show ?thesis by (simp add: replay_refused_unchanged)
  next
    case 2
    then show ?thesis by (auto simp: seen_set_first replay_refused_def none)
  next
    case 3
    then have "max (unat c) (unat (rw_highest w)) = unat c"
      by (simp add: word_less_nat_alt)
    with 3 show ?thesis by (simp add: seen_set_advance)
  next
    case 4
    then have m: "max (unat c) (unat (rw_highest w)) = unat (rw_highest w)"
      by (simp add: not_less word_le_nat_alt)
    have "unat (rw_highest w) < unat c + WINDOW"
      using 4 by (auto simp: replay_refused_def)
    with 4 m near show ?thesis by (auto simp: seen_set_fill)
  qed
qed

lemma highest_grows: "rw_any w \<Longrightarrow> unat (rw_highest w) \<le> unat (rw_highest (snd (replay_accept w c)))"
  by (auto simp: replay_accept_def Let_def word_less_nat_alt)

lemma accept_any: "rw_any (snd (replay_accept w c))"
  by (auto simp: replay_accept_def Let_def)

lemma refused_after_accept: "replay_refused (snd (replay_accept w c)) c"
proof (cases "replay_refused w c")
  case True
  then show ?thesis by (simp add: replay_refused_unchanged)
next
  case False
  have "unat c \<in> seen_set (snd (replay_accept w c))"
    using False replay_step [of w c] by (auto simp: replay_refused_def)
  then show ?thesis by (simp add: replay_refused_def accept_any)
qed

lemma refused_stays: "replay_refused w c \<Longrightarrow> replay_refused (snd (replay_accept w d)) c"
proof -
  assume r: "replay_refused w c"
  then have any: "rw_any w" by (simp add: replay_refused_def)
  let ?w = "snd (replay_accept w d)"
  show ?thesis
  proof (cases "replay_refused w d")
    case True
    then show ?thesis using r by (simp add: replay_refused_unchanged)
  next
    case False
    then have h: "unat (rw_highest ?w) = max (unat d) (unat (rw_highest w))"
      using any replay_accept_iff [of w d]
      by (auto simp: replay_accept_def Let_def word_less_nat_alt split: if_splits)
    have s: "s \<in> seen_set ?w" if "s \<in> seen_set w" "unat (rw_highest ?w) < s + WINDOW" for s
      using that h any False replay_step [of w d] by simp
    from r consider "unat c + WINDOW \<le> unat (rw_highest w)" | "unat c \<in> seen_set w"
      by (auto simp: replay_refused_def)
    then show ?thesis
    proof cases
      case 1
      then show ?thesis using h by (simp add: replay_refused_def accept_any le_max_iff_disj)
    next
      case 2
      then show ?thesis using s [of "unat c"]
        by (cases "unat (rw_highest ?w) < unat c + WINDOW") (auto simp: replay_refused_def accept_any)
    qed
  qed
qed

interpretation replay: once_filter replay_accept replay_refused "\<lambda>_. True"
  by unfold_locales (simp_all add: replay_accept_iff refused_after_accept refused_stays)


text \<open>The counters of a sequence that the window lets through.\<close>

fun let_through :: "replay_window \<Rightarrow> u64 list \<Rightarrow> u64 list" where
  "let_through w [] = []"
| "let_through w (c # cs) =
     (let (ok, w') = replay_accept w c in if ok then c # let_through w' cs else let_through w' cs)"

lemma let_through_accepted: "let_through w cs = replay.accepted w cs"
  by (induction cs arbitrary: w) (simp_all add: split_beta Let_def)

text \<open>Over any sequence of arriving counters no counter is accepted twice.\<close>

theorem replay_at_most_once: "distinct (let_through w cs)"
  by (simp add: let_through_accepted replay.accepted_distinct)

end
