(* ===== verification/Transport.thy ===== *)
theory Transport
  imports Invite Replay
begin

text \<open>
  The Noise handshake and the encrypted transport after it, \<open>crates/protocol/src/transport.rs\<close>.

  The \<open>snow\<close> crate is behind the \<open>crypto\<close> argument: a handshake state and a transport state are its
  type parameters.  A fresh keypair of the initiator is an argument.  A \<open>HandshakeRetry\<close> is the
  error with the initiator where the code hands it back.
\<close>

section \<open>Derived keys\<close>

definition REJECT_KEY_DOMAIN :: bytes where
  "REJECT_KEY_DOMAIN = str ''jamstream-version-reject-key-v1''"
definition COOKIE_KEY_DOMAIN :: bytes where
  "COOKIE_KEY_DOMAIN = str ''jamstream-cookie-secret-v1''"
definition COOKIE_REPLY_KEY_DOMAIN :: bytes where
  "COOKIE_REPLY_KEY_DOMAIN = str ''jamstream-cookie-reply-key-v1''"

definition derive_public :: "('hs, 'ts) crypto \<Rightarrow> bytes \<Rightarrow> (bytes, error) result" where
  "derive_public c priv = (if length priv \<noteq> 32 then Err Malformed else Ok (x25519_public c priv))"

definition reject_key_from_dh :: "('hs, 'ts) crypto \<Rightarrow> bytes \<Rightarrow> bytes \<Rightarrow> reject_key option" where
  "reject_key_from_dh c priv pub =
     (if length priv \<noteq> 32 then None
      else if length pub \<noteq> 32 then None
      else (case diffie_hellman c priv pub of
              None \<Rightarrow> None
            | Some shared \<Rightarrow> Some (RejectKey (blake2s256 c (REJECT_KEY_DOMAIN @ shared)))))"

definition cookie_key :: "('hs, 'ts) crypto \<Rightarrow> bytes \<Rightarrow> u64 \<Rightarrow> cookie_key" where
  "cookie_key c server_private epoch =
     CookieKey (blake2s256 c (COOKIE_KEY_DOMAIN @ server_private @ to_le epoch))"

definition cookie_reply_key :: "('hs, 'ts) crypto \<Rightarrow> bytes \<Rightarrow> cookie_reply_key" where
  "cookie_reply_key c server_public =
     CookieReplyKey (blake2s256 c (COOKIE_REPLY_KEY_DOMAIN @ server_public))"

definition prologue :: "u16 \<Rightarrow> session_id \<Rightarrow> bytes" where
  "prologue version session = str ''jamstream'' @ to_le version @ session_bytes session"

definition reject_key_for_init ::
  "('hs, 'ts) crypto \<Rightarrow> bytes \<Rightarrow> session_id \<Rightarrow> u16 \<Rightarrow> bytes \<Rightarrow> reject_key option" where
  "reject_key_for_init c server_private session version_theirs noise_msg =
     (case noise_read_init c server_private (prologue version_theirs session) noise_msg of
        None \<Rightarrow> None
      | Some (payload, remote, hs) \<Rightarrow> reject_key_from_dh c server_private remote)"

section \<open>The transport session\<close>

record 'ts session =
  ss_ts :: 'ts
  ss_send_counter :: u64
  ss_replay :: replay_window

definition session_new :: "'ts \<Rightarrow> 'ts session" where
  "session_new ts = \<lparr>ss_ts = ts, ss_send_counter = 0, ss_replay = replay_new\<rparr>"

text \<open>The counter is spent whether or not the cipher accepts the message.\<close>

definition session_seal ::
  "('hs, 'ts) crypto \<Rightarrow> 'ts session \<Rightarrow> member_id \<Rightarrow> bytes \<Rightarrow> (bytes, error) result \<times> 'ts session" where
  "session_seal c s member plaintext =
     (let counter = ss_send_counter s;
          s' = s\<lparr>ss_send_counter := counter + 1\<rparr>
      in case transport_write c (ss_ts s) counter plaintext of
           None \<Rightarrow> (Err Handshake, s')
         | Some sealed \<Rightarrow> (Ok (append_transport_header member counter [] @ sealed), s'))"

definition session_open ::
  "('hs, 'ts) crypto \<Rightarrow> 'ts session \<Rightarrow> u64 \<Rightarrow> bytes \<Rightarrow> (bytes, error) result \<times> 'ts session" where
  "session_open c s counter ciphertext =
     (case transport_read c (ss_ts s) counter ciphertext of
        None \<Rightarrow> (Err Decrypt, s)
      | Some plain \<Rightarrow>
          (let (fresh, w) = replay_accept (ss_replay s) counter
           in (if fresh then Ok plain else Err Replay, s\<lparr>ss_replay := w\<rparr>)))"

section \<open>The initiator\<close>

record 'hs initiator =
  in_hs :: 'hs
  in_reject_key :: "reject_key option"

definition claiming_version ::
  "('hs, 'ts) crypto \<Rightarrow> serde \<Rightarrow> bytes \<Rightarrow> invite \<Rightarrow> u16 \<Rightarrow> ('hs initiator \<times> bytes, error) result" where
  "claiming_version c s local_private i version =
     (let reject_key = reject_key_from_dh c local_private (iv_server_pk i);
          payload = payload_bytes s \<lparr>hp_token = iv_token i, hp_signature = iv_signature i\<rparr>
      in case noise_write_init c local_private (iv_server_pk i) (prologue version (iv_session_id i)) payload of
           None \<Rightarrow> Err Handshake
         | Some (msg, hs) \<Rightarrow>
             Ok (\<lparr>in_hs = hs, in_reject_key = reject_key\<rparr>, build_handshake_init version msg))"

definition initiator_new ::
  "('hs, 'ts) crypto \<Rightarrow> serde \<Rightarrow> bytes \<Rightarrow> invite \<Rightarrow> ('hs initiator \<times> bytes, error) result" where
  "initiator_new c s local_private i = claiming_version c s local_private i PROTOCOL_VERSION"

definition initiator_finish ::
  "('hs, 'ts) crypto \<Rightarrow> serde \<Rightarrow> 'hs initiator \<Rightarrow> bytes \<Rightarrow>
     ('ts session \<times> welcome_msg, error \<times> 'hs initiator option) result" where
  "initiator_finish c s ini resp =
     (case noise_read_resp c (in_hs ini) resp of
        None \<Rightarrow> Err (Handshake, Some ini)
      | Some (payload, hs) \<Rightarrow>
          (case read_welcome s payload of
             None \<Rightarrow> Err (Encode, None)
           | Some (w, rest) \<Rightarrow>
               if rest \<noteq> [] then Err (Malformed, None)
               else (case noise_into_transport c hs of
                       None \<Rightarrow> Err (Handshake, None)
                     | Some ts \<Rightarrow> Ok (session_new ts, w))))"

section \<open>The responder\<close>

record 'hs responder =
  rs_hs :: 'hs
  rs_remote_static :: bytes

definition read_init ::
  "('hs, 'ts) crypto \<Rightarrow> serde \<Rightarrow> bytes \<Rightarrow> session_id \<Rightarrow> u16 \<Rightarrow> bytes \<Rightarrow>
     (handshake_payload \<times> 'hs responder, error) result" where
  "read_init c s server_private session version_theirs noise_msg =
     (if version_theirs \<noteq> PROTOCOL_VERSION
      then Err (VersionMismatch PROTOCOL_VERSION version_theirs)
      else case noise_read_init c server_private (prologue version_theirs session) noise_msg of
             None \<Rightarrow> Err Handshake
           | Some (payload, remote, hs) \<Rightarrow>
               (case read_payload s payload of
                  None \<Rightarrow> Err Encode
                | Some (hp, rest) \<Rightarrow>
                    if rest \<noteq> [] then Err Malformed
                    else if length remote \<noteq> 32 then Err Malformed
                    else Ok (hp, \<lparr>rs_hs = hs, rs_remote_static = remote\<rparr>)))"

definition responder_reject_key :: "('hs, 'ts) crypto \<Rightarrow> 'hs responder \<Rightarrow> bytes \<Rightarrow> reject_key option" where
  "responder_reject_key c r server_private = reject_key_from_dh c server_private (rs_remote_static r)"

definition responder_respond ::
  "('hs, 'ts) crypto \<Rightarrow> serde \<Rightarrow> 'hs responder \<Rightarrow> welcome_msg \<Rightarrow> ('ts session \<times> bytes, error) result" where
  "responder_respond c s r w =
     (case noise_write_resp c (rs_hs r) (welcome_bytes s w) of
        None \<Rightarrow> Err Handshake
      | Some (msg, hs) \<Rightarrow>
          (case noise_into_transport c hs of
             None \<Rightarrow> Err Handshake
           | Some ts \<Rightarrow> Ok (session_new ts, build_handshake_resp msg)))"

section \<open>Counters\<close>

text \<open>Datagrams that arrive at one session, and the counters of those it opened.\<close>

fun opened :: "('hs, 'ts) crypto \<Rightarrow> 'ts session \<Rightarrow> (u64 \<times> bytes) list \<Rightarrow> u64 list" where
  "opened c s [] = []"
| "opened c s ((n, x) # ds) =
     (let (r, s') = session_open c s n x
      in (if is_ok r then [n] else []) @ opened c s' ds)"

text \<open>They are the counters the replay window let through, of those that authenticated.\<close>

lemma opened_accepted:
  "opened c s ds =
   replay.accepted (ss_replay s)
     (map fst (filter (\<lambda>(n, x). transport_read c (ss_ts s) n x \<noteq> None) ds))"
proof (induction ds arbitrary: s)
  case Nil
  then show ?case by simp
next
  case (Cons d ds)
  obtain n x where d: "d = (n, x)" by (cases d)
  show ?case
  proof (cases "transport_read c (ss_ts s) n x")
    case None
    then show ?thesis using Cons.IH [of s] by (simp add: d session_open_def)
  next
    case (Some m)
    obtain a w where a: "replay_accept (ss_replay s) n = (a, w)" by (cases "replay_accept (ss_replay s) n")
    then show ?thesis
      using Cons.IH [of "s\<lparr>ss_replay := w\<rparr>"] Some by (simp add: d session_open_def)
  qed
qed

text \<open>C29. Every datagram opens at most once: over any arrivals no transport counter is accepted twice, and
  a datagram that does not authenticate leaves the session as it was.\<close>

theorem session_opens_once:
  "distinct (opened c s ds) \<and>
   (transport_read c (ss_ts s) n x = None \<longrightarrow> session_open c s n x = (Err Decrypt, s))"
  unfolding opened_accepted by (auto simp: session_open_def intro: replay.accepted_distinct)

theorem session_opens_once_witness:
  "session_open sample_crypto (session_new ()) 5 [1] = (Err Decrypt, session_new ())"
proof -
  have "transport_read sample_crypto (ss_ts (session_new ())) 5 [1] = None"
    by (simp add: sample_crypto_def to_le_def)
  then show ?thesis
    using session_opens_once [of sample_crypto "session_new ()" "[]" 5 "[1]"] by simp
qed

text \<open>The counters of a run of seals.\<close>

fun sealed_with :: "('hs, 'ts) crypto \<Rightarrow> 'ts session \<Rightarrow> (member_id \<times> bytes) list \<Rightarrow> u64 list" where
  "sealed_with c s [] = []"
| "sealed_with c s ((m, p) # ms) = ss_send_counter s # sealed_with c (snd (session_seal c s m p)) ms"

lemma sealed_with_counters:
  "sealed_with c s ms = map (\<lambda>i. ss_send_counter s + of_nat i) [0..<length ms]"
proof (induction ms arbitrary: s)
  case Nil
  then show ?case by simp
next
  case (Cons a ms)
  obtain m p where a: "a = (m, p)" by (cases a)
  have succ: "ss_send_counter (snd (session_seal c s m p)) = ss_send_counter s + 1"
    by (simp add: session_seal_def Let_def split: option.splits)
  have "map (\<lambda>i. ss_send_counter s + of_nat i) [0..<Suc (length ms)] =
      ss_send_counter s # map (\<lambda>i. ss_send_counter s + of_nat (Suc i)) [0..<length ms]"
    by (simp add: upt_conv_Cons map_Suc_upt [symmetric] comp_def del: upt_Suc)
  then show ?case by (simp add: a Cons.IH succ add.assoc [symmetric] del: upt_Suc)
qed


text \<open>A nonce is never reused: the counters of any run of fewer than \<open>2^64\<close> seals are distinct, refused
  messages included, and each datagram carries the counter it was sealed under.\<close>

theorem seal_counters_distinct:
  assumes "length ms < 2 ^ 64"
  shows "distinct (sealed_with c s ms) \<and>
    (case fst (session_seal c s m p) of
       Inl _ \<Rightarrow> True
     | Inr d \<Rightarrow> (\<exists>x. d = build_transport m (ss_send_counter s) x \<and>
         transport_write c (ss_ts s) (ss_send_counter s) p = Some x))"
proof -
  have "i = j" if "i < length ms" "j < length ms" "(of_nat i :: u64) = of_nat j" for i j
  proof -
    have "unat (of_nat i :: u64) = i" "unat (of_nat j :: u64) = j"
      using that(1,2) assms by (simp_all add: unat_of_nat)
    then show ?thesis unfolding that(3) by (rule trans [OF sym])
  qed
  then have "inj_on (\<lambda>i. ss_send_counter s + of_nat i) {0..<length ms}"
    by (intro inj_onI) (simp only: add_left_cancel atLeastLessThan_iff)
  then have "distinct (sealed_with c s ms)"
    by (simp only: sealed_with_counters distinct_map distinct_upt set_upt simp_thms)
  then show ?thesis
    by (auto simp: session_seal_def Let_def build_transport_def append_transport_header_def
        split: option.splits)
qed

theorem seal_counters_distinct_witness:
  "distinct (sealed_with sample_crypto (session_new ()) [(MemberId 1, [1]), (MemberId 1, [2])])"
  by (rule seal_counters_distinct [THEN conjunct1]) simp

section \<open>A whole handshake\<close>

text \<open>
  One end delivers to the other: whatever a later state of the first end seals, a later state of the
  second opens, unless its replay window refuses the counter.
\<close>

definition delivers :: "('hs, 'ts) crypto \<Rightarrow> 'ts session \<Rightarrow> 'ts session \<Rightarrow> bool" where
  "delivers c a b \<longleftrightarrow>
     (\<forall>a' b' m d x. ss_ts a' = ss_ts a \<longrightarrow> ss_ts b' = ss_ts b \<longrightarrow>
        fst (session_seal c a' m d) = Ok (build_transport m (ss_send_counter a') x) \<longrightarrow>
        \<not> replay_refused (ss_replay b') (ss_send_counter a') \<longrightarrow>
        fst (session_open c b' (ss_send_counter a') x) = Ok d)"

lemma deliversI:
  assumes "\<And>n m x. transport_write c (ss_ts a) n m = Some x \<Longrightarrow> transport_read c (ss_ts b) n x = Some m"
  shows "delivers c a b"
  unfolding delivers_def
proof (intro allI impI)
  fix a' b' :: "'b session" and m d x
  assume ts: "ss_ts a' = ss_ts a" "ss_ts b' = ss_ts b"
    and s: "fst (session_seal c a' m d) = Ok (build_transport m (ss_send_counter a') x)"
    and f: "\<not> replay_refused (ss_replay b') (ss_send_counter a')"
  have "transport_write c (ss_ts a) (ss_send_counter a') d = Some x"
    using s ts by (auto simp: session_seal_def Let_def build_transport_def
        append_transport_header_def split: option.splits)
  then have "transport_read c (ss_ts b') (ss_send_counter a') x = Some d" using assms ts by simp
  moreover have "fst (replay_accept (ss_replay b') (ss_send_counter a'))"
    using f by (simp add: replay_accept_iff)
  ultimately show "fst (session_open c b' (ss_send_counter a') x) = Ok d"
    by (auto simp: session_open_def split: prod.splits)
qed

lemma genuine_handshake:
  assumes laws: "noise_ik c" "serde_ok s"
    and inv: "invite_ok i" "iv_server_pk i = x25519_public c server" "length (x25519_public c priv) = 32"
    and init: "initiator_new c s priv i = Ok (ini, packet)"
  obtains noise r where "packet = build_handshake_init PROTOCOL_VERSION noise"
    and "read_init c s server (iv_session_id i) PROTOCOL_VERSION noise =
      Ok (\<lparr>hp_token = iv_token i, hp_signature = iv_signature i\<rparr>, r)"
    and "rs_remote_static r = x25519_public c priv"
    and "\<And>w srv resp. responder_respond c s r w = Ok (srv, resp) \<Longrightarrow>
      \<exists>noise2 hi. resp = build_handshake_resp noise2 \<and>
        noise_read_resp c (in_hs ini) noise2 = Some (welcome_bytes s w, hi) \<and>
        (\<forall>ti. noise_into_transport c hi = Some ti \<longrightarrow>
           delivers c (session_new ti) srv \<and> delivers c srv (session_new ti))"
proof -
  let ?hp = "\<lparr>hp_token = iv_token i, hp_signature = iv_signature i\<rparr>"
  let ?pl = "prologue PROTOCOL_VERSION (iv_session_id i)"
  obtain msg hi where w1: "noise_write_init c priv (x25519_public c server) ?pl (payload_bytes s ?hp) = Some (msg, hi)"
    and ini: "in_hs ini = hi" "packet = build_handshake_init PROTOCOL_VERSION msg"
    using init inv(2) by (auto simp: initiator_new_def claiming_version_def Let_def split: option.splits)
  obtain hr where r1: "noise_read_init c server ?pl msg = Some (payload_bytes s ?hp, x25519_public c priv, hr)"
    and resp: "\<And>p2 m2 hr'. noise_write_resp c hr p2 = Some (m2, hr') \<Longrightarrow>
      \<exists>hi'. noise_read_resp c hi m2 = Some (p2, hi') \<and>
        (\<forall>ti tr. noise_into_transport c hi' = Some ti \<longrightarrow> noise_into_transport c hr' = Some tr \<longrightarrow>
          (\<forall>n m x. (transport_write c tr n m = Some x \<longrightarrow> transport_read c ti n x = Some m) \<and>
                   (transport_write c ti n m = Some x \<longrightarrow> transport_read c tr n x = Some m)))"
    using laws(1) w1 unfolding noise_ik_def by blast
  have "payload_ok ?hp" using inv(1) by (simp add: payload_ok_def invite_ok_def)
  then have pl: "read_payload s (payload_bytes s ?hp) = Some (?hp, [])"
    using laws(2) unfolding serde_ok_def by (metis append_Nil2)
  let ?r = "\<lparr>rs_hs = hr, rs_remote_static = x25519_public c priv\<rparr>"
  have ri: "read_init c s server (iv_session_id i) PROTOCOL_VERSION msg = Ok (?hp, ?r)"
    using r1 pl inv(3) by (simp add: read_init_def)
  have "\<exists>noise2 hi'. rp = build_handshake_resp noise2 \<and>
        noise_read_resp c (in_hs ini) noise2 = Some (welcome_bytes s w, hi') \<and>
        (\<forall>ti. noise_into_transport c hi' = Some ti \<longrightarrow>
           delivers c (session_new ti) srv \<and> delivers c srv (session_new ti))"
    if rr: "responder_respond c s ?r w = Ok (srv, rp)" for w srv rp
  proof -
    obtain m2 hr' tr where w2: "noise_write_resp c hr (welcome_bytes s w) = Some (m2, hr')"
      "noise_into_transport c hr' = Some tr" "srv = session_new tr" "rp = build_handshake_resp m2"
      using rr by (auto simp: responder_respond_def split: option.splits)
    obtain hi' where "noise_read_resp c hi m2 = Some (welcome_bytes s w, hi')"
      and io: "\<And>ti. noise_into_transport c hi' = Some ti \<Longrightarrow>
        (\<forall>n m x. (transport_write c tr n m = Some x \<longrightarrow> transport_read c ti n x = Some m) \<and>
                 (transport_write c ti n m = Some x \<longrightarrow> transport_read c tr n x = Some m))"
      using resp [OF w2(1)] w2(2) by blast
    moreover have "delivers c (session_new ti) srv \<and> delivers c srv (session_new ti)"
      if "noise_into_transport c hi' = Some ti" for ti
      using io [OF that] by (intro conjI deliversI; simp add: w2(3) session_new_def)
    ultimately show ?thesis using ini(1) w2(4) by blast
  qed
  then show thesis by (intro that [OF ini(2) ri]) simp_all
qed

lemma read_welcome_bytes: "serde_ok s \<Longrightarrow> read_welcome s (welcome_bytes s w) = Some (w, [])"
  unfolding serde_ok_def by (metis append_Nil2)


text \<open>The sample primitives obey the law.\<close>

lemma sample_noise: "noise_ik sample_crypto"
  by (auto simp: noise_ik_def sample_crypto_def to_le_def)


end
