(* ===== verification/Avatar.thy ===== *)
theory Avatar
  imports Control Wire
begin

text \<open>
  Avatar plumbing, \<open>crates/session/src/avatar.rs\<close>: the content-addressed cache with its byte
  budget, reassembly of a chunk train, and the cursor that cuts one.

  The digest is the \<open>blake2\<close> crate's, a field of the \<open>crypto\<close> argument.  \<open>total_bytes\<close> is a
  natural number: \<open>cache_inv\<close> shows that the subtraction of an evicted entry never underflows.
\<close>

abbreviation (input) AVATAR_CHUNKS_PER_POLL :: nat where "AVATAR_CHUNKS_PER_POLL \<equiv> 2"

definition avatar_hash :: "('hs, 'ts) crypto \<Rightarrow> bytes \<Rightarrow> hash32" where
  "avatar_hash c bs = blake2s256 c bs"

text \<open>\<open>div_ceil\<close>, truncated to \<open>u16\<close> by the cast.\<close>

definition chunk_total :: "nat \<Rightarrow> u16" where
  "chunk_total len = of_nat ((len + (AVATAR_CHUNK_BYTES - 1)) div AVATAR_CHUNK_BYTES)"

section \<open>The cache\<close>

record cache_entry =
  ce_bytes :: bytes
  ce_last_ref :: nat

record avatar_cache =
  ac_max_bytes :: nat
  ac_total_bytes :: nat
  ac_clock :: nat
  ac_entries :: "(hash32, cache_entry) bmap"

definition cache_new :: "nat \<Rightarrow> avatar_cache" where
  "cache_new max_bytes =
     \<lparr>ac_max_bytes = max_bytes, ac_total_bytes = 0, ac_clock = 0, ac_entries = bm_empty\<rparr>"

definition cache_contains :: "avatar_cache \<Rightarrow> hash32 \<Rightarrow> bool" where
  "cache_contains c h \<longleftrightarrow> bm_contains (ac_entries c) h"

definition cache_get :: "avatar_cache \<Rightarrow> hash32 \<Rightarrow> bytes option" where
  "cache_get c h = map_option ce_bytes (bm_get (ac_entries c) h)"

definition cache_touch :: "avatar_cache \<Rightarrow> hash32 \<Rightarrow> avatar_cache" where
  "cache_touch c h =
     (let clock = wrap64 (ac_clock c + 1)
      in c\<lparr>ac_clock := clock,
           ac_entries := bm_update h (\<lambda>e. e\<lparr>ce_last_ref := clock\<rparr>) (ac_entries c)\<rparr>)"

text \<open>\<open>min_by_key\<close>: the first of the least.\<close>

fun min_entry :: "(hash32 \<times> cache_entry) list \<Rightarrow> (hash32 \<times> cache_entry) option" where
  "min_entry [] = None"
| "min_entry (x # xs) =
     (case min_entry xs of
        None \<Rightarrow> Some x
      | Some y \<Rightarrow> if ce_last_ref (snd x) \<le> ce_last_ref (snd y) then Some x else Some y)"

definition cache_victim :: "avatar_cache \<Rightarrow> hash32 \<Rightarrow> hash32 list \<Rightarrow> hash32 option" where
  "cache_victim c h pinned =
     map_option fst (min_entry (filter (\<lambda>(k, _). k \<noteq> h \<and> k \<notin> set pinned) (bm_entries (ac_entries c))))"

lemma min_entry_in: "min_entry xs = Some x \<Longrightarrow> x \<in> set xs"
  by (induction xs arbitrary: x) (auto split: option.splits if_splits)

lemma min_entry_least: "min_entry xs = Some x \<Longrightarrow> y \<in> set xs \<Longrightarrow> ce_last_ref (snd x) \<le> ce_last_ref (snd y)"
proof (induction xs arbitrary: x)
  case Nil
  then show ?case by simp
next
  case (Cons a xs)
  show ?case
  proof (cases "min_entry xs")
    case None
    then have "xs = []" by (cases xs) (auto split: option.splits if_splits)
    then show ?thesis using Cons.prems by simp
  next
    case (Some z)
    then show ?thesis using Cons.IH [OF Some] Cons.prems by (auto split: if_splits)
  qed
qed

lemma min_entry_None: "min_entry xs = None \<longleftrightarrow> xs = []"
  by (cases xs) (auto split: option.splits)

lemma cache_victim_in:
  assumes "cache_victim c h pinned = Some v"
  shows "bm_get (ac_entries c) v \<noteq> None" "v \<noteq> h" "v \<notin> set pinned"
proof -
  obtain x where x: "min_entry (filter (\<lambda>(k, _). k \<noteq> h \<and> k \<notin> set pinned) (bm_entries (ac_entries c))) = Some x"
    "fst x = v" using assms by (auto simp: cache_victim_def)
  from min_entry_in [OF x(1)] x(2)
  show "bm_get (ac_entries c) v \<noteq> None" "v \<noteq> h" "v \<notin> set pinned"
    by (auto simp: bm_entries_iff)
qed

lemma cache_victim_None:
  "cache_victim c h pinned = None \<longleftrightarrow>
   (\<forall>k. bm_get (ac_entries c) k \<noteq> None \<longrightarrow> k = h \<or> k \<in> set pinned)"
  by (fastforce simp: cache_victim_def min_entry_None filter_empty_conv bm_entries_iff)

lemma bm_len_remove_lt: "bm_get m k = Some v \<Longrightarrow> bm_len (bm_remove k m) < bm_len m"
  by (metis bm_get_empty bm_len_0_iff bm_len_remove diff_less neq0_conv option.distinct(1)
      zero_less_one)

function cache_evict :: "hash32 \<Rightarrow> hash32 list \<Rightarrow> avatar_cache \<Rightarrow> avatar_cache" where
  "cache_evict h pinned c =
     (if ac_total_bytes c \<le> ac_max_bytes c then c
      else case cache_victim c h pinned of
             None \<Rightarrow> c
           | Some v \<Rightarrow>
               (case bm_get (ac_entries c) v of
                  None \<Rightarrow> c
                | Some e \<Rightarrow>
                    cache_evict h pinned
                      (c\<lparr>ac_entries := bm_remove v (ac_entries c),
                         ac_total_bytes := ac_total_bytes c - length (ce_bytes e)\<rparr>)))"
  by pat_completeness auto

termination
  by (relation "measure (\<lambda>(_, _, c). bm_len (ac_entries c))") (auto simp: bm_len_remove_lt)

declare cache_evict.simps [simp del]

definition cache_put :: "avatar_cache \<Rightarrow> hash32 \<Rightarrow> bytes \<Rightarrow> avatar_cache" where
  "cache_put c h bs =
     (if cache_contains c h then cache_touch c h
      else
        (let clock = wrap64 (ac_clock c + 1)
         in c\<lparr>ac_clock := clock, ac_total_bytes := ac_total_bytes c + length bs,
              ac_entries := bm_insert h \<lparr>ce_bytes = bs, ce_last_ref = clock\<rparr> (ac_entries c)\<rparr>))"

definition cache_insert ::
  "avatar_cache \<Rightarrow> hash32 \<Rightarrow> bytes \<Rightarrow> hash32 list \<Rightarrow> avatar_cache" where
  "cache_insert c h bs pinned = cache_evict h pinned (cache_put c h bs)"

section \<open>Reassembly\<close>

record avatar_rx =
  ax_hash :: hash32
  ax_expected_len :: "u32 option"
  ax_total :: "u16 option"
  ax_next :: u16
  ax_buf :: bytes

datatype rx_step = More | Done bytes

definition rx_new :: "hash32 \<Rightarrow> u32 option \<Rightarrow> avatar_rx" where
  "rx_new h expected_len =
     \<lparr>ax_hash = h, ax_expected_len = expected_len, ax_total = None, ax_next = 0, ax_buf = []\<rparr>"

definition rx_push ::
  "('hs, 'ts) crypto \<Rightarrow> avatar_rx \<Rightarrow> u16 \<Rightarrow> u16 \<Rightarrow> bytes \<Rightarrow> (rx_step, string) result \<times> avatar_rx" where
  "rx_push cr r index tot data =
     (if tot = 0 \<or> chunk_total MAX_AVATAR_BYTES < tot
      then (Err ''avatar chunk total out of range'', r)
      else if (case ax_expected_len r of None \<Rightarrow> False | Some len \<Rightarrow> tot \<noteq> chunk_total (unat len))
      then (Err ''avatar chunk total mismatch'', r)
      else if (case ax_total r of None \<Rightarrow> False | Some t \<Rightarrow> t \<noteq> tot)
      then (Err ''avatar chunk total changed mid-train'', r)
      else
        (let r1 = r\<lparr>ax_total := Some tot\<rparr> in
         if index \<noteq> ax_next r1 then (Err ''avatar chunk out of order'', r1)
         else
           (let is_last = (index + 1 = tot);
                size_ok = (if is_last then 1 \<le> length data \<and> length data \<le> AVATAR_CHUNK_BYTES
                           else length data = AVATAR_CHUNK_BYTES)
            in if \<not> size_ok then (Err ''avatar chunk size invalid'', r1)
               else
                 (let r2 = r1\<lparr>ax_buf := ax_buf r1 @ data, ax_next := ax_next r1 + 1\<rparr> in
                  if \<not> is_last then (Ok More, r2)
                  else if (case ax_expected_len r2 of
                             None \<Rightarrow> False | Some len \<Rightarrow> length (ax_buf r2) \<noteq> unat len)
                  then (Err ''avatar length mismatch'', r2)
                  else if avatar_hash cr (ax_buf r2) \<noteq> ax_hash r2
                  then (Err ''avatar hash mismatch'', r2)
                  else (Ok (Done (ax_buf r2)), r2\<lparr>ax_buf := []\<rparr>)))))"

section \<open>The sending cursor\<close>

record avatar_tx =
  at_hash :: hash32
  at_next :: u16

definition tx_new :: "hash32 \<Rightarrow> avatar_tx" where
  "tx_new h = \<lparr>at_hash = h, at_next = 0\<rparr>"

definition tx_next_chunk :: "avatar_tx \<Rightarrow> bytes \<Rightarrow> control_msg option \<times> avatar_tx" where
  "tx_next_chunk t bs =
     (let tot = chunk_total (length bs) in
      if tot \<le> at_next t then (None, t)
      else
        (let start = unat (at_next t) * AVATAR_CHUNK_BYTES;
             stop = min (start + AVATAR_CHUNK_BYTES) (length bs)
         in (Some (AvatarChunk (at_hash t) (at_next t) tot (subslice start stop bs)),
             t\<lparr>at_next := at_next t + 1\<rparr>)))"

section \<open>What the cache keeps\<close>

definition entry_bytes :: "(hash32 \<times> cache_entry) list \<Rightarrow> nat" where
  "entry_bytes xs = sum_list (map (\<lambda>(_, e). length (ce_bytes e)) xs)"

definition cache_inv :: "avatar_cache \<Rightarrow> bool" where
  "cache_inv c \<longleftrightarrow> ac_total_bytes c = entry_bytes (bm_entries (ac_entries c))"

lemma entry_bytes_insert:
  "map_of xs h = None \<Longrightarrow> entry_bytes (ins_entry h e xs) = entry_bytes xs + length (ce_bytes e)"
  by (induction xs) (auto simp: entry_bytes_def split: if_splits)

lemma entry_bytes_update:
  "map_of xs h = Some e \<Longrightarrow> ce_bytes e' = ce_bytes e \<Longrightarrow> sorted_wrt (<) (map fst xs) \<Longrightarrow>
   entry_bytes (ins_entry h e' xs) = entry_bytes xs"
proof (induction xs)
  case Nil
  then show ?case by simp
next
  case (Cons x xs)
  obtain k v where x: "x = (k, v)" by (cases x)
  have "h < k \<Longrightarrow> False"
    using Cons.prems map_of_SomeD [of xs h e] by (auto simp: x split: if_splits)
  then show ?case using Cons by (auto simp: x entry_bytes_def split: if_splits)
qed

lemma entry_bytes_remove:
  "map_of xs h = Some e \<Longrightarrow> sorted_wrt (<) (map fst xs) \<Longrightarrow>
   entry_bytes xs = entry_bytes (filter (\<lambda>(k, _). k \<noteq> h) xs) + length (ce_bytes e)"
proof (induction xs)
  case Nil
  then show ?case by simp
next
  case (Cons x xs)
  obtain k v where x: "x = (k, v)" by (cases x)
  show ?case
  proof (cases "k = h")
    case True
    then have "\<forall>y \<in> set xs. fst y \<noteq> h" using Cons.prems(2) by (auto simp: x)
    then have "filter (\<lambda>(k, _). k \<noteq> h) xs = xs" by (auto simp: filter_id_conv)
    then show ?thesis using True Cons.prems(1) by (simp add: x entry_bytes_def)
  next
    case False
    then show ?thesis using Cons by (auto simp: x entry_bytes_def)
  qed
qed

lemma cache_touch_inv: "cache_inv c \<Longrightarrow> cache_inv (cache_touch c h)"
  using bm_entries [of "ac_entries c"]
  by (auto simp: cache_inv_def cache_touch_def Let_def bm_update_def bm_insert.rep_eq bm_get_def
      entry_bytes_update split: option.splits)

lemma cache_evict_step:
  assumes "\<not> ac_total_bytes c \<le> ac_max_bytes c" "cache_victim c h pinned = Some v"
    and "bm_get (ac_entries c) v = Some e"
  shows "cache_evict h pinned c = cache_evict h pinned (c\<lparr>ac_entries := bm_remove v (ac_entries c),
    ac_total_bytes := ac_total_bytes c - length (ce_bytes e)\<rparr>)"
  by (subst cache_evict.simps) (simp add: assms)

lemma cache_drop_inv:
  assumes "cache_inv c" "bm_get (ac_entries c) v = Some e"
  shows "cache_inv (c\<lparr>ac_entries := bm_remove v (ac_entries c),
    ac_total_bytes := ac_total_bytes c - length (ce_bytes e)\<rparr>)"
  using assms entry_bytes_remove [of "bm_entries (ac_entries c)" v e] bm_entries [of "ac_entries c"]
  by (simp add: cache_inv_def bm_remove_def bm_retain.rep_eq bm_get_def)

text \<open>What one round keeps, and so what all of them keep.\<close>

definition evict_ok :: "hash32 \<Rightarrow> hash32 list \<Rightarrow> avatar_cache \<Rightarrow> avatar_cache \<Rightarrow> bool" where
  "evict_ok h pinned c c' \<longleftrightarrow> cache_inv c' \<and> ac_max_bytes c' = ac_max_bytes c \<and>
     (\<forall>k. k = h \<or> k \<in> set pinned \<longrightarrow> bm_get (ac_entries c') k = bm_get (ac_entries c) k) \<and>
     (\<forall>k e. bm_get (ac_entries c') k = Some e \<longrightarrow> bm_get (ac_entries c) k = Some e)"

lemma evict_ok_trans:
  assumes "evict_ok h pinned c d" "evict_ok h pinned d e"
  shows "evict_ok h pinned c e"
  unfolding evict_ok_def
proof (intro conjI allI impI)
  show "cache_inv e" using assms(2) by (simp only: evict_ok_def)
  show "ac_max_bytes e = ac_max_bytes c"
    using assms unfolding evict_ok_def by (elim conjE) (rule trans)
  show "bm_get (ac_entries e) k = bm_get (ac_entries c) k" if "k = h \<or> k \<in> set pinned" for k
    using assms that unfolding evict_ok_def by metis
  show "bm_get (ac_entries c) k = Some f" if "bm_get (ac_entries e) k = Some f" for k f
    using assms that unfolding evict_ok_def by blast
qed

lemma evict_ok_drop:
  assumes "cache_inv c" "cache_victim c h pinned = Some v" "bm_get (ac_entries c) v = Some e"
  shows "evict_ok h pinned c (c\<lparr>ac_entries := bm_remove v (ac_entries c),
    ac_total_bytes := ac_total_bytes c - length (ce_bytes e)\<rparr>)"
  using cache_drop_inv [OF assms(1,3)] cache_victim_in [OF assms(2)] by (simp add: evict_ok_def)

lemma cache_evict_cases:
  assumes "cache_inv c"
  obtains (stop) "cache_evict h pinned c = c"
      "ac_total_bytes c \<le> ac_max_bytes c \<or> cache_victim c h pinned = None"
  | (drop) v e where "\<not> ac_total_bytes c \<le> ac_max_bytes c" "cache_victim c h pinned = Some v"
      "bm_get (ac_entries c) v = Some e"
proof (cases "ac_total_bytes c \<le> ac_max_bytes c \<or> cache_victim c h pinned = None")
  case True
  then show thesis by (intro stop) (auto simp: cache_evict.simps [of h pinned c])
next
  case False
  then show thesis using drop cache_victim_in by fastforce
qed

lemma cache_evict_ok: "cache_inv c \<Longrightarrow> evict_ok h pinned c (cache_evict h pinned c)"
proof (induction h pinned c rule: cache_evict.induct)
  case (1 h pinned c)
  from "1.prems" show ?case
  proof (cases rule: cache_evict_cases [where h = h and pinned = pinned])
    case stop
    then show ?thesis using "1.prems" by (simp add: evict_ok_def)
  next
    case (drop v e)
    from "1.IH" [OF drop cache_drop_inv [OF "1.prems" drop(3)]] show ?thesis
      unfolding cache_evict_step [OF drop]
      by (rule evict_ok_trans [OF evict_ok_drop [OF "1.prems" drop(2,3)]])
  qed
qed

lemma cache_evict_budget:
  "cache_inv c \<Longrightarrow> ac_total_bytes (cache_evict h pinned c) \<le> ac_max_bytes c \<or>
   (\<forall>k. bm_get (ac_entries (cache_evict h pinned c)) k \<noteq> None \<longrightarrow> k = h \<or> k \<in> set pinned)"
proof (induction h pinned c rule: cache_evict.induct)
  case (1 h pinned c)
  from "1.prems" show ?case
  proof (cases rule: cache_evict_cases [where h = h and pinned = pinned])
    case stop
    then show ?thesis using cache_victim_None [of c h pinned] by auto
  next
    case (drop v e)
    from "1.IH" [OF drop cache_drop_inv [OF "1.prems" drop(3)]] show ?thesis
      unfolding cache_evict_step [OF drop] by simp
  qed
qed

lemma cache_put_inv: "cache_inv c \<Longrightarrow> cache_inv (cache_put c h bs)"
  using cache_touch_inv [of c h]
  by (auto simp: cache_put_def cache_contains_def cache_inv_def Let_def bm_insert.rep_eq bm_get_def
      entry_bytes_insert)

lemma cache_put_max: "ac_max_bytes (cache_put c h bs) = ac_max_bytes c"
  by (simp add: cache_put_def cache_touch_def Let_def)

lemma cache_insert_inv: "cache_inv c \<Longrightarrow> cache_inv (cache_insert c h bs pinned)"
  unfolding cache_insert_def using cache_evict_ok [OF cache_put_inv] by (simp add: evict_ok_def)

text \<open>Least recently referenced first.\<close>

lemma cache_victim_least:
  assumes "cache_victim c h pinned = Some v" "bm_get (ac_entries c) v = Some e"
    and "bm_get (ac_entries c) k = Some f" "k \<noteq> h" "k \<notin> set pinned"
  shows "ce_last_ref e \<le> ce_last_ref f"
proof -
  let ?xs = "filter (\<lambda>(k, _). k \<noteq> h \<and> k \<notin> set pinned) (bm_entries (ac_entries c))"
  obtain x where x: "min_entry ?xs = Some x" "fst x = v"
    using assms(1) by (auto simp: cache_victim_def)
  then have "snd x = e"
    using min_entry_in [OF x(1)] assms(2) by (cases x) (auto simp: bm_entries_iff)
  moreover have "(k, f) \<in> set ?xs" using assms by (simp add: bm_entries_iff)
  ultimately show ?thesis using min_entry_least [OF x(1)] by fastforce
qed

lemma cache_evict_lru:
  "cache_inv c \<Longrightarrow> bm_get (ac_entries c) g = Some e \<Longrightarrow>
   bm_get (ac_entries (cache_evict h pinned c)) g = None \<Longrightarrow>
   bm_get (ac_entries (cache_evict h pinned c)) k = Some f \<Longrightarrow> k \<noteq> h \<Longrightarrow> k \<notin> set pinned \<Longrightarrow>
   ce_last_ref e \<le> ce_last_ref f"
proof (induction h pinned c rule: cache_evict.induct)
  case (1 h pinned c)
  have kept: "bm_get (ac_entries c) k = Some f"
    using cache_evict_ok [OF "1.prems"(1)] "1.prems"(4) unfolding evict_ok_def by blast
  from "1.prems"(1) show ?case
  proof (cases rule: cache_evict_cases [where h = h and pinned = pinned])
    case stop
    then show ?thesis using "1.prems" by simp
  next
    case (drop v ev)
    show ?thesis
    proof (cases "g = v")
      case True
      then show ?thesis
        using cache_victim_least [OF drop(2,3) kept] "1.prems"(2,5,6) drop(3) by simp
    next
      case False
      then show ?thesis
        using "1.IH" [OF drop cache_drop_inv [OF "1.prems"(1) drop(3)] _ _ _ "1.prems"(5,6)]
          "1.prems"(2-4) cache_evict_step [OF drop] by simp
    qed
  qed
qed

section \<open>Runs\<close>

datatype cache_op = CInsert hash32 bytes "hash32 list" | CTouch hash32

definition cache_step :: "avatar_cache \<Rightarrow> cache_op \<Rightarrow> avatar_cache" where
  "cache_step c op =
     (case op of CInsert h bs pinned \<Rightarrow> cache_insert c h bs pinned | CTouch h \<Rightarrow> cache_touch c h)"

interpretation cache: invariant_machine cache_step cache_inv "\<lambda>_. True"
  by unfold_locales (simp add: cache_step_def cache_insert_inv cache_touch_inv split: cache_op.split)

lemma cache_new_inv: "cache_inv (cache_new n)"
  by (simp add: cache_inv_def cache_new_def entry_bytes_def)

definition cache_after :: "nat \<Rightarrow> cache_op list \<Rightarrow> avatar_cache" where
  "cache_after budget ops = foldl cache_step (cache_new budget) ops"

lemma cache_after_inv: "cache_inv (cache_after budget ops)"
  unfolding cache_after_def by (rule cache.run_inv [OF cache_new_inv]) (simp add: list_all_iff)

lemma cache_insert_gets:
  assumes inv: "cache_inv c" and k: "k = h \<or> k \<in> set pinned"
  shows "cache_get (cache_insert c h bs pinned) k =
     (if k = h \<and> cache_get c h = None then Some bs else cache_get c k)"
proof -
  have "bm_get (ac_entries (cache_insert c h bs pinned)) k = bm_get (ac_entries (cache_put c h bs)) k"
    unfolding cache_insert_def
    using cache_evict_ok [OF cache_put_inv [OF inv]] k unfolding evict_ok_def by blast
  then show ?thesis
    by (auto simp: cache_put_def cache_get_def cache_contains_def cache_touch_def Let_def
        bm_get_update option.map_comp comp_def split: if_splits)
qed

text \<open>The avatar cache keeps to its budget by evicting only what it may: after any history, an insert
  keeps the new entry and every pinned one, accounts every byte, and ends within the budget unless
  nothing but pinned entries and the new one are left.\<close>

theorem cache_insert_budget:
  "let c = cache_after budget ops; c' = cache_insert c h bs pinned in
   cache_get c' h = (case cache_get c h of None \<Rightarrow> Some bs | Some old \<Rightarrow> Some old) \<and>
   list_all (\<lambda>k. k = h \<or> cache_get c' k = cache_get c k) pinned \<and>
   ac_total_bytes c' = entry_bytes (bm_entries (ac_entries c')) \<and>
   (ac_total_bytes c' \<le> ac_max_bytes c \<or>
    list_all (\<lambda>k. k = h \<or> k \<in> set pinned) (bm_keys (ac_entries c')))"
proof -
  let ?c = "cache_after budget ops"
  let ?c' = "cache_insert ?c h bs pinned"
  note inv = cache_after_inv [of budget ops]
  have "cache_get ?c' h = (case cache_get ?c h of None \<Rightarrow> Some bs | Some old \<Rightarrow> Some old)"
    using cache_insert_gets [OF inv, of h h pinned bs] by (simp split: option.splits)
  moreover have "list_all (\<lambda>k. k = h \<or> cache_get ?c' k = cache_get ?c k) pinned"
    using cache_insert_gets [OF inv, of _ h pinned bs] by (auto simp: list_all_iff)
  moreover have "ac_total_bytes ?c' = entry_bytes (bm_entries (ac_entries ?c'))"
    using cache_insert_inv [OF inv] by (simp add: cache_inv_def)
  moreover have "ac_total_bytes ?c' \<le> ac_max_bytes ?c \<or>
      list_all (\<lambda>k. k = h \<or> k \<in> set pinned) (bm_keys (ac_entries ?c'))"
    using cache_evict_budget [OF cache_put_inv [OF inv], of h pinned h bs] unfolding cache_insert_def
    by (auto simp: list_all_iff set_bm_keys cache_put_max)
  ultimately show ?thesis by (simp add: Let_def)
qed


section \<open>Trains\<close>

text \<open>Chunks fed to a receiver until it finishes or refuses one; both callers drop it then.\<close>

fun rx_feed ::
  "('hs, 'ts) crypto \<Rightarrow> avatar_rx \<Rightarrow> (u16 \<times> u16 \<times> bytes) list \<Rightarrow> (rx_step, string) result \<times> avatar_rx"
  where
  "rx_feed cr r [] = (Ok More, r)"
| "rx_feed cr r ((i, n, d) # cs) =
     (case rx_push cr r i n d of
        (Inr More, r') \<Rightarrow> rx_feed cr r' cs
      | res \<Rightarrow> res)"

lemma unat_chunk_total: "n \<le> MAX_AVATAR_BYTES \<Longrightarrow> unat (chunk_total n) = (n + 1023) div 1024"
  by (simp add: chunk_total_def unat_of_nat)

definition rx_inv :: "avatar_rx \<Rightarrow> bool" where
  "rx_inv r \<longleftrightarrow> length (ax_buf r) = AVATAR_CHUNK_BYTES * unat (ax_next r) \<and>
     (case ax_total r of None \<Rightarrow> ax_next r = 0 | Some n \<Rightarrow> ax_next r < n \<and> unat n \<le> 256)"

lemma unat_succ_u16: "unat n \<le> 256 \<Longrightarrow> i < n \<Longrightarrow> unat (i + 1) = unat i + 1" for i n :: u16
  by (simp add: word_less_nat_alt unat_word_ariths)

lemma rx_push_inv:
  assumes inv: "rx_inv r" and p: "rx_push cr r i n d = (res, r')"
  shows "length (ax_buf r') \<le> MAX_AVATAR_BYTES" and "ax_hash r' = ax_hash r"
    and "ax_expected_len r' = ax_expected_len r"
    and "res = Ok More \<Longrightarrow> rx_inv r' \<and> ax_buf r' = ax_buf r @ d"
    and "res = Ok (Done bs) \<Longrightarrow> bs = ax_buf r @ d \<and> avatar_hash cr bs = ax_hash r \<and>
      length bs \<le> MAX_AVATAR_BYTES \<and> bs \<noteq> [] \<and>
      (case ax_expected_len r of None \<Rightarrow> True | Some len \<Rightarrow> length bs = unat len)"
proof -
  have next_le: "unat (ax_next r) \<le> 255"
    using inv by (auto simp: rx_inv_def word_less_nat_alt split: option.splits)
  then have buf: "length (ax_buf r) \<le> 255 * 1024" using inv by (auto simp: rx_inv_def)
  show "ax_hash r' = ax_hash r" "ax_expected_len r' = ax_expected_len r"
    using p by (auto simp: rx_push_def Let_def split: if_splits)
  have d_le: "length d \<le> 1024 \<and> ax_buf r' = ax_buf r @ d"
    if "length (ax_buf r') \<noteq> 0" "ax_buf r' \<noteq> ax_buf r"
    using p that by (auto simp: rx_push_def Let_def split: if_splits)
  show "length (ax_buf r') \<le> MAX_AVATAR_BYTES"
    using buf d_le by (cases "ax_buf r' = ax_buf r"; cases "ax_buf r' = []") auto
  show "rx_inv r' \<and> ax_buf r' = ax_buf r @ d" if "res = Ok More"
  proof -
    have r': "r' = r\<lparr>ax_total := Some n, ax_buf := ax_buf r @ d, ax_next := ax_next r + 1\<rparr>"
      and d: "length d = 1024" and i: "i = ax_next r" "i + 1 \<noteq> n" "n \<noteq> 0" "n \<le> chunk_total MAX_AVATAR_BYTES"
      and t: "ax_total r = None \<or> ax_total r = Some n"
      using p that by (auto simp: rx_push_def Let_def not_less split: if_splits option.splits)
    have n: "unat n \<le> 256"
      using i(4) by (simp add: word_le_nat_alt unat_chunk_total)
    have lt: "ax_next r < n"
      using t inv i(3) by (auto simp: rx_inv_def word_gt_0)
    have s: "unat (ax_next r + 1) = unat (ax_next r) + 1" by (rule unat_succ_u16 [OF n lt])
    have "unat (ax_next r + 1) \<noteq> unat n" using i by (metis unsigned_word_eqI)
    then have "ax_next r + 1 < n" using lt s by (simp add: word_less_nat_alt)
    then show ?thesis using inv n s d by (simp add: r' rx_inv_def)
  qed
  show "bs = ax_buf r @ d \<and> avatar_hash cr bs = ax_hash r \<and> length bs \<le> MAX_AVATAR_BYTES \<and> bs \<noteq> [] \<and>
      (case ax_expected_len r of None \<Rightarrow> True | Some len \<Rightarrow> length bs = unat len)"
    if "res = Ok (Done bs)"
  proof -
    have "bs = ax_buf r @ d" "avatar_hash cr bs = ax_hash r" "1 \<le> length d" "length d \<le> 1024"
      "case ax_expected_len r of None \<Rightarrow> True | Some len \<Rightarrow> length bs = unat len"
      using p that by (auto simp: rx_push_def Let_def split: if_splits option.splits)
    then show ?thesis using buf by auto
  qed
qed

lemma rx_feed_props:
  "rx_inv r \<Longrightarrow> rx_feed cr r cs = (res, r') \<Longrightarrow>
   (cs = [] \<or> length (ax_buf r') \<le> MAX_AVATAR_BYTES) \<and>
   (\<forall>bs. res = Ok (Done bs) \<longrightarrow> avatar_hash cr bs = ax_hash r \<and> length bs \<le> MAX_AVATAR_BYTES \<and>
      (case ax_expected_len r of None \<Rightarrow> True | Some len \<Rightarrow> length bs = unat len) \<and>
      (\<exists>k. bs = ax_buf r @ concat (map (\<lambda>(_, _, d). d) (take k cs))))"
proof (induction cs arbitrary: r)
  case Nil
  then show ?case by auto
next
  case (Cons c cs)
  obtain i n d where c: "c = (i, n, d)" by (cases c)
  obtain res1 r1 where p: "rx_push cr r i n d = (res1, r1)" by (cases "rx_push cr r i n d")
  note push = rx_push_inv [OF Cons.prems(1) p]
  show ?case
  proof (cases "res1 = Ok More")
    case True
    then have feed: "rx_feed cr r1 cs = (res, r')" using Cons.prems(2) by (simp add: c p)
    have i1: "rx_inv r1" "ax_buf r1 = ax_buf r @ d" using push(4) True by auto
    note IHc = Cons.IH [OF i1(1) feed, unfolded push(2) push(3)]
    note IH = IHc [THEN conjunct1] IHc [THEN conjunct2]
    have "length (ax_buf r') \<le> MAX_AVATAR_BYTES" using IH(1) feed push(1) by auto
    moreover have "\<exists>k. bs = ax_buf r @ concat (map (\<lambda>(_, _, d). d) (take k (c # cs)))"
      if fin: "res = Ok (Done bs)" for bs
    proof -
      obtain k where "bs = ax_buf r1 @ concat (map (\<lambda>(_, _, d). d) (take k cs))"
        using IH(2) fin by blast
      then have "bs = ax_buf r @ concat (map (\<lambda>(_, _, d). d) (take (Suc k) (c # cs)))"
        using i1(2) by (simp add: c)
      then show ?thesis by blast
    qed
    ultimately show ?thesis using IH(2) by blast
  next
    case False
    then have eq: "res = res1" "r' = r1"
      using Cons.prems(2) by (auto simp: c p split: sum.splits rx_step.splits)
    have "\<exists>k. bs = ax_buf r @ concat (map (\<lambda>(_, _, d). d) (take k (c # cs)))"
      if "res = Ok (Done bs)" for bs
      using push(5) [of bs] that eq by (intro exI [of _ "Suc 0"]) (simp add: c)
    then show ?thesis using push(1,5) eq by auto
  qed
qed

text \<open>Reassembly holds at most 256 KiB whatever chunks arrive, and what it hands over is the
  concatenation of a run of them, of the declared length where one was declared, with the content
  hash it was asked for.\<close>

theorem rx_bounded_and_verified:
  "case rx_feed cr (rx_new h expected) cs of (res, r) \<Rightarrow>
     length (ax_buf r) \<le> MAX_AVATAR_BYTES \<and>
     (case res of
        Inr (Done bs) \<Rightarrow>
          blake2s256 cr bs = h \<and> length bs \<le> MAX_AVATAR_BYTES \<and>
          (case expected of None \<Rightarrow> True | Some len \<Rightarrow> length bs = unat len) \<and>
          (\<exists>k. bs = concat (map (\<lambda>(_, _, d). d) (take k cs)))
      | _ \<Rightarrow> True)"
proof -
  obtain res r where f: "rx_feed cr (rx_new h expected) cs = (res, r)"
    by (cases "rx_feed cr (rx_new h expected) cs")
  have inv: "rx_inv (rx_new h expected)" by (simp add: rx_inv_def rx_new_def)
  have "ax_buf (rx_new h expected) = []" "ax_hash (rx_new h expected) = h"
    "ax_expected_len (rx_new h expected) = expected" by (simp_all add: rx_new_def)
  note props = rx_feed_props [OF inv f, unfolded this]
  have "length (ax_buf r) \<le> MAX_AVATAR_BYTES" using props f by (auto simp: rx_new_def)
  then show ?thesis using props
    unfolding f by (auto simp: avatar_hash_def split: sum.splits rx_step.splits)
qed


text \<open>The cache evicts the least recently referenced first: when an insert after any history removes
  one entry and keeps another that was neither new nor pinned, the removed one was referenced no
  later.\<close>

theorem cache_evicts_oldest:
  assumes "bm_get (ac_entries (cache_put (cache_after budget ops) h bs)) g = Some e"
    and "bm_get (ac_entries (cache_insert (cache_after budget ops) h bs pinned)) g = None"
    and "bm_get (ac_entries (cache_insert (cache_after budget ops) h bs pinned)) k = Some f"
    and "k \<noteq> h" "k \<notin> set pinned"
  shows "ce_last_ref e \<le> ce_last_ref f"
  by (rule cache_evict_lru [OF cache_put_inv [OF cache_after_inv]])
    (use assms in \<open>simp_all add: cache_insert_def\<close>)

theorem cache_evicts_oldest_witness:
  "ce_last_ref \<lparr>ce_bytes = [7, 7, 7], ce_last_ref = 1\<rparr> \<le> ce_last_ref \<lparr>ce_bytes = [8, 8], ce_last_ref = 2\<rparr>"
proof (rule cache_evicts_oldest [where budget = 5 and ops = "[CInsert [1] [7, 7, 7] [], CInsert [2] [8, 8] []]"
      and h = "[3]" and bs = "[9, 9]" and pinned = "[]" and g = "[1]" and k = "[2]"])
  show "bm_get (ac_entries (cache_put (cache_after 5 [CInsert [1] [7, 7, 7] [], CInsert [2] [8, 8] []]) [3]
      [9, 9])) [1] = Some \<lparr>ce_bytes = [7, 7, 7], ce_last_ref = 1\<rparr>" by code_simp
  show "bm_get (ac_entries (cache_insert (cache_after 5 [CInsert [1] [7, 7, 7] [], CInsert [2] [8, 8] []])
      [3] [9, 9] [])) [1] = None" by code_simp
  show "bm_get (ac_entries (cache_insert (cache_after 5 [CInsert [1] [7, 7, 7] [], CInsert [2] [8, 8] []])
      [3] [9, 9] [])) [2] = Some \<lparr>ce_bytes = [8, 8], ce_last_ref = 2\<rparr>" by code_simp
qed simp_all

section \<open>A train sent is the train received\<close>

fun tx_train :: "nat \<Rightarrow> avatar_tx \<Rightarrow> bytes \<Rightarrow> (u16 \<times> u16 \<times> bytes) list" where
  "tx_train 0 t bs = []"
| "tx_train (Suc fuel) t bs =
     (case tx_next_chunk t bs of
        (Some (AvatarChunk _ i n d), t') \<Rightarrow> (i, n, d) # tx_train fuel t' bs
      | _ \<Rightarrow> [])"

lemma unat_of_nat_u16: "k < 65536 \<Longrightarrow> unat (of_nat k :: u16) = k"
  by (simp add: unat_of_nat)

lemma of_nat_u16_eq: "a < 65536 \<Longrightarrow> b < 65536 \<Longrightarrow> (of_nat a :: u16) = of_nat b \<longleftrightarrow> a = b"
  by (metis unat_of_nat_u16)

lemma tx_chunk_at:
  assumes "length bs \<le> MAX_AVATAR_BYTES" and "k * 1024 < length bs"
  shows "tx_next_chunk \<lparr>at_hash = h, at_next = of_nat k\<rparr> bs =
    (Some (AvatarChunk h (of_nat k) (chunk_total (length bs)) (take 1024 (drop (k * 1024) bs))),
     \<lparr>at_hash = h, at_next = of_nat (Suc k)\<rparr>)"
proof -
  have k: "k < 65536" using assms by linarith
  have "k < (length bs + 1023) div 1024" using assms(2) by linarith
  then have "\<not> chunk_total (length bs) \<le> of_nat k"
    using k assms(1) by (simp add: word_le_nat_alt unat_chunk_total unat_of_nat_u16)
  moreover have "subslice (k * 1024) (min (k * 1024 + 1024) (length bs)) bs =
      take 1024 (drop (k * 1024) bs)"
    by (cases "k * 1024 + 1024 \<le> length bs") (simp_all add: subslice_def)
  ultimately show ?thesis
    using k by (simp add: tx_next_chunk_def Let_def unat_of_nat_u16 mult.commute)
qed

lemma rx_push_at:
  assumes n: "length bs \<le> MAX_AVATAR_BYTES" "k * 1024 < length bs"
    and e: "expected = None \<or> expected = Some (of_nat (length bs))"
    and t: "tot = None \<or> tot = Some (chunk_total (length bs))"
    and h: "h = avatar_hash cr bs"
  shows "rx_push cr \<lparr>ax_hash = h, ax_expected_len = expected, ax_total = tot, ax_next = of_nat k,
      ax_buf = take (k * 1024) bs\<rparr> (of_nat k) (chunk_total (length bs)) (take 1024 (drop (k * 1024) bs)) =
    (if Suc k * 1024 < length bs
     then (Ok More, \<lparr>ax_hash = h, ax_expected_len = expected, ax_total = Some (chunk_total (length bs)),
       ax_next = of_nat (Suc k), ax_buf = take (Suc k * 1024) bs\<rparr>)
     else (Ok (Done bs), \<lparr>ax_hash = h, ax_expected_len = expected,
       ax_total = Some (chunk_total (length bs)), ax_next = of_nat (Suc k), ax_buf = []\<rparr>))"
proof -
  let ?T = "chunk_total (length bs)"
  have k: "Suc k < 65536" using n by linarith
  have T: "unat ?T = (length bs + 1023) div 1024" by (rule unat_chunk_total [OF n(1)])
  have "unat ?T \<noteq> 0" using T n(2) by simp
  then have pos: "?T \<noteq> 0" by auto
  have max_ok: "\<not> chunk_total MAX_AVATAR_BYTES < ?T"
    using n(1) T by (simp add: word_less_nat_alt unat_chunk_total)
  have len: "unat (of_nat (length bs) :: u32) = length bs"
    using n(1) by (simp add: unat_of_nat)
  have last: "(of_nat k + 1 = ?T) \<longleftrightarrow> \<not> Suc k * 1024 < length bs"
  proof -
    have "of_nat k + 1 = (of_nat (Suc k) :: u16)" by simp
    moreover have "?T = of_nat ((length bs + 1023) div 1024)" by (simp add: chunk_total_def)
    ultimately have "(of_nat k + 1 = ?T) \<longleftrightarrow> Suc k = (length bs + 1023) div 1024"
      using of_nat_u16_eq [OF k, of "(length bs + 1023) div 1024"] n(1) by (simp add: add.commute)
    also have "\<dots> \<longleftrightarrow> \<not> Suc k * 1024 < length bs" using n(2) by (auto intro: le_antisym)
    finally show ?thesis .
  qed
  have buf: "take (k * 1024) bs @ take 1024 (drop (k * 1024) bs) = take (Suc k * 1024) bs"
    by (simp add: take_add [symmetric] add.commute)
  have whole: "take (Suc k * 1024) bs = bs" if "\<not> Suc k * 1024 < length bs" using that by simp
  have exp1: "(case expected of None \<Rightarrow> False | Some l \<Rightarrow> ?T \<noteq> chunk_total (unat l)) = False"
    and exp2: "(case expected of None \<Rightarrow> False | Some l \<Rightarrow> length bs \<noteq> unat l) = False"
    using e len by auto
  have tot1: "(case tot of None \<Rightarrow> False | Some t \<Rightarrow> t \<noteq> ?T) = False" using t by auto
  show ?thesis
  proof (cases "Suc k * 1024 < length bs")
    case True
    then have "length (take 1024 (drop (k * 1024) bs)) = 1024" by simp
    then show ?thesis
      using True last pos max_ok exp1 tot1 buf by (simp add: rx_push_def Let_def add.commute)
  next
    case False
    then have "1 \<le> length (take 1024 (drop (k * 1024) bs))" using n(2) by simp
    then show ?thesis
      using False last pos max_ok e t len buf whole [OF False] h
      by (cases expected; cases tot) (simp_all add: rx_push_def Let_def add.commute)
  qed
qed

lemma train_from:
  assumes n: "length bs \<le> MAX_AVATAR_BYTES" and h: "h = avatar_hash cr bs"
    and e: "expected = None \<or> expected = Some (of_nat (length bs))"
  shows "k * 1024 < length bs \<Longrightarrow> (length bs + 1023) div 1024 \<le> k + fuel \<Longrightarrow>
    tot = None \<or> tot = Some (chunk_total (length bs)) \<Longrightarrow>
    fst (rx_feed cr \<lparr>ax_hash = h, ax_expected_len = expected, ax_total = tot, ax_next = of_nat k,
      ax_buf = take (k * 1024) bs\<rparr> (tx_train fuel \<lparr>at_hash = h, at_next = of_nat k\<rparr> bs)) = Ok (Done bs)"
proof (induction fuel arbitrary: k tot)
  case 0
  then show ?case by linarith
next
  case (Suc fuel)
  show ?case
  proof (cases "Suc k * 1024 < length bs")
    case True
    then show ?thesis
      using Suc.IH [of "Suc k" "Some (chunk_total (length bs))"] Suc.prems
        tx_chunk_at [OF n Suc.prems(1), of h] rx_push_at [OF n Suc.prems(1) e Suc.prems(3) h]
      by simp
  next
    case False
    then show ?thesis
      using tx_chunk_at [OF n Suc.prems(1), of h] rx_push_at [OF n Suc.prems(1) e Suc.prems(3) h]
      by simp
  qed
qed

text \<open>An avatar of any legal size that one side cuts into chunks is reassembled by the other side to
  exactly its bytes, whether or not its length was declared.\<close>

theorem avatar_train_roundtrip:
  assumes "bs \<noteq> []" "length bs \<le> MAX_AVATAR_BYTES"
    and "expected = None \<or> expected = Some (of_nat (length bs))"
  shows "fst (rx_feed cr (rx_new (avatar_hash cr bs) expected)
    (tx_train 256 (tx_new (avatar_hash cr bs)) bs)) = Ok (Done bs)"
proof -
  have "(length bs + 1023) div 1024 \<le> 0 + 256" using assms(2) by linarith
  then show ?thesis
    using train_from [OF assms(2) refl assms(3), of 0 256 None cr] assms(1)
    by (simp add: rx_new_def tx_new_def)
qed

theorem avatar_train_roundtrip_witness:
  "fst (rx_feed sample_crypto (rx_new (avatar_hash sample_crypto (replicate 1500 7)) (Some 1500))
    (tx_train 256 (tx_new (avatar_hash sample_crypto (replicate 1500 7))) (replicate 1500 7))) =
   Ok (Done (replicate 1500 7))"
  by (rule avatar_train_roundtrip) simp_all

end
