(* ===== verification/Floats.thy ===== *)
theory Floats
  imports Prelude "HOL-Library.Log_Nat" Complex_Main
begin

text \<open>
  IEEE 754 arithmetic on finite values, as rationals: \<open>f64\<close> and \<open>f32\<close> results are the exact result
  rounded to the nearest representable value, ties to even.  The models that use it stay far from
  overflow.  Also Rust's \<open>round\<close> (half away from zero) and the saturating casts to integers.
\<close>

definition half_even :: "rat \<Rightarrow> int" where
  "half_even x =
     (let f = \<lfloor>x\<rfloor>; r = x - of_int f
      in if r < 1/2 then f else if 1/2 < r then f + 1 else if even f then f else f + 1)"

text \<open>\<open>2 ^ e\<close> for a signed exponent.\<close>

definition two_pow :: "int \<Rightarrow> rat" where
  "two_pow e = (if 0 \<le> e then 2 ^ nat e else 1 / 2 ^ nat (- e))"

text \<open>The exponent of a positive value \<open>n / d\<close>.\<close>

definition exponent :: "rat \<Rightarrow> int" where
  "exponent x =
     (let (n, d) = quotient_of x; e = bitlen n - bitlen d
      in if two_pow e \<le> x then e else e - 1)"

definition round_to :: "nat \<Rightarrow> int \<Rightarrow> rat \<Rightarrow> rat" where
  "round_to prec emin x =
     (if x = 0 then 0
      else
        (let ulp = two_pow (max (exponent \<bar>x\<bar>) emin - int (prec - 1))
         in of_int (half_even (x / ulp)) * ulp))"

definition f64 :: "rat \<Rightarrow> rat" where
  "f64 = round_to 53 (-1022)"

definition f32 :: "rat \<Rightarrow> rat" where
  "f32 = round_to 24 (-126)"

definition round_away :: "rat \<Rightarrow> int" where
  "round_away x = (if 0 \<le> x then \<lfloor>x + 1/2\<rfloor> else \<lceil>x - 1/2\<rceil>)"

text \<open>\<open>as usize\<close>: negative values give 0, values too big the maximum.\<close>

definition as_usize :: "int \<Rightarrow> nat" where
  "as_usize z = min (nat z) (2 ^ 64 - 1)"

section \<open>Rounding\<close>

lemma half_even_close: "\<bar>of_int (half_even x) - x\<bar> \<le> 1/2"
proof -
  have "of_int \<lfloor>x\<rfloor> \<le> x" "x < of_int \<lfloor>x\<rfloor> + 1" by linarith+
  then show ?thesis by (auto simp: half_even_def Let_def abs_le_iff)
qed

lemma half_even_of_int [simp]: "half_even (of_int z) = z"
  by (simp add: half_even_def Let_def)

lemma half_even_mono: "x \<le> y \<Longrightarrow> half_even x \<le> half_even y"
proof -
  assume le: "x \<le> y"
  have f: "\<lfloor>x\<rfloor> \<le> \<lfloor>y\<rfloor>" using le by (rule floor_mono)
  show ?thesis
  proof (cases "\<lfloor>x\<rfloor> = \<lfloor>y\<rfloor>")
    case True
    then show ?thesis using le by (auto simp: half_even_def Let_def)
  next
    case False
    then have "\<lfloor>x\<rfloor> + 1 \<le> \<lfloor>y\<rfloor>" using f by linarith
    then show ?thesis by (auto simp: half_even_def Let_def)
  qed
qed

lemma two_pow_pos: "0 < two_pow e"
  by (simp add: two_pow_def)

text \<open>A rounded value is a multiple of a unit in the last place, within half of one.\<close>

lemma round_to_ulp:
  assumes "u = two_pow (max (exponent \<bar>x\<bar>) m - int (p - 1))"
  shows "round_to p m x = of_int (half_even (x / u)) * u" and "0 < u"
proof -
  show "0 < u" by (simp only: assms two_pow_pos)
  show "round_to p m x = of_int (half_even (x / u)) * u"
    using half_even_of_int [of 0] by (simp add: round_to_def Let_def assms)
qed

lemma round_to_close:
  "\<bar>round_to p m x - x\<bar> \<le> two_pow (max (exponent \<bar>x\<bar>) m - int (p - 1)) / 2"
proof -
  define u where "u = two_pow (max (exponent \<bar>x\<bar>) m - int (p - 1))"
  note u = round_to_ulp [OF u_def]
  have "round_to p m x - x = (of_int (half_even (x / u)) - x / u) * u"
    using u by (simp add: left_diff_distrib)
  then have "\<bar>round_to p m x - x\<bar> = \<bar>of_int (half_even (x / u)) - x / u\<bar> * u"
    using u(2) by (simp add: abs_mult)
  also have "\<dots> \<le> 1/2 * u"
    by (rule mult_right_mono [OF half_even_close]) (use u(2) in simp)
  finally show ?thesis by (simp add: u_def)
qed

lemma round_to_0 [simp]: "round_to p m 0 = 0"
  by (simp add: round_to_def)

lemma round_to_nonneg: "0 \<le> x \<Longrightarrow> 0 \<le> round_to p m x"
proof -
  assume x: "0 \<le> x"
  define u where "u = two_pow (max (exponent \<bar>x\<bar>) m - int (p - 1))"
  note u = round_to_ulp [OF u_def]
  have "half_even 0 \<le> half_even (x / u)"
    by (intro half_even_mono) (use u(2) x in simp)
  moreover have "half_even 0 = 0" using half_even_of_int [of 0] by simp
  ultimately show ?thesis using u by simp
qed

lemma f32_0 [simp]: "f32 0 = 0"
  by (simp add: f32_def)

lemma f64_0 [simp]: "f64 0 = 0"
  by (simp add: f64_def)

end
