(* ===== verification/Jitter.thy ===== *)
theory Jitter
  imports BMap Floats Interfaces
begin

text \<open>
  The adaptive jitter buffer of \<open>crates/engine/src/jitter.rs\<close>.

  Sequence numbers are \<open>u32\<close>, ticks and counters \<open>u64\<close>; both are natural numbers with the
  unchecked additions of the code written as \<open>wrap32\<close> and \<open>wrap64\<close>.  The jitter estimate is an
  \<open>f64\<close>, a rational kept rounded by \<open>f64\<close>.  \<open>MediaPacket\<close> has no bound on its payload.
\<close>

abbreviation (input) MIN_TARGET :: nat where "MIN_TARGET \<equiv> 1"
abbreviation (input) MAX_TARGET :: nat where "MAX_TARGET \<equiv> 24"
abbreviation (input) TARGET_FACTOR :: rat where "TARGET_FACTOR \<equiv> 3"
abbreviation (input) SHRINK_PATIENCE :: nat where "SHRINK_PATIENCE \<equiv> 16"
abbreviation (input) RESET_JUMP :: int where "RESET_JUMP \<equiv> 512"
abbreviation (input) LOSS_WINDOW :: nat where "LOSS_WINDOW \<equiv> 256"
abbreviation (input) MAX_BUFFERED :: nat where "MAX_BUFFERED \<equiv> 64"
abbreviation (input) REANCHOR_PATIENCE :: nat where "REANCHOR_PATIENCE \<equiv> 60"

abbreviation (input) SEQ_MAX :: nat where "SEQ_MAX \<equiv> 4294967295"

section \<open>State\<close>

record media_packet =
  mp_seq :: nat
  mp_timestamp :: nat
  mp_payload :: bytes
  mp_redundant :: "bytes option"

datatype pull = Frame bytes | Recovered bytes | Missing | Waiting

record jitter_stats =
  js_depth_frames :: nat
  js_target_frames :: nat
  js_jitter_frames_ewma :: rat
  js_lost :: nat
  js_recovered :: nat
  js_late :: nat
  js_resurrected :: nat
  js_pulled :: nat
  js_waiting :: nat
  js_reanchors :: nat

record loss_window =
  lw_pulled :: nat
  lw_lost :: nat
  lw_recovered :: nat

record jitter_buffer =
  jb_frames :: "(nat, bytes) bmap"
  jb_redundant :: "(nat, bytes) bmap"
  jb_next_seq :: "nat option"
  jb_running :: bool
  jb_tick :: nat
  jb_last_arrival :: "(nat \<times> nat) option"
  jb_jitter_ewma :: rat
  jb_over_ticks :: nat
  jb_held_last :: bool
  jb_drop_pending :: bool
  jb_lost :: nat
  jb_recovered :: nat
  jb_late :: nat
  jb_resurrected :: nat
  jb_pulled :: nat
  jb_waiting :: nat
  jb_reanchors :: nat
  jb_concealed :: "nat option"
  jb_dropped_since_pull :: bool
  jb_stuck_ticks :: nat
  jb_loss_window :: "bool list"

definition jitter_new :: jitter_buffer where
  "jitter_new = \<lparr>jb_frames = bm_empty, jb_redundant = bm_empty, jb_next_seq = None,
     jb_running = False, jb_tick = 0, jb_last_arrival = None, jb_jitter_ewma = 0,
     jb_over_ticks = 0, jb_held_last = False, jb_drop_pending = False, jb_lost = 0,
     jb_recovered = 0, jb_late = 0, jb_resurrected = 0, jb_pulled = 0, jb_waiting = 0,
     jb_reanchors = 0, jb_concealed = None, jb_dropped_since_pull = False, jb_stuck_ticks = 0,
     jb_loss_window = []\<rparr>"

section \<open>Helpers\<close>

text \<open>\<open>u64 as i64\<close> and the wrap-around of \<open>i64\<close>.\<close>

definition wrap_i64 :: "int \<Rightarrow> int" where
  "wrap_i64 z = (z + 2 ^ 63) mod 2 ^ 64 - 2 ^ 63"

definition target_frames :: "jitter_buffer \<Rightarrow> nat" where
  "target_frames b =
     (let derived = wrap64 (as_usize (round_away (f64 (jb_jitter_ewma b * TARGET_FACTOR))) + 1)
      in max MIN_TARGET (min derived MAX_TARGET))"

definition note_loss :: "jitter_buffer \<Rightarrow> bool \<Rightarrow> jitter_buffer" where
  "note_loss b lost =
     (let window = jb_loss_window b @ [lost]
      in b\<lparr>jb_pulled := wrap64 (jb_pulled b + 1),
           jb_loss_window := drop (length window - LOSS_WINDOW) window\<rparr>)"

definition jitter_reset :: "jitter_buffer \<Rightarrow> jitter_buffer" where
  "jitter_reset b = b\<lparr>jb_frames := bm_empty, jb_redundant := bm_empty, jb_next_seq := None,
     jb_running := False, jb_last_arrival := None, jb_over_ticks := 0, jb_held_last := False,
     jb_drop_pending := False, jb_concealed := None, jb_dropped_since_pull := False,
     jb_stuck_ticks := 0\<rparr>"

definition reanchor :: "jitter_buffer \<Rightarrow> jitter_buffer" where
  "reanchor b = (jitter_reset b)\<lparr>jb_reanchors := wrap64 (jb_reanchors b + 1)\<rparr>"

section \<open>Arrival\<close>

text \<open>The restart check at the top of \<open>push\<close>.\<close>

definition push_restart :: "jitter_buffer \<Rightarrow> nat \<Rightarrow> jitter_buffer" where
  "push_restart b seq =
     (case (case jb_next_seq b of Some n \<Rightarrow> Some n | None \<Rightarrow> map_option snd (jb_last_arrival b)) of
        None \<Rightarrow> b
      | Some anchor \<Rightarrow> if RESET_JUMP < \<bar>int seq - int anchor\<bar> then jitter_reset b else b)"

text \<open>The interarrival estimate.\<close>

definition push_estimate :: "jitter_buffer \<Rightarrow> nat \<Rightarrow> jitter_buffer" where
  "push_estimate b seq =
     (let ewma = (case jb_last_arrival b of
                    None \<Rightarrow> jb_jitter_ewma b
                  | Some (prev_tick, prev_seq) \<Rightarrow>
                      let d = wrap_i64 (wrap_i64 (int (jb_tick b) - int prev_tick)
                                - (int seq - int prev_seq));
                          e = jb_jitter_ewma b
                      in f64 (e + f64 (f64 (f64 (of_int (wrap_i64 \<bar>d\<bar>)) - e) / 16)))
      in b\<lparr>jb_jitter_ewma := ewma, jb_last_arrival := Some (jb_tick b, seq)\<rparr>)"

definition is_late :: "jitter_buffer \<Rightarrow> nat \<Rightarrow> bool" where
  "is_late b seq = (case jb_next_seq b of None \<Rightarrow> False | Some next \<Rightarrow> seq < next)"

definition push_late :: "jitter_buffer \<Rightarrow> media_packet \<Rightarrow> jitter_buffer" where
  "push_late b p =
     (if jb_concealed b = Some (mp_seq p) \<and> Some (wrap32 (mp_seq p + 1)) = jb_next_seq b
      then b\<lparr>jb_concealed := None, jb_resurrected := wrap64 (jb_resurrected b + 1),
             jb_frames := bm_insert (mp_seq p) (mp_payload p) (jb_frames b),
             jb_next_seq := Some (mp_seq p)\<rparr>
      else b\<lparr>jb_late := wrap64 (jb_late b + 1), jb_dropped_since_pull := True\<rparr>)"

definition push_keep :: "jitter_buffer \<Rightarrow> media_packet \<Rightarrow> jitter_buffer" where
  "push_keep b p =
     (let prev = wrap32 (mp_seq p + SEQ_MAX);  \<comment> \<open>\<open>wrapping_sub(1)\<close>\<close>
          redundant = (case mp_redundant p of
                         None \<Rightarrow> jb_redundant b
                       | Some red \<Rightarrow>
                           if (case jb_next_seq b of None \<Rightarrow> True | Some next \<Rightarrow> next \<le> prev)
                           then bm_or_insert prev red (jb_redundant b) else jb_redundant b);
          b1 = b\<lparr>jb_redundant := redundant,
                 jb_frames := bm_or_insert (mp_seq p) (mp_payload p) (jb_frames b)\<rparr>
      in if MAX_BUFFERED < bm_len (jb_frames b1) then reanchor b1 else b1)"

definition jitter_push :: "jitter_buffer \<Rightarrow> media_packet \<Rightarrow> jitter_buffer" where
  "jitter_push b p =
     (let b2 = push_estimate (push_restart b (mp_seq p)) (mp_seq p)
      in if is_late b2 (mp_seq p) then push_late b2 p else push_keep b2 p)"

section \<open>Playout\<close>

text \<open>
  Start of playout: \<open>None\<close> while the buffer is still filling.  A running buffer has a position
  (\<open>jb_inv\<close>), so the code's \<open>expect\<close> never fails.
\<close>

definition pull_start :: "jitter_buffer \<Rightarrow> nat \<Rightarrow> (jitter_buffer \<times> nat) option" where
  "pull_start b target =
     (if jb_running b then map_option (\<lambda>next. (b, next)) (jb_next_seq b)
      else if target \<le> bm_len (jb_frames b) \<and> jb_frames b \<noteq> bm_empty
      then map_option (\<lambda>next. (b\<lparr>jb_next_seq := Some next, jb_running := True\<rparr>, next))
             (bm_first (jb_frames b))
      else None)"

text \<open>The surplus frame that is dropped, and the position after it.\<close>

definition pull_shrink :: "jitter_buffer \<Rightarrow> nat \<Rightarrow> jitter_buffer \<times> nat" where
  "pull_shrink b next =
     (if jb_drop_pending b \<and> bm_contains (jb_frames b) next
      then (b\<lparr>jb_drop_pending := False, jb_frames := bm_remove next (jb_frames b),
              jb_redundant := bm_remove next (jb_redundant b), jb_concealed := None\<rparr>,
            wrap32 (next + 1))
      else (b, next))"

definition pull_frame :: "jitter_buffer \<Rightarrow> nat \<Rightarrow> pull \<times> jitter_buffer" where
  "pull_frame b next =
     (case bm_get (jb_frames b) next of
        Some payload \<Rightarrow>
          (Frame payload,
           note_loss (b\<lparr>jb_frames := bm_remove next (jb_frames b), jb_concealed := None\<rparr>) False)
      | None \<Rightarrow>
          (case bm_get (jb_redundant b) next of
             Some copy \<Rightarrow>
               (Recovered copy,
                note_loss (b\<lparr>jb_redundant := bm_remove next (jb_redundant b), jb_concealed := None,
                             jb_recovered := wrap64 (jb_recovered b + 1)\<rparr>) True)
           | None \<Rightarrow>
               (Missing,
                note_loss (b\<lparr>jb_concealed := Some next, jb_lost := wrap64 (jb_lost b + 1)\<rparr>) True)))"

definition pull_advance :: "jitter_buffer \<Rightarrow> nat \<Rightarrow> nat \<Rightarrow> jitter_buffer" where
  "pull_advance b next target =
     (let b1 = b\<lparr>jb_next_seq := Some next, jb_frames := bm_from next (jb_frames b),
                 jb_redundant := bm_from next (jb_redundant b)\<rparr>
      in if target + 1 < bm_len (jb_frames b1)
         then (let over = jb_over_ticks b1 + 1
               in if SHRINK_PATIENCE \<le> over then b1\<lparr>jb_over_ticks := 0, jb_drop_pending := True\<rparr>
                  else b1\<lparr>jb_over_ticks := over\<rparr>)
         else b1\<lparr>jb_over_ticks := 0\<rparr>)"

definition is_played :: "pull \<Rightarrow> bool" where
  "is_played r = (case r of Frame _ \<Rightarrow> True | Recovered _ \<Rightarrow> True | _ \<Rightarrow> False)"

definition pull_watchdog :: "jitter_buffer \<Rightarrow> pull \<Rightarrow> jitter_buffer" where
  "pull_watchdog b r =
     (let stuck = (r = Missing \<and> jb_dropped_since_pull b);
          b1 = (if is_played r then b\<lparr>jb_dropped_since_pull := False\<rparr> else b)
      in if stuck then
           (let b2 = b1\<lparr>jb_stuck_ticks := jb_stuck_ticks b1 + 1\<rparr>
            in if REANCHOR_PATIENCE \<le> jb_stuck_ticks b2 then reanchor b2 else b2)
         else if is_played r then b1\<lparr>jb_stuck_ticks := 0\<rparr>
         else b1)"

definition jitter_pull :: "jitter_buffer \<Rightarrow> pull \<times> jitter_buffer" where
  "jitter_pull b0 =
     (let b = b0\<lparr>jb_tick := wrap64 (jb_tick b0 + 1)\<rparr>;
          target = target_frames b
      in case pull_start b target of
           None \<Rightarrow> (Waiting, b\<lparr>jb_waiting := wrap64 (jb_waiting b + 1)\<rparr>)
         | Some (b1, next) \<Rightarrow>
             if bm_len (jb_frames b1) < target \<and> bm_contains (jb_frames b1) next \<and> \<not> jb_held_last b1
             then (Missing, b1\<lparr>jb_held_last := True\<rparr>)
             else
               (let (b2, next) = pull_shrink (b1\<lparr>jb_held_last := False\<rparr>) next;
                    (r, b3) = pull_frame b2 next;
                    b4 = pull_advance b3 (wrap32 (next + 1)) target
                in (r, pull_watchdog b4 r)))"

section \<open>Observation\<close>

definition jitter_stats_of :: "jitter_buffer \<Rightarrow> jitter_stats" where
  "jitter_stats_of b = \<lparr>js_depth_frames = bm_len (jb_frames b), js_target_frames = target_frames b,
     js_jitter_frames_ewma = f32 (jb_jitter_ewma b), js_lost = jb_lost b,
     js_recovered = jb_recovered b, js_late = jb_late b, js_resurrected = jb_resurrected b,
     js_pulled = jb_pulled b, js_waiting = jb_waiting b, js_reanchors = jb_reanchors b\<rparr>"

definition loss_ratio_recent :: "jitter_buffer \<Rightarrow> rat" where
  "loss_ratio_recent b =
     (if jb_loss_window b = [] then 0
      else f32 (f32 (of_nat (length (filter (\<lambda>l. l) (jb_loss_window b)))) /
                f32 (of_nat (length (jb_loss_window b)))))"

definition checked_sub :: "nat \<Rightarrow> nat \<Rightarrow> nat option" where
  "checked_sub a b = (if b \<le> a then Some (a - b) else None)"

definition loss_between :: "jitter_stats \<Rightarrow> jitter_stats \<Rightarrow> loss_window option" where
  "loss_between prev now =
     (case checked_sub (js_pulled now) (js_pulled prev) of None \<Rightarrow> None | Some pulled \<Rightarrow>
      case checked_sub (js_lost now) (js_lost prev) of None \<Rightarrow> None | Some lost \<Rightarrow>
      case checked_sub (js_recovered now) (js_recovered prev) of None \<Rightarrow> None | Some recovered \<Rightarrow>
        Some \<lparr>lw_pulled = pulled, lw_lost = lost, lw_recovered = recovered\<rparr>)"

definition loss_pct :: "loss_window \<Rightarrow> nat \<Rightarrow> rat" where
  "loss_pct w n =
     (if lw_pulled w = 0 then 0 else f32 (f32 (100 * f32 (of_nat n)) / f32 (of_nat (lw_pulled w))))"

definition wire_loss_pct :: "loss_window \<Rightarrow> rat" where
  "wire_loss_pct w = loss_pct w (wrap64 (lw_lost w + lw_recovered w))"

definition window_recovered_pct :: "loss_window \<Rightarrow> rat" where
  "window_recovered_pct w = loss_pct w (lw_recovered w)"


section \<open>The invariant\<close>

text \<open>
  Frames lie at or past the position, and every redundant copy has its carrier in the buffer, up to
  three copies at the top of the sequence space, which stay behind when the position wraps.
\<close>

definition ahead :: "jitter_buffer \<Rightarrow> nat \<Rightarrow> bool" where
  "ahead b n \<longleftrightarrow> n < 2 ^ 32 \<and>
     (\<forall>k. bm_get (jb_frames b) k \<noteq> None \<longrightarrow> n \<le> k \<and> k < 2 ^ 32) \<and>
     (\<forall>k. bm_get (jb_redundant b) k \<noteq> None \<longrightarrow> n \<le> k + 1 \<and> k < 2 ^ 32 \<and>
        (SEQ_MAX - 2 \<le> k \<or> bm_get (jb_frames b) (k + 1) \<noteq> None))"

text \<open>Before playout starts there is no position, and no copy is left over.\<close>

definition filling :: "jitter_buffer \<Rightarrow> bool" where
  "filling b \<longleftrightarrow>
     (\<forall>k. bm_get (jb_frames b) k \<noteq> None \<longrightarrow> k < 2 ^ 32) \<and>
     (\<forall>k. bm_get (jb_redundant b) k \<noteq> None \<longrightarrow> k < 2 ^ 32 \<and>
        (k = SEQ_MAX \<or> bm_get (jb_frames b) (k + 1) \<noteq> None))"

definition depth_ok :: "jitter_buffer \<Rightarrow> bool" where
  "depth_ok b \<longleftrightarrow> bm_len (jb_frames b) \<le> MAX_BUFFERED \<or>
     (bm_len (jb_frames b) = MAX_BUFFERED + 1 \<and> jb_concealed b = None \<and>
      (\<exists>n. jb_next_seq b = Some n \<and> bm_get (jb_frames b) n \<noteq> None))"

definition counters_ok :: "jitter_buffer \<Rightarrow> bool" where
  "counters_ok b \<longleftrightarrow> length (jb_loss_window b) \<le> LOSS_WINDOW \<and>
     jb_over_ticks b < SHRINK_PATIENCE \<and> jb_stuck_ticks b < REANCHOR_PATIENCE"

definition jb_inv :: "jitter_buffer \<Rightarrow> bool" where
  "jb_inv b \<longleftrightarrow>
     (case jb_next_seq b of None \<Rightarrow> filling b | Some n \<Rightarrow> ahead b n) \<and>
     jb_running b = (jb_next_seq b \<noteq> None) \<and> depth_ok b \<and>
     (\<forall>c. jb_concealed b = Some c \<longrightarrow> jb_next_seq b = Some (wrap32 (c + 1))) \<and>
     counters_ok b"

lemma jitter_new_inv: "jb_inv jitter_new"
  by (simp add: jb_inv_def jitter_new_def filling_def depth_ok_def counters_ok_def)

lemma jitter_reset_inv: "length (jb_loss_window b) \<le> LOSS_WINDOW \<Longrightarrow> jb_inv (jitter_reset b)"
  by (simp add: jb_inv_def jitter_reset_def filling_def depth_ok_def counters_ok_def)

lemma reanchor_inv: "length (jb_loss_window b) \<le> LOSS_WINDOW \<Longrightarrow> jb_inv (reanchor b)"
  by (simp add: jb_inv_def reanchor_def jitter_reset_def filling_def depth_ok_def counters_ok_def)

lemma inv_window: "jb_inv b \<Longrightarrow> length (jb_loss_window b) \<le> LOSS_WINDOW"
  by (simp add: jb_inv_def counters_ok_def)

lemma push_restart_inv: "jb_inv b \<Longrightarrow> jb_inv (push_restart b s)"
  by (auto simp: push_restart_def jitter_reset_inv inv_window split: option.splits)

lemma push_estimate_inv: "jb_inv (push_estimate b s) \<longleftrightarrow> jb_inv b"
  by (simp add: push_estimate_def jb_inv_def ahead_def filling_def depth_ok_def counters_ok_def Let_def
      cong: option.case_cong)

lemma wrap32_Suc: "n < 2 ^ 32 \<Longrightarrow> wrap32 (n + 1) = (if n = SEQ_MAX then 0 else n + 1)"
  by (auto simp: wrap32_def)

lemma push_late_inv:
  assumes inv: "jb_inv b" and late: "is_late b (mp_seq p)"
  shows "jb_inv (push_late b p)"
proof (cases "jb_concealed b = Some (mp_seq p) \<and> Some (wrap32 (mp_seq p + 1)) = jb_next_seq b")
  case False
  then show ?thesis using inv
    by (simp add: push_late_def jb_inv_def ahead_def filling_def depth_ok_def counters_ok_def cong: option.case_cong)
next
  case True
  let ?s = "mp_seq p"
  obtain n where n: "jb_next_seq b = Some n" "?s < n" and a: "ahead b n"
    using late inv by (auto simp: is_late_def jb_inv_def split: option.splits)
  have s: "n = ?s + 1" "?s < 2 ^ 32"
  proof -
    show "?s < 2 ^ 32" using n(2) a by (simp add: ahead_def)
    then show "n = ?s + 1" using True n wrap32_Suc [of ?s] by (auto split: if_splits)
  qed
  have len: "bm_len (jb_frames b) \<le> MAX_BUFFERED" using inv True by (simp add: jb_inv_def depth_ok_def)
  let ?b = "b\<lparr>jb_concealed := None, jb_resurrected := wrap64 (jb_resurrected b + 1),
      jb_frames := bm_insert ?s (mp_payload p) (jb_frames b), jb_next_seq := Some ?s\<rparr>"
  have "ahead ?b ?s" using a s by (auto simp: ahead_def)
  moreover have "depth_ok ?b" using len by (auto simp: depth_ok_def bm_len_insert)
  ultimately show ?thesis
    using inv True n by (simp add: push_late_def jb_inv_def counters_ok_def)
qed

lemma push_keep_inv:
  assumes inv: "jb_inv b" and late: "\<not> is_late b (mp_seq p)" and s: "mp_seq p < 2 ^ 32"
  shows "jb_inv (push_keep b p)"
proof -
  let ?s = "mp_seq p"
  let ?prev = "wrap32 (?s + SEQ_MAX)"
  have prev: "?prev < 2 ^ 32" "?prev = SEQ_MAX \<or> ?prev + 1 = ?s"
    using s by (auto simp: wrap32_def mod_if)
  define red where "red = (case mp_redundant p of None \<Rightarrow> jb_redundant b | Some red \<Rightarrow>
      if (case jb_next_seq b of None \<Rightarrow> True | Some next \<Rightarrow> next \<le> ?prev)
      then bm_or_insert ?prev red (jb_redundant b) else jb_redundant b)"
  let ?b = "b\<lparr>jb_redundant := red, jb_frames := bm_or_insert ?s (mp_payload p) (jb_frames b)\<rparr>"
  have eq: "push_keep b p = (if MAX_BUFFERED < bm_len (jb_frames ?b) then reanchor ?b else ?b)"
    by (simp add: push_keep_def red_def Let_def)
  show ?thesis
  proof (cases "MAX_BUFFERED < bm_len (jb_frames ?b)")
    case True
    then show ?thesis using reanchor_inv [of ?b] inv_window [OF inv] by (simp add: eq)
  next
    case False
    have carrier: "bm_get (bm_or_insert ?s (mp_payload p) (jb_frames b)) (k + 1) \<noteq> None"
      if "k + 1 = ?s \<or> bm_get (jb_frames b) (k + 1) \<noteq> None" for k
      using that by (auto simp: bm_get_or_insert)
    have frames: "k = ?s \<or> bm_get (jb_frames b) k \<noteq> None"
      if "bm_get (bm_or_insert ?s (mp_payload p) (jb_frames b)) k \<noteq> None" for k
      using that by (auto simp: bm_get_or_insert split: if_splits)
    have copies: "bm_get (jb_redundant b) k \<noteq> None \<or>
        k = ?prev \<and> (\<forall>n. jb_next_seq b = Some n \<longrightarrow> n \<le> k)"
      if "bm_get red k \<noteq> None" for k
      using that by (auto simp: red_def bm_get_or_insert split: option.splits if_splits)
    have "(case jb_next_seq b of None \<Rightarrow> filling ?b | Some n \<Rightarrow> ahead ?b n)"
    proof (cases "jb_next_seq b")
      case None
      then have f: "filling b" using inv by (simp add: jb_inv_def)
      have "k < 2 ^ 32 \<and> (k = SEQ_MAX \<or>
          bm_get (bm_or_insert ?s (mp_payload p) (jb_frames b)) (k + 1) \<noteq> None)"
        if "bm_get red k \<noteq> None" for k
        using copies [OF that] f prev carrier [of k] unfolding filling_def by blast
      then show ?thesis using None f s frames unfolding filling_def by fastforce
    next
      case (Some n)
      then have a: "ahead b n" and ns: "n \<le> ?s" using inv late by (auto simp: jb_inv_def is_late_def)
      have "n \<le> k + 1 \<and> k < 2 ^ 32 \<and> (SEQ_MAX - 2 \<le> k \<or>
          bm_get (bm_or_insert ?s (mp_payload p) (jb_frames b)) (k + 1) \<noteq> None)"
        if "bm_get red k \<noteq> None" for k
        using copies [OF that]
      proof
        assume "bm_get (jb_redundant b) k \<noteq> None"
        then show ?thesis using a carrier [of k] unfolding ahead_def by blast
      next
        assume new: "k = ?prev \<and> (\<forall>n. jb_next_seq b = Some n \<longrightarrow> n \<le> k)"
        then have "n \<le> k" using Some by blast
        then show ?thesis using new prev carrier [of k] by auto
      qed
      then show ?thesis using Some a ns s frames unfolding ahead_def by fastforce
    qed
    then show ?thesis
      using inv False unfolding eq by (simp add: jb_inv_def depth_ok_def counters_ok_def cong: option.case_cong)
  qed
qed

lemma jitter_push_inv: "jb_inv b \<Longrightarrow> mp_seq p < 2 ^ 32 \<Longrightarrow> jb_inv (jitter_push b p)"
  unfolding jitter_push_def Let_def
  by (simp add: push_late_inv push_keep_inv push_estimate_inv push_restart_inv)


section \<open>The invariant under playout\<close>

text \<open>The state between the steps of a pull, at the position about to be played.\<close>

definition mid :: "jitter_buffer \<Rightarrow> nat \<Rightarrow> bool" where
  "mid b n \<longleftrightarrow> n < 2 ^ 32 \<and>
     (\<forall>k. bm_get (jb_frames b) k \<noteq> None \<longrightarrow> n \<le> k \<and> k < 2 ^ 32) \<and>
     (\<forall>k. bm_get (jb_redundant b) k \<noteq> None \<longrightarrow> n \<le> k + 2 \<and> k < 2 ^ 32 \<and>
        (n \<le> k \<longrightarrow> SEQ_MAX - 2 \<le> k \<or> bm_get (jb_frames b) (k + 1) \<noteq> None))"

lemma pull_start_inv:
  assumes inv: "jb_inv b" and st: "pull_start b target = Some (b1, n)"
  shows "jb_next_seq b1 = Some n" "jb_inv b1" "jb_frames b1 = jb_frames b"
proof -
  consider "jb_running b" "b1 = b" "jb_next_seq b = Some n"
    | "\<not> jb_running b" "bm_first (jb_frames b) = Some n"
      "b1 = b\<lparr>jb_next_seq := Some n, jb_running := True\<rparr>"
    using st by (auto simp: pull_start_def split: if_splits)
  then have "jb_next_seq b1 = Some n \<and> jb_frames b1 = jb_frames b \<and> jb_inv b1"
  proof cases
    case 1
    then show ?thesis using inv by simp
  next
    case 2
    have none: "jb_next_seq b = None" "jb_concealed b = None" using inv 2(1) by (auto simp: jb_inv_def)
    then have f: "filling b" using inv by (simp add: jb_inv_def)
    note first = bm_first_Some [OF 2(2)]
    have n: "n < 2 ^ 32" using first(1) f unfolding filling_def by blast
    have red: "n \<le> k + 1 \<and> k < 2 ^ 32 \<and> (SEQ_MAX - 2 \<le> k \<or> bm_get (jb_frames b) (k + 1) \<noteq> None)"
      if "bm_get (jb_redundant b) k \<noteq> None" for k
    proof -
      have "k < 2 ^ 32" "k = SEQ_MAX \<or> bm_get (jb_frames b) (k + 1) \<noteq> None"
        using that f unfolding filling_def by blast+
      then show ?thesis using n first(2) [of "k + 1"] by auto
    qed
    have "ahead b1 n"
      unfolding ahead_def using n red first(2) f by (simp add: 2(3) filling_def)
    then show ?thesis
      using inv none 2(3) by (auto simp: jb_inv_def depth_ok_def counters_ok_def)
  qed
  then show "jb_next_seq b1 = Some n" "jb_inv b1" "jb_frames b1 = jb_frames b" by auto
qed

lemma pull_shrink_mid:
  assumes "ahead b n" and "pull_shrink b n = (b', m)"
  shows "mid b' m"
proof (cases "jb_drop_pending b \<and> bm_contains (jb_frames b) n")
  case False
  then have "b' = b" "m = n" using assms(2) by (auto simp: pull_shrink_def split: if_splits)
  then show ?thesis using assms(1) by (auto simp: mid_def ahead_def le_SucI)
next
  case True
  then have m: "m = wrap32 (n + 1)"
    and b': "jb_frames b' = bm_remove n (jb_frames b)" "jb_redundant b' = bm_remove n (jb_redundant b)"
    using assms(2) by (auto simp: pull_shrink_def split: if_splits)
  have n: "n < 2 ^ 32" using assms(1) by (simp add: ahead_def)
  show ?thesis
  proof (cases "n = SEQ_MAX")
    case True
    have "k = SEQ_MAX" if "bm_get (jb_frames b) k \<noteq> None" for k
      using that assms(1) True by (force simp: ahead_def)
    moreover have "SEQ_MAX - 2 \<le> k \<and> k < 2 ^ 32" if "bm_get (jb_redundant b) k \<noteq> None" for k
      using that assms(1) True by (force simp: ahead_def)
    ultimately show ?thesis using True m b' by (auto simp: mid_def wrap32_def)
  next
    case False
    then have m': "m = n + 1" "m < 2 ^ 32" using m n wrap32_Suc [OF n] by auto
    have "m \<le> k \<and> k < 2 ^ 32" if "bm_get (jb_frames b') k \<noteq> None" for k
      using that assms(1) m' b' by (force simp: ahead_def split: if_splits)
    moreover have "m \<le> k + 2 \<and> k < 2 ^ 32 \<and>
        (m \<le> k \<longrightarrow> SEQ_MAX - 2 \<le> k \<or> bm_get (jb_frames b') (k + 1) \<noteq> None)"
      if "bm_get (jb_redundant b') k \<noteq> None" for k
      using that assms(1) m' b' by (force simp: ahead_def split: if_splits)
    ultimately show ?thesis using m' by (simp add: mid_def)
  qed
qed


text \<open>What one slot consumes; only the frame or the copy at the position can go.\<close>

lemma pull_frame_fields:
  assumes "pull_frame b n = (r, b')"
  shows "bm_get (jb_frames b') k = (if k = n then None else bm_get (jb_frames b) k)"
    and "bm_get (jb_redundant b') k \<noteq> None \<Longrightarrow> bm_get (jb_redundant b) k \<noteq> None"
    and "bm_len (jb_frames b') = (if bm_get (jb_frames b) n = None then bm_len (jb_frames b)
           else bm_len (jb_frames b) - 1)"
    and "jb_concealed b' = None \<or> jb_concealed b' = Some n"
    and "length (jb_loss_window b') \<le> LOSS_WINDOW"
    and "jb_over_ticks b' = jb_over_ticks b" "jb_stuck_ticks b' = jb_stuck_ticks b"
    and "jb_running b' = jb_running b"
  using assms
  by (auto simp: pull_frame_def note_loss_def Let_def bm_len_remove split: option.splits if_splits)

lemma pull_advance_fields:
  "jb_next_seq (pull_advance b n target) = Some n"
  "jb_frames (pull_advance b n target) = bm_from n (jb_frames b)"
  "jb_redundant (pull_advance b n target) = bm_from n (jb_redundant b)"
  "jb_concealed (pull_advance b n target) = jb_concealed b"
  "jb_loss_window (pull_advance b n target) = jb_loss_window b"
  "jb_stuck_ticks (pull_advance b n target) = jb_stuck_ticks b"
  "jb_running (pull_advance b n target) = jb_running b"
  "jb_over_ticks b < SHRINK_PATIENCE \<Longrightarrow> jb_over_ticks (pull_advance b n target) < SHRINK_PATIENCE"
  by (auto simp: pull_advance_def Let_def)

lemma mid_advance:
  assumes m: "mid b n" and f: "pull_frame b n = (r, b')"
  shows "ahead (pull_advance b' (wrap32 (n + 1)) target) (wrap32 (n + 1))"
proof -
  note ff = pull_frame_fields [OF f] and fa = pull_advance_fields
  have n: "n < 2 ^ 32" using m by (simp add: mid_def)
  let ?w = "wrap32 (n + 1)" and ?b = "pull_advance b' (wrap32 (n + 1)) target"
  have frames: "bm_get (jb_frames ?b) k = (if ?w \<le> k \<and> k \<noteq> n then bm_get (jb_frames b) k else None)" for k
    by (simp add: fa ff(1))
  have copies: "?w \<le> k \<and> bm_get (jb_redundant b) k \<noteq> None" if "bm_get (jb_redundant ?b) k \<noteq> None" for k
    using that ff(2) [of k] by (simp add: fa split: if_splits)
  have "?w \<le> k + 1 \<and> k < 2 ^ 32 \<and> (SEQ_MAX - 2 \<le> k \<or> bm_get (jb_frames ?b) (k + 1) \<noteq> None)"
    if c: "bm_get (jb_redundant ?b) k \<noteq> None" for k
  proof (cases "n = SEQ_MAX")
    case True
    then have "n \<le> k + 2" "k < 2 ^ 32" using copies [OF c] m unfolding mid_def by blast+
    then show ?thesis using True by (simp add: wrap32_def)
  next
    case False
    then have w: "?w = n + 1" using wrap32_Suc [OF n] by simp
    then have "n \<le> k" using copies [OF c] by simp
    then have "k < 2 ^ 32" "SEQ_MAX - 2 \<le> k \<or> bm_get (jb_frames b) (k + 1) \<noteq> None"
      using copies [OF c] m unfolding mid_def by blast+
    moreover have "bm_get (jb_frames ?b) (k + 1) = bm_get (jb_frames b) (k + 1)"
      unfolding frames using w copies [OF c] by simp
    moreover have "?w \<le> k + 1" using w \<open>n \<le> k\<close> by simp
    ultimately show ?thesis by (simp only: simp_thms)
  qed
  moreover have "?w \<le> k \<and> k < 2 ^ 32" if "bm_get (jb_frames ?b) k \<noteq> None" for k
  proof -
    have "?w \<le> k \<and> bm_get (jb_frames b) k \<noteq> None"
      using that unfolding frames by (simp split: if_splits)
    then show ?thesis using m unfolding mid_def by blast
  qed
  ultimately show ?thesis unfolding ahead_def by simp
qed

lemma pull_shrink_fields:
  assumes "pull_shrink b n = (b', m)"
  shows "bm_len (jb_frames b') \<le> bm_len (jb_frames b)"
    and "bm_get (jb_frames b) n \<noteq> None \<Longrightarrow>
      bm_len (jb_frames b') = bm_len (jb_frames b) - 1 \<or> (b' = b \<and> m = n)"
    and "jb_over_ticks b' = jb_over_ticks b" "jb_stuck_ticks b' = jb_stuck_ticks b"
    and "jb_running b' = jb_running b"
  using assms by (auto simp: pull_shrink_def bm_len_remove split: if_splits)

lemma bm_len_pos: "bm_get m k \<noteq> None \<Longrightarrow> 0 < bm_len m"
  by (metis bm_get_empty bm_len_0_iff neq0_conv)

text \<open>A pull that consumes leaves at most 64 frames: the 65th can only be the one at the position.\<close>

lemma pull_depth:
  assumes d: "depth_ok b" "jb_next_seq b = Some n" and s: "pull_shrink b n = (b2, m)"
    and f: "pull_frame b2 m = (r, b3)"
  shows "bm_len (jb_frames b3) \<le> MAX_BUFFERED"
proof (cases "bm_len (jb_frames b) \<le> MAX_BUFFERED")
  case True
  then show ?thesis
    using pull_shrink_fields(1) [OF s] pull_frame_fields(3) [OF f] by (auto split: if_splits)
next
  case False
  then have l: "bm_len (jb_frames b) = MAX_BUFFERED + 1" "bm_get (jb_frames b) n \<noteq> None"
    using d by (auto simp: depth_ok_def)
  from pull_shrink_fields(2) [OF s l(2)] show ?thesis
    using l pull_frame_fields(3) [OF f] by (auto split: if_splits)
qed

lemma watchdog_inv: "jb_inv b \<Longrightarrow> jb_inv (pull_watchdog b r)"
proof -
  assume inv: "jb_inv b"
  have flag: "jb_inv (b\<lparr>jb_dropped_since_pull := f\<rparr>)" for f
    using inv by (simp add: jb_inv_def ahead_def filling_def depth_ok_def counters_ok_def
        cong: option.case_cong)
  have ticks: "jb_inv (b\<lparr>jb_dropped_since_pull := f, jb_stuck_ticks := s\<rparr>)"
    "jb_inv (b\<lparr>jb_stuck_ticks := s\<rparr>)" if "s < REANCHOR_PATIENCE" for f s
    using inv that by (simp_all add: jb_inv_def ahead_def filling_def depth_ok_def counters_ok_def
        cong: option.case_cong)
  show ?thesis
    using inv flag ticks reanchor_inv inv_window [OF inv]
    by (auto simp: pull_watchdog_def Let_def is_played_def not_le split: pull.splits)
qed

lemma jitter_pull_inv:
  assumes inv: "jb_inv b0" and p: "jitter_pull b0 = (r, b')"
  shows "jb_inv b'"
proof -
  let ?b = "b0\<lparr>jb_tick := wrap64 (jb_tick b0 + 1)\<rparr>"
  let ?t = "target_frames ?b"
  have i: "jb_inv ?b"
    using inv by (simp add: jb_inv_def ahead_def filling_def depth_ok_def counters_ok_def
        cong: option.case_cong)
  show ?thesis
  proof (cases "pull_start ?b ?t")
    case None
    have "jb_inv (?b\<lparr>jb_waiting := w\<rparr>)" for w
      using inv by (simp add: jb_inv_def ahead_def filling_def depth_ok_def counters_ok_def
          cong: option.case_cong)
    then show ?thesis using p None by (auto simp: jitter_pull_def Let_def)
  next
    case (Some s)
    obtain b1 n where s: "s = (b1, n)" by (cases s)
    note st = pull_start_inv [OF i Some [unfolded s]]
    have held: "jb_inv (b1\<lparr>jb_held_last := h\<rparr>)" for h
      using st(2) by (simp add: jb_inv_def ahead_def filling_def depth_ok_def counters_ok_def
          cong: option.case_cong)
    show ?thesis
    proof (cases "bm_len (jb_frames b1) < ?t \<and> bm_contains (jb_frames b1) n \<and> \<not> jb_held_last b1")
      case True
      then show ?thesis using p Some s held by (auto simp: jitter_pull_def Let_def)
    next
      case False
      let ?b1 = "b1\<lparr>jb_held_last := False\<rparr>"
      obtain b2 m where sh: "pull_shrink ?b1 n = (b2, m)" by (cases "pull_shrink ?b1 n")
      obtain r3 b3 where fr: "pull_frame b2 m = (r3, b3)" by (cases "pull_frame b2 m")
      let ?b4 = "pull_advance b3 (wrap32 (m + 1)) ?t"
      have b': "b' = pull_watchdog ?b4 r3"
        using p Some s False sh fr by (auto simp: jitter_pull_def Let_def)
      have a: "ahead ?b1 n" "depth_ok ?b1" "jb_next_seq ?b1 = Some n" "jb_running ?b1" "counters_ok ?b1"
        using held [of False] st(1) by (auto simp: jb_inv_def)
      have "ahead ?b4 (wrap32 (m + 1))" by (rule mid_advance [OF pull_shrink_mid [OF a(1) sh] fr])
      moreover have "bm_len (jb_frames ?b4) \<le> MAX_BUFFERED"
        using pull_depth [OF a(2,3) sh fr] bm_len_from_le [of "wrap32 (m + 1)" "jb_frames b3"]
        by (simp add: pull_advance_fields)
      moreover have "counters_ok ?b4"
        using a(5) pull_frame_fields [OF fr] pull_shrink_fields [OF sh]
        by (simp add: counters_ok_def pull_advance_fields)
      moreover have "jb_running ?b4"
        using a(4) pull_frame_fields(8) [OF fr] pull_shrink_fields(5) [OF sh] by (simp add: pull_advance_fields)
      ultimately have "jb_inv ?b4"
        using pull_frame_fields(4) [OF fr]
        by (auto simp: jb_inv_def depth_ok_def pull_advance_fields)
      then show ?thesis unfolding b' by (rule watchdog_inv)
    qed
  qed
qed

section \<open>The buffer as a machine\<close>

datatype jitter_event = JPush media_packet | JPull

definition jitter_step :: "jitter_buffer \<Rightarrow> jitter_event \<Rightarrow> jitter_buffer" where
  "jitter_step b e = (case e of JPush p \<Rightarrow> jitter_push b p | JPull \<Rightarrow> snd (jitter_pull b))"

definition jitter_event_ok :: "jitter_event \<Rightarrow> bool" where
  "jitter_event_ok e = (case e of JPush p \<Rightarrow> mp_seq p < 2 ^ 32 | JPull \<Rightarrow> True)"

interpretation jitter: invariant_machine jitter_step jb_inv jitter_event_ok
proof
  show "jb_inv s \<Longrightarrow> jitter_event_ok e \<Longrightarrow> jb_inv (jitter_step s e)" for s e
    using jitter_pull_inv [of s "fst (jitter_pull s)" "snd (jitter_pull s)"]
    by (cases e) (simp_all add: jitter_step_def jitter_event_ok_def jitter_push_inv)
qed

definition jitter_run :: "jitter_event list \<Rightarrow> jitter_buffer" where
  "jitter_run es = foldl jitter_step jitter_new es"

lemma jitter_run_inv: "list_all jitter_event_ok es \<Longrightarrow> jb_inv (jitter_run es)"
  unfolding jitter_run_def by (rule jitter.run_inv [OF jitter_new_inv])


lemma redundant_bound:
  assumes "jb_inv b"
  shows "bm_len (jb_redundant b) \<le> bm_len (jb_frames b) + 3"
proof -
  let ?F = "{k. bm_get (jb_frames b) k \<noteq> None}" and ?R = "{k. bm_get (jb_redundant b) k \<noteq> None}"
  have carried: "k < 2 ^ 32 \<and> (SEQ_MAX - 2 \<le> k \<or> k + 1 \<in> ?F)" if "k \<in> ?R" for k
    using assms that by (cases "jb_next_seq b") (auto simp: jb_inv_def filling_def ahead_def)
  have "?R \<subseteq> (\<lambda>k. k - 1) ` ?F \<union> {SEQ_MAX - 2, SEQ_MAX - 1, SEQ_MAX}"
  proof
    fix k assume "k \<in> ?R"
    then consider "k = SEQ_MAX - 2 \<or> k = SEQ_MAX - 1 \<or> k = SEQ_MAX" | "k + 1 \<in> ?F"
      using carried [of k] by fastforce
    then show "k \<in> (\<lambda>k. k - 1) ` ?F \<union> {SEQ_MAX - 2, SEQ_MAX - 1, SEQ_MAX}"
    proof cases
      case 1
      then show ?thesis by blast
    next
      case 2
      then have "k + 1 - 1 \<in> (\<lambda>k. k - 1) ` ?F" by (rule imageI)
      then show ?thesis by simp
    qed
  qed
  moreover have "finite ((\<lambda>k. k - 1) ` ?F \<union> {SEQ_MAX - 2, SEQ_MAX - 1, SEQ_MAX})"
    by (intro finite_UnI finite_imageI finite_bm_dom) simp
  ultimately have "card ?R \<le> card ((\<lambda>k. k - 1) ` ?F \<union> {SEQ_MAX - 2, SEQ_MAX - 1, SEQ_MAX})"
    by (intro card_mono)
  also have "\<dots> \<le> card ((\<lambda>k. k - 1) ` ?F) + card {SEQ_MAX - 2, SEQ_MAX - 1, SEQ_MAX}"
    by (rule card_Un_le)
  also have "\<dots> \<le> card ?F + 3"
    by (intro add_mono card_image_le finite_bm_dom) simp
  finally show ?thesis by (simp add: bm_len_keys)
qed

lemma target_range: "1 \<le> target_frames b \<and> target_frames b \<le> MAX_TARGET"
  by (simp add: target_frames_def Let_def)

text \<open>Whatever arrives in whatever order, the buffer is bounded: at most 65 frames and 68 redundant
  copies, a target between 1 and 24 frames, a loss window of at most 256 ticks, and playout runs
  exactly when it has a position, behind which nothing is held.\<close>

theorem jitter_bounded:
  assumes "list_all jitter_event_ok es"
  shows "let b = jitter_run es in
    bm_len (jb_frames b) \<le> MAX_BUFFERED + 1 \<and> bm_len (jb_redundant b) \<le> MAX_BUFFERED + 4 \<and>
    1 \<le> target_frames b \<and> target_frames b \<le> MAX_TARGET \<and>
    length (jb_loss_window b) \<le> LOSS_WINDOW \<and> jb_stuck_ticks b < REANCHOR_PATIENCE \<and>
    jb_running b = (jb_next_seq b \<noteq> None) \<and>
    (case jb_next_seq b of None \<Rightarrow> True | Some n \<Rightarrow> list_all (\<lambda>k. n \<le> k) (bm_keys (jb_frames b)))"
proof -
  have inv: "jb_inv (jitter_run es)" by (rule jitter_run_inv [OF assms])
  have d: "bm_len (jb_frames (jitter_run es)) \<le> MAX_BUFFERED + 1"
    using inv by (auto simp: jb_inv_def depth_ok_def)
  have "case jb_next_seq (jitter_run es) of None \<Rightarrow> True
      | Some n \<Rightarrow> list_all (\<lambda>k. n \<le> k) (bm_keys (jb_frames (jitter_run es)))"
    using inv by (auto simp: jb_inv_def ahead_def list_all_iff set_bm_keys split: option.splits)
  then show ?thesis
    using inv d redundant_bound [OF inv] target_range [of "jitter_run es"]
    by (simp add: Let_def jb_inv_def counters_ok_def)
qed

definition packet :: "nat \<Rightarrow> bytes \<Rightarrow> bytes option \<Rightarrow> media_packet" where
  "packet s payload red =
     \<lparr>mp_seq = s, mp_timestamp = 120 * s, mp_payload = payload, mp_redundant = red\<rparr>"

theorem jitter_bounded_witness:
  "bm_len (jb_redundant (jitter_run [JPush (packet 0 [1] None), JPull, JPush (packet 2 [3] (Some [2])),
     JPull, JPull])) \<le> MAX_BUFFERED + 4"
  using jitter_bounded [of "[JPush (packet 0 [1] None), JPull, JPush (packet 2 [3] (Some [2])),
     JPull, JPull]"]
  by (simp add: Let_def jitter_event_ok_def packet_def)

section \<open>What is played\<close>

text \<open>Everything in the buffer came in a packet of \<open>H\<close>.\<close>

definition from_packets :: "media_packet set \<Rightarrow> jitter_buffer \<Rightarrow> bool" where
  "from_packets H b \<longleftrightarrow>
     (\<forall>k v. bm_get (jb_frames b) k = Some v \<longrightarrow> (\<exists>p \<in> H. mp_seq p = k \<and> mp_payload p = v)) \<and>
     (\<forall>k v. bm_get (jb_redundant b) k = Some v \<longrightarrow>
        (\<exists>p \<in> H. wrap32 (mp_seq p + SEQ_MAX) = k \<and> mp_redundant p = Some v))"

text \<open>Operations only drop frames and copies, or add those of the packet at hand.\<close>

lemma from_packets_sub:
  assumes "from_packets H b"
    and "\<And>k v. bm_get (jb_frames b') k = Some v \<Longrightarrow> bm_get (jb_frames b) k = Some v"
    and "\<And>k v. bm_get (jb_redundant b') k = Some v \<Longrightarrow> bm_get (jb_redundant b) k = Some v"
  shows "from_packets H b'"
  using assms unfolding from_packets_def by blast

lemma from_packets_cong:
  assumes "jb_frames b' = jb_frames b \<or> jb_frames b' = bm_empty"
    and "jb_redundant b' = jb_redundant b \<or> jb_redundant b' = bm_empty"
    and h: "from_packets H b"
  shows "from_packets H b'"
  by (rule from_packets_sub [OF h]) (use assms(1,2) in auto)

lemma from_packets_add:
  assumes "from_packets H b"
    and "\<And>k v. bm_get (jb_frames b') k = Some v \<Longrightarrow>
      bm_get (jb_frames b) k = Some v \<or> (mp_seq p = k \<and> mp_payload p = v)"
    and "\<And>k v. bm_get (jb_redundant b') k = Some v \<Longrightarrow>
      bm_get (jb_redundant b) k = Some v \<or>
      (wrap32 (mp_seq p + SEQ_MAX) = k \<and> mp_redundant p = Some v)"
  shows "from_packets (insert p H) b'"
  unfolding from_packets_def
proof (intro conjI allI impI)
  show "\<exists>q \<in> insert p H. mp_seq q = k \<and> mp_payload q = v" if "bm_get (jb_frames b') k = Some v" for k v
    using assms(1) assms(2) [OF that] unfolding from_packets_def by blast
  show "\<exists>q \<in> insert p H. wrap32 (mp_seq q + SEQ_MAX) = k \<and> mp_redundant q = Some v"
    if "bm_get (jb_redundant b') k = Some v" for k v
    using assms(1) assms(3) [OF that] unfolding from_packets_def by blast
qed

lemma push_keep_maps:
  "bm_get (jb_frames (push_keep b p)) k = Some v \<Longrightarrow>
   bm_get (jb_frames b) k = Some v \<or> (mp_seq p = k \<and> mp_payload p = v)"
  "bm_get (jb_redundant (push_keep b p)) k = Some v \<Longrightarrow>
   bm_get (jb_redundant b) k = Some v \<or> (wrap32 (mp_seq p + SEQ_MAX) = k \<and> mp_redundant p = Some v)"
  by (auto simp: push_keep_def Let_def reanchor_def jitter_reset_def bm_get_or_insert
      split: if_splits option.splits)

lemma push_late_maps:
  "bm_get (jb_frames (push_late b p)) k = Some v \<Longrightarrow>
   bm_get (jb_frames b) k = Some v \<or> (mp_seq p = k \<and> mp_payload p = v)"
  "jb_redundant (push_late b p) = jb_redundant b"
  by (auto simp: push_late_def split: if_splits)

lemma from_packets_push:
  assumes "from_packets H b"
  shows "from_packets (insert p H) (jitter_push b p)"
proof -
  define c where "c = push_estimate (push_restart b (mp_seq p)) (mp_seq p)"
  have "from_packets H c"
    by (rule from_packets_cong [OF _ _ assms])
      (auto simp: c_def push_estimate_def push_restart_def jitter_reset_def Let_def split: option.splits)
  then have "from_packets (insert p H) (if is_late c (mp_seq p) then push_late c p else push_keep c p)"
    by (rule from_packets_add) (use push_late_maps push_keep_maps in \<open>auto split: if_splits\<close>)
  then show ?thesis by (simp only: jitter_push_def Let_def c_def)
qed

lemma pull_start_maps:
  "pull_start b t = Some (b1, n) \<Longrightarrow> jb_frames b1 = jb_frames b \<and> jb_redundant b1 = jb_redundant b"
  by (auto simp: pull_start_def split: if_splits)

lemma pull_watchdog_maps:
  "jb_frames (pull_watchdog b r) = jb_frames b \<or> jb_frames (pull_watchdog b r) = bm_empty"
  "jb_redundant (pull_watchdog b r) = jb_redundant b \<or> jb_redundant (pull_watchdog b r) = bm_empty"
  by (auto simp: pull_watchdog_def reanchor_def jitter_reset_def Let_def)

text \<open>The steps of a pull, taken apart once.\<close>

lemma jitter_pull_cases:
  assumes "jitter_pull b0 = (r, b')"
  obtains
    (waiting) "r = Waiting" "jb_frames b' = jb_frames b0" "jb_redundant b' = jb_redundant b0"
      "jb_next_seq b' = jb_next_seq b0" "jb_concealed b' = jb_concealed b0"
      "jb_pulled b' = jb_pulled b0" "jb_lost b' = jb_lost b0" "jb_recovered b' = jb_recovered b0"
      "jb_running b' = jb_running b0" "\<not> jb_running b0 \<or> jb_next_seq b0 = None"
  | (hold) b1 n t where "r = Missing"
      "pull_start (b0\<lparr>jb_tick := wrap64 (jb_tick b0 + 1)\<rparr>) t = Some (b1, n)"
      "b' = b1\<lparr>jb_held_last := True\<rparr>"
  | (slot) b1 n t b2 m b3 where
      "pull_start (b0\<lparr>jb_tick := wrap64 (jb_tick b0 + 1)\<rparr>) t = Some (b1, n)"
      "pull_shrink (b1\<lparr>jb_held_last := False\<rparr>) n = (b2, m)" "pull_frame b2 m = (r, b3)"
      "b' = pull_watchdog (pull_advance b3 (wrap32 (m + 1)) t) r"
proof -
  let ?b = "b0\<lparr>jb_tick := wrap64 (jb_tick b0 + 1)\<rparr>"
  let ?t = "target_frames ?b"
  show thesis
  proof (cases "pull_start ?b ?t")
    case None
    then have "\<not> jb_running b0 \<or> jb_next_seq b0 = None" by (auto simp: pull_start_def)
    then show thesis using assms None by (intro waiting) (auto simp: jitter_pull_def Let_def)
  next
    case (Some s)
    obtain b1 n where s: "s = (b1, n)" by (cases s)
    obtain b2 m where sh: "pull_shrink (b1\<lparr>jb_held_last := False\<rparr>) n = (b2, m)"
      by (cases "pull_shrink (b1\<lparr>jb_held_last := False\<rparr>) n")
    obtain r3 b3 where fr: "pull_frame b2 m = (r3, b3)" by (cases "pull_frame b2 m")
    show thesis
    proof (cases "bm_len (jb_frames b1) < ?t \<and> bm_contains (jb_frames b1) n \<and> \<not> jb_held_last b1")
      case True
      then show thesis using assms Some s by (intro hold) (auto simp: jitter_pull_def Let_def)
    next
      case False
      then have "r = r3" "b' = pull_watchdog (pull_advance b3 (wrap32 (m + 1)) ?t) r3"
        using assms Some s sh fr by (auto simp: jitter_pull_def Let_def)
      then show thesis using Some s sh fr by (intro slot) auto
    qed
  qed
qed

lemma pull_slot_maps:
  assumes "pull_start b t = Some (b1, n)" "pull_shrink (b1\<lparr>jb_held_last := False\<rparr>) n = (b2, m)"
    "pull_frame b2 m = (r, b3)"
  shows "bm_get (jb_frames b2) k = Some v \<Longrightarrow> bm_get (jb_frames b) k = Some v"
    and "bm_get (jb_redundant b2) k = Some v \<Longrightarrow> bm_get (jb_redundant b) k = Some v"
    and "bm_get (jb_frames b3) k = Some v \<Longrightarrow> bm_get (jb_frames b) k = Some v"
    and "bm_get (jb_redundant b3) k = Some v \<Longrightarrow> bm_get (jb_redundant b) k = Some v"
  using pull_start_maps [OF assms(1)] assms(2,3)
  by (auto simp: pull_shrink_def pull_frame_def note_loss_def Let_def split: if_splits option.splits)

lemma from_packets_pull:
  assumes h: "from_packets H b0" and p: "jitter_pull b0 = (r, b')"
  shows "from_packets H b'"
  using p
proof (cases rule: jitter_pull_cases)
  case waiting
  then show ?thesis by (intro from_packets_cong [OF _ _ h]) auto
next
  case (hold b1 n t)
  then show ?thesis using pull_start_maps [OF hold(2)] by (intro from_packets_cong [OF _ _ h]) auto
next
  case (slot b1 n t b2 m b3)
  note maps = pull_slot_maps [OF slot(1-3)]
  have "from_packets H (pull_advance b3 (wrap32 (m + 1)) t)"
    by (rule from_packets_sub [OF h])
      (use maps(3,4) in \<open>auto simp: pull_advance_fields split: if_splits\<close>)
  then show ?thesis unfolding slot(4) by (rule from_packets_cong [OF pull_watchdog_maps])
qed

definition pushed :: "jitter_event list \<Rightarrow> media_packet set" where
  "pushed es = {p. JPush p \<in> set es}"

lemma from_packets_run: "from_packets (pushed es) (jitter_run es)"
proof (induction es rule: rev_induct)
  case Nil
  then show ?case by (simp add: from_packets_def jitter_run_def jitter_new_def)
next
  case (snoc e es)
  have run: "jitter_run (es @ [e]) = jitter_step (jitter_run es) e" for e by (simp add: jitter_run_def)
  show ?case
  proof (cases e)
    case (JPush p)
    then have "pushed (es @ [e]) = insert p (pushed es)" by (auto simp: pushed_def)
    then show ?thesis using from_packets_push [OF snoc.IH, of p] JPush
      by (simp add: run jitter_step_def)
  next
    case JPull
    then have "pushed (es @ [e]) = pushed es" by (auto simp: pushed_def)
    then show ?thesis
      using from_packets_pull [OF snoc.IH, of "fst (jitter_pull (jitter_run es))"
          "snd (jitter_pull (jitter_run es))"] JPull
      by (simp add: run jitter_step_def)
  qed
qed

lemma played_slot:
  assumes "jitter_pull b0 = (r, b')" "is_played r"
  obtains b1 n t b2 m b3 where "pull_start (b0\<lparr>jb_tick := wrap64 (jb_tick b0 + 1)\<rparr>) t = Some (b1, n)"
    "pull_shrink (b1\<lparr>jb_held_last := False\<rparr>) n = (b2, m)" "pull_frame b2 m = (r, b3)"
    "b' = pull_watchdog (pull_advance b3 (wrap32 (m + 1)) t) r"
    "jb_next_seq b' = Some (wrap32 (m + 1))"
  using assms(1)
proof (cases rule: jitter_pull_cases)
  case (slot b1 n t b2 m b3)
  have "jb_next_seq b' = Some (wrap32 (m + 1))"
    using assms(2) unfolding slot(4)
    by (auto simp: pull_watchdog_def is_played_def pull_advance_fields Let_def split: pull.splits)
  then show thesis using slot that by blast
qed (use assms(2) in \<open>auto simp: is_played_def\<close>)

text \<open>C37. Playout is faithful: a frame that is played is the payload of a packet that arrived, for the
  position just passed, and a recovered frame is the redundant copy that a packet carried for the
  position before its own.\<close>

theorem jitter_plays_pushed:
  assumes "jitter_pull (jitter_run es) = (r, b')"
  shows "case r of
      Frame v \<Rightarrow> (\<exists>p. JPush p \<in> set es \<and> mp_payload p = v \<and>
        jb_next_seq b' = Some (wrap32 (mp_seq p + 1)))
    | Recovered v \<Rightarrow> (\<exists>p. JPush p \<in> set es \<and> mp_redundant p = Some v \<and>
        jb_next_seq b' = Some (wrap32 (mp_seq p)))
    | _ \<Rightarrow> True"
proof (cases "is_played r")
  case False
  then show ?thesis by (simp add: is_played_def split: pull.splits)
next
  case True
  have h: "from_packets (pushed es) (jitter_run es)" by (rule from_packets_run)
  obtain b1 n t b2 m b3 where
    st: "pull_start ((jitter_run es)\<lparr>jb_tick := wrap64 (jb_tick (jitter_run es) + 1)\<rparr>) t = Some (b1, n)"
    and sh: "pull_shrink (b1\<lparr>jb_held_last := False\<rparr>) n = (b2, m)" and fr: "pull_frame b2 m = (r, b3)"
    and nx: "jb_next_seq b' = Some (wrap32 (m + 1))"
    by (rule played_slot [OF assms True])
  note maps = pull_slot_maps [OF st sh fr]
  show ?thesis
  proof (cases r)
    case (Frame v)
    then have "bm_get (jb_frames b2) m = Some v"
      using fr by (auto simp: pull_frame_def split: option.splits)
    then have "bm_get (jb_frames (jitter_run es)) m = Some v" using maps(1) by simp
    then obtain p where "p \<in> pushed es" "mp_seq p = m" "mp_payload p = v"
      using h unfolding from_packets_def by blast
    then show ?thesis using Frame nx by (auto simp: pushed_def)
  next
    case (Recovered v)
    then have "bm_get (jb_redundant b2) m = Some v"
      using fr by (auto simp: pull_frame_def split: option.splits)
    then have "bm_get (jb_redundant (jitter_run es)) m = Some v" using maps(2) by simp
    then obtain p where p: "p \<in> pushed es" "wrap32 (mp_seq p + SEQ_MAX) = m" "mp_redundant p = Some v"
      using h unfolding from_packets_def by blast
    have "wrap32 (m + 1) = wrap32 (mp_seq p + SEQ_MAX + 1)"
      unfolding p(2) [symmetric] wrap32_def by (simp only: mod_add_left_eq)
    also have "\<dots> = wrap32 (mp_seq p)" by (simp add: wrap32_def)
    finally show ?thesis using Recovered nx p by (auto simp: pushed_def)
  qed (use True in \<open>simp_all add: is_played_def\<close>)
qed

theorem jitter_plays_pushed_witness:
  "\<exists>p. JPush p \<in> set [JPush (packet 0 [1] None), JPull, JPush (packet 2 [3] (Some [2]))] \<and>
     mp_redundant p = Some [2]"
proof -
  let ?b = "jitter_run [JPush (packet 0 [1] None), JPull, JPush (packet 2 [3] (Some [2]))]"
  have "fst (jitter_pull ?b) = Recovered [2]" by code_simp
  then have "jitter_pull ?b = (Recovered [2], snd (jitter_pull ?b))" by (simp only: prod_eq_iff fst_conv snd_conv)
  from jitter_plays_pushed [OF this] show ?thesis by auto
qed


section \<open>The depth the header promises\<close>

text \<open>
  \<open>MAX_DEPTH_FRAMES\<close> is documented as the depth at which the buffer re-anchors, 64.  The step back
  for a frame that arrives one tick late adds to the buffer without that check, and the depth
  reaches 65.
\<close>

definition deep_run :: "jitter_event list" where
  "deep_run = [JPush (packet 0 [0] None), JPull] @ map (\<lambda>s. JPush (packet s [0] None)) [2..<66] @
     [JPull, JPush (packet 1 [0] None)]"

text \<open>The state while the 64 frames past a gap at 1 arrive; the jitter estimate plays no part.\<close>

definition gap_state :: "nat \<Rightarrow> jitter_buffer \<Rightarrow> bool" where
  "gap_state k b \<longleftrightarrow> jb_next_seq b = Some 1 \<and> jb_running b \<and> jb_concealed b = None \<and>
     \<not> jb_dropped_since_pull b \<and> \<not> jb_drop_pending b \<and> jb_reanchors b = 0 \<and>
     jb_redundant b = bm_empty \<and>
     (\<forall>j. bm_get (jb_frames b) j = (if 2 \<le> j \<and> j < k then Some [0] else None))"

lemma gap_state_len: "gap_state k b \<Longrightarrow> bm_len (jb_frames b) = k - 2"
proof -
  assume "gap_state k b"
  then have "{j. bm_get (jb_frames b) j \<noteq> None} = {2..<k}" by (auto simp: gap_state_def)
  then show ?thesis by (simp only: bm_len_keys card_atLeastLessThan)
qed

lemma gap_state_push:
  assumes "gap_state k b" "2 \<le> k" "k < 66"
  shows "gap_state (Suc k) (jitter_push b (packet k [0] None))"
proof -
  have r: "push_restart b k = b" using assms by (simp add: push_restart_def gap_state_def)
  define c where "c = push_estimate b k"
  have c: "gap_state k c" using assms(1) by (simp add: c_def push_estimate_def gap_state_def Let_def)
  then have "bm_get (jb_frames c) k = None" by (simp add: gap_state_def)
  then have "bm_len (bm_or_insert k [0] (jb_frames c)) = k - 1"
    using assms(2) gap_state_len [OF c] by (simp add: bm_or_insert_def bm_len_insert)
  moreover have "jitter_push b (packet k [0] None) = push_keep c (packet k [0] None)"
    using c assms(2) by (simp add: jitter_push_def Let_def packet_def r c_def [symmetric] is_late_def
        gap_state_def)
  ultimately show ?thesis
    using c assms(2,3) by (auto simp: push_keep_def packet_def Let_def gap_state_def bm_get_or_insert)
qed

lemma gap_state_run:
  "2 \<le> k \<Longrightarrow> k \<le> 66 \<Longrightarrow> gap_state 2 b \<Longrightarrow>
   gap_state k (foldl jitter_step b (map (\<lambda>s. JPush (packet s [0] None)) [2..<k]))"
proof (induction k)
  case 0
  then show ?case by simp
next
  case (Suc k)
  show ?case
  proof (cases "2 \<le> k")
    case True
    then have "[2..<Suc k] = [2..<k] @ [k]" by simp
    then show ?thesis using Suc True gap_state_push by (simp add: jitter_step_def)
  next
    case False
    then have "Suc k = 2" using Suc.prems by simp
    then show ?thesis using Suc.prems by (simp only: upt_rec [of 2 2] less_irrefl if_False list.map foldl_Nil)
  qed
qed

lemma gap_state_overrun:
  assumes "gap_state 66 b"
  shows "bm_len (jb_frames (jitter_push (snd (jitter_pull b)) (packet 1 [0] None))) = 65 \<and>
    jb_reanchors (jitter_push (snd (jitter_pull b)) (packet 1 [0] None)) = 0"
proof -
  let ?b = "b\<lparr>jb_tick := wrap64 (jb_tick b + 1)\<rparr>"
  have g: "bm_get (jb_frames b) (Suc 0) = None" "bm_from 2 (jb_frames b) = jb_frames b"
    using assms by (auto simp: gap_state_def intro!: bm_eqI)
  define c where "c = snd (jitter_pull b)"
  have c: "jb_next_seq c = Some 2 \<and> jb_concealed c = Some 1 \<and> jb_frames c = jb_frames b \<and>
      jb_reanchors c = 0"
    using assms g unfolding c_def
    by (auto simp: jitter_pull_def Let_def gap_state_def pull_start_def pull_shrink_def
        pull_frame_def note_loss_def pull_advance_def pull_watchdog_def is_played_def numeral_2_eq_2 [symmetric])
  have r: "push_restart c (Suc 0) = c" using c by (simp add: push_restart_def)
  define d where "d = push_estimate c (Suc 0)"
  have d: "jb_next_seq d = Some 2 \<and> jb_concealed d = Some 1 \<and> jb_frames d = jb_frames b \<and>
      jb_reanchors d = 0"
    using c by (simp add: d_def push_estimate_def Let_def)
  then have "jitter_push c (packet 1 [0] None) = push_late d (packet 1 [0] None)"
    using r by (simp add: jitter_push_def Let_def packet_def d_def [symmetric] is_late_def)
  then show ?thesis
    using d gap_state_len [OF assms] g(1)
    by (simp add: push_late_def packet_def bm_len_insert c_def [symmetric])
qed

text \<open>The buffer can hold one frame more than the depth at which it is documented to re-anchor.\<close>

theorem depth_passes_limit:
  "bm_len (jb_frames (jitter_run deep_run)) = MAX_BUFFERED + 1 \<and>
   jb_reanchors (jitter_run deep_run) = 0"
proof -
  let ?b = "foldl jitter_step jitter_new [JPush (packet 0 [0] None), JPull]"
  have "jb_next_seq ?b = Some 1 \<and> jb_running ?b \<and> jb_concealed ?b = None \<and>
      \<not> jb_dropped_since_pull ?b \<and> \<not> jb_drop_pending ?b \<and> jb_reanchors ?b = 0 \<and>
      jb_redundant ?b = bm_empty \<and> jb_frames ?b = bm_empty"
    by code_simp
  then have "gap_state 2 ?b" by (simp add: gap_state_def)
  then have "gap_state 66 (foldl jitter_step ?b (map (\<lambda>s. JPush (packet s [0] None)) [2..<66]))"
    by (intro gap_state_run) simp_all
  from gap_state_overrun [OF this] show ?thesis
    by (simp add: jitter_run_def deep_run_def jitter_step_def del: upt_rec_numeral)
qed


section \<open>Loss accounting\<close>

text \<open>A step counts at most one slot, as intact, lost or recovered.\<close>

definition counted :: "jitter_buffer \<Rightarrow> jitter_buffer \<Rightarrow> nat \<Rightarrow> nat \<Rightarrow> nat \<Rightarrow> bool" where
  "counted b b' i l r \<longleftrightarrow> jb_pulled b' = wrap64 (jb_pulled b + i + l + r) \<and>
     jb_lost b' = wrap64 (jb_lost b + l) \<and> jb_recovered b' = wrap64 (jb_recovered b + r)"

definition counters_fit :: "jitter_buffer \<Rightarrow> bool" where
  "counters_fit b \<longleftrightarrow> jb_pulled b < 2 ^ 64 \<and> jb_lost b < 2 ^ 64 \<and> jb_recovered b < 2 ^ 64"

lemma push_counters:
  "jb_pulled (jitter_push b p) = jb_pulled b" "jb_lost (jitter_push b p) = jb_lost b"
  "jb_recovered (jitter_push b p) = jb_recovered b"
  by (auto simp: jitter_push_def push_late_def push_keep_def push_estimate_def push_restart_def
      reanchor_def jitter_reset_def Let_def split: option.splits)

lemma tail_counters:
  "jb_pulled (pull_watchdog b r) = jb_pulled b" "jb_lost (pull_watchdog b r) = jb_lost b"
  "jb_recovered (pull_watchdog b r) = jb_recovered b"
  "jb_pulled (pull_advance b n t) = jb_pulled b" "jb_lost (pull_advance b n t) = jb_lost b"
  "jb_recovered (pull_advance b n t) = jb_recovered b"
  by (auto simp: pull_watchdog_def pull_advance_def reanchor_def jitter_reset_def Let_def)

lemma head_counters:
  "pull_start b t = Some (b1, n) \<Longrightarrow>
     jb_pulled b1 = jb_pulled b \<and> jb_lost b1 = jb_lost b \<and> jb_recovered b1 = jb_recovered b"
  "pull_shrink b n = (b2, m) \<Longrightarrow>
     jb_pulled b2 = jb_pulled b \<and> jb_lost b2 = jb_lost b \<and> jb_recovered b2 = jb_recovered b"
  by (auto simp: pull_start_def pull_shrink_def split: if_splits)

lemma frame_counters:
  assumes "pull_frame b n = (r, b')" "counters_fit b"
  shows "\<exists>i l q. i + l + q = 1 \<and> counted b b' i l q"
proof -
  have "counted b b' (if r = Missing \<or> (\<exists>v. r = Recovered v) then 0 else 1)
      (if r = Missing then 1 else 0) (if \<exists>v. r = Recovered v then 1 else 0)"
    using assms by (auto simp: pull_frame_def note_loss_def Let_def counted_def counters_fit_def
        split: option.splits)
  moreover have "(if r = Missing \<or> (\<exists>v. r = Recovered v) then 0 else 1) +
      (if r = Missing then 1 else 0) + (if \<exists>v. r = Recovered v then 1 else 0) = (1 :: nat)"
    by (cases r) auto
  ultimately show ?thesis by blast
qed

lemma step_counters:
  assumes "counters_fit b"
  shows "\<exists>i l r. i + l + r \<le> 1 \<and> counted b (jitter_step b e) i l r"
proof (cases e)
  case (JPush p)
  then have "counted b (jitter_step b e) 0 0 0"
    using assms by (simp add: counted_def jitter_step_def push_counters counters_fit_def)
  then show ?thesis by (intro exI [of _ 0]) simp
next
  case JPull
  obtain r b' where p: "jitter_pull b = (r, b')" by (cases "jitter_pull b")
  have step: "jitter_step b e = b'" using JPull p by (simp add: jitter_step_def)
  show ?thesis
    using p
  proof (cases rule: jitter_pull_cases)
    case waiting
    then have "counted b b' 0 0 0" using assms by (simp add: counted_def counters_fit_def)
    then show ?thesis unfolding step by (intro exI [of _ 0]) simp
  next
    case (hold b1 n t)
    then have "counted b b' 0 0 0"
      using head_counters(1) [OF hold(2)] assms by (simp add: counted_def counters_fit_def)
    then show ?thesis unfolding step by (intro exI [of _ 0]) simp
  next
    case (slot b1 n t b2 m b3)
    have same: "jb_pulled b2 = jb_pulled b" "jb_lost b2 = jb_lost b" "jb_recovered b2 = jb_recovered b"
      using head_counters(1) [OF slot(1)] head_counters(2) [OF slot(2)] by simp_all
    then have "counters_fit b2" using assms by (simp add: counters_fit_def)
    from frame_counters [OF slot(3) this] obtain i l q where
      "i + l + q = 1" "counted b2 b3 i l q" by blast
    then have "counted b b' i l q" unfolding slot(4) by (simp add: counted_def tail_counters same)
    then show ?thesis unfolding step using \<open>i + l + q = 1\<close> by (intro exI conjI) auto
  qed
qed

lemma run_counters:
  "counters_fit b \<Longrightarrow> jb_pulled b + length es < 2 ^ 64 \<Longrightarrow> jb_lost b \<le> jb_pulled b \<Longrightarrow>
   jb_recovered b \<le> jb_pulled b \<Longrightarrow>
   \<exists>i l r. i + l + r \<le> length es \<and> jb_pulled (foldl jitter_step b es) = jb_pulled b + i + l + r \<and>
     jb_lost (foldl jitter_step b es) = jb_lost b + l \<and>
     jb_recovered (foldl jitter_step b es) = jb_recovered b + r"
proof (induction es arbitrary: b)
  case Nil
  then show ?case by simp
next
  case (Cons e es)
  obtain i l r where s: "i + l + r \<le> 1" "counted b (jitter_step b e) i l r"
    using step_counters [OF Cons.prems(1)] by blast
  let ?c = "jitter_step b e"
  have c: "jb_pulled ?c = jb_pulled b + i + l + r" "jb_lost ?c = jb_lost b + l"
    "jb_recovered ?c = jb_recovered b + r"
    using s Cons.prems(2-4) by (simp_all add: counted_def)
  have "counters_fit ?c" using c s(1) Cons.prems(2-4) by (simp add: counters_fit_def)
  from Cons.IH [OF this] obtain i' l' r' where
    "i' + l' + r' \<le> length es" "jb_pulled (foldl jitter_step ?c es) = jb_pulled ?c + i' + l' + r'"
    "jb_lost (foldl jitter_step ?c es) = jb_lost ?c + l'"
    "jb_recovered (foldl jitter_step ?c es) = jb_recovered ?c + r'"
    using c s(1) Cons.prems(2-4) by auto
  then show ?case using c s(1)
    by (intro exI [of _ "i + i'"] exI [of _ "l + l'"] exI [of _ "r + r'"]) simp
qed

lemma loss_pct_nonneg: "0 \<le> loss_pct w n"
  by (auto simp: loss_pct_def f32_def intro!: round_to_nonneg divide_nonneg_nonneg mult_nonneg_nonneg)

text \<open>Loss accounting: between two samples of one buffer the window exists, counts no more lost and
  recovered slots than it pulled, pulls no more than the ticks that passed, and reports a
  non-negative loss.\<close>

theorem jitter_loss_window:
  assumes "length (es @ fs) < 2 ^ 64"
  shows "\<exists>w. loss_between (jitter_stats_of (jitter_run es)) (jitter_stats_of (jitter_run (es @ fs))) = Some w \<and>
    lw_lost w + lw_recovered w \<le> lw_pulled w \<and> lw_pulled w \<le> length fs \<and> 0 \<le> wire_loss_pct w"
proof -
  have new: "counters_fit jitter_new" "jb_pulled jitter_new = 0" "jb_lost jitter_new = 0"
    "jb_recovered jitter_new = 0" by (simp_all add: counters_fit_def jitter_new_def)
  obtain i l r where a: "i + l + r \<le> length es" "jb_pulled (jitter_run es) = i + l + r"
    "jb_lost (jitter_run es) = l" "jb_recovered (jitter_run es) = r"
    using run_counters [OF new(1), of es] assms new by (auto simp: jitter_run_def)
  have "counters_fit (jitter_run es)" using a assms by (simp add: counters_fit_def)
  from run_counters [OF this, of fs] obtain j m q where b: "j + m + q \<le> length fs"
    "jb_pulled (jitter_run (es @ fs)) = i + l + r + j + m + q"
    "jb_lost (jitter_run (es @ fs)) = l + m" "jb_recovered (jitter_run (es @ fs)) = r + q"
    using a assms by (auto simp: jitter_run_def)
  show ?thesis
    using a b loss_pct_nonneg
    by (simp add: loss_between_def checked_sub_def jitter_stats_of_def wire_loss_pct_def)
qed

theorem jitter_loss_window_witness:
  "\<exists>w. loss_between (jitter_stats_of (jitter_run [JPush (packet 0 [1] None)]))
      (jitter_stats_of (jitter_run ([JPush (packet 0 [1] None)] @ [JPull, JPull]))) = Some w \<and>
    lw_lost w + lw_recovered w \<le> lw_pulled w"
  using jitter_loss_window [of "[JPush (packet 0 [1] None)]" "[JPull, JPull]"] by auto

end
