(* ===== verification/RateLimits.thy ===== *)
theory RateLimits
  imports Interfaces
begin

text \<open>
  The shape of a session and its rate limits: the constants and \<open>TokenBucket\<close> of
  \<open>crates/session/src/limits.rs\<close>.  Times and counts are natural numbers; the saturating and
  wrapping operations of the code are written out.
\<close>

abbreviation (input) MAX_MUSICIANS :: nat where "MAX_MUSICIANS \<equiv> 10"
abbreviation (input) MAX_LISTENERS :: nat where "MAX_LISTENERS \<equiv> 20"
abbreviation (input) DEFAULT_MEMBER_TIMEOUT_MS :: nat where "DEFAULT_MEMBER_TIMEOUT_MS \<equiv> 10000"
abbreviation (input) MEMBER_QUIET_AFTER_MS :: nat where "MEMBER_QUIET_AFTER_MS \<equiv> 2000"
abbreviation (input) FANOUT_BURST :: nat where "FANOUT_BURST \<equiv> 12"
abbreviation (input) FANOUT_REFILL_PER_SEC :: nat where "FANOUT_REFILL_PER_SEC \<equiv> 2"
abbreviation (input) VIOLATION_BURST :: nat where "VIOLATION_BURST \<equiv> 32"
abbreviation (input) VIOLATION_REFILL_PER_SEC :: nat where "VIOLATION_REFILL_PER_SEC \<equiv> 1"
abbreviation (input) SERVER_LOG_BURST :: nat where "SERVER_LOG_BURST \<equiv> 32"
abbreviation (input) SERVER_LOG_PER_SEC :: nat where "SERVER_LOG_PER_SEC \<equiv> 8"
abbreviation (input) SERVER_LOG_HIGH_WATER :: nat where "SERVER_LOG_HIGH_WATER \<equiv> 16"

abbreviation (input) U32_MAX :: nat where "U32_MAX \<equiv> 4294967295"
abbreviation (input) U64_MAX :: nat where "U64_MAX \<equiv> 18446744073709551615"

section \<open>The token bucket\<close>

record token_bucket =
  tb_capacity :: nat
  tb_per_sec :: nat
  tb_tokens :: nat
  tb_millitokens :: nat
  tb_last_ms :: nat

definition bucket_new :: "nat \<Rightarrow> nat \<Rightarrow> token_bucket" where
  "bucket_new capacity per_sec =
     \<lparr>tb_capacity = capacity, tb_per_sec = per_sec, tb_tokens = capacity, tb_millitokens = 0,
      tb_last_ms = 0\<rparr>"

definition bucket_refill :: "token_bucket \<Rightarrow> nat \<Rightarrow> token_bucket" where
  "bucket_refill b now =
     (let elapsed = now - tb_last_ms b;
          b1 = b\<lparr>tb_last_ms := max (tb_last_ms b) now\<rparr>
      in if tb_capacity b1 \<le> tb_tokens b1 then b1\<lparr>tb_millitokens := 0\<rparr>
         else
           (let millis = wrap64 (tb_millitokens b1 + min (elapsed * tb_per_sec b1) U64_MAX);
                gained = min (millis div 1000) U32_MAX;
                tokens = min (tb_capacity b1) (min (tb_tokens b1 + gained) U32_MAX);
                b2 = b1\<lparr>tb_millitokens := millis mod 1000, tb_tokens := tokens\<rparr>
            in if tb_capacity b2 \<le> tb_tokens b2 then b2\<lparr>tb_millitokens := 0\<rparr> else b2))"

definition bucket_take :: "token_bucket \<Rightarrow> nat \<Rightarrow> bool \<times> token_bucket" where
  "bucket_take b now =
     (let b1 = bucket_refill b now
      in if tb_tokens b1 = 0 then (False, b1)
         else (True, b1\<lparr>tb_tokens := tb_tokens b1 - 1\<rparr>))"

definition bucket_available :: "token_bucket \<Rightarrow> nat \<Rightarrow> bool \<times> token_bucket" where
  "bucket_available b now = (let b1 = bucket_refill b now in (0 < tb_tokens b1, b1))"

section \<open>The bound\<close>

text \<open>Thousandths of a token the bucket can have handed out by time \<open>h\<close>.\<close>

definition millis_left :: "token_bucket \<Rightarrow> nat \<Rightarrow> nat" where
  "millis_left b h = 1000 * tb_tokens b + tb_millitokens b + tb_per_sec b * (h - tb_last_ms b)"

definition bucket_allowance :: "token_bucket \<Rightarrow> nat \<Rightarrow> nat" where
  "bucket_allowance b h = millis_left b h div 1000"

lemma refill_fields [simp]:
  "tb_capacity (bucket_refill b now) = tb_capacity b"
  "tb_per_sec (bucket_refill b now) = tb_per_sec b"
  "tb_last_ms (bucket_refill b now) = max (tb_last_ms b) now"
  by (simp_all add: bucket_refill_def Let_def)

lemma gained_le: "1000 * min (min (t + min (m div 1000) u) v) w + m mod 1000 \<le> 1000 * t + (m :: nat)"
proof -
  have "min (min (t + min (m div 1000) u) v) w \<le> t + m div 1000" by linarith
  then have "1000 * min (min (t + min (m div 1000) u) v) w + m mod 1000 \<le>
      1000 * t + (1000 * (m div 1000) + m mod 1000)" by linarith
  then show ?thesis by simp
qed

lemma refill_tokens:
  "1000 * tb_tokens (bucket_refill b now) + tb_millitokens (bucket_refill b now) \<le>
   1000 * tb_tokens b + tb_millitokens b + (now - tb_last_ms b) * tb_per_sec b"
proof (cases "tb_capacity b \<le> tb_tokens b")
  case True
  then show ?thesis by (simp add: bucket_refill_def Let_def)
next
  case False
  let ?m = "wrap64 (tb_millitokens b + min ((now - tb_last_ms b) * tb_per_sec b) U64_MAX)"
  have m: "?m \<le> tb_millitokens b + (now - tb_last_ms b) * tb_per_sec b"
    using wrap64_le [of "tb_millitokens b + min ((now - tb_last_ms b) * tb_per_sec b) U64_MAX"]
    by linarith
  have "1000 * tb_tokens (bucket_refill b now) + tb_millitokens (bucket_refill b now) \<le>
      1000 * min (tb_capacity b) (min (tb_tokens b + min (?m div 1000) U32_MAX) U32_MAX) + ?m mod 1000"
    using False by (simp add: bucket_refill_def Let_def)
  also have "\<dots> \<le> 1000 * tb_tokens b + ?m"
    using gained_le [of "tb_tokens b" ?m U32_MAX U32_MAX "tb_capacity b"]
    by (simp only: min.commute [of "tb_capacity b"])
  finally show ?thesis using m by linarith
qed

lemma refill_millis_left:
  assumes "now \<le> h"
  shows "millis_left (bucket_refill b now) h \<le> millis_left b h"
proof -
  have "h - tb_last_ms b = (now - tb_last_ms b) + (h - max (tb_last_ms b) now)"
    using assms by auto
  then show ?thesis
    using refill_tokens [of b now]
    by (simp add: millis_left_def distrib_left mult.commute [of "tb_per_sec b"])
qed

interpretation bucket: rate_limiter bucket_take bucket_allowance "\<lambda>_. True"
proof
  fix b :: token_bucket and t h :: nat
  assume "t \<le> h"
  then have le: "millis_left (bucket_refill b t) h \<le> millis_left b h" by (rule refill_millis_left)
  show "bucket_allowance (snd (bucket_take b t)) h + 1 \<le> bucket_allowance b h"
    if "fst (bucket_take b t)"
  proof -
    let ?r = "bucket_refill b t"
    have "0 < tb_tokens ?r" using that by (auto simp: bucket_take_def Let_def split: if_splits)
    then have "millis_left (snd (bucket_take b t)) h + 1000 = millis_left ?r h"
      by (simp add: bucket_take_def Let_def millis_left_def)
    then have "millis_left (snd (bucket_take b t)) h + 1000 \<le> millis_left b h" using le by simp
    then have "(millis_left (snd (bucket_take b t)) h + 1000) div 1000 \<le> millis_left b h div 1000"
      by (rule div_le_mono)
    then show ?thesis by (simp add: bucket_allowance_def)
  qed
  have "millis_left (snd (bucket_take b t)) h \<le> millis_left (bucket_refill b t) h"
    by (simp add: bucket_take_def Let_def millis_left_def)
  then show "bucket_allowance (snd (bucket_take b t)) h \<le> bucket_allowance b h"
    using le unfolding bucket_allowance_def by (intro div_le_mono) simp
qed simp

text \<open>The rate limit holds over any sequence of attempts, times going backwards included: by time
  \<open>h\<close> a fresh bucket has granted at most its capacity and \<open>per_sec\<close> for every second to \<open>h\<close>.\<close>

theorem bucket_bound:
  assumes "\<forall>t \<in> set ts. t \<le> h"
  shows "bucket.grants (bucket_new capacity per_sec) ts \<le> capacity + per_sec * h div 1000"
proof -
  have "bucket.grants (bucket_new capacity per_sec) ts \<le>
      bucket_allowance (bucket_new capacity per_sec) h"
    by (rule bucket.grants_bound) (use assms in auto)
  then show ?thesis by (simp add: bucket_allowance_def millis_left_def bucket_new_def)
qed

theorem bucket_bound_witness:
  "bucket.grants (bucket_new 1 1) [0, 0, 999, 1000, 1500, 400] \<le> 1 + 1 * 1500 div 1000"
  by (rule bucket_bound) simp

section \<open>Refill\<close>

definition bucket_inv :: "token_bucket \<Rightarrow> bool" where
  "bucket_inv b \<longleftrightarrow> tb_tokens b \<le> tb_capacity b \<and> tb_capacity b \<le> U32_MAX \<and>
     tb_per_sec b \<le> U32_MAX \<and> tb_millitokens b < 1000"

lemma bucket_new_inv: "c \<le> U32_MAX \<Longrightarrow> p \<le> U32_MAX \<Longrightarrow> bucket_inv (bucket_new c p)"
  by (simp add: bucket_inv_def bucket_new_def)

lemma refill_inv: "bucket_inv b \<Longrightarrow> bucket_inv (bucket_refill b now)"
proof (cases "tb_capacity b \<le> tb_tokens b")
  case True
  then show "bucket_inv b \<Longrightarrow> bucket_inv (bucket_refill b now)"
    by (simp add: bucket_inv_def bucket_refill_def Let_def)
next
  case False
  define m where "m = wrap64 (tb_millitokens b + min ((now - tb_last_ms b) * tb_per_sec b) U64_MAX)"
  define t where "t = min (tb_capacity b) (min (tb_tokens b + min (m div 1000) U32_MAX) U32_MAX)"
  have "t \<le> tb_capacity b" by (simp only: t_def min.cobounded1)
  moreover have "tb_tokens (bucket_refill b now) = t"
    using False by (simp add: bucket_refill_def Let_def m_def [symmetric] t_def [symmetric])
  moreover have "tb_millitokens (bucket_refill b now) < 1000"
    using False by (simp add: bucket_refill_def Let_def)
  ultimately show "bucket_inv b \<Longrightarrow> bucket_inv (bucket_refill b now)"
    by (simp add: bucket_inv_def)
qed

lemma take_inv: "bucket_inv b \<Longrightarrow> bucket_inv (snd (bucket_take b now))"
  using refill_inv [of b now] by (auto simp: bucket_take_def Let_def bucket_inv_def)

interpretation bucket_state: invariant_machine "\<lambda>b now. snd (bucket_take b now)" bucket_inv "\<lambda>_. True"
  by unfold_locales (rule take_inv)

text \<open>The allowance comes back: however many attempts a limiter has refused, one made a full
  \<open>1000 / per_sec\<close> milliseconds after the last one is granted.\<close>

theorem bucket_refills:
  assumes "bucket_inv b" "0 < tb_capacity b"
    and "1000 \<le> (now - tb_last_ms b) * tb_per_sec b"
    and "(now - tb_last_ms b) * tb_per_sec b + 1000 < 2 ^ 64"
  shows "fst (bucket_take b now)"
proof (cases "tb_capacity b \<le> tb_tokens b")
  case True
  then show ?thesis using assms(2) by (auto simp: bucket_take_def bucket_refill_def Let_def)
next
  case False
  let ?m = "tb_millitokens b + (now - tb_last_ms b) * tb_per_sec b"
  have m: "wrap64 (tb_millitokens b + min ((now - tb_last_ms b) * tb_per_sec b) U64_MAX) = ?m"
    using assms by (simp add: bucket_inv_def)
  have "1000 div 1000 \<le> ?m div 1000" by (rule div_le_mono) (use assms(3) in simp)
  then have "0 < ?m div 1000" by simp
  then have "0 < tb_tokens (bucket_refill b now)"
    using False m assms(2) by (simp add: bucket_refill_def Let_def)
  then show ?thesis by (simp add: bucket_take_def Let_def)
qed

theorem bucket_refills_witness:
  "fst (bucket_take \<lparr>tb_capacity = 4, tb_per_sec = 2, tb_tokens = 0, tb_millitokens = 0,
     tb_last_ms = 7\<rparr> 507)"
  by (rule bucket_refills) (simp_all add: bucket_inv_def)

end
