(* ===== verification/LogTail.thy ===== *)
theory LogTail
  imports Text
begin

text \<open>
  The ring of log lines of \<open>crates/session/src/logtail.rs\<close>, and the process-wide slot it is
  installed in.  The mutex makes every operation atomic; each is one function on the ring.
\<close>

abbreviation (input) LOG_TAIL_LINES :: nat where "LOG_TAIL_LINES \<equiv> 128"

record log_ring =
  lr_lines :: "bytes list"
  lr_dropped :: nat

definition tail_new :: log_ring where
  "tail_new = \<lparr>lr_lines = [], lr_dropped = 0\<rparr>"

definition tail_push :: "log_ring \<Rightarrow> bytes \<Rightarrow> log_ring" where
  "tail_push r line =
     (let r1 = (if LOG_TAIL_LINES \<le> length (lr_lines r)
                then r\<lparr>lr_lines := tl (lr_lines r), lr_dropped := wrap64 (lr_dropped r + 1)\<rparr>
                else r)
      in r1\<lparr>lr_lines := lr_lines r1 @ [fit_server_log_line line]\<rparr>)"

definition tail_take :: "log_ring \<Rightarrow> nat \<Rightarrow> bytes list \<times> log_ring" where
  "tail_take r max_lines =
     (let n = min max_lines (length (lr_lines r))
      in (take n (lr_lines r), r\<lparr>lr_lines := drop n (lr_lines r)\<rparr>))"

definition tail_clear_dropped :: "log_ring \<Rightarrow> log_ring" where
  "tail_clear_dropped r = r\<lparr>lr_dropped := 0\<rparr>"

definition tail_is_empty :: "log_ring \<Rightarrow> bool" where
  "tail_is_empty r \<longleftrightarrow> lr_lines r = []"

text \<open>The first ring installed stays.\<close>

definition tail_install :: "'r option \<Rightarrow> 'r \<Rightarrow> bool \<times> 'r option" where
  "tail_install slot tail = (case slot of None \<Rightarrow> (True, Some tail) | Some t \<Rightarrow> (False, Some t))"

section \<open>The ring is the tail of the log\<close>

lemma tail_push_keeps:
  assumes "length (lr_lines r) \<le> LOG_TAIL_LINES"
    and "lr_lines r = drop (length all - LOG_TAIL_LINES) (map fit_server_log_line all)"
    and "lr_dropped r = length all - LOG_TAIL_LINES" and "length all + 1 < 2 ^ 64"
  shows "length (lr_lines (tail_push r line)) \<le> LOG_TAIL_LINES \<and>
    lr_lines (tail_push r line) =
      drop (length (all @ [line]) - LOG_TAIL_LINES) (map fit_server_log_line (all @ [line])) \<and>
    lr_dropped (tail_push r line) = length (all @ [line]) - LOG_TAIL_LINES"
proof (cases "LOG_TAIL_LINES \<le> length all")
  case True
  then have "length (lr_lines r) = LOG_TAIL_LINES" using assms(2) by simp
  moreover have "tl (lr_lines r) = drop (Suc (length all) - LOG_TAIL_LINES) (map fit_server_log_line all)"
  proof -
    have "Suc (length all) - LOG_TAIL_LINES = Suc (length all - LOG_TAIL_LINES)" using True by simp
    then show ?thesis by (simp only: assms(2) drop_Suc tl_drop)
  qed
  ultimately show ?thesis using True assms(3,4)
    by (simp add: tail_push_def Let_def Suc_diff_le)
next
  case False
  then show ?thesis using assms by (simp add: tail_push_def Let_def)
qed

text \<open>Between two drains the ring holds exactly the last 128 lines of the log, each cut to the wire's
  cap, and counts every line it dropped.\<close>

theorem tail_is_last_lines:
  assumes "length lines < 2 ^ 64"
  shows "lr_lines (foldl tail_push tail_new lines) =
      drop (length lines - LOG_TAIL_LINES) (map fit_server_log_line lines) \<and>
    lr_dropped (foldl tail_push tail_new lines) = length lines - LOG_TAIL_LINES"
proof -
  have "length (lr_lines (foldl tail_push tail_new lines)) \<le> LOG_TAIL_LINES \<and>
    lr_lines (foldl tail_push tail_new lines) =
      drop (length lines - LOG_TAIL_LINES) (map fit_server_log_line lines) \<and>
    lr_dropped (foldl tail_push tail_new lines) = length lines - LOG_TAIL_LINES"
    using assms
  proof (induction lines rule: rev_induct)
    case Nil
    then show ?case by (simp add: tail_new_def)
  next
    case (snoc line lines)
    then show ?case using tail_push_keeps [of "foldl tail_push tail_new lines" lines line] by simp
  qed
  then show ?thesis by blast
qed

theorem tail_is_last_lines_witness:
  "lr_lines (foldl tail_push tail_new [[97], [98]]) = [[97], [98]]"
  using tail_is_last_lines [of "[[97], [98]]"]
  by (simp add: fit_server_log_line_def fit_head_def)

end
