(* ===== verification/Media.thy ===== *)
theory Media
  imports Wire
begin

text \<open>
  Media frames (\<open>crates/protocol/src/media.rs\<close>): one Opus frame and, under loss protection, the
  previous one, hand-packed behind a 14-byte header.  The lemmas are the round trip of every frame
  the encoder can write, the exact lengths, and that the attacker-supplied length prefix never
  reaches past the bytes that arrived.
\<close>

unbundle bit_operations_syntax

datatype frame_duration = Ms2_5 | Ms5 | Ms10 | Ms20

fun duration_samples :: "frame_duration \<Rightarrow> nat" where
  "duration_samples Ms2_5 = 120"
| "duration_samples Ms5 = 240"
| "duration_samples Ms10 = 480"
| "duration_samples Ms20 = 960"

fun duration_micros :: "frame_duration \<Rightarrow> nat" where
  "duration_micros Ms2_5 = 2500"
| "duration_micros Ms5 = 5000"
| "duration_micros Ms10 = 10000"
| "duration_micros Ms20 = 20000"

fun duration_to_bits :: "frame_duration \<Rightarrow> u8" where
  "duration_to_bits Ms2_5 = 0"
| "duration_to_bits Ms5 = 1"
| "duration_to_bits Ms10 = 2"
| "duration_to_bits Ms20 = 3"

definition duration_from_bits :: "u8 \<Rightarrow> frame_duration" where
  "duration_from_bits bits =
     (let b = bits AND 3
      in if b = 0 then Ms2_5 else if b = 1 then Ms5 else if b = 2 then Ms10 else Ms20)"

definition FLAG_STEREO :: u8 where "FLAG_STEREO = push_bit 2 1"
definition FLAG_REDUNDANT :: u8 where "FLAG_REDUNDANT = push_bit 3 1"

abbreviation (input) HEADER_BYTES :: nat where "HEADER_BYTES \<equiv> 14"

record media_frame =
  mf_seq :: u32
  mf_timestamp :: u64
  mf_duration :: frame_duration
  mf_stereo :: bool
  mf_payload :: bytes
  mf_redundant :: "bytes option"

text \<open>The flag byte, as the encoder accumulates it.\<close>

definition media_flags :: "media_frame \<Rightarrow> u8" where
  "media_flags f =
     (let flags = duration_to_bits (mf_duration f);
          flags = (if mf_stereo f then flags OR FLAG_STEREO else flags)
      in if mf_redundant f \<noteq> None then flags OR FLAG_REDUNDANT else flags)"

text \<open>
  \<open>encode\<close> panics (\<open>None\<close>) when a payload that needs a length prefix does not fit a \<open>u16\<close>.
\<close>

definition media_encode :: "media_frame \<Rightarrow> bytes option" where
  "media_encode f =
     (let out = [CHANNEL_MEDIA] @ to_le (mf_seq f) @ to_le (mf_timestamp f) @ [media_flags f]
      in case mf_redundant f of
           Some red \<Rightarrow>
             if length (mf_payload f) < 2 ^ 16
             then Some (out @ to_le (word_of_nat (length (mf_payload f)) :: u16) @ mf_payload f @ red)
             else None
         | None \<Rightarrow> Some (out @ mf_payload f))"

definition media_decode :: "bytes \<Rightarrow> (media_frame, error) result" where
  "media_decode buf =
     (if length buf < HEADER_BYTES \<or> buf ! 0 \<noteq> CHANNEL_MEDIA then Err Malformed
      else
        (let seq = from_le (subslice 1 5 buf);
             timestamp = from_le (subslice 5 13 buf);
             flags = buf ! 13;
             duration = duration_from_bits flags;
             stereo = (flags AND FLAG_STEREO \<noteq> 0);
             body = drop HEADER_BYTES buf
         in if flags AND FLAG_REDUNDANT \<noteq> 0 then
              (if length body < 2 then Err Malformed
               else
                 (let plen = unat (from_le (subslice 0 2 body) :: u16);
                      rest = drop 2 body
                  in if length rest < plen then Err Malformed
                     else Ok \<lparr>mf_seq = seq, mf_timestamp = timestamp, mf_duration = duration,
                       mf_stereo = stereo, mf_payload = take plen rest,
                       mf_redundant = Some (drop plen rest)\<rparr>))
            else Ok \<lparr>mf_seq = seq, mf_timestamp = timestamp, mf_duration = duration,
              mf_stereo = stereo, mf_payload = body, mf_redundant = None\<rparr>))"

section \<open>Flags\<close>

lemma media_flags_read [byte_simps]:
  "duration_from_bits (media_flags f) = mf_duration f"
  "media_flags f AND FLAG_STEREO \<noteq> 0 \<longleftrightarrow> mf_stereo f"
  "media_flags f AND FLAG_REDUNDANT \<noteq> 0 \<longleftrightarrow> mf_redundant f \<noteq> None"
  by (cases "mf_duration f";
      simp add: media_flags_def duration_from_bits_def FLAG_STEREO_def FLAG_REDUNDANT_def)+

lemma duration_bits_roundtrip: "duration_from_bits (duration_to_bits d) = d"
  by (cases d) (simp_all add: duration_from_bits_def)

lemma micros_samples: "duration_samples d * 1000000 = duration_micros d * 48000"
  by (cases d) simp_all

section \<open>Round trip\<close>

definition media_bytes :: "media_frame \<Rightarrow> bytes" where
  "media_bytes f = the (media_encode f)"

definition media_fits :: "media_frame \<Rightarrow> bool" where
  "media_fits f \<longleftrightarrow> mf_redundant f \<noteq> None \<longrightarrow> length (mf_payload f) < 2 ^ 16"

lemma media_encode_Some: "media_encode f = Some (media_bytes f) \<longleftrightarrow> media_fits f"
  by (auto simp: media_bytes_def media_encode_def media_fits_def Let_def split: option.splits)

lemma header_reads:
  fixes s :: u32 and t :: u64 and fl :: u8 and body :: bytes
  defines "b \<equiv> [0] @ to_le s @ to_le t @ [fl] @ body"
  shows "length b = 14 + length body" "b ! 0 = 0" "from_le (subslice 1 5 b) = s"
    "from_le (subslice 5 13 b) = t" "b ! 13 = fl" "drop 14 b = body"
proof -
  have l: "length (to_le s) = 4" "length (to_le t) = 8" by simp_all
  show "length b = 14 + length body" "b ! 0 = 0" by (simp_all add: b_def)
  show "from_le (subslice 1 5 b) = s" "drop 14 b = body" by (simp_all add: b_def subslice_def)
  have "subslice 5 13 b = to_le t" by (simp add: b_def subslice_def)
  then show "from_le (subslice 5 13 b) = t" by simp
  show "b ! 13 = fl" by (simp add: b_def nth_append)
qed

lemma media_decode_encode:
  assumes "media_fits f"
  shows "media_decode (media_bytes f) = Ok f"
proof (cases "mf_redundant f")
  case None
  let ?b = "[0] @ to_le (mf_seq f) @ to_le (mf_timestamp f) @ [media_flags f] @ mf_payload f"
  have "media_bytes f = ?b"
    by (simp add: media_bytes_def media_encode_def None)
  then show ?thesis
    using header_reads [of "mf_seq f" "mf_timestamp f" "media_flags f" "mf_payload f"] None
    by (simp add: media_decode_def media_flags_read Let_def)
next
  case (Some red)
  let ?n = "word_of_nat (length (mf_payload f)) :: u16"
  let ?body = "to_le ?n @ mf_payload f @ red"
  let ?b = "[0] @ to_le (mf_seq f) @ to_le (mf_timestamp f) @ [media_flags f] @ ?body"
  have "media_bytes f = ?b" and n: "unat ?n = length (mf_payload f)"
    using assms by (simp_all add: media_bytes_def media_encode_def media_fits_def Some unat_of_nat)
  moreover have "from_le (subslice 0 2 ?body) = ?n" "drop 2 ?body = mf_payload f @ red"
    by (simp_all add: subslice_def)
  ultimately show ?thesis
    using header_reads [of "mf_seq f" "mf_timestamp f" "media_flags f" ?body] Some n
    by (simp add: media_decode_def media_flags_read Let_def)
qed

interpretation media: byte_codec media_bytes media_decode media_fits
  by unfold_locales (rule media_decode_encode)

text \<open>Every media frame whose redundant form has a payload length that fits the prefix encodes
  without panicking, and decodes to itself, flags, sequence number, timestamp and both payloads
  included.\<close>

theorem media_roundtrip:
  assumes "mf_redundant f \<noteq> None \<longrightarrow> length (mf_payload f) < 2 ^ 16"
  shows "\<exists>b. media_encode f = Some b \<and> media_decode b = Ok f \<and>
    length b = HEADER_BYTES + length (mf_payload f) +
      (case mf_redundant f of None \<Rightarrow> 0 | Some red \<Rightarrow> 2 + length red)"
proof (intro exI conjI)
  show "media_encode f = Some (media_bytes f)"
    using assms by (simp add: media_encode_Some media_fits_def)
  show "media_decode (media_bytes f) = Ok f"
    using assms by (intro media.dec_enc) (simp add: media_fits_def)
  show "length (media_bytes f) = HEADER_BYTES + length (mf_payload f) +
      (case mf_redundant f of None \<Rightarrow> 0 | Some red \<Rightarrow> 2 + length red)"
    using assms by (auto simp: media_bytes_def media_encode_def split: option.splits)
qed

theorem media_roundtrip_witness:
  "\<exists>b. media_encode \<lparr>mf_seq = 7, mf_timestamp = 9, mf_duration = Ms5, mf_stereo = True,
      mf_payload = [1, 2], mf_redundant = Some [3]\<rparr> = Some b \<and> length b = 19"
  using media_roundtrip [of "\<lparr>mf_seq = 7, mf_timestamp = 9, mf_duration = Ms5, mf_stereo = True,
      mf_payload = [1, 2], mf_redundant = Some [3]\<rparr>"] by auto

section \<open>Decoding never reads past the packet\<close>

text \<open>Whatever arrives, a frame that decodes holds only bytes of the datagram: header, payload
  and redundant copy are consecutive and account for every byte, so a length prefix claiming more
  than arrived is refused.\<close>

theorem media_decode_bounded:
  assumes "media_decode buf = Ok f"
  shows "HEADER_BYTES \<le> length buf \<and>
    (case mf_redundant f of
       None \<Rightarrow> drop HEADER_BYTES buf = mf_payload f
     | Some red \<Rightarrow> drop (HEADER_BYTES + 2) buf = mf_payload f @ red \<and>
         length buf = HEADER_BYTES + 2 + length (mf_payload f) + length red)"
  using assms append_take_drop_id [of "unat (from_le (subslice 0 2 (drop 14 buf)) :: u16)" "drop 16 buf"]
  by (auto simp: media_decode_def Let_def split: if_splits)

theorem media_decode_bounded_witness:
  "media_decode ([0, 0, 0, 0, 0, 0, 0, 0, 0, 0, 0, 0, 0, 0, 5, 6]) = Ok \<lparr>mf_seq = 0, mf_timestamp = 0, mf_duration = Ms2_5,
      mf_stereo = False, mf_payload = [5, 6], mf_redundant = None\<rparr> \<and>
   drop HEADER_BYTES ([0, 0, 0, 0, 0, 0, 0, 0, 0, 0, 0, 0, 0, 0, 5, 6 :: u8]) = [5, 6]"
proof -
  let ?f = "\<lparr>mf_seq = 0, mf_timestamp = 0, mf_duration = Ms2_5, mf_stereo = False,
      mf_payload = [5, 6], mf_redundant = None\<rparr>"
  have "media_fits ?f" by (simp add: media_fits_def)
  moreover have "media_bytes ?f = [0, 0, 0, 0, 0, 0, 0, 0, 0, 0, 0, 0, 0, 0, 5, 6]"
    by (simp add: media_bytes_def media_encode_def media_flags_def to_le_def)
  ultimately have d: "media_decode ([0, 0, 0, 0, 0, 0, 0, 0, 0, 0, 0, 0, 0, 0, 5, 6]) = Ok ?f"
    by (metis media.dec_enc)
  then show ?thesis using media_decode_bounded [OF d] by simp
qed

end
