(* ===== verification/Audio.thy ===== *)
theory Audio
  imports Control Media Floats
begin

text \<open>
  The audio engine behind the mix tick: the fader mixer (\<open>crates/engine/src/mixer.rs\<close>), the
  lookahead limiter (\<open>limiter.rs\<close>), the metronome (\<open>metronome.rs\<close>) and the Opus wrappers
  (\<open>codec.rs\<close>).

  A sample is an \<open>f32\<close> as its bit pattern.  Comparison, \<open>max\<close>, \<open>clamp\<close>, \<open>abs\<close> and \<open>is_finite\<close>
  are defined on the patterns.  The arithmetic of the target and its maths library (whose
  precision the language leaves open) are fields of the \<open>fp\<close> argument; the Opus library is the
  \<open>opus\<close> argument, its encoders and decoders an opaque type.
\<close>

section \<open>Single-precision patterns\<close>

record fp =
  fp_add :: "f32 \<Rightarrow> f32 \<Rightarrow> f32"
  fp_sub :: "f32 \<Rightarrow> f32 \<Rightarrow> f32"
  fp_mul :: "f32 \<Rightarrow> f32 \<Rightarrow> f32"
  fp_div :: "f32 \<Rightarrow> f32 \<Rightarrow> f32"
  fp_sqrt :: "f32 \<Rightarrow> f32"
  fp_sin :: "f32 \<Rightarrow> f32"
  fp_cos :: "f32 \<Rightarrow> f32"
  fp_exp :: "f32 \<Rightarrow> f32"
  fp_powf :: "f32 \<Rightarrow> f32 \<Rightarrow> f32"

definition f32_abs :: "f32 \<Rightarrow> f32" where
  "f32_abs x = take_bit 31 x"

definition f32_neg :: "f32 \<Rightarrow> f32" where
  "f32_neg x = x XOR 0x80000000"

definition f32_is_nan :: "f32 \<Rightarrow> bool" where
  "f32_is_nan x \<longleftrightarrow> 0x7F800000 < f32_abs x"

definition f32_is_finite :: "f32 \<Rightarrow> bool" where
  "f32_is_finite x \<longleftrightarrow> f32_abs x < 0x7F800000"

text \<open>Sign and magnitude: the order of the patterns that are numbers, both zeros equal.\<close>

definition f32_rank :: "f32 \<Rightarrow> int" where
  "f32_rank x = (if bit x 31 then - uint (f32_abs x) else uint (f32_abs x))"

definition f32_less :: "f32 \<Rightarrow> f32 \<Rightarrow> bool" where
  "f32_less x y \<longleftrightarrow> \<not> f32_is_nan x \<and> \<not> f32_is_nan y \<and> f32_rank x < f32_rank y"

definition f32_max :: "f32 \<Rightarrow> f32 \<Rightarrow> f32" where
  "f32_max x y =
     (if f32_is_nan x then y else if f32_is_nan y then x else if f32_less x y then y else x)"

definition f32_clamp :: "f32 \<Rightarrow> f32 \<Rightarrow> f32 \<Rightarrow> f32" where
  "f32_clamp x lo hi =
     (let y = (if f32_less x lo then lo else x) in if f32_less hi y then hi else y)"

text \<open>The pattern of a non-negative value that single precision holds; an integer cast.\<close>

definition f32_bits :: "rat \<Rightarrow> f32" where
  "f32_bits q =
     (if q \<le> 0 then 0
      else if q < two_pow (- 126) then word_of_int \<lfloor>q / two_pow (- 149)\<rfloor>
      else word_of_int ((exponent q + 127) * 2 ^ 23 + (\<lfloor>q / two_pow (exponent q - 23)\<rfloor> - 2 ^ 23)))"

definition f32_of_nat :: "nat \<Rightarrow> f32" where
  "f32_of_nat n = f32_bits (f32 (of_nat n))"

abbreviation (input) F32_ONE :: f32 where "F32_ONE \<equiv> 0x3F800000"
abbreviation (input) F32_MINUS_ONE :: f32 where "F32_MINUS_ONE \<equiv> 0xBF800000"

section \<open>The mixer\<close>

record fader =
  fd_gain_db :: f32
  fd_pan :: f32
  fd_muted :: bool

definition fader_default :: fader where
  "fader_default = \<lparr>fd_gain_db = 0, fd_pan = 0, fd_muted = False\<rparr>"

text \<open>\<open>10 ** (db / 20)\<close>.\<close>

definition db_to_lin :: "fp \<Rightarrow> f32 \<Rightarrow> f32" where
  "db_to_lin fp db = fp_powf fp 0x41200000 (fp_div fp db 0x41A00000)"

fun mix_pairs :: "fp \<Rightarrow> f32 \<Rightarrow> f32 \<Rightarrow> f32 list \<Rightarrow> f32 list \<Rightarrow> f32 list" where
  "mix_pairs fp left right (a # b # bus) (x # y # src) =
     fp_add fp a (fp_mul fp x left) # fp_add fp b (fp_mul fp y right) # mix_pairs fp left right bus src"
| "mix_pairs fp left right bus src = bus"

definition mix_source ::
  "fp \<Rightarrow> (member_id \<Rightarrow> fader) \<Rightarrow> member_id option \<Rightarrow> f32 list \<Rightarrow> member_id \<times> f32 list \<Rightarrow> f32 list" where
  "mix_source fp faders exclude bus ms =
     (let (member, source) = ms in
      if exclude = Some member then bus
      else
        (let fader = faders member in
         if fd_muted fader then bus
         else
           (let gain = db_to_lin fp (fd_gain_db fader);
                angle = fp_mul fp (fp_add fp (f32_clamp (fd_pan fader) F32_MINUS_ONE F32_ONE) F32_ONE)
                          0x3F490FDB;
                left = fp_mul fp (fp_cos fp angle) gain;
                right = fp_mul fp (fp_sin fp angle) gain
            in mix_pairs fp left right bus source)))"

text \<open>The bus of \<open>n\<close> samples; the code asserts that \<open>n\<close> is even and every source \<open>n\<close> long.\<close>

definition mix_into ::
  "fp \<Rightarrow> (member_id \<times> f32 list) list \<Rightarrow> (member_id \<Rightarrow> fader) \<Rightarrow> member_id option \<Rightarrow> nat \<Rightarrow> f32 list" where
  "mix_into fp sources faders exclude n =
     foldl (mix_source fp faders exclude) (replicate n 0) sources"

section \<open>The limiter\<close>

record limiter =
  lm_ceiling :: f32
  lm_release :: f32
  lm_gain :: f32
  lm_delay :: "f32 list"
  lm_peaks :: "f32 list"
  lm_pos :: nat

text \<open>The release time constant is \<open>0.050 * 48000\<close>, which is \<open>2400.0\<close> in single precision.\<close>

definition limiter_new :: "fp \<Rightarrow> f32 \<Rightarrow> nat \<Rightarrow> limiter" where
  "limiter_new fp ceiling_db lookahead =
     \<lparr>lm_ceiling = db_to_lin fp ceiling_db,
      lm_release = fp_sub fp F32_ONE (fp_exp fp (fp_div fp F32_MINUS_ONE 0x45160000)),
      lm_gain = F32_ONE, lm_delay = replicate (lookahead * 2) 0, lm_peaks = replicate lookahead 0,
      lm_pos = 0\<rparr>"

definition limiter_latency :: "limiter \<Rightarrow> nat" where
  "limiter_latency l = length (lm_peaks l)"

definition f32_sanitize :: "f32 \<Rightarrow> f32" where
  "f32_sanitize x = (if f32_is_finite x then x else 0)"

definition limiter_pair :: "fp \<Rightarrow> limiter \<Rightarrow> f32 \<times> f32 \<Rightarrow> (f32 \<times> f32) \<times> limiter" where
  "limiter_pair fp lm pair =
     (let l = f32_sanitize (fst pair); r = f32_sanitize (snd pair);
          peak_new = f32_max (f32_abs l) (f32_abs r);
          window_peak = foldl f32_max peak_new (lm_peaks lm);
          target = (if f32_less (lm_ceiling lm) window_peak
                    then fp_div fp (lm_ceiling lm) window_peak else F32_ONE);
          gain = (if f32_less target (lm_gain lm) then target
                  else fp_add fp (lm_gain lm) (fp_mul fp (fp_sub fp target (lm_gain lm)) (lm_release lm)));
          slot = lm_pos lm;
          ((out_l, out_r), lm1) =
            (if lm_peaks lm = [] then ((l, r), lm)
             else ((lm_delay lm ! (2 * slot), lm_delay lm ! (2 * slot + 1)),
                   lm\<lparr>lm_delay := (lm_delay lm)[2 * slot := l, 2 * slot + 1 := r],
                      lm_peaks := (lm_peaks lm)[slot := peak_new],
                      lm_pos := (slot + 1) mod length (lm_peaks lm)\<rparr>));
          clamp = (\<lambda>x. f32_clamp (fp_mul fp x gain) (f32_neg (lm_ceiling lm)) (lm_ceiling lm))
      in ((clamp out_l, clamp out_r), lm1\<lparr>lm_gain := gain\<rparr>))"

fun limiter_process :: "fp \<Rightarrow> limiter \<Rightarrow> f32 list \<Rightarrow> f32 list \<times> limiter" where
  "limiter_process fp lm (a # b # buf) =
     (let ((a', b'), lm1) = limiter_pair fp lm (a, b);
          (rest, lm2) = limiter_process fp lm1 buf
      in (a' # b' # rest, lm2))"
| "limiter_process fp lm buf = (buf, lm)"

section \<open>The metronome\<close>

record metronome =
  mt_bpm :: u16
  mt_beats_per_bar :: u8

definition click_sample :: "fp \<Rightarrow> metronome \<Rightarrow> nat \<Rightarrow> f32" where
  "click_sample fp mt sample =
     (let bpm = unat (mt_bpm mt);
          beat = sample * bpm div 2880000;
          beat_start = (beat * 2880000 + (bpm - 1)) div bpm;
          offset = sample - beat_start
      in if 192 \<le> offset then 0
         else
           (let accented = (beat mod max 1 (unat (mt_beats_per_bar mt)) = 0);
                freq = (if accented then 0x44BB8000 else 0x447A0000);
                t = f32_of_nat offset
            in fp_mul fp
                 (fp_sin fp (fp_div fp (fp_mul fp (fp_mul fp 0x40C90FDB freq) t) 0x473B8000))
                 (fp_exp fp (fp_div fp (f32_neg t) 0x42400000))))"

definition metronome_render :: "fp \<Rightarrow> metronome \<Rightarrow> nat \<Rightarrow> f32 list \<Rightarrow> f32 \<Rightarrow> f32 list" where
  "metronome_render fp mt sample_clock out gain =
     (if mt_bpm mt = 0 then out
      else map (\<lambda>(i, slot). fp_add fp slot (fp_mul fp (click_sample fp mt (wrap64 (sample_clock + i))) gain))
             (enumerate 0 out))"

section \<open>The codec\<close>

datatype channels = Mono | Stereo

definition channel_count :: "channels \<Rightarrow> nat" where
  "channel_count ch = (case ch of Mono \<Rightarrow> 1 | Stereo \<Rightarrow> 2)"

text \<open>
  The library: constructors and setters may fail; an encoder yields a packet; a decoder writes the
  samples of its output slice (a function of the index) and says how many per channel it decoded.
\<close>

record 'op opus =
  opus_encoder_new :: "channels \<Rightarrow> bool \<Rightarrow> 'op option"  \<comment> \<open>low delay\<close>
  opus_set_bitrate :: "'op \<Rightarrow> u32 \<Rightarrow> 'op option"
  opus_set_inband_fec :: "'op \<Rightarrow> 'op option"
  opus_set_packet_loss :: "'op \<Rightarrow> nat \<Rightarrow> 'op option"
  opus_encode :: "'op \<Rightarrow> f32 list \<Rightarrow> bytes option \<times> 'op"
  opus_decoder_new :: "channels \<Rightarrow> 'op option"
  opus_decode :: "'op \<Rightarrow> bytes \<Rightarrow> nat \<Rightarrow> bool \<Rightarrow> ((nat \<Rightarrow> f32) \<times> nat) option \<times> 'op"

datatype codec_error = OpusError | BadPcmLength nat nat | FrameMismatch nat nat

record 'op encoder =
  en_inner :: 'op
  en_pcm_len :: nat

record 'op decoder =
  de_inner :: 'op
  de_pcm_len :: nat
  de_frame_samples :: nat

definition encoder_new ::
  "'op opus \<Rightarrow> channels \<Rightarrow> frame_duration \<Rightarrow> u32 \<Rightarrow> ('op encoder, codec_error) result" where
  "encoder_new lib ch dur bitrate =
     (let low_delay = (case dur of Ms2_5 \<Rightarrow> True | Ms5 \<Rightarrow> True | Ms10 \<Rightarrow> False | Ms20 \<Rightarrow> False);
          pcm_len = duration_samples dur * channel_count ch
      in case opus_encoder_new lib ch low_delay of
           None \<Rightarrow> Err OpusError
         | Some e1 \<Rightarrow>
             (case opus_set_bitrate lib e1 bitrate of
                None \<Rightarrow> Err OpusError
              | Some e2 \<Rightarrow>
                  if dur = Ms10 \<or> dur = Ms20 then
                    (case opus_set_inband_fec lib e2 of
                       None \<Rightarrow> Err OpusError
                     | Some e3 \<Rightarrow>
                         (case opus_set_packet_loss lib e3 10 of
                            None \<Rightarrow> Err OpusError
                          | Some e4 \<Rightarrow> Ok \<lparr>en_inner = e4, en_pcm_len = pcm_len\<rparr>))
                  else Ok \<lparr>en_inner = e2, en_pcm_len = pcm_len\<rparr>))"

definition encoder_encode ::
  "'op opus \<Rightarrow> 'op encoder \<Rightarrow> f32 list \<Rightarrow> (bytes, codec_error) result \<times> 'op encoder" where
  "encoder_encode lib e pcm =
     (if length pcm \<noteq> en_pcm_len e then (Err (BadPcmLength (length pcm) (en_pcm_len e)), e)
      else
        (let (r, inner) = opus_encode lib (en_inner e) pcm;
             e' = e\<lparr>en_inner := inner\<rparr>
         in case r of None \<Rightarrow> (Err OpusError, e') | Some out \<Rightarrow> (Ok out, e')))"

definition decoder_new ::
  "'op opus \<Rightarrow> channels \<Rightarrow> frame_duration \<Rightarrow> ('op decoder, codec_error) result" where
  "decoder_new lib ch dur =
     (case opus_decoder_new lib ch of
        None \<Rightarrow> Err OpusError
      | Some d \<Rightarrow> Ok \<lparr>de_inner = d, de_pcm_len = duration_samples dur * channel_count ch,
                       de_frame_samples = duration_samples dur\<rparr>)"

text \<open>The output slice is \<open>n\<close> samples long; on success its new contents.\<close>

definition decoder_decode ::
  "'op opus \<Rightarrow> 'op decoder \<Rightarrow> bytes option \<Rightarrow> nat \<Rightarrow> bool \<Rightarrow>
     (f32 list, codec_error) result \<times> 'op decoder" where
  "decoder_decode lib d payload n fec =
     (if n \<noteq> de_pcm_len d then (Err (BadPcmLength n (de_pcm_len d)), d)
      else
        (let input = (case payload of None \<Rightarrow> [] | Some p \<Rightarrow> p);
             (r, inner) = opus_decode lib (de_inner d) input n (fec \<and> payload \<noteq> None);
             d' = d\<lparr>de_inner := inner\<rparr>
         in case r of
              None \<Rightarrow> (Err OpusError, d')
            | Some (samples, decoded) \<Rightarrow>
                if decoded \<noteq> de_frame_samples d'
                then (Err (FrameMismatch decoded (de_frame_samples d')), d')
                else (Ok (map samples [0..<n]), d')))"

end
