(* ===== verification/ServerState.thy ===== *)
theory ServerState
  imports Transport Avatar Jitter RateLimits LogTail Link Audio
begin

text \<open>
  The state of the session core of \<open>crates/session/src/server.rs\<close>: its configuration, its members
  and the fields of \<open>ServerCore\<close>, with the operations that touch one member or fan a message out
  to all.

  Milliseconds, clocks and counters are natural numbers; additions that can leave the width of the
  field are written with \<open>wrap64\<close>.  The scratch buffers \<open>mix_buf\<close>, \<open>pkt_buf\<close> and \<open>bcast_pkt\<close>,
  which every use overwrites before reading, are local values.  The log ring is shared with the
  process's logger; a step here sees it as the core does, under its lock.

  The environment holds what is not part of the repository: the cryptographic crates, the
  serialisers, Opus and the arithmetic of the target.
\<close>

section \<open>Constants\<close>

abbreviation (input) TICK_SAMPLES :: nat where "TICK_SAMPLES \<equiv> 120"
abbreviation (input) MIX_LEN :: nat where "MIX_LEN \<equiv> 240"
abbreviation (input) BCAST_TICKS :: nat where "BCAST_TICKS \<equiv> 8"
abbreviation (input) BCAST_LEN :: nat where "BCAST_LEN \<equiv> 1920"
abbreviation (input) PERSONAL_MIX_BITRATE :: u32 where "PERSONAL_MIX_BITRATE \<equiv> 192000"
abbreviation (input) BROADCAST_BITRATE :: u32 where "BROADCAST_BITRATE \<equiv> 128000"
abbreviation (input) CLICK_GAIN :: f32 where "CLICK_GAIN \<equiv> 0x3F333333"  \<comment> \<open>0.7\<close>
abbreviation (input) REJECT_INTERVAL_MS :: nat where "REJECT_INTERVAL_MS \<equiv> 1000"
abbreviation (input) REJECT_SLOTS :: nat where "REJECT_SLOTS \<equiv> 256"
abbreviation (input) REJECT_RATE_PER_SEC :: nat where "REJECT_RATE_PER_SEC \<equiv> 16"
abbreviation (input) REJECT_BURST :: nat where "REJECT_BURST \<equiv> 16"
abbreviation (input) INIT_RATE_PER_SEC :: nat where "INIT_RATE_PER_SEC \<equiv> 32"
abbreviation (input) INIT_BURST :: nat where "INIT_BURST \<equiv> 64"
abbreviation (input) INIT_SLOT_RATE_PER_SEC :: nat where "INIT_SLOT_RATE_PER_SEC \<equiv> 8"
abbreviation (input) INIT_SLOT_BURST :: nat where "INIT_SLOT_BURST \<equiv> 24"
abbreviation (input) COOKIE_ROTATION_MS :: nat where "COOKIE_ROTATION_MS \<equiv> 120000"
abbreviation (input) COOKIE_TRIGGER_RATE_PER_SEC :: nat where "COOKIE_TRIGGER_RATE_PER_SEC \<equiv> 24"
abbreviation (input) COOKIE_TRIGGER_BURST :: nat where "COOKIE_TRIGGER_BURST \<equiv> 48"
abbreviation (input) CHALLENGE_RATE_PER_SEC :: nat where "CHALLENGE_RATE_PER_SEC \<equiv> 16384"
abbreviation (input) REJECT_MIN_INIT_BYTES :: nat where "REJECT_MIN_INIT_BYTES \<equiv> 48"
abbreviation (input) CHALLENGE_MIN_INIT_BYTES :: nat where "CHALLENGE_MIN_INIT_BYTES \<equiv> 64"
abbreviation (input) AVATAR_FEED_HIGH_WATER :: nat where "AVATAR_FEED_HIGH_WATER \<equiv> 64"
abbreviation (input) STATS_INTERVAL_MS :: nat where "STATS_INTERVAL_MS \<equiv> 1000"
abbreviation (input) STREAM_STATUS_INTERVAL_MS :: nat where "STREAM_STATUS_INTERVAL_MS \<equiv> 1000"
abbreviation (input) BCAST_LEVEL_DECAY :: f32 where "BCAST_LEVEL_DECAY \<equiv> 0x3F7D70A4"  \<comment> \<open>0.99\<close>
abbreviation (input) RESP_CACHE_MS :: nat where "RESP_CACHE_MS \<equiv> 5000"
abbreviation (input) REJOIN_SILENCE_MS :: nat where "REJOIN_SILENCE_MS \<equiv> 2000"
abbreviation (input) AVATAR_CACHE_BYTES :: nat where "AVATAR_CACHE_BYTES \<equiv> 16777216"
abbreviation (input) LIMITER_CEILING_DB :: f32 where "LIMITER_CEILING_DB \<equiv> F32_MINUS_ONE"
abbreviation (input) LIMITER_LOOKAHEAD_SAMPLES :: nat where "LIMITER_LOOKAHEAD_SAMPLES \<equiv> 48"

definition SLOT_KEY_DOMAIN :: bytes where
  "SLOT_KEY_DOMAIN = str ''jamstream-limiter-slot-v1''"

section \<open>State\<close>

record ('hs, 'ts, 'op) env =
  e_crypto :: "('hs, 'ts) crypto"
  e_serde :: serde
  e_pc_enc :: "ctl_packet \<Rightarrow> bytes"
  e_pc_dec :: "bytes \<Rightarrow> (ctl_packet \<times> bytes) option"
  e_opus :: "'op opus"
  e_fp :: fp

type_synonym outgoing = "(sock_addr \<times> bytes) list"

record server_config =
  cf_session_id :: session_id
  cf_server_private :: bytes
  cf_server_public :: bytes
  cf_issuer_pk :: bytes
  cf_max_musicians :: nat
  cf_max_listeners :: nat
  cf_member_timeout_ms :: nat

definition config_new :: "session_id \<Rightarrow> bytes \<Rightarrow> bytes \<Rightarrow> bytes \<Rightarrow> server_config" where
  "config_new session server_private server_public issuer_pk =
     \<lparr>cf_session_id = session, cf_server_private = server_private,
      cf_server_public = server_public, cf_issuer_pk = issuer_pk,
      cf_max_musicians = MAX_MUSICIANS, cf_max_listeners = MAX_LISTENERS,
      cf_member_timeout_ms = DEFAULT_MEMBER_TIMEOUT_MS\<rparr>"

definition with_capacity :: "server_config \<Rightarrow> nat \<Rightarrow> nat \<Rightarrow> server_config" where
  "with_capacity c musicians listeners = c\<lparr>cf_max_musicians := musicians, cf_max_listeners := listeners\<rparr>"

definition with_member_timeout_ms :: "server_config \<Rightarrow> nat \<Rightarrow> server_config" where
  "with_member_timeout_ms c t = c\<lparr>cf_member_timeout_ms := t\<rparr>"

datatype server_event =
    MusicianCountChanged nat
  | MemberJoined member_id bytes
  | MemberDisconnected member_id
  | MemberRevoked member_id
  | ProtocolViolation member_id string
  | MemberEjected member_id nat
  | TokenRevoked token_id
  | StreamCtlEvent stream_op
  | RecordCtlEvent record_op

record resp_cache =
  rc_init_hash :: bytes
  rc_resp :: bytes
  rc_at_ms :: nat

definition stats_default :: jitter_stats where
  "stats_default = \<lparr>js_depth_frames = 0, js_target_frames = 0, js_jitter_frames_ewma = 0, js_lost = 0,
     js_recovered = 0, js_late = 0, js_resurrected = 0, js_pulled = 0, js_waiting = 0,
     js_reanchors = 0\<rparr>"

record ('ts, 'op) member =
  mb_role :: role
  mb_name :: bytes
  mb_jti :: token_id
  mb_addr :: "sock_addr option"
  mb_session :: "'ts session option"
  mb_resp_cache :: "resp_cache option"
  mb_link :: control_link
  mb_jitter :: jitter_buffer
  mb_decoder :: "'op decoder option"
  mb_encoder :: "'op encoder option"
  mb_faders :: "(member_id, fader) bmap"
  mb_click_enabled :: bool
  mb_hear_self :: bool
  mb_opens_refused :: nat
  mb_connected :: bool
  mb_last_heard_ms :: nat
  mb_quiet :: bool
  mb_rtt_ms_last :: "f32 option"
  mb_send_seq :: u32
  mb_violations :: nat
  mb_violation_budget :: token_bucket
  mb_fanout_budget :: token_bucket
  mb_stats_prev :: jitter_stats
  mb_level_peak :: f32
  mb_level_rms :: f32
  mb_avatar :: "(hash32 \<times> u32) option"
  mb_avatar_rx :: "avatar_rx option"
  mb_avatar_tx :: "avatar_tx list"

record ('ts, 'op) server_core =
  sv_cfg :: server_config
  sv_members :: "(member_id, ('ts, 'op) member) bmap"
  sv_revoked :: "token_id set"
  sv_metronome :: metronome
  sv_metronome_enabled :: bool
  sv_sample_clock :: nat
  sv_tick_count :: nat
  sv_limiter :: limiter
  sv_decoded :: "(member_id \<times> f32 list) list"
  sv_bcast_accum :: "f32 list"
  sv_bcast_encoder :: "'op encoder option"
  sv_bcast_clock :: nat
  sv_bcast_encodes :: nat
  sv_bcast_slot :: nat
  sv_bcast_tap :: bool
  sv_bcast_faders :: "(member_id, fader) bmap"
  sv_audition :: bool
  sv_avatar_cache :: avatar_cache
  sv_avatar_waiters :: "(hash32, member_id list) bmap"
  sv_reject_seen :: "nat option list"
  sv_reject_budget :: token_bucket
  sv_slot_hasher :: bytes
  sv_init_slot_budget :: "token_bucket list"
  sv_init_budget :: token_bucket
  sv_init_reads :: nat
  sv_cookie_trigger :: token_bucket
  sv_challenge_budget :: token_bucket
  sv_cookie_reply_key :: cookie_reply_key
  sv_challenges :: nat
  sv_events :: "server_event list"
  sv_last_musician_count :: nat
  sv_last_stats_ms :: nat
  sv_stream_status :: "destination_status list"
  sv_last_stream_status_ms :: nat
  sv_broadcast_ready :: "broadcast_readiness option"
  sv_record_status :: recording_state
  sv_record_stems :: bool
  sv_roster_epoch :: nat
  sv_roster_dirty :: bool
  sv_log_tail :: "log_ring option"
  sv_log_budget :: token_bucket

end
