(* ===== verification/ServerOps.thy ===== *)
theory ServerOps
  imports ServerState
begin

text \<open>
  The operations of \<open>ServerCore\<close> (\<open>crates/session/src/server.rs\<close>) that every handler shares:
  construction, fan-out, the roster, violations and ejection, teardown, farewell, the flush of one
  member's link, the server log, and the setters the driver calls.

  An operation that sends appends to an output buffer in the code; here it returns the datagrams it
  appended.
\<close>

section \<open>Construction\<close>

definition slot_hasher :: "('hs, 'ts) crypto \<Rightarrow> bytes \<Rightarrow> bytes" where
  "slot_hasher c server_private = blake2s256 c (SLOT_KEY_DOMAIN @ server_private)"

definition cookie_epoch :: "nat \<Rightarrow> u64" where
  "cookie_epoch now = of_nat (now div COOKIE_ROTATION_MS)"

definition server_new ::
  "('hs, 'ts, 'op) env \<Rightarrow> log_ring option \<Rightarrow> server_config \<Rightarrow> ('ts, 'op) server_core" where
  "server_new env installed cfg =
     \<lparr>sv_cfg = cfg, sv_members = bm_empty, sv_revoked = {},
      sv_metronome = \<lparr>mt_bpm = 120, mt_beats_per_bar = 4\<rparr>, sv_metronome_enabled = False,
      sv_sample_clock = 0, sv_tick_count = 0,
      sv_limiter = limiter_new (e_fp env) LIMITER_CEILING_DB LIMITER_LOOKAHEAD_SAMPLES,
      sv_decoded = [], sv_bcast_accum = replicate BCAST_LEN 0, sv_bcast_encoder = None,
      sv_bcast_clock = 0, sv_bcast_encodes = 0, sv_bcast_slot = 0, sv_bcast_tap = False,
      sv_bcast_faders = bm_empty, sv_audition = False,
      sv_avatar_cache = cache_new AVATAR_CACHE_BYTES, sv_avatar_waiters = bm_empty,
      sv_reject_seen = replicate REJECT_SLOTS None,
      sv_reject_budget = bucket_new REJECT_BURST REJECT_RATE_PER_SEC,
      sv_slot_hasher = slot_hasher (e_crypto env) (cf_server_private cfg),
      sv_init_slot_budget = replicate REJECT_SLOTS (bucket_new INIT_SLOT_BURST INIT_SLOT_RATE_PER_SEC),
      sv_init_budget = bucket_new INIT_BURST INIT_RATE_PER_SEC, sv_init_reads = 0,
      sv_cookie_trigger = bucket_new COOKIE_TRIGGER_BURST COOKIE_TRIGGER_RATE_PER_SEC,
      sv_challenge_budget = bucket_new CHALLENGE_RATE_PER_SEC CHALLENGE_RATE_PER_SEC,
      sv_cookie_reply_key = cookie_reply_key (e_crypto env) (cf_server_public cfg),
      sv_challenges = 0, sv_events = [], sv_last_musician_count = 0, sv_last_stats_ms = 0,
      sv_stream_status = [], sv_last_stream_status_ms = 0, sv_broadcast_ready = None,
      sv_record_status = RecIdle, sv_record_stems = False, sv_roster_epoch = 0,
      sv_roster_dirty = False, sv_log_tail = installed,
      sv_log_budget = bucket_new SERVER_LOG_BURST SERVER_LOG_PER_SEC\<rparr>"

section \<open>Members and fan-out\<close>

definition get_member :: "('ts, 'op) server_core \<Rightarrow> member_id \<Rightarrow> ('ts, 'op) member option" where
  "get_member s who = bm_get (sv_members s) who"

definition upd_member ::
  "member_id \<Rightarrow> (('ts, 'op) member \<Rightarrow> ('ts, 'op) member) \<Rightarrow> ('ts, 'op) server_core \<Rightarrow>
     ('ts, 'op) server_core" where
  "upd_member who f s = s\<lparr>sv_members := bm_update who f (sv_members s)\<rparr>"

definition push_event :: "server_event \<Rightarrow> ('ts, 'op) server_core \<Rightarrow> ('ts, 'op) server_core" where
  "push_event e s = s\<lparr>sv_events := sv_events s @ [e]\<rparr>"

text \<open>\<open>let _ = m.link.send(msg)\<close>: a refused message is dropped.\<close>

definition member_send :: "control_msg \<Rightarrow> ('ts, 'op) member \<Rightarrow> ('ts, 'op) member" where
  "member_send msg m = m\<lparr>mb_link := snd (link_send (mb_link m) msg)\<rparr>"

definition fan_out :: "control_msg \<Rightarrow> ('ts, 'op) server_core \<Rightarrow> ('ts, 'op) server_core" where
  "fan_out msg s =
     s\<lparr>sv_members := bm_map (\<lambda>_ m. if mb_connected m then member_send msg m else m) (sv_members s)\<rparr>"

definition musicians_connected :: "('ts, 'op) server_core \<Rightarrow> nat" where
  "musicians_connected s =
     length (filter (\<lambda>m. mb_connected m \<and> mb_role m = Musician) (bm_values (sv_members s)))"

definition note_musician_count :: "('ts, 'op) server_core \<Rightarrow> ('ts, 'op) server_core" where
  "note_musician_count s =
     (let count = musicians_connected s in
      if count \<noteq> sv_last_musician_count s
      then push_event (MusicianCountChanged count) (s\<lparr>sv_last_musician_count := count\<rparr>)
      else s)"

section \<open>The roster\<close>

definition queue_roster :: "('ts, 'op) server_core \<Rightarrow> ('ts, 'op) server_core" where
  "queue_roster s = s\<lparr>sv_roster_dirty := True\<rparr>"

definition roster_of :: "('ts, 'op) server_core \<Rightarrow> member_info list" where
  "roster_of s = map (\<lambda>(who, m). \<lparr>mi_id = who, mi_role = mb_role m, mi_name = mb_name m,
     mi_connected = mb_connected m, mi_avatar_hash = map_option fst (mb_avatar m),
     mi_quiet = mb_quiet m\<rparr>) (bm_entries (sv_members s))"

definition flush_roster :: "('ts, 'op) server_core \<Rightarrow> ('ts, 'op) server_core" where
  "flush_roster s =
     (if \<not> sv_roster_dirty s then s
      else
        (let s1 = s\<lparr>sv_roster_dirty := False, sv_roster_epoch := wrap64 (sv_roster_epoch s + 1)\<rparr>
         in fan_out (Roster (roster_of s1)) s1))"

section \<open>Teardown\<close>

definition disconnected :: "('ts, 'op) member \<Rightarrow> ('ts, 'op) member" where
  "disconnected m = m\<lparr>mb_connected := False, mb_quiet := False, mb_addr := None, mb_session := None,
     mb_resp_cache := None, mb_avatar_rx := None, mb_avatar_tx := []\<rparr>"

definition disconnect_member :: "member_id \<Rightarrow> ('ts, 'op) server_core \<Rightarrow> ('ts, 'op) server_core" where
  "disconnect_member who s =
     (case get_member s who of
        None \<Rightarrow> s
      | Some m \<Rightarrow>
          if \<not> mb_connected m then s
          else
            (let s1 = upd_member who disconnected s in
             if who = HOST_MEMBER_ID then s1\<lparr>sv_audition := False\<rparr> else s1))"

section \<open>Violations\<close>

definition violation ::
  "nat \<Rightarrow> member_id \<Rightarrow> string \<Rightarrow> ('ts, 'op) server_core \<Rightarrow> ('ts, 'op) server_core" where
  "violation now who what s =
     (case get_member s who of
        None \<Rightarrow> push_event (ProtocolViolation who what) s
      | Some m \<Rightarrow>
          (let violations = wrap64 (mb_violations m + 1);
               (paid, budget) = bucket_take (mb_violation_budget m) now;
               s1 = push_event (ProtocolViolation who what)
                      (upd_member who (\<lambda>m. m\<lparr>mb_violations := violations, mb_violation_budget := budget\<rparr>) s)
           in if paid then s1
              else note_musician_count (queue_roster
                     (push_event (MemberEjected who violations) (disconnect_member who s1)))))"

definition take_fanout ::
  "nat \<Rightarrow> member_id \<Rightarrow> ('ts, 'op) server_core \<Rightarrow> bool \<times> ('ts, 'op) server_core" where
  "take_fanout now from s =
     (case get_member s from of
        None \<Rightarrow> (False, s)
      | Some m \<Rightarrow>
          (let (granted, budget) = bucket_take (mb_fanout_budget m) now;
               s1 = upd_member from (\<lambda>m. m\<lparr>mb_fanout_budget := budget\<rparr>) s
           in if granted then (True, s1)
              else (False, violation now from ''control rate exceeded'' s1)))"

section \<open>Flushing one member's link\<close>

text \<open>A datagram that cannot be sealed is dropped.\<close>

fun seal_each ::
  "('hs, 'ts) crypto \<Rightarrow> 'ts session \<Rightarrow> member_id \<Rightarrow> bytes list \<Rightarrow> bytes list \<times> 'ts session" where
  "seal_each c ses who [] = ([], ses)"
| "seal_each c ses who (dg # dgs) =
     (let (r, ses1) = session_seal c ses who dg;
          (out, ses2) = seal_each c ses1 who dgs
      in (case r of Inl _ \<Rightarrow> out | Inr p \<Rightarrow> p # out, ses2))"

definition poll_and_seal ::
  "('hs, 'ts, 'op) env \<Rightarrow> nat \<Rightarrow> member_id \<Rightarrow> ('ts, 'op) member \<Rightarrow> outgoing \<times> ('ts, 'op) member" where
  "poll_and_seal env now who m =
     (let (dgs, link) = link_poll (e_pc_enc env) (mb_link m) now;
          m1 = m\<lparr>mb_link := link\<rparr>
      in case (mb_session m1, mb_addr m1) of
           (Some ses, Some a) \<Rightarrow>
             (let (sealed, ses1) = seal_each (e_crypto env) ses who dgs
              in (map (\<lambda>p. (a, p)) sealed, m1\<lparr>mb_session := Some ses1\<rparr>))
         | _ \<Rightarrow> ([], m1))"

definition flush_member_link ::
  "('hs, 'ts, 'op) env \<Rightarrow> nat \<Rightarrow> member_id \<Rightarrow> ('ts, 'op) server_core \<Rightarrow>
     outgoing \<times> ('ts, 'op) server_core" where
  "flush_member_link env now who s =
     (case get_member s who of
        None \<Rightarrow> ([], s)
      | Some m \<Rightarrow>
          if \<not> mb_connected m then ([], s)
          else (let (out, m1) = poll_and_seal env now who m in (out, upd_member who (\<lambda>_. m1) s)))"

definition farewell ::
  "('hs, 'ts, 'op) env \<Rightarrow> nat \<Rightarrow> member_id \<Rightarrow> bytes \<Rightarrow> ('ts, 'op) server_core \<Rightarrow>
     outgoing \<times> ('ts, 'op) server_core" where
  "farewell env now who reason s =
     (case get_member s who of
        None \<Rightarrow> ([], s)
      | Some m \<Rightarrow>
          if \<not> mb_connected m then ([], s)
          else
            (let (out, m1) = poll_and_seal env now who (member_send (Bye reason) m)
             in (out, upd_member who (\<lambda>_. m1) s)))"

section \<open>The server log\<close>

definition dropped_line :: "nat \<Rightarrow> bytes" where
  "dropped_line n = str ''['' @ decimal_digits n @ str '' earlier server log line(s) dropped]''"

text \<open>One pass per line, on the host's link, the ring and the budget.\<close>

function feed_lines ::
  "nat \<Rightarrow> control_link \<Rightarrow> log_ring \<Rightarrow> token_bucket \<Rightarrow> control_link \<times> log_ring \<times> token_bucket" where
  "feed_lines now link tail budget =
     (if SERVER_LOG_HIGH_WATER \<le> link_pending_len link then (link, tail, budget)
      else
        (let dropped = lr_dropped tail;
             (taken, tail1) = (if 0 < dropped then (Some (dropped_line dropped), tail)
               else (case tail_take tail 1 of (lines, t) \<Rightarrow>
                       (if lines = [] then None else Some (last lines), t)))
         in case taken of
              None \<Rightarrow> (link, tail1, budget)
            | Some line \<Rightarrow>
                (let (granted, budget1) = bucket_take budget now in
                 if \<not> granted then (link, tail1, budget1)
                 else feed_lines now (snd (link_send link (ServerLog line)))
                        (if 0 < dropped then tail_clear_dropped tail1 else tail1) budget1)))"
  by pat_completeness auto

termination
  by (relation "measure (\<lambda>(_, _, tail, _). length (lr_lines tail) + (if 0 < lr_dropped tail then 1 else 0))")
    (auto simp: tail_take_def tail_clear_dropped_def Let_def min_def split: if_splits)

declare feed_lines.simps [simp del]

definition feed_server_log :: "nat \<Rightarrow> ('ts, 'op) server_core \<Rightarrow> ('ts, 'op) server_core" where
  "feed_server_log now s =
     (case sv_log_tail s of
        None \<Rightarrow> s
      | Some tail \<Rightarrow>
          (case get_member s HOST_MEMBER_ID of
             None \<Rightarrow> s
           | Some host \<Rightarrow>
               if \<not> mb_connected host then s
               else
                 (let (link, tail1, budget) = feed_lines now (mb_link host) tail (sv_log_budget s)
                  in upd_member HOST_MEMBER_ID (\<lambda>m. m\<lparr>mb_link := link\<rparr>)
                       (s\<lparr>sv_log_tail := Some tail1, sv_log_budget := budget\<rparr>))))"

section \<open>What the driver calls\<close>

definition queue_stream_status :: "('ts, 'op) server_core \<Rightarrow> ('ts, 'op) server_core" where
  "queue_stream_status s = fan_out (StreamStatus (sv_stream_status s)) s"

definition set_stream_status ::
  "nat \<Rightarrow> destination_status list \<Rightarrow> ('ts, 'op) server_core \<Rightarrow> ('ts, 'op) server_core" where
  "set_stream_status now destinations s =
     (let changed = (destinations \<noteq> sv_stream_status s);
          due = (destinations \<noteq> [] \<and> STREAM_STATUS_INTERVAL_MS \<le> now - sv_last_stream_status_ms s);
          s1 = s\<lparr>sv_stream_status := destinations\<rparr>
      in if changed \<or> due then queue_stream_status (s1\<lparr>sv_last_stream_status_ms := now\<rparr>) else s1)"

definition set_broadcast_readiness ::
  "broadcast_readiness \<Rightarrow> ('ts, 'op) server_core \<Rightarrow> ('ts, 'op) server_core" where
  "set_broadcast_readiness state s =
     (if sv_broadcast_ready s = Some state then s
      else fan_out (BroadcastReady state) (s\<lparr>sv_broadcast_ready := Some state\<rparr>))"

definition set_record_status ::
  "recording_state \<Rightarrow> bool \<Rightarrow> ('ts, 'op) server_core \<Rightarrow> ('ts, 'op) server_core" where
  "set_record_status state stems s =
     (if state = sv_record_status s \<and> stems = sv_record_stems s then s
      else fan_out (RecordStatus state stems) (s\<lparr>sv_record_status := state, sv_record_stems := stems\<rparr>))"

definition set_broadcast_tap :: "bool \<Rightarrow> ('ts, 'op) server_core \<Rightarrow> ('ts, 'op) server_core" where
  "set_broadcast_tap on s =
     (if sv_bcast_tap s = on then s
      else
        (let s1 = s\<lparr>sv_bcast_tap := on\<rparr> in
         if on then s1
         else s1\<lparr>sv_members := bm_map (\<lambda>_ m. m\<lparr>mb_level_peak := 0, mb_level_rms := 0\<rparr>) (sv_members s1)\<rparr>))"

definition restore_revoked :: "token_id list \<Rightarrow> ('ts, 'op) server_core \<Rightarrow> ('ts, 'op) server_core" where
  "restore_revoked jtis s = s\<lparr>sv_revoked := sv_revoked s \<union> set jtis\<rparr>"

definition take_events :: "('ts, 'op) server_core \<Rightarrow> server_event list \<times> ('ts, 'op) server_core" where
  "take_events s = (sv_events s, s\<lparr>sv_events := []\<rparr>)"

definition shutdown_one ::
  "('hs, 'ts, 'op) env \<Rightarrow> nat \<Rightarrow> bytes \<Rightarrow> outgoing \<times> ('ts, 'op) server_core \<Rightarrow> member_id \<Rightarrow>
     outgoing \<times> ('ts, 'op) server_core" where
  "shutdown_one env now reason os who =
     (let (out, s1) = farewell env now who reason (snd os)
      in (fst os @ out, push_event (MemberDisconnected who) (disconnect_member who s1)))"

definition connected_ids :: "('ts, 'op) server_core \<Rightarrow> member_id list" where
  "connected_ids s = map fst (filter (\<lambda>(_, m). mb_connected m) (bm_entries (sv_members s)))"

definition shutdown ::
  "('hs, 'ts, 'op) env \<Rightarrow> nat \<Rightarrow> bytes \<Rightarrow> ('ts, 'op) server_core \<Rightarrow> outgoing \<times> ('ts, 'op) server_core" where
  "shutdown env now reason s =
     (let s1 = feed_server_log now s;
          (out, s2) = foldl (shutdown_one env now reason) ([], s1) (connected_ids s1)
      in (out, note_musician_count s2))"

definition drop_peer ::
  "sock_addr \<Rightarrow> ('ts, 'op) server_core \<Rightarrow> member_id option \<times> ('ts, 'op) server_core" where
  "drop_peer addr s =
     (case find (\<lambda>(_, m). mb_connected m \<and> mb_addr m = Some addr) (bm_entries (sv_members s)) of
        None \<Rightarrow> (None, s)
      | Some (who, _) \<Rightarrow>
          (Some who, note_musician_count (queue_roster
             (push_event (MemberDisconnected who) (disconnect_member who s)))))"

section \<open>What the driver reads\<close>

record broadcast_member =
  bq_id :: member_id
  bq_name :: bytes
  bq_connected :: bool
  bq_level_peak :: f32
  bq_level_rms :: f32
  bq_avatar :: "(hash32 \<times> bytes) option"

record broadcast_tick =
  bt_audio :: "f32 list"
  bt_members :: "broadcast_member list"
  bt_listeners :: nat
  bt_roster_epoch :: nat

definition broadcast_audio :: "('ts, 'op) server_core \<Rightarrow> f32 list" where
  "broadcast_audio s =
     (let start = sv_bcast_slot s * MIX_LEN in subslice start (start + MIX_LEN) (sv_bcast_accum s))"

definition broadcast_card :: "avatar_cache \<Rightarrow> member_id \<times> ('ts, 'op) member \<Rightarrow> broadcast_member" where
  "broadcast_card cache im =
     (case im of (who, m) \<Rightarrow>
        \<lparr>bq_id = who, bq_name = mb_name m, bq_connected = mb_connected m,
         bq_level_peak = mb_level_peak m, bq_level_rms = mb_level_rms m,
         bq_avatar = (case mb_avatar m of None \<Rightarrow> None
           | Some (hash, _) \<Rightarrow> map_option (\<lambda>bs. (hash, bs)) (cache_get cache hash))\<rparr>)"

definition broadcast_tick_of :: "('ts, 'op) server_core \<Rightarrow> broadcast_tick" where
  "broadcast_tick_of s =
     \<lparr>bt_audio = broadcast_audio s,
      bt_members = map (broadcast_card (sv_avatar_cache s))
        (filter (\<lambda>(_, m). mb_role m = Musician) (bm_entries (sv_members s))),
      bt_listeners = length (filter (\<lambda>m. mb_connected m \<and> mb_role m = Listener) (bm_values (sv_members s))),
      bt_roster_epoch = sv_roster_epoch s\<rparr>"

record stem =
  sm_id :: member_id
  sm_pcm :: "f32 list"
  sm_fader :: fader

definition fader_or_default :: "(member_id, fader) bmap \<Rightarrow> member_id \<Rightarrow> fader" where
  "fader_or_default faders who = (case bm_get faders who of None \<Rightarrow> fader_default | Some f \<Rightarrow> f)"

definition stems :: "('ts, 'op) server_core \<Rightarrow> stem list" where
  "stems s = map (\<lambda>(who, pcm). \<lparr>sm_id = who, sm_pcm = pcm,
     sm_fader = fader_or_default (sv_bcast_faders s) who\<rparr>) (sv_decoded s)"

record member_stats =
  ms_id :: member_id
  ms_role :: role
  ms_connected :: bool
  ms_rtt_ms_last :: "f32 option"
  ms_jitter :: jitter_stats
  ms_violations :: nat
  ms_opens_refused :: nat

definition server_stats :: "('ts, 'op) server_core \<Rightarrow> member_stats list" where
  "server_stats s = map (\<lambda>(who, m). \<lparr>ms_id = who, ms_role = mb_role m, ms_connected = mb_connected m,
     ms_rtt_ms_last = mb_rtt_ms_last m, ms_jitter = jitter_stats_of (mb_jitter m),
     ms_violations = mb_violations m, ms_opens_refused = mb_opens_refused m\<rparr>)
     (bm_entries (sv_members s))"

end
