(* ===== verification/Drift.thy ===== *)
theory Drift
  imports Audio
begin

text \<open>
  Pacing against sound-card clock drift, \<open>crates/engine/src/drift.rs\<close>: device-paced samples go in,
  frames of a fixed size come out, at a ratio steered a few ppm and slewed one ppm per pull.  The
  resampler itself (\<open>rubato::Slip\<close>) is a parameter; \<open>f64\<close> values are rationals, rounded after every
  operation (\<open>Floats\<close>).
\<close>

section \<open>The resampler library\<close>

record 'sl slip =
  slip_new :: "nat \<Rightarrow> nat \<Rightarrow> 'sl option"  \<comment> \<open>chunk of frames, channels; fixed output size\<close>
  slip_need :: "'sl \<Rightarrow> nat"  \<comment> \<open>\<open>input_frames_next\<close>\<close>
  slip_run :: "'sl \<Rightarrow> f32 list \<Rightarrow> f32 list \<times> 'sl"  \<comment> \<open>\<open>process_into_buffer\<close>\<close>
  slip_set_ratio :: "'sl \<Rightarrow> rat \<Rightarrow> 'sl"

section \<open>The compensator\<close>

definition PPM :: rat where "PPM = f64 (1 / 10 ^ 6)"  \<comment> \<open>the literal \<open>1e-6\<close>\<close>
abbreviation (input) MAX_STEER_PPM :: rat where "MAX_STEER_PPM \<equiv> 500"
abbreviation (input) SLEW_PPM_PER_FRAME :: rat where "SLEW_PPM_PER_FRAME \<equiv> 1"
abbreviation (input) BUFFER_CHUNKS :: nat where "BUFFER_CHUNKS \<equiv> 32"

definition f64_clamp :: "rat \<Rightarrow> rat \<Rightarrow> rat \<Rightarrow> rat" where
  "f64_clamp x lo hi = (if x < lo then lo else if hi < x then hi else x)"

text \<open>\<open>dc_cap\<close> is the capacity the buffer was constructed with.\<close>

record 'sl drift =
  dc_slip :: 'sl
  dc_channels :: nat
  dc_chunk_out :: nat
  dc_cap :: nat
  dc_buf :: "f32 list"
  dc_target :: rat
  dc_current :: rat

text \<open>\<open>None\<close> is a panic: no channel, or a chunk the resampler refuses.\<close>

definition drift_new :: "'sl slip \<Rightarrow> nat \<Rightarrow> nat \<Rightarrow> 'sl drift option" where
  "drift_new lib chunk_out channels =
     (if channels = 0 then None
      else case slip_new lib chunk_out channels of
             None \<Rightarrow> None
           | Some sl \<Rightarrow>
               Some \<lparr>dc_slip = sl, dc_channels = channels, dc_chunk_out = chunk_out,
                     dc_cap = BUFFER_CHUNKS * chunk_out * channels, dc_buf = [],
                     dc_target = 1, dc_current = 1\<rparr>)"

text \<open>The argument is \<open>None\<close> when it is not finite.\<close>

definition drift_steer :: "'sl drift \<Rightarrow> rat option \<Rightarrow> 'sl drift" where
  "drift_steer d ratio_ppm =
     (let ppm = (case ratio_ppm of None \<Rightarrow> 0 | Some x \<Rightarrow> f64_clamp x (- MAX_STEER_PPM) MAX_STEER_PPM)
      in d\<lparr>dc_target := f64 (1 + f64 (ppm * PPM))\<rparr>)"

definition drift_push :: "'sl drift \<Rightarrow> f32 list \<Rightarrow> 'sl drift" where
  "drift_push d samples =
     (if dc_cap d \<le> length samples
      then d\<lparr>dc_buf := drop (length samples - dc_cap d) samples\<rparr>
      else
        (let overflow = length (dc_buf d) + length samples - dc_cap d;
             kept = (if 0 < overflow then drop overflow (dc_buf d) else dc_buf d)
         in d\<lparr>dc_buf := kept @ samples\<rparr>))"

definition drift_slew :: "'sl slip \<Rightarrow> 'sl drift \<Rightarrow> 'sl drift" where
  "drift_slew lib d =
     (let delta = f64 (dc_target d - dc_current d) in
      if delta = 0 then d
      else
        (let step = f64 (SLEW_PPM_PER_FRAME * PPM);
             cur = f64 (dc_current d + f64_clamp delta (- step) step)
         in d\<lparr>dc_current := cur, dc_slip := slip_set_ratio lib (dc_slip d) cur\<rparr>))"

text \<open>A frame, or nothing while the backlog cannot cover one; the ratio slews either way.\<close>

definition drift_pull :: "'sl slip \<Rightarrow> 'sl drift \<Rightarrow> f32 list option \<times> 'sl drift" where
  "drift_pull lib d0 =
     (let d = drift_slew lib d0;
          need = slip_need lib (dc_slip d) * dc_channels d
      in if length (dc_buf d) < need then (None, d)
         else
           (let (out, sl) = slip_run lib (dc_slip d) (take need (dc_buf d))
            in (Some out, d\<lparr>dc_slip := sl, dc_buf := drop need (dc_buf d)\<rparr>)))"

definition drift_buffered_frames :: "'sl drift \<Rightarrow> nat" where
  "drift_buffered_frames d = length (dc_buf d) div dc_channels d"

definition drift_ratio_ppm :: "'sl drift \<Rightarrow> rat" where
  "drift_ratio_ppm d = f64 (f64 (dc_current d - 1) * 10 ^ 6)"

section \<open>Contract of the resampler\<close>

text \<open>
  What the code says of it: a constructed resampler always wants at least one frame and at most
  twice its chunk, whatever ratio it was given, and fills its chunk.
\<close>

definition slip_good :: "'sl slip \<Rightarrow> ('sl \<Rightarrow> bool) \<Rightarrow> nat \<Rightarrow> nat \<Rightarrow> bool" where
  "slip_good lib good chunk channels \<longleftrightarrow>
     (\<forall>sl. slip_new lib chunk channels = Some sl \<longrightarrow> good sl) \<and>
     (\<forall>sl. good sl \<longrightarrow> 0 < slip_need lib sl \<and> slip_need lib sl \<le> 2 * chunk \<and>
        (\<forall>r. good (slip_set_ratio lib sl r)) \<and>
        (\<forall>xs. good (snd (slip_run lib sl xs)) \<and> length (fst (slip_run lib sl xs)) = chunk * channels))"

definition drift_ok :: "'sl slip \<Rightarrow> ('sl \<Rightarrow> bool) \<Rightarrow> 'sl drift \<Rightarrow> bool" where
  "drift_ok lib good d \<longleftrightarrow> slip_good lib good (dc_chunk_out d) (dc_channels d) \<and> good (dc_slip d) \<and>
     0 < dc_channels d \<and> dc_cap d = BUFFER_CHUNKS * dc_chunk_out d * dc_channels d \<and>
     length (dc_buf d) \<le> dc_cap d"

lemma drift_new_ok:
  "slip_good lib good chunk channels \<Longrightarrow> drift_new lib chunk channels = Some d \<Longrightarrow> drift_ok lib good d"
  by (auto simp: drift_new_def drift_ok_def slip_good_def split: if_splits option.splits)

lemma drift_steer_ok [simp]: "drift_ok lib good (drift_steer d x) = drift_ok lib good d"
  by (simp add: drift_steer_def drift_ok_def Let_def)

lemma drift_fields [simp]:
  "dc_channels (drift_steer d x) = dc_channels d" "dc_chunk_out (drift_steer d x) = dc_chunk_out d"
  "dc_channels (drift_push d xs) = dc_channels d" "dc_chunk_out (drift_push d xs) = dc_chunk_out d"
  "dc_channels (drift_slew lib d) = dc_channels d" "dc_chunk_out (drift_slew lib d) = dc_chunk_out d"
  "dc_buf (drift_slew lib d) = dc_buf d" "dc_cap (drift_slew lib d) = dc_cap d"
  "dc_cap (drift_push d xs) = dc_cap d" "dc_slip (drift_push d xs) = dc_slip d"
  "dc_buf (drift_steer d x) = dc_buf d"
  by (simp_all add: drift_steer_def drift_push_def drift_slew_def Let_def)

text \<open>The input backlog is a sliding window: after any push it is the newest samples, up to its
  capacity, of what was waiting followed by what came, so overflow drops the oldest audio and
  latency stays bounded.\<close>

theorem drift_keeps_newest:
  assumes "length (dc_buf d) \<le> dc_cap d"
  shows "dc_buf (drift_push d xs) = drop (length (dc_buf d @ xs) - dc_cap d) (dc_buf d @ xs) \<and>
    length (dc_buf (drift_push d xs)) = min (dc_cap d) (length (dc_buf d) + length xs)"
  using assms by (auto simp: drift_push_def Let_def min_def)

lemma drift_push_ok: "drift_ok lib good d \<Longrightarrow> drift_ok lib good (drift_push d xs)"
  by (auto simp: drift_ok_def drift_push_def Let_def)

lemma drift_slew_ok: "drift_ok lib good d \<Longrightarrow> drift_ok lib good (drift_slew lib d)"
  by (auto simp: drift_ok_def drift_slew_def Let_def slip_good_def)

text \<open>A pull that yields a frame shortens the backlog; one that does not leaves it, short of two chunks.\<close>

lemma drift_pull_ok:
  assumes "drift_ok lib good d" "drift_pull lib d = (r, d')"
  shows "drift_ok lib good d'" "dc_channels d' = dc_channels d" "dc_chunk_out d' = dc_chunk_out d"
    and "case r of
      None \<Rightarrow> dc_buf d' = dc_buf d \<and> length (dc_buf d) < 2 * dc_chunk_out d * dc_channels d
    | Some out \<Rightarrow> length (dc_buf d') < length (dc_buf d) \<and> length out = dc_chunk_out d * dc_channels d"
proof -
  let ?d = "drift_slew lib d"
  let ?n = "slip_need lib (dc_slip ?d)"
  have ok: "drift_ok lib good ?d" by (rule drift_slew_ok [OF assms(1)])
  then have n: "0 < ?n" "?n \<le> 2 * dc_chunk_out d" "0 < dc_channels d"
    and run: "good (snd (slip_run lib (dc_slip ?d) xs))"
      "length (fst (slip_run lib (dc_slip ?d) xs)) = dc_chunk_out d * dc_channels d" for xs
    by (auto simp: drift_ok_def slip_good_def)
  obtain k where k: "k = ?n * dc_channels d" "0 < k" "k \<le> 2 * dc_chunk_out d * dc_channels d"
    using n by simp
  have pull: "drift_pull lib d = (if length (dc_buf d) < k then (None, ?d) else
      (let (out, sl) = slip_run lib (dc_slip ?d) (take k (dc_buf d))
       in (Some out, ?d\<lparr>dc_slip := sl, dc_buf := drop k (dc_buf d)\<rparr>)))"
    by (simp add: drift_pull_def Let_def k(1))
  show "drift_ok lib good d'" "dc_channels d' = dc_channels d" "dc_chunk_out d' = dc_chunk_out d"
    "case r of
      None \<Rightarrow> dc_buf d' = dc_buf d \<and> length (dc_buf d) < 2 * dc_chunk_out d * dc_channels d
    | Some out \<Rightarrow> length (dc_buf d') < length (dc_buf d) \<and> length out = dc_chunk_out d * dc_channels d"
    using assms(2) ok run [of "take k (dc_buf d)"] k(2,3)
    by (auto simp: pull drift_ok_def split: if_splits prod.splits)
qed

section \<open>A concrete resampler\<close>

text \<open>It passes samples through.\<close>

definition sample_slip :: "nat slip" where
  "sample_slip = \<lparr>slip_new = (\<lambda>chunk ch. if 4 \<le> chunk then Some (chunk * ch) else None),
     slip_need = (\<lambda>_. 120), slip_run = (\<lambda>n xs. (take n (xs @ replicate n 0), n)),
     slip_set_ratio = (\<lambda>n _. n)\<rparr>"

lemma sample_slip_good: "slip_good sample_slip (\<lambda>n. n = 120 * ch) 120 ch"
  by (auto simp: slip_good_def sample_slip_def min_def)

theorem drift_keeps_newest_witness:
  "length (dc_buf (drift_push \<lparr>dc_slip = (0 :: nat), dc_channels = 1, dc_chunk_out = 4, dc_cap = 128,
     dc_buf = replicate 100 1, dc_target = 1, dc_current = 1\<rparr> (replicate 50 2))) = 128"
  by (subst drift_keeps_newest [THEN conjunct2]) simp_all

end
