(* ===== verification/Redundancy.thy ===== *)
theory Redundancy
  imports Floats
begin

text \<open>
  The sender's decision to repeat the previous frame, \<open>crates/engine/src/redundancy.rs\<close>.  A loss
  ratio is an \<open>f32\<close>: a rational when finite, \<open>None\<close> for an infinity or NaN.
\<close>

definition ON_LOSS_RATIO :: rat where "ON_LOSS_RATIO = f32 (1 / 100)"
definition OFF_LOSS_RATIO :: rat where "OFF_LOSS_RATIO = f32 (2 / 1000)"

record redundancy_policy =
  rp_active :: bool
  rp_quiet_reports :: nat
  rp_off_hold_reports :: nat

definition policy_new :: "nat \<Rightarrow> redundancy_policy" where
  "policy_new off_hold_reports =
     \<lparr>rp_active = False, rp_quiet_reports = 0, rp_off_hold_reports = max off_hold_reports 1\<rparr>"

definition policy_report :: "redundancy_policy \<Rightarrow> rat option \<Rightarrow> redundancy_policy" where
  "policy_report p loss_ratio =
     (let loss = (case loss_ratio of None \<Rightarrow> 0 | Some r \<Rightarrow> max r 0)
      in if ON_LOSS_RATIO < loss then p\<lparr>rp_active := True, rp_quiet_reports := 0\<rparr>
         else if rp_active p then
           (if loss < OFF_LOSS_RATIO then
              (let quiet = rp_quiet_reports p + 1
               in if rp_off_hold_reports p \<le> quiet
                  then p\<lparr>rp_active := False, rp_quiet_reports := 0\<rparr>
                  else p\<lparr>rp_quiet_reports := quiet\<rparr>)
            else p\<lparr>rp_quiet_reports := 0\<rparr>)
         else p)"

section \<open>Hysteresis\<close>

definition is_clean :: "rat option \<Rightarrow> bool" where
  "is_clean r = (case r of None \<Rightarrow> True | Some x \<Rightarrow> max x 0 < OFF_LOSS_RATIO)"

definition is_lossy :: "rat option \<Rightarrow> bool" where
  "is_lossy r = (case r of None \<Rightarrow> False | Some x \<Rightarrow> ON_LOSS_RATIO < x)"

lemma thresholds: "0 < OFF_LOSS_RATIO" "OFF_LOSS_RATIO < ON_LOSS_RATIO"
  unfolding OFF_LOSS_RATIO_def ON_LOSS_RATIO_def f32_def by code_simp+

lemma report_lossy: "is_lossy r \<Longrightarrow> rp_active (policy_report p r) \<and> rp_quiet_reports (policy_report p r) = 0"
  by (auto simp: policy_report_def is_lossy_def Let_def split: option.splits)

lemma report_hold: "rp_off_hold_reports (policy_report p r) = rp_off_hold_reports p"
  by (simp add: policy_report_def Let_def)

text \<open>
  The specification, over the reports newest first: redundancy is on when some report was lossy and
  no \<open>hold\<close> consecutive reports since were clean.
\<close>

definition redundancy_due :: "nat \<Rightarrow> rat option list \<Rightarrow> bool" where
  "redundancy_due hold rs \<longleftrightarrow>
     (\<exists>i < length rs. is_lossy (rs ! i) \<and>
        \<not> (\<exists>j. j + hold \<le> i \<and> (\<forall>k. j \<le> k \<and> k < j + hold \<longrightarrow> is_clean (rs ! k))))"

fun clean_run :: "rat option list \<Rightarrow> nat" where
  "clean_run [] = 0"
| "clean_run (r # rs) = (if is_clean r then Suc (clean_run rs) else 0)"

lemma lossy_not_clean: "is_lossy r \<Longrightarrow> \<not> is_clean r"
  using thresholds by (auto simp: is_lossy_def is_clean_def split: option.splits)

lemma clean_run_iff: "h \<le> clean_run rs \<longleftrightarrow> h \<le> length rs \<and> (\<forall>k < h. is_clean (rs ! k))"
proof (induction rs arbitrary: h)
  case Nil
  then show ?case by auto
next
  case (Cons r rs)
  show ?case
  proof (cases h)
    case 0
    then show ?thesis by simp
  next
    case (Suc n)
    then show ?thesis using Cons.IH [of n] by (auto simp: less_Suc_eq_0_disj)
  qed
qed

lemma due_lossy: "is_lossy r \<Longrightarrow> 0 < h \<Longrightarrow> redundancy_due h (r # rs)"
  unfolding redundancy_due_def by (intro exI [of _ 0]) simp

lemma due_step:
  assumes "\<not> is_lossy r" "0 < h"
  shows "redundancy_due h (r # rs) \<longleftrightarrow> redundancy_due h rs \<and> clean_run (r # rs) < h"
proof -
  have shift: "(\<exists>j. j + h \<le> Suc i \<and> (\<forall>k. j \<le> k \<and> k < j + h \<longrightarrow> is_clean ((r # rs) ! k))) \<longleftrightarrow>
      h \<le> clean_run (r # rs) \<or> (\<exists>j. j + h \<le> i \<and> (\<forall>k. j \<le> k \<and> k < j + h \<longrightarrow> is_clean (rs ! k)))"
    if i: "i < length rs" "is_lossy (rs ! i)" for i
  proof
    assume "\<exists>j. j + h \<le> Suc i \<and> (\<forall>k. j \<le> k \<and> k < j + h \<longrightarrow> is_clean ((r # rs) ! k))"
    then obtain j where j: "j + h \<le> Suc i" "\<And>k. j \<le> k \<Longrightarrow> k < j + h \<Longrightarrow> is_clean ((r # rs) ! k)"
      by blast
    show "h \<le> clean_run (r # rs) \<or> (\<exists>j. j + h \<le> i \<and> (\<forall>k. j \<le> k \<and> k < j + h \<longrightarrow> is_clean (rs ! k)))"
    proof (cases j)
      case 0
      then have "h \<le> length (r # rs) \<and> (\<forall>k < h. is_clean ((r # rs) ! k))" using j i(1) by auto
      then have "h \<le> clean_run (r # rs)" by (rule iffD2 [OF clean_run_iff])
      then show ?thesis by (rule disjI1)
    next
      case (Suc m)
      have "is_clean (rs ! k)" if "m \<le> k" "k < m + h" for k
        using j(2) [of "Suc k"] that Suc by simp
      then show ?thesis using j(1) Suc by (intro disjI2 exI [of _ m]) auto
    qed
  next
    assume "h \<le> clean_run (r # rs) \<or> (\<exists>j. j + h \<le> i \<and> (\<forall>k. j \<le> k \<and> k < j + h \<longrightarrow> is_clean (rs ! k)))"
    then show "\<exists>j. j + h \<le> Suc i \<and> (\<forall>k. j \<le> k \<and> k < j + h \<longrightarrow> is_clean ((r # rs) ! k))"
    proof
      assume "h \<le> clean_run (r # rs)"
      then have c: "\<forall>k < h. is_clean ((r # rs) ! k)" using iffD1 [OF clean_run_iff] by blast
      have "\<not> is_clean ((r # rs) ! Suc i)" using lossy_not_clean [OF i(2)] by simp
      then have "h \<le> Suc i" using c by (meson not_le)
      then show ?thesis using c by (intro exI [of _ 0]) auto
    next
      assume "\<exists>j. j + h \<le> i \<and> (\<forall>k. j \<le> k \<and> k < j + h \<longrightarrow> is_clean (rs ! k))"
      then obtain j where j: "j + h \<le> i" "\<And>k. j \<le> k \<Longrightarrow> k < j + h \<Longrightarrow> is_clean (rs ! k)" by blast
      have "is_clean ((r # rs) ! k)" if "Suc j \<le> k" "k < Suc j + h" for k
        using j(2) [of "k - 1"] that by (cases k) auto
      then show ?thesis using j(1) by (intro exI [of _ "Suc j"]) auto
    qed
  qed
  have "redundancy_due h (r # rs) \<longleftrightarrow> (\<exists>i < length rs. is_lossy (rs ! i) \<and>
      \<not> (\<exists>j. j + h \<le> Suc i \<and> (\<forall>k. j \<le> k \<and> k < j + h \<longrightarrow> is_clean ((r # rs) ! k))))"
    unfolding redundancy_due_def using assms(1)
    by (auto simp: less_Suc_eq_0_disj)
  also have "\<dots> \<longleftrightarrow> redundancy_due h rs \<and> clean_run (r # rs) < h"
  proof -
    define A where "A i \<longleftrightarrow> (\<exists>j. j + h \<le> Suc i \<and> (\<forall>k. j \<le> k \<and> k < j + h \<longrightarrow> is_clean ((r # rs) ! k)))" for i
    define B where "B i \<longleftrightarrow> (\<exists>j. j + h \<le> i \<and> (\<forall>k. j \<le> k \<and> k < j + h \<longrightarrow> is_clean (rs ! k)))" for i
    have "A i \<longleftrightarrow> h \<le> clean_run (r # rs) \<or> B i" if "i < length rs" "is_lossy (rs ! i)" for i
      unfolding A_def B_def by (rule shift [OF that])
    then have "(\<exists>i < length rs. is_lossy (rs ! i) \<and> \<not> A i) \<longleftrightarrow>
        (\<exists>i < length rs. is_lossy (rs ! i) \<and> \<not> B i) \<and> \<not> h \<le> clean_run (r # rs)" by blast
    then show ?thesis
      unfolding redundancy_due_def A_def [symmetric] B_def [symmetric] by (simp only: not_le)
  qed
  finally show ?thesis .
qed

definition policy_after :: "nat \<Rightarrow> rat option list \<Rightarrow> redundancy_policy" where
  "policy_after hold rs = foldr (\<lambda>r p. policy_report p r) rs (policy_new hold)"

lemma policy_tracks:
  "rp_off_hold_reports (policy_after hold rs) = max hold 1 \<and>
   rp_active (policy_after hold rs) = redundancy_due (max hold 1) rs \<and>
   (rp_active (policy_after hold rs) \<longrightarrow>
      rp_quiet_reports (policy_after hold rs) = clean_run rs \<and> clean_run rs < max hold 1)"
proof (induction rs)
  case Nil
  then show ?case by (simp add: policy_after_def policy_new_def redundancy_due_def)
next
  case (Cons r rs)
  let ?p = "policy_after hold rs"
  have step: "policy_after hold (r # rs) = policy_report ?p r" by (simp add: policy_after_def)
  show ?case
  proof (cases "is_lossy r")
    case True
    then have "\<not> is_clean r" by (rule lossy_not_clean)
    then show ?thesis
      using due_lossy [OF True, of "max hold 1" rs] report_lossy [OF True, of ?p] Cons.IH
        report_hold [of ?p r]
      by (simp add: step max_def)
  next
    case False
    have loss: "\<not> ON_LOSS_RATIO < (case r of None \<Rightarrow> 0 | Some r \<Rightarrow> max r 0)"
      using False thresholds by (auto simp: is_lossy_def split: option.splits)
    have clean: "(case r of None \<Rightarrow> 0 | Some r \<Rightarrow> max r 0) < OFF_LOSS_RATIO \<longleftrightarrow> is_clean r"
      using thresholds by (auto simp: is_clean_def split: option.splits)
    show ?thesis
      using Cons.IH due_step [OF False, of "max hold 1" rs] loss clean
      by (auto simp: step policy_report_def Let_def)
  qed
qed

text \<open>The decision is hysteresis over the whole history of reports: redundancy is on exactly when
  some report exceeded one percent and no run of \<open>off_hold_reports\<close> consecutive reports since stayed
  under 0.2 percent; reports that are not numbers count as no loss.\<close>

theorem redundancy_hysteresis:
  "rp_active (policy_after hold rs) = redundancy_due (max hold 1) rs"
  using policy_tracks by blast

end
