(* ===== verification/ClientState.thy ===== *)
theory ClientState
  imports ServerOps Drift Redundancy
begin

text \<open>
  The data of the client core, \<open>crates/session/src/client.rs\<close>: its states and events, the controller
  that steers a drift compensator from a buffer depth, the candidate addresses of an invite, and the
  fields of \<open>ClientCore\<close> with its constructor.  The environment is the session core's; the key pair
  of a handshake (\<open>local_private\<close>) and the resampler library are arguments where the code draws or
  uses them.  \<open>decode_buf\<close> and \<open>pkt_buf\<close>, overwritten before every read, are local values; of
  \<open>decode_buf\<close> the length stays.
\<close>

section \<open>Constants\<close>

abbreviation (input) UPLINK_BITRATE :: u32 where "UPLINK_BITRATE \<equiv> 128000"
abbreviation (input) UPLINK_BITRATE_STEREO :: u32 where "UPLINK_BITRATE_STEREO \<equiv> 192000"
abbreviation (input) CONNECTION_TIMEOUT_MS :: nat where "CONNECTION_TIMEOUT_MS \<equiv> 10000"
abbreviation (input) PING_INTERVAL_MS :: nat where "PING_INTERVAL_MS \<equiv> 1000"
abbreviation (input) INIT_RESEND_MS :: nat where "INIT_RESEND_MS \<equiv> 500"
abbreviation (input) INIT_RESEND_MAX_MS :: nat where "INIT_RESEND_MAX_MS \<equiv> 2000"
abbreviation (input) REJECT_RETRY_MS :: nat where "REJECT_RETRY_MS \<equiv> 5000"
abbreviation (input) REJECT_RETRY_MAX_MS :: nat where "REJECT_RETRY_MAX_MS \<equiv> 60000"
abbreviation (input) COOKIE_ANSWER_BURST :: nat where "COOKIE_ANSWER_BURST \<equiv> 4"
abbreviation (input) COOKIE_ANSWER_PER_SEC :: nat where "COOKIE_ANSWER_PER_SEC \<equiv> 1"
abbreviation (input) REDUNDANCY_OFF_HOLD :: nat where "REDUNDANCY_OFF_HOLD \<equiv> 10"
abbreviation (input) PLAYOUT_STEER_FRAMES :: nat where "PLAYOUT_STEER_FRAMES \<equiv> 48000"
abbreviation (input) CLIENT_AVATAR_CACHE_BYTES :: nat where "CLIENT_AVATAR_CACHE_BYTES \<equiv> 8388608"

definition uplink_bitrate :: "channels \<Rightarrow> u32" where
  "uplink_bitrate ch = (case ch of Mono \<Rightarrow> UPLINK_BITRATE | Stereo \<Rightarrow> UPLINK_BITRATE_STEREO)"

section \<open>The depth controller\<close>

definition KP :: rat where "KP = 300"
definition KI :: rat where "KI = 10"
definition INTEGRAL_CLAMP :: rat where "INTEGRAL_CLAMP = 450"
definition LEAK :: rat where "LEAK = f64 (998 / 1000)"
definition ALPHA_FAST :: rat where "ALPHA_FAST = f64 (4 / 10)"
definition ALPHA_SLOW :: rat where "ALPHA_SLOW = f64 (3 / 100)"

record depth_steer =
  dp_fast :: "rat option"
  dp_slow :: "rat option"
  dp_integral_ppm :: rat
  dp_steer_ppm :: rat

definition steer_default :: depth_steer where
  "steer_default = \<lparr>dp_fast = None, dp_slow = None, dp_integral_ppm = 0, dp_steer_ppm = 0\<rparr>"

definition ewma :: "rat \<Rightarrow> rat option \<Rightarrow> rat \<Rightarrow> rat" where
  "ewma alpha old depth =
     (let x = (case old of None \<Rightarrow> depth | Some y \<Rightarrow> y) in f64 (x + f64 (alpha * f64 (depth - x))))"

definition steer_update :: "depth_steer \<Rightarrow> rat \<Rightarrow> rat \<Rightarrow> depth_steer" where
  "steer_update s depth floor_at =
     (let fast = ewma ALPHA_FAST (dp_fast s) depth;
          slow = ewma ALPHA_SLOW (dp_slow s) depth;
          e = f64 (fast - max slow floor_at);
          integral = f64_clamp (f64 (f64 (dp_integral_ppm s * LEAK) + f64 (KI * e)))
                       (- INTEGRAL_CLAMP) INTEGRAL_CLAMP
      in \<lparr>dp_fast = Some fast, dp_slow = Some slow, dp_integral_ppm = integral,
          dp_steer_ppm = - f64 (f64 (KP * e) + integral)\<rparr>)"

section \<open>States, events and errors\<close>

datatype client_state =
    Connecting
  | Joined
  | Rejected u16 u16  \<comment> \<open>ours, theirs\<close>
  | Ejected bytes
  | TimedOut

datatype client_event =
    EvJoined
  | EvRoster "member_info list"
  | EvChat member_id bytes
  | EvMetronomeChanged u16 u8 bool
  | EvRttSample f32
  | EvBroadcastMixChanged member_id f32 f32 bool
  | EvStreamStatus "destination_status list"
  | EvRecordStatus recording_state bool
  | EvBroadcastReadiness broadcast_readiness
  | EvAvatarReady member_id hash32
  | EvEjected bytes
  | EvRejected u16 u16
  | EvSessionFull
  | EvTimedOut

datatype session_error =
    NotJoined
  | InvalidParam string
  | ProtocolError error
  | CodecFailed codec_error

record client_stats =
  cs_jitter :: jitter_stats
  cs_state :: client_state
  cs_rtt_ms_last :: "f32 option"
  cs_uplink_loss_pct :: "f32 option"
  cs_uplink_jitter_depth :: "u16 option"
  cs_uplink_recovered_pct :: "f32 option"
  cs_redundancy_active :: bool
  cs_session_full :: bool

section \<open>The candidate addresses of an invite\<close>

record server_candidates =
  ca_addresses :: "sock_addr list"
  ca_idx :: nat

definition candidates_new :: "invite \<Rightarrow> (server_candidates, session_error) result" where
  "candidates_new i =
     (if iv_addresses i = [] then Err (ProtocolError (Invite ''has no server address''))
      else Ok \<lparr>ca_addresses = iv_addresses i, ca_idx = 0\<rparr>)"

definition candidates_current :: "server_candidates \<Rightarrow> sock_addr" where
  "candidates_current c = ca_addresses c ! ca_idx c"

definition candidates_has_alternatives :: "server_candidates \<Rightarrow> bool" where
  "candidates_has_alternatives c \<longleftrightarrow> 1 < length (ca_addresses c)"

definition candidates_advance :: "server_candidates \<Rightarrow> sock_addr \<times> server_candidates" where
  "candidates_advance c =
     (let c1 = c\<lparr>ca_idx := (ca_idx c + 1) mod length (ca_addresses c)\<rparr> in (candidates_current c1, c1))"

section \<open>The core\<close>

record ('hs, 'ts, 'op, 'sl) client_core =
  cc_invite :: invite
  cc_state :: client_state
  cc_initiator :: "'hs initiator option"
  cc_init_packet :: bytes
  cc_reject_key :: "reject_key option"
  cc_session_full :: bool
  cc_cookied_init :: "bytes option"
  cc_cookie_answers :: token_bucket
  cc_cookie_reply_key :: cookie_reply_key
  cc_session :: "'ts session option"
  cc_welcome :: "welcome_msg option"
  cc_link :: control_link
  cc_jitter :: jitter_buffer
  cc_encoder :: "'op encoder option"
  cc_uplink :: channels
  cc_decoder :: "'op decoder"
  cc_decode_len :: nat
  cc_fifo :: "f32 list"
  cc_redundancy :: redundancy_policy
  cc_uplink_report :: "(f32 \<times> u16 \<times> f32) option"
  cc_capture_comp :: "'sl drift option"
  cc_capture_steer :: depth_steer
  cc_playout_comp :: "'sl drift option"
  cc_playout_steer :: depth_steer
  cc_playout_stage :: "f32 list"
  cc_playout_frames_since_steer :: nat
  cc_own_avatar :: "(hash32 \<times> u32) option"
  cc_own_name :: "bytes option"
  cc_avatar_cache :: avatar_cache
  cc_avatar_requested :: "hash32 set"
  cc_avatar_rx :: "avatar_rx option"
  cc_avatar_tx :: "avatar_tx list"
  cc_roster :: "member_info list"
  cc_avatar_announced :: "(member_id, hash32) bmap"
  cc_prev_payload :: "bytes option"
  cc_frames_sent :: nat
  cc_events :: "client_event list"
  cc_last_server_ms :: nat
  cc_last_ping_ms :: nat
  cc_last_init_ms :: nat
  cc_init_resend_ms :: nat
  cc_rtt_ms_last :: "f32 option"
  cc_ping_nonce :: u32

text \<open>\<open>media_state\<close>: encoder, decoder and the length of a decoded frame.\<close>

definition media_state ::
  "'op opus \<Rightarrow> role \<Rightarrow> channels \<Rightarrow> ('op encoder option \<times> 'op decoder \<times> nat, codec_error) result" where
  "media_state lib role uplink =
     (case role of
        Musician \<Rightarrow>
          (case encoder_new lib uplink Ms2_5 (uplink_bitrate uplink) of
             Inl e \<Rightarrow> Err e
           | Inr enc \<Rightarrow>
               (case decoder_new lib Stereo Ms2_5 of
                  Inl e \<Rightarrow> Err e
                | Inr dec \<Rightarrow> Ok (Some enc, dec, duration_samples Ms2_5 * 2)))
      | Listener \<Rightarrow>
          (case decoder_new lib Stereo Ms20 of
             Inl e \<Rightarrow> Err e
           | Inr dec \<Rightarrow> Ok (None, dec, duration_samples Ms20 * 2)))"

definition connect ::
  "('hs, 'ts, 'op) env \<Rightarrow> bytes \<Rightarrow> invite \<Rightarrow> nat \<Rightarrow>
     (('hs, 'ts, 'op, 'sl) client_core \<times> bytes, session_error) result" where
  "connect env local_private i now =
     (case initiator_new (e_crypto env) (e_serde env) local_private i of
        Inl e \<Rightarrow> Err (ProtocolError e)
      | Inr (ini, init_packet) \<Rightarrow>
          (case media_state (e_opus env) (tk_role (iv_token i)) Mono of
             Inl e \<Rightarrow> Err (CodecFailed e)
           | Inr (encoder, decoder, decode_len) \<Rightarrow>
               Ok (\<lparr>cc_invite = i, cc_state = Connecting, cc_initiator = Some ini,
                    cc_init_packet = init_packet, cc_reject_key = in_reject_key ini,
                    cc_session_full = False, cc_cookied_init = None,
                    cc_cookie_answers = bucket_new COOKIE_ANSWER_BURST COOKIE_ANSWER_PER_SEC,
                    cc_cookie_reply_key = cookie_reply_key (e_crypto env) (iv_server_pk i),
                    cc_session = None, cc_welcome = None, cc_link = link_new, cc_jitter = jitter_new,
                    cc_encoder = encoder, cc_uplink = Mono, cc_decoder = decoder,
                    cc_decode_len = decode_len, cc_fifo = [], cc_redundancy = policy_new REDUNDANCY_OFF_HOLD,
                    cc_uplink_report = None, cc_capture_comp = None, cc_capture_steer = steer_default,
                    cc_playout_comp = None, cc_playout_steer = steer_default, cc_playout_stage = [],
                    cc_playout_frames_since_steer = 0, cc_own_avatar = None, cc_own_name = None,
                    cc_avatar_cache = cache_new CLIENT_AVATAR_CACHE_BYTES, cc_avatar_requested = {},
                    cc_avatar_rx = None, cc_avatar_tx = [], cc_roster = [],
                    cc_avatar_announced = bm_empty, cc_prev_payload = None, cc_frames_sent = 0,
                    cc_events = [], cc_last_server_ms = now, cc_last_ping_ms = now,
                    cc_last_init_ms = now, cc_init_resend_ms = INIT_RESEND_MS, cc_rtt_ms_last = None,
                    cc_ping_nonce = 0\<rparr>, init_packet)))"

definition reconnect ::
  "('hs, 'ts, 'op) env \<Rightarrow> bytes \<Rightarrow> nat \<Rightarrow> ('hs, 'ts, 'op, 'sl) client_core \<Rightarrow>
     (bytes, session_error) result \<times> ('hs, 'ts, 'op, 'sl) client_core" where
  "reconnect env local_private now c =
     (case initiator_new (e_crypto env) (e_serde env) local_private (cc_invite c) of
        Inl e \<Rightarrow> (Err (ProtocolError e), c)
      | Inr (ini, init_packet) \<Rightarrow>
          (case media_state (e_opus env) (tk_role (iv_token (cc_invite c))) (cc_uplink c) of
             Inl e \<Rightarrow> (Err (CodecFailed e), c)
           | Inr (encoder, decoder, decode_len) \<Rightarrow>
               (Ok init_packet,
                c\<lparr>cc_state := Connecting, cc_reject_key := in_reject_key ini, cc_session_full := False,
                  cc_cookied_init := None, cc_initiator := Some ini, cc_init_packet := init_packet,
                  cc_session := None, cc_welcome := None, cc_link := link_new, cc_jitter := jitter_new,
                  cc_encoder := encoder, cc_decoder := decoder, cc_decode_len := decode_len,
                  cc_fifo := [], cc_uplink_report := None, cc_capture_comp := None,
                  cc_capture_steer := steer_default, cc_playout_comp := None,
                  cc_playout_steer := steer_default, cc_playout_stage := [],
                  cc_playout_frames_since_steer := 0, cc_avatar_requested := {}, cc_avatar_rx := None,
                  cc_avatar_tx := [], cc_roster := [], cc_avatar_announced := bm_empty,
                  cc_prev_payload := None, cc_frames_sent := 0, cc_last_server_ms := now,
                  cc_last_init_ms := now, cc_init_resend_ms := INIT_RESEND_MS\<rparr>)))"

end
