(* ===== verification/ClientOps.thy ===== *)
theory ClientOps
  imports ClientState
begin

text \<open>
  What the application calls on the client core (\<open>crates/session/src/client.rs\<close>): avatars and the
  display name, the control messages it may send, the switch of the uplink's channels, and the
  accessors.
\<close>

type_synonym ('a, 'hs, 'ts, 'op, 'sl) client_call =
  "('a, session_error) result \<times> ('hs, 'ts, 'op, 'sl) client_core"

section \<open>Shared steps\<close>

definition client_event_push ::
  "client_event \<Rightarrow> ('hs, 'ts, 'op, 'sl) client_core \<Rightarrow> ('hs, 'ts, 'op, 'sl) client_core" where
  "client_event_push e c = c\<lparr>cc_events := cc_events c @ [e]\<rparr>"

text \<open>\<open>let _ = self.link.send(msg)\<close>: a refused message is dropped.\<close>

definition client_send ::
  "control_msg \<Rightarrow> ('hs, 'ts, 'op, 'sl) client_core \<Rightarrow> ('hs, 'ts, 'op, 'sl) client_core" where
  "client_send msg c = c\<lparr>cc_link := snd (link_send (cc_link c) msg)\<rparr>"

text \<open>\<open>self.link.send(msg)?\<close>: a refusal is reported.\<close>

definition client_try_send ::
  "control_msg \<Rightarrow> ('hs, 'ts, 'op, 'sl) client_core \<Rightarrow> (unit, 'hs, 'ts, 'op, 'sl) client_call" where
  "client_try_send msg c =
     (let (r, link) = link_send (cc_link c) msg; c1 = c\<lparr>cc_link := link\<rparr>
      in (case r of Inl e \<Rightarrow> Err (ProtocolError e) | Inr _ \<Rightarrow> Ok (), c1))"

definition client_member_id :: "('hs, 'ts, 'op, 'sl) client_core \<Rightarrow> member_id option" where
  "client_member_id c = map_option wl_member_id (cc_welcome c)"

definition require_joined ::
  "('hs, 'ts, 'op, 'sl) client_core \<Rightarrow> (member_id, session_error) result" where
  "require_joined c =
     (if cc_state c \<noteq> Joined then Err NotJoined
      else case client_member_id c of None \<Rightarrow> Err NotJoined | Some m \<Rightarrow> Ok m)"

definition when_joined ::
  "(member_id \<Rightarrow> control_msg) \<Rightarrow> ('hs, 'ts, 'op, 'sl) client_core \<Rightarrow> (unit, 'hs, 'ts, 'op, 'sl) client_call" where
  "when_joined msg c =
     (case require_joined c of Inl e \<Rightarrow> (Err e, c) | Inr m \<Rightarrow> client_try_send (msg m) c)"

section \<open>Own identity\<close>

definition avatar_pins :: "('hs, 'ts, 'op, 'sl) client_core \<Rightarrow> hash32 list" where
  "avatar_pins c = List.map_filter mi_avatar_hash (cc_roster c) @
     (case cc_own_avatar c of None \<Rightarrow> [] | Some (h, _) \<Rightarrow> [h])"

definition set_avatar ::
  "('hs, 'ts, 'op) env \<Rightarrow> bytes \<Rightarrow> ('hs, 'ts, 'op, 'sl) client_core \<Rightarrow>
     (hash32, 'hs, 'ts, 'op, 'sl) client_call" where
  "set_avatar env bs c =
     (if bs = [] \<or> MAX_AVATAR_BYTES < length bs then (Err (InvalidParam ''avatar size out of range''), c)
      else
        (let hash = avatar_hash (e_crypto env) bs;
             pins = avatar_pins c @ [hash];
             c1 = c\<lparr>cc_avatar_cache := cache_insert (cc_avatar_cache c) hash bs pins,
                    cc_own_avatar := Some (hash, of_nat (length bs)),
                    cc_avatar_tx := filter (\<lambda>t. at_hash t = hash) (cc_avatar_tx c)\<rparr>
         in if cc_state c1 = Joined
            then (case client_try_send (SetAvatar hash (of_nat (length bs))) c1 of
                    (Inl e, c2) \<Rightarrow> (Err e, c2) | (Inr _, c2) \<Rightarrow> (Ok hash, c2))
            else (Ok hash, c1)))"

definition client_avatar_bytes :: "('hs, 'ts, 'op, 'sl) client_core \<Rightarrow> hash32 \<Rightarrow> bytes option" where
  "client_avatar_bytes c hash = cache_get (cc_avatar_cache c) hash"

definition set_name ::
  "bytes \<Rightarrow> ('hs, 'ts, 'op, 'sl) client_core \<Rightarrow> (unit, 'hs, 'ts, 'op, 'sl) client_call" where
  "set_name name0 c =
     (let name = str_trim name0 in
      if name = [] then (Err (InvalidParam ''name is empty''), c)
      else if MAX_NAME_LEN < length name then (Err (InvalidParam ''name is too long''), c)
      else
        (let c1 = c\<lparr>cc_own_name := Some name\<rparr>
         in if cc_state c1 = Joined then client_try_send (SetName name) c1 else (Ok (), c1)))"

section \<open>Messages\<close>

definition send_chat ::
  "bytes \<Rightarrow> ('hs, 'ts, 'op, 'sl) client_core \<Rightarrow> (unit, 'hs, 'ts, 'op, 'sl) client_call" where
  "send_chat text = when_joined (\<lambda>from. Chat from text)"

text \<open>\<open>-96.0..=24.0\<close> and \<open>-1.0..=1.0\<close>, as bit patterns.\<close>

definition fader_check :: "f32 \<Rightarrow> f32 \<Rightarrow> (unit, session_error) result" where
  "fader_check gain_db pan =
     (if \<not> f32_is_finite gain_db \<or> f32_less gain_db 0xC2C00000 \<or> f32_less 0x41C00000 gain_db
      then Err (InvalidParam ''gain_db out of range'')
      else if \<not> f32_is_finite pan \<or> f32_less pan F32_MINUS_ONE \<or> f32_less F32_ONE pan
      then Err (InvalidParam ''pan out of range'')
      else Ok ())"

definition set_fader ::
  "member_id \<Rightarrow> f32 \<Rightarrow> f32 \<Rightarrow> bool \<Rightarrow> ('hs, 'ts, 'op, 'sl) client_core \<Rightarrow>
     (unit, 'hs, 'ts, 'op, 'sl) client_call" where
  "set_fader target gain_db pan muted c =
     (case require_joined c of
        Inl e \<Rightarrow> (Err e, c)
      | Inr _ \<Rightarrow> (case fader_check gain_db pan of
           Inl e \<Rightarrow> (Err e, c)
         | Inr _ \<Rightarrow> client_try_send (MixerSet target gain_db pan muted) c))"

definition set_broadcast_fader ::
  "member_id \<Rightarrow> f32 \<Rightarrow> f32 \<Rightarrow> bool \<Rightarrow> ('hs, 'ts, 'op, 'sl) client_core \<Rightarrow>
     (unit, 'hs, 'ts, 'op, 'sl) client_call" where
  "set_broadcast_fader target gain_db pan muted c =
     (case require_joined c of
        Inl e \<Rightarrow> (Err e, c)
      | Inr _ \<Rightarrow> (case fader_check gain_db pan of
           Inl e \<Rightarrow> (Err e, c)
         | Inr _ \<Rightarrow> client_try_send (BroadcastMixSet target gain_db pan muted) c))"

definition set_broadcast_audition ::
  "bool \<Rightarrow> ('hs, 'ts, 'op, 'sl) client_core \<Rightarrow> (unit, 'hs, 'ts, 'op, 'sl) client_call" where
  "set_broadcast_audition enabled = when_joined (\<lambda>_. BroadcastAudition enabled)"

definition stream_ctl ::
  "stream_op \<Rightarrow> ('hs, 'ts, 'op, 'sl) client_core \<Rightarrow> (unit, 'hs, 'ts, 'op, 'sl) client_call" where
  "stream_ctl op = when_joined (\<lambda>_. StreamCtl op)"

definition record_ctl ::
  "record_op \<Rightarrow> ('hs, 'ts, 'op, 'sl) client_core \<Rightarrow> (unit, 'hs, 'ts, 'op, 'sl) client_call" where
  "record_ctl op = when_joined (\<lambda>_. RecordCtl op)"

definition set_metronome ::
  "u16 \<Rightarrow> u8 \<Rightarrow> bool \<Rightarrow> ('hs, 'ts, 'op, 'sl) client_core \<Rightarrow> (unit, 'hs, 'ts, 'op, 'sl) client_call" where
  "set_metronome bpm beats_per_bar enabled c =
     (case require_joined c of
        Inl e \<Rightarrow> (Err e, c)
      | Inr _ \<Rightarrow>
          if bpm < 1 \<or> 400 < bpm then (Err (InvalidParam ''bpm out of range''), c)
          else if beats_per_bar < 1 \<or> 16 < beats_per_bar
          then (Err (InvalidParam ''beats_per_bar out of range''), c)
          else client_try_send (MetronomeSet bpm beats_per_bar enabled) c)"

definition set_click ::
  "bool \<Rightarrow> ('hs, 'ts, 'op, 'sl) client_core \<Rightarrow> (unit, 'hs, 'ts, 'op, 'sl) client_call" where
  "set_click enabled = when_joined (\<lambda>_. ClickEnable enabled)"

definition set_hear_self ::
  "bool \<Rightarrow> ('hs, 'ts, 'op, 'sl) client_core \<Rightarrow> (unit, 'hs, 'ts, 'op, 'sl) client_call" where
  "set_hear_self enabled = when_joined (\<lambda>_. HearSelf enabled)"

definition revoke ::
  "token_id \<Rightarrow> ('hs, 'ts, 'op, 'sl) client_core \<Rightarrow> (unit, 'hs, 'ts, 'op, 'sl) client_call" where
  "revoke jti = when_joined (\<lambda>_. Revoke jti)"

definition leave ::
  "bytes \<Rightarrow> ('hs, 'ts, 'op, 'sl) client_core \<Rightarrow> (unit, 'hs, 'ts, 'op, 'sl) client_call" where
  "leave reason = when_joined (\<lambda>_. Bye reason)"

section \<open>The uplink\<close>

definition set_uplink_channels ::
  "('hs, 'ts, 'op) env \<Rightarrow> channels \<Rightarrow> ('hs, 'ts, 'op, 'sl) client_core \<Rightarrow>
     (unit, codec_error) result \<times> ('hs, 'ts, 'op, 'sl) client_core" where
  "set_uplink_channels env ch c =
     (if ch = cc_uplink c then (Ok (), c)
      else
        (let done = (\<lambda>c. (Ok (), c\<lparr>cc_uplink := ch, cc_capture_comp := None, cc_prev_payload := None\<rparr>)) in
         if cc_encoder c = None then done c
         else case encoder_new (e_opus env) ch Ms2_5 (uplink_bitrate ch) of
                Inl e \<Rightarrow> (Err e, c)
              | Inr enc \<Rightarrow> done (c\<lparr>cc_encoder := Some enc\<rparr>)))"

section \<open>Accessors\<close>

definition client_events ::
  "('hs, 'ts, 'op, 'sl) client_core \<Rightarrow> client_event list \<times> ('hs, 'ts, 'op, 'sl) client_core" where
  "client_events c = (cc_events c, c\<lparr>cc_events := []\<rparr>)"

definition client_stats_of :: "('hs, 'ts, 'op, 'sl) client_core \<Rightarrow> client_stats" where
  "client_stats_of c =
     \<lparr>cs_jitter = jitter_stats_of (cc_jitter c), cs_state = cc_state c, cs_rtt_ms_last = cc_rtt_ms_last c,
      cs_uplink_loss_pct = map_option fst (cc_uplink_report c),
      cs_uplink_jitter_depth = map_option (\<lambda>(_, depth, _). depth) (cc_uplink_report c),
      cs_uplink_recovered_pct = map_option (\<lambda>(_, _, recovered). recovered) (cc_uplink_report c),
      cs_redundancy_active = rp_active (cc_redundancy c), cs_session_full = cc_session_full c\<rparr>"

end
