(* ===== verification/ClientRun.thy ===== *)
theory ClientRun
  imports ClientOps
begin

text \<open>
  The client core at work (\<open>crates/session/src/client.rs\<close>): control messages, avatar transfers,
  datagrams, media in both directions and the periodic poll.
\<close>

section \<open>Flushing the link\<close>

definition flush_link ::
  "('hs, 'ts, 'op) env \<Rightarrow> nat \<Rightarrow> ('hs, 'ts, 'op, 'sl) client_core \<Rightarrow>
     bytes list \<times> ('hs, 'ts, 'op, 'sl) client_core" where
  "flush_link env now c =
     (case client_member_id c of
        None \<Rightarrow> ([], c)
      | Some member \<Rightarrow>
          (let (dgs, link) = link_poll (e_pc_enc env) (cc_link c) now;
               c1 = c\<lparr>cc_link := link\<rparr>
           in case cc_session c1 of
                None \<Rightarrow> ([], c1)
              | Some ses \<Rightarrow>
                  (let (out, ses1) = seal_each (e_crypto env) ses member dgs
                   in (out, c1\<lparr>cc_session := Some ses1\<rparr>))))"

section \<open>Avatars\<close>

definition announce ::
  "member_id \<Rightarrow> hash32 \<Rightarrow> ('hs, 'ts, 'op, 'sl) client_core \<Rightarrow> ('hs, 'ts, 'op, 'sl) client_core" where
  "announce member hash c =
     (if bm_get (cc_avatar_announced c) member \<noteq> Some hash
      then client_event_push (EvAvatarReady member hash)
             (c\<lparr>cc_avatar_announced := bm_insert member hash (cc_avatar_announced c)\<rparr>)
      else c)"

definition sync_member ::
  "('hs, 'ts, 'op, 'sl) client_core \<Rightarrow> member_info \<Rightarrow> ('hs, 'ts, 'op, 'sl) client_core" where
  "sync_member c mi =
     (case mi_avatar_hash mi of
        None \<Rightarrow> c\<lparr>cc_avatar_announced := bm_remove (mi_id mi) (cc_avatar_announced c)\<rparr>
      | Some hash \<Rightarrow>
          if cache_contains (cc_avatar_cache c) hash
          then announce (mi_id mi) hash (c\<lparr>cc_avatar_cache := cache_touch (cc_avatar_cache c) hash\<rparr>)
          else if hash \<in> cc_avatar_requested c then c
          else client_send (AvatarRequest hash)
                 (c\<lparr>cc_avatar_requested := insert hash (cc_avatar_requested c)\<rparr>))"

definition sync_avatars ::
  "member_info list \<Rightarrow> ('hs, 'ts, 'op, 'sl) client_core \<Rightarrow> ('hs, 'ts, 'op, 'sl) client_core" where
  "sync_avatars roster c =
     foldl sync_member
       (c\<lparr>cc_avatar_announced :=
            bm_retain (\<lambda>(who, _). list_ex (\<lambda>m. mi_id m = who) roster) (cc_avatar_announced c)\<rparr>) roster"

text \<open>A complete avatar: filed under its hash, nothing pinned evicted, and surfaced.\<close>

definition accept_avatar ::
  "hash32 \<Rightarrow> bytes \<Rightarrow> ('hs, 'ts, 'op, 'sl) client_core \<Rightarrow> ('hs, 'ts, 'op, 'sl) client_core" where
  "accept_avatar hash bs c =
     (let c1 = c\<lparr>cc_avatar_rx := None, cc_avatar_requested := cc_avatar_requested c - {hash}\<rparr>;
          c2 = c1\<lparr>cc_avatar_cache := cache_insert (cc_avatar_cache c1) hash bs (avatar_pins c1)\<rparr>;
          ready = map mi_id (filter (\<lambda>m. mi_avatar_hash m = Some hash) (cc_roster c2))
      in foldl (\<lambda>c who. announce who hash c) c2 ready)"

definition handle_avatar_chunk ::
  "('hs, 'ts, 'op) env \<Rightarrow> hash32 \<Rightarrow> u16 \<Rightarrow> u16 \<Rightarrow> bytes \<Rightarrow> ('hs, 'ts, 'op, 'sl) client_core \<Rightarrow>
     ('hs, 'ts, 'op, 'sl) client_core" where
  "handle_avatar_chunk env hash index tot data c0 =
     (let c = (if index = 0 \<and> hash \<in> cc_avatar_requested c0
               then c0\<lparr>cc_avatar_rx := Some (rx_new hash None)\<rparr> else c0)
      in case cc_avatar_rx c of
           None \<Rightarrow> c
         | Some rx \<Rightarrow>
             if ax_hash rx \<noteq> hash then c
             else case rx_push (e_crypto env) rx index tot data of
               (Inl _, _) \<Rightarrow> c\<lparr>cc_avatar_rx := None\<rparr>
             | (Inr More, rx1) \<Rightarrow> c\<lparr>cc_avatar_rx := Some rx1\<rparr>
             | (Inr (Done bs), _) \<Rightarrow> accept_avatar hash bs c)"

section \<open>Control messages\<close>

text \<open>The value of a bit pattern; \<open>None\<close> when it is not finite.\<close>

definition f32_value :: "f32 \<Rightarrow> rat option" where
  "f32_value x =
     (if \<not> f32_is_finite x then None
      else
        (let e = uint (f32_abs x) div 2 ^ 23; m = uint (f32_abs x) mod 2 ^ 23;
             v = (if e = 0 then of_int m * two_pow (- 149) else of_int (m + 2 ^ 23) * two_pow (e - 150))
         in Some (if bit x 31 then - v else v)))"

definition client_on_stats ::
  "f32 \<Rightarrow> u16 \<Rightarrow> f32 \<Rightarrow> ('hs, 'ts, 'op, 'sl) client_core \<Rightarrow> ('hs, 'ts, 'op, 'sl) client_core" where
  "client_on_stats loss depth recovered c =
     c\<lparr>cc_uplink_report := Some (loss, depth, recovered),
       cc_redundancy := policy_report (cc_redundancy c) (map_option (\<lambda>v. f32 (v / 100)) (f32_value loss)),
       cc_capture_steer := steer_update (cc_capture_steer c) (of_nat (unat depth)) 2\<rparr>"

text \<open>The server asks for our bytes; a stale hash, or a train already queued, is ignored.\<close>

definition client_on_avatar_request ::
  "hash32 \<Rightarrow> ('hs, 'ts, 'op, 'sl) client_core \<Rightarrow> ('hs, 'ts, 'op, 'sl) client_core" where
  "client_on_avatar_request hash c =
     (if (case cc_own_avatar c of None \<Rightarrow> False | Some (h, _) \<Rightarrow> h = hash)
         \<and> \<not> list_ex (\<lambda>t. at_hash t = hash) (cc_avatar_tx c)
      then c\<lparr>cc_avatar_tx := cc_avatar_tx c @ [tx_new hash]\<rparr> else c)"

fun client_control ::
  "('hs, 'ts, 'op) env \<Rightarrow> nat \<Rightarrow> ('hs, 'ts, 'op, 'sl) client_core \<Rightarrow> control_msg \<Rightarrow>
     ('hs, 'ts, 'op, 'sl) client_core" where
  "client_control env now c (Roster members) =
     client_event_push (EvRoster members) ((sync_avatars members c)\<lparr>cc_roster := members\<rparr>)"
| "client_control env now c (Chat from text) = client_event_push (EvChat from text) c"
| "client_control env now c (MetronomeSet bpm beats enabled) =
     client_event_push (EvMetronomeChanged bpm beats enabled) c"
| "client_control env now c (Ping nonce sent_ms) = client_send (Pong nonce sent_ms) c"
| "client_control env now c (Pong nonce sent_ms) =
     (let ms = f32_of_nat (now - unat sent_ms)
      in client_event_push (EvRttSample ms) (c\<lparr>cc_rtt_ms_last := Some ms\<rparr>))"
| "client_control env now c (Stats loss depth recovered) = client_on_stats loss depth recovered c"
| "client_control env now c (Bye reason) =
     client_event_push (EvEjected reason) (c\<lparr>cc_state := Ejected reason\<rparr>)"
| "client_control env now c (BroadcastMixSet target gain_db pan muted) =
     client_event_push (EvBroadcastMixChanged target gain_db pan muted) c"
| "client_control env now c (AvatarRequest hash) = client_on_avatar_request hash c"
| "client_control env now c (AvatarChunk hash index tot data) = handle_avatar_chunk env hash index tot data c"
| "client_control env now c (StreamStatus destinations) = client_event_push (EvStreamStatus destinations) c"
| "client_control env now c (RecordStatus state with_stems) =
     client_event_push (EvRecordStatus state with_stems) c"
| "client_control env now c (BroadcastReady state) = client_event_push (EvBroadcastReadiness state) c"
| "client_control env now c (ServerLog line) = c"
| "client_control env now c _ = c"

section \<open>Datagrams\<close>

text \<open>The handshake is complete; the avatar and the name are announced on every join.\<close>

definition enter_session ::
  "nat \<Rightarrow> 'ts session \<Rightarrow> welcome_msg \<Rightarrow> ('hs, 'ts, 'op, 'sl) client_core \<Rightarrow>
     ('hs, 'ts, 'op, 'sl) client_core" where
  "enter_session now ses w c =
     (let c1 = client_event_push EvJoined
            (c\<lparr>cc_initiator := None, cc_session := Some ses, cc_welcome := Some w,
               cc_state := Joined, cc_session_full := False, cc_last_server_ms := now,
               cc_last_ping_ms := now\<rparr>);
          c2 = (case cc_own_avatar c1 of None \<Rightarrow> c1 | Some (hash, len) \<Rightarrow> client_send (SetAvatar hash len) c1)
      in case cc_own_name c2 of None \<Rightarrow> c2 | Some name \<Rightarrow> client_send (SetName name) c2)"

definition on_handshake_resp ::
  "('hs, 'ts, 'op) env \<Rightarrow> nat \<Rightarrow> bytes \<Rightarrow> ('hs, 'ts, 'op, 'sl) client_core \<Rightarrow>
     ('hs, 'ts, 'op, 'sl) client_core" where
  "on_handshake_resp env now noise c =
     (if \<not> (case cc_state c of Connecting \<Rightarrow> True | Rejected _ _ \<Rightarrow> True | _ \<Rightarrow> False) then c
      else case cc_initiator c of
        None \<Rightarrow> c
      | Some ini \<Rightarrow>
          (case initiator_finish (e_crypto env) (e_serde env) ini noise of
             Inr (ses, w) \<Rightarrow> enter_session now ses w c
           | Inl (_, back) \<Rightarrow> c\<lparr>cc_initiator := back\<rparr>))"

definition on_version_reject ::
  "('hs, 'ts, 'op) env \<Rightarrow> nat \<Rightarrow> u16 \<Rightarrow> u16 \<Rightarrow> bytes \<Rightarrow> ('hs, 'ts, 'op, 'sl) client_core \<Rightarrow>
     ('hs, 'ts, 'op, 'sl) client_core" where
  "on_version_reject env now ours theirs mac c =
     (if cc_state c = Connecting \<and>
         (case cc_reject_key c of
            None \<Rightarrow> False
          | Some key \<Rightarrow> verify_version_reject (e_crypto env) key ours theirs mac (cc_init_packet c))
      then client_event_push (EvRejected theirs ours)
             (c\<lparr>cc_state := Rejected theirs ours, cc_last_init_ms := now, cc_init_resend_ms := REJECT_RETRY_MS\<rparr>)
      else c)"

definition on_capacity_reject ::
  "('hs, 'ts, 'op) env \<Rightarrow> nat \<Rightarrow> bytes \<Rightarrow> ('hs, 'ts, 'op, 'sl) client_core \<Rightarrow>
     ('hs, 'ts, 'op, 'sl) client_core" where
  "on_capacity_reject env now mac c =
     (if \<not> cc_session_full c \<and> cc_state c = Connecting \<and>
         (case cc_reject_key c of
            None \<Rightarrow> False
          | Some key \<Rightarrow> verify_capacity_reject (e_crypto env) key mac (cc_init_packet c))
      then client_event_push EvSessionFull
             (c\<lparr>cc_session_full := True, cc_last_init_ms := now, cc_init_resend_ms := REJECT_RETRY_MS\<rparr>)
      else c)"

text \<open>What an opened packet holds: a media frame for the jitter buffer, or control messages, whose acks
  and answers go out in the same call.\<close>

definition on_plain ::
  "('hs, 'ts, 'op) env \<Rightarrow> nat \<Rightarrow> bytes \<Rightarrow> ('hs, 'ts, 'op, 'sl) client_core \<Rightarrow>
     bytes list \<times> ('hs, 'ts, 'op, 'sl) client_core" where
  "on_plain env now plain c =
     (case split_channel plain of
        Inl _ \<Rightarrow> ([], c)
      | Inr (chan, _) \<Rightarrow>
          if chan = CHANNEL_MEDIA then
            (case media_decode plain of
               Inl _ \<Rightarrow> ([], c)
             | Inr f \<Rightarrow>
                 ([], c\<lparr>cc_jitter := jitter_push (cc_jitter c)
                    \<lparr>mp_seq = unat (mf_seq f), mp_timestamp = unat (mf_timestamp f),
                     mp_payload = mf_payload f, mp_redundant = mf_redundant f\<rparr>\<rparr>))
          else if chan = CHANNEL_CONTROL then
            (let (r, link) = link_receive (e_pc_dec env) (cc_link c) plain;
                 c1 = c\<lparr>cc_link := link\<rparr>;
                 c2 = (case r of Inl _ \<Rightarrow> c1 | Inr msgs \<Rightarrow> foldl (client_control env now) c1 msgs)
             in flush_link env now c2)
          else ([], c))"

definition on_transport ::
  "('hs, 'ts, 'op) env \<Rightarrow> nat \<Rightarrow> u64 \<Rightarrow> bytes \<Rightarrow> ('hs, 'ts, 'op, 'sl) client_core \<Rightarrow>
     bytes list \<times> ('hs, 'ts, 'op, 'sl) client_core" where
  "on_transport env now counter ciphertext c =
     (case cc_session c of
        None \<Rightarrow> ([], c)
      | Some ses \<Rightarrow>
          (let (opened, ses1) = session_open (e_crypto env) ses counter ciphertext;
               c1 = c\<lparr>cc_session := Some ses1\<rparr>
           in case opened of
                Inl _ \<Rightarrow> ([], c1)
              | Inr plain \<Rightarrow> on_plain env now plain (c1\<lparr>cc_last_server_ms := now\<rparr>)))"

definition on_cookie_challenge ::
  "('hs, 'ts, 'op) env \<Rightarrow> nat \<Rightarrow> bytes \<Rightarrow> bytes \<Rightarrow> ('hs, 'ts, 'op, 'sl) client_core \<Rightarrow>
     bytes list \<times> ('hs, 'ts, 'op, 'sl) client_core" where
  "on_cookie_challenge env now nonce sealed c =
     (if cc_state c \<noteq> Connecting then ([], c)
      else case open_cookie_challenge (e_crypto env) (cc_cookie_reply_key c) nonce sealed (cc_init_packet c) of
        None \<Rightarrow> ([], c)
      | Some cookie \<Rightarrow>
          (case parse (cc_init_packet c) of
             Inr (HandshakeInit version noise) \<Rightarrow>
               (let cookied = build_cookied_init cookie version noise in
                if cc_cookied_init c = Some cookied then ([], c)
                else
                  (let (paid, b) = bucket_take (cc_cookie_answers c) now;
                       c1 = c\<lparr>cc_cookie_answers := b\<rparr>
                   in if \<not> paid then ([], c1)
                      else ([cc_init_packet c1, cookied], c1\<lparr>cc_cookied_init := Some cookied\<rparr>)))
           | _ \<Rightarrow> ([], c)))"

definition client_datagram ::
  "('hs, 'ts, 'op) env \<Rightarrow> nat \<Rightarrow> bytes \<Rightarrow> ('hs, 'ts, 'op, 'sl) client_core \<Rightarrow>
     bytes list \<times> ('hs, 'ts, 'op, 'sl) client_core" where
  "client_datagram env now data c =
     (case parse data of
        Inr (HandshakeResp noise) \<Rightarrow> ([], on_handshake_resp env now noise c)
      | Inr (VersionReject ours theirs mac) \<Rightarrow> ([], on_version_reject env now ours theirs mac c)
      | Inr (CapacityReject mac) \<Rightarrow> ([], on_capacity_reject env now mac c)
      | Inr (Transport _ counter ciphertext) \<Rightarrow> on_transport env now counter ciphertext c
      | Inr (CookieChallenge nonce sealed) \<Rightarrow> on_cookie_challenge env now nonce sealed c
      | _ \<Rightarrow> ([], c))"

section \<open>Media\<close>

text \<open>The frame for one packet of the encoder, with the packet before it while the policy asks for it.\<close>

definition capture_packet ::
  "('hs, 'ts, 'op, 'sl) client_core \<Rightarrow> welcome_msg \<Rightarrow> bytes \<Rightarrow> media_frame" where
  "capture_packet c w payload =
     \<lparr>mf_seq = of_nat (cc_frames_sent c),
      mf_timestamp = wl_sample_clock w + of_nat (cc_frames_sent c) * of_nat TICK_SAMPLES,
      mf_duration = Ms2_5, mf_stereo = (cc_uplink c = Stereo), mf_payload = payload,
      mf_redundant = (if rp_active (cc_redundancy c) then cc_prev_payload c else None)\<rparr>"

definition seal_capture ::
  "('hs, 'ts, 'op) env \<Rightarrow> member_id \<Rightarrow> bytes \<Rightarrow> ('hs, 'ts, 'op, 'sl) client_core \<Rightarrow>
     bytes list \<times> ('hs, 'ts, 'op, 'sl) client_core" where
  "seal_capture env member frame c =
     (case cc_session c of
        None \<Rightarrow> ([], c)
      | Some ses \<Rightarrow>
          (let (p, ses1) = session_seal (e_crypto env) ses member frame
           in (case p of Inl _ \<Rightarrow> [] | Inr dg \<Rightarrow> [dg], c\<lparr>cc_session := Some ses1\<rparr>)))"

text \<open>
  One capture frame; the encoder's packet becomes the redundant copy of the next.  \<open>None\<close> is the panic
  of \<open>MediaFrame::encode\<close> on a payload too long for its length prefix.
\<close>

definition push_capture ::
  "('hs, 'ts, 'op) env \<Rightarrow> f32 list \<Rightarrow> ('hs, 'ts, 'op, 'sl) client_core \<Rightarrow>
     (bytes list \<times> ('hs, 'ts, 'op, 'sl) client_core) option" where
  "push_capture env pcm c =
     (if cc_state c \<noteq> Joined then Some ([], c)
      else case (cc_encoder c, cc_welcome c) of
        (Some enc, Some w) \<Rightarrow>
          (let (r, enc1) = encoder_encode (e_opus env) enc pcm; c1 = c\<lparr>cc_encoder := Some enc1\<rparr>
           in case r of
                Inl _ \<Rightarrow> Some ([], c1)
              | Inr payload \<Rightarrow>
                  (case media_encode (capture_packet c1 w payload) of
                     None \<Rightarrow> None
                   | Some frame \<Rightarrow>
                       (let (out, c2) = seal_capture env (wl_member_id w) frame c1
                        in Some (out, c2\<lparr>cc_frames_sent := wrap64 (cc_frames_sent c2 + 1),
                                         cc_prev_payload := Some payload\<rparr>))))
      | _ \<Rightarrow> Some ([], c))"

text \<open>What one pull of the jitter buffer decodes to, of \<open>n\<close> samples; \<open>None\<close> while it waits.\<close>

definition decode_next ::
  "('hs, 'ts, 'op) env \<Rightarrow> nat \<Rightarrow> ('hs, 'ts, 'op, 'sl) client_core \<Rightarrow>
     f32 list option \<times> ('hs, 'ts, 'op, 'sl) client_core" where
  "decode_next env n c =
     (let (r, j) = jitter_pull (cc_jitter c); c1 = c\<lparr>cc_jitter := j\<rparr>;
          run = (\<lambda>p. case decoder_decode (e_opus env) (cc_decoder c1) p n False of
                   (res, d) \<Rightarrow> (Some (case res of Inl _ \<Rightarrow> replicate n 0 | Inr pcm \<Rightarrow> pcm), c1\<lparr>cc_decoder := d\<rparr>))
      in case r of
           Frame p \<Rightarrow> run (Some p)
         | Recovered p \<Rightarrow> run (Some p)
         | Missing \<Rightarrow> run None
         | Waiting \<Rightarrow> (None, c1))"

text \<open>Listeners: decode until the queue holds a pull's worth, or the buffer waits.\<close>

partial_function (option) fill_fifo ::
  "('hs, 'ts, 'op) env \<Rightarrow> nat \<Rightarrow> ('hs, 'ts, 'op, 'sl) client_core \<Rightarrow>
     ('hs, 'ts, 'op, 'sl) client_core option" where
  "fill_fifo env want c =
     (if want \<le> length (cc_fifo c) then Some c
      else case decode_next env (cc_decode_len c) c of
             (None, c1) \<Rightarrow> Some c1
           | (Some pcm, c1) \<Rightarrow> fill_fifo env want (c1\<lparr>cc_fifo := cc_fifo c1 @ pcm\<rparr>))"

text \<open>The first \<open>n\<close> samples of the queue, silence for what is missing.\<close>

definition pull_playout ::
  "('hs, 'ts, 'op) env \<Rightarrow> nat \<Rightarrow> ('hs, 'ts, 'op, 'sl) client_core \<Rightarrow>
     (f32 list \<times> ('hs, 'ts, 'op, 'sl) client_core) option" where
  "pull_playout env n c =
     (case tk_role (iv_token (cc_invite c)) of
        Musician \<Rightarrow>
          Some (case decode_next env n c of
                  (None, c1) \<Rightarrow> (replicate n 0, c1) | (Some pcm, c1) \<Rightarrow> (pcm, c1))
      | Listener \<Rightarrow>
          (case fill_fifo env n c of
             None \<Rightarrow> None
           | Some c1 \<Rightarrow>
               Some (take n (cc_fifo c1) @ replicate (n - length (cc_fifo c1)) 0,
                     c1\<lparr>cc_fifo := drop n (cc_fifo c1)\<rparr>)))"

section \<open>Device-paced media\<close>

text \<open>Frames are captured as long as the compensator yields one.\<close>

partial_function (option) capture_frames ::
  "('hs, 'ts, 'op) env \<Rightarrow> 'sl slip \<Rightarrow> 'sl drift \<Rightarrow> ('hs, 'ts, 'op, 'sl) client_core \<Rightarrow>
     (bytes list \<times> 'sl drift \<times> ('hs, 'ts, 'op, 'sl) client_core) option" where
  "capture_frames env lib pacer c =
     (case drift_pull lib pacer of
        (None, comp1) \<Rightarrow> Some ([], comp1, c)
      | (Some frame, comp1) \<Rightarrow>
          Option.bind (push_capture env frame c)
            (\<lambda>(out, c1). Option.bind (capture_frames env lib comp1 c1)
               (\<lambda>(rest, comp2, c2). Some (out @ rest, comp2, c2))))"

definition comp_or_new :: "'sl slip \<Rightarrow> nat \<Rightarrow> 'sl drift option \<Rightarrow> 'sl drift option" where
  "comp_or_new lib ch pacer = (case pacer of None \<Rightarrow> drift_new lib TICK_SAMPLES ch | Some d \<Rightarrow> Some d)"

definition push_capture_raw ::
  "('hs, 'ts, 'op) env \<Rightarrow> 'sl slip \<Rightarrow> f32 list \<Rightarrow> ('hs, 'ts, 'op, 'sl) client_core \<Rightarrow>
     (bytes list \<times> ('hs, 'ts, 'op, 'sl) client_core) option" where
  "push_capture_raw env lib samples c =
     Option.bind (comp_or_new lib (channel_count (cc_uplink c)) (cc_capture_comp c)) (\<lambda>pacer.
       Option.bind
         (capture_frames env lib
            (drift_push (drift_steer pacer (Some (dp_steer_ppm (cc_capture_steer c)))) samples)
            (c\<lparr>cc_capture_comp := None\<rparr>))
         (\<lambda>(out, comp1, c1). Some (out, c1\<lparr>cc_capture_comp := Some comp1\<rparr>)))"

text \<open>Playout is decoded and pushed until the compensator yields a frame.\<close>

partial_function (option) playout_frame ::
  "('hs, 'ts, 'op) env \<Rightarrow> 'sl slip \<Rightarrow> 'sl drift \<Rightarrow> ('hs, 'ts, 'op, 'sl) client_core \<Rightarrow>
     (f32 list \<times> 'sl drift \<times> ('hs, 'ts, 'op, 'sl) client_core) option" where
  "playout_frame env lib pacer c =
     (case drift_pull lib pacer of
        (Some frame, comp1) \<Rightarrow> Some (frame, comp1, c)
      | (None, comp1) \<Rightarrow>
          Option.bind (pull_playout env MIX_LEN c)
            (\<lambda>(decoded, c1). playout_frame env lib (drift_push comp1 decoded) c1))"

text \<open>The staged samples first, then frame after frame; \<open>out\<close> is what is filled so far.\<close>

partial_function (option) playout_fill ::
  "('hs, 'ts, 'op) env \<Rightarrow> 'sl slip \<Rightarrow> nat \<Rightarrow> f32 list \<Rightarrow> 'sl drift \<Rightarrow>
     ('hs, 'ts, 'op, 'sl) client_core \<Rightarrow>
     (f32 list \<times> 'sl drift \<times> ('hs, 'ts, 'op, 'sl) client_core) option" where
  "playout_fill env lib n out pacer c =
     (if n \<le> length out then Some (out, pacer, c)
      else case cc_playout_stage c of
             s # stage \<Rightarrow> playout_fill env lib n (out @ [s]) pacer (c\<lparr>cc_playout_stage := stage\<rparr>)
           | [] \<Rightarrow>
               Option.bind (playout_frame env lib pacer c)
                 (\<lambda>(frame, comp1, c1).
                    playout_fill env lib n out comp1
                      (c1\<lparr>cc_playout_stage := cc_playout_stage c1 @ frame\<rparr>)))"

definition pull_playout_raw ::
  "('hs, 'ts, 'op) env \<Rightarrow> 'sl slip \<Rightarrow> nat \<Rightarrow> ('hs, 'ts, 'op, 'sl) client_core \<Rightarrow>
     (f32 list \<times> ('hs, 'ts, 'op, 'sl) client_core) option" where
  "pull_playout_raw env lib n c =
     Option.bind (comp_or_new lib 2 (cc_playout_comp c)) (\<lambda>pacer.
       Option.bind
         (playout_fill env lib n [] (drift_steer pacer (Some (dp_steer_ppm (cc_playout_steer c))))
            (c\<lparr>cc_playout_comp := None\<rparr>))
         (\<lambda>(out, comp1, c1).
            let frames = wrap64 (cc_playout_frames_since_steer c1 + n div 2);
                js = jitter_stats_of (cc_jitter c1);
                c2 = (if PLAYOUT_STEER_FRAMES \<le> frames
                      then c1\<lparr>cc_playout_frames_since_steer := 0,
                              cc_playout_steer := steer_update (cc_playout_steer c1)
                                (of_nat (js_depth_frames js)) (of_nat (js_target_frames js + 1))\<rparr>
                      else c1\<lparr>cc_playout_frames_since_steer := frames\<rparr>)
            in Some (out, c2\<lparr>cc_playout_comp := Some comp1\<rparr>)))"

section \<open>The poll\<close>

text \<open>The upload of our own avatar: at most a few chunks per poll, a refused chunk counted as sent.\<close>

function client_feed ::
  "avatar_cache \<Rightarrow> nat \<Rightarrow> control_link \<Rightarrow> avatar_tx list \<Rightarrow> control_link \<times> avatar_tx list" where
  "client_feed cache fed link txs =
     (if fed < AVATAR_CHUNKS_PER_POLL then
        (case txs of
           [] \<Rightarrow> (link, [])
         | tx # rest \<Rightarrow>
             (case (case cache_get cache (at_hash tx) of
                      None \<Rightarrow> (None, tx) | Some bs \<Rightarrow> tx_next_chunk tx bs) of
                (Some chunk, tx1) \<Rightarrow> client_feed cache (fed + 1) (snd (link_send link chunk)) (tx1 # rest)
              | (None, _) \<Rightarrow> client_feed cache fed link rest))
      else (link, txs))"
  by pat_completeness auto

termination
  by (relation "measures [\<lambda>(_, _, _, txs). length txs, \<lambda>(_, fed, _, _). AVATAR_CHUNKS_PER_POLL - fed]")
    auto

declare client_feed.simps [simp del]

definition poll_connecting ::
  "nat \<Rightarrow> ('hs, 'ts, 'op, 'sl) client_core \<Rightarrow> bytes list \<times> ('hs, 'ts, 'op, 'sl) client_core" where
  "poll_connecting now c =
     (let timeout = (\<not> cc_session_full c);
          backoff_cap = (if cc_session_full c then REJECT_RETRY_MAX_MS else INIT_RESEND_MAX_MS)
      in if timeout \<and> CONNECTION_TIMEOUT_MS \<le> now - cc_last_server_ms c
         then ([], client_event_push EvTimedOut (c\<lparr>cc_state := TimedOut\<rparr>))
         else if cc_init_resend_ms c \<le> now - cc_last_init_ms c
         then (cc_init_packet c # (case cc_cookied_init c of None \<Rightarrow> [] | Some cookied \<Rightarrow> [cookied]),
               c\<lparr>cc_last_init_ms := now, cc_init_resend_ms := min (wrap64 (cc_init_resend_ms c * 2)) backoff_cap\<rparr>)
         else ([], c))"

definition poll_joined ::
  "('hs, 'ts, 'op) env \<Rightarrow> nat \<Rightarrow> ('hs, 'ts, 'op, 'sl) client_core \<Rightarrow>
     bytes list \<times> ('hs, 'ts, 'op, 'sl) client_core" where
  "poll_joined env now c =
     (if CONNECTION_TIMEOUT_MS \<le> now - cc_last_server_ms c \<or> link_is_dead (cc_link c)
      then ([], client_event_push EvTimedOut (c\<lparr>cc_state := TimedOut\<rparr>))
      else
        (let c1 = (if PING_INTERVAL_MS \<le> now - cc_last_ping_ms c
                   then client_send (Ping (cc_ping_nonce c + 1) (of_nat now))
                          (c\<lparr>cc_last_ping_ms := now, cc_ping_nonce := cc_ping_nonce c + 1\<rparr>)
                   else c);
             (link, txs) = client_feed (cc_avatar_cache c1) 0 (cc_link c1) (cc_avatar_tx c1)
         in flush_link env now (c1\<lparr>cc_link := link, cc_avatar_tx := txs\<rparr>)))"

definition poll_rejected ::
  "nat \<Rightarrow> ('hs, 'ts, 'op, 'sl) client_core \<Rightarrow> bytes list \<times> ('hs, 'ts, 'op, 'sl) client_core" where
  "poll_rejected now c =
     (if cc_init_resend_ms c \<le> now - cc_last_init_ms c
      then ([cc_init_packet c],
            c\<lparr>cc_last_init_ms := now,
              cc_init_resend_ms := min (wrap64 (cc_init_resend_ms c * 2)) REJECT_RETRY_MAX_MS\<rparr>)
      else ([], c))"

definition client_poll ::
  "('hs, 'ts, 'op) env \<Rightarrow> nat \<Rightarrow> ('hs, 'ts, 'op, 'sl) client_core \<Rightarrow>
     bytes list \<times> ('hs, 'ts, 'op, 'sl) client_core" where
  "client_poll env now c =
     (case cc_state c of
        Connecting \<Rightarrow> poll_connecting now c
      | Joined \<Rightarrow> poll_joined env now c
      | Rejected _ _ \<Rightarrow> poll_rejected now c
      | _ \<Rightarrow> ([], c))"

end
