(* ===== verification/ServerControl.thy ===== *)
theory ServerControl
  imports ServerOps
begin

text \<open>
  \<open>handle_control\<close> of \<open>crates/session/src/server.rs\<close>: what one authenticated control message does,
  one definition per message that changes state, and the dispatch over all of them.
\<close>

section \<open>Chat, mixer and metronome\<close>

definition ctl_chat ::
  "nat \<Rightarrow> member_id \<Rightarrow> bytes \<Rightarrow> ('ts, 'op) server_core \<Rightarrow> ('ts, 'op) server_core" where
  "ctl_chat now from text s =
     (let (granted, s1) = take_fanout now from s
      in if granted then fan_out (Chat from text) s1 else s1)"

definition clamped_fader :: "f32 \<Rightarrow> f32 \<Rightarrow> bool \<Rightarrow> fader" where
  "clamped_fader gain_db pan muted =
     \<lparr>fd_gain_db = f32_clamp gain_db 0xC2C00000 0x41C00000,
      fd_pan = f32_clamp pan F32_MINUS_ONE F32_ONE, fd_muted = muted\<rparr>"

definition ctl_mixer_set ::
  "nat \<Rightarrow> member_id \<Rightarrow> member_id \<Rightarrow> f32 \<Rightarrow> f32 \<Rightarrow> bool \<Rightarrow> ('ts, 'op) server_core \<Rightarrow>
     ('ts, 'op) server_core" where
  "ctl_mixer_set now from target gain_db pan muted s =
     (if \<not> f32_is_finite gain_db \<or> \<not> f32_is_finite pan then violation now from ''non-finite fader'' s
      else upd_member from
             (\<lambda>m. m\<lparr>mb_faders := bm_insert target (clamped_fader gain_db pan muted) (mb_faders m)\<rparr>) s)"

definition ctl_metronome_set ::
  "nat \<Rightarrow> member_id \<Rightarrow> u16 \<Rightarrow> u8 \<Rightarrow> bool \<Rightarrow> ('ts, 'op) server_core \<Rightarrow> ('ts, 'op) server_core" where
  "ctl_metronome_set now from bpm beats_per_bar enabled s =
     (if from \<noteq> HOST_MEMBER_ID then violation now from ''metronome set by non-host'' s
      else fan_out (MetronomeSet bpm beats_per_bar enabled)
             (s\<lparr>sv_metronome := \<lparr>mt_bpm = bpm, mt_beats_per_bar = beats_per_bar\<rparr>,
                sv_metronome_enabled := enabled\<rparr>))"

definition ctl_hear_self ::
  "nat \<Rightarrow> member_id \<Rightarrow> bool \<Rightarrow> ('ts, 'op) server_core \<Rightarrow> ('ts, 'op) server_core" where
  "ctl_hear_self now from enabled s =
     (case get_member s from of
        None \<Rightarrow> s
      | Some m \<Rightarrow>
          if mb_role m \<noteq> Musician then violation now from ''hear self by listener'' s
          else upd_member from (\<lambda>m. m\<lparr>mb_hear_self := enabled\<rparr>) s)"

definition ctl_broadcast_mix_set ::
  "nat \<Rightarrow> member_id \<Rightarrow> member_id \<Rightarrow> f32 \<Rightarrow> f32 \<Rightarrow> bool \<Rightarrow> ('ts, 'op) server_core \<Rightarrow>
     ('ts, 'op) server_core" where
  "ctl_broadcast_mix_set now from target gain_db pan muted s =
     (if from \<noteq> HOST_MEMBER_ID then violation now from ''broadcast mix set by non-host'' s
      else if \<not> f32_is_finite gain_db \<or> \<not> f32_is_finite pan
      then violation now from ''non-finite fader'' s
      else
        (let f = clamped_fader gain_db pan muted
         in fan_out (BroadcastMixSet target (fd_gain_db f) (fd_pan f) muted)
              (s\<lparr>sv_bcast_faders := bm_insert target f (sv_bcast_faders s)\<rparr>)))"

definition ctl_broadcast_audition ::
  "nat \<Rightarrow> member_id \<Rightarrow> bool \<Rightarrow> ('ts, 'op) server_core \<Rightarrow> ('ts, 'op) server_core" where
  "ctl_broadcast_audition now from enabled s =
     (if from \<noteq> HOST_MEMBER_ID then violation now from ''broadcast audition by non-host'' s
      else s\<lparr>sv_audition := enabled\<rparr>)"

section \<open>Revocation and leaving\<close>

definition member_with_jti :: "token_id \<Rightarrow> ('ts, 'op) server_core \<Rightarrow> member_id option" where
  "member_with_jti jti s = map_option fst (find (\<lambda>(_, m). mb_jti m = jti) (bm_entries (sv_members s)))"

definition ctl_revoke ::
  "('hs, 'ts, 'op) env \<Rightarrow> nat \<Rightarrow> member_id \<Rightarrow> token_id \<Rightarrow> ('ts, 'op) server_core \<Rightarrow>
     outgoing \<times> ('ts, 'op) server_core" where
  "ctl_revoke env now from jti s =
     (if from \<noteq> HOST_MEMBER_ID then ([], violation now from ''revoke by non-host'' s)
      else
        (let s1 = (if jti \<in> sv_revoked s then s
                   else push_event (TokenRevoked jti) (s\<lparr>sv_revoked := insert jti (sv_revoked s)\<rparr>))
         in case member_with_jti jti s1 of
              None \<Rightarrow> ([], s1)
            | Some who \<Rightarrow>
                (let (out, s2) = farewell env now who (str ''invite revoked'') s1;
                     s3 = (if who = HOST_MEMBER_ID then s2\<lparr>sv_audition := False\<rparr> else s2);
                     s4 = s3\<lparr>sv_members := bm_remove who (sv_members s3)\<rparr>
                 in (out, note_musician_count (queue_roster (push_event (MemberRevoked who) s4))))))"

definition ctl_bye :: "member_id \<Rightarrow> ('ts, 'op) server_core \<Rightarrow> ('ts, 'op) server_core" where
  "ctl_bye from s =
     (if (case get_member s from of None \<Rightarrow> False | Some m \<Rightarrow> mb_connected m)
      then note_musician_count (queue_roster
             (push_event (MemberDisconnected from) (disconnect_member from s)))
      else s)"

section \<open>Avatars\<close>

definition announced_hashes :: "('ts, 'op) server_core \<Rightarrow> hash32 list" where
  "announced_hashes s = List.map_filter (\<lambda>m. map_option fst (mb_avatar m)) (bm_values (sv_members s))"

definition note_avatar_waiter ::
  "hash32 \<Rightarrow> member_id \<Rightarrow> ('ts, 'op) server_core \<Rightarrow> ('ts, 'op) server_core" where
  "note_avatar_waiter hash waiter s =
     (let cap = cf_max_musicians (sv_cfg s) + cf_max_listeners (sv_cfg s);
          full = (cap \<le> bm_len (sv_avatar_waiters s) \<and> \<not> bm_contains (sv_avatar_waiters s) hash);
          s1 = (if full
                then s\<lparr>sv_avatar_waiters :=
                         bm_retain (\<lambda>(h, _). h \<in> set (announced_hashes s)) (sv_avatar_waiters s)\<rparr>
                else s)
      in if full \<and> cap \<le> bm_len (sv_avatar_waiters s1) then s1
         else
           (let w = (case bm_get (sv_avatar_waiters s1) hash of None \<Rightarrow> [] | Some w \<Rightarrow> w)
            in s1\<lparr>sv_avatar_waiters :=
                    bm_insert hash (if waiter \<in> set w then w else w @ [waiter]) (sv_avatar_waiters s1)\<rparr>))"

definition ctl_set_avatar ::
  "nat \<Rightarrow> member_id \<Rightarrow> hash32 \<Rightarrow> u32 \<Rightarrow> ('ts, 'op) server_core \<Rightarrow> ('ts, 'op) server_core" where
  "ctl_set_avatar now from hash len s =
     (if len = 0 \<or> MAX_AVATAR_BYTES < unat len
      then violation now from ''avatar length out of range'' s
      else
        (let unchanged = (case get_member s from of
                            None \<Rightarrow> False | Some m \<Rightarrow> mb_avatar m = Some (hash, len));
             (go, s1) = (if unchanged then (True, s) else take_fanout now from s)
         in if \<not> go then s1
            else
              (let have_bytes = cache_contains (sv_avatar_cache s1) hash;
                   s2 = (if have_bytes
                         then s1\<lparr>sv_avatar_cache := cache_touch (sv_avatar_cache s1) hash\<rparr> else s1)
               in case get_member s2 from of
                    None \<Rightarrow> s2
                  | Some m0 \<Rightarrow>
                      (let m = m0\<lparr>mb_avatar := Some (hash, len)\<rparr>;
                           running = (unchanged \<and>
                             (case mb_avatar_rx m of None \<Rightarrow> False | Some rx \<Rightarrow> ax_hash rx = hash));
                           m1 = (if have_bytes then m\<lparr>mb_avatar_rx := None\<rparr>
                                 else if \<not> running
                                 then member_send (AvatarRequest hash)
                                        (m\<lparr>mb_avatar_rx := Some (rx_new hash (Some len))\<rparr>)
                                 else m);
                           s3 = upd_member from (\<lambda>_. m1) s2
                       in if unchanged then s3 else queue_roster s3))))"

text \<open>The chunk at the sender's own reassembly.\<close>

definition chunk_step ::
  "('hs, 'ts, 'op) env \<Rightarrow> hash32 \<Rightarrow> u16 \<Rightarrow> u16 \<Rightarrow> bytes \<Rightarrow> ('ts, 'op) member \<Rightarrow>
     (rx_step, string) result \<times> ('ts, 'op) member" where
  "chunk_step env hash index tot data m =
     (case mb_avatar_rx m of
        None \<Rightarrow> (Err ''unsolicited avatar chunk'', m)
      | Some rx \<Rightarrow>
          if ax_hash rx = hash
          then (let (step, rx1) = rx_push (e_crypto env) rx index tot data
                in (step, m\<lparr>mb_avatar_rx := (if step = Ok More then Some rx1 else None)\<rparr>))
          else (Err ''avatar chunk for wrong hash'', m\<lparr>mb_avatar_rx := None\<rparr>))"

definition serve_waiter :: "hash32 \<Rightarrow> ('ts, 'op) server_core \<Rightarrow> member_id \<Rightarrow> ('ts, 'op) server_core" where
  "serve_waiter hash s who =
     upd_member who (\<lambda>w. if mb_connected w then w\<lparr>mb_avatar_tx := mb_avatar_tx w @ [tx_new hash]\<rparr> else w) s"

definition ctl_avatar_chunk ::
  "('hs, 'ts, 'op) env \<Rightarrow> nat \<Rightarrow> member_id \<Rightarrow> hash32 \<Rightarrow> u16 \<Rightarrow> u16 \<Rightarrow> bytes \<Rightarrow>
     ('ts, 'op) server_core \<Rightarrow> ('ts, 'op) server_core" where
  "ctl_avatar_chunk env now from hash index tot data s =
     (case get_member s from of
        None \<Rightarrow> s
      | Some m \<Rightarrow>
          (let (step, m1) = chunk_step env hash index tot data m;
               s1 = upd_member from (\<lambda>_. m1) s
           in case step of
                Inl what \<Rightarrow> violation now from what s1
              | Inr More \<Rightarrow> s1
              | Inr (Done bs) \<Rightarrow>
                  (let s2 = s1\<lparr>sv_avatar_cache :=
                              cache_insert (sv_avatar_cache s1) hash bs (announced_hashes s1)\<rparr>;
                       w = (case bm_get (sv_avatar_waiters s2) hash of None \<Rightarrow> [] | Some w \<Rightarrow> w)
                   in foldl (serve_waiter hash)
                        (s2\<lparr>sv_avatar_waiters := bm_remove hash (sv_avatar_waiters s2)\<rparr>) w)))"

text \<open>\<open>find_map\<close>: the first member that announces the hash.\<close>

fun avatar_owner :: "hash32 \<Rightarrow> (member_id \<times> ('ts, 'op) member) list \<Rightarrow> (member_id \<times> u32) option" where
  "avatar_owner hash [] = None"
| "avatar_owner hash ((who, m) # ms) =
     (case mb_avatar m of
        Some (h, len) \<Rightarrow> if h = hash then Some (who, len) else avatar_owner hash ms
      | None \<Rightarrow> avatar_owner hash ms)"

definition ctl_avatar_request ::
  "member_id \<Rightarrow> hash32 \<Rightarrow> ('ts, 'op) server_core \<Rightarrow> ('ts, 'op) server_core" where
  "ctl_avatar_request from hash s =
     (if cache_contains (sv_avatar_cache s) hash then
        upd_member from
          (\<lambda>m. if list_ex (\<lambda>t. at_hash t = hash) (mb_avatar_tx m) then m
               else m\<lparr>mb_avatar_tx := mb_avatar_tx m @ [tx_new hash]\<rparr>)
          (s\<lparr>sv_avatar_cache := cache_touch (sv_avatar_cache s) hash\<rparr>)
      else case avatar_owner hash (bm_entries (sv_members s)) of
             None \<Rightarrow> s
           | Some (owner, len) \<Rightarrow>
               upd_member owner
                 (\<lambda>o'. if mb_connected o' \<and> mb_avatar_rx o' = None
                       then member_send (AvatarRequest hash)
                              (o'\<lparr>mb_avatar_rx := Some (rx_new hash (Some len))\<rparr>)
                       else o')
                 (note_avatar_waiter hash from s))"

section \<open>Driver requests and names\<close>

definition ctl_stream_ctl ::
  "nat \<Rightarrow> member_id \<Rightarrow> stream_op \<Rightarrow> ('ts, 'op) server_core \<Rightarrow> ('ts, 'op) server_core" where
  "ctl_stream_ctl now from op s =
     (if from \<noteq> HOST_MEMBER_ID then violation now from ''stream control by non-host'' s
      else if (case op of AddDestination _ _ key \<Rightarrow> key_is_empty key \<or> MAX_STREAM_KEY_LEN < key_len key
                | _ \<Rightarrow> False)
      then violation now from ''stream key out of range'' s
      else push_event (StreamCtlEvent op) s)"

definition ctl_record_ctl ::
  "nat \<Rightarrow> member_id \<Rightarrow> record_op \<Rightarrow> ('ts, 'op) server_core \<Rightarrow> ('ts, 'op) server_core" where
  "ctl_record_ctl now from op s =
     (if from = HOST_MEMBER_ID then push_event (RecordCtlEvent op) s
      else violation now from ''record control by non-host'' s)"

definition ctl_set_name ::
  "member_id \<Rightarrow> bytes \<Rightarrow> ('ts, 'op) server_core \<Rightarrow> ('ts, 'op) server_core" where
  "ctl_set_name from raw s =
     (let name = str_trim raw in
      if name = [] then s
      else case get_member s from of
             None \<Rightarrow> s
           | Some m \<Rightarrow>
               if mb_name m \<noteq> name
               then queue_roster (upd_member from (\<lambda>m. m\<lparr>mb_name := name\<rparr>) s)
               else s)"

text \<open>The saturating difference of two clocks, as \<open>f32\<close>.\<close>

definition ctl_pong ::
  "nat \<Rightarrow> member_id \<Rightarrow> u64 \<Rightarrow> ('ts, 'op) server_core \<Rightarrow> ('ts, 'op) server_core" where
  "ctl_pong now from sent_ms s =
     upd_member from (\<lambda>m. m\<lparr>mb_rtt_ms_last := Some (f32_of_nat (now - unat sent_ms))\<rparr>) s"

section \<open>Dispatch\<close>

definition handle_control ::
  "('hs, 'ts, 'op) env \<Rightarrow> nat \<Rightarrow> member_id \<Rightarrow> control_msg \<Rightarrow> ('ts, 'op) server_core \<Rightarrow>
     outgoing \<times> ('ts, 'op) server_core" where
  "handle_control env now from msg s =
     (case msg of
        Chat _ text \<Rightarrow> ([], ctl_chat now from text s)
      | MixerSet target gain_db pan muted \<Rightarrow> ([], ctl_mixer_set now from target gain_db pan muted s)
      | MetronomeSet bpm beats enabled \<Rightarrow> ([], ctl_metronome_set now from bpm beats enabled s)
      | ClickEnable enabled \<Rightarrow> ([], upd_member from (\<lambda>m. m\<lparr>mb_click_enabled := enabled\<rparr>) s)
      | HearSelf enabled \<Rightarrow> ([], ctl_hear_self now from enabled s)
      | BroadcastMixSet target gain_db pan muted \<Rightarrow>
          ([], ctl_broadcast_mix_set now from target gain_db pan muted s)
      | BroadcastAudition enabled \<Rightarrow> ([], ctl_broadcast_audition now from enabled s)
      | Ping nonce sent_ms \<Rightarrow> ([], upd_member from (member_send (Pong nonce sent_ms)) s)
      | Pong _ sent_ms \<Rightarrow> ([], ctl_pong now from sent_ms s)
      | Revoke jti \<Rightarrow> ctl_revoke env now from jti s
      | Bye _ \<Rightarrow> ([], ctl_bye from s)
      | SetAvatar hash len \<Rightarrow> ([], ctl_set_avatar now from hash len s)
      | AvatarChunk hash index tot data \<Rightarrow> ([], ctl_avatar_chunk env now from hash index tot data s)
      | AvatarRequest hash \<Rightarrow> ([], ctl_avatar_request from hash s)
      | StreamCtl op \<Rightarrow> ([], ctl_stream_ctl now from op s)
      | RecordCtl op \<Rightarrow> ([], ctl_record_ctl now from op s)
      | SetName name \<Rightarrow> ([], ctl_set_name from name s)
      | Roster _ \<Rightarrow> ([], violation now from ''roster from client'' s)
      | Stats _ _ _ \<Rightarrow> ([], violation now from ''stats from client'' s)
      | StreamStatus _ \<Rightarrow> ([], violation now from ''stream status from client'' s)
      | RecordStatus _ _ \<Rightarrow> ([], violation now from ''record status from client'' s)
      | BroadcastReady _ \<Rightarrow> ([], violation now from ''broadcast readiness from client'' s)
      | ServerLog _ \<Rightarrow> ([], violation now from ''server log from client'' s))"

end
