(* ===== verification/ServerAdmit.thy ===== *)
theory ServerAdmit
  imports ServerControl
begin

text \<open>
  What arrives from the network: \<open>handle_datagram\<close> of \<open>crates/session/src/server.rs\<close>, with the
  version reject, the handshake budgets, the cookie round trip, admission and the transport path.
\<close>

section \<open>Limits on unauthenticated peers\<close>

definition limiter_slot ::
  "('hs, 'ts, 'op) env \<Rightarrow> ('ts, 'op) server_core \<Rightarrow> ip_addr \<Rightarrow> nat" where
  "limiter_slot env s ip =
     (let net = (case ip of V4 os \<Rightarrow> 4 # os | V6 os \<Rightarrow> 6 # take 8 os);
          out = blake2s256 (e_crypto env) (sv_slot_hasher s @ net);
          x = (from_le (take 8 out) :: u64)
      in unat (x AND 255))"

definition reject_recent :: "nat \<Rightarrow> nat \<Rightarrow> ('ts, 'op) server_core \<Rightarrow> bool" where
  "reject_recent now slot s =
     (case sv_reject_seen s ! slot of None \<Rightarrow> False | Some t \<Rightarrow> now - t < REJECT_INTERVAL_MS)"

text \<open>
  Both rejects pass one gate: at most one per slot and interval, then the global budget; the slot
  is stamped only when the budget pays.
\<close>

definition reject_gate ::
  "('hs, 'ts, 'op) env \<Rightarrow> nat \<Rightarrow> ip_addr \<Rightarrow> ('ts, 'op) server_core \<Rightarrow> bool \<times> ('ts, 'op) server_core" where
  "reject_gate env now ip s =
     (let slot = limiter_slot env s ip in
      if reject_recent now slot s then (False, s)
      else
        (let (paid, budget) = bucket_take (sv_reject_budget s) now;
             s1 = s\<lparr>sv_reject_budget := budget\<rparr>
         in if \<not> paid then (False, s1)
            else (True, s1\<lparr>sv_reject_seen := (sv_reject_seen s1)[slot := Some now]\<rparr>)))"

definition version_reject ::
  "('hs, 'ts, 'op) env \<Rightarrow> nat \<Rightarrow> sock_addr \<Rightarrow> u16 \<Rightarrow> bytes \<Rightarrow> bytes \<Rightarrow> ('ts, 'op) server_core \<Rightarrow>
     outgoing \<times> ('ts, 'op) server_core" where
  "version_reject env now src theirs noise init_packet s =
     (if length init_packet < REJECT_MIN_INIT_BYTES then ([], s)
      else
        (let (pass, s1) = reject_gate env now (sock_ip src) s in
         if \<not> pass then ([], s1)
         else case reject_key_for_init (e_crypto env) (cf_server_private (sv_cfg s1))
                     (cf_session_id (sv_cfg s1)) theirs noise of
                None \<Rightarrow> ([], s1)
              | Some key \<Rightarrow>
                  ([(src, build_version_reject (e_crypto env) key PROTOCOL_VERSION theirs init_packet)],
                   s1)))"

definition capacity_reject ::
  "('hs, 'ts, 'op) env \<Rightarrow> nat \<Rightarrow> sock_addr \<Rightarrow> 'hs responder \<Rightarrow> bytes \<Rightarrow> ('ts, 'op) server_core \<Rightarrow>
     outgoing \<times> ('ts, 'op) server_core" where
  "capacity_reject env now src resp init_packet s =
     (let (pass, s1) = reject_gate env now (sock_ip src) s in
      if \<not> pass then ([], s1)
      else case responder_reject_key (e_crypto env) resp (cf_server_private (sv_cfg s1)) of
             None \<Rightarrow> ([], s1)
           | Some key \<Rightarrow> ([(src, build_capacity_reject (e_crypto env) key init_packet)], s1))"

definition init_budget_take ::
  "('hs, 'ts, 'op) env \<Rightarrow> nat \<Rightarrow> sock_addr \<Rightarrow> ('ts, 'op) server_core \<Rightarrow>
     bool \<times> ('ts, 'op) server_core" where
  "init_budget_take env now src s =
     (let slot = limiter_slot env s (sock_ip src);
          put = (\<lambda>b s. s\<lparr>sv_init_slot_budget := (sv_init_slot_budget s)[slot := b]\<rparr>);
          (slot_free, b1) = bucket_available (sv_init_slot_budget s ! slot) now;
          s1 = put b1 s
      in if \<not> slot_free then (False, s1)
         else
           (let (free, g1) = bucket_available (sv_init_budget s1) now;
                s2 = s1\<lparr>sv_init_budget := g1\<rparr>
            in if \<not> free then (False, s2)
               else
                 (let (slot_paid, b2) = bucket_take (sv_init_slot_budget s2 ! slot) now;
                      s3 = put b2 s2
                  in if \<not> slot_paid then (False, s3)
                     else
                       (let (paid, g2) = bucket_take (sv_init_budget s3) now
                        in (paid, s3\<lparr>sv_init_budget := g2\<rparr>)))))"

section \<open>The cookie round trip\<close>

definition cookie_required :: "nat \<Rightarrow> ('ts, 'op) server_core \<Rightarrow> bool \<times> ('ts, 'op) server_core" where
  "cookie_required now s =
     (let (calm, b) = bucket_take (sv_cookie_trigger s) now in (\<not> calm, s\<lparr>sv_cookie_trigger := b\<rparr>))"

definition cookie_challenge ::
  "('hs, 'ts, 'op) env \<Rightarrow> nat \<Rightarrow> sock_addr \<Rightarrow> bytes \<Rightarrow> ('ts, 'op) server_core \<Rightarrow>
     outgoing \<times> ('ts, 'op) server_core" where
  "cookie_challenge env now src init_packet s =
     (if length init_packet < CHALLENGE_MIN_INIT_BYTES then ([], s)
      else
        (let (paid, b) = bucket_take (sv_challenge_budget s) now;
             s1 = s\<lparr>sv_challenge_budget := b\<rparr>
         in if \<not> paid then ([], s1)
            else
              (let key = cookie_key (e_crypto env) (cf_server_private (sv_cfg s1)) (cookie_epoch now)
               in ([(src, build_cookie_challenge (e_crypto env) (sv_cookie_reply_key s1) key
                            (sock_ip src) init_packet)],
                   s1\<lparr>sv_challenges := wrap64 (sv_challenges s1 + 1)\<rparr>))))"

definition cookie_valid ::
  "('hs, 'ts, 'op) env \<Rightarrow> nat \<Rightarrow> sock_addr \<Rightarrow> bytes \<Rightarrow> ('ts, 'op) server_core \<Rightarrow> bool" where
  "cookie_valid env now src cookie s =
     (let epoch = cookie_epoch now;
          previous = (if epoch = 0 then 0 else epoch - 1)
      in list_ex (\<lambda>e. cookie_matches (e_crypto env)
             (cookie_key (e_crypto env) (cf_server_private (sv_cfg s)) e) (sock_ip src) cookie)
           [epoch, previous])"

section \<open>Admission\<close>

definition member_name :: "token \<Rightarrow> bytes" where
  "member_name token =
     (case tk_name_hint token of
        Some n \<Rightarrow> if length n \<le> MAX_NAME_LEN then n
                  else str ''member '' @ decimal_digits (unat (member_num (tk_member_id token)))
      | None \<Rightarrow> str ''member '' @ decimal_digits (unat (member_num (tk_member_id token))))"

text \<open>The seat of a member: the mixer state of an earlier connection stays, the rest is fresh.\<close>

definition fresh_member ::
  "nat \<Rightarrow> sock_addr \<Rightarrow> token \<Rightarrow> 'ts session \<Rightarrow> resp_cache \<Rightarrow> 'op encoder option \<Rightarrow> 'op decoder option \<Rightarrow>
     ('ts, 'op) member option \<Rightarrow> ('ts, 'op) member" where
  "fresh_member now src token ses cache encoder decoder prev =
     \<lparr>mb_role = tk_role token, mb_name = member_name token, mb_jti = tk_jti token,
      mb_addr = Some src, mb_session = Some ses, mb_resp_cache = Some cache, mb_link = link_new,
      mb_jitter = jitter_new, mb_decoder = decoder, mb_encoder = encoder,
      mb_faders = (case prev of None \<Rightarrow> bm_empty | Some p \<Rightarrow> mb_faders p),
      mb_click_enabled = (case prev of None \<Rightarrow> True | Some p \<Rightarrow> mb_click_enabled p),
      mb_hear_self = (case prev of None \<Rightarrow> False | Some p \<Rightarrow> mb_hear_self p),
      mb_opens_refused = 0, mb_connected = True, mb_last_heard_ms = now, mb_quiet = False,
      mb_rtt_ms_last = None, mb_send_seq = 0,
      mb_violations = (case prev of None \<Rightarrow> 0 | Some p \<Rightarrow> mb_violations p),
      mb_violation_budget = (case prev of None \<Rightarrow> bucket_new VIOLATION_BURST VIOLATION_REFILL_PER_SEC
        | Some p \<Rightarrow> mb_violation_budget p),
      mb_fanout_budget = bucket_new FANOUT_BURST FANOUT_REFILL_PER_SEC,
      mb_stats_prev = stats_default, mb_level_peak = 0, mb_level_rms = 0,
      mb_avatar = (case prev of None \<Rightarrow> None | Some p \<Rightarrow> mb_avatar p),
      mb_avatar_rx = None, mb_avatar_tx = []\<rparr>"

text \<open>The messages a member who joins mid-session is owed.\<close>

definition greet :: "member_id \<Rightarrow> ('ts, 'op) server_core \<Rightarrow> ('ts, 'op) server_core" where
  "greet who s =
     (let s1 = (if sv_stream_status s \<noteq> []
                then upd_member who (member_send (StreamStatus (sv_stream_status s))) s else s);
          s2 = (case sv_broadcast_ready s1 of
                  None \<Rightarrow> s1
                | Some state \<Rightarrow> upd_member who (member_send (BroadcastReady state)) s1)
      in if sv_record_status s2 \<noteq> RecIdle
         then upd_member who (member_send (RecordStatus (sv_record_status s2) (sv_record_stems s2))) s2
         else s2)"

definition enter ::
  "nat \<Rightarrow> sock_addr \<Rightarrow> token \<Rightarrow> bytes \<Rightarrow> 'ts session \<Rightarrow> bytes \<Rightarrow> 'op encoder option \<Rightarrow>
     'op decoder option \<Rightarrow> ('ts, 'op) server_core \<Rightarrow> outgoing \<times> ('ts, 'op) server_core" where
  "enter now src token init_hash ses resp encoder decoder s =
     (let who = tk_member_id token;
          s1 = (if who = HOST_MEMBER_ID then s\<lparr>sv_audition := False\<rparr> else s);
          prev = get_member s1 who;
          cache = \<lparr>rc_init_hash = init_hash, rc_resp = resp, rc_at_ms = now\<rparr>;
          m = fresh_member now src token ses cache encoder decoder prev;
          s2 = s1\<lparr>sv_members := bm_insert who m (sv_members s1)\<rparr>;
          s3 = queue_roster (push_event (MemberJoined who (member_name token)) s2)
      in ([(src, resp)], note_musician_count (greet who s3)))"

definition connected_in_role :: "member_id \<Rightarrow> role \<Rightarrow> ('ts, 'op) server_core \<Rightarrow> nat" where
  "connected_in_role who role s =
     length (filter (\<lambda>(i, m). i \<noteq> who \<and> mb_connected m \<and> mb_role m = role) (bm_entries (sv_members s)))"

definition role_cap :: "server_config \<Rightarrow> role \<Rightarrow> nat" where
  "role_cap cfg role =
     (case role of Musician \<Rightarrow> cf_max_musicians cfg | Listener \<Rightarrow> cf_max_listeners cfg)"

definition broadcast_encoder ::
  "('hs, 'ts, 'op) env \<Rightarrow> role \<Rightarrow> ('ts, 'op) server_core \<Rightarrow> bool \<times> ('ts, 'op) server_core" where
  "broadcast_encoder env role s =
     (if role = Listener \<and> sv_bcast_encoder s = None then
        (case encoder_new (e_opus env) Stereo Ms20 BROADCAST_BITRATE of
           Inr e \<Rightarrow> (True, s\<lparr>sv_bcast_encoder := Some e\<rparr>)
         | Inl _ \<Rightarrow> (False, s))
      else (True, s))"

definition member_codecs ::
  "('hs, 'ts, 'op) env \<Rightarrow> role \<Rightarrow> ('op encoder option \<times> 'op decoder option, codec_error) result" where
  "member_codecs env role =
     (case role of
        Musician \<Rightarrow>
          (case encoder_new (e_opus env) Stereo Ms2_5 PERSONAL_MIX_BITRATE of
             Inl e \<Rightarrow> Err e
           | Inr enc \<Rightarrow>
               (case decoder_new (e_opus env) Stereo Ms2_5 of
                  Inl e \<Rightarrow> Err e
                | Inr dec \<Rightarrow> Ok (Some enc, Some dec)))
      | Listener \<Rightarrow> Ok (None, None))"

text \<open>From the capacity check on.\<close>

definition admit_seat ::
  "('hs, 'ts, 'op) env \<Rightarrow> nat \<Rightarrow> sock_addr \<Rightarrow> bytes \<Rightarrow> token \<Rightarrow> 'hs responder \<Rightarrow>
     ('ts, 'op) server_core \<Rightarrow> outgoing \<times> ('ts, 'op) server_core" where
  "admit_seat env now src noise token resp s =
     (let who = tk_member_id token in
      if role_cap (sv_cfg s) (tk_role token) \<le> connected_in_role who (tk_role token) s
      then capacity_reject env now src resp (build_handshake_init PROTOCOL_VERSION noise) s
      else
        (let (built, s1) = broadcast_encoder env (tk_role token) s in
         if \<not> built then ([], s1)
         else case member_codecs env (tk_role token) of
                Inl _ \<Rightarrow> ([], s1)
              | Inr (encoder, decoder) \<Rightarrow>
                  (case responder_respond (e_crypto env) (e_serde env) resp
                          \<lparr>wl_member_id = who, wl_sample_clock = of_nat (sv_sample_clock s1)\<rparr> of
                     Inl _ \<Rightarrow> ([], s1)
                   | Inr (ses, reply) \<Rightarrow>
                       enter now src token (blake2s256 (e_crypto env) noise) ses reply encoder decoder s1)))"

text \<open>A live member: the cached answer for a resent init, silence, or a fast rejoin.\<close>

datatype live_check = Resend bytes | Ignore | Proceed

definition check_live ::
  "nat \<Rightarrow> bytes \<Rightarrow> ('ts, 'op) member option \<Rightarrow> live_check" where
  "check_live now init_hash mo =
     (case mo of
        None \<Rightarrow> Proceed
      | Some m \<Rightarrow>
          if \<not> mb_connected m then Proceed
          else
            (let quiet = (if now - mb_last_heard_ms m \<le> REJOIN_SILENCE_MS then Ignore else Proceed)
             in case mb_resp_cache m of
                  None \<Rightarrow> quiet
                | Some cache \<Rightarrow>
                    if now - rc_at_ms cache \<le> RESP_CACHE_MS \<and> rc_init_hash cache = init_hash
                    then Resend (rc_resp cache) else quiet))"

definition admit_verified ::
  "('hs, 'ts, 'op) env \<Rightarrow> nat \<Rightarrow> sock_addr \<Rightarrow> bytes \<Rightarrow> token \<Rightarrow> 'hs responder \<Rightarrow>
     ('ts, 'op) server_core \<Rightarrow> outgoing \<times> ('ts, 'op) server_core" where
  "admit_verified env now src noise token resp s =
     (let who = tk_member_id token;
          (allowed, s1) =
            (case get_member s who of
               None \<Rightarrow> (True, s)
             | Some m \<Rightarrow>
                 (let (free, b) = bucket_available (mb_violation_budget m) now
                  in (free, upd_member who (\<lambda>m. m\<lparr>mb_violation_budget := b\<rparr>) s)))
      in if \<not> allowed then ([], s1)
         else case check_live now (blake2s256 (e_crypto env) noise) (get_member s1 who) of
                Resend reply \<Rightarrow> ([(src, reply)], s1)
              | Ignore \<Rightarrow> ([], s1)
              | Proceed \<Rightarrow> admit_seat env now src noise token resp s1)"

definition admit ::
  "('hs, 'ts, 'op) env \<Rightarrow> nat \<Rightarrow> nat \<Rightarrow> sock_addr \<Rightarrow> bytes \<Rightarrow> ('ts, 'op) server_core \<Rightarrow>
     outgoing \<times> ('ts, 'op) server_core" where
  "admit env now now_unix src noise s =
     (let (paid, s1) = init_budget_take env now src s in
      if \<not> paid then ([], s1)
      else
        (let s2 = s1\<lparr>sv_init_reads := wrap64 (sv_init_reads s1 + 1)\<rparr>; cfg = sv_cfg s2 in
         case read_init (e_crypto env) (e_serde env) (cf_server_private cfg) (cf_session_id cfg)
                PROTOCOL_VERSION noise of
           Inl _ \<Rightarrow> ([], s2)
         | Inr (hp, resp) \<Rightarrow>
             (case verify_token (e_crypto env) (e_serde env) (cf_issuer_pk cfg) (cf_session_id cfg)
                     (cf_server_public cfg) (hp_token hp) (hp_signature hp) now_unix of
                Inl _ \<Rightarrow> ([], s2)
              | Inr _ \<Rightarrow>
                  if tk_jti (hp_token hp) \<in> sv_revoked s2 then ([], s2)
                  else admit_verified env now src noise (hp_token hp) resp s2)))"

section \<open>Transport packets\<close>

text \<open>
  What the opened plaintext asks of the member: control messages to handle, nothing more, or a
  violation.
\<close>

definition receive_plain ::
  "('hs, 'ts, 'op) env \<Rightarrow> bytes \<Rightarrow> ('ts, 'op) member \<Rightarrow>
     (control_msg list option, string) result \<times> ('ts, 'op) member" where
  "receive_plain env plain m =
     (case split_channel plain of
        Inl _ \<Rightarrow> (Err ''unknown channel'', m)
      | Inr (chan, _) \<Rightarrow>
          if chan = CHANNEL_MEDIA then
            (if mb_role m \<noteq> Musician then (Err ''media from listener'', m)
             else case media_decode plain of
                    Inl _ \<Rightarrow> (Err ''malformed media frame'', m)
                  | Inr f \<Rightarrow>
                      (Ok None, m\<lparr>mb_jitter := jitter_push (mb_jitter m)
                         \<lparr>mp_seq = unat (mf_seq f), mp_timestamp = unat (mf_timestamp f),
                          mp_payload = mf_payload f, mp_redundant = mf_redundant f\<rparr>\<rparr>))
          else if chan = CHANNEL_CONTROL then
            (let (r, link) = link_receive (e_pc_dec env) (mb_link m) plain;
                 m1 = m\<lparr>mb_link := link\<rparr>
             in case r of Inl _ \<Rightarrow> (Err ''malformed control packet'', m1)
                        | Inr msgs \<Rightarrow> (Ok (Some msgs), m1))
          else (Err ''unknown channel'', m))"

fun handle_controls ::
  "('hs, 'ts, 'op) env \<Rightarrow> nat \<Rightarrow> member_id \<Rightarrow> control_msg list \<Rightarrow> ('ts, 'op) server_core \<Rightarrow>
     outgoing \<times> ('ts, 'op) server_core" where
  "handle_controls env now from [] s = ([], s)"
| "handle_controls env now from (msg # msgs) s =
     (let (out1, s1) = handle_control env now from msg s;
          (out2, s2) = handle_controls env now from msgs s1
      in (out1 @ out2, s2))"

definition handle_transport ::
  "('hs, 'ts, 'op) env \<Rightarrow> nat \<Rightarrow> sock_addr \<Rightarrow> member_id \<Rightarrow> u64 \<Rightarrow> bytes \<Rightarrow>
     ('ts, 'op) server_core \<Rightarrow> outgoing \<times> ('ts, 'op) server_core" where
  "handle_transport env now src who counter ciphertext s =
     (case get_member s who of
        None \<Rightarrow> ([], s)
      | Some m \<Rightarrow>
          if \<not> mb_connected m then ([], s)
          else case mb_session m of
            None \<Rightarrow> ([], s)
          | Some ses \<Rightarrow>
              (let (opened, ses1) = session_open (e_crypto env) ses counter ciphertext;
                   m1 = m\<lparr>mb_session := Some ses1\<rparr>
               in case opened of
                    Inl _ \<Rightarrow>
                      ([], upd_member who
                         (\<lambda>_. m1\<lparr>mb_opens_refused := min (mb_opens_refused m1 + 1) U64_MAX\<rparr>) s)
                  | Inr plain \<Rightarrow>
                      (let (r, m2) = receive_plain env plain
                             (m1\<lparr>mb_addr := Some src, mb_last_heard_ms := now\<rparr>);
                           s1 = upd_member who (\<lambda>_. m2) s
                       in case r of
                            Inl what \<Rightarrow> ([], violation now who what s1)
                          | Inr None \<Rightarrow> ([], s1)
                          | Inr (Some msgs) \<Rightarrow>
                              (let (out1, s2) = handle_controls env now who msgs s1;
                                   (out2, s3) = flush_member_link env now who s2
                               in (out1 @ out2, s3)))))"

section \<open>Datagrams\<close>

definition handle_datagram ::
  "('hs, 'ts, 'op) env \<Rightarrow> nat \<Rightarrow> nat \<Rightarrow> sock_addr \<Rightarrow> bytes \<Rightarrow> ('ts, 'op) server_core \<Rightarrow>
     outgoing \<times> ('ts, 'op) server_core" where
  "handle_datagram env now now_unix src data s =
     (case parse data of
        Inl _ \<Rightarrow> ([], s)
      | Inr (HandshakeInit version noise) \<Rightarrow>
          if version \<noteq> PROTOCOL_VERSION then version_reject env now src version noise data s
          else
            (let (required, s1) = cookie_required now s in
             if required then cookie_challenge env now src data s1
             else admit env now now_unix src noise s1)
      | Inr (CookiedInit cookie version noise) \<Rightarrow>
          (let (_, s1) = cookie_required now s in
           if version = PROTOCOL_VERSION \<and> cookie_valid env now src cookie s1
           then admit env now now_unix src noise s1
           else ([], s1))
      | Inr (Transport who counter ciphertext) \<Rightarrow> handle_transport env now src who counter ciphertext s
      | Inr _ \<Rightarrow> ([], s))"

end
