(* ===== verification/ServerTick.thy ===== *)
theory ServerTick
  imports ServerAdmit
begin

text \<open>
  The mix tick of \<open>crates/session/src/server.rs\<close>: \<open>tick\<close> and its stages, in the order the code has
  them.  A pass of \<open>members.iter_mut()\<close> is \<open>each_member\<close>.
\<close>

definition each_member ::
  "(member_id \<Rightarrow> ('ts, 'op) member \<Rightarrow> 'a list \<times> ('ts, 'op) member) \<Rightarrow> ('ts, 'op) server_core \<Rightarrow>
     'a list \<times> ('ts, 'op) server_core" where
  "each_member f s =
     (concat (map (\<lambda>(i, m). fst (f i m)) (bm_entries (sv_members s))),
      s\<lparr>sv_members := bm_map (\<lambda>i m. snd (f i m)) (sv_members s)\<rparr>)"

definition plays :: "('ts, 'op) member \<Rightarrow> bool" where
  "plays m \<longleftrightarrow> mb_connected m \<and> mb_role m = Musician"

section \<open>Decoding\<close>

definition decode_pulled ::
  "('hs, 'ts, 'op) env \<Rightarrow> pull \<Rightarrow> 'op decoder \<Rightarrow> f32 list \<times> 'op decoder" where
  "decode_pulled env pulled dec =
     (let silence = replicate MIX_LEN 0;
          run = (\<lambda>p. case decoder_decode (e_opus env) dec p MIX_LEN False of
                   (Inl _, d) \<Rightarrow> (silence, d) | (Inr pcm, d) \<Rightarrow> (pcm, d))
      in case pulled of
           Frame p \<Rightarrow> run (Some p)
         | Recovered p \<Rightarrow> run (Some p)
         | Missing \<Rightarrow> run None
         | Waiting \<Rightarrow> (silence, dec))"

definition meter :: "fp \<Rightarrow> f32 list \<Rightarrow> ('ts, 'op) member \<Rightarrow> ('ts, 'op) member" where
  "meter fp pcm m =
     (let peak = foldl (\<lambda>p x. f32_max p (f32_abs x)) 0 pcm;
          sum_sq = foldl (\<lambda>a x. fp_add fp a (fp_mul fp x x)) 0 pcm;
          rms = fp_sqrt fp (fp_div fp sum_sq 0x43700000)
      in m\<lparr>mb_level_peak := f32_max peak (fp_mul fp (mb_level_peak m) BCAST_LEVEL_DECAY),
           mb_level_rms := f32_max rms (fp_mul fp (mb_level_rms m) BCAST_LEVEL_DECAY)\<rparr>)"

definition decode_member ::
  "('hs, 'ts, 'op) env \<Rightarrow> bool \<Rightarrow> member_id \<Rightarrow> ('ts, 'op) member \<Rightarrow>
     (member_id \<times> f32 list) list \<times> ('ts, 'op) member" where
  "decode_member env tap who m =
     (if \<not> plays m then ([], m)
      else
        (let (pulled, jitter) = jitter_pull (mb_jitter m);
             m1 = m\<lparr>mb_jitter := jitter\<rparr>;
             (pcm, m2) = (case mb_decoder m1 of
                None \<Rightarrow> (replicate MIX_LEN 0, m1)
              | Some dec \<Rightarrow>
                  (case decode_pulled env pulled dec of (pcm, d) \<Rightarrow> (pcm, m1\<lparr>mb_decoder := Some d\<rparr>)))
         in ([(who, pcm)], if tap then meter (e_fp env) pcm m2 else m2)))"

definition tick_decode ::
  "('hs, 'ts, 'op) env \<Rightarrow> ('ts, 'op) server_core \<Rightarrow> ('ts, 'op) server_core" where
  "tick_decode env s =
     (let (decoded, s1) = each_member (decode_member env (sv_bcast_tap s)) s
      in s1\<lparr>sv_decoded := decoded\<rparr>)"

section \<open>Mixing\<close>

definition bcast_slice :: "('ts, 'op) server_core \<Rightarrow> nat \<Rightarrow> f32 list" where
  "bcast_slice s idx = subslice (idx * MIX_LEN) ((idx + 1) * MIX_LEN) (sv_bcast_accum s)"

definition tick_broadcast_mix ::
  "('hs, 'ts, 'op) env \<Rightarrow> nat \<Rightarrow> ('ts, 'op) server_core \<Rightarrow> ('ts, 'op) server_core" where
  "tick_broadcast_mix env clock s =
     (let idx = sv_tick_count s mod BCAST_TICKS;
          mixed = mix_into (e_fp env) (sv_decoded s) (fader_or_default (sv_bcast_faders s)) None MIX_LEN;
          (slot, lim) = limiter_process (e_fp env) (sv_limiter s) mixed;
          accum = sv_bcast_accum s
      in s\<lparr>sv_bcast_slot := idx,
           sv_bcast_clock := (if idx = 0 then clock else sv_bcast_clock s),
           sv_bcast_accum := take (idx * MIX_LEN) accum @ slot @ drop ((idx + 1) * MIX_LEN) accum,
           sv_limiter := lim\<rparr>)"

fun add_click :: "fp \<Rightarrow> f32 list \<Rightarrow> f32 list \<Rightarrow> f32 list" where
  "add_click fp (a # b # bus) (c # click) = fp_add fp a c # fp_add fp b c # add_click fp bus click"
| "add_click fp bus click = bus"

definition personal_mix ::
  "('hs, 'ts, 'op) env \<Rightarrow> ('ts, 'op) server_core \<Rightarrow> nat \<Rightarrow> f32 list \<Rightarrow> member_id \<Rightarrow>
     ('ts, 'op) member \<Rightarrow> f32 list" where
  "personal_mix env s idx click who m =
     (if sv_audition s \<and> who = HOST_MEMBER_ID then bcast_slice s idx
      else
        (let mixed = mix_into (e_fp env) (sv_decoded s) (fader_or_default (mb_faders m))
               (if mb_hear_self m then None else Some who) MIX_LEN
         in if sv_metronome_enabled s \<and> mb_click_enabled m then add_click (e_fp env) mixed click
            else mixed))"

text \<open>One sealed media frame; the sequence number is spent whatever happens to the datagram.\<close>

definition send_frame ::
  "('hs, 'ts, 'op) env \<Rightarrow> nat \<Rightarrow> frame_duration \<Rightarrow> bytes \<Rightarrow> member_id \<Rightarrow> ('ts, 'op) member \<Rightarrow>
     outgoing \<times> ('ts, 'op) member" where
  "send_frame env timestamp dur payload who m =
     (case media_encode \<lparr>mf_seq = mb_send_seq m, mf_timestamp = of_nat timestamp, mf_duration = dur,
              mf_stereo = True, mf_payload = payload, mf_redundant = None\<rparr> of
        None \<Rightarrow> ([], m)
      | Some frame \<Rightarrow>
          (let m1 = m\<lparr>mb_send_seq := mb_send_seq m + 1\<rparr> in
           case (mb_session m1, mb_addr m1) of
             (Some ses, Some a) \<Rightarrow>
               (let (r, ses1) = session_seal (e_crypto env) ses who frame
                in (case r of Inl _ \<Rightarrow> [] | Inr dg \<Rightarrow> [(a, dg)], m1\<lparr>mb_session := Some ses1\<rparr>))
           | _ \<Rightarrow> ([], m1)))"

definition personal_member ::
  "('hs, 'ts, 'op) env \<Rightarrow> ('ts, 'op) server_core \<Rightarrow> nat \<Rightarrow> nat \<Rightarrow> f32 list \<Rightarrow> member_id \<Rightarrow>
     ('ts, 'op) member \<Rightarrow> outgoing \<times> ('ts, 'op) member" where
  "personal_member env s clock idx click who m =
     (if \<not> plays m then ([], m)
      else
        case mb_encoder m of
          None \<Rightarrow> ([], m)
        | Some enc \<Rightarrow>
            (let (r, enc1) = encoder_encode (e_opus env) enc (personal_mix env s idx click who m);
                 m1 = m\<lparr>mb_encoder := Some enc1\<rparr>
             in case r of
                  Inl _ \<Rightarrow> ([], m1)
                | Inr payload \<Rightarrow> send_frame env clock Ms2_5 payload who m1))"

definition tick_personal ::
  "('hs, 'ts, 'op) env \<Rightarrow> nat \<Rightarrow> ('ts, 'op) server_core \<Rightarrow> outgoing \<times> ('ts, 'op) server_core" where
  "tick_personal env clock s =
     (let silent = replicate TICK_SAMPLES 0;
          click = (if sv_metronome_enabled s
                   then metronome_render (e_fp env) (sv_metronome s) clock silent CLICK_GAIN
                   else silent)
      in each_member (personal_member env s clock (sv_bcast_slot s) click) s)"

definition listening :: "('ts, 'op) member \<Rightarrow> bool" where
  "listening m \<longleftrightarrow> mb_connected m \<and> mb_role m = Listener"

definition tick_broadcast ::
  "('hs, 'ts, 'op) env \<Rightarrow> ('ts, 'op) server_core \<Rightarrow> outgoing \<times> ('ts, 'op) server_core" where
  "tick_broadcast env s =
     (if sv_bcast_slot s = BCAST_TICKS - 1 \<and> list_ex listening (bm_values (sv_members s)) then
        (case sv_bcast_encoder s of
           None \<Rightarrow> ([], s)
         | Some enc \<Rightarrow>
             (let (r, enc1) = encoder_encode (e_opus env) enc (sv_bcast_accum s);
                  s1 = s\<lparr>sv_bcast_encoder := Some enc1\<rparr>
              in case r of
                   Inl _ \<Rightarrow> ([], s1)
                 | Inr payload \<Rightarrow>
                     each_member
                       (\<lambda>who m. if listening m then send_frame env (sv_bcast_clock s) Ms20 payload who m
                                else ([], m))
                       (s1\<lparr>sv_bcast_encodes := wrap64 (sv_bcast_encodes s1 + 1)\<rparr>)))
      else ([], s))"

section \<open>Reports\<close>

definition stats_message :: "jitter_stats \<Rightarrow> jitter_stats \<Rightarrow> control_msg" where
  "stats_message before now =
     (let w = (case loss_between before now of
                 None \<Rightarrow> \<lparr>lw_pulled = 0, lw_lost = 0, lw_recovered = 0\<rparr> | Some w \<Rightarrow> w)
      in Stats (f32_bits (wire_loss_pct w)) (of_nat (min (js_depth_frames now) 65535))
           (f32_bits (window_recovered_pct w)))"

definition report_member :: "('ts, 'op) member \<Rightarrow> ('ts, 'op) member" where
  "report_member m =
     (if \<not> plays m then m
      else
        (let cur = jitter_stats_of (mb_jitter m)
         in member_send (stats_message (mb_stats_prev m) cur) (m\<lparr>mb_stats_prev := cur\<rparr>)))"

definition tick_stats :: "nat \<Rightarrow> ('ts, 'op) server_core \<Rightarrow> ('ts, 'op) server_core" where
  "tick_stats now s =
     (if STATS_INTERVAL_MS \<le> now - sv_last_stats_ms s
      then s\<lparr>sv_last_stats_ms := now, sv_members := bm_map (\<lambda>_. report_member) (sv_members s)\<rparr>
      else s)"

section \<open>Control links\<close>

function feed_avatars ::
  "avatar_cache \<Rightarrow> nat \<Rightarrow> control_link \<Rightarrow> avatar_tx list \<Rightarrow> control_link \<times> avatar_tx list" where
  "feed_avatars cache fed link txs =
     (if fed < AVATAR_CHUNKS_PER_POLL \<and> link_pending_len link < AVATAR_FEED_HIGH_WATER then
        (case txs of
           [] \<Rightarrow> (link, [])
         | tx # rest \<Rightarrow>
             (case (case cache_get cache (at_hash tx) of
                      None \<Rightarrow> (None, tx) | Some bs \<Rightarrow> tx_next_chunk tx bs) of
                (Some chunk, tx1) \<Rightarrow> feed_avatars cache (fed + 1) (snd (link_send link chunk)) (tx1 # rest)
              | (None, _) \<Rightarrow> feed_avatars cache fed link rest))
      else (link, txs))"
  by pat_completeness auto

termination
  by (relation "measures [\<lambda>(_, _, _, txs). length txs, \<lambda>(_, fed, _, _). AVATAR_CHUNKS_PER_POLL - fed]")
    auto

declare feed_avatars.simps [simp del]

definition link_member ::
  "('hs, 'ts, 'op) env \<Rightarrow> nat \<Rightarrow> avatar_cache \<Rightarrow> member_id \<Rightarrow> ('ts, 'op) member \<Rightarrow>
     outgoing \<times> ('ts, 'op) member" where
  "link_member env now cache who m =
     (if \<not> mb_connected m then ([], m)
      else
        (let (link, txs) = feed_avatars cache 0 (mb_link m) (mb_avatar_tx m)
         in poll_and_seal env now who (m\<lparr>mb_link := link, mb_avatar_tx := txs\<rparr>)))"

definition tick_links ::
  "('hs, 'ts, 'op) env \<Rightarrow> nat \<Rightarrow> ('ts, 'op) server_core \<Rightarrow> outgoing \<times> ('ts, 'op) server_core" where
  "tick_links env now s = each_member (link_member env now (sv_avatar_cache s)) s"

section \<open>Reaping and quiet members\<close>

definition is_gone :: "nat \<Rightarrow> server_config \<Rightarrow> ('ts, 'op) member \<Rightarrow> bool" where
  "is_gone now cfg m \<longleftrightarrow> mb_connected m \<and>
     (cf_member_timeout_ms cfg \<le> now - mb_last_heard_ms m \<or> link_is_dead (mb_link m))"

definition tick_reap :: "nat \<Rightarrow> ('ts, 'op) server_core \<Rightarrow> ('ts, 'op) server_core" where
  "tick_reap now s =
     (let gone = map fst (filter (\<lambda>(_, m). is_gone now (sv_cfg s) m) (bm_entries (sv_members s)))
      in if gone = [] then s
         else note_musician_count (queue_roster
                (foldl (\<lambda>s who. push_event (MemberDisconnected who) (disconnect_member who s)) s gone)))"

definition is_quiet :: "nat \<Rightarrow> ('ts, 'op) member \<Rightarrow> bool" where
  "is_quiet now m \<longleftrightarrow> mb_connected m \<and> MEMBER_QUIET_AFTER_MS \<le> now - mb_last_heard_ms m"

definition tick_quiet :: "nat \<Rightarrow> ('ts, 'op) server_core \<Rightarrow> ('ts, 'op) server_core" where
  "tick_quiet now s =
     (let moved = list_ex (\<lambda>m. is_quiet now m \<noteq> mb_quiet m) (bm_values (sv_members s));
          s1 = s\<lparr>sv_members := bm_map (\<lambda>_ m. m\<lparr>mb_quiet := is_quiet now m\<rparr>) (sv_members s)\<rparr>
      in if moved then queue_roster s1 else s1)"

section \<open>The tick\<close>

definition tick ::
  "('hs, 'ts, 'op) env \<Rightarrow> nat \<Rightarrow> ('ts, 'op) server_core \<Rightarrow> outgoing \<times> ('ts, 'op) server_core" where
  "tick env now s =
     (let clock = sv_sample_clock s;
          s1 = tick_decode env (s\<lparr>sv_sample_clock := wrap64 (clock + TICK_SAMPLES)\<rparr>);
          s2 = tick_broadcast_mix env clock s1;
          (out1, s3) = tick_personal env clock s2;
          (out2, s4) = tick_broadcast env s3;
          s5 = tick_stats now (s4\<lparr>sv_tick_count := wrap64 (sv_tick_count s4 + 1)\<rparr>);
          s6 = feed_server_log now (flush_roster s5);
          (out3, s7) = tick_links env now s6
      in (out1 @ out2 @ out3, tick_quiet now (tick_reap now s7)))"

end
