(* ===== verification/AudioProps.thy ===== *)
theory AudioProps
  imports Audio
begin

text \<open>
  What the audio engine promises whatever arithmetic the target has: the limiter's ceiling, what the
  mixer leaves out, and the metronome's independence of how the clock is cut into windows.
\<close>

section \<open>The order of the patterns\<close>

lemma f32_abs_word: "bit (f32_abs x) 31 = False"
  by (simp add: f32_abs_def bit_simps)

lemma f32_abs_idem [simp]: "f32_abs (f32_abs x) = f32_abs x"
  by (simp add: f32_abs_def)

lemma f32_rank_abs: "f32_rank (f32_abs x) = \<bar>f32_rank x\<bar>"
  by (simp add: f32_rank_def f32_abs_word)

lemma f32_abs_neg [simp]: "f32_abs (f32_neg x) = f32_abs x"
proof -
  have "bit (0x80000000 :: f32) i \<longleftrightarrow> i = 31" if "i < 32" for i
  proof -
    have "(0x80000000 :: f32) = push_bit 31 1" by simp
    then show ?thesis using that by (simp only: bit_push_bit_iff bit_1_iff) auto
  qed
  then show ?thesis
    by (intro bit_word_eqI) (auto simp: f32_abs_def f32_neg_def bit_simps)
qed

lemma f32_neg_sign: "bit (f32_neg x) 31 \<longleftrightarrow> \<not> bit x 31"
proof -
  have "(0x80000000 :: f32) = push_bit 31 1" by simp
  then have "bit (0x80000000 :: f32) 31" by (simp only: bit_push_bit_iff bit_1_iff) simp
  then show ?thesis by (simp add: f32_neg_def bit_simps)
qed

lemma f32_rank_neg: "f32_rank (f32_neg x) = - f32_rank x"
  by (simp add: f32_rank_def f32_neg_sign)

lemma f32_nan_neg [simp]: "f32_is_nan (f32_neg x) = f32_is_nan x"
  by (simp add: f32_is_nan_def)

text \<open>A ceiling: a number, not negative.\<close>

definition is_ceiling :: "f32 \<Rightarrow> bool" where
  "is_ceiling c \<longleftrightarrow> \<not> f32_is_nan c \<and> \<not> bit c 31"

definition in_ceiling :: "f32 \<Rightarrow> f32 \<Rightarrow> bool" where
  "in_ceiling c x \<longleftrightarrow> f32_is_nan x \<or> \<bar>f32_rank x\<bar> \<le> f32_rank c"

lemma clamp_within: "is_ceiling c \<Longrightarrow> in_ceiling c (f32_clamp x (f32_neg c) c)"
proof -
  assume c: "is_ceiling c"
  then have "0 \<le> f32_rank c" by (simp add: is_ceiling_def f32_rank_def)
  then show ?thesis using c
    by (auto simp: f32_clamp_def Let_def f32_less_def in_ceiling_def is_ceiling_def f32_rank_neg)
qed

section \<open>The limiter\<close>

definition limiter_ok :: "limiter \<Rightarrow> bool" where
  "limiter_ok l \<longleftrightarrow> length (lm_delay l) = 2 * length (lm_peaks l) \<and>
     (lm_peaks l \<noteq> [] \<longrightarrow> lm_pos l < length (lm_peaks l))"

lemma limiter_new_ok: "limiter_ok (limiter_new fp c n)"
  by (auto simp: limiter_ok_def limiter_new_def)

lemma limiter_pair_props:
  assumes "limiter_pair fp lm p = ((x, y), lm')"
  shows "lm_ceiling lm' = lm_ceiling lm" and "limiter_ok lm \<Longrightarrow> limiter_ok lm'"
    and "is_ceiling (lm_ceiling lm) \<Longrightarrow> in_ceiling (lm_ceiling lm) x \<and> in_ceiling (lm_ceiling lm) y"
  using assms by (auto simp: limiter_pair_def Let_def limiter_ok_def clamp_within split: if_splits)

lemma limiter_process_props:
  "limiter_process fp lm buf = (out, lm') \<Longrightarrow>
   lm_ceiling lm' = lm_ceiling lm \<and> (limiter_ok lm \<longrightarrow> limiter_ok lm') \<and> length out = length buf \<and>
   (is_ceiling (lm_ceiling lm) \<longrightarrow> even (length buf) \<longrightarrow> (\<forall>x \<in> set out. in_ceiling (lm_ceiling lm) x))"
proof (induction fp lm buf arbitrary: out lm' rule: limiter_process.induct)
  case (1 fp lm a b buf)
  obtain a' b' lm1 where p: "limiter_pair fp lm (a, b) = ((a', b'), lm1)" by (metis prod.exhaust)
  obtain rest lm2 where q: "limiter_process fp lm1 buf = (rest, lm2)" by fastforce
  note P = limiter_pair_props [OF p]
  note IH = "1.IH" [OF p [symmetric] refl refl q]
  have "out = a' # b' # rest" "lm' = lm2" using "1.prems" p q by auto
  then show ?case using P IH by auto
qed auto


text \<open>Arithmetic for examples: sums and products that keep the first operand.\<close>

definition sample_fp :: fp where
  "sample_fp = \<lparr>fp_add = (\<lambda>x y. if x = 0 then y else x), fp_sub = (\<lambda>x y. x), fp_mul = (\<lambda>x y. x),
     fp_div = (\<lambda>x y. x), fp_sqrt = (\<lambda>x. x), fp_sin = (\<lambda>x. x), fp_cos = (\<lambda>x. x), fp_exp = (\<lambda>x. x),
     fp_powf = (\<lambda>x y. F32_ONE)\<rparr>"


section \<open>The mixer\<close>

lemma length_mix_pairs [simp]: "length (mix_pairs fp l r bus src) = length bus"
  by (induction fp l r bus src rule: mix_pairs.induct) auto

lemma length_mix_source [simp]: "length (mix_source fp faders ex bus ms) = length bus"
  by (simp add: mix_source_def Let_def split: prod.splits)

lemma length_mix_fold [simp]: "length (foldl (mix_source fp faders ex) bus sources) = length bus"
  by (induction sources arbitrary: bus) auto

lemma length_mix_into [simp]: "length (mix_into fp sources faders ex n) = n"
  by (simp add: mix_into_def)

definition heard :: "(member_id \<Rightarrow> fader) \<Rightarrow> member_id option \<Rightarrow> member_id \<times> f32 list \<Rightarrow> bool" where
  "heard faders exclude ms \<longleftrightarrow> exclude \<noteq> Some (fst ms) \<and> \<not> fd_muted (faders (fst ms))"

lemma mix_source_unheard: "\<not> heard faders ex ms \<Longrightarrow> mix_source fp faders ex bus ms = bus"
  by (auto simp: heard_def mix_source_def Let_def split: prod.splits)

lemma mix_source_heard:
  "heard faders ex ms \<Longrightarrow> mix_source fp faders ex bus ms = mix_source fp faders None bus ms"
  by (auto simp: heard_def mix_source_def Let_def split: prod.splits)

lemma mix_fold_heard:
  "foldl (mix_source fp faders ex) bus sources =
   foldl (mix_source fp faders None) bus (filter (heard faders ex) sources)"
  by (induction sources arbitrary: bus) (simp_all add: mix_source_unheard mix_source_heard)

text \<open>A personal mix is exactly the mix of the others: the excluded member's own audio and every muted
  source leave no trace in the bus, bit for bit, and when nobody is left the bus is silence.\<close>

theorem mix_excludes:
  "mix_into fp sources faders exclude n =
     mix_into fp (filter (\<lambda>(m, _). exclude \<noteq> Some m \<and> \<not> fd_muted (faders m)) sources) faders None n \<and>
   (list_all (\<lambda>(m, _). exclude = Some m \<or> fd_muted (faders m)) sources \<longrightarrow>
     mix_into fp sources faders exclude n = replicate n 0)"
proof -
  have h: "heard faders exclude = (\<lambda>(m, _). exclude \<noteq> Some m \<and> \<not> fd_muted (faders m))"
    by (auto simp: heard_def)
  have eq: "mix_into fp sources faders exclude n =
      mix_into fp (filter (heard faders exclude) sources) faders None n"
    unfolding mix_into_def by (rule mix_fold_heard)
  have "filter (heard faders exclude) sources = []"
    if "list_all (\<lambda>(m, _). exclude = Some m \<or> fd_muted (faders m)) sources"
    using that by (auto simp: filter_empty_conv heard_def list_all_iff)
  then show ?thesis using eq unfolding h [symmetric] by (auto simp: mix_into_def)
qed

theorem mix_excludes_witness:
  "mix_into sample_fp [(MemberId 1, [5, 6])] (\<lambda>_. fader_default) (Some (MemberId 1)) 2 = [0, 0]"
  using mix_excludes [of sample_fp "[(MemberId 1, [5, 6])]" "\<lambda>_. fader_default" "Some (MemberId 1)" 2]
  by (simp add: fader_default_def) (simp add: mix_into_def numeral_2_eq_2)

section \<open>The metronome\<close>

lemma beat_start_le: "0 < bpm \<Longrightarrow> ((s * bpm div k) * k + (bpm - 1)) div bpm \<le> (s :: nat)"
proof -
  assume b: "0 < bpm"
  have "(s * bpm div k) * k \<le> s * bpm" by simp
  then have "(s * bpm div k) * k + (bpm - 1) \<le> (bpm - 1) + s * bpm" by simp
  then have "((s * bpm div k) * k + (bpm - 1)) div bpm \<le> ((bpm - 1) + s * bpm) div bpm"
    by (rule div_le_mono)
  also have "\<dots> = s" using b by (simp only: div_mult_self1 neq0_conv) simp
  finally show ?thesis .
qed

lemma wrap64_add: "wrap64 (wrap64 a + b) = wrap64 (a + b)"
  by (simp add: wrap64_def mod_add_left_eq)

text \<open>The click is a pure function of the sample clock: rendering a window in two parts gives the same
  samples as rendering it whole, the wrap of the clock included, and the beat a sample belongs to
  never starts after it, so its offset does not underflow.\<close>

theorem metronome_split:
  "metronome_render fp mt clock (a @ b) gain =
     metronome_render fp mt clock a gain @ metronome_render fp mt (wrap64 (clock + length a)) b gain \<and>
   (mt_bpm mt \<noteq> 0 \<longrightarrow>
     (sample * unat (mt_bpm mt) div 2880000 * 2880000 + (unat (mt_bpm mt) - 1)) div unat (mt_bpm mt) \<le> sample)"
proof -
  have "enumerate 0 (a @ b) = enumerate 0 a @ enumerate (length a) b"
    by (simp add: enumerate_append_eq)
  moreover have "enumerate (length a) b = map (\<lambda>(i, x). (length a + i, x)) (enumerate 0 b)"
    by (rule nth_equalityI) (auto simp: nth_enumerate_eq)
  ultimately have "metronome_render fp mt clock (a @ b) gain =
     metronome_render fp mt clock a gain @ metronome_render fp mt (wrap64 (clock + length a)) b gain"
    by (simp add: metronome_render_def comp_def split_beta wrap64_add add.assoc)
  moreover have "0 < unat (mt_bpm mt)" if "mt_bpm mt \<noteq> 0"
    using that by (simp add: unat_gt_0)
  ultimately show ?thesis using beat_start_le by blast
qed

theorem metronome_split_witness:
  "(24000 * unat (120 :: u16) div 2880000 * 2880000 + (unat (120 :: u16) - 1)) div unat (120 :: u16)
     \<le> (24000 :: nat)"
  using metronome_split [of sample_fp "\<lparr>mt_bpm = 120, mt_beats_per_bar = 4\<rparr>" 0 "[]" "[]" 0 24000]
  by simp

end
