(* ===== verification/ServerInv.thy ===== *)
theory ServerInv
  imports ServerTick AudioProps
begin

text \<open>
  What every operation of the session core keeps: each member well formed (its link and its jitter
  buffer in bounds, an address and a session exactly while connected, a name the roster can carry),
  the buffers of the mix at their fixed lengths, the waiter map within its cap.

  \<open>keeps s t\<close> says that \<open>t\<close> comes from \<open>s\<close> without an admission: no member appears, changes role
  or token or comes back to life, no revocation is undone, and the invariant is kept.
\<close>

named_theorems keeps_intros "operations that keep the session invariant"
named_theorems steady_intros "updates of one member that keep it well formed"

section \<open>Well-formed members\<close>

definition avatar_ok :: "(hash32 \<times> u32) option \<Rightarrow> bool" where
  "avatar_ok a = (case a of None \<Rightarrow> True | Some (_, len) \<Rightarrow> 0 < len \<and> unat len \<le> MAX_AVATAR_BYTES)"

definition codec_sizes_ok :: "'op encoder option \<Rightarrow> 'op decoder option \<Rightarrow> bool" where
  "codec_sizes_ok e d \<longleftrightarrow> (case e of None \<Rightarrow> True | Some e \<Rightarrow> en_pcm_len e = MIX_LEN) \<and>
     (case d of None \<Rightarrow> True | Some d \<Rightarrow> de_pcm_len d = MIX_LEN)"

definition binding_ok :: "bool \<Rightarrow> bool \<Rightarrow> sock_addr option \<Rightarrow> 'ts session option \<Rightarrow> resp_cache option \<Rightarrow> bool" where
  "binding_ok conn quiet addr ses cache \<longleftrightarrow>
     (if conn then addr \<noteq> None \<and> ses \<noteq> None
      else addr = None \<and> ses = None \<and> cache = None \<and> \<not> quiet)"

definition member_ok :: "('ts, 'op) member \<Rightarrow> bool" where
  "member_ok m \<longleftrightarrow> link_inv (mb_link m) \<and> jb_inv (mb_jitter m) \<and> length (mb_name m) \<le> MAX_NAME_LEN \<and>
     binding_ok (mb_connected m) (mb_quiet m) (mb_addr m) (mb_session m) (mb_resp_cache m) \<and>
     avatar_ok (mb_avatar m) \<and> (case mb_avatar_rx m of None \<Rightarrow> True | Some rx \<Rightarrow> rx_inv rx) \<and>
     codec_sizes_ok (mb_encoder m) (mb_decoder m)"

definition steady :: "('ts, 'op) member \<Rightarrow> ('ts, 'op) member \<Rightarrow> bool" where
  "steady m m' \<longleftrightarrow> mb_role m' = mb_role m \<and> mb_jti m' = mb_jti m \<and>
     (mb_connected m' \<longrightarrow> mb_connected m) \<and> (member_ok m \<longrightarrow> member_ok m')"

lemma steady_refl [simp, steady_intros]: "steady m m"
  by (simp add: steady_def)

lemma steady_trans: "steady a b \<Longrightarrow> steady b c \<Longrightarrow> steady a c"
  by (auto simp: steady_def)

text \<open>Fields the invariant does not mention.\<close>

lemma steady_fields [simp]:
  "steady a (m\<lparr>mb_faders := x1\<rparr>) = steady a m"
  "steady a (m\<lparr>mb_click_enabled := x2\<rparr>) = steady a m"
  "steady a (m\<lparr>mb_hear_self := x2\<rparr>) = steady a m"
  "steady a (m\<lparr>mb_opens_refused := x3\<rparr>) = steady a m"
  "steady a (m\<lparr>mb_last_heard_ms := x3\<rparr>) = steady a m"
  "steady a (m\<lparr>mb_rtt_ms_last := x4\<rparr>) = steady a m"
  "steady a (m\<lparr>mb_send_seq := x5\<rparr>) = steady a m"
  "steady a (m\<lparr>mb_violations := x3\<rparr>) = steady a m"
  "steady a (m\<lparr>mb_violation_budget := x6\<rparr>) = steady a m"
  "steady a (m\<lparr>mb_fanout_budget := x6\<rparr>) = steady a m"
  "steady a (m\<lparr>mb_stats_prev := x7\<rparr>) = steady a m"
  "steady a (m\<lparr>mb_level_peak := x8\<rparr>) = steady a m"
  "steady a (m\<lparr>mb_level_rms := x8\<rparr>) = steady a m"
  "steady a (m\<lparr>mb_avatar_tx := x9\<rparr>) = steady a m"
  by (simp_all add: steady_def member_ok_def)

text \<open>Fields it does.\<close>

lemma steady_link [steady_intros]:
  "steady a m \<Longrightarrow> (link_inv (mb_link m) \<Longrightarrow> link_inv l) \<Longrightarrow> steady a (m\<lparr>mb_link := l\<rparr>)"
  by (auto simp: steady_def member_ok_def)

lemma steady_jitter [steady_intros]:
  "steady a m \<Longrightarrow> (jb_inv (mb_jitter m) \<Longrightarrow> jb_inv j) \<Longrightarrow> steady a (m\<lparr>mb_jitter := j\<rparr>)"
  by (auto simp: steady_def member_ok_def)

lemma steady_name [steady_intros]:
  "steady a m \<Longrightarrow> length n \<le> MAX_NAME_LEN \<Longrightarrow> steady a (m\<lparr>mb_name := n\<rparr>)"
  by (auto simp: steady_def member_ok_def)

lemma steady_avatar [steady_intros]:
  "steady a m \<Longrightarrow> avatar_ok x \<Longrightarrow> steady a (m\<lparr>mb_avatar := x\<rparr>)"
  by (auto simp: steady_def member_ok_def)

lemma steady_avatar_rx [steady_intros]:
  "steady a m \<Longrightarrow> (member_ok m \<Longrightarrow> case x of None \<Rightarrow> True | Some rx \<Rightarrow> rx_inv rx) \<Longrightarrow>
   steady a (m\<lparr>mb_avatar_rx := x\<rparr>)"
  by (auto simp: steady_def member_ok_def)

lemma steady_session [steady_intros]:
  "steady a m \<Longrightarrow> mb_session m \<noteq> None \<Longrightarrow> steady a (m\<lparr>mb_session := Some x\<rparr>)"
  by (auto simp: steady_def member_ok_def binding_ok_def split: if_splits)

lemma steady_addr [steady_intros]:
  "steady a m \<Longrightarrow> mb_connected m \<Longrightarrow> steady a (m\<lparr>mb_addr := Some x\<rparr>)"
  by (auto simp: steady_def member_ok_def binding_ok_def split: if_splits)

lemma steady_quiet [steady_intros]:
  "steady a m \<Longrightarrow> (q \<Longrightarrow> mb_connected m) \<Longrightarrow> steady a (m\<lparr>mb_quiet := q\<rparr>)"
  by (auto simp: steady_def member_ok_def binding_ok_def split: if_splits)

lemma steady_encoder [steady_intros]:
  "steady a m \<Longrightarrow> (codec_sizes_ok (mb_encoder m) (mb_decoder m) \<Longrightarrow> en_pcm_len e = MIX_LEN) \<Longrightarrow>
   steady a (m\<lparr>mb_encoder := Some e\<rparr>)"
  by (auto simp: steady_def member_ok_def codec_sizes_ok_def)

lemma steady_decoder [steady_intros]:
  "steady a m \<Longrightarrow> (codec_sizes_ok (mb_encoder m) (mb_decoder m) \<Longrightarrow> de_pcm_len d = MIX_LEN) \<Longrightarrow>
   steady a (m\<lparr>mb_decoder := Some d\<rparr>)"
  by (auto simp: steady_def member_ok_def codec_sizes_ok_def)

lemma steady_disconnected [steady_intros]: "steady a m \<Longrightarrow> steady a (disconnected m)"
  by (auto simp: steady_def member_ok_def disconnected_def binding_ok_def)

lemma steady_send [steady_intros]: "steady a m \<Longrightarrow> steady a (member_send msg m)"
  by (simp add: member_send_def steady_link link_send_inv)

lemma steady_poll [steady_intros]:
  assumes "steady a m" "poll_and_seal env now who m = (out, m')"
  shows "steady a m'"
proof -
  obtain dgs l where p: "link_poll (e_pc_enc env) (mb_link m) now = (dgs, l)"
    by (cases "link_poll (e_pc_enc env) (mb_link m) now")
  have i: "link_inv (mb_link m) \<Longrightarrow> link_inv l"
    using link_poll_inv [of "mb_link m" "e_pc_enc env" now] by (simp add: p)
  show ?thesis
    using assms p i
    by (auto simp: poll_and_seal_def Let_def split: option.splits prod.splits
        intro!: steady_session steady_link)
qed

section \<open>The invariant\<close>

definition mix_ok :: "('ts, 'op) server_core \<Rightarrow> bool" where
  "mix_ok s \<longleftrightarrow> length (sv_bcast_accum s) = BCAST_LEN \<and> sv_bcast_slot s < BCAST_TICKS \<and>
     (\<forall>(_, pcm) \<in> set (sv_decoded s). length pcm = MIX_LEN) \<and> limiter_ok (sv_limiter s) \<and>
     (case sv_bcast_encoder s of None \<Rightarrow> True | Some e \<Rightarrow> en_pcm_len e = BCAST_LEN)"

definition tables_ok :: "('ts, 'op) server_core \<Rightarrow> bool" where
  "tables_ok s \<longleftrightarrow> length (sv_reject_seen s) = REJECT_SLOTS \<and>
     length (sv_init_slot_budget s) = REJECT_SLOTS \<and> cache_inv (sv_avatar_cache s) \<and>
     bm_len (sv_avatar_waiters s) \<le> cf_max_musicians (sv_cfg s) + cf_max_listeners (sv_cfg s)"

definition core_inv :: "('ts, 'op) server_core \<Rightarrow> bool" where
  "core_inv s \<longleftrightarrow> (\<forall>who m. get_member s who = Some m \<longrightarrow> member_ok m) \<and> mix_ok s \<and> tables_ok s"

definition evolves :: "('ts, 'op) server_core \<Rightarrow> ('ts, 'op) server_core \<Rightarrow> bool" where
  "evolves s t \<longleftrightarrow> sv_cfg t = sv_cfg s \<and> sv_revoked s \<subseteq> sv_revoked t \<and>
     (\<forall>who m'. get_member t who = Some m' \<longrightarrow>
        (\<exists>m. get_member s who = Some m \<and> mb_role m' = mb_role m \<and> mb_jti m' = mb_jti m \<and>
           (mb_connected m' \<longrightarrow> mb_connected m)))"

definition keeps :: "('ts, 'op) server_core \<Rightarrow> ('ts, 'op) server_core \<Rightarrow> bool" where
  "keeps s t \<longleftrightarrow> evolves s t \<and> (core_inv s \<longrightarrow> core_inv t)"

lemmas keeps_defs = keeps_def evolves_def core_inv_def mix_ok_def tables_ok_def get_member_def

lemma keeps_refl [simp, keeps_intros]: "keeps s s"
  by (auto simp: keeps_def evolves_def)

lemma evolves_trans: "evolves a b \<Longrightarrow> evolves b c \<Longrightarrow> evolves a c"
  unfolding evolves_def by (intro conjI) (simp, blast, metis)

lemma keeps_trans: "keeps a b \<Longrightarrow> keeps b c \<Longrightarrow> keeps a c"
  unfolding keeps_def using evolves_trans by blast

lemma evolves_same:
  "sv_cfg t = sv_cfg s \<Longrightarrow> sv_revoked s \<subseteq> sv_revoked t \<Longrightarrow> sv_members t = sv_members s \<Longrightarrow> evolves s t"
  by (simp add: evolves_def get_member_def)

lemma keeps_step: "keeps a s \<Longrightarrow> evolves s t \<Longrightarrow> (core_inv s \<Longrightarrow> core_inv t) \<Longrightarrow> keeps a t"
  unfolding keeps_def using evolves_trans by blast

lemma core_invI:
  "core_inv s \<Longrightarrow> sv_members t = sv_members s \<Longrightarrow> mix_ok t \<Longrightarrow> tables_ok t \<Longrightarrow> core_inv t"
  by (simp add: core_inv_def get_member_def)

lemma core_invD: "core_inv s \<Longrightarrow> mix_ok s \<and> tables_ok s"
  by (simp add: core_inv_def)

lemma keeps_sameI:
  assumes "keeps a s" "sv_cfg t = sv_cfg s" "sv_revoked s \<subseteq> sv_revoked t" "sv_members t = sv_members s"
    and "mix_ok s \<Longrightarrow> tables_ok s \<Longrightarrow> mix_ok t \<and> tables_ok t"
  shows "keeps a t"
  using assms core_invI core_invD by (intro keeps_step [OF assms(1) evolves_same]) blast+

text \<open>Fields neither part mentions.\<close>

lemma keeps_fields [simp]:
  "keeps a (s\<lparr>sv_events := f1\<rparr>) = keeps a s"
  "keeps a (s\<lparr>sv_last_musician_count := f2\<rparr>) = keeps a s"
  "keeps a (s\<lparr>sv_roster_dirty := f3\<rparr>) = keeps a s"
  "keeps a (s\<lparr>sv_roster_epoch := f2\<rparr>) = keeps a s"
  "keeps a (s\<lparr>sv_metronome := f4\<rparr>) = keeps a s"
  "keeps a (s\<lparr>sv_metronome_enabled := f3\<rparr>) = keeps a s"
  "keeps a (s\<lparr>sv_bcast_faders := f5\<rparr>) = keeps a s"
  "keeps a (s\<lparr>sv_audition := f3\<rparr>) = keeps a s"
  "keeps a (s\<lparr>sv_stream_status := f6\<rparr>) = keeps a s"
  "keeps a (s\<lparr>sv_last_stream_status_ms := f2\<rparr>) = keeps a s"
  "keeps a (s\<lparr>sv_broadcast_ready := f7\<rparr>) = keeps a s"
  "keeps a (s\<lparr>sv_record_status := f8\<rparr>) = keeps a s"
  "keeps a (s\<lparr>sv_record_stems := f3\<rparr>) = keeps a s"
  "keeps a (s\<lparr>sv_log_tail := f9\<rparr>) = keeps a s"
  "keeps a (s\<lparr>sv_log_budget := f10\<rparr>) = keeps a s"
  "keeps a (s\<lparr>sv_sample_clock := f2\<rparr>) = keeps a s"
  "keeps a (s\<lparr>sv_tick_count := f2\<rparr>) = keeps a s"
  "keeps a (s\<lparr>sv_reject_budget := f10\<rparr>) = keeps a s"
  "keeps a (s\<lparr>sv_init_budget := f10\<rparr>) = keeps a s"
  "keeps a (s\<lparr>sv_init_reads := f2\<rparr>) = keeps a s"
  "keeps a (s\<lparr>sv_cookie_trigger := f10\<rparr>) = keeps a s"
  "keeps a (s\<lparr>sv_challenge_budget := f10\<rparr>) = keeps a s"
  "keeps a (s\<lparr>sv_challenges := f2\<rparr>) = keeps a s"
  "keeps a (s\<lparr>sv_last_stats_ms := f2\<rparr>) = keeps a s"
  "keeps a (s\<lparr>sv_bcast_tap := f3\<rparr>) = keeps a s"
  "keeps a (s\<lparr>sv_bcast_clock := f2\<rparr>) = keeps a s"
  "keeps a (s\<lparr>sv_bcast_encodes := f2\<rparr>) = keeps a s"
  by (simp_all add: keeps_defs)

text \<open>Fields they do.\<close>

lemma keeps_cache [keeps_intros]:
  "keeps a s \<Longrightarrow> (cache_inv (sv_avatar_cache s) \<Longrightarrow> cache_inv c) \<Longrightarrow> keeps a (s\<lparr>sv_avatar_cache := c\<rparr>)"
  by (erule keeps_sameI) (simp_all add: tables_ok_def mix_ok_def)

lemma keeps_waiters [keeps_intros]:
  "keeps a s \<Longrightarrow> (bm_len (sv_avatar_waiters s) \<le> cf_max_musicians (sv_cfg s) + cf_max_listeners (sv_cfg s) \<Longrightarrow>
     bm_len w \<le> cf_max_musicians (sv_cfg s) + cf_max_listeners (sv_cfg s)) \<Longrightarrow>
   keeps a (s\<lparr>sv_avatar_waiters := w\<rparr>)"
  by (erule keeps_sameI) (simp_all add: tables_ok_def mix_ok_def)

lemma keeps_revoke [keeps_intros]:
  "keeps a s \<Longrightarrow> sv_revoked s \<subseteq> j \<Longrightarrow> keeps a (s\<lparr>sv_revoked := j\<rparr>)"
  by (erule keeps_sameI) (simp_all add: tables_ok_def mix_ok_def)

lemma keeps_tables [keeps_intros]:
  "keeps a s \<Longrightarrow> length r = length (sv_reject_seen s) \<Longrightarrow> keeps a (s\<lparr>sv_reject_seen := r\<rparr>)"
  "keeps a s \<Longrightarrow> length b = length (sv_init_slot_budget s) \<Longrightarrow> keeps a (s\<lparr>sv_init_slot_budget := b\<rparr>)"
  by (erule keeps_sameI; simp add: tables_ok_def mix_ok_def)+

lemma keeps_encoder [keeps_intros]:
  "keeps a s \<Longrightarrow> (mix_ok s \<Longrightarrow> en_pcm_len e = BCAST_LEN) \<Longrightarrow> keeps a (s\<lparr>sv_bcast_encoder := Some e\<rparr>)"
  by (erule keeps_sameI) (simp_all add: tables_ok_def mix_ok_def)

lemma get_member_upd:
  "get_member (upd_member who f s) i =
     (if i = who then map_option f (get_member s who) else get_member s i)"
  by (simp add: get_member_def upd_member_def bm_get_update)

lemma upd_member_fields [simp]:
  "sv_cfg (upd_member who f s) = sv_cfg s"
  "sv_revoked (upd_member who f s) = sv_revoked s"
  "mix_ok (upd_member who f s) = mix_ok s"
  "tables_ok (upd_member who f s) = tables_ok s"
  by (simp_all add: upd_member_def mix_ok_def tables_ok_def)

text \<open>Updates of the members.\<close>

lemma keeps_members:
  assumes "keeps a s" "sv_cfg t = sv_cfg s" "sv_revoked t = sv_revoked s"
    and "mix_ok t = mix_ok s" "tables_ok t = tables_ok s"
    and steady: "\<And>i m'. get_member t i = Some m' \<Longrightarrow> \<exists>m. get_member s i = Some m \<and> steady m m'"
  shows "keeps a t"
proof (rule keeps_step [OF assms(1)])
  show "evolves s t"
    using assms(2,3) steady unfolding evolves_def steady_def by (intro conjI) (simp, simp, metis)
  show "core_inv t" if "core_inv s"
    using that assms(4,5) steady unfolding core_inv_def steady_def by metis
qed

lemma keeps_upd [keeps_intros]:
  assumes "keeps a s" "\<And>m. get_member s who = Some m \<Longrightarrow> steady m (f m)"
  shows "keeps a (upd_member who f s)"
  using assms(2) by (intro keeps_members [OF assms(1)]) (auto simp: get_member_upd split: if_splits)

lemma keeps_map [keeps_intros]:
  assumes "keeps a s" "\<And>i m. get_member s i = Some m \<Longrightarrow> steady m (f i m)"
  shows "keeps a (s\<lparr>sv_members := bm_map f (sv_members s)\<rparr>)"
  using assms(2) by (intro keeps_members [OF assms(1)]) (auto simp: get_member_def mix_ok_def tables_ok_def)

lemma keeps_map_of [keeps_intros]:
  assumes "keeps a s" "ms = sv_members s" "\<And>i m. get_member s i = Some m \<Longrightarrow> steady m (f i m)"
  shows "keeps a (s\<lparr>sv_members := bm_map f ms\<rparr>)"
  unfolding assms(2) using assms(1,3) by (rule keeps_map)

lemma keeps_remove [keeps_intros]:
  "keeps a s \<Longrightarrow> ms = sv_members s \<Longrightarrow> keeps a (s\<lparr>sv_members := bm_remove who ms\<rparr>)"
  by (erule keeps_members) (auto simp: get_member_def mix_ok_def tables_ok_def split: if_splits)

section \<open>The shared operations\<close>

lemma keeps_push_event [simp]: "keeps a (push_event e s) = keeps a s"
  by (simp add: push_event_def)

lemma keeps_queue_roster [simp]: "keeps a (queue_roster s) = keeps a s"
  by (simp add: queue_roster_def)

lemma keeps_note_count [simp]: "keeps a (note_musician_count s) = keeps a s"
  by (simp add: note_musician_count_def Let_def)

lemma keeps_fan_out [keeps_intros]: "keeps a s \<Longrightarrow> keeps a (fan_out msg s)"
  unfolding fan_out_def by (erule keeps_map) (simp add: steady_send)

lemma keeps_flush_roster [keeps_intros]: "keeps a s \<Longrightarrow> keeps a (flush_roster s)"
  by (simp add: flush_roster_def Let_def keeps_fan_out)

lemma keeps_disconnect [keeps_intros]: "keeps a s \<Longrightarrow> keeps a (disconnect_member who s)"
  by (auto simp: disconnect_member_def Let_def intro!: keeps_upd steady_disconnected split: option.splits)

lemma keeps_violation [keeps_intros]: "keeps a s \<Longrightarrow> keeps a (violation now who what s)"
  by (auto simp: violation_def Let_def intro!: keeps_disconnect keeps_upd split: option.splits prod.splits)

lemma keeps_take_fanout: "take_fanout now who s = (ok, t) \<Longrightarrow> keeps a s \<Longrightarrow> keeps a t"
  by (auto simp: take_fanout_def Let_def intro!: keeps_violation keeps_upd
      split: option.splits prod.splits if_splits)

lemma keeps_poll_member:
  "keeps a s \<Longrightarrow> get_member s who = Some m \<Longrightarrow> steady m m1 \<Longrightarrow>
   poll_and_seal env now who m1 = (out, m2) \<Longrightarrow> keeps a (upd_member who (\<lambda>_. m2) s)"
  by (rule keeps_upd) (auto intro: steady_poll)

lemma keeps_flush: "flush_member_link env now who s = (out, t) \<Longrightarrow> keeps a s \<Longrightarrow> keeps a t"
  by (auto simp: flush_member_link_def intro: keeps_poll_member [OF _ _ steady_refl]
      split: option.splits prod.splits if_splits)

lemma keeps_farewell: "farewell env now who reason s = (out, t) \<Longrightarrow> keeps a s \<Longrightarrow> keeps a t"
  by (auto simp: farewell_def intro: keeps_poll_member [OF _ _ steady_send [OF steady_refl]]
      split: option.splits prod.splits if_splits)

lemma feed_lines_inv:
  "feed_lines now link tail budget = (l, r, b) \<Longrightarrow> link_inv link \<Longrightarrow> link_inv l"
proof (induction now link tail budget rule: feed_lines.induct)
  case (1 now link tail budget)
  show ?case
    using "1.prems" "1.IH" link_send_inv
    by (subst (asm) feed_lines.simps)
      (auto simp: Let_def split: if_splits option.splits prod.splits)
qed

lemma keeps_server_log [keeps_intros]: "keeps a s \<Longrightarrow> keeps a (feed_server_log now s)"
  by (auto simp: feed_server_log_def Let_def get_member_def intro!: keeps_upd steady_link dest: feed_lines_inv
      split: option.splits prod.splits)

text \<open>A fold of operations that each keep the invariant.\<close>

lemma keeps_foldl: "(\<And>x t. keeps a t \<Longrightarrow> keeps a (f t x)) \<Longrightarrow> keeps a s \<Longrightarrow> keeps a (foldl f s xs)"
  by (induction xs arbitrary: s) auto

lemma keeps_setters [keeps_intros]:
  "keeps a s \<Longrightarrow> keeps a (set_stream_status now ds s)"
  "keeps a s \<Longrightarrow> keeps a (set_broadcast_readiness state s)"
  "keeps a s \<Longrightarrow> keeps a (set_record_status rs ws s)"
  "keeps a s \<Longrightarrow> keeps a (set_broadcast_tap on s)"
  "keeps a s \<Longrightarrow> keeps a (restore_revoked jtis s)"
  "keeps a s \<Longrightarrow> keeps a (snd (take_events s))"
  by (auto simp: set_stream_status_def set_broadcast_readiness_def set_record_status_def
      set_broadcast_tap_def restore_revoked_def take_events_def queue_stream_status_def Let_def
      intro!: keeps_fan_out keeps_map_of keeps_revoke)

lemma keeps_shutdown_fold:
  "keeps a s \<Longrightarrow> keeps a (snd (foldl (shutdown_one env now reason) (os, s) ids))"
proof (induction ids arbitrary: os s)
  case Nil
  then show ?case by simp
next
  case (Cons i ids)
  obtain o1 s1 where f: "farewell env now i reason s = (o1, s1)" by fastforce
  then have "keeps a (push_event (MemberDisconnected i) (disconnect_member i s1))"
    using Cons.prems by (simp add: keeps_disconnect keeps_farewell)
  then show ?case using Cons.IH f by (simp add: shutdown_one_def)
qed

lemma keeps_shutdown: "keeps a s \<Longrightarrow> keeps a (snd (shutdown env now reason s))"
  using keeps_shutdown_fold [OF keeps_server_log, of a s env now reason "[]" now
      "connected_ids (feed_server_log now s)"]
  by (auto simp: shutdown_def Let_def split: prod.splits)

lemma keeps_drop_peer: "drop_peer addr s = (r, t) \<Longrightarrow> keeps a s \<Longrightarrow> keeps a t"
  by (auto simp: drop_peer_def keeps_disconnect split: option.splits prod.splits)

section \<open>Control messages\<close>

lemma keeps_chat [keeps_intros]: "keeps a s \<Longrightarrow> keeps a (ctl_chat now from text s)"
  by (auto simp: ctl_chat_def intro: keeps_take_fanout keeps_fan_out split: prod.splits)

lemma keeps_mixer [keeps_intros]:
  "keeps a s \<Longrightarrow> keeps a (ctl_mixer_set now from target g p mu s)"
  "keeps a s \<Longrightarrow> keeps a (ctl_metronome_set now from bpm beats en s)"
  "keeps a s \<Longrightarrow> keeps a (ctl_hear_self now from en s)"
  "keeps a s \<Longrightarrow> keeps a (ctl_broadcast_mix_set now from target g p mu s)"
  "keeps a s \<Longrightarrow> keeps a (ctl_broadcast_audition now from en s)"
  "keeps a s \<Longrightarrow> keeps a (ctl_stream_ctl now from sop s)"
  "keeps a s \<Longrightarrow> keeps a (ctl_record_ctl now from rop s)"
  "keeps a s \<Longrightarrow> keeps a (ctl_pong now from sent s)"
  "keeps a s \<Longrightarrow> keeps a (ctl_bye from s)"
  by (auto simp: ctl_mixer_set_def ctl_metronome_set_def ctl_hear_self_def ctl_broadcast_mix_set_def
      ctl_broadcast_audition_def ctl_stream_ctl_def ctl_record_ctl_def ctl_pong_def ctl_bye_def Let_def
      intro!: keeps_violation keeps_upd keeps_fan_out keeps_disconnect split: option.splits)

lemma keeps_set_name [keeps_intros]:
  "keeps a s \<Longrightarrow> length name \<le> MAX_NAME_LEN \<Longrightarrow> keeps a (ctl_set_name from name s)"
  using str_trim_length [of name]
  by (auto simp: ctl_set_name_def Let_def intro!: keeps_upd steady_name split: option.splits)

lemma keeps_ctl_revoke: "ctl_revoke env now from jti s = (out, t) \<Longrightarrow> keeps a s \<Longrightarrow> keeps a t"
  by (auto simp: ctl_revoke_def Let_def intro!: keeps_violation keeps_remove keeps_revoke
      elim!: keeps_farewell split: option.splits prod.splits if_splits)

lemma rx_new_inv: "rx_inv (rx_new hash len)"
  by (simp add: rx_inv_def rx_new_def)

lemma keeps_set_avatar [keeps_intros]:
  assumes k: "keeps a s"
  shows "keeps a (ctl_set_avatar now from hash len s)"
proof (cases "len = 0 \<or> MAX_AVATAR_BYTES < unat len")
  case True
  then show ?thesis using k by (simp add: ctl_set_avatar_def keeps_violation)
next
  case False
  then have len: "avatar_ok (Some (hash, len))" by (simp add: avatar_ok_def word_neq_0_conv)
  show ?thesis
    using False k len
    by (auto simp: ctl_set_avatar_def Let_def steady_def
        intro!: keeps_upd keeps_cache cache_touch_inv steady_avatar steady_avatar_rx steady_send rx_new_inv
        elim!: keeps_take_fanout split: option.splits prod.splits if_splits)
qed

lemma chunk_step_steady:
  assumes "chunk_step env hash index tot data m = (r, m')"
  shows "steady m m'"
proof (cases "mb_avatar_rx m")
  case None
  then show ?thesis using assms by (simp add: chunk_step_def)
next
  case (Some rx)
  obtain step rx1 where p: "rx_push (e_crypto env) rx index tot data = (step, rx1)" by fastforce
  have "rx_inv rx1" if "rx_inv rx" "step = Ok More"
    using rx_push_inv(4) [OF that(1) p that(2)] by simp
  then show ?thesis
    using assms Some p
    by (auto simp: chunk_step_def member_ok_def intro!: steady_avatar_rx split: if_splits)
qed

lemma keeps_serve_waiter: "keeps a s \<Longrightarrow> keeps a (serve_waiter hash s who)"
  unfolding serve_waiter_def by (rule keeps_upd) simp_all

lemma keeps_avatar_chunk [keeps_intros]:
  "keeps a s \<Longrightarrow> keeps a (ctl_avatar_chunk env now from hash index tot data s)"
  by (auto simp: ctl_avatar_chunk_def Let_def
      intro!: keeps_violation keeps_foldl keeps_serve_waiter keeps_waiters keeps_cache keeps_upd
        cache_insert_inv order_trans [OF bm_len_retain_le]
      elim: chunk_step_steady split: option.splits prod.splits sum.splits rx_step.splits
      simp: bm_remove_def)

lemma keeps_note_waiter [keeps_intros]: "keeps a s \<Longrightarrow> keeps a (note_avatar_waiter hash who s)"
  using bm_len_retain_le [of "\<lambda>(h, _). h \<in> set (announced_hashes s)" "sv_avatar_waiters s"]
  by (auto simp: note_avatar_waiter_def Let_def bm_len_insert intro!: keeps_waiters)

lemma keeps_avatar_request [keeps_intros]: "keeps a s \<Longrightarrow> keeps a (ctl_avatar_request from hash s)"
  by (auto simp: ctl_avatar_request_def
      intro!: keeps_upd keeps_cache cache_touch_inv keeps_note_waiter steady_send steady_avatar_rx rx_new_inv
      split: option.splits)

text \<open>A message the length rules accept.\<close>

lemma keeps_handle_control:
  assumes "handle_control env now from msg s = (out, t)" "check_lengths msg = Ok ()" "keeps a s"
  shows "keeps a t"
  using assms
  by (cases msg)
    (auto simp: handle_control_def elim!: keeps_ctl_revoke
      intro!: keeps_chat keeps_mixer keeps_violation keeps_upd steady_send keeps_set_avatar
        keeps_avatar_chunk keeps_avatar_request keeps_set_name split: if_splits)

lemma keeps_handle_controls:
  assumes "handle_controls env now from msgs s = (out, t)" "\<forall>m \<in> set msgs. check_lengths m = Ok ()" "keeps a s"
  shows "keeps a t"
  using assms
proof (induction msgs arbitrary: s out)
  case Nil
  then show ?case by simp
next
  case (Cons m ms)
  obtain o1 s1 where m: "handle_control env now from m s = (o1, s1)" by fastforce
  then obtain o2 where ms: "handle_controls env now from ms s1 = (o2, t)"
    using Cons.prems(1) by (auto split: prod.splits)
  have "keeps a s1" using keeps_handle_control [OF m] Cons.prems by simp
  then show ?case using Cons.IH [OF ms] Cons.prems by simp
qed

section \<open>The network\<close>

lemma link_receive_legal:
  assumes "link_inv l" "link_receive pc_dec l buf = (Ok msgs, l')"
  shows "\<forall>m \<in> set msgs. check_lengths m = Ok ()"
proof -
  obtain pkt where "link_receive_packet l pkt = (Ok msgs, l')"
    using assms(2) by (auto simp: link_receive_def split: if_splits option.splits prod.splits)
  then show ?thesis using link_delivers_legal [OF assms(1), of pkt msgs] by simp
qed

lemma receive_plain_steady:
  assumes "receive_plain env plain m = (r, m')" "steady a m"
  shows "steady a m'"
  using assms link_receive_inv [of "mb_link m" "e_pc_dec env" plain]
  by (auto simp: receive_plain_def Let_def
      intro!: steady_jitter steady_link jitter_push_inv unat_less [where 'a = 32, simplified]
      split: sum.splits if_splits prod.splits)

lemma receive_plain_legal:
  assumes "receive_plain env plain m = (Ok (Some msgs), m')" "link_inv (mb_link m)"
  shows "\<forall>c \<in> set msgs. check_lengths c = Ok ()"
  using assms link_receive_legal
  by (auto simp: receive_plain_def Let_def split: sum.splits if_splits prod.splits)

lemma keeps_reject_gate: "reject_gate env now ip s = (ok, t) \<Longrightarrow> keeps a s \<Longrightarrow> keeps a t"
  by (auto simp: reject_gate_def Let_def intro!: keeps_tables split: if_splits prod.splits)

lemma keeps_version_reject: "version_reject env now src v noise pkt s = (out, t) \<Longrightarrow> keeps a s \<Longrightarrow> keeps a t"
  by (auto simp: version_reject_def elim: keeps_reject_gate split: if_splits prod.splits option.splits)

lemma keeps_capacity_reject: "capacity_reject env now src r pkt s = (out, t) \<Longrightarrow> keeps a s \<Longrightarrow> keeps a t"
  by (auto simp: capacity_reject_def elim: keeps_reject_gate split: if_splits prod.splits option.splits)

lemma keeps_init_budget: "init_budget_take env now src s = (ok, t) \<Longrightarrow> keeps a s \<Longrightarrow> keeps a t"
  by (auto simp: init_budget_take_def Let_def intro!: keeps_tables split: if_splits prod.splits)

lemma keeps_cookie_required: "cookie_required now s = (ok, t) \<Longrightarrow> keeps a s \<Longrightarrow> keeps a t"
  by (auto simp: cookie_required_def split: prod.splits)

lemma keeps_cookie_challenge: "cookie_challenge env now src pkt s = (out, t) \<Longrightarrow> keeps a s \<Longrightarrow> keeps a t"
  by (auto simp: cookie_challenge_def Let_def split: if_splits prod.splits)

lemma keeps_handle_transport:
  assumes inv: "core_inv s" and h: "handle_transport env now src who counter x s = (out, t)"
  shows "keeps s t"
proof (cases "\<exists>m ses. get_member s who = Some m \<and> mb_connected m \<and> mb_session m = Some ses")
  case False
  then show ?thesis using h
    by (auto simp: handle_transport_def split: option.splits if_splits)
next
  case True
  then obtain m ses where m: "get_member s who = Some m" "mb_connected m" "mb_session m = Some ses"
    by blast
  obtain r ses1 where o: "session_open (e_crypto env) ses counter x = (r, ses1)" by fastforce
  let ?m1 = "m\<lparr>mb_session := Some ses1\<rparr>"
  have s1: "steady m ?m1" by (intro steady_session steady_refl) (simp add: m)
  show ?thesis
  proof (cases r)
    case (Inl e)
    then show ?thesis using h m o s1
      by (auto simp: handle_transport_def Let_def intro!: keeps_upd)
  next
    case (Inr plain)
    let ?m1' = "?m1\<lparr>mb_addr := Some src, mb_last_heard_ms := now\<rparr>"
    obtain c m2 where p: "receive_plain env plain ?m1' = (c, m2)" by fastforce
    have "steady m ?m1'" using s1 m(2) by (simp add: steady_addr)
    then have s2: "steady m m2" by (rule receive_plain_steady [OF p])
    have k: "keeps s (upd_member who (\<lambda>_. m2) s)"
      by (intro keeps_upd keeps_refl) (use m s2 in auto)
    have li: "link_inv (mb_link ?m1')" using inv m by (simp add: core_inv_def member_ok_def)
    show ?thesis
    proof (cases "\<exists>msgs. c = Ok (Some msgs)")
      case False
      then show ?thesis using h m o p k Inr
        by (auto simp: handle_transport_def Let_def intro: keeps_violation split: sum.splits option.splits)
    next
      case True
      then obtain msgs where c: "c = Ok (Some msgs)" by blast
      then have legal: "\<forall>c \<in> set msgs. check_lengths c = Ok ()" using receive_plain_legal p li by blast
      obtain o1 u where hc: "handle_controls env now who msgs (upd_member who (\<lambda>_. m2) s) = (o1, u)"
        by fastforce
      have "keeps s u" by (rule keeps_handle_controls [OF hc legal k])
      then show ?thesis using h m o p c Inr hc
        by (auto simp: handle_transport_def Let_def elim: keeps_flush split: prod.splits)
    qed
  qed
qed

section \<open>Admission\<close>

lemma keeps_broadcast_encoder:
  assumes "broadcast_encoder env role s = (ok, t)" "keeps a s"
  shows "keeps a t"
  using assms
  by (auto simp: broadcast_encoder_def encoder_new_def Let_def channel_count_def
      intro!: keeps_encoder split: if_splits option.splits sum.splits)

lemma member_codecs_ok: "member_codecs env role = Ok (e, d) \<Longrightarrow> codec_sizes_ok e d"
  by (auto simp: member_codecs_def codec_sizes_ok_def encoder_new_def decoder_new_def Let_def
      channel_count_def split: role.splits sum.splits option.splits if_splits)

lemma member_name_length: "length (member_name token) \<le> MAX_NAME_LEN"
proof -
  have "unat (member_num (tk_member_id token)) < 10 ^ Suc 4"
    using unat_less [of "member_num (tk_member_id token)"] by simp
  then have "length (decimal_digits (unat (member_num (tk_member_id token)))) \<le> 5"
    using length_decimal_digits [of _ 4] by simp
  then show ?thesis by (simp add: member_name_def split: option.splits)
qed

lemma fresh_member_ok:
  assumes "codec_sizes_ok e d" "\<And>p. prev = Some p \<Longrightarrow> member_ok p"
  shows "member_ok (fresh_member now src token ses cache e d prev)"
  using assms member_name_length [of token]
  by (auto simp: member_ok_def fresh_member_def binding_ok_def link_new_inv jitter_new_inv avatar_ok_def
      split: option.splits)

lemma keeps_greet [keeps_intros]: "keeps a s \<Longrightarrow> keeps a (greet who s)"
  by (auto simp: greet_def Let_def intro!: keeps_upd steady_send split: option.splits)

end
