(* ===== verification/ClientInv.thy ===== *)
theory ClientInv
  imports ClientRun ServerInv
begin

text \<open>
  What every operation of the client core keeps, and that none of them panics or runs forever: the
  connection state agrees with the transport, the link and the jitter buffer are in bounds, every
  cached avatar has the hash it is filed under and our own stays cached, the codecs fit their frames,
  and the compensators keep to their contract.
\<close>

named_theorems client_intros "operations that keep the client invariant"

section \<open>The invariant\<close>

definition phase_ok :: "client_state \<Rightarrow> 'ts session option \<Rightarrow> welcome_msg option \<Rightarrow> bool" where
  "phase_ok st ses w \<longleftrightarrow> (ses = None \<longleftrightarrow> w = None) \<and>
     (case st of Connecting \<Rightarrow> ses = None | Rejected _ _ \<Rightarrow> ses = None | Joined \<Rightarrow> ses \<noteq> None | _ \<Rightarrow> True)"

definition own_ok :: "avatar_cache \<Rightarrow> (hash32 \<times> u32) option \<Rightarrow> bool" where
  "own_ok cache own = (case own of None \<Rightarrow> True | Some (h, _) \<Rightarrow> cache_get cache h \<noteq> None)"

definition verified_cache :: "('hs, 'ts) crypto \<Rightarrow> avatar_cache \<Rightarrow> bool" where
  "verified_cache cr cache \<longleftrightarrow> cache_inv cache \<and>
     (\<forall>h bs. cache_get cache h = Some bs \<longrightarrow> avatar_hash cr bs = h \<and> bs \<noteq> [] \<and> length bs \<le> MAX_AVATAR_BYTES)"

definition frame_sizes_ok :: "role \<Rightarrow> channels \<Rightarrow> 'op encoder option \<Rightarrow> 'op decoder \<Rightarrow> nat \<Rightarrow> bool" where
  "frame_sizes_ok role uplink enc dec len \<longleftrightarrow>
     (enc = None \<longleftrightarrow> role = Listener) \<and>
     (case enc of None \<Rightarrow> True | Some e \<Rightarrow> en_pcm_len e = TICK_SAMPLES * channel_count uplink) \<and>
     de_pcm_len dec = len \<and> len = (case role of Musician \<Rightarrow> MIX_LEN | Listener \<Rightarrow> BCAST_LEN)"

definition pacer_ok :: "'sl slip \<Rightarrow> (nat \<Rightarrow> 'sl \<Rightarrow> bool) \<Rightarrow> nat \<Rightarrow> 'sl drift \<Rightarrow> bool" where
  "pacer_ok lib good ch d \<longleftrightarrow> drift_ok lib (good ch) d \<and> dc_channels d = ch \<and> dc_chunk_out d = TICK_SAMPLES"

definition pacers_ok :: "'sl slip \<Rightarrow> (nat \<Rightarrow> 'sl \<Rightarrow> bool) \<Rightarrow> nat \<Rightarrow> 'sl drift option \<Rightarrow> bool" where
  "pacers_ok lib good ch x \<longleftrightarrow> (case x of None \<Rightarrow> True | Some d \<Rightarrow> pacer_ok lib good ch d)"

definition client_ok ::
  "('hs, 'ts) crypto \<Rightarrow> 'sl slip \<Rightarrow> (nat \<Rightarrow> 'sl \<Rightarrow> bool) \<Rightarrow> ('hs, 'ts, 'op, 'sl) client_core \<Rightarrow> bool" where
  "client_ok cr lib good c \<longleftrightarrow>
     phase_ok (cc_state c) (cc_session c) (cc_welcome c) \<and> link_inv (cc_link c) \<and> jb_inv (cc_jitter c) \<and>
     (case cc_avatar_rx c of None \<Rightarrow> True | Some rx \<Rightarrow> rx_inv rx) \<and>
     verified_cache cr (cc_avatar_cache c) \<and> own_ok (cc_avatar_cache c) (cc_own_avatar c) \<and>
     frame_sizes_ok (tk_role (iv_token (cc_invite c))) (cc_uplink c) (cc_encoder c) (cc_decoder c) (cc_decode_len c) \<and>
     pacers_ok lib good (channel_count (cc_uplink c)) (cc_capture_comp c) \<and>
     pacers_ok lib good 2 (cc_playout_comp c)"

lemmas client_ok_defs = client_ok_def phase_ok_def

text \<open>What the libraries promise: a resampler for either channel count, packets that fit a datagram.\<close>

definition slip_lawful :: "'sl slip \<Rightarrow> (nat \<Rightarrow> 'sl \<Rightarrow> bool) \<Rightarrow> bool" where
  "slip_lawful lib good \<longleftrightarrow>
     (\<forall>ch \<in> {1, 2}. slip_new lib TICK_SAMPLES ch \<noteq> None \<and> slip_good lib (good ch) TICK_SAMPLES ch)"

definition opus_bounded :: "'op opus \<Rightarrow> bool" where
  "opus_bounded lib \<longleftrightarrow> (\<forall>e pcm p e'. opus_encode lib e pcm = (Some p, e') \<longrightarrow> length p \<le> 1500)"

section \<open>Fields\<close>

lemma client_ok_fields [simp]:
  "client_ok cr lib good (c\<lparr>cc_events := x1\<rparr>) = client_ok cr lib good c"
  "client_ok cr lib good (c\<lparr>cc_initiator := x2\<rparr>) = client_ok cr lib good c"
  "client_ok cr lib good (c\<lparr>cc_roster := x3\<rparr>) = client_ok cr lib good c"
  "client_ok cr lib good (c\<lparr>cc_avatar_announced := x4\<rparr>) = client_ok cr lib good c"
  "client_ok cr lib good (c\<lparr>cc_avatar_requested := x5\<rparr>) = client_ok cr lib good c"
  "client_ok cr lib good (c\<lparr>cc_cookie_answers := x6\<rparr>) = client_ok cr lib good c"
  "client_ok cr lib good (c\<lparr>cc_cookied_init := x7\<rparr>) = client_ok cr lib good c"
  "client_ok cr lib good (c\<lparr>cc_last_server_ms := x8\<rparr>) = client_ok cr lib good c"
  "client_ok cr lib good (c\<lparr>cc_avatar_tx := x9\<rparr>) = client_ok cr lib good c"
  "client_ok cr lib good (c\<lparr>cc_fifo := x10\<rparr>) = client_ok cr lib good c"
  "client_ok cr lib good (c\<lparr>cc_playout_stage := x11\<rparr>) = client_ok cr lib good c"
  "client_ok cr lib good (c\<lparr>cc_own_name := x12\<rparr>) = client_ok cr lib good c"
  "client_ok cr lib good (c\<lparr>cc_rtt_ms_last := x13\<rparr>) = client_ok cr lib good c"
  "client_ok cr lib good (c\<lparr>cc_frames_sent := x14, cc_prev_payload := x15\<rparr>) = client_ok cr lib good c"
  "client_ok cr lib good (c\<lparr>cc_last_init_ms := x16, cc_init_resend_ms := x17\<rparr>) = client_ok cr lib good c"
  "client_ok cr lib good (c\<lparr>cc_last_ping_ms := x18, cc_ping_nonce := x19\<rparr>) = client_ok cr lib good c"
  "client_ok cr lib good (c\<lparr>cc_session_full := x20\<rparr>) = client_ok cr lib good c"
  "client_ok cr lib good (c\<lparr>cc_session_full := x20, cc_last_init_ms := x16, cc_init_resend_ms := x17\<rparr>)
     = client_ok cr lib good c"
  "client_ok cr lib good (c\<lparr>cc_playout_frames_since_steer := x21\<rparr>) = client_ok cr lib good c"
  "client_ok cr lib good (c\<lparr>cc_playout_frames_since_steer := x21, cc_playout_steer := x22\<rparr>)
     = client_ok cr lib good c"
  "client_ok cr lib good (c\<lparr>cc_uplink_report := x23, cc_redundancy := x24, cc_capture_steer := x25\<rparr>)
     = client_ok cr lib good c"
  by (simp_all add: client_ok_def)

lemma client_ok_link [client_intros]:
  "client_ok cr lib good c \<Longrightarrow> (link_inv (cc_link c) \<Longrightarrow> link_inv l) \<Longrightarrow> client_ok cr lib good (c\<lparr>cc_link := l\<rparr>)"
  by (simp add: client_ok_def)

lemma client_ok_jitter [client_intros]:
  "client_ok cr lib good c \<Longrightarrow> (jb_inv (cc_jitter c) \<Longrightarrow> jb_inv j) \<Longrightarrow> client_ok cr lib good (c\<lparr>cc_jitter := j\<rparr>)"
  by (simp add: client_ok_def)

lemma client_ok_session [client_intros]:
  "client_ok cr lib good c \<Longrightarrow> cc_session c \<noteq> None \<Longrightarrow> client_ok cr lib good (c\<lparr>cc_session := Some s\<rparr>)"
  by (auto simp: client_ok_defs split: client_state.splits)

lemma client_ok_rx [client_intros]:
  "client_ok cr lib good c \<Longrightarrow> (client_ok cr lib good c \<Longrightarrow> case x of None \<Rightarrow> True | Some rx \<Rightarrow> rx_inv rx) \<Longrightarrow>
   client_ok cr lib good (c\<lparr>cc_avatar_rx := x\<rparr>)"
  by (simp add: client_ok_def)

lemma client_ok_decoder [client_intros]:
  "client_ok cr lib good c \<Longrightarrow> de_pcm_len d = de_pcm_len (cc_decoder c) \<Longrightarrow> client_ok cr lib good (c\<lparr>cc_decoder := d\<rparr>)"
  by (simp add: client_ok_def frame_sizes_ok_def)

lemma client_ok_encoder [client_intros]:
  "client_ok cr lib good c \<Longrightarrow> cc_encoder c = Some e \<Longrightarrow> en_pcm_len e' = en_pcm_len e \<Longrightarrow>
   client_ok cr lib good (c\<lparr>cc_encoder := Some e'\<rparr>)"
  by (simp add: client_ok_def frame_sizes_ok_def)

lemma client_ok_event [simp]: "client_ok cr lib good (client_event_push e c) = client_ok cr lib good c"
  by (simp add: client_event_push_def)

lemma client_ok_send [client_intros]: "client_ok cr lib good c \<Longrightarrow> client_ok cr lib good (client_send msg c)"
  by (simp add: client_send_def client_ok_link link_send_inv)

lemma client_ok_end [client_intros]:
  "client_ok cr lib good c \<Longrightarrow> st = TimedOut \<or> (\<exists>r. st = Ejected r) \<Longrightarrow> client_ok cr lib good (c\<lparr>cc_state := st\<rparr>)"
  by (auto simp: client_ok_defs)

lemma client_ok_capture_comp [client_intros]:
  "client_ok cr lib good c \<Longrightarrow> pacers_ok lib good (channel_count (cc_uplink c)) x \<Longrightarrow>
   client_ok cr lib good (c\<lparr>cc_capture_comp := x\<rparr>)"
  by (simp add: client_ok_def)

lemma client_ok_playout_comp [client_intros]:
  "client_ok cr lib good c \<Longrightarrow> pacers_ok lib good 2 x \<Longrightarrow>
   client_ok cr lib good (c\<lparr>cc_playout_comp := x\<rparr>)"
  by (simp add: client_ok_def)

section \<open>Avatars\<close>

lemma cache_insert_entries:
  assumes "cache_inv c" "cache_get (cache_insert c h bs pinned) k = Some x"
  shows "cache_get c k = Some x \<or> k = h \<and> x = bs"
proof -
  obtain e where e: "bm_get (ac_entries (cache_insert c h bs pinned)) k = Some e" "ce_bytes e = x"
    using assms(2) by (auto simp: cache_get_def)
  then have "bm_get (ac_entries (cache_put c h bs)) k = Some e"
    using cache_evict_ok [OF cache_put_inv [OF assms(1)], of h pinned]
    unfolding cache_insert_def evict_ok_def by blast
  then show ?thesis using e(2)
    by (auto simp: cache_put_def cache_touch_def cache_get_def Let_def bm_get_update split: if_splits)
qed

lemma cache_get_touch [simp]: "cache_get (cache_touch c h) k = cache_get c k"
  by (auto simp: cache_get_def cache_touch_def Let_def bm_get_update option.map_comp comp_def)

lemma own_ok_touch [simp]: "own_ok (cache_touch c h) own = own_ok c own"
  by (cases own) (simp_all add: own_ok_def split: prod.split)

lemma verified_touch: "verified_cache cr c \<Longrightarrow> verified_cache cr (cache_touch c h)"
  by (simp add: verified_cache_def cache_touch_inv)

lemma verified_insert:
  "verified_cache cr c \<Longrightarrow> avatar_hash cr bs = h \<Longrightarrow> bs \<noteq> [] \<Longrightarrow> length bs \<le> MAX_AVATAR_BYTES \<Longrightarrow>
   verified_cache cr (cache_insert c h bs pins)"
  by (auto simp: verified_cache_def cache_insert_inv dest: cache_insert_entries)

lemma own_insert:
  assumes "cache_inv c" "own_ok c own" "case own of None \<Rightarrow> True | Some (k, _) \<Rightarrow> k \<in> set pins"
  shows "own_ok (cache_insert c h bs pins) own"
proof (cases own)
  case None
  then show ?thesis by (simp add: own_ok_def)
next
  case (Some p)
  obtain k len where p: "p = (k, len)" by (cases p)
  then have "k \<in> set pins" using assms(3) Some by simp
  then show ?thesis
    using assms(2) Some p cache_insert_gets [OF assms(1), of k h pins bs]
    by (auto simp: own_ok_def split: option.splits)
qed

lemma own_pinned: "case cc_own_avatar c of None \<Rightarrow> True | Some (k, _) \<Rightarrow> k \<in> set (avatar_pins c)"
  by (auto simp: avatar_pins_def split: option.splits)

lemma client_ok_insert:
  assumes "client_ok cr lib good c" "avatar_hash cr bs = h" "bs \<noteq> []" "length bs \<le> MAX_AVATAR_BYTES"
  shows "client_ok cr lib good (c\<lparr>cc_avatar_cache := cache_insert (cc_avatar_cache c) h bs (avatar_pins c)\<rparr>)"
  using assms own_pinned [of c] own_insert [of "cc_avatar_cache c" "cc_own_avatar c" "avatar_pins c" h bs]
  by (simp add: client_ok_def verified_insert) (simp add: verified_cache_def)

lemma client_ok_announce [client_intros]: "client_ok cr lib good c \<Longrightarrow> client_ok cr lib good (announce m h c)"
  by (simp add: announce_def)

lemma client_ok_sync_member [client_intros]:
  "client_ok cr lib good c \<Longrightarrow> client_ok cr lib good (sync_member c mi)"
proof -
  assume ok: "client_ok cr lib good c"
  then have "client_ok cr lib good (c\<lparr>cc_avatar_cache := cache_touch (cc_avatar_cache c) h\<rparr>)" for h
    by (simp add: client_ok_def verified_touch)
  then show ?thesis using ok
    by (auto simp: sync_member_def intro!: client_intros split: option.split)
qed

lemma client_ok_foldl:
  "(\<And>c x. client_ok cr lib good c \<Longrightarrow> client_ok cr lib good (f c x)) \<Longrightarrow> client_ok cr lib good c \<Longrightarrow>
   client_ok cr lib good (foldl f c xs)"
  by (induction xs arbitrary: c) auto

lemma client_ok_sync [client_intros]: "client_ok cr lib good c \<Longrightarrow> client_ok cr lib good (sync_avatars r c)"
  unfolding sync_avatars_def by (intro client_ok_foldl client_ok_sync_member) simp_all

lemma client_ok_accept:
  assumes "client_ok cr lib good c" "avatar_hash cr bs = h" "bs \<noteq> []" "length bs \<le> MAX_AVATAR_BYTES"
  shows "client_ok cr lib good (accept_avatar h bs c)"
  unfolding accept_avatar_def Let_def
  by (intro client_ok_foldl client_ok_announce client_ok_insert assms(2-4))
    (use assms(1) in \<open>simp_all add: client_ok_rx\<close>)

lemma client_ok_chunk [client_intros]:
  assumes "client_ok (e_crypto env) lib good c0"
  shows "client_ok (e_crypto env) lib good (handle_avatar_chunk env hash index tot data c0)"
proof -
  define c where "c = (if index = 0 \<and> hash \<in> cc_avatar_requested c0
      then c0\<lparr>cc_avatar_rx := Some (rx_new hash None)\<rparr> else c0)"
  have ok: "client_ok (e_crypto env) lib good c"
    using assms by (simp add: c_def client_ok_rx rx_new_inv)
  show ?thesis
  proof (cases "cc_avatar_rx c")
    case None
    then show ?thesis using ok by (simp add: handle_avatar_chunk_def c_def [symmetric])
  next
    case (Some rx)
    obtain r rx' where p: "rx_push (e_crypto env) rx index tot data = (r, rx')" by fastforce
    have inv: "rx_inv rx" using ok Some by (simp add: client_ok_def)
    have "client_ok (e_crypto env) lib good (accept_avatar hash bs c)"
      if "r = Ok (Done bs)" "ax_hash rx = hash" for bs
      using rx_push_inv(5) [OF inv p that(1)] that(2) by (intro client_ok_accept ok) blast+
    then show ?thesis
      using ok Some p rx_push_inv(4) [OF inv p]
      by (auto simp: handle_avatar_chunk_def c_def [symmetric] Let_def intro!: client_ok_rx
          split: sum.split rx_step.split)
  qed
qed

section \<open>Control and datagrams\<close>

lemma client_ok_control [client_intros]:
  "client_ok (e_crypto env) lib good c \<Longrightarrow> client_ok (e_crypto env) lib good (client_control env now c msg)"
  by (cases msg)
    (auto simp: client_on_stats_def client_on_avatar_request_def Let_def intro!: client_intros)

lemma seal_keeps_session: "client_ok cr lib good c \<Longrightarrow> cc_session c = Some s \<Longrightarrow>
   client_ok cr lib good (c\<lparr>cc_session := Some s'\<rparr>)"
  by (rule client_ok_session) simp_all

lemma client_ok_flush:
  assumes "flush_link env now c = (out, c')" "client_ok cr lib good c"
  shows "client_ok cr lib good c'"
proof -
  obtain dgs l where p: "link_poll (e_pc_enc env) (cc_link c) now = (dgs, l)" by fastforce
  have "link_inv (cc_link c) \<Longrightarrow> link_inv l"
    using link_poll_inv [of "cc_link c" "e_pc_enc env" now] by (simp add: p)
  then have "client_ok cr lib good (c\<lparr>cc_link := l\<rparr>)" by (rule client_ok_link [OF assms(2)])
  then show ?thesis
    using assms p by (auto simp: flush_link_def Let_def intro!: seal_keeps_session split: option.splits prod.splits)
qed

lemma client_ok_plain:
  assumes "on_plain env now plain c = (out, c')" "client_ok (e_crypto env) lib good c"
  shows "client_ok (e_crypto env) lib good c'"
proof -
  have media: "client_ok (e_crypto env) lib good (c\<lparr>cc_jitter := jitter_push (cc_jitter c)
      \<lparr>mp_seq = unat (mf_seq f), mp_timestamp = t, mp_payload = p, mp_redundant = d\<rparr>\<rparr>)" for f t p d
    by (rule client_ok_jitter [OF assms(2)]) (auto intro!: jitter_push_inv unat_less [where 'a = 32, simplified])
  obtain r l where r: "link_receive (e_pc_dec env) (cc_link c) plain = (r, l)" by fastforce
  have l: "client_ok (e_crypto env) lib good (c\<lparr>cc_link := l\<rparr>)"
    using link_receive_inv [of "cc_link c" "e_pc_dec env" plain] r by (intro client_ok_link [OF assms(2)]) simp
  have "client_ok (e_crypto env) lib good (foldl (client_control env now) (c\<lparr>cc_link := l\<rparr>) msgs)" for msgs
    by (rule client_ok_foldl [OF client_ok_control l])
  then show ?thesis
    using assms media l r
    by (auto simp: on_plain_def Let_def elim: client_ok_flush split: sum.splits if_splits prod.splits)
qed

lemma client_ok_transport:
  assumes "on_transport env now counter x c = (out, c')" "client_ok (e_crypto env) lib good c"
  shows "client_ok (e_crypto env) lib good c'"
proof (cases "cc_session c")
  case None
  then show ?thesis using assms by (simp add: on_transport_def)
next
  case (Some ses)
  obtain r ses1 where o: "session_open (e_crypto env) ses counter x = (r, ses1)" by fastforce
  have "client_ok (e_crypto env) lib good (c\<lparr>cc_session := Some ses1\<rparr>)"
    using assms(2) Some by (simp add: client_ok_session)
  then show ?thesis
    using assms(1) Some o by (auto simp: on_transport_def Let_def elim!: client_ok_plain split: sum.splits)
qed

lemma client_ok_enter:
  assumes "client_ok cr lib good c"
  shows "client_ok cr lib good (enter_session now ses w c)"
proof -
  define c1 where "c1 = client_event_push EvJoined (c\<lparr>cc_initiator := None, cc_session := Some ses,
    cc_welcome := Some w, cc_state := Joined, cc_session_full := False, cc_last_server_ms := now,
    cc_last_ping_ms := now\<rparr>)"
  define c2 where "c2 = (case cc_own_avatar c1 of None \<Rightarrow> c1 | Some (hash, len) \<Rightarrow> client_send (SetAvatar hash len) c1)"
  have "client_ok cr lib good c1" unfolding c1_def client_ok_event using assms by (simp add: client_ok_defs)
  then have c2: "client_ok cr lib good c2"
    by (auto simp: c2_def intro: client_ok_send split: option.split)
  have "enter_session now ses w c = (case cc_own_name c2 of None \<Rightarrow> c2 | Some name \<Rightarrow> client_send (SetName name) c2)"
    unfolding enter_session_def Let_def c1_def [symmetric] c2_def [symmetric] by (rule refl)
  then show ?thesis using c2 by (auto intro: client_ok_send split: option.split)
qed

lemma client_ok_resp [client_intros]:
  "client_ok (e_crypto env) lib good c \<Longrightarrow> client_ok (e_crypto env) lib good (on_handshake_resp env now noise c)"
  by (auto simp: on_handshake_resp_def intro: client_ok_enter split: option.split sum.split)

lemma client_ok_datagram:
  assumes "client_datagram env now data c = (out, c')" "client_ok (e_crypto env) lib good c"
  shows "client_ok (e_crypto env) lib good c'"
proof -
  have v: "client_ok (e_crypto env) lib good (on_version_reject env now a b mac c)" for a b mac
  proof -
    have "client_ok (e_crypto env) lib good (c\<lparr>cc_state := Rejected a b, cc_last_init_ms := x, cc_init_resend_ms := y\<rparr>)"
      if "cc_state c = Connecting" for a b x y
      using assms(2) that by (auto simp: client_ok_defs)
    then show ?thesis using assms(2) by (auto simp: on_version_reject_def)
  qed
  have k: "client_ok (e_crypto env) lib good (on_capacity_reject env now mac c)" for mac
    using assms(2) by (auto simp: on_capacity_reject_def)
  have q: "client_ok (e_crypto env) lib good c''"
    if "on_cookie_challenge env now n x c = (out1, c'')" for n x out1 c''
    using that assms(2) by (auto simp: on_cookie_challenge_def Let_def
        split: if_splits option.splits sum.splits packet.splits prod.splits)
  show ?thesis
    using assms v k by (auto simp: client_datagram_def intro: client_ok_resp
        elim: client_ok_transport q split: sum.splits packet.splits)
qed

section \<open>The poll\<close>

lemma client_feed_inv: "client_feed cache fed link txs = (l, rest) \<Longrightarrow> link_inv link \<Longrightarrow> link_inv l"
proof (induction cache fed link txs rule: client_feed.induct)
  case (1 cache fed link txs)
  show ?case
    using "1.prems" "1.IH" link_send_inv
    by (subst (asm) client_feed.simps) (auto split: if_splits list.splits prod.splits option.splits)
qed

lemma client_ok_poll_joined:
  assumes "poll_joined env now c = (out, c')" "client_ok cr lib good c"
  shows "client_ok cr lib good c'"
proof (cases "CONNECTION_TIMEOUT_MS \<le> now - cc_last_server_ms c \<or> link_is_dead (cc_link c)")
  case True
  then show ?thesis using assms by (auto simp: poll_joined_def intro: client_ok_end)
next
  case False
  define c1 where "c1 = (if PING_INTERVAL_MS \<le> now - cc_last_ping_ms c
      then client_send (Ping (cc_ping_nonce c + 1) (of_nat now))
             (c\<lparr>cc_last_ping_ms := now, cc_ping_nonce := cc_ping_nonce c + 1\<rparr>) else c)"
  obtain l txs where f: "client_feed (cc_avatar_cache c1) 0 (cc_link c1) (cc_avatar_tx c1) = (l, txs)" by fastforce
  have "client_ok cr lib good c1" using assms(2) by (auto simp: c1_def intro: client_ok_send)
  then have "client_ok cr lib good (c1\<lparr>cc_link := l\<rparr>)"
    using client_feed_inv [OF f] by (intro client_ok_link)
  then have "client_ok cr lib good (c1\<lparr>cc_link := l, cc_avatar_tx := txs\<rparr>)" by simp
  moreover have "flush_link env now (c1\<lparr>cc_link := l, cc_avatar_tx := txs\<rparr>) = (out, c')"
    using assms(1) False f by (simp add: poll_joined_def Let_def c1_def [symmetric])
  ultimately show ?thesis by (rule client_ok_flush [rotated])
qed

lemma client_ok_poll:
  assumes "client_poll env now c = (out, c')" "client_ok cr lib good c"
  shows "client_ok cr lib good c'"
  using assms
  by (auto simp: client_poll_def poll_connecting_def poll_rejected_def Let_def intro: client_ok_end
      elim: client_ok_poll_joined split: client_state.splits if_splits)

section \<open>Calls\<close>

lemma client_ok_try_send:
  "client_try_send msg c = (r, c') \<Longrightarrow> client_ok cr lib good c \<Longrightarrow> client_ok cr lib good c'"
  using link_send_inv [of "cc_link c" msg]
  by (auto simp: client_try_send_def Let_def intro: client_ok_link split: prod.splits)

lemma client_ok_when_joined:
  "when_joined msg c = (r, c') \<Longrightarrow> client_ok cr lib good c \<Longrightarrow> client_ok cr lib good c'"
  by (auto simp: when_joined_def elim: client_ok_try_send split: sum.splits)

lemma client_ok_set_name: "set_name n c = (r, c') \<Longrightarrow> client_ok cr lib good c \<Longrightarrow> client_ok cr lib good c'"
  by (auto simp: set_name_def Let_def elim: client_ok_try_send split: if_splits)

lemma client_ok_set_avatar:
  assumes "set_avatar env bs c = (r, c')" "client_ok (e_crypto env) lib good c"
  shows "client_ok (e_crypto env) lib good c'"
proof (cases "bs = [] \<or> MAX_AVATAR_BYTES < length bs")
  case True
  then show ?thesis using assms by (simp add: set_avatar_def)
next
  case False
  define h where "h = avatar_hash (e_crypto env) bs"
  let ?cache = "cache_insert (cc_avatar_cache c) h bs (avatar_pins c @ [h])"
  have v: "verified_cache (e_crypto env) (cc_avatar_cache c)" using assms(2) by (simp add: client_ok_def)
  have v': "verified_cache (e_crypto env) ?cache" using False by (intro verified_insert v) (auto simp: h_def)
  have "own_ok ?cache (Some (h, len))" for len
    using cache_insert_gets [of "cc_avatar_cache c" h h "avatar_pins c @ [h]" bs] v
    by (simp add: verified_cache_def own_ok_def)
  then have "client_ok (e_crypto env) lib good (c\<lparr>cc_avatar_cache := ?cache, cc_own_avatar := Some (h, len),
      cc_avatar_tx := txs\<rparr>)" for len txs
    using assms(2) v' by (simp add: client_ok_def)
  then show ?thesis
    using assms False by (auto simp: set_avatar_def Let_def h_def [symmetric] elim: client_ok_try_send
        split: if_splits sum.splits prod.splits)
qed

lemma client_ok_fader:
  "set_fader t g p m c = (r, c') \<Longrightarrow> client_ok cr lib good c \<Longrightarrow> client_ok cr lib good c'"
  "set_broadcast_fader t g p m c = (r, c') \<Longrightarrow> client_ok cr lib good c \<Longrightarrow> client_ok cr lib good c'"
  "set_metronome b n e c = (r2, c') \<Longrightarrow> client_ok cr lib good c \<Longrightarrow> client_ok cr lib good c'"
  by (auto simp: set_fader_def set_broadcast_fader_def set_metronome_def elim: client_ok_try_send
      split: sum.splits if_splits)

lemma encoder_new_len:
  "encoder_new lib ch dur rate = Ok e \<Longrightarrow> en_pcm_len e = duration_samples dur * channel_count ch"
  by (auto simp: encoder_new_def Let_def split: option.splits if_splits)

lemma decoder_new_len:
  "decoder_new lib ch dur = Ok d \<Longrightarrow> de_pcm_len d = duration_samples dur * channel_count ch"
  by (auto simp: decoder_new_def split: option.splits)

lemma client_ok_uplink:
  assumes "set_uplink_channels env ch c = (r, c')" "client_ok cr lib good c"
  shows "client_ok cr lib good c'"
  using assms
  by (auto simp: set_uplink_channels_def Let_def client_ok_def frame_sizes_ok_def pacers_ok_def
      split: if_splits sum.splits dest!: encoder_new_len)

lemma media_state_ok:
  "media_state lib role up = Ok (e, d, n) \<Longrightarrow> frame_sizes_ok role up e d n"
  by (auto simp: media_state_def frame_sizes_ok_def channel_count_def split: role.splits sum.splits
      dest!: encoder_new_len decoder_new_len)

lemma cache_new_verified: "verified_cache cr (cache_new n)"
  by (simp add: verified_cache_def cache_new_def cache_inv_def cache_get_def entry_bytes_def)

lemma connect_ok: "connect env priv i now = Ok (c, pkt) \<Longrightarrow> client_ok cr lib good c"
  by (auto simp: connect_def client_ok_defs own_ok_def pacers_ok_def cache_new_verified jitter_new_inv
      link_new_inv media_state_ok split: sum.splits)

lemma client_ok_reconnect:
  "reconnect env priv now c = (r, c') \<Longrightarrow> client_ok cr lib good c \<Longrightarrow> client_ok cr lib good c'"
  by (auto simp: reconnect_def client_ok_defs pacers_ok_def jitter_new_inv link_new_inv media_state_ok
      split: sum.splits)

end
