(* ===== verification/ClientTotal.thy ===== *)
theory ClientTotal
  imports ClientInv
begin

text \<open>
  The client core as a machine: everything the application, the devices and the network can do to it
  is one input, and under the promises of the libraries every input returns, keeps the invariant,
  and fills exactly the buffers it was given.
\<close>

section \<open>Playout returns\<close>

lemma decode_next_props:
  assumes "decode_next env n c = (r, c')" "client_ok cr lib good c"
  shows "client_ok cr lib good c'" "cc_decode_len c' = cc_decode_len c" "cc_fifo c' = cc_fifo c"
    and "cc_playout_stage c' = cc_playout_stage c" "cc_invite c' = cc_invite c"
    and "case r of None \<Rightarrow> True | Some pcm \<Rightarrow> length pcm = n"
proof -
  obtain p j where j: "jitter_pull (cc_jitter c) = (p, j)" by fastforce
  have c1: "client_ok cr lib good (c\<lparr>cc_jitter := j\<rparr>)"
    by (rule client_ok_jitter [OF assms(2)]) (rule jitter_pull_inv [OF _ j])
  have dec: "de_pcm_len d = de_pcm_len (cc_decoder c) \<and> (case res of Inl _ \<Rightarrow> True | Inr pcm \<Rightarrow> length pcm = n)"
    if "decoder_decode (e_opus env) (cc_decoder c) q n False = (res, d)" for q res d
    using that by (auto simp: decoder_decode_def Let_def split: if_splits option.splits prod.splits)
  have len: "length pcm = n" if "decoder_decode (e_opus env) (cc_decoder c) q n False = (Ok pcm, d)" for q pcm d
    using dec [OF that] by simp
  have c2: "client_ok cr lib good (c\<lparr>cc_jitter := j, cc_decoder := d\<rparr>)"
    if "decoder_decode (e_opus env) (cc_decoder c) q n False = (res, d)" for q res d
    using client_ok_decoder [OF c1, of d] dec [OF that] by simp
  show "client_ok cr lib good c'" "cc_decode_len c' = cc_decode_len c" "cc_fifo c' = cc_fifo c"
    "cc_playout_stage c' = cc_playout_stage c" "cc_invite c' = cc_invite c"
    "case r of None \<Rightarrow> True | Some pcm \<Rightarrow> length pcm = n"
    using assms(1) j c1
    by (auto simp: decode_next_def Let_def dest: len c2 split: pull.splits prod.splits sum.splits)
qed

lemma fill_fifo_total:
  assumes "client_ok cr lib good c"
  shows "\<exists>c'. fill_fifo env want c = Some c' \<and> client_ok cr lib good c' \<and>
    cc_playout_stage c' = cc_playout_stage c \<and> cc_invite c' = cc_invite c"
  using assms
proof (induction "want - length (cc_fifo c)" arbitrary: c rule: less_induct)
  case less
  show ?case
  proof (cases "want \<le> length (cc_fifo c)")
    case True
    then show ?thesis using less.prems by (subst fill_fifo.simps) simp
  next
    case False
    obtain r c1 where d: "decode_next env (cc_decode_len c) c = (r, c1)" by fastforce
    note c1 = decode_next_props [OF d less.prems]
    have "0 < cc_decode_len c"
      using less.prems by (auto simp: client_ok_def frame_sizes_ok_def split: role.splits)
    then have "\<exists>c'. fill_fifo env want (c1\<lparr>cc_fifo := cc_fifo c1 @ pcm\<rparr>) = Some c' \<and> client_ok cr lib good c' \<and>
        cc_playout_stage c' = cc_playout_stage c \<and> cc_invite c' = cc_invite c" if "r = Some pcm" for pcm
      using less.hyps [of "c1\<lparr>cc_fifo := cc_fifo c1 @ pcm\<rparr>"] c1 that False by simp
    then show ?thesis using d False c1 by (subst fill_fifo.simps) (auto split: option.split)
  qed
qed

lemma pull_playout_total:
  assumes "client_ok cr lib good c"
  shows "\<exists>out c'. pull_playout env n c = Some (out, c') \<and> length out = n \<and> client_ok cr lib good c' \<and>
    cc_playout_stage c' = cc_playout_stage c"
proof (cases "tk_role (iv_token (cc_invite c))")
  case Musician
  obtain r c1 where d: "decode_next env n c = (r, c1)" by fastforce
  then show ?thesis
    using decode_next_props [OF d assms] Musician by (auto simp: pull_playout_def split: option.splits)
next
  case Listener
  obtain c' where "fill_fifo env n c = Some c'" "client_ok cr lib good c'"
    "cc_playout_stage c' = cc_playout_stage c"
    using fill_fifo_total [OF assms] by blast
  then show ?thesis using Listener by (simp add: pull_playout_def min_def)
qed

text \<open>Each pull that yields nothing is followed by a decoded frame, and two frames are enough for a chunk.\<close>

lemma playout_frame_total:
  assumes "client_ok cr lib good c" "pacer_ok lib good 2 d"
  shows "\<exists>frame d' c'. playout_frame env lib d c = Some (frame, d', c') \<and> length frame = MIX_LEN \<and>
    client_ok cr lib good c' \<and> pacer_ok lib good 2 d' \<and> cc_playout_stage c' = cc_playout_stage c"
  using assms
proof (induction "2 * MIX_LEN - length (dc_buf d)" arbitrary: c d rule: less_induct)
  case less
  have dok: "drift_ok lib (good 2) d" "dc_channels d = 2" "dc_chunk_out d = TICK_SAMPLES"
    using less.prems(2) by (simp_all add: pacer_ok_def)
  obtain r d1 where p: "drift_pull lib d = (r, d1)" by fastforce
  note d1 = drift_pull_ok [OF dok(1) p]
  show ?case
  proof (cases r)
    case (Some frame)
    then show ?thesis
      using p d1 dok less.prems(1) by (subst playout_frame.simps) (auto simp: pacer_ok_def)
  next
    case None
    obtain out c1 where c1: "pull_playout env MIX_LEN c = Some (out, c1)" "length out = MIX_LEN"
      "client_ok cr lib good c1" "cc_playout_stage c1 = cc_playout_stage c"
      using pull_playout_total [OF less.prems(1), of env MIX_LEN] by blast
    let ?d2 = "drift_push d1 out"
    have short: "length (dc_buf d) < 2 * MIX_LEN" "dc_buf d1 = dc_buf d" using d1(4) None dok by simp_all
    have cap: "dc_cap d1 = BUFFER_CHUNKS * MIX_LEN" using d1(1-3) dok by (simp add: drift_ok_def)
    have "length (dc_buf ?d2) = length (dc_buf d) + MIX_LEN"
      using short cap c1(2) by (simp add: drift_push_def Let_def)
    moreover have "pacer_ok lib good 2 ?d2" using d1 dok by (simp add: pacer_ok_def drift_push_ok)
    ultimately show ?thesis
      using less.hyps [of ?d2 c1] c1 short None p by (subst playout_frame.simps) simp
  qed
qed

lemma playout_fill_total:
  assumes "client_ok cr lib good c" "pacer_ok lib good 2 d" "length out \<le> n"
  shows "\<exists>out' d' c'. playout_fill env lib n out d c = Some (out', d', c') \<and> length out' = n \<and>
    client_ok cr lib good c' \<and> pacer_ok lib good 2 d'"
  using assms
proof (induction "2 * (n - length out) + (if cc_playout_stage c = [] then 1 else 0)"
    arbitrary: out c d rule: less_induct)
  case less
  consider "n \<le> length out" | s stage where "length out < n" "cc_playout_stage c = s # stage"
    | "length out < n" "cc_playout_stage c = []"
    by (cases "cc_playout_stage c") force+
  then show ?case
  proof cases
    case 1
    then show ?thesis using less.prems by (subst playout_fill.simps) simp
  next
    case 2
    have "2 * (n - length (out @ [s])) + (if stage = [] then 1 else 0) < 2 * (n - length out)"
      using 2(1) by (simp add: Suc_diff_Suc [symmetric])
    then show ?thesis
      using 2 less.hyps [of "out @ [s]" "c\<lparr>cc_playout_stage := stage\<rparr>" d] less.prems
      by (subst playout_fill.simps) simp
  next
    case 3
    obtain frame d1 c1 where f: "playout_frame env lib d c = Some (frame, d1, c1)" "length frame = MIX_LEN"
      "client_ok cr lib good c1" "pacer_ok lib good 2 d1" "cc_playout_stage c1 = []"
      using playout_frame_total [OF less.prems(1,2), of env] 3 by auto
    then have "frame \<noteq> []" by auto
    then show ?thesis
      using f less.hyps [of out "c1\<lparr>cc_playout_stage := frame\<rparr>" d1] less.prems 3
      by (subst playout_fill.simps) auto
  qed
qed

lemma comp_or_new_ok:
  assumes "slip_lawful lib good" "pacers_ok lib good ch x" "ch = 1 \<or> ch = 2"
  shows "\<exists>d. comp_or_new lib ch x = Some d \<and> pacer_ok lib good ch d"
proof (cases x)
  case None
  obtain sl where "slip_new lib TICK_SAMPLES ch = Some sl" and g: "slip_good lib (good ch) TICK_SAMPLES ch"
    using assms(1,3) by (fastforce simp: slip_lawful_def)
  then obtain d where d: "drift_new lib TICK_SAMPLES ch = Some d" "dc_channels d = ch" "dc_chunk_out d = TICK_SAMPLES"
    using assms(3) by (auto simp: drift_new_def)
  then show ?thesis using None drift_new_ok [OF g d(1)] by (simp add: comp_or_new_def pacer_ok_def)
next
  case (Some d)
  then show ?thesis using assms(2) by (simp add: comp_or_new_def pacers_ok_def)
qed

lemma pacer_steer [simp]: "pacer_ok lib good ch (drift_steer d x) = pacer_ok lib good ch d"
  by (simp add: pacer_ok_def)

lemma pacer_push: "pacer_ok lib good ch d \<Longrightarrow> pacer_ok lib good ch (drift_push d xs)"
  by (simp add: pacer_ok_def drift_push_ok)

lemma playout_raw_total:
  assumes "client_ok cr lib good c" "slip_lawful lib good"
  shows "\<exists>out c'. pull_playout_raw env lib n c = Some (out, c') \<and> length out = n \<and> client_ok cr lib good c'"
proof -
  have "pacers_ok lib good 2 (cc_playout_comp c)" using assms(1) by (simp add: client_ok_def)
  then obtain d where d: "comp_or_new lib 2 (cc_playout_comp c) = Some d" "pacer_ok lib good 2 d"
    using comp_or_new_ok [OF assms(2)] by blast
  have c0: "client_ok cr lib good (c\<lparr>cc_playout_comp := None\<rparr>)"
    using assms(1) by (intro client_ok_playout_comp) (simp_all add: pacers_ok_def)
  let ?d = "drift_steer d (Some (dp_steer_ppm (cc_playout_steer c)))"
  obtain out d1 c1 where f: "playout_fill env lib n [] ?d (c\<lparr>cc_playout_comp := None\<rparr>) = Some (out, d1, c1)"
    "length out = n" "client_ok cr lib good c1" "pacer_ok lib good 2 d1"
    using playout_fill_total [OF c0, of ?d "[]" n env] d by auto
  have "client_ok cr lib good (c1\<lparr>cc_playout_frames_since_steer := k, cc_playout_comp := Some d1\<rparr>)"
    "client_ok cr lib good (c1\<lparr>cc_playout_frames_since_steer := k, cc_playout_steer := st, cc_playout_comp := Some d1\<rparr>)"
    for k st
    using f(3,4) by (simp_all add: client_ok_def pacers_ok_def)
  then show ?thesis using d f by (simp add: pull_playout_raw_def Let_def)
qed

section \<open>Capture returns\<close>

lemma push_capture_total:
  assumes "client_ok cr lib good c" "opus_bounded (e_opus env)"
  shows "\<exists>out c'. push_capture env pcm c = Some (out, c') \<and> client_ok cr lib good c' \<and> cc_uplink c' = cc_uplink c"
proof (cases "cc_state c = Joined \<and> cc_encoder c \<noteq> None \<and> cc_welcome c \<noteq> None")
  case False
  then show ?thesis using assms by (auto simp: push_capture_def split: option.splits)
next
  case True
  then obtain enc w where ew: "cc_encoder c = Some enc" "cc_welcome c = Some w" by blast
  obtain r enc1 where e: "encoder_encode (e_opus env) enc pcm = (r, enc1)" by fastforce
  let ?c1 = "c\<lparr>cc_encoder := Some enc1\<rparr>"
  have c1: "client_ok cr lib good ?c1"
    using e by (intro client_ok_encoder [OF assms(1) ew(1)])
      (auto simp: encoder_encode_def Let_def split: if_splits prod.splits option.splits)
  show ?thesis
  proof (cases r)
    case (Inl x)
    then show ?thesis using True ew e c1 by (simp add: push_capture_def)
  next
    case (Inr payload)
    then have "length payload \<le> 1500"
      using e assms(2) by (auto simp: encoder_encode_def Let_def opus_bounded_def split: if_splits prod.splits option.splits)
    then obtain b where b: "media_encode (capture_packet ?c1 w payload) = Some b"
      by (fastforce simp: media_encode_def capture_packet_def Let_def split: option.split)
    obtain ses where ses: "cc_session c = Some ses"
      using assms(1) True by (auto simp: client_ok_defs)
    obtain p ses1 where p: "session_seal (e_crypto env) ses (wl_member_id w) b = (p, ses1)" by fastforce
    have "client_ok cr lib good (?c1\<lparr>cc_session := Some ses1, cc_frames_sent := n, cc_prev_payload := q\<rparr>)" for n q
      using client_ok_session [OF c1, of ses1] ses by simp
    then show ?thesis
      using True ew e Inr b ses p by (simp add: push_capture_def seal_capture_def)
  qed
qed

text \<open>Every pull that yields a frame shortens the backlog, so the capture loop ends.\<close>

lemma capture_frames_total:
  assumes "client_ok cr lib good c" "opus_bounded (e_opus env)" "pacer_ok lib good ch d"
  shows "\<exists>out d' c'. capture_frames env lib d c = Some (out, d', c') \<and> client_ok cr lib good c' \<and>
    pacer_ok lib good ch d' \<and> cc_uplink c' = cc_uplink c"
  using assms(1,3)
proof (induction "length (dc_buf d)" arbitrary: c d rule: less_induct)
  case less
  obtain r d1 where p: "drift_pull lib d = (r, d1)" by fastforce
  have "drift_ok lib (good ch) d" using less.prems(2) by (simp add: pacer_ok_def)
  note d1 = drift_pull_ok [OF this p]
  have pok: "pacer_ok lib good ch d1" using d1 less.prems(2) by (simp add: pacer_ok_def)
  show ?case
  proof (cases r)
    case None
    then show ?thesis using p pok less.prems(1) by (subst capture_frames.simps) simp
  next
    case (Some frame)
    obtain out c1 where c1: "push_capture env frame c = Some (out, c1)" "client_ok cr lib good c1"
      "cc_uplink c1 = cc_uplink c"
      using push_capture_total [OF less.prems(1) assms(2)] by blast
    then obtain rest d2 c2 where "capture_frames env lib d1 c1 = Some (rest, d2, c2)"
      "client_ok cr lib good c2" "pacer_ok lib good ch d2" "cc_uplink c2 = cc_uplink c"
      using less.hyps [OF _ c1(2) pok] d1(4) Some by auto
    then show ?thesis using p c1 Some by (subst capture_frames.simps) simp
  qed
qed

lemma capture_raw_total:
  assumes "client_ok cr lib good c" "slip_lawful lib good" "opus_bounded (e_opus env)"
  shows "\<exists>out c'. push_capture_raw env lib samples c = Some (out, c') \<and> client_ok cr lib good c'"
proof -
  let ?ch = "channel_count (cc_uplink c)"
  have "?ch = 1 \<or> ?ch = 2" by (simp add: channel_count_def split: channels.split)
  then obtain d where d: "comp_or_new lib ?ch (cc_capture_comp c) = Some d" "pacer_ok lib good ?ch d"
    using comp_or_new_ok [OF assms(2)] assms(1) by (auto simp: client_ok_def)
  have c0: "client_ok cr lib good (c\<lparr>cc_capture_comp := None\<rparr>)"
    using assms(1) by (intro client_ok_capture_comp) (simp_all add: pacers_ok_def)
  let ?d = "drift_push (drift_steer d (Some (dp_steer_ppm (cc_capture_steer c)))) samples"
  have "pacer_ok lib good ?ch ?d" using d(2) by (simp add: pacer_push)
  then obtain out d1 c1 where f: "capture_frames env lib ?d (c\<lparr>cc_capture_comp := None\<rparr>) = Some (out, d1, c1)"
    "client_ok cr lib good c1" "pacer_ok lib good ?ch d1" "cc_uplink c1 = cc_uplink c"
    using capture_frames_total [OF c0 assms(3), of ?ch ?d] by auto
  then have "client_ok cr lib good (c1\<lparr>cc_capture_comp := Some d1\<rparr>)"
    by (intro client_ok_capture_comp) (simp_all add: pacers_ok_def)
  then show ?thesis using d f by (simp add: push_capture_raw_def)
qed

end
