(* ===== verification/ClientMachine.thy ===== *)
theory ClientMachine
  imports ClientTotal
begin

text \<open>
  The client core as a machine (\<open>crates/session/src/client.rs\<close>): every call the application, the
  devices and the network can make is one input, whose outcome is the packets to send and the samples
  to play, or \<open>None\<close> when the call panics or never returns.
\<close>

datatype client_input =
    InDatagram nat bytes
  | InPoll nat
  | InCapture "f32 list"
  | InCaptureRaw "f32 list"
  | InPlayout nat
  | InPlayoutRaw nat
  | InReconnect bytes nat
  | InSetAvatar bytes
  | InSetName bytes
  | InChat bytes
  | InFader member_id f32 f32 bool
  | InBroadcastFader member_id f32 f32 bool
  | InAudition bool
  | InStreamCtl stream_op
  | InRecordCtl record_op
  | InMetronome u16 u8 bool
  | InClick bool
  | InHearSelf bool
  | InRevoke token_id
  | InLeave bytes
  | InUplink channels
  | InEvents

type_synonym ('hs, 'ts, 'op, 'sl) client_outcome =
  "(bytes list \<times> f32 list \<times> ('hs, 'ts, 'op, 'sl) client_core) option"

definition quiet :: "'r \<times> ('hs, 'ts, 'op, 'sl) client_core \<Rightarrow> ('hs, 'ts, 'op, 'sl) client_outcome" where
  "quiet p = Some ([], [], snd p)"

definition sends :: "bytes list \<times> ('hs, 'ts, 'op, 'sl) client_core \<Rightarrow> ('hs, 'ts, 'op, 'sl) client_outcome" where
  "sends p = Some (fst p, [], snd p)"

fun client_step ::
  "('hs, 'ts, 'op) env \<Rightarrow> 'sl slip \<Rightarrow> client_input \<Rightarrow> ('hs, 'ts, 'op, 'sl) client_core \<Rightarrow>
     ('hs, 'ts, 'op, 'sl) client_outcome" where
  "client_step env lib (InDatagram now data) c = sends (client_datagram env now data c)"
| "client_step env lib (InPoll now) c = sends (client_poll env now c)"
| "client_step env lib (InCapture pcm) c = Option.bind (push_capture env pcm c) sends"
| "client_step env lib (InCaptureRaw samples) c = Option.bind (push_capture_raw env lib samples c) sends"
| "client_step env lib (InPlayout n) c = map_option (Pair []) (pull_playout env n c)"
| "client_step env lib (InPlayoutRaw n) c = map_option (Pair []) (pull_playout_raw env lib n c)"
| "client_step env lib (InReconnect priv now) c =
     (case reconnect env priv now c of (Inl _, c1) \<Rightarrow> Some ([], [], c1) | (Inr p, c1) \<Rightarrow> Some ([p], [], c1))"
| "client_step env lib (InSetAvatar bs) c = quiet (set_avatar env bs c)"
| "client_step env lib (InSetName name) c = quiet (set_name name c)"
| "client_step env lib (InChat text) c = quiet (send_chat text c)"
| "client_step env lib (InFader t g p m) c = quiet (set_fader t g p m c)"
| "client_step env lib (InBroadcastFader t g p m) c = quiet (set_broadcast_fader t g p m c)"
| "client_step env lib (InAudition on) c = quiet (set_broadcast_audition on c)"
| "client_step env lib (InStreamCtl op) c = quiet (stream_ctl op c)"
| "client_step env lib (InRecordCtl op) c = quiet (record_ctl op c)"
| "client_step env lib (InMetronome bpm beats on) c = quiet (set_metronome bpm beats on c)"
| "client_step env lib (InClick on) c = quiet (set_click on c)"
| "client_step env lib (InHearSelf on) c = quiet (set_hear_self on c)"
| "client_step env lib (InRevoke jti) c = quiet (revoke jti c)"
| "client_step env lib (InLeave reason) c = quiet (leave reason c)"
| "client_step env lib (InUplink ch) c = quiet (set_uplink_channels env ch c)"
| "client_step env lib InEvents c = quiet (client_events c)"

text \<open>A run from a core: the packets sent and the samples played by each input.\<close>

fun client_run ::
  "('hs, 'ts, 'op) env \<Rightarrow> 'sl slip \<Rightarrow> client_input list \<Rightarrow> ('hs, 'ts, 'op, 'sl) client_core \<Rightarrow>
     ((bytes list \<times> f32 list) list \<times> ('hs, 'ts, 'op, 'sl) client_core) option" where
  "client_run env lib [] c = Some ([], c)"
| "client_run env lib (i # is) c =
     Option.bind (client_step env lib i c) (\<lambda>(out, pcm, c1).
       Option.bind (client_run env lib is c1) (\<lambda>(outs, c2). Some ((out, pcm) # outs, c2)))"

fun asked :: "client_input \<Rightarrow> nat" where
  "asked (InPlayout n) = n"
| "asked (InPlayoutRaw n) = n"
| "asked _ = 0"

lemma quiet_call:
  assumes "\<And>r c'. p = (r, c') \<Longrightarrow> client_ok cr lib good c'"
  shows "\<exists>out c'. quiet p = Some (out, [], c') \<and> client_ok cr lib good c'"
  using assms by (cases p) (auto simp: quiet_def)

lemma sends_call:
  assumes "\<And>out c'. p = (out, c') \<Longrightarrow> client_ok cr lib good c'"
  shows "\<exists>out c'. sends p = Some (out, [], c') \<and> client_ok cr lib good c'"
  using assms by (cases p) (auto simp: sends_def)

lemma client_step_total:
  assumes "client_ok (e_crypto env) lib good c" "slip_lawful lib good" "opus_bounded (e_opus env)"
  shows "\<exists>out pcm c'. client_step env lib i c = Some (out, pcm, c') \<and> length pcm = asked i \<and>
    client_ok (e_crypto env) lib good c'"
proof (cases i)
  case (InCapture pcm)
  then show ?thesis using push_capture_total [OF assms(1,3), of pcm] by (auto simp: sends_def)
next
  case (InCaptureRaw samples)
  then show ?thesis using capture_raw_total [OF assms, of samples] by (auto simp: sends_def)
next
  case (InPlayout n)
  then show ?thesis using pull_playout_total [OF assms(1), of env n] by auto
next
  case (InPlayoutRaw n)
  then show ?thesis using playout_raw_total [OF assms(1,2), of env n] by auto
next
  case (InReconnect priv now)
  then show ?thesis using client_ok_reconnect [OF _ assms(1), of env priv now]
    by (auto split: prod.split sum.split)
next
  case (InDatagram now data)
  then show ?thesis by (simp add: sends_call [OF client_ok_datagram [OF _ assms(1)]])
next
  case (InPoll now)
  then show ?thesis by (simp add: sends_call [OF client_ok_poll [OF _ assms(1)]])
next
  case (InSetAvatar bs)
  then show ?thesis by (simp add: quiet_call [OF client_ok_set_avatar [OF _ assms(1)]])
next
  case (InSetName n)
  then show ?thesis by (simp add: quiet_call [OF client_ok_set_name [OF _ assms(1)]])
next
  case (InFader a b d e)
  then show ?thesis by (simp add: quiet_call [OF client_ok_fader(1) [OF _ assms(1)]])
next
  case (InBroadcastFader a b d e)
  then show ?thesis by (simp add: quiet_call [OF client_ok_fader(2) [OF _ assms(1)]])
next
  case (InMetronome a b d)
  then show ?thesis by (simp add: quiet_call [OF client_ok_fader(3) [OF _ assms(1)]])
next
  case (InUplink ch)
  then show ?thesis by (simp add: quiet_call [OF client_ok_uplink [OF _ assms(1)]])
next
  case InEvents
  then show ?thesis using assms(1) by (simp add: quiet_def client_events_def)
qed (simp_all add: send_chat_def set_broadcast_audition_def stream_ctl_def record_ctl_def set_click_def
    set_hear_self_def revoke_def leave_def quiet_call [OF client_ok_when_joined [OF _ assms(1)]])

lemma client_run_total:
  assumes "client_ok (e_crypto env) lib good c" "slip_lawful lib good" "opus_bounded (e_opus env)"
  shows "\<exists>outs c'. client_run env lib is c = Some (outs, c') \<and>
    map (\<lambda>(_, pcm). length pcm) outs = map asked is \<and> client_ok (e_crypto env) lib good c'"
  using assms(1)
proof (induction "is" arbitrary: c)
  case Nil
  then show ?case by simp
next
  case (Cons i rest)
  obtain out pcm c1 where "client_step env lib i c = Some (out, pcm, c1)" "length pcm = asked i"
    "client_ok (e_crypto env) lib good c1"
    using client_step_total [OF Cons.prems assms(2,3), of i] by blast
  then show ?case using Cons.IH [of c1] by auto
qed

end
