(* ===== verification/ClientFrame.thy ===== *)
theory ClientFrame
  imports ClientMachine
begin

text \<open>
  What the operations of the client core leave alone: the connection state moves only along the edges
  of a small state machine, and the budget for answering cookie challenges is spent only by answers.
\<close>

section \<open>Avatars and control messages\<close>

lemma event_frame [simp]:
  "cc_state (client_event_push e c) = cc_state c"
  "cc_cookie_answers (client_event_push e c) = cc_cookie_answers c"
  by (simp_all add: client_event_push_def)

lemma send_frame [simp]:
  "cc_state (client_send msg c) = cc_state c"
  "cc_cookie_answers (client_send msg c) = cc_cookie_answers c"
  by (simp_all add: client_send_def)

lemma announce_frame [simp]:
  "cc_state (announce m h c) = cc_state c" "cc_cookie_answers (announce m h c) = cc_cookie_answers c"
  by (simp_all add: announce_def)

lemma sync_member_frame [simp]:
  "cc_state (sync_member c mi) = cc_state c" "cc_cookie_answers (sync_member c mi) = cc_cookie_answers c"
  by (simp_all add: sync_member_def split: option.split)

lemma foldl_frame:
  "(\<And>c x. P (f c x) = P c) \<Longrightarrow> P (foldl f c xs) = P c"
  by (induction xs arbitrary: c) simp_all

lemma sync_frame [simp]:
  "cc_state (sync_avatars r c) = cc_state c" "cc_cookie_answers (sync_avatars r c) = cc_cookie_answers c"
  by (simp_all add: sync_avatars_def foldl_frame [where P = cc_state] foldl_frame [where P = cc_cookie_answers])

lemma accept_frame [simp]:
  "cc_state (accept_avatar h bs c) = cc_state c" "cc_cookie_answers (accept_avatar h bs c) = cc_cookie_answers c"
  by (simp_all add: accept_avatar_def Let_def foldl_frame [where P = cc_state]
      foldl_frame [where P = cc_cookie_answers])

lemma chunk_frame [simp]:
  "cc_state (handle_avatar_chunk env h i n d c) = cc_state c"
  "cc_cookie_answers (handle_avatar_chunk env h i n d c) = cc_cookie_answers c"
  by (simp_all add: handle_avatar_chunk_def Let_def split: option.split sum.split prod.split rx_step.split)

fun said_bye :: "client_state \<Rightarrow> control_msg \<Rightarrow> client_state" where
  "said_bye st (Bye reason) = Ejected reason"
| "said_bye st _ = st"

lemma control_frame [simp]:
  "cc_state (client_control env now c msg) = said_bye (cc_state c) msg"
  "cc_cookie_answers (client_control env now c msg) = cc_cookie_answers c"
  by (cases msg; simp add: client_on_stats_def client_on_avatar_request_def Let_def)+

lemma controls_frame [simp]:
  "cc_state (foldl (client_control env now) c msgs) = foldl said_bye (cc_state c) msgs"
  "cc_cookie_answers (foldl (client_control env now) c msgs) = cc_cookie_answers c"
  by (induction msgs arbitrary: c) simp_all

lemma flush_frame:
  assumes "flush_link env now c = (out, c')"
  shows "cc_state c' = cc_state c" "cc_cookie_answers c' = cc_cookie_answers c"
  using assms by (auto simp: flush_link_def Let_def split: option.splits prod.splits)

section \<open>Media\<close>

lemma capture_frame:
  assumes "push_capture env pcm c = Some (out, c')"
  shows "cc_state c' = cc_state c \<and> cc_cookie_answers c' = cc_cookie_answers c"
  using assms by (auto simp: push_capture_def seal_capture_def Let_def
      split: if_splits option.splits prod.splits sum.splits)

lemma decode_frame:
  assumes "decode_next env n c = (r, c')"
  shows "cc_state c' = cc_state c \<and> cc_cookie_answers c' = cc_cookie_answers c"
  using assms by (auto simp: decode_next_def Let_def split: prod.splits pull.splits)

lemma fifo_frame:
  "fill_fifo env n c = Some c' \<Longrightarrow> cc_state c' = cc_state c \<and> cc_cookie_answers c' = cc_cookie_answers c"
  by (erule fill_fifo.raw_induct [rotated])
    (auto split: if_splits option.splits prod.splits dest!: decode_frame)

lemma playout_frame_props:
  assumes "pull_playout env n c = Some (out, c')"
  shows "cc_state c' = cc_state c \<and> cc_cookie_answers c' = cc_cookie_answers c"
  using assms by (auto simp: pull_playout_def split: role.splits option.splits prod.splits
      dest!: decode_frame fifo_frame)

lemma capture_frames_frame:
  "capture_frames env lib d c = Some y \<Longrightarrow>
   cc_state (snd (snd y)) = cc_state c \<and> cc_cookie_answers (snd (snd y)) = cc_cookie_answers c"
  by (erule capture_frames.raw_induct [rotated])
    (fastforce split: option.splits prod.splits Option.bind_splits dest!: capture_frame)

lemma playout_frames_frame:
  "playout_frame env lib d c = Some y \<Longrightarrow>
   cc_state (snd (snd y)) = cc_state c \<and> cc_cookie_answers (snd (snd y)) = cc_cookie_answers c"
  by (erule playout_frame.raw_induct [rotated])
    (fastforce split: option.splits prod.splits Option.bind_splits dest!: playout_frame_props)

lemma playout_fill_frame:
  "playout_fill env lib n out d c = Some y \<Longrightarrow>
   cc_state (snd (snd y)) = cc_state c \<and> cc_cookie_answers (snd (snd y)) = cc_cookie_answers c"
  by (erule playout_fill.raw_induct [rotated])
    (fastforce split: if_splits list.splits prod.splits Option.bind_splits dest!: playout_frames_frame)

lemma capture_raw_frame:
  "push_capture_raw env lib xs c = Some (out, c') \<Longrightarrow>
   cc_state c' = cc_state c \<and> cc_cookie_answers c' = cc_cookie_answers c"
  by (auto simp: push_capture_raw_def split: Option.bind_splits prod.splits dest!: capture_frames_frame)

lemma playout_raw_frame:
  "pull_playout_raw env lib n c = Some (out, c') \<Longrightarrow>
   cc_state c' = cc_state c \<and> cc_cookie_answers c' = cc_cookie_answers c"
  by (auto simp: pull_playout_raw_def Let_def split: Option.bind_splits prod.splits if_splits
      dest!: playout_fill_frame)

section \<open>Calls and the poll\<close>

lemma try_send_frame:
  "client_try_send msg c = (r, c') \<Longrightarrow> cc_state c' = cc_state c \<and> cc_cookie_answers c' = cc_cookie_answers c"
  by (auto simp: client_try_send_def Let_def split: prod.splits)

lemma joined_frame:
  "when_joined msg c = (r, c') \<Longrightarrow> cc_state c' = cc_state c \<and> cc_cookie_answers c' = cc_cookie_answers c"
  by (auto simp: when_joined_def split: sum.splits dest!: try_send_frame)

lemma call_frame:
  "set_avatar env bs c = (r1, c') \<Longrightarrow> cc_state c' = cc_state c \<and> cc_cookie_answers c' = cc_cookie_answers c"
  "set_name n c = (r2, c') \<Longrightarrow> cc_state c' = cc_state c \<and> cc_cookie_answers c' = cc_cookie_answers c"
  "set_fader t g p m c = (r3, c') \<Longrightarrow> cc_state c' = cc_state c \<and> cc_cookie_answers c' = cc_cookie_answers c"
  "set_broadcast_fader t g p m c = (r4, c') \<Longrightarrow>
   cc_state c' = cc_state c \<and> cc_cookie_answers c' = cc_cookie_answers c"
  "set_metronome b k e c = (r5, c') \<Longrightarrow> cc_state c' = cc_state c \<and> cc_cookie_answers c' = cc_cookie_answers c"
  "set_uplink_channels env ch c = (r6, c') \<Longrightarrow>
   cc_state c' = cc_state c \<and> cc_cookie_answers c' = cc_cookie_answers c"
  by (auto simp: set_avatar_def set_name_def set_fader_def set_broadcast_fader_def set_metronome_def
      set_uplink_channels_def Let_def split: if_splits sum.splits prod.splits dest!: try_send_frame)

lemma poll_cookie_frame:
  "client_poll env now c = (out, c') \<Longrightarrow> cc_cookie_answers c' = cc_cookie_answers c"
  by (auto simp: client_poll_def poll_connecting_def poll_joined_def poll_rejected_def Let_def
      split: client_state.splits if_splits prod.splits dest: flush_frame(2))

end
