(* ===== verification/ServerRun.thy ===== *)
theory ServerRun
  imports ServerInv
begin

text \<open>
  Runs of the session core: everything the outside can do to it (datagrams, ticks, the driver's
  calls) as one step function, the effect of an admission, and the invariants over all runs.
\<close>

section \<open>The tick keeps the invariant\<close>

lemma keeps_each_member:
  assumes "each_member f s = (out, t)" "keeps a s" "\<And>i m. get_member s i = Some m \<Longrightarrow> steady m (snd (f i m))"
  shows "keeps a t"
  using assms by (auto simp: each_member_def intro!: keeps_map)

lemma decode_pulled_props:
  "decode_pulled env p d = (pcm, d') \<Longrightarrow> length pcm = MIX_LEN \<and> de_pcm_len d' = de_pcm_len d"
  by (auto simp: decode_pulled_def decoder_decode_def Let_def split: pull.splits prod.splits sum.splits
      option.splits if_splits)

lemma meter_steady [simp]: "steady a (meter fp pcm m) = steady a m"
  by (simp add: meter_def Let_def)

lemma decode_member_props:
  assumes "decode_member env tap who m = (out, m')"
  shows "steady m m'" and "\<forall>(_, pcm) \<in> set out. length pcm = MIX_LEN"
proof -
  obtain r j where p: "jitter_pull (mb_jitter m) = (r, j)" by fastforce
  have j: "steady m (m\<lparr>mb_jitter := j\<rparr>)"
    by (intro steady_jitter steady_refl) (rule jitter_pull_inv [OF _ p])
  have "steady m m' \<and> (\<forall>(_, pcm) \<in> set out. length pcm = MIX_LEN)"
  proof (cases "mb_decoder m")
    case None
    then show ?thesis using assms p j
      by (auto simp: decode_member_def Let_def split: if_splits)
  next
    case (Some dec)
    obtain pcm d where d: "decode_pulled env r dec = (pcm, d)" by fastforce
    have "steady m (m\<lparr>mb_jitter := j, mb_decoder := Some d\<rparr>)"
      using Some j decode_pulled_props [OF d] by (intro steady_decoder) (auto simp: codec_sizes_ok_def)
    then show ?thesis using assms p Some d decode_pulled_props [OF d]
      by (auto simp: decode_member_def Let_def split: if_splits)
  qed
  then show "steady m m'" "\<forall>(_, pcm) \<in> set out. length pcm = MIX_LEN" by blast+
qed

lemma keeps_tick_decode [keeps_intros]:
  assumes "keeps a s"
  shows "keeps a (tick_decode env s)"
proof -
  obtain d t where e: "each_member (decode_member env (sv_bcast_tap s)) s = (d, t)" by fastforce
  have k: "keeps a t"
    by (rule keeps_each_member [OF e assms]) (rule decode_member_props(1) [OF prod.collapse [symmetric]])
  have "\<forall>(_, pcm) \<in> set (fst (decode_member env (sv_bcast_tap s) i m)). length pcm = MIX_LEN" for i m
    by (rule decode_member_props(2) [OF prod.collapse [symmetric]])
  then have "\<forall>(_, pcm) \<in> set d. length pcm = MIX_LEN"
    using e by (fastforce simp: each_member_def)
  then have "keeps a (t\<lparr>sv_decoded := d\<rparr>)"
    by (intro keeps_sameI [OF k]) (auto simp: mix_ok_def tables_ok_def)
  then show ?thesis using e by (simp add: tick_decode_def)
qed

lemma keeps_broadcast_mix [keeps_intros]:
  assumes "keeps a s"
  shows "keeps a (tick_broadcast_mix env clock s)"
proof -
  obtain slot lim where l: "limiter_process (e_fp env) (sv_limiter s)
      (mix_into (e_fp env) (sv_decoded s) (fader_or_default (sv_bcast_faders s)) None MIX_LEN) = (slot, lim)"
    by fastforce
  have len: "length slot = MIX_LEN" and lim: "limiter_ok (sv_limiter s) \<Longrightarrow> limiter_ok lim"
    using limiter_process_props [OF l] by simp_all
  have idx: "sv_tick_count s mod BCAST_TICKS < BCAST_TICKS" by simp
  then have "(sv_tick_count s mod BCAST_TICKS) * MIX_LEN + MIX_LEN \<le> BCAST_LEN" by linarith
  then show ?thesis
    using len lim idx
    by (intro keeps_sameI [OF assms]) (auto simp: tick_broadcast_mix_def Let_def l mix_ok_def tables_ok_def)
qed

lemma send_frame_steady: "send_frame env ts dur pay who m = (out, m') \<Longrightarrow> steady a m \<Longrightarrow> steady a m'"
  by (auto simp: send_frame_def Let_def intro!: steady_session split: option.splits prod.splits)

lemma encoder_encode_len: "encoder_encode lib e pcm = (r, e') \<Longrightarrow> en_pcm_len e' = en_pcm_len e"
  by (auto simp: encoder_encode_def Let_def split: if_splits prod.splits option.splits)

lemma personal_member_steady: "personal_member env s clock idx click who m = (out, m') \<Longrightarrow> steady m m'"
  by (auto simp: personal_member_def Let_def codec_sizes_ok_def
      intro!: steady_encoder elim!: send_frame_steady dest!: encoder_encode_len
      split: if_splits option.splits prod.splits sum.splits)

lemma keeps_tick_personal: "tick_personal env clock s = (out, t) \<Longrightarrow> keeps a s \<Longrightarrow> keeps a t"
  by (auto simp: tick_personal_def Let_def elim!: keeps_each_member
      intro!: personal_member_steady [OF prod.collapse [symmetric]])

lemma keeps_tick_broadcast:
  assumes "tick_broadcast env s = (out, t)" "keeps a s"
  shows "keeps a t"
proof (cases "sv_bcast_encoder s")
  case None
  then show ?thesis using assms by (auto simp: tick_broadcast_def split: if_splits)
next
  case (Some enc)
  obtain r enc1 where e: "encoder_encode (e_opus env) enc (sv_bcast_accum s) = (r, enc1)" by fastforce
  have k: "keeps a (s\<lparr>sv_bcast_encoder := Some enc1\<rparr>)"
    using Some encoder_encode_len [OF e] by (intro keeps_encoder assms(2)) (simp add: mix_ok_def)
  have "steady m (snd (if listening m then send_frame env c d p i m else ([], m)))" for m c d p i
    using send_frame_steady [of env c d p i m] by (cases "send_frame env c d p i m") auto
  then show ?thesis
    using assms Some e k
    by (auto simp: tick_broadcast_def Let_def elim!: keeps_each_member split: if_splits sum.splits)
qed

lemma keeps_tick_stats [keeps_intros]: "keeps a s \<Longrightarrow> keeps a (tick_stats now s)"
  by (auto simp: tick_stats_def report_member_def Let_def intro!: keeps_map_of steady_send)

lemma feed_avatars_inv: "feed_avatars cache fed link txs = (l, rest) \<Longrightarrow> link_inv link \<Longrightarrow> link_inv l"
proof (induction cache fed link txs rule: feed_avatars.induct)
  case (1 cache fed link txs)
  show ?case
    using "1.prems" "1.IH" link_send_inv
    by (subst (asm) feed_avatars.simps) (auto split: if_splits list.splits prod.splits option.splits)
qed

lemma link_member_steady: "link_member env now cache who m = (out, m') \<Longrightarrow> steady m m'"
  by (auto simp: link_member_def intro!: steady_link dest: feed_avatars_inv elim!: steady_poll [rotated]
      split: if_splits prod.splits)

lemma keeps_tick_links: "tick_links env now s = (out, t) \<Longrightarrow> keeps a s \<Longrightarrow> keeps a t"
  by (auto simp: tick_links_def elim!: keeps_each_member
      intro!: link_member_steady [OF prod.collapse [symmetric]])

lemma keeps_tick_reap [keeps_intros]: "keeps a s \<Longrightarrow> keeps a (tick_reap now s)"
  by (auto simp: tick_reap_def Let_def intro!: keeps_foldl keeps_disconnect)

lemma keeps_tick_quiet [keeps_intros]: "keeps a s \<Longrightarrow> keeps a (tick_quiet now s)"
  by (auto simp: tick_quiet_def Let_def is_quiet_def intro!: keeps_map_of steady_quiet)

lemma keeps_tick:
  assumes "tick env now s = (out, t)" "keeps a s"
  shows "keeps a t"
proof -
  let ?c = "sv_sample_clock s"
  let ?s2 = "tick_broadcast_mix env ?c (tick_decode env (s\<lparr>sv_sample_clock := wrap64 (?c + TICK_SAMPLES)\<rparr>))"
  obtain o1 s3 where p: "tick_personal env ?c ?s2 = (o1, s3)" by fastforce
  obtain o2 s4 where b: "tick_broadcast env s3 = (o2, s4)" by fastforce
  let ?s6 = "feed_server_log now (flush_roster (tick_stats now (s4\<lparr>sv_tick_count := wrap64 (sv_tick_count s4 + 1)\<rparr>)))"
  obtain o3 s7 where l: "tick_links env now ?s6 = (o3, s7)" by fastforce
  have "keeps a ?s2" using assms(2) by (intro keeps_broadcast_mix keeps_tick_decode) simp
  then have "keeps a s4" by (rule keeps_tick_broadcast [OF b keeps_tick_personal [OF p]])
  then have "keeps a ?s6" by (intro keeps_server_log keeps_flush_roster keeps_tick_stats) simp
  then have "keeps a s7" by (rule keeps_tick_links [OF l])
  moreover have "t = tick_quiet now (tick_reap now s7)"
    using assms(1) p b l by (simp add: tick_def Let_def)
  ultimately show ?thesis by (simp add: keeps_tick_quiet keeps_tick_reap)
qed

end
