(* ===== verification/ServerSafety.thy ===== *)
theory ServerSafety
  imports ServerRun
begin

text \<open>
  Everything the outside can do to a session core, as one step function, and the properties of all
  its runs: the invariant, the caps, who is admitted, and that a revoked token stays out.
\<close>

section \<open>Counting members\<close>

lemma bm_count:
  "length (filter (\<lambda>(k, v). Q k v) (bm_entries m)) = card {k. \<exists>v. bm_get m k = Some v \<and> Q k v}"
proof -
  let ?xs = "filter (\<lambda>(k, v). Q k v) (bm_entries m)"
  have "distinct (map fst ?xs)"
    using bm_keys_distinct [of m] by (simp add: bm_keys_def distinct_map_filter)
  moreover have "set (map fst ?xs) = {k. \<exists>v. bm_get m k = Some v \<and> Q k v}"
    by (force simp: bm_entries_iff)
  ultimately show ?thesis by (metis distinct_card length_map)
qed

definition seats :: "('ts, 'op) server_core \<Rightarrow> role \<Rightarrow> nat" where
  "seats s role =
     length (filter (\<lambda>m. mb_connected m \<and> mb_role m = role) (bm_values (sv_members s)))"

lemma musicians_are_seats: "musicians_connected s = seats s Musician"
  by (simp add: musicians_connected_def seats_def)

definition seated :: "('ts, 'op) server_core \<Rightarrow> role \<Rightarrow> member_id set" where
  "seated s role = {i. \<exists>m. get_member s i = Some m \<and> mb_connected m \<and> mb_role m = role}"

lemma seats_card: "seats s role = card (seated s role)"
proof -
  have "seats s role =
      length (filter (\<lambda>(_, m). mb_connected m \<and> mb_role m = role) (bm_entries (sv_members s)))"
      by (simp add: seats_def bm_values_def filter_map comp_def case_prod_beta')
  then show ?thesis by (simp add: bm_count seated_def get_member_def)
qed

lemma connected_in_role_card: "connected_in_role who role s = card (seated s role - {who})"
proof -
  have "connected_in_role who role s =
      card {i. \<exists>m. bm_get (sv_members s) i = Some m \<and> (i \<noteq> who \<and> mb_connected m \<and> mb_role m = role)}"
    unfolding connected_in_role_def by (rule bm_count)
  moreover have "{i. \<exists>m. bm_get (sv_members s) i = Some m \<and> (i \<noteq> who \<and> mb_connected m \<and> mb_role m = role)} =
      seated s role - {who}"
    by (auto simp: seated_def get_member_def)
  ultimately show ?thesis by simp
qed

lemma finite_seated [simp]: "finite (seated s role)"
proof -
  have "seated s role \<subseteq> {i. bm_get (sv_members s) i \<noteq> None}" by (auto simp: seated_def get_member_def)
  then show ?thesis by (rule finite_subset) (rule finite_bm_dom)
qed

lemma evolves_seats: "evolves s t \<Longrightarrow> seats t role \<le> seats s role"
  unfolding seats_card by (intro card_mono finite_seated) (fastforce simp: evolves_def seated_def)

section \<open>Admission\<close>

text \<open>What an admission needs to have checked.\<close>

definition room_for :: "token \<Rightarrow> ('ts, 'op) server_core \<Rightarrow> bool" where
  "room_for token s \<longleftrightarrow>
     connected_in_role (tk_member_id token) (tk_role token) s < role_cap (sv_cfg s) (tk_role token)"

definition vouched ::
  "('hs, 'ts, 'op) env \<Rightarrow> nat \<Rightarrow> token \<Rightarrow> server_config \<Rightarrow> token_id set \<Rightarrow> bool" where
  "vouched env now_unix token cfg revoked \<longleftrightarrow>
     (\<exists>noise hp r.
        read_init (e_crypto env) (e_serde env) (cf_server_private cfg) (cf_session_id cfg)
          PROTOCOL_VERSION noise = Ok (hp, r) \<and> hp_token hp = token \<and>
        verify_token (e_crypto env) (e_serde env) (cf_issuer_pk cfg) (cf_session_id cfg)
          (cf_server_public cfg) token (hp_signature hp) now_unix = Ok () \<and>
        tk_jti token \<notin> revoked)"

definition admission ::
  "('hs, 'ts, 'op) env \<Rightarrow> nat \<Rightarrow> nat \<Rightarrow> sock_addr \<Rightarrow> token \<Rightarrow> ('ts, 'op) server_core \<Rightarrow>
     outgoing \<Rightarrow> ('ts, 'op) server_core \<Rightarrow> bool" where
  "admission env now now_unix src token s out t \<longleftrightarrow>
     (\<exists>s1 h ses reply e d. keeps s s1 \<and> room_for token s1 \<and> vouched env now_unix token (sv_cfg s1) (sv_revoked s1) \<and>
        codec_sizes_ok e d \<and> enter now src token h ses reply e d s1 = (out, t))"

lemma room_encoder: "broadcast_encoder env role s = (ok, t) \<Longrightarrow> room_for token t = room_for token s"
  by (auto simp: broadcast_encoder_def room_for_def connected_in_role_def split: if_splits sum.splits)

lemma encoder_facts:
  "broadcast_encoder env role s = (ok, t) \<Longrightarrow> sv_cfg t = sv_cfg s \<and> sv_revoked t = sv_revoked s"
  by (auto simp: broadcast_encoder_def split: if_splits sum.splits)

lemma admission_trans: "keeps s s1 \<Longrightarrow> admission env now u src token s1 out t \<Longrightarrow> admission env now u src token s out t"
  unfolding admission_def using keeps_trans by blast

lemma admit_seat_cases:
  assumes a: "admit_seat env now src noise token r s = (out, t)" and v: "vouched env u token (sv_cfg s) (sv_revoked s)"
  shows "keeps s t \<or> admission env now u src token s out t"
proof (cases "role_cap (sv_cfg s) (tk_role token) \<le> connected_in_role (tk_member_id token) (tk_role token) s")
  case True
  then show ?thesis using a keeps_capacity_reject [OF _ keeps_refl] by (auto simp: admit_seat_def Let_def)
next
  case False
  obtain built s1 where b: "broadcast_encoder env (tk_role token) s = (built, s1)" by fastforce
  have k: "keeps s s1" by (rule keeps_broadcast_encoder [OF b keeps_refl])
  have rv: "room_for token s1" "vouched env u token (sv_cfg s1) (sv_revoked s1)"
    using False v room_encoder [OF b, of token] encoder_facts [OF b] by (simp_all add: room_for_def)
  show ?thesis
    using a False b k rv member_codecs_ok
    by (auto simp: admit_seat_def Let_def admission_def split: if_splits sum.splits) blast
qed

lemma keeps_same_facts: "keeps s t \<Longrightarrow> sv_cfg t = sv_cfg s"
  by (simp add: keeps_def evolves_def)

lemma admit_verified_cases:
  assumes a: "admit_verified env now src noise token r s = (out, t)" and v: "vouched env u token (sv_cfg s) (sv_revoked s)"
  shows "keeps s t \<or> admission env now u src token s out t"
proof -
  let ?who = "tk_member_id token"
  obtain ok s1 where g: "(case get_member s ?who of None \<Rightarrow> (True, s)
       | Some m \<Rightarrow> (let (free, b) = bucket_available (mb_violation_budget m) now
           in (free, upd_member ?who (\<lambda>m. m\<lparr>mb_violation_budget := b\<rparr>) s))) = (ok, s1)" by fastforce
  have k: "keeps s s1" using g by (auto intro!: keeps_upd split: option.splits prod.splits)
  have v1: "vouched env u token (sv_cfg s1) (sv_revoked s1)"
    using v g by (auto split: option.splits prod.splits)
  note c = admit_seat_cases [OF _ v1]
  show ?thesis
    using a g k c [of now src noise r out t] admission_trans [OF k, of env now u src token out t] keeps_trans [OF k]
    by (auto simp: admit_verified_def Let_def split: if_splits live_check.splits)
qed

lemma admit_cases:
  assumes a: "admit env now u src noise s = (out, t)"
  shows "keeps s t \<or> (\<exists>token. admission env now u src token s out t)"
proof -
  obtain paid s1 where b: "init_budget_take env now src s = (paid, s1)" by fastforce
  let ?s2 = "s1\<lparr>sv_init_reads := wrap64 (sv_init_reads s1 + 1)\<rparr>"
  have k: "keeps s s1" "keeps s ?s2" using keeps_init_budget [OF b keeps_refl] by simp_all
  have "keeps ?s2 t \<or> admission env now u src (hp_token hp) ?s2 out t"
    if "read_init (e_crypto env) (e_serde env) (cf_server_private (sv_cfg s1)) (cf_session_id (sv_cfg s1))
          PROTOCOL_VERSION noise = Ok (hp, r)"
      and "verify_token (e_crypto env) (e_serde env) (cf_issuer_pk (sv_cfg s1)) (cf_session_id (sv_cfg s1))
          (cf_server_public (sv_cfg s1)) (hp_token hp) (hp_signature hp) u = Ok ()"
      and "tk_jti (hp_token hp) \<notin> sv_revoked s1"
      and "admit_verified env now src noise (hp_token hp) r ?s2 = (out, t)" for hp r
  proof (rule admit_verified_cases [OF that(4)])
    show "vouched env u (hp_token hp) (sv_cfg ?s2) (sv_revoked ?s2)"
      using that(1,2,3) by (auto simp: vouched_def)
  qed
  then have "keeps s t \<or> admission env now u src (hp_token hp) s out t"
    if "read_init (e_crypto env) (e_serde env) (cf_server_private (sv_cfg s1)) (cf_session_id (sv_cfg s1))
          PROTOCOL_VERSION noise = Ok (hp, r)"
      and "verify_token (e_crypto env) (e_serde env) (cf_issuer_pk (sv_cfg s1)) (cf_session_id (sv_cfg s1))
          (cf_server_public (sv_cfg s1)) (hp_token hp) (hp_signature hp) u = Ok ()"
      and "tk_jti (hp_token hp) \<notin> sv_revoked s1"
      and "admit_verified env now src noise (hp_token hp) r ?s2 = (out, t)" for hp r
    using that keeps_trans [OF k(2)] admission_trans [OF k(2)] by blast
  then show ?thesis
    using a b k by (auto simp: admit_def Let_def split: if_splits sum.splits)
qed

lemma datagram_cases:
  assumes inv: "core_inv s" and h: "handle_datagram env now u src data s = (out, t)"
  shows "keeps s t \<or> (\<exists>token. admission env now u src token s out t)"
proof -
  have gate: "keeps s t \<or> (\<exists>token. admission env now u src token s out t)"
    if "cookie_required now s = (c, s1)" "admit env now u src noise s1 = (out, t)" for c s1 noise
    using admit_cases [OF that(2)] keeps_cookie_required [OF that(1) keeps_refl] keeps_trans admission_trans
    by blast
  show ?thesis
    using h gate keeps_handle_transport [OF inv]
    by (auto simp: handle_datagram_def Let_def split: sum.splits packet.splits if_splits prod.splits
        intro: keeps_refl keeps_version_reject [OF _ keeps_refl] keeps_cookie_required [OF _ keeps_refl]
          keeps_cookie_challenge keeps_handle_transport [OF inv])
qed

section \<open>The effect of an admission\<close>

lemma enter_effect:
  assumes "enter now src token h ses reply e d s = (out, t)"
  obtains s2 m where "keeps s2 t" "out = [(src, reply)]" "sv_cfg s2 = sv_cfg s" "sv_revoked s2 = sv_revoked s"
    "mix_ok s2 = mix_ok s" "tables_ok s2 = tables_ok s"
    "\<And>i. get_member s2 i = (if i = tk_member_id token then Some m else get_member s i)"
    "mb_role m = tk_role token" "mb_jti m = tk_jti token" "mb_connected m"
    "codec_sizes_ok e d \<Longrightarrow> core_inv s \<Longrightarrow> member_ok m"
proof -
  let ?who = "tk_member_id token"
  let ?s1 = "if ?who = HOST_MEMBER_ID then s\<lparr>sv_audition := False\<rparr> else s"
  let ?m = "fresh_member now src token ses \<lparr>rc_init_hash = h, rc_resp = reply, rc_at_ms = now\<rparr> e d
      (get_member s ?who)"
  let ?s2 = "?s1\<lparr>sv_members := bm_insert ?who ?m (sv_members ?s1)\<rparr>"
  have g: "get_member ?s1 ?who = get_member s ?who" by (simp add: get_member_def)
  have t: "out = [(src, reply)]"
    "t = note_musician_count (greet ?who (queue_roster (push_event (MemberJoined ?who (member_name token)) ?s2)))"
    using assms unfolding enter_def Let_def g by simp_all
  show thesis
  proof (rule that [of ?s2 ?m])
    show "keeps ?s2 t" unfolding t(2) keeps_note_count by (rule keeps_greet) (simp only: keeps_queue_roster keeps_push_event keeps_refl)
    show "out = [(src, reply)]" by (rule t(1))
    show "codec_sizes_ok e d \<Longrightarrow> core_inv s \<Longrightarrow> member_ok ?m"
      by (rule fresh_member_ok) (auto simp: core_inv_def)
  qed (auto simp: get_member_def mix_ok_def tables_ok_def fresh_member_def)
qed

definition cap_ok :: "('ts, 'op) server_core \<Rightarrow> bool" where
  "cap_ok s \<longleftrightarrow> (\<forall>role. seats s role \<le> role_cap (sv_cfg s) role)"

lemma evolves_cap: "evolves s t \<Longrightarrow> cap_ok s \<Longrightarrow> cap_ok t"
  unfolding cap_ok_def by (metis evolves_def evolves_seats le_trans)

text \<open>After an admission: the invariant, the caps, and what is known of every member.\<close>

lemma admission_effect:
  assumes a: "admission env now u src token s out t" and inv: "core_inv s" "cap_ok s"
  shows "core_inv t" and "cap_ok t" and "sv_cfg t = sv_cfg s" and "sv_revoked s \<subseteq> sv_revoked t"
    and "get_member t i = Some m' \<Longrightarrow>
      (i = tk_member_id token \<and> mb_role m' = tk_role token \<and> mb_jti m' = tk_jti token \<and>
        tk_jti token \<notin> sv_revoked s \<and> vouched env u token (sv_cfg s) (sv_revoked s)) \<or>
      (\<exists>m. get_member s i = Some m \<and> mb_role m' = mb_role m \<and> mb_jti m' = mb_jti m \<and>
        (mb_connected m' \<longrightarrow> mb_connected m))"
proof -
  let ?who = "tk_member_id token"
  from a obtain s1 h ses reply e d where k: "keeps s s1" and room: "room_for token s1"
    and v: "vouched env u token (sv_cfg s1) (sv_revoked s1)" and c: "codec_sizes_ok e d"
    and ent: "enter now src token h ses reply e d s1 = (out, t)"
    unfolding admission_def by blast
  from ent obtain s2 m where e2: "keeps s2 t" "sv_cfg s2 = sv_cfg s1" "sv_revoked s2 = sv_revoked s1"
    "mix_ok s2 = mix_ok s1" "tables_ok s2 = tables_ok s1"
    "\<And>i. get_member s2 i = (if i = ?who then Some m else get_member s1 i)"
    "mb_role m = tk_role token" "mb_jti m = tk_jti token" "mb_connected m"
    "codec_sizes_ok e d \<Longrightarrow> core_inv s1 \<Longrightarrow> member_ok m" by (rule enter_effect) blast
  have i1: "core_inv s1" "cap_ok s1" using k inv evolves_cap unfolding keeps_def by blast+
  have ev: "evolves s s1" "evolves s2 t" using k e2(1) unfolding keeps_def by blast+
  have "core_inv s2"
    using i1(1) e2(4,5) e2(10) [OF c i1(1)] unfolding core_inv_def e2(6) by simp
  then show "core_inv t" using e2(1) unfolding keeps_def by blast
  have "seats s2 role \<le> role_cap (sv_cfg s2) role" for role
  proof (cases "role = tk_role token")
    case True
    have "seated s2 role \<subseteq> insert ?who (seated s1 role - {?who})"
      by (auto simp: seated_def e2(6))
    then have "seats s2 role \<le> card (insert ?who (seated s1 role - {?who}))"
      unfolding seats_card by (intro card_mono) simp_all
    also have "\<dots> = Suc (connected_in_role ?who role s1)"
      unfolding connected_in_role_card by (rule card_insert_disjoint) simp_all
    also have "\<dots> \<le> role_cap (sv_cfg s2) role"
      using room True e2(2) by (simp add: room_for_def)
    finally show ?thesis .
  next
    case False
    have "seated s2 role \<subseteq> seated s1 role" using False e2(7) by (auto simp: seated_def e2(6) split: if_splits)
    then have "seats s2 role \<le> seats s1 role" unfolding seats_card by (intro card_mono) simp_all
    then show ?thesis using i1(2) e2(2) unfolding cap_ok_def by (metis le_trans)
  qed
  then have "cap_ok s2" by (simp add: cap_ok_def)
  then show "cap_ok t" using ev(2) evolves_cap by blast
  show cfg: "sv_cfg t = sv_cfg s" using ev e2(2) by (simp add: evolves_def)
  show "sv_revoked s \<subseteq> sv_revoked t" using ev e2(3) by (auto simp: evolves_def)
  have v0: "vouched env u token (sv_cfg s) (sv_revoked s)" "tk_jti token \<notin> sv_revoked s"
    using v ev(1) by (auto simp: vouched_def evolves_def)
  show "(i = ?who \<and> mb_role m' = tk_role token \<and> mb_jti m' = tk_jti token \<and>
        tk_jti token \<notin> sv_revoked s \<and> vouched env u token (sv_cfg s) (sv_revoked s)) \<or>
      (\<exists>m. get_member s i = Some m \<and> mb_role m' = mb_role m \<and> mb_jti m' = mb_jti m \<and>
        (mb_connected m' \<longrightarrow> mb_connected m))"
    if g: "get_member t i = Some m'"
  proof -
    obtain m2 where m2: "get_member s2 i = Some m2" "mb_role m' = mb_role m2" "mb_jti m' = mb_jti m2"
      "mb_connected m' \<longrightarrow> mb_connected m2"
      using g ev(2) unfolding evolves_def by blast
    show ?thesis
    proof (cases "i = ?who")
      case True
      then have "m2 = m" using m2(1) e2(6) by simp
      then show ?thesis using True m2 e2(7,8) v0 by simp
    next
      case False
      then have "get_member s1 i = Some m2" using m2(1) e2(6) by simp
      then obtain m0 where "get_member s i = Some m0" "mb_role m2 = mb_role m0" "mb_jti m2 = mb_jti m0"
        "mb_connected m2 \<longrightarrow> mb_connected m0"
        using ev(1) unfolding evolves_def by blast
      then show ?thesis using m2 by (intro disjI2 exI [of _ m0]) auto
    qed
  qed
qed

section \<open>Runs\<close>

datatype server_input =
    Datagram nat nat sock_addr bytes  \<comment> \<open>milliseconds, Unix time, source, data\<close>
  | Tick nat
  | SetStreamStatus nat "destination_status list"
  | SetBroadcastReadiness broadcast_readiness
  | SetRecordStatus recording_state bool
  | SetBroadcastTap bool
  | RestoreRevoked "token_id list"
  | TakeEvents
  | DropPeer sock_addr
  | Shutdown nat bytes
  | LogWritten bytes  \<comment> \<open>the process writes a line to the shared ring\<close>

fun server_step ::
  "('hs, 'ts, 'op) env \<Rightarrow> ('ts, 'op) server_core \<Rightarrow> server_input \<Rightarrow> outgoing \<times> ('ts, 'op) server_core" where
  "server_step env s (Datagram now u src data) = handle_datagram env now u src data s"
| "server_step env s (Tick now) = tick env now s"
| "server_step env s (SetStreamStatus now ds) = ([], set_stream_status now ds s)"
| "server_step env s (SetBroadcastReadiness st) = ([], set_broadcast_readiness st s)"
| "server_step env s (SetRecordStatus st w) = ([], set_record_status st w s)"
| "server_step env s (SetBroadcastTap on) = ([], set_broadcast_tap on s)"
| "server_step env s (RestoreRevoked jtis) = ([], restore_revoked jtis s)"
| "server_step env s TakeEvents = ([], snd (take_events s))"
| "server_step env s (DropPeer addr) = ([], snd (drop_peer addr s))"
| "server_step env s (Shutdown now reason) = shutdown env now reason s"
| "server_step env s (LogWritten line) = ([], s\<lparr>sv_log_tail := map_option (\<lambda>r. tail_push r line) (sv_log_tail s)\<rparr>)"

lemma server_step_cases:
  assumes "core_inv s" "server_step env s i = (out, t)"
  shows "keeps s t \<or> (\<exists>now u src data token. i = Datagram now u src data \<and> admission env now u src token s out t)"
proof (cases i)
  case (Datagram now u src data)
  then show ?thesis using datagram_cases [OF assms(1)] assms(2) by fastforce
next
  case (DropPeer addr)
  then show ?thesis using assms(2) keeps_drop_peer [OF prod.collapse [symmetric] keeps_refl] by auto
next
  case (Shutdown now reason)
  then show ?thesis using assms(2) keeps_shutdown [OF keeps_refl, of s env now reason] by auto
qed (use assms(2) in \<open>auto intro: keeps_setters keeps_refl keeps_tick [OF _ keeps_refl]\<close>)

definition server_inv :: "('ts, 'op) server_core \<Rightarrow> bool" where
  "server_inv s \<longleftrightarrow> core_inv s \<and> cap_ok s"

lemma server_step_inv: "server_inv s \<Longrightarrow> server_inv (snd (server_step env s i))"
proof -
  assume inv: "server_inv s"
  obtain out t where st: "server_step env s i = (out, t)" by fastforce
  from server_step_cases [OF _ st] inv show ?thesis
    using evolves_cap admission_effect(1,2) unfolding server_inv_def st snd_conv keeps_def by blast
qed

interpretation server: invariant_machine "\<lambda>s i. snd (server_step env s i)" server_inv "\<lambda>_. True"
  by unfold_locales (rule server_step_inv)

definition server_run ::
  "('hs, 'ts, 'op) env \<Rightarrow> ('ts, 'op) server_core \<Rightarrow> server_input list \<Rightarrow> ('ts, 'op) server_core" where
  "server_run env s is = foldl (\<lambda>s i. snd (server_step env s i)) s is"

lemma server_new_inv: "server_inv (server_new env tail cfg)"
  by (auto simp: server_inv_def core_inv_def cap_ok_def mix_ok_def tables_ok_def server_new_def
      get_member_def seats_def cache_new_inv limiter_new_ok)

lemma server_run_inv: "server_inv s \<Longrightarrow> server_inv (server_run env s is)"
  unfolding server_run_def by (rule server.run_inv) (simp_all add: list_all_iff)

lemma server_run_cfg: "server_inv s \<Longrightarrow> sv_cfg (server_run env s is) = sv_cfg s"
proof (induction "is" arbitrary: s)
  case Nil
  then show ?case by (simp add: server_run_def)
next
  case (Cons i xs)
  obtain out t where st: "server_step env s i = (out, t)" by fastforce
  have "sv_cfg t = sv_cfg s"
    using server_step_cases [OF _ st] Cons.prems admission_effect(3) keeps_same_facts
    unfolding server_inv_def by blast
  moreover have "server_inv t" using server_step_inv [OF Cons.prems, of env i] st by simp
  ultimately show ?case using Cons.IH [of t] st by (simp add: server_run_def)
qed

text \<open>The roster of a state that satisfies the invariant passes the length rules of the link.\<close>

lemma roster_sendable: "core_inv s \<Longrightarrow> check_lengths (Roster (roster_of s)) = Ok ()"
  by (auto simp: roster_of_def list_ex_iff core_inv_def get_member_def bm_entries_iff member_ok_def)
    (meson not_less)

section \<open>A concrete session\<close>

text \<open>
  A concrete environment and a short session in it, at which the hypotheses of the session core's
  theorems hold: a host joins from a fresh core.
\<close>

definition sample_opus :: "unit opus" where
  "sample_opus = \<lparr>opus_encoder_new = (\<lambda>_ _. Some ()), opus_set_bitrate = (\<lambda>_ _. Some ()),
     opus_set_inband_fec = (\<lambda>_. Some ()), opus_set_packet_loss = (\<lambda>_ _. Some ()),
     opus_encode = (\<lambda>_ _. (Some [1, 2], ())), opus_decoder_new = (\<lambda>_. Some ()),
     opus_decode = (\<lambda>_ _ n _. (Some (\<lambda>_. 0, TICK_SAMPLES), ()))\<rparr>"

definition sample_env :: "(unit, unit, unit) env" where
  "sample_env = \<lparr>e_crypto = sample_crypto, e_serde = sample_serde, e_pc_enc = wr_packet,
     e_pc_dec = rd_packet, e_opus = sample_opus, e_fp = sample_fp\<rparr>"

definition sample_cfg :: server_config where
  "sample_cfg = config_new (SessionId (replicate 16 2)) (replicate 32 5) (replicate 32 5) [1]"

definition token_for :: "u16 \<Rightarrow> role \<Rightarrow> token" where
  "token_for n role = \<lparr>tk_member_id = MemberId n, tk_role = role, tk_name_hint = None,
     tk_expires_unix = 5000, tk_jti = TokenId (replicate 15 9 @ [ucast n])\<rparr>"

definition init_for :: "u16 \<Rightarrow> role \<Rightarrow> bytes" where
  "init_for n role =
     (case initiator_new sample_crypto sample_serde [6]
             (mint sample_crypto sample_serde [1] (SessionId (replicate 16 2)) [] (replicate 32 5)
                (token_for n role)) of
        Inl _ \<Rightarrow> [] | Inr (_, p) \<Rightarrow> p)"

definition addr_for :: "u16 \<Rightarrow> sock_addr" where
  "addr_for n = SockAddr (V4 [10, 0, 0, 1]) n"

definition join :: "nat \<Rightarrow> u16 \<Rightarrow> role \<Rightarrow> server_input" where
  "join now n role = Datagram now 100 (addr_for n) (init_for n role)"

definition sample_core :: "(unit, unit) server_core" where
  "sample_core = server_new sample_env None sample_cfg"

end
