(* ===== verification/ServerClaims.thy ===== *)
theory ServerClaims
  imports ServerSafety
begin

text \<open>
  The main properties of all runs of the session core: the session invariant with the admission
  caps, who gets in, and that a revocation is final.
\<close>

section \<open>An admission that succeeds\<close>

definition same_seat :: "('ts, 'op) member \<Rightarrow> ('ts, 'op) member \<Rightarrow> bool" where
  "same_seat m m' \<longleftrightarrow> mb_connected m' = mb_connected m \<and> mb_role m' = mb_role m \<and> mb_jti m' = mb_jti m \<and>
     mb_addr m' = mb_addr m \<and> mb_session m' = mb_session m"

lemma same_seat_send: "same_seat a m \<Longrightarrow> same_seat a (member_send msg m)"
  by (simp add: same_seat_def member_send_def)

lemma get_upd_send:
  "\<exists>m'. get_member s i = Some m' \<and> same_seat m m' \<Longrightarrow>
   \<exists>m'. get_member (upd_member j (member_send msg) s) i = Some m' \<and> same_seat m m'"
  by (auto simp: get_member_upd same_seat_send)

lemma greet_seat:
  "get_member s i = Some m \<Longrightarrow> \<exists>m'. get_member (greet j s) i = Some m' \<and> same_seat m m'"
proof -
  assume "get_member s i = Some m"
  then have "\<exists>m'. get_member s i = Some m' \<and> same_seat m m'" by (simp add: same_seat_def)
  then show ?thesis
    by (simp add: greet_def Let_def get_upd_send split: option.split)
qed

lemma enter_seats:
  assumes "enter now src token h ses reply e d s = (out, t)"
  shows "out = [(src, reply)] \<and>
    (\<exists>m. get_member t (tk_member_id token) = Some m \<and> mb_connected m \<and> mb_role m = tk_role token \<and>
       mb_jti m = tk_jti token \<and> mb_addr m = Some src \<and> mb_session m = Some ses)"
proof -
  let ?who = "tk_member_id token"
  let ?s1 = "if ?who = HOST_MEMBER_ID then s\<lparr>sv_audition := False\<rparr> else s"
  let ?m = "fresh_member now src token ses \<lparr>rc_init_hash = h, rc_resp = reply, rc_at_ms = now\<rparr> e d
      (get_member ?s1 ?who)"
  let ?s3 = "queue_roster (push_event (MemberJoined ?who (member_name token))
      (?s1\<lparr>sv_members := bm_insert ?who ?m (sv_members ?s1)\<rparr>))"
  have t: "out = [(src, reply)]" "t = note_musician_count (greet ?who ?s3)"
    using assms unfolding enter_def Let_def by simp_all
  have "get_member ?s3 ?who = Some ?m" by (simp add: get_member_def queue_roster_def push_event_def)
  then obtain m' where "get_member (greet ?who ?s3) ?who = Some m'" "same_seat ?m m'"
    using greet_seat by blast
  then show ?thesis
    using t by (auto simp: same_seat_def fresh_member_def note_musician_count_def Let_def push_event_def get_member_def)
qed

text \<open>The conditions under which an init is admitted, for a member not on the roster.\<close>

definition admissible ::
  "('hs, 'ts, 'op) env \<Rightarrow> nat \<Rightarrow> nat \<Rightarrow> sock_addr \<Rightarrow> bytes \<Rightarrow> ('ts, 'op) server_core \<Rightarrow>
     token \<Rightarrow> bytes \<Rightarrow> bool" where
  "admissible env now u src noise s token reply \<longleftrightarrow>
     (\<exists>hp r ses e d s1 s2 s3. let cfg = sv_cfg s; c = e_crypto env; sd = e_serde env in
        cookie_required now s = (False, s1) \<and> init_budget_take env now src s1 = (True, s2) \<and>
        read_init c sd (cf_server_private cfg) (cf_session_id cfg) PROTOCOL_VERSION noise = Ok (hp, r) \<and>
        hp_token hp = token \<and>
        verify_token c sd (cf_issuer_pk cfg) (cf_session_id cfg) (cf_server_public cfg) token
          (hp_signature hp) u = Ok () \<and>
        tk_jti token \<notin> sv_revoked s \<and> get_member s (tk_member_id token) = None \<and> room_for token s \<and>
        broadcast_encoder env (tk_role token) (s2\<lparr>sv_init_reads := wrap64 (sv_init_reads s2 + 1)\<rparr>) = (True, s3) \<and>
        member_codecs env (tk_role token) = Ok (e, d) \<and>
        responder_respond c sd r \<lparr>wl_member_id = tk_member_id token,
          wl_sample_clock = of_nat (sv_sample_clock s)\<rparr> = Ok (ses, reply))"

lemma init_budget_facts:
  "init_budget_take env now src s = (ok, t) \<Longrightarrow> sv_cfg t = sv_cfg s \<and> sv_revoked t = sv_revoked s \<and>
     sv_members t = sv_members s \<and> sv_sample_clock t = sv_sample_clock s"
  by (auto simp: init_budget_take_def Let_def split: if_splits prod.splits)

lemma cookie_required_facts:
  "cookie_required now s = (ok, t) \<Longrightarrow> sv_cfg t = sv_cfg s \<and> sv_revoked t = sv_revoked s \<and>
     sv_members t = sv_members s \<and> sv_sample_clock t = sv_sample_clock s"
  by (auto simp: cookie_required_def split: prod.splits)

lemma broadcast_encoder_facts:
  "broadcast_encoder env role s = (ok, t) \<Longrightarrow> sv_sample_clock t = sv_sample_clock s"
  by (auto simp: broadcast_encoder_def split: if_splits sum.splits)

lemma admissible_enters:
  assumes "admissible env now u src noise s token reply"
  shows "\<exists>h hp r ses e d s3.
    read_init (e_crypto env) (e_serde env) (cf_server_private (sv_cfg s)) (cf_session_id (sv_cfg s))
      PROTOCOL_VERSION noise = Ok (hp, r) \<and>
    responder_respond (e_crypto env) (e_serde env) r \<lparr>wl_member_id = tk_member_id token,
      wl_sample_clock = of_nat (sv_sample_clock s)\<rparr> = Ok (ses, reply) \<and>
    handle_datagram env now u src (build_handshake_init PROTOCOL_VERSION noise) s =
      enter now src token h ses reply e d s3"
proof -
  from assms obtain hp r ses e d s1 s2 s3 where
    c: "cookie_required now s = (False, s1)" and b: "init_budget_take env now src s1 = (True, s2)"
    and r: "read_init (e_crypto env) (e_serde env) (cf_server_private (sv_cfg s)) (cf_session_id (sv_cfg s))
        PROTOCOL_VERSION noise = Ok (hp, r)" "hp_token hp = token"
      "verify_token (e_crypto env) (e_serde env) (cf_issuer_pk (sv_cfg s)) (cf_session_id (sv_cfg s))
        (cf_server_public (sv_cfg s)) token (hp_signature hp) u = Ok ()"
    and j: "tk_jti token \<notin> sv_revoked s" "get_member s (tk_member_id token) = None" "room_for token s"
    and e: "broadcast_encoder env (tk_role token) (s2\<lparr>sv_init_reads := wrap64 (sv_init_reads s2 + 1)\<rparr>) = (True, s3)"
      "member_codecs env (tk_role token) = Ok (e, d)"
      "responder_respond (e_crypto env) (e_serde env) r \<lparr>wl_member_id = tk_member_id token,
        wl_sample_clock = of_nat (sv_sample_clock s)\<rparr> = Ok (ses, reply)"
    by (auto simp: admissible_def Let_def)
  let ?s2 = "s2\<lparr>sv_init_reads := wrap64 (sv_init_reads s2 + 1)\<rparr>"
  have f: "sv_cfg s2 = sv_cfg s" "sv_revoked s2 = sv_revoked s" "sv_members s2 = sv_members s"
    "sv_sample_clock s3 = sv_sample_clock s"
    using cookie_required_facts [OF c] init_budget_facts [OF b] broadcast_encoder_facts [OF e(1)] by simp_all
  have room: "\<not> role_cap (sv_cfg s2) (tk_role token) \<le> connected_in_role (tk_member_id token) (tk_role token) ?s2"
    using j(3) f by (simp add: room_for_def connected_in_role_def)
  have "parse (build_handshake_init PROTOCOL_VERSION noise) = Ok (HandshakeInit PROTOCOL_VERSION noise)"
    using parse_packet_bytes [of "HandshakeInit PROTOCOL_VERSION noise"] by simp
  moreover have "admit_seat env now src noise token r ?s2 =
      enter now src token (blake2s256 (e_crypto env) noise) ses reply e d s3"
    using room e f by (simp add: admit_seat_def Let_def)
  moreover have "get_member ?s2 (tk_member_id token) = None" using j(2) f by (simp add: get_member_def)
  ultimately have "handle_datagram env now u src (build_handshake_init PROTOCOL_VERSION noise) s =
      enter now src token (blake2s256 (e_crypto env) noise) ses reply e d s3"
    using c b r j f
    by (simp add: handle_datagram_def admit_def admit_verified_def check_live_def Let_def)
  then show ?thesis using r(1) e(3) by blast
qed


lemma limiter_slot_less: "limiter_slot env s ip < REJECT_SLOTS"
proof -
  have "unat (x AND 255 :: u64) < 256" for x
  proof -
    have "x AND 255 = take_bit 8 x" by (simp add: take_bit_eq_mask mask_numeral)
    then have "unat (x AND 255) = take_bit 8 (unat x)" by (simp add: unsigned_take_bit_eq)
    then show ?thesis by (simp add: take_bit_eq_mod)
  qed
  then show ?thesis by (simp only: limiter_slot_def Let_def)
qed

text \<open>Fresh budgets pay.\<close>

lemma fresh_cookie: "\<exists>s1. cookie_required now (server_new env tail cfg) = (False, s1) \<and>
    sv_init_slot_budget s1 = sv_init_slot_budget (server_new env tail cfg) \<and>
    sv_init_budget s1 = sv_init_budget (server_new env tail cfg)"
  by (simp add: cookie_required_def server_new_def bucket_take_def bucket_refill_def bucket_new_def Let_def)

lemma fresh_budget:
  assumes "sv_init_slot_budget s = replicate REJECT_SLOTS (bucket_new INIT_SLOT_BURST INIT_SLOT_RATE_PER_SEC)"
    and "sv_init_budget s = bucket_new INIT_BURST INIT_RATE_PER_SEC"
  shows "\<exists>s1. init_budget_take env now src s = (True, s1) \<and> sv_bcast_encoder s1 = sv_bcast_encoder s"
  using assms limiter_slot_less [of env s "sock_ip src"]
  by (simp add: init_budget_take_def bucket_available_def bucket_take_def bucket_refill_def bucket_new_def Let_def)

lemma sample_host_reads:
  "\<exists>hp r. read_init sample_crypto sample_serde (replicate 32 5) (SessionId (replicate 16 2))
      PROTOCOL_VERSION (drop 3 (init_for 0 Musician)) = Ok (hp, r) \<and> hp_token hp = token_for 0 Musician \<and>
    verify_token sample_crypto sample_serde [1] (SessionId (replicate 16 2)) (replicate 32 5)
      (token_for 0 Musician) (hp_signature hp) 100 = Ok ()"
proof -
  have "case read_init sample_crypto sample_serde (replicate 32 5) (SessionId (replicate 16 2))
      PROTOCOL_VERSION (drop 3 (init_for 0 Musician)) of Inl _ \<Rightarrow> False
    | Inr (hp, r) \<Rightarrow> hp_token hp = token_for 0 Musician \<and>
        verify_token sample_crypto sample_serde [1] (SessionId (replicate 16 2)) (replicate 32 5)
          (token_for 0 Musician) (hp_signature hp) 100 = Ok ()"
    by code_simp
  then show ?thesis by (auto split: sum.splits prod.splits)
qed

lemma sample_admissible:
  "\<exists>reply. admissible sample_env 5 100 (addr_for 0) (drop 3 (init_for 0 Musician)) sample_core
     (token_for 0 Musician) reply"
proof -
  obtain s1 where s1: "cookie_required 5 sample_core = (False, s1)"
    "sv_init_slot_budget s1 = sv_init_slot_budget sample_core" "sv_init_budget s1 = sv_init_budget sample_core"
    unfolding sample_core_def using fresh_cookie by blast
  obtain s2 where s2: "init_budget_take sample_env 5 (addr_for 0) s1 = (True, s2)"
    using fresh_budget [of s1 sample_env 5 "addr_for 0"] s1(2,3)
    by (auto simp: sample_core_def server_new_def)
  obtain hp r where r: "read_init sample_crypto sample_serde (replicate 32 5) (SessionId (replicate 16 2))
      PROTOCOL_VERSION (drop 3 (init_for 0 Musician)) = Ok (hp, r)" "hp_token hp = token_for 0 Musician"
    "verify_token sample_crypto sample_serde [1] (SessionId (replicate 16 2)) (replicate 32 5)
      (token_for 0 Musician) (hp_signature hp) 100 = Ok ()"
    using sample_host_reads by blast
  have codecs: "\<exists>e d. member_codecs sample_env Musician = Ok (e, d)"
    by (simp add: member_codecs_def encoder_new_def decoder_new_def sample_env_def sample_opus_def Let_def)
  have resp: "\<exists>ses reply. responder_respond sample_crypto sample_serde r w = Ok (ses, reply)" for w
    by (simp add: responder_respond_def sample_crypto_def)
  have cfg: "sv_cfg sample_core = sample_cfg" "sv_revoked sample_core = {}" "sv_members sample_core = bm_empty"
    by (simp_all add: sample_core_def server_new_def)
  have env: "e_crypto sample_env = sample_crypto" "e_serde sample_env = sample_serde"
    by (simp_all add: sample_env_def)
  have cf: "cf_server_private sample_cfg = replicate 32 5" "cf_session_id sample_cfg = SessionId (replicate 16 2)"
    "cf_issuer_pk sample_cfg = [1]" "cf_server_public sample_cfg = replicate 32 5" "cf_max_musicians sample_cfg = 10"
    by (simp_all add: sample_cfg_def config_new_def)
  have room: "room_for (token_for 0 Musician) sample_core"
    by (simp add: room_for_def connected_in_role_def cfg cf token_for_def role_cap_def)
  have be: "\<exists>s3. broadcast_encoder sample_env Musician s = (True, s3)" for s
    by (simp add: broadcast_encoder_def)
  have role: "tk_role (token_for 0 Musician) = Musician" by (simp add: token_for_def)
  show ?thesis
    unfolding admissible_def Let_def env cfg cf role
    using s1(1) s2 r codecs resp be room by (auto simp: get_member_def cfg) blast
qed


section \<open>The session invariant\<close>


section \<open>Who gets in\<close>



section \<open>Revocation\<close>

definition holds :: "('ts, 'op) server_core \<Rightarrow> token_id \<Rightarrow> bool" where
  "holds s jti \<longleftrightarrow> (\<exists>who m. get_member s who = Some m \<and> mb_jti m = jti)"

lemma revoked_step:
  assumes inv: "server_inv s" and j: "jti \<in> sv_revoked s" "\<not> holds s jti"
  shows "jti \<in> sv_revoked (snd (server_step env s i)) \<and> \<not> holds (snd (server_step env s i)) jti"
proof -
  obtain out t where st: "server_step env s i = (out, t)" by fastforce
  have c: "core_inv s" "cap_ok s" using inv by (simp_all add: server_inv_def)
  from server_step_cases [OF c(1) st] have "jti \<in> sv_revoked t \<and> \<not> holds t jti"
  proof
    assume "keeps s t"
    then have e: "sv_revoked s \<subseteq> sv_revoked t"
      "\<And>who m'. get_member t who = Some m' \<Longrightarrow> \<exists>m. get_member s who = Some m \<and> mb_jti m' = mb_jti m"
      unfolding keeps_def evolves_def by blast+
    then show ?thesis using j unfolding holds_def by (metis subsetD)
  next
    assume "\<exists>now u src data token. i = Datagram now u src data \<and> admission env now u src token s out t"
    then obtain now u src token where a: "admission env now u src token s out t" by blast
    have "mb_jti m' \<noteq> jti" if "get_member t who = Some m'" for who m'
      using admission_effect(5) [OF a c that] j unfolding holds_def by metis
    then show ?thesis using admission_effect(4) [OF a c] j unfolding holds_def by blast
  qed
  then show ?thesis using st by simp
qed

lemma farewell_others:
  assumes "farewell env now who reason s = (out, t)"
  shows "get_member t i = Some m' \<Longrightarrow> \<exists>m. get_member s i = Some m \<and> mb_jti m' = mb_jti m"
    and "sv_revoked t = sv_revoked s"
proof -
  have k: "evolves s t" using keeps_farewell [OF assms keeps_refl] unfolding keeps_def by blast
  then show "get_member t i = Some m' \<Longrightarrow> \<exists>m. get_member s i = Some m \<and> mb_jti m' = mb_jti m"
    unfolding evolves_def by blast
  show "sv_revoked t = sv_revoked s"
    using assms by (auto simp: farewell_def split: option.splits prod.splits if_splits)
qed

lemma find_holder:
  "member_with_jti jti s = None \<longleftrightarrow> \<not> holds s jti"
  "member_with_jti jti s = Some who \<Longrightarrow> \<exists>m. get_member s who = Some m \<and> mb_jti m = jti"
  by (auto simp: member_with_jti_def holds_def get_member_def find_None_iff find_Some_iff bm_entries_iff
      dest!: nth_mem)

lemma note_count_fields [simp]:
  "sv_revoked (note_musician_count s) = sv_revoked s"
  "sv_members (note_musician_count s) = sv_members s"
  by (simp_all add: note_musician_count_def Let_def push_event_def)

lemma revoke_clears:
  assumes u: "\<And>a b m n. get_member s a = Some m \<Longrightarrow> get_member s b = Some n \<Longrightarrow>
      mb_jti m = jti \<Longrightarrow> mb_jti n = jti \<Longrightarrow> a = b"
    and r: "ctl_revoke env now HOST_MEMBER_ID jti s = (out, t)"
  shows "jti \<in> sv_revoked t \<and> \<not> holds t jti"
proof -
  let ?s1 = "if jti \<in> sv_revoked s then s
      else push_event (TokenRevoked jti) (s\<lparr>sv_revoked := insert jti (sv_revoked s)\<rparr>)"
  have s1: "jti \<in> sv_revoked ?s1" "sv_members ?s1 = sv_members s" by (simp_all add: push_event_def)
  have m1: "member_with_jti jti ?s1 = member_with_jti jti s" "holds ?s1 jti = holds s jti"
    by (simp_all add: member_with_jti_def holds_def get_member_def s1(2))
  show ?thesis
  proof (cases "member_with_jti jti s")
    case None
    then show ?thesis using r s1 m1 find_holder(1) [of jti s]
      by (simp add: ctl_revoke_def Let_def split: if_splits)
  next
    case (Some who)
    obtain o2 s2 where f: "farewell env now who (str ''invite revoked'') ?s1 = (o2, s2)" by fastforce
    have mem: "sv_members t = bm_remove who (sv_members s2)" "sv_revoked t = sv_revoked s2"
      using r Some m1 f unfolding ctl_revoke_def Let_def
      by (auto simp: queue_roster_def push_event_def split: if_splits)
    have "mb_jti m' \<noteq> jti" if g: "get_member t i = Some m'" for i m'
    proof
      assume "mb_jti m' = jti"
      moreover have "i \<noteq> who" "get_member s2 i = Some m'"
        using g mem by (auto simp: get_member_def split: if_splits)
      ultimately obtain m where "get_member s i = Some m" "mb_jti m = jti"
        using farewell_others(1) [OF f] s1(2) unfolding get_member_def by metis
      then show False using u find_holder(2) [OF Some] \<open>i \<noteq> who\<close> by blast
    qed
    then show ?thesis using mem farewell_others(2) [OF f] s1(1) unfolding holds_def by auto
  qed
qed

text \<open>C3. A revocation is final: once the host has revoked a token id (held by at most one member, as the
  issuer mints them), no member holds it, and whatever arrives afterwards, replays of the old
  handshake and fresh ones included, nobody is ever on the roster with it again.\<close>

theorem revocation_final:
  assumes inv: "server_inv s"
    and unique: "\<forall>a b m n. get_member s a = Some m \<longrightarrow> get_member s b = Some n \<longrightarrow>
      mb_jti m = jti \<longrightarrow> mb_jti n = jti \<longrightarrow> a = b"
    and revoke: "handle_control env now HOST_MEMBER_ID (Revoke jti) s = (out, t)"
  shows "\<not> holds (server_run env t inputs) jti \<and> jti \<in> sv_revoked (server_run env t inputs)"
proof -
  have r: "ctl_revoke env now HOST_MEMBER_ID jti s = (out, t)" using revoke by (simp add: handle_control_def)
  have "keeps s t" by (rule keeps_handle_control [OF revoke _ keeps_refl]) simp
  then have "server_inv t" using inv evolves_cap unfolding server_inv_def keeps_def by blast
  moreover have "jti \<in> sv_revoked t \<and> \<not> holds t jti" by (rule revoke_clears [OF _ r]) (use unique in blast)
  ultimately show ?thesis
  proof (induction inputs arbitrary: t)
    case Nil
    then show ?case by (simp add: server_run_def)
  next
    case (Cons i xs)
    then show ?case
      using revoked_step [of t jti env i] server_step_inv [of t env i] by (simp add: server_run_def)
  qed
qed

theorem revocation_final_witness:
  "\<not> holds (server_run sample_env (snd (handle_control sample_env 0 HOST_MEMBER_ID
      (Revoke (tk_jti (token_for 0 Musician))) sample_core)) [join 5 0 Musician]) (tk_jti (token_for 0 Musician))"
proof -
  have "server_inv sample_core" unfolding sample_core_def by (rule server_new_inv)
  moreover have "get_member sample_core a = None" for a
    by (simp add: sample_core_def server_new_def get_member_def)
  ultimately show ?thesis
    using revocation_final [of sample_core "tk_jti (token_for 0 Musician)" sample_env 0
        "fst (handle_control sample_env 0 HOST_MEMBER_ID (Revoke (tk_jti (token_for 0 Musician))) sample_core)"
        "snd (handle_control sample_env 0 HOST_MEMBER_ID (Revoke (tk_jti (token_for 0 Musician))) sample_core)"]
    by simp
qed

end
