(* ===== verification/ClientClaims.thy ===== *)
theory ClientClaims
  imports ClientFrame ServerClaims
begin

text \<open>
  The main properties of all runs of the client core: it never fails, what unauthenticated and replayed
  datagrams cannot do to it, the moves of its connection state, and the bound on what a flood of
  cookie challenges can make it send.
\<close>

section \<open>A concrete client\<close>

definition sample_client :: "(unit, unit, unit, nat) client_core" where
  "sample_client = (case connect sample_env [6] sample_invite 0 of Inr (c, _) \<Rightarrow> c)"

lemma sample_slip_lawful: "slip_lawful sample_slip (\<lambda>ch n. n = 120 * ch)"
  by (auto simp: slip_lawful_def sample_slip_good) (auto simp: sample_slip_def)

lemma sample_opus_bounded: "opus_bounded (e_opus sample_env)"
  by (auto simp: opus_bounded_def sample_env_def sample_opus_def)

lemma connect_fresh:
  "connect env priv i now = Ok (c, pkt) \<Longrightarrow> cc_session c = None \<and> cc_state c = Connecting \<and>
     cc_init_packet c = pkt \<and> cc_last_server_ms c = now \<and> \<not> cc_session_full c \<and> cc_cookie_answers c = bucket_new COOKIE_ANSWER_BURST COOKIE_ANSWER_PER_SEC"
  by (auto simp: connect_def split: sum.splits)

lemma sample_connects:
  "\<exists>pkt. connect sample_env [6] sample_invite 0 = Ok (sample_client, pkt)"
proof -
  have "\<exists>ini pkt. initiator_new sample_crypto sample_serde [6] sample_invite = Ok (ini, pkt)"
    by (simp add: initiator_new_def claiming_version_def Let_def sample_crypto_def)
  then obtain ini pkt where "initiator_new sample_crypto sample_serde [6] sample_invite = Ok (ini, pkt)" by blast
  then show ?thesis
    by (simp add: sample_client_def connect_def sample_env_def media_state_def encoder_new_def decoder_new_def
        sample_opus_def Let_def split: role.split)
qed

section \<open>It never fails\<close>



section \<open>Forged and replayed datagrams\<close>

text \<open>Whether a packet authenticates to this client, and is not one it already opened.\<close>

fun vouched :: "('hs, 'ts, 'op) env \<Rightarrow> ('hs, 'ts, 'op, 'sl) client_core \<Rightarrow> packet \<Rightarrow> bool" where
  "vouched env c (HandshakeResp noise) =
     (case cc_initiator c of None \<Rightarrow> False
      | Some ini \<Rightarrow> noise_read_resp (e_crypto env) (in_hs ini) noise \<noteq> None)"
| "vouched env c (VersionReject ours theirs mac) =
     (case cc_reject_key c of None \<Rightarrow> False
      | Some key \<Rightarrow> verify_version_reject (e_crypto env) key ours theirs mac (cc_init_packet c))"
| "vouched env c (CapacityReject mac) =
     (case cc_reject_key c of None \<Rightarrow> False
      | Some key \<Rightarrow> verify_capacity_reject (e_crypto env) key mac (cc_init_packet c))"
| "vouched env c (Transport _ counter x) =
     (case cc_session c of None \<Rightarrow> False
      | Some ses \<Rightarrow> transport_read (e_crypto env) (ss_ts ses) counter x \<noteq> None \<and>
          \<not> replay_refused (ss_replay ses) counter)"
| "vouched env c (CookieChallenge nonce sealed) =
     (open_cookie_challenge (e_crypto env) (cc_cookie_reply_key c) nonce sealed (cc_init_packet c) \<noteq> None)"
| "vouched env c _ = False"

lemma session_open_refused:
  assumes "\<not> (transport_read cr (ss_ts ses) n x \<noteq> None \<and> \<not> replay_refused (ss_replay ses) n)"
  shows "\<exists>e. session_open cr ses n x = (Err e, ses)"
proof (cases "transport_read cr (ss_ts ses) n x")
  case (Some m)
  then have "replay_refused (ss_replay ses) n" using assms by simp
  then have "replay_accept (ss_replay ses) n = (False, ss_replay ses)"
    using replay_accept_iff [of "ss_replay ses" n] replay_refused_unchanged [of "ss_replay ses" n]
    by (cases "replay_accept (ss_replay ses) n") simp
  then show ?thesis using Some by (simp add: session_open_def)
qed (simp add: session_open_def)

text \<open>C19. Forged and replayed datagrams are powerless: a datagram that does not authenticate (a handshake
  response the Noise state refuses, a reject whose MAC is not over our init, a transport packet that
  does not open, a challenge not sealed for our init), does not parse, or repeats a counter the replay
  window holds, leaves the client exactly as it was and draws no answer.\<close>

theorem forged_powerless:
  assumes "case parse data of Inl _ \<Rightarrow> True | Inr p \<Rightarrow> \<not> vouched env c p"
  shows "client_datagram env now data c = ([], c)"
proof (cases "parse data")
  case (Inr p)
  then have v: "\<not> vouched env c p" using assms by simp
  show ?thesis
  proof (cases p)
    case (HandshakeResp noise)
    then show ?thesis using Inr v
      by (auto simp: client_datagram_def on_handshake_resp_def initiator_finish_def
          split: option.splits client_state.split)
  next
    case (Transport m n x)
    show ?thesis
    proof (cases "cc_session c")
      case (Some ses)
      then obtain e where "session_open (e_crypto env) ses n x = (Err e, ses)"
        using v Transport session_open_refused [of "e_crypto env" ses n x] by auto
      then show ?thesis using Inr Transport Some by (simp add: client_datagram_def on_transport_def)
    qed (use Inr Transport in \<open>simp add: client_datagram_def on_transport_def\<close>)
  next
    case (VersionReject ours theirs mac)
    then show ?thesis using Inr v
      by (auto simp: client_datagram_def on_version_reject_def split: option.splits)
  next
    case (CapacityReject mac)
    then show ?thesis using Inr v
      by (auto simp: client_datagram_def on_capacity_reject_def split: option.splits)
  next
    case (CookieChallenge nonce sealed)
    then show ?thesis using Inr v by (simp add: client_datagram_def on_cookie_challenge_def)
  qed (use Inr in \<open>simp_all add: client_datagram_def\<close>)
qed (simp add: client_datagram_def)

theorem forged_powerless_witness:
  "client_datagram sample_env 5 (build_transport (MemberId 1) 7 [1, 2]) sample_client = ([], sample_client)"
proof -
  obtain pkt where "connect sample_env [6] sample_invite 0 = Ok (sample_client, pkt)"
    using sample_connects by blast
  then have "cc_session sample_client = None" using connect_fresh by blast
  moreover have "parse (build_transport (MemberId 1) 7 [1, 2]) = Ok (Transport (MemberId 1) 7 [1, 2])"
    using parse_packet_bytes [of "Transport (MemberId 1) 7 [1, 2]"] by simp
  ultimately show ?thesis by (intro forged_powerless) simp
qed

section \<open>The connection state\<close>

text \<open>The moves of a connection; only \<open>reconnect\<close> starts a new one.\<close>

inductive client_moves :: "client_state \<Rightarrow> client_state \<Rightarrow> bool" where
  stay: "client_moves st st"
| rejected: "client_moves Connecting (Rejected ours theirs)"
| joined: "client_moves Connecting Joined"
| joined_late: "client_moves (Rejected ours theirs) Joined"
| unanswered: "client_moves Connecting TimedOut"
| silent: "client_moves Joined TimedOut"
| ejected: "client_moves Joined (Ejected reason)"
| ejected_late: "client_moves TimedOut (Ejected reason)"
| ejected_again: "client_moves (Ejected reason') (Ejected reason)"

declare client_moves.intros [intro]

fun is_reconnect :: "client_input \<Rightarrow> bool" where
  "is_reconnect (InReconnect _ _) = True"
| "is_reconnect _ = False"

lemma byes_move:
  assumes "st = Joined \<or> st = TimedOut \<or> (\<exists>r. st = Ejected r)"
  shows "client_moves st (foldl said_bye st msgs)"
proof -
  have "foldl said_bye st msgs = st \<or> (\<exists>r. foldl said_bye st msgs = Ejected r)"
  proof (induction msgs rule: rev_induct)
    case (snoc msg msgs)
    then show ?case by (cases msg) auto
  qed simp
  then show ?thesis using assms by auto
qed

lemma plain_moves:
  assumes "on_plain env now plain c = (out, c')" "cc_state c = Joined \<or> cc_state c = TimedOut \<or> (\<exists>r. cc_state c = Ejected r)"
  shows "client_moves (cc_state c) (cc_state c')"
proof -
  have "cc_state c' = cc_state c \<or> (\<exists>msgs. cc_state c' = foldl said_bye (cc_state c) msgs)"
    using assms(1) by (auto simp: on_plain_def Let_def split: sum.splits prod.splits if_splits dest!: flush_frame(1))
  then show ?thesis using byes_move [OF assms(2)] by auto
qed

lemma transport_moves:
  assumes "on_transport env now n x c = (out, c')" "client_ok cr lib good c"
  shows "client_moves (cc_state c) (cc_state c')"
proof (cases "cc_session c")
  case None
  then show ?thesis using assms by (auto simp: on_transport_def)
next
  case (Some ses)
  then have "cc_state c = Joined \<or> cc_state c = TimedOut \<or> (\<exists>r. cc_state c = Ejected r)"
    using assms(2) by (auto simp: client_ok_defs split: client_state.splits)
  then show ?thesis
    using assms(1) Some by (auto simp: on_transport_def Let_def split: prod.splits sum.splits dest!: plain_moves)
qed

lemma resp_moves: "client_moves (cc_state c) (cc_state (on_handshake_resp env now noise c))"
proof -
  have "cc_state (enter_session now ses w c) = Joined" for ses w
    by (auto simp: enter_session_def Let_def split: option.split)
  then show ?thesis by (auto simp: on_handshake_resp_def split: option.split sum.split client_state.split)
qed

lemma datagram_moves:
  assumes "client_datagram env now data c = (out, c')" "client_ok cr lib good c"
  shows "client_moves (cc_state c) (cc_state c')"
  using assms resp_moves [of c env now]
  by (auto simp: client_datagram_def on_version_reject_def on_capacity_reject_def on_cookie_challenge_def Let_def
      elim!: transport_moves split: sum.splits packet.splits if_splits option.splits prod.splits)

lemma poll_moves:
  assumes "client_poll env now c = (out, c')"
  shows "client_moves (cc_state c) (cc_state c')"
proof -
  have "client_moves Joined (cc_state c')" if "poll_joined env now c = (out, c')" "cc_state c = Joined"
    using that by (auto simp: poll_joined_def Let_def split: if_splits prod.splits dest!: flush_frame(1))
  then show ?thesis using assms
    by (auto simp: client_poll_def poll_connecting_def poll_rejected_def Let_def
        split: client_state.splits if_splits)
qed

lemma step_moves:
  assumes "client_step env lib i c = Some (out, pcm, c')" "client_ok cr lib good c" "\<not> is_reconnect i"
  shows "client_moves (cc_state c) (cc_state c')"
proof -
  have "cc_state c' = cc_state c" if "\<And>now data. i \<noteq> InDatagram now data" "\<And>now. i \<noteq> InPoll now"
    using assms that
    by (cases i) (auto simp: sends_def quiet_def client_events_def send_chat_def set_broadcast_audition_def
        stream_ctl_def record_ctl_def set_click_def set_hear_self_def revoke_def leave_def
        split: Option.bind_splits prod.splits
        dest!: capture_frame capture_raw_frame playout_frame_props playout_raw_frame
        simp: joined_frame [OF prod.collapse [symmetric]] call_frame [OF prod.collapse [symmetric]])
  then show ?thesis
    using assms by (cases i) (auto simp: sends_def intro: datagram_moves [OF prod.collapse [symmetric]]
        poll_moves [OF prod.collapse [symmetric]])
qed

lemma run_moves:
  assumes "client_ok (e_crypto env) lib good c" "slip_lawful lib good" "opus_bounded (e_opus env)"
    and "client_run env lib is c = Some (outs, c')" "list_all (\<lambda>i. \<not> is_reconnect i) is"
  shows "client_moves\<^sup>*\<^sup>* (cc_state c) (cc_state c')"
  using assms(1,4,5)
proof (induction "is" arbitrary: c outs)
  case Nil
  then show ?case by simp
next
  case (Cons i rest)
  obtain out pcm c1 where st: "client_step env lib i c = Some (out, pcm, c1)"
    "client_ok (e_crypto env) lib good c1"
    using client_step_total [OF Cons.prems(1) assms(2,3), of i] by blast
  then obtain outs' where "client_run env lib rest c1 = Some (outs', c')"
    using Cons.prems(2) by (auto split: Option.bind_splits)
  then have "client_moves\<^sup>*\<^sup>* (cc_state c1) (cc_state c')" using Cons st(2) by simp
  moreover have "client_moves (cc_state c) (cc_state c1)"
    using step_moves [OF st(1) Cons.prems(1)] Cons.prems(3) by simp
  ultimately show ?case by (rule converse_rtranclp_into_rtranclp [rotated])
qed

text \<open>How far a connection has come.\<close>

fun phase_of :: "client_state \<Rightarrow> nat" where
  "phase_of Connecting = 0"
| "phase_of (Rejected _ _) = 1"
| "phase_of Joined = 2"
| "phase_of TimedOut = 3"
| "phase_of (Ejected _) = 4"

lemma moves_phase: "client_moves\<^sup>*\<^sup>* st st' \<Longrightarrow> phase_of st \<le> phase_of st'"
proof (induction rule: rtranclp_induct)
  case (step a b)
  from step.hyps(2) have "phase_of a \<le> phase_of b" by cases simp_all
  then show ?case using step.IH by simp
qed simp

text \<open>A connection only moves forward: between any two moments of a run without a \<open>reconnect\<close> in
  between, whatever came before, the connection state has moved along the edges of \<open>client_moves\<close>: a
  client that timed out or was ejected never joins again, one that joined is never connecting or rejected
  again, and only an ejection follows an ejection.\<close>

theorem client_lifecycle:
  assumes "connect env priv i now = Ok (c, pkt)" "slip_lawful lib good" "opus_bounded (e_opus env)"
    and "client_run env lib before c = Some (outs1, c1)" "client_run env lib after c1 = Some (outs2, c2)"
    and "list_all (\<lambda>i. \<not> is_reconnect i) after"
  shows "client_moves\<^sup>*\<^sup>* (cc_state c1) (cc_state c2) \<and>
    (case cc_state c1 of
       TimedOut \<Rightarrow> cc_state c2 \<noteq> Joined \<and> cc_state c2 \<noteq> Connecting
     | Ejected _ \<Rightarrow> \<exists>reason. cc_state c2 = Ejected reason
     | Joined \<Rightarrow> cc_state c2 \<noteq> Connecting \<and> (\<forall>ours theirs. cc_state c2 \<noteq> Rejected ours theirs)
     | _ \<Rightarrow> True)"
proof
  have ok: "client_ok (e_crypto env) lib good c1"
    using client_run_total [OF connect_ok [OF assms(1)] assms(2,3), of before] assms(4) by auto
  show moves: "client_moves\<^sup>*\<^sup>* (cc_state c1) (cc_state c2)"
    by (rule run_moves [OF ok assms(2,3,5,6)])
  show "case cc_state c1 of
       TimedOut \<Rightarrow> cc_state c2 \<noteq> Joined \<and> cc_state c2 \<noteq> Connecting
     | Ejected _ \<Rightarrow> \<exists>reason. cc_state c2 = Ejected reason
     | Joined \<Rightarrow> cc_state c2 \<noteq> Connecting \<and> (\<forall>ours theirs. cc_state c2 \<noteq> Rejected ours theirs)
     | _ \<Rightarrow> True"
    using moves_phase [OF moves] by (cases "cc_state c1"; cases "cc_state c2") auto
qed

theorem client_lifecycle_witness:
  "\<exists>outs1 c1 outs2 c2. client_run sample_env sample_slip [InPoll 10000] sample_client = Some (outs1, c1) \<and>
     cc_state c1 = TimedOut \<and>
     client_run sample_env sample_slip [InDatagram 10001 [2, 0], InPoll 10500] c1 = Some (outs2, c2) \<and>
     cc_state c2 \<noteq> Joined"
proof -
  obtain pkt where c: "connect sample_env [6] sample_invite 0 = Ok (sample_client, pkt)"
    using sample_connects by blast
  obtain outs1 c1 where r1: "client_run sample_env sample_slip [InPoll 10000] sample_client = Some (outs1, c1)"
    and ok: "client_ok (e_crypto sample_env) sample_slip (\<lambda>ch n. n = 120 * ch) c1"
    using client_run_total [OF connect_ok [OF c] sample_slip_lawful sample_opus_bounded, of "[InPoll 10000]"] by auto
  then have t: "cc_state c1 = TimedOut"
    using connect_fresh [OF c] by (auto simp: sends_def client_poll_def poll_connecting_def)
  obtain outs2 c2 where
    r2: "client_run sample_env sample_slip [InDatagram 10001 [2, 0], InPoll 10500] c1 = Some (outs2, c2)"
    using client_run_total [OF ok sample_slip_lawful sample_opus_bounded] by meson
  have "cc_state c2 \<noteq> Joined"
    using client_lifecycle [OF c sample_slip_lawful sample_opus_bounded r1 r2] t by simp
  then show ?thesis using r1 t r2 by blast
qed

section \<open>Cookie challenges\<close>

text \<open>The packets a run sends in answer to cookie challenges.\<close>

fun answers_of :: "client_input \<Rightarrow> bytes list \<Rightarrow> nat" where
  "answers_of (InDatagram now data) out =
     (case parse data of Inr (CookieChallenge _ _) \<Rightarrow> length out | _ \<Rightarrow> 0)"
| "answers_of _ out = 0"

fun arrives_by :: "nat \<Rightarrow> client_input \<Rightarrow> bool" where
  "arrives_by h (InDatagram now data) = (now \<le> h)"
| "arrives_by h _ = True"

definition challenge_answers :: "client_input list \<Rightarrow> (bytes list \<times> f32 list) list \<Rightarrow> nat" where
  "challenge_answers inputs outs = sum_list (map2 (\<lambda>i (out, _). answers_of i out) inputs outs)"

lemma challenge_cost:
  assumes "on_cookie_challenge env now nonce sealed c = (out, c')" "now \<le> h"
  shows "length out + 2 * bucket_allowance (cc_cookie_answers c') h \<le> 2 * bucket_allowance (cc_cookie_answers c) h"
proof -
  obtain paid b where p: "bucket_take (cc_cookie_answers c) now = (paid, b)" by fastforce
  have "bucket_allowance b h \<le> bucket_allowance (cc_cookie_answers c) h"
    "paid \<Longrightarrow> bucket_allowance b h + 1 \<le> bucket_allowance (cc_cookie_answers c) h"
    using bucket.spend_refuse [where b = "cc_cookie_answers c" and t = now and h = h]
      bucket.spend_grant [where b = "cc_cookie_answers c" and t = now and h = h]
      p assms(2) by simp_all
  then show ?thesis
    using assms(1) p by (auto simp: on_cookie_challenge_def Let_def
        split: if_splits option.splits sum.splits packet.splits)
qed

lemma plain_cookie: "on_plain env now plain c = (out, c') \<Longrightarrow> cc_cookie_answers c' = cc_cookie_answers c"
  by (auto simp: on_plain_def Let_def split: sum.splits prod.splits if_splits dest!: flush_frame(2))

lemma transport_cookie: "on_transport env now n x c = (out, c') \<Longrightarrow> cc_cookie_answers c' = cc_cookie_answers c"
  by (auto simp: on_transport_def Let_def split: option.splits sum.splits prod.splits dest!: plain_cookie)

lemma resp_cookie: "cc_cookie_answers (on_handshake_resp env now noise c) = cc_cookie_answers c"
  by (auto simp: on_handshake_resp_def enter_session_def Let_def split: option.split sum.split)

lemma datagram_cost:
  assumes "client_datagram env now data c = (out, c')" "now \<le> h"
  shows "answers_of (InDatagram now data) out + 2 * bucket_allowance (cc_cookie_answers c') h \<le>
    2 * bucket_allowance (cc_cookie_answers c) h"
  using assms challenge_cost [of env now _ _ c out c' h]
  by (auto simp: client_datagram_def on_version_reject_def on_capacity_reject_def resp_cookie
      dest!: transport_cookie split: sum.splits packet.splits)

lemma step_cost:
  assumes "client_step env lib i c = Some (out, pcm, c')" "arrives_by h i"
  shows "answers_of i out + 2 * bucket_allowance (cc_cookie_answers c') h \<le>
    2 * bucket_allowance (cc_cookie_answers c) h"
proof (cases "\<exists>now data. i = InDatagram now data")
  case True
  then show ?thesis using assms by (auto simp: sends_def datagram_cost [OF prod.collapse [symmetric]] simp del: answers_of.simps)
next
  case False
  then have "cc_cookie_answers c' = cc_cookie_answers c" "answers_of i out = 0"
    using assms
    by (cases i; auto simp: sends_def quiet_def client_events_def send_chat_def set_broadcast_audition_def
        stream_ctl_def record_ctl_def set_click_def set_hear_self_def revoke_def leave_def reconnect_def
        split: Option.bind_splits prod.splits sum.splits
        dest!: capture_frame capture_raw_frame playout_frame_props playout_raw_frame
        simp: joined_frame [OF prod.collapse [symmetric]] call_frame [OF prod.collapse [symmetric]]
          poll_cookie_frame [OF prod.collapse [symmetric]])+
  then show ?thesis by simp
qed

lemma run_cost:
  "client_run env lib is c = Some (outs, c') \<Longrightarrow> list_all (arrives_by h) is \<Longrightarrow>
   challenge_answers is outs + 2 * bucket_allowance (cc_cookie_answers c') h \<le>
   2 * bucket_allowance (cc_cookie_answers c) h"
proof (induction "is" arbitrary: c outs)
  case Nil
  then show ?case by (simp add: challenge_answers_def)
next
  case (Cons i rest)
  then obtain out pcm c1 outs' where r: "client_step env lib i c = Some (out, pcm, c1)"
    "client_run env lib rest c1 = Some (outs', c')" "outs = (out, pcm) # outs'"
    by (auto split: Option.bind_splits)
  then show ?case
    using Cons.IH [OF r(2)] Cons.prems(2) step_cost [OF r(1), of h] by (simp add: challenge_answers_def)
qed

text \<open>A flood of cookie challenges draws a bounded number of answers: over any run from a connect,
  reconnects included, the packets the client sends in answer to challenges that arrived by time \<open>h\<close>
  number at most two for each of a burst of four and one more per second.\<close>

theorem cookie_answers_bounded:
  assumes "connect env priv i now = Ok (c, pkt)" "client_run env lib inputs c = Some (outs, c')"
    and "list_all (arrives_by h) inputs"
  shows "challenge_answers inputs outs \<le> 2 * (4 + h div 1000)"
proof -
  have "bucket_allowance (cc_cookie_answers c) h = 4 + h div 1000"
    using connect_fresh [OF assms(1)] by (simp add: bucket_allowance_def millis_left_def bucket_new_def)
  then show ?thesis using run_cost [OF assms(2,3)] by simp
qed

theorem cookie_answers_bounded_witness:
  "\<exists>outs c'. client_run sample_env sample_slip [InPoll 600, InDatagram 700 [5, 1], InPoll 1100] sample_client =
     Some (outs, c') \<and> challenge_answers [InPoll 600, InDatagram 700 [5, 1], InPoll 1100] outs \<le> 2 * (4 + 700 div 1000)"
proof -
  let ?is = "[InPoll 600, InDatagram 700 [5, 1], InPoll 1100]"
  obtain pkt where c: "connect sample_env [6] sample_invite 0 = Ok (sample_client, pkt)"
    using sample_connects by blast
  obtain outs c' where r: "client_run sample_env sample_slip ?is sample_client = Some (outs, c')"
    using client_run_total [OF connect_ok [OF c] sample_slip_lawful sample_opus_bounded, of ?is] by blast
  have "challenge_answers ?is outs \<le> 2 * (4 + 700 div 1000)"
    by (rule cookie_answers_bounded [OF c r]) simp
  then show ?thesis using r by blast
qed

section \<open>A full session and a version reject\<close>

text \<open>A client told that its role is full and then that its version is refused goes on saying that the
  session is full, although it no longer is connecting.\<close>

lemma full_while_rejected:
  assumes "cc_state c = Connecting" "cc_session_full c" "cc_reject_key c = Some key"
    and "verify_version_reject (e_crypto env) key ours theirs mac (cc_init_packet c)"
  shows "cc_session_full (on_version_reject env now ours theirs mac c) \<and>
    cc_state (on_version_reject env now ours theirs mac c) \<noteq> Connecting"
  using assms by (simp add: on_version_reject_def client_event_push_def)

end
