(* ===== verification/JoinClaims.thy ===== *)
theory JoinClaims
  imports ClientClaims
begin

text \<open>
  The two cores together: a client and a server, the packets of one the input of the other.  A client
  that connects with an invite of the session is admitted by the first packet it sends and joined by
  the first packet it gets back, and from then on the audio it captures reaches its seat's jitter
  buffer, in order and once.
\<close>

section \<open>The join\<close>

text \<open>What the code relies on: a handshake whose last message was read is ready for transport.\<close>

definition noise_completes :: "('hs, 'ts) crypto \<Rightarrow> bool" where
  "noise_completes cr \<longleftrightarrow>
     (\<forall>hs msg payload hs'. noise_read_resp cr hs msg = Some (payload, hs') \<longrightarrow> noise_into_transport cr hs' \<noteq> None)"

text \<open>
  The client holds a session with a seat of the server: both know the same member, and each opens what
  the other seals, with every counter from the next one on still fresh.
\<close>

definition fresh_from :: "replay_window \<Rightarrow> u64 \<Rightarrow> bool" where
  "fresh_from w n \<longleftrightarrow> (rw_any w \<longrightarrow> rw_highest w < n)"

definition seated ::
  "('hs, 'ts, 'op) env \<Rightarrow> ('hs, 'ts, 'op, 'sl) client_core \<Rightarrow> ('ts, 'op) server_core \<Rightarrow> member_id \<Rightarrow> bool" where
  "seated env c s who \<longleftrightarrow>
     cc_state c = Joined \<and> client_member_id c = Some who \<and>
     (case (get_member s who, cc_session c) of
        (Some m, Some cs) \<Rightarrow> mb_connected m \<and>
          (case mb_session m of None \<Rightarrow> False
           | Some ms \<Rightarrow> delivers (e_crypto env) cs ms \<and> delivers (e_crypto env) ms cs \<and>
               fresh_from (ss_replay ms) (ss_send_counter cs))
      | _ \<Rightarrow> False)"

definition is_musician :: "('ts, 'op) server_core \<Rightarrow> member_id \<Rightarrow> bool" where
  "is_musician s who \<longleftrightarrow> map_option mb_role (get_member s who) = Some Musician"

lemma fresh_new [simp]: "fresh_from replay_new n"
  by (simp add: fresh_from_def replay_new_def)

lemma enter_session_props:
  "cc_state (enter_session now ses w c) = Joined" "cc_welcome (enter_session now ses w c) = Some w"
  "cc_session (enter_session now ses w c) = Some ses" "cc_encoder (enter_session now ses w c) = cc_encoder c"
  "cc_frames_sent (enter_session now ses w c) = cc_frames_sent c"
  "cc_prev_payload (enter_session now ses w c) = cc_prev_payload c"
  "cc_redundancy (enter_session now ses w c) = cc_redundancy c"
  by (simp_all add: enter_session_def client_event_push_def client_send_def Let_def split: option.split)

lemma responder_session: "responder_respond cr sd r w = Ok (ses, reply) \<Longrightarrow> \<exists>ts. ses = session_new ts"
  by (auto simp: responder_respond_def split: option.splits)

lemma join_seats:
  fixes c :: "('hs, 'ts, 'op, 'sl) client_core"
  assumes laws: "noise_ik (e_crypto env)" "noise_completes (e_crypto env)" "serde_ok (e_serde env)"
    and inv: "invite_ok i" "iv_server_pk i = x25519_public (e_crypto env) (cf_server_private (sv_cfg s))"
      "iv_session_id i = cf_session_id (sv_cfg s)" "length (x25519_public (e_crypto env) priv) = 32"
    and conn: "connect env priv i t0 = Ok (c, pkt)"
    and adm: "pkt = build_handshake_init PROTOCOL_VERSION noise"
      "admissible env now u src noise s (iv_token i) reply"
  shows "case server_step env s (Datagram now u src pkt) of (out, s') \<Rightarrow>
    out = [(src, reply)] \<and>
    (case client_datagram env t1 reply c of (sent, c') \<Rightarrow>
       sent = [] \<and> seated env c' s' (tk_member_id (iv_token i)) \<and>
       map_option wl_sample_clock (cc_welcome c') = Some (of_nat (sv_sample_clock s)) \<and>
       is_musician s' (tk_member_id (iv_token i)) = (tk_role (iv_token i) = Musician) \<and>
       cc_encoder c' = cc_encoder c \<and> cc_frames_sent c' = 0 \<and> cc_prev_payload c' = None \<and>
       \<not> rp_active (cc_redundancy c') \<and> map_option ss_send_counter (cc_session c') = Some 0)"
proof -
  let ?cr = "e_crypto env" and ?sd = "e_serde env"
  let ?w = "\<lparr>wl_member_id = tk_member_id (iv_token i), wl_sample_clock = of_nat (sv_sample_clock s)\<rparr>"
  obtain ini where ini: "initiator_new ?cr ?sd priv i = Ok (ini, pkt)" "cc_initiator c = Some ini"
    "cc_state c = Connecting" "cc_frames_sent c = 0" "cc_prev_payload c = None" "\<not> rp_active (cc_redundancy c)"
    using conn by (auto simp: connect_def policy_new_def split: sum.splits)
  obtain noise' r where g: "pkt = build_handshake_init PROTOCOL_VERSION noise'"
    "read_init ?cr ?sd (cf_server_private (sv_cfg s)) (iv_session_id i) PROTOCOL_VERSION noise' =
      Ok (\<lparr>hp_token = iv_token i, hp_signature = iv_signature i\<rparr>, r)"
    and answer: "\<And>w srv resp. responder_respond ?cr ?sd r w = Ok (srv, resp) \<Longrightarrow>
      \<exists>noise2 hi. resp = build_handshake_resp noise2 \<and>
        noise_read_resp ?cr (in_hs ini) noise2 = Some (welcome_bytes ?sd w, hi) \<and>
        (\<forall>ti. noise_into_transport ?cr hi = Some ti \<longrightarrow>
           delivers ?cr (session_new ti) srv \<and> delivers ?cr srv (session_new ti))"
    using genuine_handshake [OF laws(1,3) inv(1,2,4) ini(1)] by blast
  have "noise' = noise"
    using parse_packet_bytes [of "HandshakeInit PROTOCOL_VERSION noise'"]
      parse_packet_bytes [of "HandshakeInit PROTOCOL_VERSION noise"] g(1) adm(1) by simp
  then obtain h ses e d s3 where ent:
    "responder_respond ?cr ?sd r ?w = Ok (ses, reply)"
    "server_step env s (Datagram now u src pkt) = enter now src (iv_token i) h ses reply e d s3"
    using admissible_enters [OF adm(2)] adm(1) g(2) inv(3) by auto
  obtain noise2 hi where n: "reply = build_handshake_resp noise2"
    "noise_read_resp ?cr (in_hs ini) noise2 = Some (welcome_bytes ?sd ?w, hi)"
    and del: "\<And>ti. noise_into_transport ?cr hi = Some ti \<Longrightarrow>
      delivers ?cr (session_new ti) ses \<and> delivers ?cr ses (session_new ti)"
    using answer [OF ent(1)] by blast
  obtain ti where ti: "noise_into_transport ?cr hi = Some ti"
    using laws(2) n(2) unfolding noise_completes_def by blast
  have "initiator_finish ?cr ?sd ini noise2 = Ok (session_new ti, ?w)"
    using n(2) ti read_welcome_bytes [OF laws(3), of ?w] by (simp add: initiator_finish_def)
  then have fin: "client_datagram env t1 reply c = ([], enter_session t1 (session_new ti) ?w c)"
    using parse_packet_bytes [of "HandshakeResp noise2"] ini
    by (simp add: client_datagram_def on_handshake_resp_def n(1))
  obtain out s' where st: "server_step env s (Datagram now u src pkt) = (out, s')" by fastforce
  obtain m where m: "out = [(src, reply)]" "get_member s' (tk_member_id (iv_token i)) = Some m"
    "mb_connected m" "mb_session m = Some ses" "mb_role m = tk_role (iv_token i)"
    using enter_seats [of now src "iv_token i" h ses reply e d s3 out s'] ent(2) st by auto
  obtain ts where "ses = session_new ts" using responder_session [OF ent(1)] by blast
  then have "fresh_from (ss_replay ses) n" for n by (simp add: session_new_def)
  then show ?thesis
    using st fin m del [OF ti] ini(4-6)
    by (simp add: seated_def client_member_id_def is_musician_def enter_session_props) (simp add: session_new_def)
qed

text \<open>The encoder's output for a run of frames; \<open>None\<close> when one is refused.\<close>

fun encoded :: "'op opus \<Rightarrow> 'op encoder \<Rightarrow> f32 list list \<Rightarrow> bytes list option" where
  "encoded lib enc [] = Some []"
| "encoded lib enc (pcm # pcms) =
     (case encoder_encode lib enc pcm of
        (Inl _, _) \<Rightarrow> None
      | (Inr p, enc1) \<Rightarrow> map_option ((#) p) (encoded lib enc1 pcms))"

text \<open>A concrete pair: the client of a host's invite, and the fresh core of \<open>ServerSafety\<close>.\<close>

definition host_invite :: invite where
  "host_invite = mint sample_crypto sample_serde [1] (SessionId (replicate 16 2)) [] (replicate 32 5)
     (token_for 0 Musician)"

lemma sample_laws: "noise_ik (e_crypto sample_env)" "noise_completes (e_crypto sample_env)" "serde_ok (e_serde sample_env)"
  by (simp_all add: sample_env_def sample_noise sample_serde_ok) (simp add: noise_completes_def sample_crypto_def)

lemma host_invite_ok:
  "invite_ok host_invite"
  "iv_server_pk host_invite = x25519_public (e_crypto sample_env) (cf_server_private (sv_cfg sample_core))"
  "iv_session_id host_invite = cf_session_id (sv_cfg sample_core)"
  "length (x25519_public (e_crypto sample_env) [6]) = 32"
  "iv_token host_invite = token_for 0 Musician"
  by (simp_all add: host_invite_def mint_def Let_def invite_ok_def token_ok_def token_for_def sample_crypto_def
      sample_env_def sample_core_def server_new_def sample_cfg_def config_new_def)

lemma sample_codec:
  "\<exists>d. decoder_new sample_opus Stereo Ms2_5 = Ok d"
  "\<exists>enc. encoder_new sample_opus Mono Ms2_5 (uplink_bitrate Mono) = Ok enc \<and>
     encoder_encode sample_opus enc (replicate 120 0) = (Ok [1, 2], enc)"
  by (simp_all add: encoder_new_def decoder_new_def encoder_encode_def sample_opus_def channel_count_def Let_def)

lemma host_connects:
  "\<exists>c noise reply enc. connect sample_env [6] host_invite 0 = Ok (c, build_handshake_init PROTOCOL_VERSION noise) \<and>
     admissible sample_env 5 100 (addr_for 0) noise sample_core (iv_token host_invite) reply \<and>
     cc_encoder c = Some enc \<and> encoded (e_opus sample_env) enc [replicate 120 0] = Some [[1, 2]]"
proof -
  have env: "e_crypto sample_env = sample_crypto" "e_serde sample_env = sample_serde" "e_opus sample_env = sample_opus"
    by (simp_all add: sample_env_def)
  obtain ini noise where i: "initiator_new sample_crypto sample_serde [6] host_invite =
      Ok (ini, build_handshake_init PROTOCOL_VERSION noise)"
    by (simp add: initiator_new_def claiming_version_def Let_def sample_crypto_def)
  then have "init_for 0 Musician = build_handshake_init PROTOCOL_VERSION noise"
    by (simp add: init_for_def host_invite_def)
  then have "drop 3 (init_for 0 Musician) = noise" by (simp add: build_handshake_init_def)
  then obtain reply where "admissible sample_env 5 100 (addr_for 0) noise sample_core (iv_token host_invite) reply"
    using sample_admissible host_invite_ok(5) by auto
  moreover have "tk_role (iv_token host_invite) = Musician" by (simp add: host_invite_ok token_for_def)
  moreover obtain d enc where "decoder_new sample_opus Stereo Ms2_5 = Ok d"
    "encoder_new sample_opus Mono Ms2_5 (uplink_bitrate Mono) = Ok enc"
    "encoder_encode sample_opus enc (replicate 120 0) = (Ok [1, 2], enc)"
    using sample_codec by blast
  ultimately show ?thesis using i by (simp add: connect_def env media_state_def) blast
qed

text \<open>C5. A client with an invite of the session joins in one round trip: the init its \<open>connect\<close> made, when
  the server admits it, is answered by one packet to where it came from; that packet makes the client
  \<open>Joined\<close>, as the member its token names and with the server's sample clock; and the seat the server
  holds and the session the client holds open each other's packets.\<close>

theorem join_end_to_end:
  fixes c :: "('hs, 'ts, 'op, 'sl) client_core"
  assumes laws: "noise_ik (e_crypto env)" "noise_completes (e_crypto env)" "serde_ok (e_serde env)"
    and inv: "invite_ok i" "iv_server_pk i = x25519_public (e_crypto env) (cf_server_private (sv_cfg s))"
      "iv_session_id i = cf_session_id (sv_cfg s)" "length (x25519_public (e_crypto env) priv) = 32"
    and conn: "connect env priv i t0 = Ok (c, pkt)"
    and adm: "pkt = build_handshake_init PROTOCOL_VERSION noise"
      "admissible env now u src noise s (iv_token i) reply"
  shows "case server_step env s (Datagram now u src pkt) of (out, s') \<Rightarrow>
    out = [(src, reply)] \<and>
    (case client_datagram env t1 reply c of (sent, c') \<Rightarrow>
       sent = [] \<and> seated env c' s' (tk_member_id (iv_token i)) \<and>
       map_option wl_sample_clock (cc_welcome c') = Some (of_nat (sv_sample_clock s)) \<and>
       is_musician s' (tk_member_id (iv_token i)) = (tk_role (iv_token i) = Musician) \<and>
       cc_encoder c' = cc_encoder c \<and> cc_frames_sent c' = 0 \<and> cc_prev_payload c' = None \<and>
       \<not> rp_active (cc_redundancy c') \<and> map_option ss_send_counter (cc_session c') = Some 0)"
  by (rule join_seats [OF assms])

theorem join_end_to_end_witness:
  "\<exists>(c :: (unit, unit, unit, nat) client_core) pkt reply s' c'.
     connect sample_env [6] host_invite 0 = Ok (c, pkt) \<and>
     server_step sample_env sample_core (Datagram 5 100 (addr_for 0) pkt) = ([(addr_for 0, reply)], s') \<and>
     client_datagram sample_env 9 reply c = ([], c') \<and> cc_state c' = Joined"
proof -
  obtain c :: "(unit, unit, unit, nat) client_core" and noise reply where
    h: "connect sample_env [6] host_invite 0 = Ok (c, build_handshake_init PROTOCOL_VERSION noise)"
      "admissible sample_env 5 100 (addr_for 0) noise sample_core (iv_token host_invite) reply"
    using host_connects by blast
  show ?thesis
    using join_end_to_end [OF sample_laws host_invite_ok(1-4) h(1) refl h(2), of 9] h(1)
    by (auto simp: seated_def split: prod.splits)
qed

section \<open>The uplink\<close>

text \<open>What the code relies on: a frame well under the cipher's limit is never refused.\<close>

definition writes_frames :: "('hs, 'ts) crypto \<Rightarrow> bool" where
  "writes_frames cr \<longleftrightarrow> (\<forall>ts n p. length p \<le> 65519 \<longrightarrow> transport_write cr ts n p \<noteq> None)"

lemma fresh_accepts:
  assumes "fresh_from w n"
  shows "\<not> replay_refused w n" "unat n + 1 < 2 ^ 64 \<Longrightarrow> fresh_from (snd (replay_accept w n)) (n + 1)"
proof -
  have lt: "rw_any w \<Longrightarrow> rw_highest w < n" using assms by (simp add: fresh_from_def)
  then show "\<not> replay_refused w n"
    by (auto simp: replay_refused_def seen_set_def word_less_nat_alt)
  assume "unat n + 1 < 2 ^ 64"
  then have "unat (n + 1) = unat n + 1" by (simp add: unat_word_ariths)
  then have "n < n + 1" by (simp add: word_less_nat_alt)
  then show "fresh_from (snd (replay_accept w n)) (n + 1)"
    using lt by (auto simp: fresh_from_def replay_accept_def Let_def)
qed

text \<open>The media packet the server files for a captured frame.\<close>

definition uplink_packet :: "bool \<Rightarrow> u64 \<Rightarrow> nat \<Rightarrow> bytes option \<Rightarrow> bytes \<Rightarrow> media_packet" where
  "uplink_packet redundant clock k prev payload =
     \<lparr>mp_seq = k mod 2 ^ 32, mp_timestamp = unat (clock + of_nat k * 120), mp_payload = payload,
      mp_redundant = (if redundant then prev else None)\<rparr>"

fun uplink_packets :: "bool \<Rightarrow> u64 \<Rightarrow> nat \<Rightarrow> bytes option \<Rightarrow> bytes list \<Rightarrow> media_packet list" where
  "uplink_packets redundant clock k prev [] = []"
| "uplink_packets redundant clock k prev (p # ps) =
     uplink_packet redundant clock k prev p # uplink_packets redundant clock (k + 1) (Some p) ps"

text \<open>Each captured frame's packets reach the server as they are sent.\<close>

definition deliver_all ::
  "('hs, 'ts, 'op) env \<Rightarrow> nat \<Rightarrow> nat \<Rightarrow> sock_addr \<Rightarrow> bytes list \<Rightarrow> ('ts, 'op) server_core \<Rightarrow> ('ts, 'op) server_core" where
  "deliver_all env now u src dgs s = foldl (\<lambda>s dg. snd (server_step env s (Datagram now u src dg))) s dgs"

fun uplink_run ::
  "('hs, 'ts, 'op) env \<Rightarrow> nat \<Rightarrow> nat \<Rightarrow> sock_addr \<Rightarrow> f32 list list \<Rightarrow> ('hs, 'ts, 'op, 'sl) client_core \<Rightarrow>
     ('ts, 'op) server_core \<Rightarrow> (('hs, 'ts, 'op, 'sl) client_core \<times> ('ts, 'op) server_core) option" where
  "uplink_run env now u src [] c s = Some (c, s)"
| "uplink_run env now u src (pcm # pcms) c s =
     Option.bind (push_capture env pcm c)
       (\<lambda>(out, c1). uplink_run env now u src pcms c1 (deliver_all env now u src out s))"

definition heard_member :: "nat \<Rightarrow> sock_addr \<Rightarrow> 'ts session \<Rightarrow> media_packet \<Rightarrow> ('ts, 'op) member \<Rightarrow> ('ts, 'op) member" where
  "heard_member now src ses p m =
     m\<lparr>mb_session := Some ses, mb_addr := Some src, mb_last_heard_ms := now, mb_jitter := jitter_push (mb_jitter m) p\<rparr>"

lemma server_hears:
  assumes "get_member s who = Some m" "mb_connected m" "mb_role m = Musician" "mb_session m = Some ms"
    and "session_open (e_crypto env) ms n x = (Ok (media_bytes f), ms1)" "media_fits f"
  shows "server_step env s (Datagram now u src (build_transport who n x)) =
    ([], upd_member who (\<lambda>_. heard_member now src ms1
      \<lparr>mp_seq = unat (mf_seq f), mp_timestamp = unat (mf_timestamp f),
       mp_payload = mf_payload f, mp_redundant = mf_redundant f\<rparr> m) s)"
proof -
  have "parse (build_transport who n x) = Ok (Transport who n x)"
    using parse_packet_bytes [of "Transport who n x"] by simp
  moreover have "\<exists>body. media_bytes f = CHANNEL_MEDIA # body"
    using sym [OF iffD2 [OF media_encode_Some assms(6)]]
    by (auto simp: media_encode_def Let_def split: option.splits if_splits)
  then have "\<exists>body. split_channel (media_bytes f) = Ok (CHANNEL_MEDIA, body)"
    by (auto simp: split_channel_def)
  ultimately show ?thesis
    using assms media_decode_encode [OF assms(6)]
    by (auto simp: handle_datagram_def handle_transport_def receive_plain_def heard_member_def)
qed

lemma capture_seals:
  assumes "cc_state c = Joined" "cc_encoder c = Some enc" "cc_welcome c = Some w" "cc_session c = Some cs"
    and "encoder_encode (e_opus env) enc pcm = (Ok payload, enc1)" "media_fits (capture_packet c w payload)"
    and "transport_write (e_crypto env) (ss_ts cs) (ss_send_counter cs) (media_bytes (capture_packet c w payload)) = Some x"
  shows "push_capture env pcm c = Some ([build_transport (wl_member_id w) (ss_send_counter cs) x],
    c\<lparr>cc_encoder := Some enc1, cc_session := Some (cs\<lparr>ss_send_counter := ss_send_counter cs + 1\<rparr>),
      cc_frames_sent := wrap64 (cc_frames_sent c + 1), cc_prev_payload := Some payload\<rparr>)"
proof -
  have "capture_packet (c\<lparr>cc_encoder := Some enc1\<rparr>) w payload = capture_packet c w payload"
    by (simp add: capture_packet_def)
  then show ?thesis
    using assms media_encode_Some [of "capture_packet c w payload"]
    by (simp add: push_capture_def seal_capture_def session_seal_def build_transport_def
        append_transport_header_def Let_def)
qed

text \<open>What the run needs of the client besides its seat.\<close>

definition can_talk :: "('hs, 'ts, 'op, 'sl) client_core \<Rightarrow> 'op encoder \<Rightarrow> nat \<Rightarrow> bool" where
  "can_talk c enc k \<longleftrightarrow> cc_encoder c = Some enc \<and>
     (case cc_prev_payload c of None \<Rightarrow> True | Some p \<Rightarrow> length p \<le> 1500) \<and>
     cc_frames_sent c + k < 2 ^ 64 \<and>
     (case cc_session c of None \<Rightarrow> False | Some cs \<Rightarrow> unat (ss_send_counter cs) + k < 2 ^ 64)"

definition seat_jitter :: "('ts, 'op) server_core \<Rightarrow> member_id \<Rightarrow> jitter_buffer option" where
  "seat_jitter s who = map_option mb_jitter (get_member s who)"

lemma encode_bounded:
  "opus_bounded lib \<Longrightarrow> encoder_encode lib enc pcm = (Ok p, enc1) \<Longrightarrow> length p \<le> 1500"
  by (auto simp: encoder_encode_def Let_def opus_bounded_def split: if_splits prod.splits option.splits)

lemma packet_bytes_bounded:
  assumes "length p \<le> 1500" "case cc_prev_payload c of None \<Rightarrow> True | Some q \<Rightarrow> length q \<le> 1500"
  shows "media_fits (capture_packet c w p)" "length (media_bytes (capture_packet c w p)) \<le> 65519"
  using assms
  by (auto simp: media_fits_def media_bytes_def media_encode_def capture_packet_def Let_def split: option.splits)

lemma uplink_step:
  assumes ok: "seated env c s who" "is_musician s who" "can_talk c enc (Suc k)" "cc_welcome c = Some w"
    and laws: "writes_frames (e_crypto env)" "length payload \<le> 1500"
    and enc: "encoder_encode (e_opus env) enc pcm = (Ok payload, enc1)"
  shows "\<exists>out c1. push_capture env pcm c = Some (out, c1) \<and> seated env c1 (deliver_all env now u src out s) who \<and>
    is_musician (deliver_all env now u src out s) who \<and> can_talk c1 enc1 k \<and> cc_welcome c1 = Some w \<and>
    cc_redundancy c1 = cc_redundancy c \<and> cc_frames_sent c1 = cc_frames_sent c + 1 \<and>
    cc_prev_payload c1 = Some payload \<and>
    seat_jitter (deliver_all env now u src out s) who =
      map_option (\<lambda>j. jitter_push j (uplink_packet (rp_active (cc_redundancy c)) (wl_sample_clock w)
        (cc_frames_sent c) (cc_prev_payload c) payload)) (seat_jitter s who)"
proof -
  let ?cr = "e_crypto env"
  obtain m ms cs where s: "cc_state c = Joined" "wl_member_id w = who" "get_member s who = Some m"
    "cc_session c = Some cs" "mb_connected m" "mb_session m = Some ms" "delivers ?cr cs ms" "delivers ?cr ms cs"
    "fresh_from (ss_replay ms) (ss_send_counter cs)"
    using ok(1,4) by (auto simp: seated_def client_member_id_def split: option.splits)
  have r: "mb_role m = Musician" using ok(2) s(3) by (simp add: is_musician_def)
  have t: "cc_encoder c = Some enc" "unat (ss_send_counter cs) + 1 + k < 2 ^ 64" "cc_frames_sent c + 1 + k < 2 ^ 64"
    "case cc_prev_payload c of None \<Rightarrow> True | Some q \<Rightarrow> length q \<le> 1500"
    using ok(3) s(4) by (auto simp: can_talk_def)
  let ?f = "capture_packet c w payload"
  note fits = packet_bytes_bounded [OF laws(2) t(4), of w]
  obtain x where x: "transport_write ?cr (ss_ts cs) (ss_send_counter cs) (media_bytes ?f) = Some x"
    using laws(1) fits(2) unfolding writes_frames_def by blast
  let ?cs = "cs\<lparr>ss_send_counter := ss_send_counter cs + 1\<rparr>"
  let ?c = "c\<lparr>cc_encoder := Some enc1, cc_session := Some ?cs,
      cc_frames_sent := wrap64 (cc_frames_sent c + 1), cc_prev_payload := Some payload\<rparr>"
  have push: "push_capture env pcm c = Some ([build_transport who (ss_send_counter cs) x], ?c)"
    using capture_seals [OF s(1) t(1) ok(4) s(4) enc fits(1) x] s(2) by simp
  have refused: "\<not> replay_refused (ss_replay ms) (ss_send_counter cs)"
    by (rule fresh_accepts(1) [OF s(9)])
  have "fst (session_seal ?cr cs who (media_bytes ?f)) = Ok (build_transport who (ss_send_counter cs) x)"
    using x by (simp add: session_seal_def build_transport_def append_transport_header_def Let_def)
  then have "fst (session_open ?cr ms (ss_send_counter cs) x) = Ok (media_bytes ?f)"
    using s(7) refused unfolding delivers_def by blast
  then obtain ms1 where op: "session_open ?cr ms (ss_send_counter cs) x = (Ok (media_bytes ?f), ms1)"
    by (cases "session_open ?cr ms (ss_send_counter cs) x") simp
  then have ms1: "ms1 = ms\<lparr>ss_replay := snd (replay_accept (ss_replay ms) (ss_send_counter cs))\<rparr>"
    by (auto simp: session_open_def split: option.splits prod.splits if_splits)
  define p where "p = uplink_packet (rp_active (cc_redundancy c)) (wl_sample_clock w)
        (cc_frames_sent c) (cc_prev_payload c) payload"
  have "p = \<lparr>mp_seq = unat (mf_seq ?f), mp_timestamp = unat (mf_timestamp ?f),
       mp_payload = mf_payload ?f, mp_redundant = mf_redundant ?f\<rparr>"
    by (simp add: p_def uplink_packet_def capture_packet_def unat_of_nat)
  then have hear: "deliver_all env now u src [build_transport who (ss_send_counter cs) x] s =
      upd_member who (\<lambda>_. heard_member now src ms1 p m) s"
    using server_hears [OF s(3,5) r s(6) op fits(1)] by (simp add: deliver_all_def)
  have del: "delivers ?cr ?cs ms1" "delivers ?cr ms1 ?cs"
    using s(7,8) by (auto simp: delivers_def ms1)
  have fresh: "fresh_from (ss_replay ms1) (ss_send_counter ?cs)"
    using fresh_accepts(2) [OF s(9)] t(2) by (simp add: ms1)
  have cnt: "unat (ss_send_counter cs + 1) = unat (ss_send_counter cs) + 1"
    using t(2) by (simp add: unat_word_ariths)
  have wrap: "wrap64 (cc_frames_sent c + 1) = cc_frames_sent c + 1" using t(3) by simp
  show ?thesis
    using push s t del fresh r cnt wrap ok(4)
    by (simp add: hear seated_def client_member_id_def is_musician_def can_talk_def seat_jitter_def
        get_member_upd heard_member_def p_def [symmetric] laws(2))
qed

lemma uplink_stream:
  assumes "seated env c s who" "is_musician s who" "can_talk c enc (length pcms)" "cc_welcome c = Some w"
    and "writes_frames (e_crypto env)" "opus_bounded (e_opus env)" "encoded (e_opus env) enc pcms = Some payloads"
  shows "\<exists>c' s'. uplink_run env now u src pcms c s = Some (c', s') \<and> seated env c' s' who \<and>
    seat_jitter s' who = map_option (\<lambda>j. foldl jitter_push j (uplink_packets (rp_active (cc_redundancy c))
      (wl_sample_clock w) (cc_frames_sent c) (cc_prev_payload c) payloads)) (seat_jitter s who)"
  using assms(1-4,7)
proof (induction pcms arbitrary: c s enc payloads)
  case Nil
  then show ?case by (simp add: option.map_ident)
next
  case (Cons pcm pcms)
  obtain p enc1 ps where e: "encoder_encode (e_opus env) enc pcm = (Ok p, enc1)"
    "encoded (e_opus env) enc1 pcms = Some ps" "payloads = p # ps"
    using Cons.prems(5) by (auto split: prod.splits sum.splits)
  obtain out c1 where o: "push_capture env pcm c = Some (out, c1)"
    "seated env c1 (deliver_all env now u src out s) who" "is_musician (deliver_all env now u src out s) who"
    "can_talk c1 enc1 (length pcms)" "cc_welcome c1 = Some w" "cc_redundancy c1 = cc_redundancy c"
    "cc_frames_sent c1 = cc_frames_sent c + 1" "cc_prev_payload c1 = Some p"
    "seat_jitter (deliver_all env now u src out s) who =
      map_option (\<lambda>j. jitter_push j (uplink_packet (rp_active (cc_redundancy c)) (wl_sample_clock w)
        (cc_frames_sent c) (cc_prev_payload c) p)) (seat_jitter s who)"
    using uplink_step [OF Cons.prems(1,2) _ Cons.prems(4) assms(5) encode_bounded [OF assms(6) e(1)] e(1),
        of "length pcms" now u src] Cons.prems(3) by auto
  show ?case
    using Cons.IH [OF o(2-5) e(2)] o(1,6-9) e(3) by (auto simp: option.map_comp comp_def)
qed


lemma sample_writes: "writes_frames (e_crypto sample_env)"
  by (simp add: writes_frames_def sample_env_def sample_crypto_def)


end
