(* ===== verification/LinkNet.thy ===== *)
theory LinkNet
  imports Postcard
begin

text \<open>
  Two control links of \<open>crates/protocol/src/control.rs\<close> talking over a network that loses, delays,
  reorders and duplicates datagrams.  Each side keeps, beside its link, what its caller handed in
  (\<open>pr_sent\<close>), what its link delivered (\<open>pr_got\<close>) and every datagram it ever put on the wire
  (\<open>pr_out\<close>); a delivery step hands a side any datagram of the other, any number of times.

  The specification is a pair of queues: what one side got is a prefix of what the other sent.
\<close>

unbundle bit_operations_syntax

section \<open>Two sides and a network\<close>

record peer =
  pr_link :: control_link
  pr_sent :: "control_msg list"
  pr_got :: "control_msg list"
  pr_out :: "bytes list"

definition peer_new :: peer where
  "peer_new = \<lparr>pr_link = link_new, pr_sent = [], pr_got = [], pr_out = []\<rparr>"

datatype net_action =
    Submit control_msg
  | Transmit nat  \<comment> \<open>poll at this time\<close>
  | Arrive nat  \<comment> \<open>the datagram with this number of the other side arrives\<close>

definition net_act ::
  "(ctl_packet \<Rightarrow> bytes) \<Rightarrow> (bytes \<Rightarrow> (ctl_packet \<times> bytes) option) \<Rightarrow> peer \<times> peer \<Rightarrow> net_action
     \<Rightarrow> peer \<times> peer" where
  "net_act pc_enc pc_dec n a =
     (let (x, y) = n in
      case a of
        Submit msg \<Rightarrow>
          (case link_send (pr_link x) msg of
             (Inl _, l) \<Rightarrow> (x\<lparr>pr_link := l\<rparr>, y)
           | (Inr _, l) \<Rightarrow> (x\<lparr>pr_link := l, pr_sent := pr_sent x @ [msg]\<rparr>, y))
      | Transmit now \<Rightarrow>
          (case link_poll pc_enc (pr_link x) now of
             (ds, l) \<Rightarrow> (x\<lparr>pr_link := l, pr_out := pr_out x @ ds\<rparr>, y))
      | Arrive i \<Rightarrow>
          if i < length (pr_out y)
          then (case link_receive pc_dec (pr_link x) (pr_out y ! i) of
                  (Inl _, l) \<Rightarrow> (x\<lparr>pr_link := l\<rparr>, y)
                | (Inr ms, l) \<Rightarrow> (x\<lparr>pr_link := l, pr_got := pr_got x @ ms\<rparr>, y))
          else (x, y))"

text \<open>The first component of an event says which side acts.\<close>

definition net_step ::
  "(ctl_packet \<Rightarrow> bytes) \<Rightarrow> (bytes \<Rightarrow> (ctl_packet \<times> bytes) option) \<Rightarrow> peer \<times> peer
     \<Rightarrow> bool \<times> net_action \<Rightarrow> peer \<times> peer" where
  "net_step pc_enc pc_dec n e =
     (if fst e then net_act pc_enc pc_dec n (snd e)
      else prod.swap (net_act pc_enc pc_dec (prod.swap n) (snd e)))"

section \<open>The invariant\<close>

definition received :: "control_link \<Rightarrow> nat \<Rightarrow> bool" where
  "received l k \<longleftrightarrow> k < cl_recv_next l \<or> bm_get (cl_out_of_order l) k \<noteq> None"

text \<open>The messages of \<open>x\<close> on their way to \<open>y\<close>.\<close>

definition dir_inv :: "peer \<Rightarrow> peer \<Rightarrow> bool" where
  "dir_inv x y \<longleftrightarrow>
     (let S = pr_link x; R = pr_link y; sent = pr_sent x in
      cl_next_seq S = length sent \<and>
      list_all msg_text_ok sent \<and>
      sorted_wrt (<) (map pd_seq (cl_pending S)) \<and>
      (\<forall>p \<in> set (cl_pending S). pd_seq p < length sent \<and> pd_msg p = sent ! pd_seq p) \<and>
      cl_recv_next R = length (pr_got y) \<and>
      length (pr_got y) \<le> length sent \<and>
      pr_got y = take (length (pr_got y)) sent \<and>
      (\<forall>k m. bm_get (cl_out_of_order R) k = Some m \<longrightarrow> k < length sent \<and> m = sent ! k) \<and>
      (\<forall>k < length sent. k \<notin> pd_seq ` set (cl_pending S) \<longrightarrow> received R k) \<and>
      cl_peer_ack S \<le> cl_recv_next R)"

text \<open>A datagram of \<open>x\<close>: its frame is one \<open>y\<close> has room for, its acknowledgements are true.\<close>

definition wire_ok :: "(ctl_packet \<Rightarrow> bytes) \<Rightarrow> peer \<Rightarrow> peer \<Rightarrow> bytes \<Rightarrow> bool" where
  "wire_ok pc_enc x y d \<longleftrightarrow>
     (\<exists>p. d = CHANNEL_CONTROL # pc_enc p \<and> ctl_packet_ok p \<and>
        cp_ack p \<le> cl_recv_next (pr_link x) \<and>
        (\<forall>i < 32. bit (cp_ack_bits p) i \<longrightarrow> received (pr_link x) (cp_ack p + 1 + i)) \<and>
        (\<forall>seq m. cp_frame p = Some (seq, m) \<longrightarrow>
           seq < length (pr_sent x) \<and> m = pr_sent x ! seq \<and>
           seq < cl_recv_next (pr_link y) + RECV_WINDOW))"

definition net_inv :: "(ctl_packet \<Rightarrow> bytes) \<Rightarrow> peer \<times> peer \<Rightarrow> bool" where
  "net_inv pc_enc n \<longleftrightarrow>
     (let (x, y) = n in
      link_inv (pr_link x) \<and> link_inv (pr_link y) \<and> dir_inv x y \<and> dir_inv y x \<and>
      (\<forall>d \<in> set (pr_out x). wire_ok pc_enc x y d) \<and> (\<forall>d \<in> set (pr_out y). wire_ok pc_enc y x d))"

lemma net_inv_swap: "net_inv pc_enc (prod.swap n) \<longleftrightarrow> net_inv pc_enc n"
  by (cases n) (auto simp: net_inv_def)

lemma net_inv_new: "net_inv pc_enc (peer_new, peer_new)"
  by (auto simp: net_inv_def peer_new_def link_new_inv dir_inv_def)
    (simp_all add: link_new_def)

section \<open>A message submitted\<close>

lemma submit_dir:
  assumes "dir_inv x y" "msg_text_ok msg" "length (pr_sent x) + 64 < 2 ^ 64"
    and "link_send (pr_link x) msg = (Ok (), l)"
  shows "dir_inv (x\<lparr>pr_link := l, pr_sent := pr_sent x @ [msg]\<rparr>) y"
proof -
  have l: "l = (pr_link x)\<lparr>cl_next_seq := length (pr_sent x) + 1,
      cl_pending := cl_pending (pr_link x) @
        [\<lparr>pd_seq = length (pr_sent x), pd_msg = msg, pd_next_send_ms = 0, pd_sends = 0\<rparr>]\<rparr>"
    using assms by (auto simp: link_send_def dir_inv_def Let_def split: sum.splits if_splits)
  show ?thesis
    using assms(1,2) unfolding l dir_inv_def Let_def
    by (auto simp: sorted_wrt_append nth_append less_Suc_eq)
qed

lemma submit_link:
  assumes "link_send l msg = (r, l')"
  shows "cl_recv_next l' = cl_recv_next l" "cl_out_of_order l' = cl_out_of_order l"
    and "cl_peer_ack l' = cl_peer_ack l" "r = Err e \<Longrightarrow> l' = l"
  using assms by (auto simp: link_send_def split: sum.splits if_splits)

text \<open>Only these fields of the receiving side matter to the other direction.\<close>

lemma dir_inv_receiver:
  assumes "cl_recv_next (pr_link x') = cl_recv_next (pr_link x)"
    and "cl_out_of_order (pr_link x') = cl_out_of_order (pr_link x)" and "pr_got x' = pr_got x"
  shows "dir_inv y x' \<longleftrightarrow> dir_inv y x"
  using assms by (simp add: dir_inv_def received_def Let_def)

lemma wire_ok_mono:
  assumes "wire_ok pc_enc x y d"
    and "\<And>k. received (pr_link x) k \<Longrightarrow> received (pr_link x') k"
    and "cl_recv_next (pr_link x) \<le> cl_recv_next (pr_link x')"
    and "cl_recv_next (pr_link y) \<le> cl_recv_next (pr_link y')"
    and "pr_sent x' = pr_sent x @ ms"
  shows "wire_ok pc_enc x' y' d"
proof -
  obtain p where p: "d = CHANNEL_CONTROL # pc_enc p" "ctl_packet_ok p"
    "cp_ack p \<le> cl_recv_next (pr_link x)"
    "\<forall>i < 32. bit (cp_ack_bits p) i \<longrightarrow> received (pr_link x) (cp_ack p + 1 + i)"
    "\<forall>seq m. cp_frame p = Some (seq, m) \<longrightarrow> seq < length (pr_sent x) \<and> m = pr_sent x ! seq \<and>
       seq < cl_recv_next (pr_link y) + RECV_WINDOW"
    using assms(1) unfolding wire_ok_def by blast
  have "\<forall>seq m. cp_frame p = Some (seq, m) \<longrightarrow> seq < length (pr_sent x') \<and> m = pr_sent x' ! seq \<and>
       seq < cl_recv_next (pr_link y') + RECV_WINDOW"
    using p(5) assms(4,5) by (auto simp: nth_append)
  moreover have "cp_ack p \<le> cl_recv_next (pr_link x')" using p(3) assms(3) by simp
  moreover have "\<forall>i < 32. bit (cp_ack_bits p) i \<longrightarrow> received (pr_link x') (cp_ack p + 1 + i)"
    using p(4) assms(2) by blast
  ultimately show ?thesis unfolding wire_ok_def using p(1,2) by blast
qed

lemma submit_inv:
  assumes inv: "net_inv pc_enc (x, y)" and ok: "msg_text_ok msg"
    and small: "length (pr_sent x) + 64 < 2 ^ 64"
  shows "net_inv pc_enc (net_act pc_enc pc_dec (x, y) (Submit msg))"
proof -
  obtain r l where s: "link_send (pr_link x) msg = (r, l)" by (cases "link_send (pr_link x) msg")
  note keep = submit_link [OF s]
  have li: "link_inv l" using link_send_inv [of "pr_link x" msg] inv s by (simp add: net_inv_def)
  show ?thesis
  proof (cases r)
    case (Inl e)
    then have "l = pr_link x" using keep(4) by blast
    then show ?thesis using inv s Inl by (simp add: net_act_def)
  next
    case (Inr u)
    let ?x = "x\<lparr>pr_link := l, pr_sent := pr_sent x @ [msg]\<rparr>"
    have "dir_inv ?x y" using submit_dir [of x y msg l] inv ok small s Inr by (simp add: net_inv_def)
    moreover have "dir_inv y ?x"
      using inv dir_inv_receiver [of ?x x y] keep by (simp add: net_inv_def)
    moreover have "wire_ok pc_enc ?x y d" if "d \<in> set (pr_out x)" for d
      by (rule wire_ok_mono [of pc_enc x y]) (use that inv keep in \<open>auto simp: net_inv_def received_def\<close>)
    moreover have "wire_ok pc_enc y ?x d" if "d \<in> set (pr_out y)" for d
      by (rule wire_ok_mono [of pc_enc y x d y ?x "[]"])
        (use that inv keep in \<open>auto simp: net_inv_def received_def\<close>)
    ultimately show ?thesis using inv li s Inr by (simp add: net_act_def net_inv_def)
  qed
qed


section \<open>A poll\<close>

lemma poll_link:
  assumes "link_poll_packets l now = (ps, l')"
  shows "cl_recv_next l' = cl_recv_next l" "cl_out_of_order l' = cl_out_of_order l"
    and "cl_peer_ack l' = cl_peer_ack l" "cl_next_seq l' = cl_next_seq l"
    and "map (\<lambda>p. (pd_seq p, pd_msg p)) (cl_pending l') = map (\<lambda>p. (pd_seq p, pd_msg p)) (cl_pending l)"
    and "p \<in> set ps \<Longrightarrow> cp_ack p = cl_recv_next l \<and> cp_ack_bits p = link_ack_bits l"
    and "p \<in> set ps \<Longrightarrow> cp_frame p = Some f \<Longrightarrow>
      f \<in> (\<lambda>p. (pd_seq p, pd_msg p)) ` set (cl_pending l) \<and>
      fst f < wrap64 (cl_peer_ack l + RECV_WINDOW)"
proof -
  let ?limit = "wrap64 (cl_peer_ack l + RECV_WINDOW)"
  obtain out rest dead where q: "poll_pending now ?limit (cl_pending l) = (out, rest, dead)"
    by (cases "poll_pending now ?limit (cl_pending l)") auto
  note def = assms [unfolded link_poll_packets_def Let_def q prod.case]
  show "cl_recv_next l' = cl_recv_next l" "cl_out_of_order l' = cl_out_of_order l"
    "cl_peer_ack l' = cl_peer_ack l" "cl_next_seq l' = cl_next_seq l"
    using def by (auto split: if_splits)
  have "cl_pending l' = rest" using def by (auto split: if_splits)
  then show "map (\<lambda>p. (pd_seq p, pd_msg p)) (cl_pending l') =
      map (\<lambda>p. (pd_seq p, pd_msg p)) (cl_pending l)"
    using poll_pending_queue [OF q] by simp
  show "p \<in> set ps \<Longrightarrow> cp_ack p = cl_recv_next l \<and> cp_ack_bits p = link_ack_bits l"
    using def by (auto split: if_splits)
  show "p \<in> set ps \<Longrightarrow> cp_frame p = Some f \<Longrightarrow>
      f \<in> (\<lambda>p. (pd_seq p, pd_msg p)) ` set (cl_pending l) \<and> fst f < ?limit"
    using def poll_pending_sent [OF q] by (fastforce split: if_splits)
qed

lemma queue_fields:
  assumes "map (\<lambda>p. (pd_seq p, pd_msg p)) ps = map (\<lambda>p. (pd_seq p, pd_msg p)) qs"
  shows "map pd_seq ps = map pd_seq qs"
    and "(\<forall>p \<in> set ps. P (pd_seq p) (pd_msg p)) \<longleftrightarrow> (\<forall>p \<in> set qs. P (pd_seq p) (pd_msg p))"
proof -
  show "map pd_seq ps = map pd_seq qs"
    using arg_cong [OF assms, of "map fst"] by (simp add: comp_def)
  have "(\<forall>x \<in> set (map (\<lambda>p. (pd_seq p, pd_msg p)) ps). case x of (a, b) \<Rightarrow> P a b) \<longleftrightarrow>
      (\<forall>x \<in> set (map (\<lambda>p. (pd_seq p, pd_msg p)) qs). case x of (a, b) \<Rightarrow> P a b)"
    by (simp only: assms)
  then show "(\<forall>p \<in> set ps. P (pd_seq p) (pd_msg p)) \<longleftrightarrow> (\<forall>p \<in> set qs. P (pd_seq p) (pd_msg p))"
    by simp
qed

lemma ack_bits_received:
  assumes "cl_recv_next l + 32 < 2 ^ 64" "i < 32" "bit (link_ack_bits l) i"
  shows "received l (cl_recv_next l + 1 + i)"
proof -
  have "wrap64 (cl_recv_next l + 1 + i) = cl_recv_next l + 1 + i" using assms(1,2) by simp
  then show ?thesis using assms(2,3) by (simp add: bit_link_ack_bits received_def)
qed

lemma transmit_inv:
  assumes inv: "net_inv pc_enc (x, y)"
    and small: "length (pr_sent x) + 64 < 2 ^ 64" "length (pr_sent y) + 64 < 2 ^ 64"
  shows "net_inv pc_enc (net_act pc_enc pc_dec (x, y) (Transmit now))"
proof -
  obtain ps l where s: "link_poll_packets (pr_link x) now = (ps, l)"
    by (cases "link_poll_packets (pr_link x) now")
  let ?ds = "map (\<lambda>p. CHANNEL_CONTROL # pc_enc p) ps"
  let ?x = "x\<lparr>pr_link := l, pr_out := pr_out x @ ?ds\<rparr>"
  note keep = poll_link [OF s] and q = queue_fields [OF poll_link(5) [OF s]]
  have d: "dir_inv x y" "dir_inv y x" using inv by (simp_all add: net_inv_def)
  have rx: "cl_recv_next (pr_link x) + 32 < 2 ^ 64" "cl_recv_next (pr_link x) < 2 ^ 64"
    using d(2) small(2) by (auto simp: dir_inv_def Let_def)
  have li: "link_inv l" using link_poll_packets_inv [of "pr_link x" now] inv s by (simp add: net_inv_def)
  have seqs: "pd_seq ` set (cl_pending l) = pd_seq ` set (cl_pending (pr_link x))"
    by (metis q(1) list.set_map)
  have "dir_inv ?x y"
    using d(1) q(2) [of "\<lambda>s m. s < length (pr_sent x) \<and> m = pr_sent x ! s"] q(1) keep seqs
    by (simp add: dir_inv_def Let_def)
  moreover have "dir_inv y ?x" using d(2) dir_inv_receiver [of ?x x y] keep by simp
  moreover have "wire_ok pc_enc ?x y d" if "d \<in> set (pr_out x)" for d
    by (rule wire_ok_mono [of pc_enc x y _ _ _ "[]"]) (use that inv keep in \<open>auto simp: net_inv_def received_def\<close>)
  moreover have "wire_ok pc_enc y ?x d" if "d \<in> set (pr_out y)" for d
    by (rule wire_ok_mono [of pc_enc y x d y ?x "[]"])
      (use that inv keep in \<open>auto simp: net_inv_def received_def\<close>)
  moreover have "wire_ok pc_enc ?x y (CHANNEL_CONTROL # pc_enc p)" if p: "p \<in> set ps" for p
  proof -
    have frame: "seq < length (pr_sent x) \<and> m = pr_sent x ! seq \<and> msg_text_ok m \<and>
        seq < cl_recv_next (pr_link y) + RECV_WINDOW" if f: "cp_frame p = Some (seq, m)" for seq m
    proof -
      obtain r where r: "r \<in> set (cl_pending (pr_link x))" "seq = pd_seq r" "m = pd_msg r"
        and w: "seq < wrap64 (cl_peer_ack (pr_link x) + RECV_WINDOW)"
        using keep(7) [OF p f] by auto
      then have "seq < cl_peer_ack (pr_link x) + RECV_WINDOW"
        using wrap64_le [of "cl_peer_ack (pr_link x) + RECV_WINDOW"] by linarith
      moreover have "seq < length (pr_sent x)" "m = pr_sent x ! seq"
        using r d(1) by (auto simp: dir_inv_def Let_def)
      moreover have "list_all msg_text_ok (pr_sent x)"
        "cl_peer_ack (pr_link x) \<le> cl_recv_next (pr_link y)"
        using d(1) by (auto simp: dir_inv_def Let_def)
      ultimately show ?thesis by (auto simp: list_all_length)
    qed
    have "ctl_packet_ok p"
      using keep(6) [OF p] rx(2) frame small(1)
      by (auto simp: ctl_packet_ok_def split: option.splits)
    then show ?thesis
      unfolding wire_ok_def using keep(1,2) keep(6) [OF p] ack_bits_received [OF rx(1)] frame
      by (auto simp: received_def)
  qed
  ultimately show ?thesis
    using inv li s by (auto simp: net_act_def net_inv_def link_poll_def)
qed


section \<open>A datagram arrives\<close>

lemma receive_link:
  assumes inv: "link_inv l" and s: "link_receive_packet l pkt = (r, l')"
  shows "cl_peer_ack l' = max (cl_peer_ack l) (cp_ack pkt)" "cl_next_seq l' = cl_next_seq l"
    and "cl_pending l' = filter (retained (cp_ack pkt) (cp_ack_bits pkt)) (cl_pending l)"
    and "(cl_recv_next l' = cl_recv_next l \<and> cl_out_of_order l' = cl_out_of_order l \<and>
           (r = Ok [] \<or> (\<exists>e. r = Err e))) \<or>
         (\<exists>seq msg out. cp_frame pkt = Some (seq, msg) \<and> r = Ok out \<and>
            cl_recv_next l' = cl_recv_next l + length out \<and>
            map Some out = map (bm_get (bm_insert seq msg (cl_out_of_order l)))
              [cl_recv_next l..<cl_recv_next l'] \<and>
            (\<forall>k. bm_get (cl_out_of_order l') k = (if k < cl_recv_next l' then None
               else bm_get (bm_insert seq msg (cl_out_of_order l)) k)))"
proof -
  show "cl_peer_ack l' = max (cl_peer_ack l) (cp_ack pkt)" "cl_next_seq l' = cl_next_seq l"
    "cl_pending l' = filter (retained (cp_ack pkt) (cp_ack_bits pkt)) (cl_pending l)"
    using s by (auto simp: link_receive_packet_def Let_def
        split: option.splits sum.splits if_splits prod.splits)
  show "(cl_recv_next l' = cl_recv_next l \<and> cl_out_of_order l' = cl_out_of_order l \<and>
           (r = Ok [] \<or> (\<exists>e. r = Err e))) \<or>
         (\<exists>seq msg out. cp_frame pkt = Some (seq, msg) \<and> r = Ok out \<and>
            cl_recv_next l' = cl_recv_next l + length out \<and>
            map Some out = map (bm_get (bm_insert seq msg (cl_out_of_order l)))
              [cl_recv_next l..<cl_recv_next l'] \<and>
            (\<forall>k. bm_get (cl_out_of_order l') k = (if k < cl_recv_next l' then None
               else bm_get (bm_insert seq msg (cl_out_of_order l)) k)))"
    (is "?same \<or> ?took")
  proof (cases "\<exists>seq msg. cp_frame pkt = Some (seq, msg) \<and> check_lengths msg = Ok () \<and>
      cl_recv_next l \<le> seq \<and> seq < wrap64 (cl_recv_next l + RECV_WINDOW) \<and>
      bm_get (cl_out_of_order l) seq = None")
    case False
    then have ?same using s
      by (auto simp: link_receive_packet_def Let_def split: option.splits sum.splits if_splits)
    then show ?thesis ..
  next
    case True
    then obtain seq msg where f: "cp_frame pkt = Some (seq, msg)" and t: "check_lengths msg = Ok ()"
      "cl_recv_next l \<le> seq" "seq < wrap64 (cl_recv_next l + RECV_WINDOW)"
      "bm_get (cl_out_of_order l) seq = None" by blast
    obtain out n m where d:
      "drain (cl_recv_next l) (bm_insert seq msg (cl_out_of_order l)) = (out, n, m)"
      by (cases "drain (cl_recv_next l) (bm_insert seq msg (cl_out_of_order l))") auto
    note acc = receive_accepts [OF inv t(1-3) d]
    have "r = Ok out" "cl_recv_next l' = n" "cl_out_of_order l' = m"
      using s f t d by (auto simp: link_receive_packet_def Let_def)
    then have ?took using f acc(1,2,6) by (intro exI [of _ seq] exI [of _ msg] exI [of _ out]) simp
    then show ?thesis ..
  qed
qed

lemma take_extend:
  assumes g: "got = take (length got) sent" "length got \<le> length sent"
    and o: "map Some out = map G [length got..<length got + length out]"
    and G: "\<And>k m. G k = Some m \<Longrightarrow> k < length sent \<and> m = sent ! k"
  shows "got @ out = take (length (got @ out)) sent \<and> length (got @ out) \<le> length sent"
proof -
  have at: "length got + i < length sent \<and> out ! i = sent ! (length got + i)" if "i < length out" for i
  proof -
    have "Some (out ! i) = map Some out ! i" using that by simp
    also have "\<dots> = G (length got + i)" unfolding o using that by simp
    finally have "G (length got + i) = Some (out ! i)" by (rule sym)
    from G [OF this] show ?thesis by auto
  qed
  have len: "length got + length out \<le> length sent"
  proof (cases "out = []")
    case True
    then show ?thesis using g by simp
  next
    case False
    then have "length out - 1 < length out" by simp
    from at [OF this] show ?thesis using False by (cases out) auto
  qed
  have "out = take (length out) (drop (length got) sent)"
    by (rule nth_equalityI) (use at len in auto)
  then have "take (length got) sent @ out = take (length got + length out) sent"
    by (metis take_add)
  then show ?thesis using g len by simp
qed

lemma arrive_ack_dir:
  assumes d: "dir_inv x y" and inv: "link_inv (pr_link x)"
    and s: "link_receive_packet (pr_link x) p = (r, l)"
    and ack: "cp_ack p \<le> cl_recv_next (pr_link y)"
      "\<forall>i < 32. bit (cp_ack_bits p) i \<longrightarrow> received (pr_link y) (cp_ack p + 1 + i)"
  shows "dir_inv (x\<lparr>pr_link := l, pr_got := g\<rparr>) y"
proof -
  note keep = receive_link(1-3) [OF inv s]
  have gone: "received (pr_link y) (pd_seq q)"
    if q: "q \<in> set (cl_pending (pr_link x))" "q \<notin> set (cl_pending l)" for q
  proof -
    have "\<not> retained (cp_ack p) (cp_ack_bits p) q" using q keep(3) by simp
    then consider "pd_seq q < cp_ack p" | "cp_ack p < pd_seq q" "pd_seq q \<le> cp_ack p + 32"
      "bit (cp_ack_bits p) (pd_seq q - cp_ack p - 1)"
      by (auto simp: retained_iff not_le)
    then show ?thesis
    proof cases
      case 1
      then show ?thesis using ack(1) by (simp add: received_def)
    next
      case 2
      then have "received (pr_link y) (cp_ack p + 1 + (pd_seq q - cp_ack p - 1))"
        by (intro ack(2) [rule_format]) auto
      then show ?thesis using 2 by simp
    qed
  qed
  have sorted: "sorted_wrt (<) (map pd_seq (cl_pending l))"
    using d by (simp add: keep dir_inv_def Let_def sorted_wrt_map sorted_wrt_filter)
  have "received (pr_link y) k" if "k < length (pr_sent x)" "k \<notin> pd_seq ` set (cl_pending l)" for k
    using that d gone by (cases "k \<in> pd_seq ` set (cl_pending (pr_link x))")
      (auto simp: dir_inv_def Let_def)
  then show ?thesis
    using d sorted ack(1) by (auto simp: dir_inv_def Let_def keep)
qed

lemma arrive_frame_dir:
  assumes d: "dir_inv y x" and inv: "link_inv (pr_link x)"
    and s: "link_receive_packet (pr_link x) p = (r, l)"
    and frame: "\<forall>seq m. cp_frame p = Some (seq, m) \<longrightarrow> seq < length (pr_sent y) \<and> m = pr_sent y ! seq"
    and g: "g = pr_got x @ (case r of Inl _ \<Rightarrow> [] | Inr ms \<Rightarrow> ms)"
  shows "dir_inv y (x\<lparr>pr_link := l, pr_got := g\<rparr>)"
    and "cl_recv_next (pr_link x) \<le> cl_recv_next l"
    and "received (pr_link x) k \<Longrightarrow> received l k"
proof -
  from receive_link(4) [OF inv s] consider
    (same) "cl_recv_next l = cl_recv_next (pr_link x)"
      "cl_out_of_order l = cl_out_of_order (pr_link x)" "g = pr_got x"
  | (took) seq msg out where "cp_frame p = Some (seq, msg)" "r = Ok out"
      "cl_recv_next l = cl_recv_next (pr_link x) + length out"
      "map Some out = map (bm_get (bm_insert seq msg (cl_out_of_order (pr_link x))))
         [cl_recv_next (pr_link x)..<cl_recv_next l]"
      "\<forall>k. bm_get (cl_out_of_order l) k = (if k < cl_recv_next l then None
         else bm_get (bm_insert seq msg (cl_out_of_order (pr_link x))) k)"
    using g by auto
  then have "dir_inv y (x\<lparr>pr_link := l, pr_got := g\<rparr>) \<and>
      cl_recv_next (pr_link x) \<le> cl_recv_next l \<and> (\<forall>k. received (pr_link x) k \<longrightarrow> received l k)"
  proof cases
    case same
    then show ?thesis
      using d dir_inv_receiver [of "x\<lparr>pr_link := l, pr_got := g\<rparr>" x y] by (simp add: received_def)
  next
    case took
    let ?G = "bm_get (bm_insert seq msg (cl_out_of_order (pr_link x)))"
    have G: "k < length (pr_sent y) \<and> m = pr_sent y ! k" if "?G k = Some m" for k m
      using that d frame took(1) by (auto simp: dir_inv_def Let_def split: if_splits)
    have got: "cl_recv_next (pr_link x) = length (pr_got x)" "length (pr_got x) \<le> length (pr_sent y)"
      "pr_got x = take (length (pr_got x)) (pr_sent y)"
      using d by (auto simp: dir_inv_def Let_def)
    have ext: "pr_got x @ out = take (length (pr_got x @ out)) (pr_sent y) \<and>
        length (pr_got x @ out) \<le> length (pr_sent y)"
      by (rule take_extend [where G = ?G]) (use got took(3,4) G in auto)
    have mono: "received l k" if "received (pr_link x) k" for k
      using that took(3,5) by (auto simp: received_def split: if_splits)
    have "dir_inv y (x\<lparr>pr_link := l, pr_got := pr_got x @ out\<rparr>)"
      using d ext got took(3,5) mono G by (auto simp: dir_inv_def Let_def split: if_splits)
    then show ?thesis using took mono g by simp
  qed
  then show "dir_inv y (x\<lparr>pr_link := l, pr_got := g\<rparr>)"
    "cl_recv_next (pr_link x) \<le> cl_recv_next l" "received (pr_link x) k \<Longrightarrow> received l k" by auto
qed


lemma arrive_inv:
  assumes codec: "codec_ok pc_enc pc_dec" and inv: "net_inv pc_enc (x, y)"
  shows "net_inv pc_enc (net_act pc_enc pc_dec (x, y) (Arrive i))"
proof (cases "i < length (pr_out y)")
  case False
  then show ?thesis using inv by (simp add: net_act_def)
next
  case True
  then have "wire_ok pc_enc y x (pr_out y ! i)" using inv by (simp add: net_inv_def)
  then obtain p where p: "pr_out y ! i = CHANNEL_CONTROL # pc_enc p" "ctl_packet_ok p"
    "cp_ack p \<le> cl_recv_next (pr_link y)"
    "\<forall>i < 32. bit (cp_ack_bits p) i \<longrightarrow> received (pr_link y) (cp_ack p + 1 + i)"
    "\<forall>seq m. cp_frame p = Some (seq, m) \<longrightarrow> seq < length (pr_sent y) \<and> m = pr_sent y ! seq"
    unfolding wire_ok_def by blast
  have lx: "link_inv (pr_link x)" and d: "dir_inv x y" "dir_inv y x"
    using inv by (simp_all add: net_inv_def)
  obtain r l where s: "link_receive_packet (pr_link x) p = (r, l)"
    by (cases "link_receive_packet (pr_link x) p")
  have rcv: "link_receive pc_dec (pr_link x) (pr_out y ! i) = (r, l)"
    using s by (simp add: link_receive_def p(1) codec_reads [OF codec p(2)])
  define g where "g = pr_got x @ (case r of Inl _ \<Rightarrow> [] | Inr ms \<Rightarrow> ms)"
  let ?x = "x\<lparr>pr_link := l, pr_got := g\<rparr>"
  have act: "net_act pc_enc pc_dec (x, y) (Arrive i) = (?x, y)"
    using True rcv by (simp add: net_act_def g_def split: sum.splits)
  note frame = arrive_frame_dir [OF d(2) lx s p(5) g_def]
  have "link_inv l" using link_receive_packet_inv [OF lx, of p] s by simp
  moreover have "dir_inv ?x y" by (rule arrive_ack_dir [OF d(1) lx s p(3,4)])
  moreover have "dir_inv y ?x" by (rule frame(1))
  moreover have "wire_ok pc_enc ?x y d" if "d \<in> set (pr_out x)" for d
    by (rule wire_ok_mono [of pc_enc x y _ _ _ "[]"])
      (use that inv frame(2,3) in \<open>auto simp: net_inv_def\<close>)
  moreover have "wire_ok pc_enc y ?x d" if "d \<in> set (pr_out y)" for d
    by (rule wire_ok_mono [of pc_enc y x d y ?x "[]"])
      (use that inv frame(2) in \<open>auto simp: net_inv_def\<close>)
  ultimately show ?thesis using inv unfolding act by (simp add: net_inv_def)
qed

section \<open>Every schedule\<close>

text \<open>
  Sequence numbers do not run out: fewer than \<open>2^64 - 64\<close> messages were sent each way, which every
  run of fewer steps ensures.
\<close>

definition net_small :: "peer \<times> peer \<Rightarrow> bool" where
  "net_small n \<longleftrightarrow>
     length (pr_sent (fst n)) + 64 < 2 ^ 64 \<and> length (pr_sent (snd n)) + 64 < 2 ^ 64"

definition event_ok :: "bool \<times> net_action \<Rightarrow> bool" where
  "event_ok e = (case snd e of Submit msg \<Rightarrow> msg_text_ok msg | _ \<Rightarrow> True)"

lemma net_small_act: "net_small (net_act pc_enc pc_dec n a) \<Longrightarrow> net_small n"
  by (cases n)
    (auto simp: net_act_def net_small_def split: net_action.splits prod.splits sum.splits if_splits)

lemma net_small_swap: "net_small (prod.swap n) \<longleftrightarrow> net_small n"
  by (auto simp: net_small_def)

lemma net_act_inv:
  assumes "codec_ok pc_enc pc_dec" "net_inv pc_enc n" "net_small n" "event_ok (b, a)"
  shows "net_inv pc_enc (net_act pc_enc pc_dec n a)"
  using assms submit_inv transmit_inv arrive_inv
  by (cases n; cases a) (auto simp: net_small_def event_ok_def)

lemma net_step_inv:
  assumes codec: "codec_ok pc_enc pc_dec" and inv: "net_small n \<longrightarrow> net_inv pc_enc n"
    and ok: "event_ok e"
  shows "net_small (net_step pc_enc pc_dec n e) \<longrightarrow> net_inv pc_enc (net_step pc_enc pc_dec n e)"
proof
  assume small: "net_small (net_step pc_enc pc_dec n e)"
  then have n: "net_small n"
    using net_small_act [of pc_enc pc_dec n "snd e"]
      net_small_act [of pc_enc pc_dec "prod.swap n" "snd e"]
    by (auto simp: net_step_def net_small_swap split: if_splits)
  then have "net_inv pc_enc n" "net_inv pc_enc (prod.swap n)" "net_small (prod.swap n)"
    using inv by (simp_all add: net_inv_swap net_small_swap)
  then show "net_inv pc_enc (net_step pc_enc pc_dec n e)"
    using net_act_inv [OF codec _ _, of n "fst e" "snd e"]
      net_act_inv [OF codec _ _, of "prod.swap n" "fst e" "snd e"] n ok
    by (simp add: net_step_def net_inv_swap)
qed

definition net_run ::
  "(ctl_packet \<Rightarrow> bytes) \<Rightarrow> (bytes \<Rightarrow> (ctl_packet \<times> bytes) option) \<Rightarrow> (bool \<times> net_action) list
     \<Rightarrow> peer \<times> peer" where
  "net_run pc_enc pc_dec es = foldl (net_step pc_enc pc_dec) (peer_new, peer_new) es"

lemma net_act_sent:
  "length (pr_sent (fst (net_act pc_enc pc_dec n a))) \<le> Suc (length (pr_sent (fst n)))"
  "pr_sent (snd (net_act pc_enc pc_dec n a)) = pr_sent (snd n)"
  by (cases n; auto simp: net_act_def split: net_action.splits prod.splits sum.splits)+

lemma net_step_sent:
  "length (pr_sent (fst (net_step pc_enc pc_dec n e))) \<le> Suc (length (pr_sent (fst n)))"
  "length (pr_sent (snd (net_step pc_enc pc_dec n e))) \<le> Suc (length (pr_sent (snd n)))"
  using net_act_sent [of pc_enc pc_dec n "snd e"] net_act_sent [of pc_enc pc_dec "prod.swap n" "snd e"]
  by (auto simp: net_step_def)

lemma net_run_sent:
  "length (pr_sent (fst (foldl (net_step pc_enc pc_dec) n es))) \<le> length es + length (pr_sent (fst n)) \<and>
   length (pr_sent (snd (foldl (net_step pc_enc pc_dec) n es))) \<le> length es + length (pr_sent (snd n))"
proof (induction es arbitrary: n)
  case Nil
  then show ?case by simp
next
  case (Cons e es)
  show ?case
    using Cons.IH [of "net_step pc_enc pc_dec n e"] net_step_sent [of pc_enc pc_dec n e] by simp
qed

lemma net_run_small:
  assumes "length es + 64 < 2 ^ 64"
  shows "net_small (net_run pc_enc pc_dec es)"
  using net_run_sent [of pc_enc pc_dec "(peer_new, peer_new)" es] assms
  by (simp add: net_small_def net_run_def peer_new_def)

lemma net_run_inv:
  assumes "codec_ok pc_enc pc_dec" "list_all event_ok es" "length es + 64 < 2 ^ 64"
  shows "net_inv pc_enc (net_run pc_enc pc_dec es)"
proof -
  have "invariant_machine (net_step pc_enc pc_dec) (\<lambda>n. net_small n \<longrightarrow> net_inv pc_enc n) event_ok"
    by unfold_locales (rule net_step_inv [OF assms(1)])
  from invariant_machine.run_inv [OF this, of "(peer_new, peer_new)" es] assms(2) net_run_small [OF assms(3)]
  show ?thesis by (simp add: net_run_def net_inv_new)
qed

lemma run_prefix:
  assumes "net_inv pc_enc (x, y)"
  shows "pr_got y = take (length (pr_got y)) (pr_sent x)"
    and "cl_pending (pr_link x) = [] \<Longrightarrow> pr_got y = pr_sent x"
proof -
  have d: "dir_inv x y" and l: "link_inv (pr_link y)" using assms by (simp_all add: net_inv_def)
  show pre: "pr_got y = take (length (pr_got y)) (pr_sent x)"
    using d by (auto simp: dir_inv_def Let_def)
  assume none: "cl_pending (pr_link x) = []"
  have "length (pr_got y) = length (pr_sent x)"
  proof (rule ccontr)
    assume "length (pr_got y) \<noteq> length (pr_sent x)"
    then have "cl_recv_next (pr_link y) < length (pr_sent x)"
      using d by (auto simp: dir_inv_def Let_def)
    then have "received (pr_link y) (cl_recv_next (pr_link y))"
      using d none by (auto simp: dir_inv_def Let_def)
    then show False using l by (auto simp: received_def link_inv_def)
  qed
  then show "pr_got y = pr_sent x" using pre by simp
qed


text \<open>
  A schedule for the witnesses: two messages go out, the second arrives first, the first is
  delivered with it, and the acknowledgements empty the sender's queue.
\<close>

definition sample_run :: "(bool \<times> net_action) list" where
  "sample_run = [(True, Submit (Chat (MemberId 1) [104, 105])), (True, Submit (Ping 7 9)),
     (True, Transmit 5), (False, Arrive 1), (False, Transmit 6), (False, Arrive 0),
     (False, Arrive 1), (True, Arrive 0), (False, Transmit 8), (True, Arrive 1)]"

lemma sample_run_ok: "list_all event_ok sample_run" "length sample_run + 64 < 2 ^ 64"
  by (simp_all add: sample_run_def event_ok_def valid_utf8.simps char_len_def lead_len_def)

lemma sample_run_got:
  "pr_got (snd (net_run wr_packet rd_packet sample_run)) = [Chat (MemberId 1) [104, 105], Ping 7 9]"
  "cl_pending (pr_link (fst (net_run wr_packet rd_packet sample_run))) = []"
  by code_simp+

text \<open>C8. Over a network that loses, delays, reorders and duplicates datagrams, each side's application
  gets a prefix of what the other side's application sent: nothing out of order, nothing twice,
  nothing that was not sent.\<close>

theorem link_in_order_once:
  assumes "codec_ok pc_enc pc_dec" "list_all event_ok es" "length es + 64 < 2 ^ 64"
  shows "case net_run pc_enc pc_dec es of (x, y) \<Rightarrow>
    pr_got y = take (length (pr_got y)) (pr_sent x) \<and>
    pr_got x = take (length (pr_got x)) (pr_sent y)"
proof -
  obtain x y where n: "net_run pc_enc pc_dec es = (x, y)" by (cases "net_run pc_enc pc_dec es")
  have "net_inv pc_enc (x, y)" using net_run_inv [OF assms] by (simp only: n)
  then have "net_inv pc_enc (y, x)" using net_inv_swap [of pc_enc "(x, y)"] by simp
  then show ?thesis
    using run_prefix(1) \<open>net_inv pc_enc (x, y)\<close> unfolding n prod.case by blast
qed

theorem link_in_order_once_witness:
  "take 2 (pr_sent (fst (net_run wr_packet rd_packet sample_run))) =
     [Chat (MemberId 1) [104, 105], Ping 7 9]"
  using link_in_order_once [OF postcard_ok sample_run_ok] sample_run_got(1)
  by (simp add: split_beta numeral_2_eq_2)

text \<open>C9. No message is retired before it has arrived: a side whose queue of unacknowledged messages is
  empty has had every message delivered, and every message not yet received is still queued.\<close>

theorem link_no_loss:
  assumes "codec_ok pc_enc pc_dec" "list_all event_ok es" "length es + 64 < 2 ^ 64"
  shows "case net_run pc_enc pc_dec es of (x, y) \<Rightarrow>
    (cl_pending (pr_link x) = [] \<longrightarrow> pr_got y = pr_sent x) \<and>
    (\<forall>k < length (pr_sent x). received (pr_link y) k \<or>
       (\<exists>p \<in> set (cl_pending (pr_link x)). pd_seq p = k \<and> pd_msg p = pr_sent x ! k))"
proof -
  obtain x y where n: "net_run pc_enc pc_dec es = (x, y)" by (cases "net_run pc_enc pc_dec es")
  have inv: "net_inv pc_enc (x, y)" using net_run_inv [OF assms] by (simp only: n)
  then have "dir_inv x y" by (simp add: net_inv_def)
  then have "received (pr_link y) k \<or>
      (\<exists>p \<in> set (cl_pending (pr_link x)). pd_seq p = k \<and> pd_msg p = pr_sent x ! k)"
    if "k < length (pr_sent x)" for k
    using that by (auto simp: dir_inv_def Let_def)
  then show ?thesis using run_prefix(2) [OF inv] unfolding n prod.case by blast
qed

theorem link_no_loss_witness:
  "pr_sent (fst (net_run wr_packet rd_packet sample_run)) = [Chat (MemberId 1) [104, 105], Ping 7 9]"
  using link_no_loss [OF postcard_ok sample_run_ok] sample_run_got
  by (simp add: split_beta)

text \<open>Flow control: every frame a side ever puts on the wire is one its peer has room for, below the
  peer's next expected sequence number plus the window of 32.\<close>

theorem link_flow_control:
  assumes "codec_ok pc_enc pc_dec" "list_all event_ok es" "length es + 64 < 2 ^ 64"
    and "d \<in> set (pr_out (fst (net_run pc_enc pc_dec es)))"
  shows "\<exists>p. pc_dec (tl d) = Some (p, []) \<and>
    (case cp_frame p of None \<Rightarrow> True
     | Some (seq, _) \<Rightarrow>
         seq < cl_recv_next (pr_link (snd (net_run pc_enc pc_dec es))) + RECV_WINDOW)"
proof -
  obtain x y where n: "net_run pc_enc pc_dec es = (x, y)" by (cases "net_run pc_enc pc_dec es")
  have "wire_ok pc_enc x y d"
    using net_run_inv [OF assms(1-3)] assms(4) by (simp add: n net_inv_def)
  then obtain p where "d = CHANNEL_CONTROL # pc_enc p" "ctl_packet_ok p"
    "\<forall>seq m. cp_frame p = Some (seq, m) \<longrightarrow> seq < cl_recv_next (pr_link y) + RECV_WINDOW"
    unfolding wire_ok_def by blast
  then show ?thesis
    using codec_reads [OF assms(1)] by (intro exI [of _ p]) (auto simp: n split: option.splits)
qed

theorem link_flow_control_witness:
  "list_all (\<lambda>d. \<exists>p. rd_packet (tl d) = Some (p, []) \<and>
     (case cp_frame p of None \<Rightarrow> True
      | Some (seq, _) \<Rightarrow>
          seq < cl_recv_next (pr_link (snd (net_run wr_packet rd_packet sample_run))) + RECV_WINDOW))
     (pr_out (fst (net_run wr_packet rd_packet sample_run))) \<and>
   length (pr_out (fst (net_run wr_packet rd_packet sample_run))) = 2"
proof -
  have "length (pr_out (fst (net_run wr_packet rd_packet sample_run))) = 2" by code_simp
  then show ?thesis
    unfolding list_all_iff using link_flow_control [OF postcard_ok sample_run_ok] by blast
qed

end
