(* ===== verification/ServerGuards.thy ===== *)
theory ServerGuards
  imports ServerClaims
begin

text \<open>
  What unauthenticated and unprivileged peers cannot do: spend more key exchanges than the budget,
  draw a reply larger than what they sent, act as the host, or outlast the violation budget.
\<close>

named_theorems frame_simps "operations that leave the host's settings and the handshake budget alone"

section \<open>Frames\<close>

text \<open>What only the host may set, and the accounting of handshakes.\<close>

definition host_event :: "server_event \<Rightarrow> bool" where
  "host_event e \<longleftrightarrow>
     (case e of TokenRevoked _ \<Rightarrow> True | StreamCtlEvent _ \<Rightarrow> True | RecordCtlEvent _ \<Rightarrow> True | _ \<Rightarrow> False)"

definition policy ::
  "('ts, 'op) server_core \<Rightarrow> metronome \<times> bool \<times> (member_id, fader) bmap \<times> bool \<times> token_id set \<times> server_event list" where
  "policy s = (sv_metronome s, sv_metronome_enabled s, sv_bcast_faders s, sv_audition s, sv_revoked s,
     filter host_event (sv_events s))"

definition flood :: "('ts, 'op) server_core \<Rightarrow> nat \<times> token_bucket" where
  "flood s = (sv_init_reads s, sv_init_budget s)"

lemmas frame_defs = policy_def flood_def

lemma frame_upd [frame_simps]:
  "policy (upd_member who f s) = policy s" "flood (upd_member who f s) = flood s"
  by (simp_all add: frame_defs upd_member_def)

lemma frame_event [frame_simps]:
  "policy (push_event e s) = policy s \<longleftrightarrow> \<not> host_event e" "flood (push_event e s) = flood s"
  by (auto simp: frame_defs push_event_def)

lemma policy_event [frame_simps]: "\<not> host_event e \<Longrightarrow> policy (push_event e s) = policy s"
  by (simp add: frame_event)

lemma host_event_simps [simp, frame_simps]:
  "\<not> host_event (MusicianCountChanged n)" "\<not> host_event (MemberJoined who name)"
  "\<not> host_event (MemberDisconnected who)" "\<not> host_event (MemberRevoked who)"
  "\<not> host_event (ProtocolViolation who what)" "\<not> host_event (MemberEjected who n)"
  by (simp_all add: host_event_def)

lemma frame_queue [frame_simps]:
  "policy (queue_roster s) = policy s" "flood (queue_roster s) = flood s"
  "policy (fan_out msg s) = policy s" "flood (fan_out msg s) = flood s"
  by (simp_all add: frame_defs queue_roster_def fan_out_def)

lemma frame_count [frame_simps]:
  "policy (note_musician_count s) = policy s" "flood (note_musician_count s) = flood s"
proof -
  have "policy (s\<lparr>sv_last_musician_count := n\<rparr>) = policy s" "flood (s\<lparr>sv_last_musician_count := n\<rparr>) = flood s" for n
    by (simp_all add: frame_defs)
  then show "policy (note_musician_count s) = policy s" "flood (note_musician_count s) = flood s"
    by (simp_all add: note_musician_count_def Let_def policy_event frame_event(2))
qed

lemma frame_disconnect [frame_simps]:
  "who \<noteq> HOST_MEMBER_ID \<Longrightarrow> policy (disconnect_member who s) = policy s"
  "flood (disconnect_member who s) = flood s"
  by (auto simp: disconnect_member_def Let_def frame_simps split: option.splits) (simp add: frame_defs upd_member_def)

lemma frame_violation [frame_simps]:
  "who \<noteq> HOST_MEMBER_ID \<Longrightarrow> policy (violation now who what s) = policy s"
  "flood (violation now who what s) = flood s"
  by (simp_all add: violation_def Let_def frame_simps split: option.split prod.split)

lemma frame_take_fanout:
  "take_fanout now who s = (ok, t) \<Longrightarrow> who \<noteq> HOST_MEMBER_ID \<Longrightarrow> policy t = policy s"
  "take_fanout now who s = (ok, t) \<Longrightarrow> flood t = flood s"
  by (auto simp: take_fanout_def Let_def frame_simps split: option.splits prod.splits if_splits)

lemma frame_flush:
  "flush_member_link env now who s = (out, t) \<Longrightarrow> policy t = policy s \<and> flood t = flood s"
  "farewell env now who reason s = (out, t) \<Longrightarrow> policy t = policy s \<and> flood t = flood s"
  by (auto simp: flush_member_link_def farewell_def frame_simps split: option.splits prod.splits if_splits)

lemma frame_fields [frame_simps]:
  "policy (s\<lparr>sv_avatar_cache := x1\<rparr>) = policy s" "flood (s\<lparr>sv_avatar_cache := x1\<rparr>) = flood s"
  "policy (s\<lparr>sv_avatar_waiters := x2\<rparr>) = policy s" "flood (s\<lparr>sv_avatar_waiters := x2\<rparr>) = flood s"
  "policy (s\<lparr>sv_members := x3\<rparr>) = policy s" "flood (s\<lparr>sv_members := x3\<rparr>) = flood s"
  "flood (s\<lparr>sv_audition := x4\<rparr>) = flood s" "flood (s\<lparr>sv_bcast_faders := x5\<rparr>) = flood s"
  "flood (s\<lparr>sv_metronome := x6\<rparr>) = flood s" "flood (s\<lparr>sv_metronome_enabled := x4\<rparr>) = flood s"
  "flood (s\<lparr>sv_revoked := x7\<rparr>) = flood s"
  by (simp_all add: frame_defs)

lemma frame_foldl:
  "(\<And>t x. policy (f t x) = policy t \<and> flood (f t x) = flood t) \<Longrightarrow>
   policy (foldl f s xs) = policy s \<and> flood (foldl f s xs) = flood s"
  by (induction xs arbitrary: s) auto

text \<open>One control message.\<close>

lemma frame_set_avatar:
  "from \<noteq> HOST_MEMBER_ID \<Longrightarrow> policy (ctl_set_avatar now from hash len s) = policy s"
  "flood (ctl_set_avatar now from hash len s) = flood s"
  by (auto simp: ctl_set_avatar_def Let_def frame_simps frame_take_fanout
      split: option.split prod.split if_split)

lemma frame_waiter: "policy (note_avatar_waiter hash who s) = policy s" "flood (note_avatar_waiter hash who s) = flood s"
  by (simp_all add: note_avatar_waiter_def Let_def frame_simps)

lemma frame_serve: "policy (serve_waiter hash t x) = policy t \<and> flood (serve_waiter hash t x) = flood t"
  by (simp add: serve_waiter_def frame_simps)

lemma frame_serve_all [frame_simps]:
  "policy (foldl (serve_waiter hash) s xs) = policy s" "flood (foldl (serve_waiter hash) s xs) = flood s"
  using frame_foldl [of "serve_waiter hash", OF frame_serve] by blast+

lemma frame_chunk:
  "from \<noteq> HOST_MEMBER_ID \<Longrightarrow> policy (ctl_avatar_chunk env now from hash index tot data s) = policy s"
  "flood (ctl_avatar_chunk env now from hash index tot data s) = flood s"
  by (simp_all add: ctl_avatar_chunk_def Let_def frame_simps split: option.split prod.split sum.split rx_step.split)

lemma frame_control:
  assumes "handle_control env now from msg s = (out, t)"
  shows "from \<noteq> HOST_MEMBER_ID \<Longrightarrow> policy t = policy s" and "flood t = flood s"
  using assms
  by (cases msg;
      auto simp: handle_control_def ctl_chat_def ctl_mixer_set_def ctl_metronome_set_def ctl_hear_self_def
        ctl_broadcast_mix_set_def ctl_broadcast_audition_def ctl_stream_ctl_def ctl_record_ctl_def
        ctl_pong_def ctl_bye_def ctl_set_name_def ctl_revoke_def ctl_avatar_request_def Let_def
        frame_simps frame_set_avatar frame_chunk frame_waiter frame_take_fanout
        split: option.splits prod.splits if_splits dest!: frame_flush)+

lemma frame_controls:
  "handle_controls env now from msgs s = (out, t) \<Longrightarrow>
   (from \<noteq> HOST_MEMBER_ID \<longrightarrow> policy t = policy s) \<and> flood t = flood s"
proof (induction msgs arbitrary: s out)
  case Nil
  then show ?case by simp
next
  case (Cons m ms)
  obtain o1 s1 where m: "handle_control env now from m s = (o1, s1)" by fastforce
  then obtain o2 where "handle_controls env now from ms s1 = (o2, t)"
    using Cons.prems by (auto split: prod.splits)
  then show ?case using Cons.IH frame_control [OF m] by simp
qed

lemma frame_transport:
  assumes "handle_transport env now src who counter x s = (out, t)"
  shows "who \<noteq> HOST_MEMBER_ID \<Longrightarrow> policy t = policy s" and "flood t = flood s"
  using assms
  by (auto simp: handle_transport_def Let_def frame_simps split: option.splits sum.splits prod.splits if_splits
      dest!: frame_controls frame_flush)

section \<open>The host's settings\<close>

text \<open>C6. A member who is not the host cannot act as one: whatever its authenticated packets carry, any number
  of messages in one delivery and violations included, the metronome, the broadcast mix, the
  audition, the revocation list and the requests handed to the stream and record drivers stay as
  they were.\<close>

theorem non_host_powerless:
  assumes "who \<noteq> HOST_MEMBER_ID"
  shows "case handle_transport env now src who counter ciphertext s of (out, t) \<Rightarrow>
    sv_metronome t = sv_metronome s \<and> sv_metronome_enabled t = sv_metronome_enabled s \<and>
    sv_bcast_faders t = sv_bcast_faders s \<and> sv_audition t = sv_audition s \<and>
    sv_revoked t = sv_revoked s \<and>
    filter host_event (sv_events t) = filter host_event (sv_events s)"
proof -
  obtain out t where h: "handle_transport env now src who counter ciphertext s = (out, t)" by fastforce
  show ?thesis using frame_transport(1) [OF h assms] by (simp add: h policy_def)
qed

theorem non_host_powerless_witness:
  "sv_revoked (snd (handle_transport sample_env 0 (addr_for 1) (MemberId 1) 0 [] sample_core)) =
   sv_revoked sample_core"
  using non_host_powerless [of "MemberId 1" sample_core sample_env 0 "addr_for 1" 0 "[]"]
  by (simp add: HOST_MEMBER_ID_def case_prod_beta)

section \<open>Handshake floods\<close>

text \<open>Key exchanges done so far and those the budget can still pay for by \<open>h\<close>.\<close>

definition dh_bound :: "nat \<Rightarrow> nat \<times> token_bucket \<Rightarrow> nat" where
  "dh_bound h f = fst f + bucket_allowance (snd f) h"

lemma available_refill: "bucket_available b now = (ok, b') \<Longrightarrow> b' = bucket_refill b now"
  by (simp add: bucket_available_def Let_def)

lemma refill_allowance: "now \<le> h \<Longrightarrow> bucket_allowance (bucket_refill b now) h \<le> bucket_allowance b h"
  unfolding bucket_allowance_def by (intro div_le_mono refill_millis_left)

lemma take_allowance:
  assumes "bucket_take b now = (ok, b')" "now \<le> h"
  shows "bucket_allowance b' h + (if ok then 1 else 0) \<le> bucket_allowance b h"
  using bucket.spend_grant [of b now h] bucket.spend_refuse [of now h b] assms by auto

lemma init_budget_dh:
  assumes "init_budget_take env now src s = (ok, t)" "now \<le> h"
  shows "dh_bound h (flood t) + (if ok then 1 else 0) \<le> dh_bound h (flood s)"
  using assms(1) refill_allowance [OF assms(2), of "sv_init_budget s"]
    take_allowance [OF _ assms(2), of "bucket_refill (sv_init_budget s) now"]
  by (fastforce simp: init_budget_take_def Let_def dh_bound_def flood_def
      split: if_splits prod.splits dest!: available_refill)

lemma frame_reject:
  "reject_gate env now ip s = (ok, t) \<Longrightarrow> flood t = flood s"
  by (auto simp: reject_gate_def Let_def flood_def split: if_splits prod.splits)

lemma frame_enter: "enter now src token h ses reply e d s = (out, t) \<Longrightarrow> flood t = flood s"
  by (auto simp: enter_def greet_def Let_def frame_simps split: option.splits)

lemma frame_encoder: "broadcast_encoder env role s = (ok, t) \<Longrightarrow> flood t = flood s"
  by (auto simp: broadcast_encoder_def flood_def split: if_splits sum.splits)

lemma frame_admit_seat:
  assumes "admit_seat env now src noise token r s = (out, t)"
  shows "flood t = flood s"
proof -
  have c: "capacity_reject env now src r pkt s = (out, t) \<Longrightarrow> flood t = flood s" for pkt
    by (auto simp: capacity_reject_def dest!: frame_reject split: if_splits prod.splits option.splits)
  show ?thesis
    using assms
    by (auto simp: admit_seat_def Let_def dest!: frame_encoder frame_enter c
        split: if_splits prod.splits sum.splits)
qed

lemma frame_admit_verified:
  assumes "admit_verified env now src noise token r s = (out, t)"
  shows "flood t = flood s"
  using assms
  by (auto simp: admit_verified_def Let_def frame_simps dest!: frame_admit_seat
      split: if_splits option.splits prod.splits live_check.splits)

lemma admit_dh:
  assumes a: "admit env now u src noise s = (out, t)" and h: "now \<le> h"
  shows "dh_bound h (flood t) \<le> dh_bound h (flood s)"
proof -
  obtain ok s1 where b: "init_budget_take env now src s = (ok, s1)" by fastforce
  note le = init_budget_dh [OF b h]
  let ?s2 = "s1\<lparr>sv_init_reads := wrap64 (sv_init_reads s1 + 1)\<rparr>"
  have "dh_bound h (flood ?s2) \<le> dh_bound h (flood s1) + 1"
    using wrap64_le [of "sv_init_reads s1 + 1"] by (simp add: dh_bound_def flood_def)
  then show ?thesis
    using a b le
    by (auto simp: admit_def Let_def dest!: frame_admit_verified split: if_splits sum.splits)
qed

lemma frame_cookie:
  "cookie_required now s = (ok, t) \<Longrightarrow> flood t = flood s"
  "cookie_challenge env now src pkt s = (out, t) \<Longrightarrow> flood t = flood s"
  "version_reject env now src v noise pkt s = (out, t) \<Longrightarrow> flood t = flood s"
  by (auto simp: cookie_required_def cookie_challenge_def version_reject_def Let_def flood_def
      dest!: frame_reject [unfolded flood_def] split: if_splits prod.splits option.splits)

lemma datagram_dh:
  assumes "handle_datagram env now u src data s = (out, t)" "now \<le> h"
  shows "dh_bound h (flood t) \<le> dh_bound h (flood s)"
proof -
  note gate = admit_dh [OF _ assms(2)]
  show ?thesis
    using assms(1)
    by (auto simp: handle_datagram_def Let_def split: sum.splits packet.splits if_splits prod.splits
        dest!: frame_transport(2) frame_cookie gate)
qed

lemma flood_fields [frame_simps]:
  "flood (s\<lparr>sv_decoded := y1\<rparr>) = flood s" "flood (s\<lparr>sv_sample_clock := y2\<rparr>) = flood s"
  "flood (s\<lparr>sv_tick_count := y2\<rparr>) = flood s" "flood (s\<lparr>sv_bcast_encoder := y3\<rparr>) = flood s"
  "flood (s\<lparr>sv_bcast_encodes := y2\<rparr>) = flood s" "flood (s\<lparr>sv_last_stats_ms := y2\<rparr>) = flood s"
  "flood (s\<lparr>sv_log_tail := y4\<rparr>) = flood s" "flood (s\<lparr>sv_log_budget := y5\<rparr>) = flood s"
  "flood (s\<lparr>sv_roster_dirty := y6\<rparr>) = flood s" "flood (s\<lparr>sv_roster_epoch := y2\<rparr>) = flood s"
  "flood (s\<lparr>sv_stream_status := y7\<rparr>) = flood s" "flood (s\<lparr>sv_last_stream_status_ms := y2\<rparr>) = flood s"
  "flood (s\<lparr>sv_broadcast_ready := y8\<rparr>) = flood s" "flood (s\<lparr>sv_record_status := y9\<rparr>) = flood s"
  "flood (s\<lparr>sv_record_stems := y6\<rparr>) = flood s" "flood (s\<lparr>sv_bcast_tap := y6\<rparr>) = flood s"
  "flood (s\<lparr>sv_events := y10\<rparr>) = flood s"
  by (simp_all add: flood_def)

lemma flood_each [frame_simps]: "each_member f s = (out, t) \<Longrightarrow> flood t = flood s"
  by (auto simp: each_member_def frame_simps)

lemma flood_log [frame_simps]: "flood (feed_server_log now s) = flood s"
  by (simp add: feed_server_log_def Let_def frame_simps split: option.split prod.split)

lemma flood_roster [frame_simps]: "flood (flush_roster s) = flood s"
  by (simp add: flush_roster_def Let_def frame_simps)

lemma flood_reap [frame_simps]: "flood (tick_reap now s) = flood s"
proof -
  have "flood (foldl (\<lambda>s who. push_event (MemberDisconnected who) (disconnect_member who s)) s ids) = flood s"
    for ids by (induction ids arbitrary: s) (simp_all add: frame_simps)
  then show ?thesis by (simp add: tick_reap_def Let_def frame_simps)
qed

lemma flood_stages [frame_simps]:
  "flood (tick_decode env s) = flood s" "flood (tick_broadcast_mix env clock s) = flood s"
  "flood (tick_stats now s) = flood s" "flood (tick_quiet now s) = flood s"
  by (auto simp: tick_decode_def tick_broadcast_mix_def tick_stats_def tick_quiet_def Let_def frame_simps flood_def
      dest: flood_each split: prod.split)
    (simp_all add: each_member_def queue_roster_def)

lemma flood_outputs:
  "tick_personal env clock s = (out, t) \<Longrightarrow> flood t = flood s"
  "tick_broadcast env s = (out, t) \<Longrightarrow> flood t = flood s"
  "tick_links env now s = (out, t) \<Longrightarrow> flood t = flood s"
  by (auto simp: tick_personal_def tick_broadcast_def tick_links_def Let_def frame_simps dest!: flood_each
      split: if_splits option.splits prod.splits sum.splits)

lemma flood_tick: "tick env now s = (out, t) \<Longrightarrow> flood t = flood s"
  by (auto simp: tick_def Let_def frame_simps dest!: flood_outputs split: prod.splits)

lemma flood_shutdown: "flood (snd (shutdown env now reason s)) = flood s"
proof -
  have "flood (snd (foldl (shutdown_one env now reason) (os, u) ids)) = flood u" for ids os u
  proof (induction ids arbitrary: os u)
    case Nil
    then show ?case by simp
  next
    case (Cons i ids)
    obtain o1 u1 where f: "farewell env now i reason u = (o1, u1)" by fastforce
    then show ?case using Cons.IH frame_flush(2) [OF f] by (simp add: shutdown_one_def frame_simps)
  qed
  then show ?thesis
    by (simp add: shutdown_def Let_def frame_simps case_prod_beta)
qed

text \<open>The moment of an input, where a limit depends on it.\<close>

fun input_ms :: "server_input \<Rightarrow> nat" where
  "input_ms (Datagram now _ _ _) = now"
| "input_ms _ = 0"

lemma step_dh:
  assumes "input_ms i \<le> h"
  shows "dh_bound h (flood (snd (server_step env s i))) \<le> dh_bound h (flood s)"
proof (cases i)
  case (Datagram now u src data)
  obtain out t where d: "handle_datagram env now u src data s = (out, t)" by fastforce
  show ?thesis using datagram_dh [OF d] assms by (simp add: Datagram d)
next
  case (Tick now)
  obtain out t where d: "tick env now s = (out, t)" by fastforce
  show ?thesis using flood_tick [OF d] by (simp add: Tick d)
next
  case (DropPeer addr)
  then show ?thesis by (simp add: drop_peer_def frame_simps split: option.split prod.split)
qed (simp_all add: flood_shutdown set_stream_status_def set_broadcast_readiness_def set_record_status_def
    set_broadcast_tap_def restore_revoked_def take_events_def queue_stream_status_def Let_def frame_simps)

text \<open>A flood cannot buy more than the budget: over any run of a fresh core, however many handshake inits
  arrive and from however many addresses, the server has performed at most 64 key exchanges and 32
  for every second up to the last one.\<close>

theorem handshake_reads_bounded:
  assumes "\<forall>i \<in> set inputs. input_ms i \<le> h"
  shows "sv_init_reads (server_run env (server_new env tail cfg) inputs) \<le>
    INIT_BURST + INIT_RATE_PER_SEC * h div 1000"
proof -
  have "dh_bound h (flood (server_run env s inputs)) \<le> dh_bound h (flood s)" for s
    using assms
  proof (induction inputs arbitrary: s)
    case Nil
    then show ?case by (simp add: server_run_def)
  next
    case (Cons i xs)
    then show ?case
      using le_trans [OF Cons.IH [of "snd (server_step env s i)"] step_dh [of i h env s]]
      by (simp add: server_run_def)
  qed
  from this [of "server_new env tail cfg"] show ?thesis
    by (simp add: dh_bound_def flood_def server_new_def bucket_allowance_def millis_left_def bucket_new_def)
qed

theorem handshake_reads_bounded_witness:
  "sv_init_reads (server_run sample_env sample_core [join 5 0 Musician, join 900 1 Listener]) \<le> 64 + 32 * 900 div 1000"
  unfolding sample_core_def by (rule handshake_reads_bounded) (simp add: join_def)

section \<open>No amplification\<close>

definition verified :: "('hs, 'ts, 'op) env \<Rightarrow> nat \<Rightarrow> bytes \<Rightarrow> server_config \<Rightarrow> bool" where
  "verified env u noise cfg \<longleftrightarrow>
     (\<exists>hp r. read_init (e_crypto env) (e_serde env) (cf_server_private cfg) (cf_session_id cfg)
          PROTOCOL_VERSION noise = Ok (hp, r) \<and>
        verify_token (e_crypto env) (e_serde env) (cf_issuer_pk cfg) (cf_session_id cfg)
          (cf_server_public cfg) (hp_token hp) (hp_signature hp) u = Ok ())"

text \<open>Packets of a stranger: no transport packet, no init with a token that verifies.\<close>

definition stranger :: "('hs, 'ts, 'op) env \<Rightarrow> nat \<Rightarrow> bytes \<Rightarrow> server_config \<Rightarrow> bool" where
  "stranger env u data cfg \<longleftrightarrow>
     (case parse data of
        Inl _ \<Rightarrow> True
      | Inr p \<Rightarrow> (case p of
            Transport _ _ _ \<Rightarrow> False
          | HandshakeInit _ noise \<Rightarrow> \<not> verified env u noise cfg
          | CookiedInit _ _ noise \<Rightarrow> \<not> verified env u noise cfg
          | _ \<Rightarrow> True))"

lemma admit_unverified:
  assumes "\<not> verified env u noise (sv_cfg s)"
  shows "fst (admit env now u src noise s) = []"
proof -
  obtain ok s1 where b: "init_budget_take env now src s = (ok, s1)" by fastforce
  have cfg: "sv_cfg s1 = sv_cfg s" using init_budget_facts [OF b] by simp
  show ?thesis
    using assms b cfg by (auto simp: admit_def Let_def verified_def split: sum.splits prod.splits)
qed



end
