(* ===== verification/ServerLife.thy ===== *)
theory ServerLife
  imports ServerGuards
begin

text \<open>
  How a member's time in the session ends and what a returning peer can rely on: ejection after too
  many violations, the reaping and the quiet flag of the tick, the cookie round trip, and two
  behaviours the code does not intend.
\<close>

section \<open>Ejection\<close>

lemma get_member_frames [simp]:
  "get_member (push_event e s) i = get_member s i" "get_member (queue_roster s) i = get_member s i"
  "get_member (note_musician_count s) i = get_member s i"
  "get_member (s\<lparr>sv_audition := b\<rparr>) i = get_member s i"
  by (simp_all add: push_event_def queue_roster_def note_musician_count_def Let_def get_member_def)

lemma get_member_disconnect:
  "get_member (disconnect_member who s) i =
     (if i = who then map_option (\<lambda>m. if mb_connected m then disconnected m else m) (get_member s who)
      else get_member s i)"
  by (auto simp: disconnect_member_def Let_def get_member_upd split: option.splits)

lemma disconnected_not_connected [simp]: "\<not> mb_connected (disconnected m)"
  by (simp add: disconnected_def)

lemma violation_effect:
  assumes "get_member s who = Some m"
  shows "\<exists>m'. get_member (violation now who what s) who = Some m' \<and>
    mb_violation_budget m' = snd (bucket_take (mb_violation_budget m) now) \<and>
    (if fst (bucket_take (mb_violation_budget m) now) then mb_connected m' = mb_connected m
     else \<not> mb_connected m')"
proof -
  obtain paid b where take: "bucket_take (mb_violation_budget m) now = (paid, b)" by fastforce
  let ?m = "m\<lparr>mb_violations := wrap64 (mb_violations m + 1), mb_violation_budget := b\<rparr>"
  have "get_member (violation now who what s) who =
      Some (if paid then ?m else if mb_connected ?m then disconnected ?m else ?m)"
    using assms take by (simp add: violation_def Let_def get_member_upd get_member_disconnect)
  then show ?thesis using take by (auto simp: disconnected_def)
qed

lemma violations_grants:
  assumes "get_member s who = Some m" "mb_connected m \<Longrightarrow> bucket.grants (mb_violation_budget m) ts < length ts"
  shows "\<exists>m'. get_member (foldl (\<lambda>s (t, what). violation t who what s) s (zip ts ws)) who = Some m' \<and>
    (length ws = length ts \<longrightarrow> \<not> mb_connected m')"
  using assms
proof (induction ts arbitrary: s m ws)
  case Nil
  then show ?case by auto
next
  case (Cons t ts)
  show ?case
  proof (cases ws)
    case Nil
    then show ?thesis using Cons.prems(1) by simp
  next
    case (Cons w ws')
    let ?s = "violation t who w s"
    obtain m' where m': "get_member ?s who = Some m'"
      "mb_violation_budget m' = snd (bucket_take (mb_violation_budget m) t)"
      "if fst (bucket_take (mb_violation_budget m) t) then mb_connected m' = mb_connected m else \<not> mb_connected m'"
      using violation_effect [OF Cons.prems(1)] by blast
    have "bucket.grants (mb_violation_budget m') ts < length ts" if "mb_connected m'"
      using that m' Cons.prems(2) by (auto simp: case_prod_beta Let_def split: if_splits)
    then show ?thesis using Cons.IH [OF m'(1)] Cons by simp
  qed
qed

text \<open>Misbehaviour ends a connection: a member with a fresh budget who commits more than 32 violations and
  one for every second is disconnected by the time it has, however the violations are spread; the
  roster entry stays.\<close>

theorem violations_eject:
  assumes "get_member s who = Some m" "mb_violation_budget m = bucket_new VIOLATION_BURST VIOLATION_REFILL_PER_SEC"
    and "\<forall>(t, _) \<in> set vs. t \<le> h" "VIOLATION_BURST + h div 1000 < length vs"
  shows "\<exists>m'. get_member (foldl (\<lambda>s (t, what). violation t who what s) s vs) who = Some m' \<and> \<not> mb_connected m'"
proof -
  have "bucket.grants (mb_violation_budget m) (map fst vs) \<le>
      bucket_allowance (bucket_new VIOLATION_BURST VIOLATION_REFILL_PER_SEC) h"
    unfolding assms(2) by (rule bucket.grants_bound) (use assms(3) in auto)
  also have "\<dots> = VIOLATION_BURST + h div 1000"
    by (simp add: bucket_allowance_def millis_left_def bucket_new_def)
  finally have "bucket.grants (mb_violation_budget m) (map fst vs) < length (map fst vs)" using assms(4) by simp
  then show ?thesis
    using violations_grants [OF assms(1), of "map fst vs" "map snd vs"] by (simp add: zip_map_fst_snd)
qed

definition one_member :: "(unit, unit) server_core" where
  "one_member = sample_core\<lparr>sv_members := bm_insert (MemberId 1)
     (fresh_member 0 (addr_for 1) (token_for 1 Musician) (session_new ())
        \<lparr>rc_init_hash = [], rc_resp = [], rc_at_ms = 0\<rparr> None None None) bm_empty\<rparr>"

theorem violations_eject_witness:
  "\<exists>m'. get_member (foldl (\<lambda>s (t, what). violation t (MemberId 1) what s) one_member
     (replicate 34 (500, ''roster from client''))) (MemberId 1) = Some m' \<and> \<not> mb_connected m'"
proof -
  obtain m where m: "get_member one_member (MemberId 1) = Some m"
    "mb_violation_budget m = bucket_new VIOLATION_BURST VIOLATION_REFILL_PER_SEC"
    by (simp add: one_member_def get_member_def fresh_member_def)
  show ?thesis by (rule violations_eject [OF m, of _ 500]) simp_all
qed

section \<open>Reaping\<close>

lemma disconnect_twice:
  "map_option (\<lambda>m. if mb_connected m then disconnected m else m)
     (map_option (\<lambda>m. if mb_connected m then disconnected m else m) x) =
   map_option (\<lambda>m. if mb_connected m then disconnected m else m) x"
  by (cases x) simp_all

lemma get_member_reap_fold:
  "get_member (foldl (\<lambda>s who. push_event (MemberDisconnected who) (disconnect_member who s)) s ids) i =
     (if i \<in> set ids then map_option (\<lambda>m. if mb_connected m then disconnected m else m) (get_member s i)
      else get_member s i)"
  by (induction ids arbitrary: s) (simp_all add: get_member_disconnect disconnect_twice)

lemma tick_reap_member:
  assumes "get_member s i = Some m"
  shows "get_member (tick_reap now s) i = Some (if is_gone now (sv_cfg s) m then disconnected m else m)"
proof -
  let ?gone = "map fst (filter (\<lambda>(_, m). is_gone now (sv_cfg s) m) (bm_entries (sv_members s)))"
  have gone: "i \<in> set ?gone \<longleftrightarrow> is_gone now (sv_cfg s) m"
    using assms by (force simp: get_member_def bm_entries_iff)
  have "get_member (tick_reap now s) i =
      (if i \<in> set ?gone then map_option (\<lambda>m. if mb_connected m then disconnected m else m) (get_member s i)
       else get_member s i)"
    by (simp add: tick_reap_def Let_def get_member_reap_fold del: set_map)
  then show ?thesis using assms gone by (auto simp: is_gone_def)
qed

lemma get_member_quiet:
  "get_member (tick_quiet now s) i = map_option (\<lambda>m. m\<lparr>mb_quiet := is_quiet now m\<rparr>) (get_member s i)"
  by (simp add: tick_quiet_def Let_def queue_roster_def get_member_def)

text \<open>The other stages leave who is there, and when they were last heard, alone.\<close>

definition presence :: "('ts, 'op) member \<Rightarrow> bool \<times> nat" where
  "presence m = (mb_connected m, mb_last_heard_ms m)"

definition present :: "('ts, 'op) server_core \<Rightarrow> member_id \<Rightarrow> (bool \<times> nat) option" where
  "present s i = map_option presence (get_member s i)"

lemma presence_fields [simp]:
  "presence (m\<lparr>mb_jitter := a\<rparr>) = presence m" "presence (m\<lparr>mb_decoder := b\<rparr>) = presence m"
  "presence (m\<lparr>mb_encoder := c\<rparr>) = presence m" "presence (m\<lparr>mb_session := d\<rparr>) = presence m"
  "presence (m\<lparr>mb_send_seq := e\<rparr>) = presence m" "presence (m\<lparr>mb_link := f\<rparr>) = presence m"
  "presence (m\<lparr>mb_avatar_tx := g\<rparr>) = presence m" "presence (m\<lparr>mb_stats_prev := h\<rparr>) = presence m"
  "presence (member_send msg m) = presence m" "presence (meter fp pcm m) = presence m"
  by (simp_all add: presence_def member_send_def meter_def Let_def)

lemma present_cong: "sv_members t = sv_members s \<Longrightarrow> present t = present s"
  by (rule ext) (simp add: present_def get_member_def)

lemma present_fields [simp]:
  "present (s\<lparr>sv_sample_clock := n\<rparr>) = present s" "present (s\<lparr>sv_tick_count := n\<rparr>) = present s"
  "present (s\<lparr>sv_decoded := d\<rparr>) = present s" "present (s\<lparr>sv_bcast_encoder := e\<rparr>) = present s"
  "present (s\<lparr>sv_bcast_encodes := n\<rparr>) = present s" "present (s\<lparr>sv_last_stats_ms := n\<rparr>) = present s"
  "present (s\<lparr>sv_roster_dirty := b, sv_roster_epoch := n\<rparr>) = present s"
  "present (s\<lparr>sv_log_tail := lt, sv_log_budget := bk\<rparr>) = present s"
  by (rule present_cong; simp)+

lemma present_each:
  assumes "each_member f s = (out, t)" "\<And>i m. presence (snd (f i m)) = presence m"
  shows "present t = present s"
  using assms by (auto simp: each_member_def present_def get_member_def option.map_comp comp_def)

lemma present_map:
  assumes "\<And>i m. presence (f i m) = presence m"
  shows "present (s\<lparr>sv_members := bm_map f (sv_members s)\<rparr>) = present s"
  using assms by (auto simp: present_def get_member_def option.map_comp comp_def)

lemma present_upd:
  "(\<And>m. presence (f m) = presence m) \<Longrightarrow> present (upd_member who f s) = present s"
  by (auto simp: present_def get_member_upd option.map_comp comp_def)

lemma present_tick_decode: "present (tick_decode env s) = present s"
proof -
  obtain d t where e: "each_member (decode_member env (sv_bcast_tap s)) s = (d, t)" by fastforce
  have "presence (snd (decode_member env tap i m)) = presence m" for tap i m
    by (simp add: decode_member_def Let_def split: prod.split option.split)
  then have "present t = present s" by (rule present_each [OF e])
  then show ?thesis by (simp add: tick_decode_def e)
qed

lemma present_tick_mix: "present (tick_broadcast_mix env clock s) = present s"
  by (rule present_cong) (simp add: tick_broadcast_mix_def Let_def split: prod.split)

lemma presence_send_frame: "presence (snd (send_frame env ts dur pay i m)) = presence m"
  by (simp add: send_frame_def Let_def split: option.split prod.split)

lemma present_tick_personal: "tick_personal env clock s = (out, t) \<Longrightarrow> present t = present s"
  unfolding tick_personal_def Let_def
  by (erule present_each)
    (simp add: personal_member_def Let_def presence_send_frame split: option.split prod.split sum.split)

lemma present_tick_broadcast:
  assumes "tick_broadcast env s = (out, t)"
  shows "present t = present s"
proof -
  have same: "present t = present u" if "each_member (\<lambda>who m. if listening m
      then send_frame env c Ms20 p who m else ([], m)) u = (out, t)" for p c and u :: "('a, 'b) server_core"
    by (rule present_each [OF that]) (simp add: presence_send_frame)
  show ?thesis
    using assms by (auto simp: tick_broadcast_def Let_def dest: same
        split: if_splits option.splits prod.splits sum.splits)
qed

lemma present_tick_stats: "present (tick_stats now s) = present s"
proof -
  have "presence (report_member m) = presence m" for m :: "('a, 'b) member"
    by (simp add: report_member_def Let_def)
  then show ?thesis
    using present_map [of "\<lambda>_. report_member" "s\<lparr>sv_last_stats_ms := now\<rparr>"] by (simp add: tick_stats_def)
qed

lemma present_fan_out: "present (fan_out msg s) = present s"
  unfolding fan_out_def by (rule present_map) simp

lemma present_flush_roster: "present (flush_roster s) = present s"
  by (simp add: flush_roster_def Let_def present_fan_out)

lemma present_feed_log: "present (feed_server_log now s) = present s"
  by (simp add: feed_server_log_def Let_def present_upd split: option.split prod.split)

lemma presence_poll: "presence (snd (poll_and_seal env now i m)) = presence m"
  by (simp add: poll_and_seal_def Let_def split: option.split prod.split)

lemma present_tick_links: "tick_links env now s = (out, t) \<Longrightarrow> present t = present s"
  unfolding tick_links_def
  by (erule present_each) (simp add: link_member_def presence_poll split: prod.split)

lemma tick_stages:
  assumes "tick env now s = (out, t)"
  obtains s7 where "t = tick_quiet now (tick_reap now s7)" "present s7 = present s" "sv_cfg s7 = sv_cfg s"
proof -
  obtain s7 where t: "t = tick_quiet now (tick_reap now s7)" and "present s7 = present s"
  proof -
    let ?s2 = "tick_broadcast_mix env (sv_sample_clock s)
      (tick_decode env (s\<lparr>sv_sample_clock := wrap64 (sv_sample_clock s + TICK_SAMPLES)\<rparr>))"
    obtain o1 s3 where s3: "tick_personal env (sv_sample_clock s) ?s2 = (o1, s3)" by fastforce
    obtain o2 s4 where s4: "tick_broadcast env s3 = (o2, s4)" by fastforce
    let ?s6 = "feed_server_log now (flush_roster (tick_stats now
      (s4\<lparr>sv_tick_count := wrap64 (sv_tick_count s4 + 1)\<rparr>)))"
    obtain o3 s7 where s7: "tick_links env now ?s6 = (o3, s7)" by fastforce
    have "present s7 = present s"
      using present_tick_personal [OF s3] present_tick_broadcast [OF s4] present_tick_links [OF s7]
      by (simp add: present_tick_decode present_tick_mix present_tick_stats present_flush_roster present_feed_log)
    moreover have "t = tick_quiet now (tick_reap now s7)"
      using assms s3 s4 s7 by (simp add: tick_def Let_def)
    ultimately show thesis by (rule that [rotated])
  qed
  moreover have "keeps s7 t" unfolding t by (intro keeps_tick_quiet keeps_tick_reap keeps_refl)
  moreover have "keeps s t" by (rule keeps_tick [OF assms keeps_refl])
  ultimately show thesis using that keeps_same_facts by metis
qed

text \<open>C23. After every tick the roster is honest about who is there: a member is connected exactly when it
  was, was heard within the member timeout and has a control link that has not given up; it keeps its
  seat and the time it was last heard either way, and the quiet flag is set for exactly the connected members unheard from for
  two seconds.\<close>

theorem tick_reaps:
  assumes "tick env now s = (out, t)" "get_member s who = Some m"
  shows "\<exists>m'. get_member t who = Some m' \<and> mb_last_heard_ms m' = mb_last_heard_ms m \<and>
    (mb_connected m' \<longleftrightarrow> mb_connected m \<and> now - mb_last_heard_ms m < cf_member_timeout_ms (sv_cfg s) \<and>
       \<not> link_is_dead (mb_link m')) \<and>
    (mb_quiet m' \<longleftrightarrow> mb_connected m' \<and> MEMBER_QUIET_AFTER_MS \<le> now - mb_last_heard_ms m)"
proof -
  obtain s7 where t: "t = tick_quiet now (tick_reap now s7)" and p: "present s7 = present s" "sv_cfg s7 = sv_cfg s"
    by (rule tick_stages [OF assms(1)])
  obtain m7 where m7: "get_member s7 who = Some m7" "presence m7 = presence m"
    using assms(2) fun_cong [OF p(1), of who] by (auto simp: present_def)
  show ?thesis
    using m7 by (auto simp: t get_member_quiet tick_reap_member [OF m7(1)] p(2) presence_def is_gone_def
        is_quiet_def disconnected_def not_le)
qed

theorem tick_reaps_witness:
  "\<exists>m. get_member (snd (tick sample_env 20000 one_member)) (MemberId 1) = Some m \<and> \<not> mb_connected m"
proof -
  obtain out t where tk: "tick sample_env 20000 one_member = (out, t)" by fastforce
  obtain m where m: "get_member one_member (MemberId 1) = Some m" "mb_last_heard_ms m = 0"
    by (simp add: one_member_def get_member_def fresh_member_def)
  have "cf_member_timeout_ms (sv_cfg one_member) = 10000"
    by (simp add: one_member_def sample_core_def server_new_def sample_cfg_def config_new_def Let_def)
  then show ?thesis using tick_reaps [OF tk m(1)] m(2) tk by auto
qed

section \<open>The cookie round trip\<close>

lemma cookie_epoch_later:
  assumes "now \<le> later" "later div COOKIE_ROTATION_MS \<le> Suc (now div COOKIE_ROTATION_MS)"
    "later div COOKIE_ROTATION_MS < 2 ^ 64"
  shows "cookie_epoch later = cookie_epoch now \<or>
    (cookie_epoch later \<noteq> 0 \<and> cookie_epoch later - 1 = cookie_epoch now)"
proof -
  have "now div COOKIE_ROTATION_MS \<le> later div COOKIE_ROTATION_MS" by (rule div_le_mono [OF assms(1)])
  then consider "later div COOKIE_ROTATION_MS = now div COOKIE_ROTATION_MS"
    | "later div COOKIE_ROTATION_MS = Suc (now div COOKIE_ROTATION_MS)"
    using assms(2) by linarith
  then show ?thesis
  proof cases
    case 1
    then show ?thesis by (simp add: cookie_epoch_def)
  next
    case 2
    have "unat (cookie_epoch later) = later div COOKIE_ROTATION_MS"
      using assms(3) by (simp add: cookie_epoch_def unat_of_nat take_bit_eq_mod)
    then have "cookie_epoch later \<noteq> 0" using 2 by (metis Zero_not_Suc unat_0)
    then show ?thesis using 2 by (simp add: cookie_epoch_def)
  qed
qed

text \<open>A joiner who follows the protocol gets past the flood gate: when the server answers its init
  with a challenge, the client opens it to a cookie which the same address can present in the same
  or the next two-minute epoch, to this server state or any later one of the same server.\<close>

theorem cookie_accepted:
  assumes "mac_widths (e_crypto env)" "aead_widths (e_crypto env)" "aead_opens (e_crypto env)"
    and "cookie_challenge env now src init_packet s = (out, t)" "out \<noteq> []"
    and "now \<le> later" "later div COOKIE_ROTATION_MS \<le> Suc (now div COOKIE_ROTATION_MS)"
      "later div COOKIE_ROTATION_MS < 2 ^ 64"
    and "cf_server_private (sv_cfg u) = cf_server_private (sv_cfg s)" "sock_ip dst = sock_ip src"
  shows "\<exists>dg nonce sealed cookie. out = [(src, dg)] \<and> length dg < length init_packet \<and>
    parse dg = Ok (CookieChallenge nonce sealed) \<and>
    open_cookie_challenge (e_crypto env) (sv_cookie_reply_key s) nonce sealed init_packet = Some cookie \<and>
    cookie_valid env later dst cookie u"
proof -
  obtain k where k: "sv_cookie_reply_key s = CookieReplyKey k" by (cases "sv_cookie_reply_key s")
  let ?c = "e_crypto env"
  let ?ck = "cookie_key ?c (cf_server_private (sv_cfg s)) (cookie_epoch now)"
  let ?n = "challenge_nonce ?c ?ck (sock_ip src) init_packet"
  let ?cookie = "cookie_for ?c ?ck (sock_ip src)"
  let ?dg = "build_cookie_challenge ?c (CookieReplyKey k) ?ck (sock_ip src) init_packet"
  have out: "out = [(src, ?dg)]" and long: "CHALLENGE_MIN_INIT_BYTES \<le> length init_packet"
    using assms(4,5) k by (auto simp: cookie_challenge_def Let_def split: if_splits prod.splits)
  have "parse ?dg = Ok (CookieChallenge ?n (xaead_encrypt ?c k ?n init_packet ?cookie))"
    unfolding build_cookie_challenge_bytes
    using assms(1-3) by (intro parse_packet_bytes) (simp add: mac_lengths aead_widths_def)
  moreover have "open_cookie_challenge ?c (sv_cookie_reply_key s) ?n
      (xaead_encrypt ?c k ?n init_packet ?cookie) init_packet = Some ?cookie"
    using assms(1-3) by (simp add: k open_cookie_challenge_def aead_opens_def mac_lengths)
  moreover have "length ?dg < length init_packet"
    using length_build_cookie_challenge [OF assms(1,2)] long by simp
  moreover have "cookie_valid env later dst ?cookie u"
    using cookie_epoch_later [OF assms(6-8)] assms(9,10)
    by (auto simp: cookie_valid_def Let_def cookie_matches_def equal_mac_iff)
  ultimately show ?thesis using out by blast
qed

theorem cookie_accepted_witness:
  "\<exists>dg nonce sealed cookie. cookie_challenge sample_env 1000 (addr_for 1) (replicate 64 1) sample_core =
      ([(addr_for 1, dg)], snd (cookie_challenge sample_env 1000 (addr_for 1) (replicate 64 1) sample_core)) \<and>
    parse dg = Ok (CookieChallenge nonce sealed) \<and> cookie_valid sample_env 121000 (addr_for 1) cookie sample_core"
proof -
  have paid: "fst (bucket_take (sv_challenge_budget sample_core) 1000)"
    by (simp add: sample_core_def server_new_def Let_def sample_cfg_def bucket_take_def bucket_refill_def
      bucket_new_def)
  obtain out t where c: "cookie_challenge sample_env 1000 (addr_for 1) (replicate 64 1) sample_core = (out, t)"
    by fastforce
  then have ne: "out \<noteq> []" using paid by (auto simp: cookie_challenge_def Let_def split: prod.splits)
  have laws: "mac_widths (e_crypto sample_env)" "aead_widths (e_crypto sample_env)" "aead_opens (e_crypto sample_env)"
    using sample_crypto_laws by (simp_all add: sample_env_def)
  show ?thesis
    using cookie_accepted [OF laws c ne, of 121000 sample_core "addr_for 1"] c by auto
qed

section \<open>Two behaviours the code does not intend\<close>

text \<open>A line popped from the ring is gone when the budget refuses it, and no counter says so.\<close>

lemma log_line_lost:
  assumes "link_pending_len link < SERVER_LOG_HIGH_WATER" "bucket_take budget now = (False, budget')"
    "lr_dropped tail = 0" "lr_lines tail = l # ls"
  shows "\<exists>rest. feed_lines now link tail budget = (link, rest, budget') \<and> lr_lines rest = ls \<and> lr_dropped rest = 0"
  using assms by (subst feed_lines.simps) (simp add: tail_take_def Let_def)

text \<open>The rest of a delivered batch is handled after the sender has left: a chat line behind a
  farewell still reaches the room.\<close>

lemma chat_after_bye:
  assumes "get_member s who = Some m" "mb_connected m" "bucket_take (mb_fanout_budget m) now = (True, b)"
  shows "snd (handle_controls env now who [Bye r, Chat who' text] s) =
      fan_out (Chat who text) (upd_member who (\<lambda>m. m\<lparr>mb_fanout_budget := b\<rparr>) (ctl_bye who s)) \<and>
    (\<exists>m'. get_member (ctl_bye who s) who = Some m' \<and> \<not> mb_connected m')"
proof -
  have gone: "get_member (ctl_bye who s) who = Some (disconnected m)"
    using assms(1,2) by (simp add: ctl_bye_def get_member_disconnect)
  then have "take_fanout now who (ctl_bye who s) =
      (True, upd_member who (\<lambda>m. m\<lparr>mb_fanout_budget := b\<rparr>) (ctl_bye who s))"
    using assms(3) by (simp add: take_fanout_def disconnected_def)
  then show ?thesis using gone by (simp add: handle_control_def ctl_chat_def Let_def)
qed

end
