(* ===== verification/Strings.thy ===== *)
theory Strings
  imports Text
begin

text \<open>
  What the code uses of the standard library's string search, on the bytes of UTF-8 text: \<open>find\<close>,
  \<open>contains\<close>, \<open>starts_with\<close>, \<open>str_strip_prefix\<close>, \<open>trim_end_matches\<close>, \<open>replace\<close> and \<open>from_utf8_lossy\<close>.  A
  pattern that is valid UTF-8 matches only at character boundaries, so searching bytes finds the same
  places.
\<close>

section \<open>Search\<close>

definition starts_with :: "bytes \<Rightarrow> bytes \<Rightarrow> bool" where
  "starts_with pat s \<longleftrightarrow> take (length pat) s = pat"

definition str_strip_prefix :: "bytes \<Rightarrow> bytes \<Rightarrow> bytes option" where
  "str_strip_prefix pat s = (if starts_with pat s then Some (drop (length pat) s) else None)"

definition ends_with :: "bytes \<Rightarrow> bytes \<Rightarrow> bool" where
  "ends_with pat s \<longleftrightarrow> starts_with (rev pat) (rev s)"

text \<open>The first place whose rest satisfies \<open>P\<close>.\<close>

fun find_at :: "(bytes \<Rightarrow> bool) \<Rightarrow> bytes \<Rightarrow> nat option" where
  "find_at P [] = None"
| "find_at P (b # s) = (if P (b # s) then Some 0 else map_option Suc (find_at P s))"

abbreviation find_sub :: "bytes \<Rightarrow> bytes \<Rightarrow> nat option" where
  "find_sub pat \<equiv> find_at (starts_with pat)"

definition contains :: "bytes \<Rightarrow> bytes \<Rightarrow> bool" where
  "contains pat s \<longleftrightarrow> find_sub pat s \<noteq> None"

lemma starts_with_self [simp]: "starts_with pat (pat @ s)"
  by (simp add: starts_with_def)

lemma starts_with_iff: "starts_with pat s \<longleftrightarrow> (\<exists>t. s = pat @ t)"
  by (metis append_take_drop_id starts_with_def starts_with_self)

lemma starts_with_local:
  "length pat \<le> length s \<Longrightarrow> starts_with pat (s @ t) = starts_with pat s"
  by (simp add: starts_with_def)

lemma find_at_Some:
  "find_at P s = Some i \<longleftrightarrow> i < length s \<and> P (drop i s) \<and> (\<forall>j < i. \<not> P (drop j s))"
proof (induction s arbitrary: i)
  case (Cons b s)
  show ?case
  proof (cases i)
    case 0
    then show ?thesis by auto
  next
    case (Suc k)
    then show ?thesis using Cons.IH [of k] by (auto simp: less_Suc_eq_0_disj)
  qed
qed simp

lemma find_at_None: "find_at P s = None \<longleftrightarrow> (\<forall>i < length s. \<not> P (drop i s))"
  by (induction s) (auto simp: less_Suc_eq_0_disj)

lemma find_at_less: "find_at P s = Some i \<Longrightarrow> i < length s"
  by (simp add: find_at_Some)

lemma find_at_cong: "(\<And>i. i < length s \<Longrightarrow> P (drop i s) = Q (drop i s)) \<Longrightarrow> find_at P s = find_at Q s"
proof (induction s)
  case (Cons b s)
  have "P (b # s) = Q (b # s)" using Cons.prems [of 0] by simp
  moreover have "find_at P s = find_at Q s" by (rule Cons.IH) (use Cons.prems [of "Suc _"] in auto)
  ultimately show ?case by simp
qed simp

text \<open>An occurrence that ends inside a prefix is an occurrence whatever follows.\<close>

lemma find_sub_append:
  assumes "find_sub pat s = Some i" "i + length pat \<le> length s"
  shows "find_sub pat (s @ t) = Some i"
proof -
  have "starts_with pat (drop j s @ t) = starts_with pat (drop j s)" if "j \<le> i" for j
    using that assms(2) by (intro starts_with_local) simp
  then show ?thesis using assms(1) by (auto simp: find_at_Some)
qed

section \<open>Trimming, joining and replacing\<close>

definition trim_end_matches :: "u8 list \<Rightarrow> bytes \<Rightarrow> bytes" where
  "trim_end_matches cs s = rev (dropWhile (\<lambda>b. b \<in> set cs) (rev s))"

definition trim_start_matches :: "u8 list \<Rightarrow> bytes \<Rightarrow> bytes" where
  "trim_start_matches cs s = dropWhile (\<lambda>b. b \<in> set cs) s"

fun str_join :: "bytes \<Rightarrow> bytes list \<Rightarrow> bytes" where
  "str_join sep [] = []"
| "str_join sep [s] = s"
| "str_join sep (s # ss) = s @ sep @ str_join sep ss"

text \<open>\<open>str::replace\<close> for a pattern of one byte.\<close>

definition replace_byte :: "u8 \<Rightarrow> bytes \<Rightarrow> bytes \<Rightarrow> bytes" where
  "replace_byte c with s = concat (map (\<lambda>b. if b = c then with else [b]) s)"

section \<open>Lossy decoding\<close>

text \<open>The bytes of an invalid sequence that are replaced together.\<close>

definition bad_len :: "bytes \<Rightarrow> nat" where
  "bad_len s =
     (if lead_len (s ! 0) < 2 \<or> \<not> cont_at s 1 \<or> \<not> second_ok (s ! 0) (s ! 1) then 1
      else if \<not> cont_at s 2 then 2 else 3)"

function from_utf8_lossy :: "bytes \<Rightarrow> bytes" where
  "from_utf8_lossy s =
     (if s = [] then []
      else if 0 < char_len s then take (char_len s) s @ from_utf8_lossy (drop (char_len s) s)
      else [239, 191, 189] @ from_utf8_lossy (drop (bad_len s) s))"
  by pat_completeness auto

termination
  by (relation "measure length") (auto simp: bad_len_def)

declare from_utf8_lossy.simps [simp del]

lemma lossy_valid: "valid_utf8 s \<Longrightarrow> from_utf8_lossy s = s"
proof (induction s rule: from_utf8_lossy.induct)
  case (1 s)
  show ?case
  proof (cases "s = []")
    case False
    then have v: "0 < char_len s" "valid_utf8 (drop (char_len s) s)" using valid_unfold [OF "1.prems"] by simp_all
    then have "from_utf8_lossy (drop (char_len s) s) = drop (char_len s) s" using "1.IH"(1) False by blast
    then show ?thesis using False v(1) by (subst from_utf8_lossy.simps) simp
  qed (simp add: from_utf8_lossy.simps)
qed

section \<open>Characters\<close>

text \<open>The characters of a text.\<close>

function str_chars :: "bytes \<Rightarrow> bytes list" where
  "str_chars s = (if s = [] \<or> char_len s = 0 then [] else take (char_len s) s # str_chars (drop (char_len s) s))"
  by pat_completeness auto

termination by (relation "measure length") auto

declare str_chars.simps [simp del]

text \<open>\<open>str::replace\<close> with a pattern that is not empty: matches are taken from the left and do not overlap.\<close>

function str_replace :: "bytes \<Rightarrow> bytes \<Rightarrow> bytes \<Rightarrow> bytes" where
  "str_replace pat to s =
     (if s = [] then []
      else if pat \<noteq> [] \<and> starts_with pat s then to @ str_replace pat to (drop (length pat) s)
      else hd s # str_replace pat to (tl s))"
  by pat_completeness auto

termination by (relation "measure (\<lambda>(_, _, s). length s)") auto

declare str_replace.simps [simp del]

end
