(* ===== verification/ChildLog.thy ===== *)
theory ChildLog
  imports Strings
begin

text \<open>
  What is kept of a child process's stderr, \<open>crates/stream/src/proc.rs\<close>: lines are read with a cap, URLs are
  redacted, and the last two lines become the reason a host is shown.  The pipe is a list of what its
  reads return.
\<close>

section \<open>Redaction\<close>

definition SCHEME_SEP :: bytes where "SCHEME_SEP = str ''://''"
definition REDACTED :: bytes where "REDACTED = str ''<redacted>''"
definition RELAY :: bytes where "RELAY = str ''<local relay>''"
abbreviation (input) STDERR_LINE_CAP :: nat where "STDERR_LINE_CAP \<equiv> 2048"
abbreviation (input) STDERR_TAIL_LINES :: nat where "STDERR_TAIL_LINES \<equiv> 2"

definition starts_ws :: "bytes \<Rightarrow> bool" where
  "starts_ws s \<longleftrightarrow> list_ex (\<lambda>w. starts_with w s) WHITESPACE"

definition is_scheme_byte :: "u8 \<Rightarrow> bool" where
  "is_scheme_byte b \<longleftrightarrow> 48 \<le> b \<and> b \<le> 57 \<or> 65 \<le> b \<and> b \<le> 90 \<or> 97 \<le> b \<and> b \<le> 122 \<or>
     b = 43 \<or> b = 45 \<or> b = 46"

text \<open>One past the last byte that is of no scheme character.\<close>

definition scheme_start :: "bytes \<Rightarrow> nat" where
  "scheme_start head = length head - length (takeWhile is_scheme_byte (rev head))"

definition URL_PUNCTUATION :: bytes where "URL_PUNCTUATION = str '':,.;)\"'' @ [39]"

text \<open>The part of \<open>rest\<close> that stands for the URL whose separator is at \<open>at\<close> and which ends at \<open>url_end\<close>.\<close>

definition url_replaced :: "bytes option \<Rightarrow> bytes \<Rightarrow> nat \<Rightarrow> nat \<Rightarrow> bytes" where
  "url_replaced relay rest at url_end =
     (let start = scheme_start (take at rest);
          url = trim_end_matches URL_PUNCTUATION (subslice start url_end rest)
      in if relay = Some url then take start rest @ RELAY else take (at + 3) rest @ REDACTED)"

definition url_end_from :: "nat \<Rightarrow> bytes \<Rightarrow> nat" where
  "url_end_from scheme_end rest =
     (case find_at starts_ws (drop scheme_end rest) of None \<Rightarrow> length rest | Some e \<Rightarrow> scheme_end + e)"

function redact_rest :: "bytes option \<Rightarrow> bytes \<Rightarrow> bytes" where
  "redact_rest relay rest =
     (case find_sub SCHEME_SEP rest of
        None \<Rightarrow> rest
      | Some at \<Rightarrow>
          (let url_end = url_end_from (at + 3) rest; out = url_replaced relay rest at url_end
           in if url_end = length rest then out else out @ redact_rest relay (drop url_end rest)))"
  by pat_completeness auto

termination
  by (relation "measure (\<lambda>(_, rest). length rest)")
    (auto simp: url_end_from_def dest: find_at_less split: option.splits)

declare redact_rest.simps [simp del]

definition redact :: "bytes \<Rightarrow> bytes option \<Rightarrow> bytes" where
  "redact line relay = (if \<not> contains SCHEME_SEP line then line else redact_rest relay line)"

section \<open>Lines\<close>

datatype reading = Data bytes | Interrupted | Failed

datatype line_read = Line bool bytes | ReadInterrupted | ReadFailed

text \<open>The byte after which a chunk's part of the line ends.\<close>

definition line_break :: "bytes \<Rightarrow> nat option" where
  "line_break buf = find_at (\<lambda>s. hd s = 10) buf"

definition extend_line :: "bytes \<Rightarrow> bytes \<Rightarrow> bytes" where
  "extend_line line chunk = line @ take (min (STDERR_LINE_CAP - length line) (length chunk)) chunk"

fun read_capped_line :: "bool \<Rightarrow> bytes \<Rightarrow> reading list \<Rightarrow> line_read \<times> reading list" where
  "read_capped_line any line [] = (Line any line, [])"
| "read_capped_line any line (Interrupted # rs) = (ReadInterrupted, rs)"
| "read_capped_line any line (Failed # rs) = (ReadFailed, rs)"
| "read_capped_line any line (Data buf # rs) =
     (if buf = [] then (Line any line, Data buf # rs)
      else case line_break buf of
        Some at \<Rightarrow>
          (Line True (extend_line line (take at buf)),
           if drop (at + 1) buf = [] then rs else Data (drop (at + 1) buf) # rs)
      | None \<Rightarrow> read_capped_line True (extend_line line buf) rs)"

text \<open>What a line is emitted as, if it is.\<close>

definition emitted :: "bytes option \<Rightarrow> bytes \<Rightarrow> bytes list" where
  "emitted relay line =
     (let text = trim_end_matches [13, 10] (from_utf8_lossy line)
      in if str_trim text = [] then [] else [redact text relay])"

fun reading_size :: "reading \<Rightarrow> nat" where
  "reading_size (Data b) = Suc (length b)"
| "reading_size _ = 1"

lemma read_capped_shorter:
  "read_capped_line any line rs = (r, rs') \<Longrightarrow>
   sum_list (map reading_size rs') \<le> sum_list (map reading_size rs) \<and>
   (r = ReadInterrupted \<or> (\<exists>l. r = Line True l \<and> \<not> any) \<longrightarrow>
      sum_list (map reading_size rs') < sum_list (map reading_size rs))"
proof (induction any line rs rule: read_capped_line.induct)
  case (4 any line buf rs)
  show ?case
  proof (cases "buf = []")
    case False
    then show ?thesis
    proof (cases "line_break buf")
      case None
      then show ?thesis using "4.IH" "4.prems" False by auto
    next
      case (Some at)
      then have "at < length buf" by (auto simp: line_break_def dest: find_at_less)
      then show ?thesis using Some "4.prems" False by auto
    qed
  qed (use "4.prems" in auto)
qed auto

function relay_stderr :: "bytes option \<Rightarrow> reading list \<Rightarrow> bytes list" where
  "relay_stderr relay rs =
     (case read_capped_line False [] rs of
        (Line True line, rs') \<Rightarrow> emitted relay line @ relay_stderr relay rs'
      | (ReadInterrupted, rs') \<Rightarrow> relay_stderr relay rs'
      | _ \<Rightarrow> [])"
  by pat_completeness auto

termination
  by (relation "measure (\<lambda>(_, rs). sum_list (map reading_size rs))")
    (auto dest!: sym [of _ "read_capped_line _ _ _"] read_capped_shorter)

declare relay_stderr.simps [simp del]

section \<open>The tail\<close>

definition stderr_tail_push :: "bytes list \<Rightarrow> bytes \<Rightarrow> bytes list" where
  "stderr_tail_push lines line = (if length lines = STDERR_TAIL_LINES then tl lines else lines) @ [line]"

definition tail_quote :: "bytes list \<Rightarrow> bytes option" where
  "tail_quote lines = (if lines = [] then None else Some (str_join (str ''; '') lines))"

text \<open>The tail after a child has written everything, and the reason it gives.\<close>

definition stderr_tail :: "bytes option \<Rightarrow> reading list \<Rightarrow> bytes list" where
  "stderr_tail relay rs = foldl stderr_tail_push [] (relay_stderr relay rs)"

definition child_reason :: "bytes option \<Rightarrow> reading list \<Rightarrow> bytes \<Rightarrow> bytes" where
  "child_reason relay rs status = (case tail_quote (stderr_tail relay rs) of None \<Rightarrow> status | Some q \<Rightarrow> q)"

section \<open>What stderr can tell\<close>

text \<open>
  What a child's stderr can tell a host: the log and the reason are functions of the lines, however the
  pipe cuts them, and of a URL only its scheme survives, so a stream key in one never reaches them.
  An interrupted read is the exception.
\<close>

section \<open>Redaction hides URLs\<close>

text \<open>The first separator of a text that goes on with one after \<open>pre\<close>.\<close>

definition first_sep :: "bytes \<Rightarrow> bool" where
  "first_sep pre \<longleftrightarrow> find_sub SCHEME_SEP (pre @ SCHEME_SEP) = Some (length pre)"

text \<open>A URL's body \<open>u\<close> runs to the end of the text or to white space.\<close>

definition url_then :: "bytes \<Rightarrow> bytes \<Rightarrow> bool" where
  "url_then u post \<longleftrightarrow> find_at starts_ws (u @ post) = (if post = [] then None else Some (length u))"

definition foreign :: "bytes option \<Rightarrow> bytes \<Rightarrow> bytes \<Rightarrow> bool" where
  "foreign relay pre u \<longleftrightarrow>
     relay \<noteq> Some (trim_end_matches URL_PUNCTUATION (drop (scheme_start pre) pre @ SCHEME_SEP @ u))"

text \<open>Two texts that differ in the bodies of URLs that are not the relay's.\<close>

inductive same_but_urls :: "bytes option \<Rightarrow> bytes \<Rightarrow> bytes \<Rightarrow> bool" for relay :: "bytes option" where
  same_plain: "\<not> contains SCHEME_SEP line \<Longrightarrow> same_but_urls relay line line"
| same_url: "first_sep pre \<Longrightarrow> url_then u1 post1 \<Longrightarrow> url_then u2 post2 \<Longrightarrow>
    foreign relay pre u1 \<Longrightarrow> foreign relay pre u2 \<Longrightarrow> same_but_urls relay post1 post2 \<Longrightarrow>
    same_but_urls relay (pre @ SCHEME_SEP @ u1 @ post1) (pre @ SCHEME_SEP @ u2 @ post2)"

lemma length_sep [simp]: "length SCHEME_SEP = 3"
  by (simp add: SCHEME_SEP_def)

lemma first_sep_append: "first_sep pre \<Longrightarrow> find_sub SCHEME_SEP (pre @ SCHEME_SEP @ rest) = Some (length pre)"
  using find_sub_append [of SCHEME_SEP "pre @ SCHEME_SEP" "length pre" rest] by (simp add: first_sep_def)

lemma scheme_start_le: "scheme_start head \<le> length head"
  by (simp add: scheme_start_def)

lemma redact_rest_Nil [simp]: "redact_rest relay [] = []"
  by (simp add: redact_rest.simps)

lemma redact_rest_url:
  assumes "first_sep pre" "url_then u post" "foreign relay pre u"
  shows "redact_rest relay (pre @ SCHEME_SEP @ u @ post) = pre @ SCHEME_SEP @ REDACTED @ redact_rest relay post"
proof -
  let ?rest = "pre @ SCHEME_SEP @ u @ post"
  have end_at: "url_end_from (length pre + 3) ?rest = length pre + 3 + length u"
    using assms(2) by (auto simp: url_end_from_def url_then_def)
  have "subslice (scheme_start pre) (length pre + 3 + length u) ?rest =
      drop (scheme_start pre) pre @ SCHEME_SEP @ u"
    using scheme_start_le [of pre] by (simp add: subslice_def)
  then have "url_replaced relay ?rest (length pre) (length pre + 3 + length u) = pre @ SCHEME_SEP @ REDACTED"
    using assms(3) by (simp add: url_replaced_def foreign_def)
  moreover have "drop (length pre + 3 + length u) ?rest = post" by simp
  ultimately show ?thesis
    using first_sep_append [OF assms(1), of "u @ post"] end_at
    by (subst redact_rest.simps) (auto simp: Let_def)
qed

lemma redact_as_rest: "redact line relay = redact_rest relay line"
  by (simp add: redact_def contains_def) (subst redact_rest.simps, simp)

lemma redact_same: "same_but_urls relay l1 l2 \<Longrightarrow> redact l1 relay = redact l2 relay"
  by (induction rule: same_but_urls.induct) (simp_all add: redact_as_rest redact_rest_url)

section \<open>Lines, however they arrive\<close>

function split_lines :: "bytes \<Rightarrow> bytes list" where
  "split_lines s =
     (if s = [] then []
      else case line_break s of None \<Rightarrow> [s] | Some at \<Rightarrow> take at s # split_lines (drop (at + 1) s))"
  by pat_completeness auto

termination
  by (relation "measure length") auto

declare split_lines.simps [simp del]

fun data_of :: "reading \<Rightarrow> bytes" where
  "data_of (Data b) = b"
| "data_of _ = []"

abbreviation undisturbed :: "reading list \<Rightarrow> bool" where
  "undisturbed rs \<equiv> list_all (\<lambda>r. data_of r \<noteq> []) rs"

abbreviation bytes_of :: "reading list \<Rightarrow> bytes" where
  "bytes_of rs \<equiv> concat (map data_of rs)"

lemma extend_line_take: "extend_line line chunk = line @ take (STDERR_LINE_CAP - length line) chunk"
  by (simp add: extend_line_def min_def)

lemma extend_twice:
  "length line \<le> STDERR_LINE_CAP \<Longrightarrow> extend_line (extend_line line a) b = extend_line line (a @ b)"
  by (simp add: extend_line_take diff_diff_add) (simp add: min_def)

lemma extend_bound: "length line \<le> STDERR_LINE_CAP \<Longrightarrow> length (extend_line line a) \<le> STDERR_LINE_CAP"
  by (simp add: extend_line_take)

lemma line_break_append:
  "line_break (a @ b) = (case line_break a of Some at \<Rightarrow> Some at | None \<Rightarrow> map_option ((+) (length a)) (line_break b))"
  unfolding line_break_def
proof (induction a)
  case Nil
  then show ?case by (cases "find_at (\<lambda>s. hd s = 10) b") simp_all
next
  case (Cons x a)
  then show ?case by (cases "find_at (\<lambda>s. hd s = 10) b") (simp_all split: option.split)
qed

lemma read_capped_spec:
  assumes "undisturbed rs" "length line \<le> STDERR_LINE_CAP"
  shows "case line_break (bytes_of rs) of
      None \<Rightarrow> read_capped_line any line rs = (Line (any \<or> rs \<noteq> []) (extend_line line (bytes_of rs)), [])
    | Some at \<Rightarrow> \<exists>rs'. read_capped_line any line rs = (Line True (extend_line line (take at (bytes_of rs))), rs') \<and>
        undisturbed rs' \<and> bytes_of rs' = drop (at + 1) (bytes_of rs)"
  using assms
proof (induction any line rs rule: read_capped_line.induct)
  case (1 any line)
  then show ?case by (simp add: line_break_def extend_line_def)
next
  case (4 any line buf rs)
  have buf: "buf \<noteq> []" using "4.prems" by simp
  show ?case
  proof (cases "line_break buf")
    case (Some at)
    then have "at < length buf" by (auto simp: line_break_def dest: find_at_less)
    then show ?thesis using Some buf "4.prems" by (auto simp: line_break_append)
  next
    case None
    then show ?thesis
      using "4.IH" [OF buf None _ extend_bound] "4.prems" buf
      by (auto simp: line_break_append extend_twice split: option.splits)
  qed
qed auto

lemma split_lines_step:
  "split_lines s = (if s = [] then [] else
     case line_break s of None \<Rightarrow> [s] | Some at \<Rightarrow> take at s # split_lines (drop (at + 1) s))"
  by (rule split_lines.simps)

lemma relay_stderr_lines:
  "undisturbed rs \<Longrightarrow>
   relay_stderr relay rs = concat (map (\<lambda>l. emitted relay (take STDERR_LINE_CAP l)) (split_lines (bytes_of rs)))"
proof (induction "length (bytes_of rs)" arbitrary: rs rule: less_induct)
  case less
  have ext: "extend_line [] x = take STDERR_LINE_CAP x" for x by (simp add: extend_line_take)
  note spec = read_capped_spec [OF less.prems, of "[]" False]
  show ?case
  proof (cases "line_break (bytes_of rs)")
    case None
    have "relay_stderr relay [] = []" by (simp add: relay_stderr.simps)
    moreover have "bytes_of rs \<noteq> [] \<or> rs = []" using less.prems by (cases rs) auto
    ultimately show ?thesis using spec None
      by (subst relay_stderr.simps) (auto simp: split_lines_step [of "bytes_of rs"] ext split: bool.split)
  next
    case (Some at)
    then obtain rs' where rs': "read_capped_line False [] rs = (Line True (take STDERR_LINE_CAP (take at (bytes_of rs))), rs')"
      "undisturbed rs'" "bytes_of rs' = drop (at + 1) (bytes_of rs)"
      using spec by (auto simp: ext)
    have "at < length (bytes_of rs)" using Some by (auto simp: line_break_def dest: find_at_less)
    then have "relay_stderr relay rs' =
        concat (map (\<lambda>l. emitted relay (take STDERR_LINE_CAP l)) (split_lines (bytes_of rs')))"
      using less.hyps [of rs'] rs'(2,3) by simp
    moreover have "bytes_of rs \<noteq> []" by (rule notI) (use Some in \<open>simp only: line_break_def find_at.simps option.distinct\<close>)
    ultimately show ?thesis using rs' Some
      by (subst relay_stderr.simps) (auto simp: split_lines_step [of "bytes_of rs"])
  qed
qed

section \<open>A blank line\<close>

lemma find_map_rev: "find P xs = Some x \<Longrightarrow> x \<in> set xs \<and> P x"
  by (induction xs) (auto split: if_splits)

text \<open>Trimming white space keeps any byte that is part of none.\<close>

lemma trim_front_keeps:
  assumes "\<And>w. w \<in> set ws \<Longrightarrow> c \<notin> set w" "c \<in> set s"
  shows "c \<in> set (trim_front n ws s)"
  using assms(2)
proof (induction n arbitrary: s)
  case (Suc n)
  show ?case
  proof (cases "find (\<lambda>w. take (length w) s = w) ws")
    case (Some w)
    then have "w \<in> set ws" "take (length w) s = w" using find_map_rev by fast+
    then have "c \<in> set (drop (length w) s)"
      using Suc.prems assms(1) [of w] by (metis Un_iff append_take_drop_id set_append)
    then show ?thesis using Suc.IH Some by simp
  qed (use Suc.prems in simp)
qed simp

lemma trim_keeps: "c \<in> set s \<Longrightarrow> (\<And>w. w \<in> set WHITESPACE \<Longrightarrow> c \<notin> set w) \<Longrightarrow> c \<in> set (str_trim s)"
  by (simp add: str_trim_def Let_def) (rule trim_front_keeps; auto intro: trim_front_keeps)

lemma sep_not_blank: "str_trim (pre @ SCHEME_SEP @ rest) \<noteq> []"
proof -
  have "58 \<in> set SCHEME_SEP" by code_simp
  moreover have "58 \<notin> set w" if "w \<in> set WHITESPACE" for w
    using that by (auto simp: WHITESPACE_def)
  ultimately have "58 \<in> set (str_trim (pre @ SCHEME_SEP @ rest))" by (intro trim_keeps) auto
  then show ?thesis by auto
qed

section \<open>Secrets stay secret\<close>

text \<open>A line a child writes: text, within the cap, with no line break in it or carriage return after it.\<close>

definition log_line :: "bytes \<Rightarrow> bool" where
  "log_line l \<longleftrightarrow> valid_utf8 l \<and> length l \<le> STDERR_LINE_CAP \<and> 10 \<notin> set l \<and> (l = [] \<or> last l \<noteq> 13)"

lemma log_line_trimmed: "log_line l \<Longrightarrow> trim_end_matches [13, 10] l = l"
proof (cases "l = []")
  case False
  assume "log_line l"
  moreover from False have "last l \<in> set l" by simp
  ultimately have "last l \<noteq> 13" "last l \<noteq> 10" using False by (metis log_line_def)+
  then show ?thesis using False by (cases l rule: rev_cases) (simp_all add: trim_end_matches_def)
qed (simp add: trim_end_matches_def)

lemma emitted_same:
  assumes "same_but_urls relay l1 l2" "log_line l1" "log_line l2"
  shows "emitted relay (take STDERR_LINE_CAP l1) = emitted relay (take STDERR_LINE_CAP l2)"
proof -
  have "(str_trim l1 = []) = (str_trim l2 = [])"
    using assms(1) sep_not_blank by cases auto
  then show ?thesis
    using assms(2,3) redact_same [OF assms(1)]
    by (simp add: emitted_def log_line_trimmed lossy_valid log_line_def [of l1] log_line_def [of l2])
qed

abbreviation terminated :: "bytes list \<Rightarrow> bytes" where
  "terminated ls \<equiv> concat (map (\<lambda>l. l @ [10]) ls)"

lemma line_break_none: "10 \<notin> set l \<Longrightarrow> line_break l = None"
  by (induction l) (auto simp: line_break_def)

lemma split_terminated: "list_all log_line ls \<Longrightarrow> split_lines (terminated ls) = ls"
proof (induction ls)
  case Nil
  then show ?case by (simp add: split_lines.simps)
next
  case (Cons l ls)
  then have "line_break l = None" by (intro line_break_none) (simp add: log_line_def)
  then have "line_break (l @ 10 # terminated ls) = Some (length l)"
    by (simp add: line_break_append) (simp add: line_break_def)
  then show ?case using Cons by (subst split_lines_step) simp
qed


definition refused :: "bytes \<Rightarrow> bytes" where
  "refused key = str ''rtmp://host/app/'' @ key @ str '' refused''"

lemma refused_facts:
  "first_sep (str ''rtmp'')"
  "url_then (str ''host/app/AB'') (str '' refused'')" "url_then (str ''host/app/C'') (str '' refused'')"
  "\<not> contains SCHEME_SEP (str '' refused'')"
  "log_line (refused (str ''AB''))" "log_line (refused (str ''C''))"
  "refused (str ''AB'') = str ''rtmp'' @ SCHEME_SEP @ str ''host/app/AB'' @ str '' refused''"
  "refused (str ''C'') = str ''rtmp'' @ SCHEME_SEP @ str ''host/app/C'' @ str '' refused''"
  by code_simp+


text \<open>An interrupted read loses the part of the line before it, and what follows is read as a line of its
  own: the rest of a URL, with no scheme left in it to be redacted.\<close>

lemma relay_stderr_log:
  assumes "list_all log_line ls" "undisturbed rs" "bytes_of rs = terminated ls"
  shows "relay_stderr relay rs = concat (map (\<lambda>l. if str_trim l = [] then [] else [redact l relay]) ls)"
proof -
  have "emitted relay (take STDERR_LINE_CAP l) = (if str_trim l = [] then [] else [redact l relay])"
    if "log_line l" for l
    using that by (simp add: emitted_def log_line_trimmed lossy_valid log_line_def [of l])
  then show ?thesis
    using assms by (simp add: relay_stderr_lines split_terminated list_all_iff cong: map_cong)
qed

lemma interrupted_read_leaks:
  "relay_stderr None [Data (str ''rtmp://host/ap''), Interrupted, Data (str ''p/KEY: refused'' @ [10])] =
   [str ''p/KEY: refused'']"
proof -
  let ?rest = "[Data (str ''p/KEY: refused'' @ [10])]"
  have "read_capped_line False [] [Data (str ''rtmp://host/ap''), Interrupted, Data (str ''p/KEY: refused'' @ [10])] =
      (ReadInterrupted, ?rest)"
    by code_simp
  moreover have "log_line (str ''p/KEY: refused'')" "str_trim (str ''p/KEY: refused'') \<noteq> []"
    "redact (str ''p/KEY: refused'') None = str ''p/KEY: refused''"
    by code_simp+
  ultimately show ?thesis
    using relay_stderr_log [of "[str ''p/KEY: refused'']" ?rest None]
    by (subst relay_stderr.simps) simp
qed

end
