(* ===== verification/FeedQueue.thy ===== *)
theory FeedQueue
  imports Prelude
begin

text \<open>
  The queue between the supervisor and one pipe of a child, \<open>Queue\<close> and \<open>drain\<close> of
  \<open>crates/stream/src/proc.rs\<close>.  A submission takes the lock twice, with the copy in between; the writer thread
  takes it around every write.  Each critical section is one step, and the steps of the two threads
  interleave freely.
\<close>

section \<open>The critical sections\<close>

datatype overflow = Discard | Keep

datatype feed_error = BrokenFeed bytes | StalledFeed nat nat  \<comment> \<open>bytes queued, ms waited\<close>

record feed_queue =
  fq_items :: "bytes list"
  fq_bytes :: nat
  fq_closed :: bool
  fq_error :: "bytes option"
  fq_over_since :: "nat option"
  fq_spare :: "bytes list"

definition feed_queue_new :: feed_queue where
  "feed_queue_new = \<lparr>fq_items = [], fq_bytes = 0, fq_closed = False, fq_error = None, fq_over_since = None, fq_spare = []\<rparr>"

abbreviation (input) STALL_MS :: nat where "STALL_MS \<equiv> 5000"

text \<open>What the first critical section of \<open>submit\<close> decides; \<open>Go\<close> carries the recycled buffer.\<close>

datatype verdict = Refuse feed_error | Shed | Go bytes

definition take_spare :: "feed_queue \<Rightarrow> verdict \<times> feed_queue" where
  "take_spare q =
     (if fq_spare q = [] then (Go [], q) else (Go (last (fq_spare q)), q\<lparr>fq_spare := butlast (fq_spare q)\<rparr>))"

definition submit_check :: "nat \<Rightarrow> overflow \<Rightarrow> nat \<Rightarrow> bytes \<Rightarrow> feed_queue \<Rightarrow> verdict \<times> feed_queue" where
  "submit_check budget overflow now buf q =
     (case fq_error q of
        Some err \<Rightarrow> (Refuse (BrokenFeed err), q)
      | None \<Rightarrow>
          (if fq_items q = [] \<or> fq_bytes q + length buf \<le> budget
           then take_spare (q\<lparr>fq_over_since := None\<rparr>)
           else
             (let since = (case fq_over_since q of None \<Rightarrow> now | Some t \<Rightarrow> t);
                  q1 = q\<lparr>fq_over_since := Some since\<rparr>;
                  waited = now - since
              in if STALL_MS \<le> waited then (Refuse (StalledFeed (fq_bytes q) waited), q1)
                 else if overflow = Discard then (Shed, q1)
                 else take_spare q1)))"

definition submit_push :: "bytes \<Rightarrow> feed_queue \<Rightarrow> feed_queue" where
  "submit_push item q = q\<lparr>fq_bytes := fq_bytes q + length item, fq_items := fq_items q @ [item]\<rparr>"

text \<open>The writer: what it takes, and what it does once the write is over.\<close>

datatype writer = Idle | Writing bytes | Stopped

definition drain_take :: "feed_queue \<Rightarrow> writer \<times> feed_queue" where
  "drain_take q =
     (case fq_items q of
        item # items \<Rightarrow> (Writing item, q\<lparr>fq_items := items, fq_bytes := fq_bytes q - length item\<rparr>)
      | [] \<Rightarrow> (if fq_closed q then Stopped else Idle, q))"

definition drain_wrote :: "bytes \<Rightarrow> bytes option \<Rightarrow> feed_queue \<Rightarrow> writer \<times> feed_queue" where
  "drain_wrote item err q =
     (let q1 = q\<lparr>fq_spare := fq_spare q @ [item]\<rparr>
      in case err of None \<Rightarrow> (Idle, q1) | Some e \<Rightarrow> (Stopped, q1\<lparr>fq_error := Some e\<rparr>))"

definition feed_close :: "feed_queue \<Rightarrow> feed_queue" where
  "feed_close q = q\<lparr>fq_closed := True\<rparr>"

section \<open>Interleaving\<close>

text \<open>The two threads and the pipe: the buffer the producer is copying, the writer, what the pipe has been
  written whole, the item whose write failed, and the history of what was accepted.  One host owns the queue,
  so one submission is under way at a time and none when it closes.\<close>

record feed_system =
  fs_queue :: feed_queue
  fs_pending :: "bytes option"
  fs_writer :: writer
  fs_sink :: "bytes list"
  fs_failed :: "bytes list"
  fs_accepted :: "bytes list"

definition feed_start :: feed_system where
  "feed_start = \<lparr>fs_queue = feed_queue_new, fs_pending = None, fs_writer = Idle, fs_sink = [], fs_failed = [], fs_accepted = []\<rparr>"

inductive feed_step :: "nat \<Rightarrow> overflow \<Rightarrow> feed_system \<Rightarrow> feed_system \<Rightarrow> bool"
  for budget :: nat and overflow :: overflow where
  submit_taken: "fs_pending s = None \<Longrightarrow> \<not> fq_closed (fs_queue s) \<Longrightarrow>
    submit_check budget overflow now buf (fs_queue s) = (Go spare, q) \<Longrightarrow>
    feed_step budget overflow s (s\<lparr>fs_queue := q, fs_pending := Some buf\<rparr>)"
| submit_not_taken: "fs_pending s = None \<Longrightarrow> \<not> fq_closed (fs_queue s) \<Longrightarrow>
    submit_check budget overflow now buf (fs_queue s) = (v, q) \<Longrightarrow> \<forall>spare. v \<noteq> Go spare \<Longrightarrow>
    feed_step budget overflow s (s\<lparr>fs_queue := q\<rparr>)"
| submit_pushed: "fs_pending s = Some buf \<Longrightarrow>
    feed_step budget overflow s
      (s\<lparr>fs_queue := submit_push buf (fs_queue s), fs_pending := None, fs_accepted := fs_accepted s @ [buf]\<rparr>)"
| writer_takes: "fs_writer s = Idle \<Longrightarrow> drain_take (fs_queue s) = (wr, q) \<Longrightarrow>
    feed_step budget overflow s (s\<lparr>fs_queue := q, fs_writer := wr\<rparr>)"
| writer_wrote: "fs_writer s = Writing item \<Longrightarrow> drain_wrote item None (fs_queue s) = (wr, q) \<Longrightarrow>
    feed_step budget overflow s (s\<lparr>fs_queue := q, fs_writer := wr, fs_sink := fs_sink s @ [item]\<rparr>)"
| writer_failed: "fs_writer s = Writing item \<Longrightarrow> drain_wrote item (Some err) (fs_queue s) = (wr, q) \<Longrightarrow>
    feed_step budget overflow s (s\<lparr>fs_queue := q, fs_writer := wr, fs_failed := [item]\<rparr>)"
| queue_closed: "fs_pending s = None \<Longrightarrow>
    feed_step budget overflow s (s\<lparr>fs_queue := feed_close (fs_queue s)\<rparr>)"

inductive_cases feed_stepE: "feed_step budget overflow s s'"

text \<open>What the writer holds.\<close>

fun in_flight :: "writer \<Rightarrow> bytes list" where
  "in_flight (Writing item) = [item]"
| "in_flight _ = []"

definition fits :: "nat \<Rightarrow> nat \<Rightarrow> feed_queue \<Rightarrow> bool" where
  "fits budget n q \<longleftrightarrow> fq_items q = [] \<or> fq_bytes q + n \<le> budget"

definition feed_ok :: "nat \<Rightarrow> overflow \<Rightarrow> feed_system \<Rightarrow> bool" where
  "feed_ok budget overflow s \<longleftrightarrow>
     fs_accepted s = fs_sink s @ fs_failed s @ in_flight (fs_writer s) @ fq_items (fs_queue s) \<and>
     fq_bytes (fs_queue s) = sum_list (map length (fq_items (fs_queue s))) \<and>
     (overflow = Discard \<longrightarrow>
        (fq_bytes (fs_queue s) \<le> budget \<or> length (fq_items (fs_queue s)) = 1) \<and>
        (case fs_pending s of None \<Rightarrow> True | Some buf \<Rightarrow> fits budget (length buf) (fs_queue s))) \<and>
     (fs_failed s \<noteq> [] \<longleftrightarrow> fq_error (fs_queue s) \<noteq> None) \<and> (fs_failed s \<noteq> [] \<longrightarrow> fs_writer s = Stopped) \<and>
     (fs_writer s = Stopped \<and> fs_failed s = [] \<longrightarrow> fq_closed (fs_queue s) \<and> fq_items (fs_queue s) = []) \<and>
     (fq_closed (fs_queue s) \<longrightarrow> fs_pending s = None)"

lemma spare_same:
  "take_spare q = (v, q') \<Longrightarrow> fq_items q' = fq_items q \<and> fq_bytes q' = fq_bytes q \<and> fq_closed q' = fq_closed q \<and>
   fq_error q' = fq_error q"
  by (auto simp: take_spare_def split: if_splits)

lemma check_same:
  "submit_check budget overflow now buf q = (v, q') \<Longrightarrow>
   fq_items q' = fq_items q \<and> fq_bytes q' = fq_bytes q \<and> fq_closed q' = fq_closed q \<and> fq_error q' = fq_error q"
  by (auto simp: submit_check_def Let_def split: option.splits if_splits dest!: spare_same)

lemma check_go:
  "submit_check budget Discard now buf q = (Go spare, q') \<Longrightarrow> fits budget (length buf) q"
  by (auto simp: submit_check_def Let_def fits_def split: option.splits if_splits)

lemma feed_step_ok:
  assumes "feed_step budget overflow s s'" "feed_ok budget overflow s"
  shows "feed_ok budget overflow s'"
  using assms
proof (cases rule: feed_step.cases)
  case (submit_taken now buf spare q)
  then show ?thesis
    using assms(2) check_same [OF submit_taken(4)] check_go [of budget now buf "fs_queue s" spare q]
    by (auto simp: feed_ok_def fits_def)
next
  case (submit_not_taken now buf v q)
  then show ?thesis using assms(2) check_same [OF submit_not_taken(4)] by (auto simp: feed_ok_def)
next
  case (submit_pushed buf)
  then show ?thesis
    using assms(2) by (auto simp: feed_ok_def submit_push_def fits_def)
next
  case (writer_takes wr q)
  then show ?thesis
    using assms(2) by (auto simp: feed_ok_def drain_take_def fits_def split: list.splits if_splits option.splits)
next
  case (writer_wrote item wr q)
  then show ?thesis using assms(2) by (auto simp: feed_ok_def drain_wrote_def fits_def split: option.splits)
next
  case (writer_failed item err wr q)
  then show ?thesis using assms(2) by (auto simp: feed_ok_def drain_wrote_def fits_def split: option.splits)
next
  case queue_closed
  then show ?thesis using assms(2) by (auto simp: feed_ok_def feed_close_def)
qed

lemma feed_reachable_ok: "(feed_step budget overflow)\<^sup>*\<^sup>* feed_start s \<Longrightarrow> feed_ok budget overflow s"
proof (induction rule: rtranclp_induct)
  case base
  then show ?case by (simp add: feed_ok_def feed_start_def feed_queue_new_def)
next
  case (step s s')
  then show ?case using feed_step_ok by blast
qed

section \<open>Claims\<close>

text \<open>C32. The pipe gets what was accepted, whole and in order, under every interleaving: what has been written is
  a prefix of the accepted submissions, each one whole, nothing is between the two but the item being written
  and the backlog, and a writer that ends without a failed write has written everything.\<close>

theorem feed_in_order_whole:
  assumes "(feed_step budget overflow)\<^sup>*\<^sup>* feed_start s"
  shows "fs_accepted s = fs_sink s @ fs_failed s @ in_flight (fs_writer s) @ fq_items (fs_queue s) \<and>
    (fs_writer s = Stopped \<and> fq_error (fs_queue s) = None \<longrightarrow> fs_sink s = fs_accepted s)"
  using feed_reachable_ok [OF assms] by (auto simp: feed_ok_def)

text \<open>The video backlog is bounded: a queue that discards holds at most its budget, or a single submission,
  under every interleaving of the copy outside the lock with the writer, and its byte count is exact.\<close>

theorem feed_backlog_bounded:
  assumes "(feed_step budget Discard)\<^sup>*\<^sup>* feed_start s"
  shows "fq_bytes (fs_queue s) = sum_list (map length (fq_items (fs_queue s))) \<and>
    (fq_bytes (fs_queue s) \<le> budget \<or> length (fq_items (fs_queue s)) = 1)"
  using feed_reachable_ok [OF assms] by (auto simp: feed_ok_def)

text \<open>Audio is never shed: a queue that keeps answers every submission with an error or takes it.\<close>

lemma keep_never_sheds: "fst (submit_check budget Keep now buf q) \<noteq> Shed"
  by (simp add: submit_check_def take_spare_def Let_def split: option.split)

text \<open>A backlog is called stalled only once submissions have been refused for five seconds.\<close>

lemma stall_waits:
  "fst (submit_check budget overflow now buf q) = Refuse (StalledFeed n waited) \<Longrightarrow>
   \<exists>since. fq_over_since q = Some since \<and> waited = now - since \<and> STALL_MS \<le> waited"
  by (auto simp: submit_check_def take_spare_def Let_def split: option.splits if_splits)

definition one_written :: feed_system where
  "one_written =
     \<lparr>fs_queue = \<lparr>fq_items = [], fq_bytes = 0, fq_closed = False, fq_error = None, fq_over_since = None, fq_spare = [[1, 2]]\<rparr>,
      fs_pending = None, fs_writer = Idle, fs_sink = [[1, 2]], fs_failed = [], fs_accepted = [[1, 2]]\<rparr>"

lemma one_written_reachable: "(feed_step 1 Discard)\<^sup>*\<^sup>* feed_start one_written"
proof -
  let ?s1 = "feed_start\<lparr>fs_pending := Some [1, 2]\<rparr>"
  let ?s2 = "?s1\<lparr>fs_queue := submit_push [1, 2] feed_queue_new, fs_pending := None, fs_accepted := [[1, 2]]\<rparr>"
  let ?s3 = "?s2\<lparr>fs_queue := feed_queue_new, fs_writer := Writing [1, 2]\<rparr>"
  have "feed_step 1 Discard feed_start ?s1"
    using feed_step.submit_taken [of feed_start 1 Discard 0 "[1, 2]" "[]" feed_queue_new]
    by (simp add: feed_start_def feed_queue_new_def submit_check_def take_spare_def)
  moreover have "feed_step 1 Discard ?s1 ?s2"
    using feed_step.submit_pushed [of ?s1 "[1, 2]" 1 Discard] by (simp add: feed_start_def)
  moreover have "feed_step 1 Discard ?s2 ?s3"
    using feed_step.writer_takes [of ?s2 "Writing [1, 2]" feed_queue_new 1 Discard]
    by (simp add: feed_start_def feed_queue_new_def submit_push_def drain_take_def)
  moreover have "feed_step 1 Discard ?s3 one_written"
    using feed_step.writer_wrote [of ?s3 "[1, 2]" Idle "fs_queue one_written" 1 Discard]
    by (simp add: feed_start_def feed_queue_new_def drain_wrote_def one_written_def)
  ultimately show ?thesis by (meson converse_rtranclp_into_rtranclp rtranclp.rtrancl_refl)
qed

theorem feed_in_order_whole_witness:
  "fs_accepted one_written = fs_sink one_written \<and> fs_sink one_written = [[1, 2]]"
  using feed_in_order_whole [OF one_written_reachable] by (simp add: one_written_def)

theorem feed_backlog_bounded_witness: "fq_bytes (fs_queue one_written) \<le> 1"
  using feed_backlog_bounded [OF one_written_reachable] by (simp add: one_written_def)

end
