(* ===== verification/StreamSpec.thy ===== *)
theory StreamSpec
  imports Control Strings
begin

text \<open>
  What the broadcast pipeline runs: the platform catalog (\<open>crates/stream/src/platform.rs\<close> with
  \<open>data/platforms.json\<close>), the tools on the machine (\<open>tools.rs\<close>), the layout of a session's files and the
  command lines of the encoder and the pushers (\<open>pipeline.rs\<close>, \<open>proc.rs\<close>, \<open>keys.rs\<close>).  A path is its bytes,
  as on Unix, and the Unix branch of every \<open>cfg\<close> is the one modelled; the machine's environment and files are
  a record.
\<close>

section \<open>Paths and text of the standard library\<close>

definition path_join :: "bytes \<Rightarrow> bytes \<Rightarrow> bytes" where
  "path_join dir name =
     (if starts_with [47] name \<or> dir = [] then name
      else if ends_with [47] dir then dir @ name else dir @ [47] @ name)"

text \<open>\<open>str::split\<close> at a byte.\<close>

fun split_byte :: "u8 \<Rightarrow> bytes \<Rightarrow> bytes list" where
  "split_byte c [] = [[]]"
| "split_byte c (b # s) =
     (case split_byte c s of
        [] \<Rightarrow> [[b]]
      | p # ps \<Rightarrow> if b = c then [] # p # ps else (b # p) # ps)"

definition file_name :: "bytes \<Rightarrow> bytes option" where
  "file_name path =
     (let cs = filter (\<lambda>c. c \<noteq> [] \<and> c \<noteq> [46]) (split_byte 47 path)
      in if cs = [] \<or> last cs = [46, 46] then None else Some (last cs))"

section \<open>The catalog\<close>

record video_spec =
  vs_width :: u32
  vs_height :: u32
  vs_fps :: u32
  vs_kbps :: u32
  vs_keyframe_secs :: u32

record platform_spec =
  ps_id :: bytes
  ps_display_name :: bytes
  ps_ingest_url :: bytes
  ps_requires_cbr :: bool
  ps_keyframe_secs :: u32
  ps_max_video_kbps :: u32
  ps_max_audio_kbps :: u32

record catalog =
  cat_video :: video_spec
  cat_audio_kbps :: u32
  cat_by_id :: "bytes \<Rightarrow> platform_spec option"

definition collect_platforms :: "platform_spec list \<Rightarrow> bytes \<Rightarrow> platform_spec option" where
  "collect_platforms ps = map_of (rev (map (\<lambda>p. (ps_id p, p)) ps))"

definition bundled :: catalog where
  "bundled =
     \<lparr>cat_video = \<lparr>vs_width = 1280, vs_height = 720, vs_fps = 30, vs_kbps = 2500, vs_keyframe_secs = 2\<rparr>,
      cat_audio_kbps = 128,
      cat_by_id = collect_platforms
        [\<lparr>ps_id = str ''twitch'', ps_display_name = str ''Twitch'',
          ps_ingest_url = str ''rtmps://live.twitch.tv:443/app/{key}'', ps_requires_cbr = True,
          ps_keyframe_secs = 2, ps_max_video_kbps = 6000, ps_max_audio_kbps = 160\<rparr>,
         \<lparr>ps_id = str ''youtube'', ps_display_name = str ''YouTube Live'',
          ps_ingest_url = str ''rtmps://a.rtmps.youtube.com:443/live2/{key}'', ps_requires_cbr = False,
          ps_keyframe_secs = 2, ps_max_video_kbps = 9000, ps_max_audio_kbps = 128\<rparr>]\<rparr>"

definition catalog_get :: "catalog \<Rightarrow> stream_platform \<Rightarrow> platform_spec option" where
  "catalog_get c platform = cat_by_id c (platform_as_str platform)"

definition ingest_url :: "platform_spec \<Rightarrow> stream_key \<Rightarrow> bytes" where
  "ingest_url spec key = str_replace (str ''{key}'') (expose key) (ps_ingest_url spec)"

section \<open>The machine and its tools\<close>

record machine =
  mc_var :: "bytes \<Rightarrow> bytes option"
  mc_is_file :: "bytes \<Rightarrow> bool"
  mc_temp_dir :: bytes
  mc_pid :: u32

definition FFMPEG :: bytes where "FFMPEG = str ''ffmpeg''"
definition MEDIAMTX :: bytes where "MEDIAMTX = str ''mediamtx''"

fun find_in :: "machine \<Rightarrow> bytes list \<Rightarrow> bytes \<Rightarrow> bytes option" where
  "find_in mc [] bin = None"
| "find_in mc (dir # dirs) bin =
     (if dir = [] then find_in mc dirs bin
      else if mc_is_file mc (path_join dir bin) then Some (path_join dir bin)
      else find_in mc dirs bin)"

definition on_path :: "machine \<Rightarrow> bytes \<Rightarrow> bytes option" where
  "on_path mc bin =
     (case mc_var mc (str ''PATH'') of None \<Rightarrow> None | Some path \<Rightarrow> find_in mc (split_byte 58 path) bin)"

definition bare_name :: "bytes \<Rightarrow> bytes option" where
  "bare_name program =
     (if \<not> valid_utf8 program then None
      else if program \<noteq> [] \<and> \<not> contains (str ''/'') program then Some program else None)"

definition installed :: "machine \<Rightarrow> bytes \<Rightarrow> bool" where
  "installed mc program =
     (case bare_name program of
        Some name \<Rightarrow> on_path mc name \<noteq> None
      | None \<Rightarrow> mc_is_file mc program)"

definition hint :: "bytes \<Rightarrow> bytes option" where
  "hint name =
     (let base = if ends_with (str ''.exe'') name then take (length name - 4) name else name
      in if base = FFMPEG then Some (str ''brew install ffmpeg, apt install ffmpeg, winget install ffmpeg'')
         else if base = MEDIAMTX
         then Some (str ''brew install mediamtx, or a release from github.com/bluenviron/mediamtx'')
         else None)"

definition missing :: "bytes \<Rightarrow> bytes" where
  "missing program =
     (let name = from_utf8_lossy (case file_name program of None \<Rightarrow> program | Some n \<Rightarrow> n)
      in case hint name of
           Some h \<Rightarrow> name @ str '' is not installed; put it on PATH ('' @ h @ str '')''
         | None \<Rightarrow> name @ str '' is not installed'')"

section \<open>The configuration\<close>

record stream_config =
  sc_width :: u32
  sc_height :: u32
  sc_fps :: u32
  sc_video_kbps :: u32
  sc_audio_kbps :: u32
  sc_keyframe_secs :: u32
  sc_ffmpeg :: bytes
  sc_shell :: bytes
  sc_encoder_output :: bytes
  sc_pusher_input :: bytes
  sc_work_dir :: bytes
  sc_key_dir :: bytes

definition VM_RUN_DIR :: bytes where "VM_RUN_DIR = str ''/run/jamstream''"
definition VM_FFMPEG :: bytes where "VM_FFMPEG = str ''/usr/local/bin/ffmpeg''"
definition BROADCAST_SUBDIR :: bytes where "BROADCAST_SUBDIR = str ''broadcast''"
definition BROADCAST_DIR_ENV :: bytes where "BROADCAST_DIR_ENV = str ''JAMSTREAM_BROADCAST_DIR''"
definition SESSION_VM_ENV :: bytes where "SESSION_VM_ENV = str ''JAMSTREAM_SESSION_VM''"

definition layout :: "bytes \<Rightarrow> bytes \<Rightarrow> stream_config" where
  "layout dir ffmpeg =
     (let v = cat_video bundled
      in \<lparr>sc_width = vs_width v, sc_height = vs_height v, sc_fps = vs_fps v, sc_video_kbps = vs_kbps v,
          sc_audio_kbps = cat_audio_kbps bundled, sc_keyframe_secs = vs_keyframe_secs v,
          sc_ffmpeg = ffmpeg, sc_shell = str ''/bin/sh'',
          sc_encoder_output = str ''rtmp://127.0.0.1:1935/jamstream'',
          sc_pusher_input = str ''rtmp://127.0.0.1:1935/jamstream'',
          sc_work_dir = dir, sc_key_dir = path_join dir (str ''keys'')\<rparr>)"

definition session_vm :: stream_config where
  "session_vm = layout VM_RUN_DIR VM_FFMPEG"

definition in_dir :: "machine \<Rightarrow> bytes \<Rightarrow> stream_config" where
  "in_dir mc dir =
     layout (path_join dir BROADCAST_SUBDIR) (case on_path mc FFMPEG of None \<Rightarrow> FFMPEG | Some p \<Rightarrow> p)"

definition config_resolve :: "machine \<Rightarrow> bytes option \<Rightarrow> stream_config" where
  "config_resolve mc broadcast_dir =
     (if broadcast_dir \<noteq> None \<and> the broadcast_dir \<noteq> [] then in_dir mc (the broadcast_dir)
      else if mc_var mc SESSION_VM_ENV \<noteq> None then session_vm
      else in_dir mc (path_join (mc_temp_dir mc)
             (str ''jamstream-broadcast-'' @ decimal_digits (unat (mc_pid mc)))))"

definition config_default :: "machine \<Rightarrow> stream_config" where
  "config_default mc = config_resolve mc (mc_var mc BROADCAST_DIR_ENV)"

definition total_kbps :: "stream_config \<Rightarrow> u32" where
  "total_kbps cfg = sc_video_kbps cfg + sc_audio_kbps cfg"

section \<open>Command lines\<close>

datatype stdin_from = StdinPipe | StdinSecretFile bytes | StdinNull

record proc_spec =
  sp_program :: bytes
  sp_args :: "bytes list"
  sp_stdin :: stdin_from
  sp_fifos :: "bytes list"
  sp_label :: bytes
  sp_relay_url :: "bytes option"

definition mentions :: "proc_spec \<Rightarrow> bytes \<Rightarrow> bool" where
  "mentions spec needle \<longleftrightarrow>
     needle \<noteq> [] \<and>
     (contains needle (from_utf8_lossy (sp_program spec)) \<or> list_ex (\<lambda>a. contains needle a) (sp_args spec))"

definition output_format :: "bytes \<Rightarrow> bytes" where
  "output_format target =
     (if starts_with (str ''rtmp'') target \<or> ends_with (str ''.flv'') target then str ''flv''
      else if ends_with (str ''.ts'') target then str ''mpegts''
      else str ''mp4'')"

definition shell_quote :: "bytes \<Rightarrow> bytes" where
  "shell_quote s = [39] @ replace_byte 39 [39, 92, 39, 39] s @ [39]"

definition relay_url :: "bytes \<Rightarrow> bytes option" where
  "relay_url target = (if contains (str ''://'') target then Some target else None)"

definition work_fifo :: "stream_config \<Rightarrow> bytes" where
  "work_fifo cfg = path_join (sc_work_dir cfg) (str ''broadcast-video.raw'')"

definition progress_path :: "bytes \<Rightarrow> destination_id \<Rightarrow> bytes" where
  "progress_path work_dir dest =
     path_join work_dir (str ''pusher-'' @ decimal_digits (unat (destination_num dest)) @ str ''.progress'')"

definition key_path :: "bytes \<Rightarrow> destination_id \<Rightarrow> bytes" where
  "key_path dir dest = path_join dir (str ''dest-'' @ decimal_digits (unat (destination_num dest)))"

definition PROBESIZE :: bytes where "PROBESIZE = str ''32''"
definition PROGRESS_PERIOD_SECS :: bytes where "PROGRESS_PERIOD_SECS = str ''1''"

definition u32_text :: "u32 \<Rightarrow> bytes" where
  "u32_text n = decimal_digits (unat n)"

definition encoder_spec :: "stream_config \<Rightarrow> proc_spec" where
  "encoder_spec cfg =
     (let fifo = work_fifo cfg; gop = sc_fps cfg * sc_keyframe_secs cfg;
          vb = u32_text (sc_video_kbps cfg) @ str ''k''
      in \<lparr>sp_program = sc_ffmpeg cfg,
          sp_args =
            map str [''-hide_banner'', ''-loglevel'', ''error'', ''-nostats'', ''-y'',
              ''-f'', ''rawvideo'', ''-pixel_format'', ''yuv420p'', ''-video_size''] @
            [u32_text (sc_width cfg) @ str ''x'' @ u32_text (sc_height cfg),
             str ''-framerate'', u32_text (sc_fps cfg), str ''-probesize'', PROBESIZE,
             str ''-analyzeduration'', str ''0'', str ''-i'', from_utf8_lossy fifo,
             str ''-f'', str ''s16le'', str ''-ar'', decimal_digits 48000, str ''-ac'', str ''2'',
             str ''-probesize'', PROBESIZE] @
            map str [''-analyzeduration'', ''0'', ''-i'', ''pipe:0'', ''-map'', ''0:v:0'', ''-map'', ''1:a:0'',
              ''-c:v'', ''libx264'', ''-preset'', ''veryfast'', ''-tune'', ''zerolatency'',
              ''-profile:v'', ''main'', ''-pix_fmt'', ''yuv420p''] @
            [str ''-b:v'', vb, str ''-minrate'', vb, str ''-maxrate'', vb, str ''-bufsize'', vb,
             str ''-g'', u32_text gop, str ''-keyint_min'', u32_text gop, str ''-x264-params'',
             str ''nal-hrd=cbr:keyint='' @ u32_text gop @ str '':min-keyint='' @ u32_text gop @
               str '':scenecut=0:force-cfr=1''] @
            map str [''-color_primaries'', ''bt709'', ''-color_trc'', ''bt709'', ''-colorspace'', ''bt709'',
              ''-color_range'', ''tv'', ''-c:a'', ''aac'', ''-profile:a'', ''aac_low''] @
            [str ''-b:a'', u32_text (sc_audio_kbps cfg) @ str ''k'', str ''-ar'', decimal_digits 48000,
             str ''-ac'', str ''2'', str ''-f'', output_format (sc_encoder_output cfg), sc_encoder_output cfg],
          sp_stdin = StdinPipe, sp_fifos = [fifo], sp_label = str ''encoder'',
          sp_relay_url = relay_url (sc_encoder_output cfg)\<rparr>)"

definition pusher_script :: "stream_config \<Rightarrow> destination_id \<Rightarrow> bytes" where
  "pusher_script cfg dest =
     str ''IFS= read -r JS_INGEST || exit 64'' @ [10] @
     str ''exec '' @ shell_quote (from_utf8_lossy (sc_ffmpeg cfg)) @
     str '' -nostdin -hide_banner -loglevel error -nostats -stats_period '' @ PROGRESS_PERIOD_SECS @
     str '' -progress '' @ shell_quote (from_utf8_lossy (progress_path (sc_work_dir cfg) dest)) @
     str '' -i '' @ shell_quote (sc_pusher_input cfg) @ str '' -c copy -f flv \"$JS_INGEST\"'' @ [10]"

definition pusher_spec :: "stream_config \<Rightarrow> destination_id \<Rightarrow> stream_platform \<Rightarrow> bytes \<Rightarrow> proc_spec" where
  "pusher_spec cfg dest platform key_file =
     \<lparr>sp_program = sc_shell cfg, sp_args = [str ''-c'', pusher_script cfg dest],
      sp_stdin = StdinSecretFile key_file, sp_fifos = [],
      sp_label = str ''pusher:'' @ platform_as_str platform @ str '':'' @
        decimal_digits (unat (destination_num dest)),
      sp_relay_url = relay_url (sc_pusher_input cfg)\<rparr>"

section \<open>Progress\<close>

text \<open>\<open>str::lines\<close>, whose carriage returns and \<open>trim_end\<close> come to the same here, and \<open>str::trim_end\<close>.\<close>

definition trim_end :: "bytes \<Rightarrow> bytes" where
  "trim_end s = rev (trim_front (length s) (map rev WHITESPACE) (rev s))"

definition PROGRESS_RUNNING :: bytes where "PROGRESS_RUNNING = str ''progress=continue''"

definition reports_progress :: "bytes \<Rightarrow> bool" where
  "reports_progress head \<longleftrightarrow>
     list_ex (\<lambda>line. trim_end line = PROGRESS_RUNNING) (split_byte 10 (from_utf8_lossy head))"

end
