(* ===== verification/Cadence.thy ===== *)
theory Cadence
  imports Interfaces
begin

text \<open>
  The video clock of the broadcast, \<open>crates/stream/src/cadence.rs\<close>: which frames are due is a function of
  the number of audio samples consumed.
\<close>

abbreviation (input) SAMPLE_RATE :: nat where "SAMPLE_RATE \<equiv> 48000"

record video_cadence =
  vc_fps :: nat
  vc_samples_per_frame :: nat
  vc_samples :: nat
  vc_frames :: nat

text \<open>\<open>None\<close> is a panic: a rate of zero, or one that does not divide the sample rate.\<close>

definition cadence_new :: "nat \<Rightarrow> video_cadence option" where
  "cadence_new fps =
     (if fps = 0 then None
      else if SAMPLE_RATE mod fps \<noteq> 0 then None
      else Some \<lparr>vc_fps = fps, vc_samples_per_frame = SAMPLE_RATE div fps, vc_samples = 0, vc_frames = 0\<rparr>)"

definition keyframe_interval :: "video_cadence \<Rightarrow> nat \<Rightarrow> nat" where
  "keyframe_interval c secs = vc_fps c * secs"

text \<open>The run of frames due, by its first frame and its end.\<close>

record frame_run =
  fr_next :: nat
  fr_end :: nat

definition run_next :: "frame_run \<Rightarrow> nat option \<times> frame_run" where
  "run_next r = (if fr_end r \<le> fr_next r then (None, r) else (Some (fr_next r), r\<lparr>fr_next := fr_next r + 1\<rparr>))"

definition run_is_empty :: "frame_run \<Rightarrow> bool" where
  "run_is_empty r \<longleftrightarrow> fr_end r \<le> fr_next r"

definition run_length :: "frame_run \<Rightarrow> nat" where
  "run_length r = fr_end r - fr_next r"

definition cadence_advance :: "video_cadence \<Rightarrow> nat \<Rightarrow> frame_run \<times> video_cadence" where
  "cadence_advance c samples =
     (let c1 = c\<lparr>vc_samples := wrap64 (vc_samples c + samples)\<rparr>;
          due = vc_samples c1 div vc_samples_per_frame c1 + 1;
          c2 = c1\<lparr>vc_frames := max (vc_frames c1) due\<rparr>
      in (\<lparr>fr_next = vc_frames c1, fr_end = vc_frames c2\<rparr>, c2))"

definition pts_samples :: "video_cadence \<Rightarrow> nat \<Rightarrow> nat" where
  "pts_samples c index = index * vc_samples_per_frame c"

section \<open>The frames of a run\<close>

text \<open>What iterating over a run yields.\<close>

function run_frames :: "frame_run \<Rightarrow> nat list" where
  "run_frames r = (case run_next r of (None, _) \<Rightarrow> [] | (Some i, r1) \<Rightarrow> i # run_frames r1)"
  by pat_completeness auto

termination by (relation "measure (\<lambda>r. fr_end r - fr_next r)") (auto simp: run_next_def split: if_splits)

declare run_frames.simps [simp del]

lemma run_frames_upt: "run_frames r = [fr_next r..<fr_end r]"
proof (induction r rule: run_frames.induct)
  case (1 r)
  show ?case
  proof (cases "fr_end r \<le> fr_next r")
    case False
    then have "run_frames (r\<lparr>fr_next := fr_next r + 1\<rparr>) = [fr_next r + 1..<fr_end r]"
      using "1.IH" by (simp add: run_next_def)
    then show ?thesis using False by (subst run_frames.simps) (simp add: run_next_def upt_conv_Cons)
  qed (subst run_frames.simps, simp add: run_next_def)
qed

fun cadence_run :: "video_cadence \<Rightarrow> nat list \<Rightarrow> nat list list \<times> video_cadence" where
  "cadence_run c [] = ([], c)"
| "cadence_run c (n # ns) =
     (let (r, c1) = cadence_advance c n; (rs, c2) = cadence_run c1 ns in (run_frames r # rs, c2))"

text \<open>Frame \<open>k\<close> is due from the advance whose cumulative count reaches \<open>k\<close> frame periods.\<close>

definition due :: "nat \<Rightarrow> nat \<Rightarrow> nat" where "due spf n = n div spf + 1"

lemma due_mono: "m \<le> n \<Longrightarrow> due spf m \<le> due spf n"
  by (simp add: due_def div_le_mono)

fun due_runs :: "nat \<Rightarrow> nat \<Rightarrow> nat \<Rightarrow> nat list \<Rightarrow> nat list list" where
  "due_runs spf f s [] = []"
| "due_runs spf f s (n # ns) = [f..<due spf (s + n)] # due_runs spf (due spf (s + n)) (s + n) ns"

lemma cadence_run_due:
  assumes "vc_samples c + sum_list ns < 2 ^ 64" "vc_frames c \<le> due (vc_samples_per_frame c) (vc_samples c)"
  shows "fst (cadence_run c ns) = due_runs (vc_samples_per_frame c) (vc_frames c) (vc_samples c) ns"
  using assms
proof (induction ns arbitrary: c)
  case (Cons n ns)
  let ?spf = "vc_samples_per_frame c"
  obtain r c1 where a: "cadence_advance c n = (r, c1)" by fastforce
  have s: "wrap64 (vc_samples c + n) = vc_samples c + n" using Cons.prems(1) by simp
  have "vc_frames c \<le> due ?spf (vc_samples c + n)"
    using Cons.prems(2) due_mono [of "vc_samples c" "vc_samples c + n" ?spf] by simp
  then have c1: "vc_samples c1 = vc_samples c + n" "vc_frames c1 = due ?spf (vc_samples c + n)"
    "vc_samples_per_frame c1 = ?spf" and r: "run_frames r = [vc_frames c..<due ?spf (vc_samples c + n)]"
    using a s by (auto simp: cadence_advance_def run_frames_upt due_def Let_def max_def)
  then have "fst (cadence_run c1 ns) = due_runs ?spf (vc_frames c1) (vc_samples c1) ns"
    using Cons.IH [of c1] Cons.prems(1) by simp
  then show ?case using a r c1 by (simp add: split_beta)
qed simp

lemma due_runs_concat:
  "f \<le> due spf s \<Longrightarrow> concat (due_runs spf f s ns) = (if ns = [] then [] else [f..<due spf (s + sum_list ns)])"
proof (induction ns arbitrary: f s)
  case (Cons n ns)
  have m: "f \<le> due spf (s + n)" "due spf (s + n) \<le> due spf (s + n + sum_list ns)"
    using Cons.prems due_mono [of s "s + n" spf] due_mono [of "s + n" "s + n + sum_list ns" spf] by auto
  then have "[f..<due spf (s + n + sum_list ns)] = [f..<due spf (s + n)] @ [due spf (s + n)..<due spf (s + n + sum_list ns)]"
    using upt_add_eq_append [of f "due spf (s + n)" "due spf (s + n + sum_list ns) - due spf (s + n)"] by simp
  then show ?case using Cons.IH [of "due spf (s + n)" "s + n"] by (cases ns) (simp_all add: add.assoc)
qed simp

lemma due_reached:
  assumes "0 < spf"
  shows "k < due spf n \<longleftrightarrow> k * spf \<le> n"
  using assms by (simp add: due_def less_Suc_eq_le less_eq_div_iff_mult_less_eq)

lemma due_runs_when:
  assumes "0 < spf"
  shows "j < length ns \<Longrightarrow> k \<in> set (due_runs spf f s ns ! j) \<Longrightarrow>
    k * spf \<le> s + sum_list (take (Suc j) ns) \<and> (if j = 0 then f \<le> k else s + sum_list (take j ns) < k * spf)"
proof (induction ns arbitrary: f s j)
  case (Cons n ns)
  show ?case
  proof (cases j)
    case 0
    then show ?thesis using Cons.prems due_reached [OF assms] by auto
  next
    case (Suc i)
    then have "k * spf \<le> s + n + sum_list (take (Suc i) ns) \<and>
        (if i = 0 then due spf (s + n) \<le> k else s + n + sum_list (take i ns) < k * spf)"
      using Cons.IH [of i "due spf (s + n)" "s + n"] Cons.prems by simp
    then show ?thesis using Suc due_reached [OF assms, of k "s + n"] by (auto simp: add.assoc split: if_splits)
  qed
qed simp

text \<open>The video clock never drifts from the audio clock: however the audio is cut into submissions, the
  frames emitted are exactly frame 0 to frame (samples consumed) / (samples per frame), each once and in
  order, and each is emitted by the very submission whose samples reach its presentation time.\<close>

theorem cadence_exact:
  assumes "cadence_new fps = Some c" "sum_list ns < 2 ^ 64" "ns \<noteq> []"
  shows "concat (fst (cadence_run c ns)) = [0..<sum_list ns div (SAMPLE_RATE div fps) + 1] \<and>
    (\<forall>j k. j < length ns \<longrightarrow> k \<in> set (fst (cadence_run c ns) ! j) \<longrightarrow>
       pts_samples c k \<le> sum_list (take (Suc j) ns) \<and> (0 < j \<longrightarrow> sum_list (take j ns) < pts_samples c k))"
proof -
  have fps: "fps \<noteq> 0" "SAMPLE_RATE mod fps = 0" using assms(1) by (auto simp: cadence_new_def split: if_splits)
  then have "fps dvd SAMPLE_RATE" by (simp add: mod_eq_0_iff_dvd)
  then have "fps \<le> SAMPLE_RATE" by (rule dvd_imp_le) simp
  then have pos: "0 < SAMPLE_RATE div fps" using fps(1) by (simp add: div_greater_zero_iff)
  have c: "vc_samples c = 0" "vc_frames c = 0" "vc_samples_per_frame c = SAMPLE_RATE div fps"
    using assms(1) fps by (auto simp: cadence_new_def)
  have run: "fst (cadence_run c ns) = due_runs (SAMPLE_RATE div fps) 0 0 ns"
    using cadence_run_due [of c ns] assms(2) c by simp
  have "pts_samples c k \<le> sum_list (take (Suc j) ns) \<and> (0 < j \<longrightarrow> sum_list (take j ns) < pts_samples c k)"
    if "j < length ns" "k \<in> set (fst (cadence_run c ns) ! j)" for j k
    using due_runs_when [OF pos, of j ns k 0 0] that by (simp add: run pts_samples_def c split: if_splits)
  then show ?thesis
    using due_runs_concat [of 0 "SAMPLE_RATE div fps" 0 ns] assms(3) by (simp add: run due_def)
qed

theorem cadence_exact_witness:
  "concat (fst (cadence_run (the (cadence_new 30)) [120, 1480, 4000])) = [0..<5600 div 1600 + 1]"
proof -
  have "cadence_new 30 = Some (the (cadence_new 30))" by (simp add: cadence_new_def)
  from cadence_exact [OF this, of "[120, 1480, 4000]"] show ?thesis by simp
qed

end
