(* ===== verification/Yuv.thy ===== *)
theory Yuv
  imports Prelude
begin

text \<open>
  The conversion of a rendered frame to planar yuv420p, \<open>crates/stream/src/yuv.rs\<close>.  The \<open>i32\<close> arithmetic
  stays far below its width and is done in the integers; \<open>/\<close> rounds toward zero, which on these values, never
  negative, is the floor.
\<close>

definition i420_len :: "nat \<Rightarrow> nat \<Rightarrow> nat" where
  "i420_len w h = w * h + 2 * (w div 2) * (h div 2)"

definition clamp_byte :: "int \<Rightarrow> int \<Rightarrow> int \<Rightarrow> u8" where
  "clamp_byte lo hi v = word_of_int (min hi (max lo v))"

definition luma :: "u8 \<Rightarrow> u8 \<Rightarrow> u8 \<Rightarrow> u8" where
  "luma r g b = clamp_byte 16 235 ((16 * 256 + 47 * uint r + 157 * uint g + 16 * uint b) div 256)"

definition chroma_b :: "u8 \<Rightarrow> u8 \<Rightarrow> u8 \<Rightarrow> u8" where
  "chroma_b r g b = clamp_byte 16 240 ((128 * 256 - 26 * uint r - 87 * uint g + 112 * uint b) div 256)"

definition chroma_r :: "u8 \<Rightarrow> u8 \<Rightarrow> u8 \<Rightarrow> u8" where
  "chroma_r r g b = clamp_byte 16 240 ((128 * 256 + 112 * uint r - 102 * uint g - 10 * uint b) div 256)"

text \<open>Channel \<open>k\<close> of the pixel at \<open>(x, y)\<close>, and its average over a 2x2 block.\<close>

definition pixel :: "bytes \<Rightarrow> nat \<Rightarrow> nat \<Rightarrow> nat \<Rightarrow> nat \<Rightarrow> u8" where
  "pixel rgba w x y k = rgba ! ((y * w + x) * 4 + k)"

definition block_average :: "bytes \<Rightarrow> nat \<Rightarrow> nat \<Rightarrow> nat \<Rightarrow> nat \<Rightarrow> u8" where
  "block_average rgba w cx cy k =
     of_nat ((unat (pixel rgba w (cx * 2) (cy * 2) k) + unat (pixel rgba w (cx * 2 + 1) (cy * 2) k) +
       unat (pixel rgba w (cx * 2) (cy * 2 + 1) k) + unat (pixel rgba w (cx * 2 + 1) (cy * 2 + 1) k)) div 4)"

definition y_plane :: "bytes \<Rightarrow> nat \<Rightarrow> nat \<Rightarrow> bytes" where
  "y_plane rgba w h =
     concat (map (\<lambda>y. map (\<lambda>x. luma (pixel rgba w x y 0) (pixel rgba w x y 1) (pixel rgba w x y 2)) [0..<w]) [0..<h])"

definition chroma_plane :: "(u8 \<Rightarrow> u8 \<Rightarrow> u8 \<Rightarrow> u8) \<Rightarrow> bytes \<Rightarrow> nat \<Rightarrow> nat \<Rightarrow> bytes" where
  "chroma_plane f rgba w h =
     concat (map (\<lambda>cy. map (\<lambda>cx. f (block_average rgba w cx cy 0) (block_average rgba w cx cy 1)
       (block_average rgba w cx cy 2)) [0..<w div 2]) [0..<h div 2])"

text \<open>\<open>None\<close> is a panic: odd dimensions, or a buffer of the wrong size.\<close>

definition rgba_to_i420 :: "bytes \<Rightarrow> nat \<Rightarrow> nat \<Rightarrow> nat \<Rightarrow> bytes option" where
  "rgba_to_i420 rgba w h out_len =
     (if \<not> (w mod 2 = 0 \<and> h mod 2 = 0) then None
      else if length rgba \<noteq> w * h * 4 then None
      else if out_len \<noteq> i420_len w h then None
      else Some (y_plane rgba w h @ chroma_plane chroma_b rgba w h @ chroma_plane chroma_r rgba w h))"

section \<open>Size and range\<close>

lemma uint_clamp_byte: "0 \<le> lo \<Longrightarrow> lo \<le> hi \<Longrightarrow> hi < 256 \<Longrightarrow> uint (clamp_byte lo hi v) = min hi (max lo v)"
  by (simp add: clamp_byte_def uint_word_of_int)

lemma length_planes:
  "length (y_plane rgba w h) = w * h" "length (chroma_plane f rgba w h) = (w div 2) * (h div 2)"
  by (simp_all add: y_plane_def chroma_plane_def length_concat comp_def sum_list_triv)

text \<open>Averages of bytes are bytes: the cast loses nothing.\<close>

lemma unat_block_average:
  "unat (block_average rgba w cx cy k) =
     (unat (pixel rgba w (cx * 2) (cy * 2) k) + unat (pixel rgba w (cx * 2 + 1) (cy * 2) k) +
       unat (pixel rgba w (cx * 2) (cy * 2 + 1) k) + unat (pixel rgba w (cx * 2 + 1) (cy * 2 + 1) k)) div 4"
proof -
  have byte: "unat (pixel rgba w x y k) < 256" for x y using unat_less [of "pixel rgba w x y k"] by simp
  have small: "q < 1024 \<Longrightarrow> q div 4 mod 256 = q div 4" for q :: nat by (simp add: less_mult_imp_div_less)
  have sum: "a < 256 \<Longrightarrow> b < 256 \<Longrightarrow> c < 256 \<Longrightarrow> d < 256 \<Longrightarrow> a + b + c + d < 1024" for a b c d :: nat by simp
  show ?thesis
    unfolding block_average_def unat_of_nat by (rule trans [OF _ small [OF sum [OF byte byte byte byte]]]) simp
qed

lemma byte_int: "0 \<le> uint (b :: u8)" "uint (b :: u8) \<le> 255"
  using uint_lt2p [of b] by auto

text \<open>Luma needs no clamp: the coefficients keep it in range.\<close>

lemma luma_exact: "uint (luma r g b) = (16 * 256 + 47 * uint r + 157 * uint g + 16 * uint b) div 256"
proof -
  have "16 \<le> (16 * 256 + 47 * uint r + 157 * uint g + 16 * uint b) div 256"
    "(16 * 256 + 47 * uint r + 157 * uint g + 16 * uint b) div 256 \<le> 235"
    using byte_int [of r] byte_int [of g] byte_int [of b] by linarith+
  then show ?thesis by (simp add: luma_def uint_clamp_byte)
qed

text \<open>A grey pixel has no colour.\<close>

lemma grey_chroma: "uint (chroma_b v v v) \<in> {127, 128}" "uint (chroma_r v v v) = 128"
proof -
  have "127 \<le> (32768 - uint v) div 256" "(32768 - uint v) div 256 \<le> 128"
    using byte_int [of v] by linarith+
  then show "uint (chroma_b v v v) \<in> {127, 128}" by (simp add: chroma_b_def uint_clamp_byte algebra_simps) linarith
  show "uint (chroma_r v v v) = 128" by (simp add: chroma_r_def uint_clamp_byte algebra_simps)
qed

lemma rgba_to_i420_defined:
  assumes "even w" "even h" "length rgba = w * h * 4"
  shows "\<exists>out. rgba_to_i420 rgba w h (i420_len w h) = Some out \<and> length out = i420_len w h"
proof -
  have "length (y_plane rgba w h @ chroma_plane chroma_b rgba w h @ chroma_plane chroma_r rgba w h) = i420_len w h"
    by (simp add: length_planes i420_len_def)
  then show ?thesis using assms by (simp add: rgba_to_i420_def)
qed

text \<open>A frame handed to the encoder is whole and legal: \<open>rgba_to_i420\<close> panics only on odd dimensions or a
  buffer of the wrong size, and otherwise yields exactly \<open>i420_len\<close> bytes, luma within 16..235 and chroma
  within 16..240, as the limited colour range of the encoder's command line promises.\<close>

theorem i420_whole_and_legal:
  assumes "even w" "even h" "length rgba = w * h * 4"
  shows "\<exists>out. rgba_to_i420 rgba w h (i420_len w h) = Some out \<and> length out = i420_len w h \<and>
    (\<forall>v \<in> set (take (w * h) out). 16 \<le> uint v \<and> uint v \<le> 235) \<and>
    (\<forall>v \<in> set (drop (w * h) out). 16 \<le> uint v \<and> uint v \<le> 240)"
proof -
  let ?out = "y_plane rgba w h @ chroma_plane chroma_b rgba w h @ chroma_plane chroma_r rgba w h"
  have "rgba_to_i420 rgba w h (i420_len w h) = Some ?out"
    using assms by (simp add: rgba_to_i420_def)
  moreover have "length ?out = i420_len w h" by (simp add: length_planes i420_len_def)
  moreover have "\<forall>v \<in> set (y_plane rgba w h). 16 \<le> uint v \<and> uint v \<le> 235"
    by (auto simp: y_plane_def luma_def uint_clamp_byte)
  moreover have "\<forall>v \<in> set (chroma_plane chroma_b rgba w h @ chroma_plane chroma_r rgba w h). 16 \<le> uint v \<and> uint v \<le> 240"
    by (auto simp: chroma_plane_def chroma_b_def chroma_r_def uint_clamp_byte)
  ultimately show ?thesis by (simp add: length_planes)
qed

theorem i420_whole_and_legal_witness:
  "\<exists>out. rgba_to_i420 (replicate 16 255) 2 2 6 = Some out \<and> length out = 6"
  using i420_whole_and_legal [of 2 2 "replicate 16 255"] by (auto simp: i420_len_def)

end
