(* ===== verification/Pipeline.thy ===== *)
theory Pipeline
  imports StreamSpec Cadence Yuv Audio
begin

text \<open>
  The broadcast supervisor, \<open>crates/stream/src/pipeline.rs\<close>: one encode, one pusher per destination, restarts
  with a capped backoff, and a status per destination.  Processes (\<open>ProcessHost\<close>), the file system and the
  renderer are a record of functions on a state of their own; the clock is an argument.
\<close>

section \<open>The system\<close>

record io_error =
  ie_not_found :: bool
  ie_text :: bytes

datatype exit = Running | Exited bytes

datatype feed = Queued | Dropped

record 'i member_visual =
  mv_name :: bytes
  mv_avatar :: "'i option"
  mv_level_peak :: f32
  mv_level_rms :: f32
  mv_connected :: bool

record ('w, 'r, 'i) stream_sys =
  ss_spawn :: "proc_spec \<Rightarrow> 'w \<Rightarrow> (io_error + nat) \<times> 'w"
  ss_poll :: "nat \<Rightarrow> 'w \<Rightarrow> exit \<times> 'w"
  ss_kill :: "nat \<Rightarrow> 'w \<Rightarrow> 'w"
  ss_write_stdin :: "nat \<Rightarrow> bytes \<Rightarrow> 'w \<Rightarrow> (io_error + unit) \<times> 'w"
  ss_write_fifo :: "nat \<Rightarrow> nat \<Rightarrow> bytes \<Rightarrow> 'w \<Rightarrow> (io_error + feed) \<times> 'w"
  ss_create_dir_all :: "bytes \<Rightarrow> 'w \<Rightarrow> (io_error + unit) \<times> 'w"
  ss_create_private_dir :: "bytes \<Rightarrow> 'w \<Rightarrow> (io_error + unit) \<times> 'w"
  ss_remove_file :: "bytes \<Rightarrow> 'w \<Rightarrow> (io_error + unit) \<times> 'w"
  ss_create_0600 :: "bytes \<Rightarrow> 'w \<Rightarrow> (io_error + unit) \<times> 'w"
  ss_write_file :: "bytes \<Rightarrow> bytes \<Rightarrow> 'w \<Rightarrow> (io_error + unit) \<times> 'w"
  ss_read_head :: "bytes \<Rightarrow> nat \<Rightarrow> 'w \<Rightarrow> bytes option"
  ss_empty_file :: "bytes \<Rightarrow> 'w \<Rightarrow> 'w"
  ss_machine :: "'w \<Rightarrow> machine"
  ss_render :: "nat \<Rightarrow> 'i member_visual list \<Rightarrow> nat \<Rightarrow> bytes \<Rightarrow> 'r \<Rightarrow> bytes \<times> 'r"
  ss_renderer_new :: "stream_config \<Rightarrow> 'r"
  ss_decode_avatar :: "bytes \<Rightarrow> 'i option"
  ss_fp :: fp

section \<open>State\<close>

abbreviation (input) HEALTHY_MS :: nat where "HEALTHY_MS \<equiv> 3000"
abbreviation (input) BACKOFF_BASE_MS :: nat where "BACKOFF_BASE_MS \<equiv> 500"
abbreviation (input) BACKOFF_MAX_MS :: nat where "BACKOFF_MAX_MS \<equiv> 16000"
abbreviation (input) PROGRESS_PROBE_MS :: nat where "PROGRESS_PROBE_MS \<equiv> 200"
abbreviation (input) PROGRESS_TRIM_MS :: nat where "PROGRESS_TRIM_MS \<equiv> 60000"
abbreviation (input) PROGRESS_HEAD_BYTES :: nat where "PROGRESS_HEAD_BYTES \<equiv> 4096"
abbreviation (input) MAX_CARDS :: nat where "MAX_CARDS \<equiv> 10"

datatype stream_error = UnknownPlatform bytes | TooManyDestinations | NoSuchDestination u16

datatype pipeline_event =
    EncoderUp
  | EncoderDown bytes
  | DestinationChanged destination_id stream_platform destination_state

record stream_member =
  sm_id :: member_id
  sm_name :: bytes
  sm_connected :: bool
  sm_avatar :: "(hash32 \<times> bytes) option"

record stream_roster =
  sr_members :: "stream_member list"
  sr_listeners :: nat

record levels =
  lv_peak :: "f32 list"
  lv_rms :: "f32 list"
  lv_len :: nat

definition levels_default :: levels where
  "levels_default = \<lparr>lv_peak = replicate MAX_CARDS 0, lv_rms = replicate MAX_CARDS 0, lv_len = 0\<rparr>"

definition levels_push :: "f32 \<Rightarrow> f32 \<Rightarrow> levels \<Rightarrow> levels" where
  "levels_push peak rms lv =
     (if lv_len lv < MAX_CARDS
      then lv\<lparr>lv_peak := (lv_peak lv)[lv_len lv := peak], lv_rms := (lv_rms lv)[lv_len lv := rms],
              lv_len := lv_len lv + 1\<rparr>
      else lv)"

record destination =
  dn_id :: destination_id
  dn_platform :: stream_platform
  dn_key :: stream_key
  dn_proc :: "nat option"
  dn_state :: destination_state
  dn_backoff :: nat
  dn_retry_at :: "nat option"
  dn_progress_at :: nat

record encoder_proc =
  ep_proc :: nat
  ep_spawned :: nat
  ep_healthy :: bool

record ('w, 'r, 'i) pipeline =
  pl_cfg :: stream_config
  pl_catalog :: catalog
  pl_host :: 'w
  pl_renderer :: 'r
  pl_cadence :: video_cadence
  pl_rgba :: bytes
  pl_yuv :: bytes
  pl_roster :: stream_roster
  pl_visuals :: "'i member_visual list"
  pl_avatars :: "hash32 \<Rightarrow> 'i option"
  pl_encoder :: "encoder_proc option"
  pl_encoder_backoff :: nat
  pl_encoder_retry_at :: "nat option"
  pl_encoder_reason :: "bytes option"
  pl_started :: bool
  pl_dests :: "destination list"
  pl_dropped :: u64
  pl_repeated :: u64
  pl_events :: "pipeline_event list"

text \<open>\<open>None\<close>: the cadence's panic on a frame rate that does not divide the sample rate.\<close>

definition pipeline_new ::
  "('w, 'r, 'i) stream_sys \<Rightarrow> stream_config \<Rightarrow> 'w \<Rightarrow> ('w, 'r, 'i) pipeline option" where
  "pipeline_new sys cfg w =
     (case cadence_new (unat (sc_fps cfg)) of
        None \<Rightarrow> None
      | Some c \<Rightarrow>
          Some \<lparr>pl_cfg = cfg, pl_catalog = bundled, pl_host = w, pl_renderer = ss_renderer_new sys cfg, pl_cadence = c,
            pl_rgba = replicate (unat (sc_width cfg * sc_height cfg * 4)) 0,
            pl_yuv = replicate (i420_len (unat (sc_width cfg)) (unat (sc_height cfg))) 0,
            pl_roster = \<lparr>sr_members = [], sr_listeners = 0\<rparr>, pl_visuals = [], pl_avatars = (\<lambda>_. None),
            pl_encoder = None, pl_encoder_backoff = 0, pl_encoder_retry_at = None, pl_encoder_reason = None,
            pl_started = False, pl_dests = [], pl_dropped = 0, pl_repeated = 0, pl_events = []\<rparr>)"

section \<open>Backoff\<close>

text \<open>The state is the number of attempts, a \<open>u32\<close>.  \<open>checked_shl\<close> is \<open>None\<close> only for a shift past the
  width; bits shifted out are lost.\<close>

definition delay_ms :: "nat \<Rightarrow> nat" where
  "delay_ms attempts =
     (if attempts = 0 then 0
      else (let shift = min (attempts - 1) 63
            in min (if shift < 64 then wrap64 (BACKOFF_BASE_MS * 2 ^ shift) else BACKOFF_MAX_MS) BACKOFF_MAX_MS))"

definition backoff_fail :: "nat \<Rightarrow> nat \<times> nat" where
  "backoff_fail attempts = (let a = min (attempts + 1) (2 ^ 32 - 1) in (delay_ms a, a))"

section \<open>Files\<close>

definition clear_progress ::
  "('w, 'r, 'i) stream_sys \<Rightarrow> bytes \<Rightarrow> destination_id \<Rightarrow> 'w \<Rightarrow> (io_error + unit) \<times> 'w" where
  "clear_progress sys work_dir dest w =
     (case ss_create_dir_all sys work_dir w of
        (Inl err, w1) \<Rightarrow> (Inl err, w1)
      | (Inr _, w1) \<Rightarrow>
          (case ss_remove_file sys (progress_path work_dir dest) w1 of
             (Inl err, w2) \<Rightarrow> (if \<not> ie_not_found err then Inl err else Inr (), w2)
           | (Inr _, w2) \<Rightarrow> (Inr (), w2)))"

definition has_pushed :: "('w, 'r, 'i) stream_sys \<Rightarrow> bytes \<Rightarrow> 'w \<Rightarrow> bool" where
  "has_pushed sys path w =
     (case ss_read_head sys path PROGRESS_HEAD_BYTES w of None \<Rightarrow> False | Some head \<Rightarrow> reports_progress head)"

definition stage ::
  "('w, 'r, 'i) stream_sys \<Rightarrow> bytes \<Rightarrow> destination_id \<Rightarrow> bytes \<Rightarrow> 'w \<Rightarrow> (io_error + bytes) \<times> 'w" where
  "stage sys dir dest secret w =
     (case ss_create_private_dir sys dir w of
        (Inl err, w1) \<Rightarrow> (Inl err, w1)
      | (Inr _, w1) \<Rightarrow>
          (let path = key_path dir dest; w2 = snd (ss_remove_file sys path w1)
           in case ss_create_0600 sys path w2 of
                (Inl err, w3) \<Rightarrow> (Inl err, w3)
              | (Inr _, w3) \<Rightarrow>
                  (case ss_write_file sys path (secret @ [10]) w3 of
                     (Inl err, w4) \<Rightarrow> (Inl err, w4)
                   | (Inr _, w4) \<Rightarrow> (Inr path, w4))))"

definition discard :: "('w, 'r, 'i) stream_sys \<Rightarrow> bytes \<Rightarrow> destination_id \<Rightarrow> 'w \<Rightarrow> 'w" where
  "discard sys dir dest w = snd (ss_remove_file sys (key_path dir dest) w)"

section \<open>One destination\<close>

definition on_host :: "('w \<Rightarrow> 'w) \<Rightarrow> ('w, 'r, 'i) pipeline \<Rightarrow> ('w, 'r, 'i) pipeline" where
  "on_host f p = p\<lparr>pl_host := f (pl_host p)\<rparr>"

definition emit :: "pipeline_event \<Rightarrow> ('w, 'r, 'i) pipeline \<Rightarrow> ('w, 'r, 'i) pipeline" where
  "emit e p = p\<lparr>pl_events := pl_events p @ [e]\<rparr>"

definition upd_dest :: "nat \<Rightarrow> (destination \<Rightarrow> destination) \<Rightarrow> ('w, 'r, 'i) pipeline \<Rightarrow> ('w, 'r, 'i) pipeline" where
  "upd_dest idx f p = p\<lparr>pl_dests := (pl_dests p)[idx := f (pl_dests p ! idx)]\<rparr>"

definition fitted :: "destination_state \<Rightarrow> destination_state" where
  "fitted st = (case st of DestFailed reason \<Rightarrow> DestFailed (fit_stream_reason reason) | _ \<Rightarrow> st)"

definition set_state :: "nat \<Rightarrow> destination_state \<Rightarrow> ('w, 'r, 'i) pipeline \<Rightarrow> ('w, 'r, 'i) pipeline" where
  "set_state idx st p =
     (let st' = fitted st; d = pl_dests p ! idx
      in if dn_state d = st' then p
         else emit (DestinationChanged (dn_id d) (dn_platform d) st') (upd_dest idx (\<lambda>d. d\<lparr>dn_state := st'\<rparr>) p))"

text \<open>A failure's backoff: when to try again.\<close>

definition retry_later :: "nat \<Rightarrow> nat \<Rightarrow> ('w, 'r, 'i) pipeline \<Rightarrow> ('w, 'r, 'i) pipeline" where
  "retry_later now idx =
     upd_dest idx (\<lambda>d. let (delay, b) = backoff_fail (dn_backoff d)
                       in d\<lparr>dn_backoff := b, dn_retry_at := Some (wrap64 (now + delay))\<rparr>)"

definition stop_destination ::
  "('w, 'r, 'i) stream_sys \<Rightarrow> nat \<Rightarrow> ('w, 'r, 'i) pipeline \<Rightarrow> ('w, 'r, 'i) pipeline" where
  "stop_destination sys idx p =
     (let d = pl_dests p ! idx;
          p1 = (case dn_proc d of
                  None \<Rightarrow> p
                | Some proc \<Rightarrow> on_host (ss_kill sys proc) (upd_dest idx (\<lambda>d. d\<lparr>dn_proc := None\<rparr>) p))
      in on_host (\<lambda>w. snd (clear_progress sys (sc_work_dir (pl_cfg p)) (dn_id d) w)) p1)"

definition spawn_pusher ::
  "('w, 'r, 'i) stream_sys \<Rightarrow> nat \<Rightarrow> nat \<Rightarrow> ('w, 'r, 'i) pipeline \<Rightarrow> ('w, 'r, 'i) pipeline" where
  "spawn_pusher sys idx now p =
     (let d = pl_dests p ! idx; dest = dn_id d; platform = dn_platform d; cfg = pl_cfg p
      in case catalog_get (pl_catalog p) platform of
           None \<Rightarrow> set_state idx (DestFailed (str ''no catalog entry for '' @ platform_as_str platform)) p
         | Some spec \<Rightarrow>
             (case clear_progress sys (sc_work_dir cfg) dest (pl_host p) of
                (Inl err, w1) \<Rightarrow>
                  set_state idx (DestFailed (str ''cannot clear progress file: '' @ ie_text err))
                    (retry_later now idx (p\<lparr>pl_host := w1\<rparr>))
              | (Inr _, w1) \<Rightarrow>
                  (case stage sys (sc_key_dir cfg) dest (ingest_url spec (dn_key d)) w1 of
                     (Inl err, w2) \<Rightarrow>
                       set_state idx (DestFailed (str ''cannot stage key file: '' @ ie_text err))
                         (retry_later now idx (p\<lparr>pl_host := w2\<rparr>))
                   | (Inr path, w2) \<Rightarrow>
                       (case ss_spawn sys (pusher_spec cfg dest platform path) w2 of
                          (Inr proc, w3) \<Rightarrow>
                            set_state idx DestConnecting
                              (upd_dest idx (\<lambda>d. d\<lparr>dn_proc := Some proc, dn_progress_at := now, dn_retry_at := None\<rparr>)
                                (p\<lparr>pl_host := w3\<rparr>))
                        | (Inl err, w3) \<Rightarrow>
                            set_state idx (DestFailed (str ''spawn failed: '' @ ie_text err))
                              (retry_later now idx (p\<lparr>pl_host := discard sys (sc_key_dir cfg) dest w3\<rparr>))))))"

definition read_report ::
  "('w, 'r, 'i) stream_sys \<Rightarrow> nat \<Rightarrow> nat \<Rightarrow> ('w, 'r, 'i) pipeline \<Rightarrow> ('w, 'r, 'i) pipeline" where
  "read_report sys idx now p =
     (let d = pl_dests p ! idx; path = progress_path (sc_work_dir (pl_cfg p)) (dn_id d)
      in if now < dn_progress_at d then p
         else case dn_state d of
           DestConnecting \<Rightarrow>
             (if has_pushed sys path (pl_host p)
              then upd_dest idx (\<lambda>d. d\<lparr>dn_progress_at := wrap64 (now + PROGRESS_TRIM_MS)\<rparr>)
                (set_state idx DestLive (upd_dest idx (\<lambda>d. d\<lparr>dn_backoff := 0\<rparr>) p))
              else upd_dest idx (\<lambda>d. d\<lparr>dn_progress_at := wrap64 (now + PROGRESS_PROBE_MS)\<rparr>) p)
         | DestLive \<Rightarrow>
             upd_dest idx (\<lambda>d. d\<lparr>dn_progress_at := wrap64 (now + PROGRESS_TRIM_MS)\<rparr>)
               (on_host (ss_empty_file sys path) p)
         | _ \<Rightarrow> p)"

text \<open>What is done about a destination that has no process.\<close>

definition revive_destination ::
  "('w, 'r, 'i) stream_sys \<Rightarrow> nat \<Rightarrow> nat \<Rightarrow> bool \<Rightarrow> ('w, 'r, 'i) pipeline \<Rightarrow> ('w, 'r, 'i) pipeline" where
  "revive_destination sys idx now encoding p =
     (if \<not> encoding
      then case pl_encoder_reason p of
             None \<Rightarrow> p
           | Some reason \<Rightarrow> set_state idx (DestFailed (str ''encoder down: '' @ reason)) p
      else if \<exists>due \<in> set_option (dn_retry_at (pl_dests p ! idx)). now < due then p
      else spawn_pusher sys idx now p)"

definition poll_destination ::
  "('w, 'r, 'i) stream_sys \<Rightarrow> nat \<Rightarrow> nat \<Rightarrow> bool \<Rightarrow> ('w, 'r, 'i) pipeline \<Rightarrow> ('w, 'r, 'i) pipeline" where
  "poll_destination sys idx now encoding p =
     (case dn_proc (pl_dests p ! idx) of
        None \<Rightarrow> revive_destination sys idx now encoding p
      | Some proc \<Rightarrow>
          (case ss_poll sys proc (pl_host p) of
             (Running, w) \<Rightarrow> read_report sys idx now (p\<lparr>pl_host := w\<rparr>)
           | (Exited reason, w) \<Rightarrow>
               set_state idx (DestFailed (str ''push failed: '' @ reason))
                 (retry_later now idx
                   (upd_dest idx (\<lambda>d. d\<lparr>dn_proc := None\<rparr>) (p\<lparr>pl_host := ss_kill sys proc w\<rparr>)))))"

section \<open>The encoder\<close>

definition encoder_later :: "nat \<Rightarrow> bytes \<Rightarrow> ('w, 'r, 'i) pipeline \<Rightarrow> ('w, 'r, 'i) pipeline" where
  "encoder_later now reason p =
     (let (delay, b) = backoff_fail (pl_encoder_backoff p)
      in emit (EncoderDown reason)
           (p\<lparr>pl_encoder := None, pl_encoder_backoff := b, pl_encoder_retry_at := Some (wrap64 (now + delay)),
              pl_encoder_reason := Some reason\<rparr>))"

definition spawn_reason :: "machine \<Rightarrow> stream_config \<Rightarrow> io_error \<Rightarrow> bytes" where
  "spawn_reason mc cfg err =
     (if ie_not_found err \<and> \<not> installed mc (sc_ffmpeg cfg) then missing (sc_ffmpeg cfg)
      else str ''spawn failed: '' @ ie_text err)"

text \<open>\<open>new\<close> has built this cadence before: it does not panic.\<close>

definition fresh_cadence :: "stream_config \<Rightarrow> video_cadence" where
  "fresh_cadence cfg = the (cadence_new (unat (sc_fps cfg)))"

definition spawn_encoder ::
  "('w, 'r, 'i) stream_sys \<Rightarrow> nat \<Rightarrow> ('w, 'r, 'i) pipeline \<Rightarrow> ('w, 'r, 'i) pipeline" where
  "spawn_encoder sys now p =
     (case ss_spawn sys (encoder_spec (pl_cfg p)) (pl_host p) of
        (Inr proc, w) \<Rightarrow>
          emit EncoderUp
            (p\<lparr>pl_host := w, pl_cadence := fresh_cadence (pl_cfg p),
               pl_encoder := Some \<lparr>ep_proc = proc, ep_spawned = now, ep_healthy = False\<rparr>,
               pl_encoder_retry_at := None, pl_encoder_reason := None\<rparr>)
      | (Inl err, w) \<Rightarrow>
          encoder_later now (spawn_reason (ss_machine sys w) (pl_cfg p) err) (p\<lparr>pl_host := w\<rparr>))"

definition poll_encoder ::
  "('w, 'r, 'i) stream_sys \<Rightarrow> nat \<Rightarrow> ('w, 'r, 'i) pipeline \<Rightarrow> ('w, 'r, 'i) pipeline" where
  "poll_encoder sys now p =
     (case pl_encoder p of
        Some enc \<Rightarrow>
          (case ss_poll sys (ep_proc enc) (pl_host p) of
             (Running, w) \<Rightarrow>
               (if \<not> ep_healthy enc \<and> HEALTHY_MS \<le> now - ep_spawned enc
                then p\<lparr>pl_host := w, pl_encoder := Some (enc\<lparr>ep_healthy := True\<rparr>), pl_encoder_backoff := 0\<rparr>
                else p\<lparr>pl_host := w\<rparr>)
           | (Exited reason, w) \<Rightarrow>
               encoder_later now reason (p\<lparr>pl_host := ss_kill sys (ep_proc enc) w\<rparr>))
      | None \<Rightarrow>
          (if \<exists>due \<in> set_option (pl_encoder_retry_at p). now < due then p else spawn_encoder sys now p))"

definition encoder_failed ::
  "('w, 'r, 'i) stream_sys \<Rightarrow> nat \<Rightarrow> bytes \<Rightarrow> ('w, 'r, 'i) pipeline \<Rightarrow> ('w, 'r, 'i) pipeline" where
  "encoder_failed sys now reason p =
     encoder_later now reason
       (case pl_encoder p of None \<Rightarrow> p | Some enc \<Rightarrow> on_host (ss_kill sys (ep_proc enc)) p)"

section \<open>Supervision and the host's requests\<close>

definition poll_destinations ::
  "('w, 'r, 'i) stream_sys \<Rightarrow> nat \<Rightarrow> bool \<Rightarrow> ('w, 'r, 'i) pipeline \<Rightarrow> ('w, 'r, 'i) pipeline" where
  "poll_destinations sys now encoding p =
     foldl (\<lambda>p idx. poll_destination sys idx now encoding p) p [0..<length (pl_dests p)]"

definition pipeline_poll ::
  "('w, 'r, 'i) stream_sys \<Rightarrow> nat \<Rightarrow> ('w, 'r, 'i) pipeline \<Rightarrow> ('w, 'r, 'i) pipeline" where
  "pipeline_poll sys now p =
     (if \<not> pl_started p then p
      else (let p1 = poll_encoder sys now p in poll_destinations sys now (pl_encoder p1 \<noteq> None) p1))"

text \<open>\<open>position\<close> of the destination with an id.\<close>

fun dest_index :: "destination_id \<Rightarrow> destination list \<Rightarrow> nat option" where
  "dest_index dest [] = None"
| "dest_index dest (d # ds) = (if dn_id d = dest then Some 0 else map_option Suc (dest_index dest ds))"

definition new_destination :: "destination_id \<Rightarrow> stream_platform \<Rightarrow> stream_key \<Rightarrow> destination" where
  "new_destination dest platform key =
     \<lparr>dn_id = dest, dn_platform = platform, dn_key = key, dn_proc = None, dn_state = DestIdle, dn_backoff = 0,
      dn_retry_at = None, dn_progress_at = 0\<rparr>"

definition add_destination ::
  "('w, 'r, 'i) stream_sys \<Rightarrow> nat \<Rightarrow> destination_id \<Rightarrow> stream_platform \<Rightarrow> stream_key \<Rightarrow>
   ('w, 'r, 'i) pipeline \<Rightarrow> (stream_error + unit) \<times> ('w, 'r, 'i) pipeline" where
  "add_destination sys now dest platform key p =
     (if catalog_get (pl_catalog p) platform = None then (Inl (UnknownPlatform (platform_as_str platform)), p)
      else case dest_index dest (pl_dests p) of
        Some idx \<Rightarrow>
          (Inr (), pipeline_poll sys now
             (set_state idx DestIdle
               (upd_dest idx (\<lambda>d. d\<lparr>dn_platform := platform, dn_key := key, dn_backoff := 0, dn_retry_at := None\<rparr>)
                 (stop_destination sys idx p))))
      | None \<Rightarrow>
          (if MAX_DESTINATIONS \<le> length (pl_dests p) then (Inl TooManyDestinations, p)
           else (Inr (), pipeline_poll sys now
             (emit (DestinationChanged dest platform DestIdle)
               (p\<lparr>pl_dests := pl_dests p @ [new_destination dest platform key]\<rparr>)))))"

definition remove_destination ::
  "('w, 'r, 'i) stream_sys \<Rightarrow> destination_id \<Rightarrow> ('w, 'r, 'i) pipeline \<Rightarrow>
   (stream_error + unit) \<times> ('w, 'r, 'i) pipeline" where
  "remove_destination sys dest p =
     (case dest_index dest (pl_dests p) of
        None \<Rightarrow> (Inl (NoSuchDestination (destination_num dest)), p)
      | Some idx \<Rightarrow>
          (let p1 = on_host (discard sys (sc_key_dir (pl_cfg p)) dest) (stop_destination sys idx p);
               gone = pl_dests p1 ! idx
           in (Inr (), emit (DestinationChanged (dn_id gone) (dn_platform gone) DestIdle)
                 (p1\<lparr>pl_dests := take idx (pl_dests p1) @ drop (Suc idx) (pl_dests p1)\<rparr>))))"

definition idle_destination ::
  "('w, 'r, 'i) stream_sys \<Rightarrow> nat \<Rightarrow> ('w, 'r, 'i) pipeline \<Rightarrow> ('w, 'r, 'i) pipeline" where
  "idle_destination sys idx p =
     set_state idx DestIdle
       (upd_dest idx (\<lambda>d. d\<lparr>dn_backoff := 0, dn_retry_at := None\<rparr>) (stop_destination sys idx p))"

definition pipeline_stop :: "('w, 'r, 'i) stream_sys \<Rightarrow> ('w, 'r, 'i) pipeline \<Rightarrow> ('w, 'r, 'i) pipeline" where
  "pipeline_stop sys p =
     (let p1 = foldl (\<lambda>p idx. idle_destination sys idx p) (p\<lparr>pl_started := False\<rparr>) [0..<length (pl_dests p)];
          p2 = (case pl_encoder p1 of
                  None \<Rightarrow> p1
                | Some enc \<Rightarrow>
                    emit (EncoderDown (str ''stopped by host''))
                      (on_host (ss_kill sys (ep_proc enc)) (p1\<lparr>pl_encoder := None\<rparr>)))
      in p2\<lparr>pl_encoder_backoff := 0\<rparr>)"

fun pipeline_apply ::
  "('w, 'r, 'i) stream_sys \<Rightarrow> nat \<Rightarrow> stream_op \<Rightarrow> ('w, 'r, 'i) pipeline \<Rightarrow>
   (stream_error + unit) \<times> ('w, 'r, 'i) pipeline" where
  "pipeline_apply sys now (AddDestination dest platform key) p = add_destination sys now dest platform key p"
| "pipeline_apply sys now (RemoveDestination dest) p = remove_destination sys dest p"
| "pipeline_apply sys now StreamStart p =
     (Inr (), pipeline_poll sys now (p\<lparr>pl_started := True, pl_encoder_retry_at := None\<rparr>))"
| "pipeline_apply sys now StreamStop p = (Inr (), pipeline_stop sys p)"

section \<open>The roster\<close>

definition roster_hashes :: "stream_roster \<Rightarrow> hash32 set" where
  "roster_hashes r = {h. \<exists>m \<in> set (sr_members r). \<exists>b. sm_avatar m = Some (h, b)}"

text \<open>One member's picture: decoded once per hash.\<close>

definition member_avatar ::
  "('w, 'r, 'i) stream_sys \<Rightarrow> stream_member \<Rightarrow> (hash32 \<Rightarrow> 'i option) \<Rightarrow> 'i option \<times> (hash32 \<Rightarrow> 'i option)" where
  "member_avatar sys m avatars =
     (case sm_avatar m of
        None \<Rightarrow> (None, avatars)
      | Some (h, b) \<Rightarrow>
          (let avatars1 = (if avatars h = None
                           then case ss_decode_avatar sys b of
                                  Some img \<Rightarrow> avatars(h \<mapsto> img)
                                | None \<Rightarrow> avatars
                           else avatars)
           in (avatars1 h, avatars1)))"

fun member_visuals ::
  "('w, 'r, 'i) stream_sys \<Rightarrow> stream_member list \<Rightarrow> (hash32 \<Rightarrow> 'i option) \<Rightarrow>
   'i member_visual list \<times> (hash32 \<Rightarrow> 'i option)" where
  "member_visuals sys [] avatars = ([], avatars)"
| "member_visuals sys (m # ms) avatars =
     (let (avatar, a1) = member_avatar sys m avatars; (vs, a2) = member_visuals sys ms a1
      in (\<lparr>mv_name = sm_name m, mv_avatar = avatar, mv_level_peak = 0, mv_level_rms = 0,
           mv_connected = sm_connected m\<rparr> # vs, a2))"

definition set_roster ::
  "('w, 'r, 'i) stream_sys \<Rightarrow> stream_roster \<Rightarrow> ('w, 'r, 'i) pipeline \<Rightarrow> ('w, 'r, 'i) pipeline" where
  "set_roster sys roster p =
     (if roster = pl_roster p then p
      else (let kept = (\<lambda>h. if list_ex (\<lambda>m. \<exists>b \<in> set_option (sm_avatar m). fst b = h) (sr_members roster)
                            then pl_avatars p h else None);
                (vs, a) = member_visuals sys (take MAX_CARDS (sr_members roster)) kept
            in p\<lparr>pl_avatars := a, pl_visuals := vs, pl_roster := roster\<rparr>))"

section \<open>Feeding\<close>

text \<open>\<open>as i16\<close> of a single: toward zero, saturating, 0 for a NaN.\<close>

definition f32_trunc :: "f32 \<Rightarrow> int" where
  "f32_trunc x =
     (let e = unat (drop_bit 23 (f32_abs x)); m = 2 ^ 23 + unat (take_bit 23 x);
          mag = (if e = 0 then 0 else if e < 150 then m div 2 ^ (150 - e) else m * 2 ^ (e - 150))
      in if bit x 31 then - int mag else int mag)"

definition as_i16 :: "f32 \<Rightarrow> u16" where
  "as_i16 x = (if f32_is_nan x then 0 else word_of_int (min 32767 (max (- 32768) (f32_trunc x))))"

definition pcm_of :: "fp \<Rightarrow> f32 list \<Rightarrow> bytes" where
  "pcm_of fp audio =
     concat (map (\<lambda>s. to_le (as_i16 (fp_mul fp (f32_clamp s F32_MINUS_ONE F32_ONE) 0x46FFFE00))) audio)"

definition levelled :: "levels \<Rightarrow> 'i member_visual list \<Rightarrow> 'i member_visual list" where
  "levelled lv vs =
     map (\<lambda>(v, i). v\<lparr>mv_level_peak := lv_peak lv ! i, mv_level_rms := lv_rms lv ! i\<rparr>) (zip vs [0..<lv_len lv]) @
     drop (lv_len lv) vs"

text \<open>\<open>None\<close>: the conversion's panic.\<close>

definition draw_frame ::
  "('w, 'r, 'i) stream_sys \<Rightarrow> nat \<Rightarrow> levels \<Rightarrow> ('w, 'r, 'i) pipeline \<Rightarrow> ('w, 'r, 'i) pipeline option" where
  "draw_frame sys frame lv p =
     (let vs = levelled lv (pl_visuals p);
          (rgba, r) = ss_render sys frame vs (sr_listeners (pl_roster p)) (pl_rgba p) (pl_renderer p);
          p1 = p\<lparr>pl_visuals := vs, pl_rgba := rgba, pl_renderer := r\<rparr>
      in case rgba_to_i420 rgba (unat (sc_width (pl_cfg p))) (unat (sc_height (pl_cfg p))) (length (pl_yuv p)) of
           None \<Rightarrow> None
         | Some yuv \<Rightarrow> Some (p1\<lparr>pl_yuv := yuv\<rparr>))"

fun feed_frames ::
  "('w, 'r, 'i) stream_sys \<Rightarrow> nat \<Rightarrow> levels \<Rightarrow> nat \<Rightarrow> bool \<Rightarrow> nat list \<Rightarrow> ('w, 'r, 'i) pipeline \<Rightarrow>
   ('w, 'r, 'i) pipeline option" where
  "feed_frames sys now lv proc rendered [] p = Some p"
| "feed_frames sys now lv proc rendered (frame # frames) p =
     (case (if rendered then Some (p\<lparr>pl_repeated := pl_repeated p + 1\<rparr>) else draw_frame sys frame lv p) of
        None \<Rightarrow> None
      | Some p1 \<Rightarrow>
          (case ss_write_fifo sys proc 0 (pl_yuv p1) (pl_host p1) of
             (Inr Queued, w) \<Rightarrow> feed_frames sys now lv proc True frames (p1\<lparr>pl_host := w\<rparr>)
           | (Inr Dropped, w) \<Rightarrow>
               feed_frames sys now lv proc True frames (p1\<lparr>pl_host := w, pl_dropped := pl_dropped p1 + 1\<rparr>)
           | (Inl err, w) \<Rightarrow>
               Some (encoder_failed sys now (str ''video write failed: '' @ ie_text err) (p1\<lparr>pl_host := w\<rparr>))))"

definition push_tick ::
  "('w, 'r, 'i) stream_sys \<Rightarrow> nat \<Rightarrow> f32 list \<Rightarrow> levels \<Rightarrow> ('w, 'r, 'i) pipeline \<Rightarrow>
   ('w, 'r, 'i) pipeline option" where
  "push_tick sys now audio lv p =
     (case pl_encoder p of
        None \<Rightarrow> Some p
      | Some enc \<Rightarrow>
          (case ss_write_stdin sys (ep_proc enc) (pcm_of (ss_fp sys) audio) (pl_host p) of
             (Inl err, w) \<Rightarrow>
               Some (encoder_failed sys now (str ''audio write failed: '' @ ie_text err) (p\<lparr>pl_host := w\<rparr>))
           | (Inr _, w) \<Rightarrow>
               (let (run, c) = cadence_advance (pl_cadence p) (length audio div 2)
                in feed_frames sys now lv (ep_proc enc) False (run_frames run)
                     (p\<lparr>pl_host := w, pl_cadence := c\<rparr>))))"

section \<open>What it reports\<close>

definition destination_report :: "('w, 'r, 'i) pipeline \<Rightarrow> destination \<Rightarrow> destination_status" where
  "destination_report p d =
     \<lparr>ds_id = dn_id d, ds_platform = dn_platform d, ds_state = dn_state d,
      ds_bitrate_kbps = total_kbps (pl_cfg p), ds_dropped_frames = pl_dropped p, ds_repeated_frames = pl_repeated p\<rparr>"

definition pipeline_status :: "('w, 'r, 'i) pipeline \<Rightarrow> destination_status list" where
  "pipeline_status p = map (destination_report p) (pl_dests p)"

definition pipeline_events :: "('w, 'r, 'i) pipeline \<Rightarrow> pipeline_event list \<times> ('w, 'r, 'i) pipeline" where
  "pipeline_events p = (pl_events p, p\<lparr>pl_events := []\<rparr>)"

definition on_air :: "('w, 'r, 'i) pipeline \<Rightarrow> bool" where
  "on_air p \<longleftrightarrow> list_ex (\<lambda>d. dn_state d = DestLive) (pl_dests p)"

text \<open>\<open>Drop\<close>.\<close>

definition drop_destination ::
  "('w, 'r, 'i) stream_sys \<Rightarrow> stream_config \<Rightarrow> destination \<Rightarrow> 'w \<Rightarrow> 'w" where
  "drop_destination sys cfg d w =
     (let w1 = (case dn_proc d of None \<Rightarrow> w | Some proc \<Rightarrow> ss_kill sys proc w);
          w2 = discard sys (sc_key_dir cfg) (dn_id d) w1
      in snd (clear_progress sys (sc_work_dir cfg) (dn_id d) w2))"

definition pipeline_drop :: "('w, 'r, 'i) stream_sys \<Rightarrow> ('w, 'r, 'i) pipeline \<Rightarrow> 'w" where
  "pipeline_drop sys p =
     (let w = foldl (\<lambda>w d. drop_destination sys (pl_cfg p) d w) (pl_host p) (pl_dests p)
      in case pl_encoder p of None \<Rightarrow> w | Some enc \<Rightarrow> ss_kill sys (ep_proc enc) w)"

end
