(* ===== verification/PipelineInv.thy ===== *)
theory PipelineInv
  imports Pipeline
begin

text \<open>
  What one operation of the broadcast supervisor may change.  An operation on a destination \<^emph>\<open>touches\<close> only
  that destination, tells every change of its state in the events, and accounts for its process; an operation
  on the encoder likewise.  The invariants of the whole pipeline follow from these two frames.
\<close>

section \<open>What the supervisor relies on\<close>

text \<open>The contract of \<open>ProcessHost\<close> on the processes a host has: a spawn adds a new one, a kill removes it,
  and nothing else changes them.\<close>

definition host_contract :: "('w, 'r, 'i) stream_sys \<Rightarrow> ('w \<Rightarrow> nat set) \<Rightarrow> bool" where
  "host_contract sys live \<longleftrightarrow>
     (\<forall>spec w proc w'. ss_spawn sys spec w = (Inr proc, w') \<longrightarrow> proc \<notin> live w \<and> live w' = insert proc (live w)) \<and>
     (\<forall>spec w e w'. ss_spawn sys spec w = (Inl e, w') \<longrightarrow> live w' = live w) \<and>
     (\<forall>proc w. live (ss_kill sys proc w) = live w - {proc}) \<and>
     (\<forall>proc w. live (snd (ss_poll sys proc w)) = live w) \<and>
     (\<forall>proc b w. live (snd (ss_write_stdin sys proc b w)) = live w) \<and>
     (\<forall>proc i b w. live (snd (ss_write_fifo sys proc i b w)) = live w) \<and>
     (\<forall>f w. live (snd (ss_create_dir_all sys f w)) = live w) \<and>
     (\<forall>f w. live (snd (ss_create_private_dir sys f w)) = live w) \<and>
     (\<forall>f w. live (snd (ss_remove_file sys f w)) = live w) \<and>
     (\<forall>f w. live (snd (ss_create_0600 sys f w)) = live w) \<and>
     (\<forall>f b w. live (snd (ss_write_file sys f b w)) = live w) \<and>
     (\<forall>f w. live (ss_empty_file sys f w) = live w)"

lemma host_spawned: "host_contract sys live \<Longrightarrow> ss_spawn sys spec w = (Inr proc, w') \<Longrightarrow>
    proc \<notin> live w \<and> live w' = insert proc (live w)"
  by (simp add: host_contract_def)

lemma host_refused: "host_contract sys live \<Longrightarrow> ss_spawn sys spec w = (Inl e, w') \<Longrightarrow> live w' = live w"
  by (simp add: host_contract_def)

lemma host_quiet [simp]:
  assumes "host_contract sys live"
  shows "live (ss_kill sys proc w) = live w - {proc}" "live (snd (ss_poll sys proc w)) = live w"
    "live (snd (ss_write_stdin sys proc b w)) = live w" "live (snd (ss_write_fifo sys proc i b w)) = live w"
    "live (snd (ss_create_dir_all sys f w)) = live w" "live (snd (ss_create_private_dir sys f w)) = live w"
    "live (snd (ss_remove_file sys f w)) = live w" "live (snd (ss_create_0600 sys f w)) = live w"
    "live (snd (ss_write_file sys f b w)) = live w" "live (ss_empty_file sys f w) = live w"
  using assms by (simp_all add: host_contract_def)

lemma host_steps:
  assumes "host_contract sys live"
  shows "ss_poll sys proc w = (x, w') \<Longrightarrow> live w' = live w"
    "ss_write_stdin sys proc b w = (r, w') \<Longrightarrow> live w' = live w"
    "ss_write_fifo sys proc i b w = (r1, w') \<Longrightarrow> live w' = live w"
    "ss_create_dir_all sys f w = (r2, w') \<Longrightarrow> live w' = live w"
    "ss_create_private_dir sys f w = (r2, w') \<Longrightarrow> live w' = live w"
    "ss_remove_file sys f w = (r2, w') \<Longrightarrow> live w' = live w"
    "ss_create_0600 sys f w = (r2, w') \<Longrightarrow> live w' = live w"
    "ss_write_file sys f b w = (r2, w') \<Longrightarrow> live w' = live w"
  using host_quiet(2) [OF assms, of proc w] host_quiet(3) [OF assms, of proc b w]
    host_quiet(4) [OF assms, of proc i b w] host_quiet(5) [OF assms, of f w] host_quiet(6) [OF assms, of f w]
    host_quiet(7) [OF assms, of f w] host_quiet(8) [OF assms, of f w] host_quiet(9) [OF assms, of f b w]
  by simp_all

lemma clear_live:
  assumes "host_contract sys live" "clear_progress sys dir dest w = (r, w')"
  shows "live w' = live w"
proof -
  obtain r1 w1 where 1: "ss_create_dir_all sys dir w = (r1, w1)" by fastforce
  obtain r2 w2 where 2: "ss_remove_file sys (progress_path dir dest) w1 = (r2, w2)" by fastforce
  have "w' = w1 \<or> w' = w2" using assms(2) 1 2 by (auto simp: clear_progress_def split: sum.splits)
  then show ?thesis using host_steps(4) [OF assms(1) 1] host_steps(6) [OF assms(1) 2] by metis
qed

lemma clear_live_snd [simp]: "host_contract sys live \<Longrightarrow> live (snd (clear_progress sys dir dest w)) = live w"
  by (metis clear_live prod.collapse)

lemma discard_live [simp]: "host_contract sys live \<Longrightarrow> live (discard sys dir dest w) = live w"
  by (simp add: discard_def)

lemma stage_live:
  assumes "host_contract sys live" "stage sys dir dest secret w = (r, w')"
  shows "live w' = live w"
proof -
  obtain r1 w1 where 1: "ss_create_private_dir sys dir w = (r1, w1)" by fastforce
  obtain r2 w2 where 2: "ss_remove_file sys (key_path dir dest) w1 = (r2, w2)" by fastforce
  obtain r3 w3 where 3: "ss_create_0600 sys (key_path dir dest) w2 = (r3, w3)" by fastforce
  obtain r4 w4 where 4: "ss_write_file sys (key_path dir dest) (secret @ [10]) w3 = (r4, w4)" by fastforce
  have "w' \<in> {w1, w3, w4}" using assms(2) 1 2 3 4 by (auto simp: stage_def Let_def split: sum.splits)
  then show ?thesis
    using host_steps(5) [OF assms(1) 1] host_steps(6) [OF assms(1) 2] host_steps(7) [OF assms(1) 3]
      host_steps(8) [OF assms(1) 4] by auto
qed

section \<open>Frames\<close>

definition replay ::
  "pipeline_event list \<Rightarrow> (destination_id \<Rightarrow> destination_state option) \<Rightarrow> destination_id \<Rightarrow> destination_state option" where
  "replay es t = foldl (\<lambda>t e. case e of DestinationChanged dest _ st \<Rightarrow> t(dest \<mapsto> st) | _ \<Rightarrow> t) t es"

lemma replay_simps [simp]:
  "replay [] t = t" "replay (es @ fs) t = replay fs (replay es t)"
  "replay (DestinationChanged dest pf st # es) t = replay es (t(dest \<mapsto> st))"
  "replay (EncoderUp # es) t = replay es t" "replay (EncoderDown r # es) t = replay es t"
  by (simp_all add: replay_def)

text \<open>A process slot and the processes of the host change together.\<close>

definition accounts :: "nat option \<Rightarrow> nat set \<Rightarrow> nat option \<Rightarrow> nat set \<Rightarrow> bool" where
  "accounts a L b M \<longleftrightarrow> (set_option a \<subseteq> L \<longrightarrow> M - set_option b = L - set_option a \<and> set_option b \<subseteq> M)"

lemma accounts_refl [simp]: "accounts a L a L"
  by (simp add: accounts_def)

lemma accounts_trans: "accounts a L b M \<Longrightarrow> accounts b M c N \<Longrightarrow> accounts a L c N"
  by (auto simp: accounts_def)

definition touches ::
  "('w, 'r, 'i) stream_sys \<Rightarrow> ('w \<Rightarrow> nat set) \<Rightarrow> nat \<Rightarrow> ('w, 'r, 'i) pipeline \<Rightarrow> ('w, 'r, 'i) pipeline \<Rightarrow> bool" where
  "touches sys live idx p p' \<longleftrightarrow>
     pl_cfg p' = pl_cfg p \<and> pl_catalog p' = pl_catalog p \<and> pl_started p' = pl_started p \<and>
     pl_encoder p' = pl_encoder p \<and> pl_encoder_reason p' = pl_encoder_reason p \<and>
     pl_rgba p' = pl_rgba p \<and> pl_yuv p' = pl_yuv p \<and>
     length (pl_dests p') = length (pl_dests p) \<and>
     (\<forall>j. j \<noteq> idx \<longrightarrow> pl_dests p' ! j = pl_dests p ! j) \<and>
     dn_id (pl_dests p' ! idx) = dn_id (pl_dests p ! idx) \<and>
     (\<exists>es. pl_events p' = pl_events p @ es \<and>
        (\<forall>t. t (dn_id (pl_dests p ! idx)) = Some (dn_state (pl_dests p ! idx)) \<longrightarrow>
          replay es t = t(dn_id (pl_dests p ! idx) \<mapsto> dn_state (pl_dests p' ! idx)))) \<and>
     (host_contract sys live \<longrightarrow>
        accounts (dn_proc (pl_dests p ! idx)) (live (pl_host p)) (dn_proc (pl_dests p' ! idx)) (live (pl_host p')))"

lemma touches_refl [simp, intro]: "touches sys live idx p p"
proof -
  have "\<exists>es. pl_events p = pl_events p @ es \<and>
        (\<forall>t. t (dn_id (pl_dests p ! idx)) = Some (dn_state (pl_dests p ! idx)) \<longrightarrow>
          replay es t = t(dn_id (pl_dests p ! idx) \<mapsto> dn_state (pl_dests p ! idx)))"
    by (rule exI [of _ "[]"]) (simp add: map_upd_triv)
  then show ?thesis by (simp add: touches_def)
qed

lemma touches_frame:
  assumes "touches sys live idx p p'"
  shows "pl_cfg p' = pl_cfg p" "pl_catalog p' = pl_catalog p" "pl_started p' = pl_started p"
    "pl_encoder p' = pl_encoder p" "pl_encoder_reason p' = pl_encoder_reason p"
    "length (pl_dests p') = length (pl_dests p)" "j \<noteq> idx \<Longrightarrow> pl_dests p' ! j = pl_dests p ! j"
    "dn_id (pl_dests p' ! idx) = dn_id (pl_dests p ! idx)" "pl_rgba p' = pl_rgba p" "pl_yuv p' = pl_yuv p"
  using assms by (simp_all only: touches_def simp_thms)

lemma touches_accounts:
  "touches sys live idx p p' \<Longrightarrow> host_contract sys live \<Longrightarrow>
   accounts (dn_proc (pl_dests p ! idx)) (live (pl_host p)) (dn_proc (pl_dests p' ! idx)) (live (pl_host p'))"
  by (simp only: touches_def simp_thms)

lemma touches_events:
  assumes "touches sys live idx p p'"
  obtains es where "pl_events p' = pl_events p @ es"
    "\<And>t. t (dn_id (pl_dests p ! idx)) = Some (dn_state (pl_dests p ! idx)) \<Longrightarrow>
      replay es t = t(dn_id (pl_dests p ! idx) \<mapsto> dn_state (pl_dests p' ! idx))"
  using assms unfolding touches_def by (elim conjE exE) simp

lemma touches_trans:
  assumes "touches sys live idx p q" "touches sys live idx q r"
  shows "touches sys live idx p r"
proof -
  obtain es where es: "pl_events q = pl_events p @ es"
    "\<And>t. t (dn_id (pl_dests p ! idx)) = Some (dn_state (pl_dests p ! idx)) \<Longrightarrow>
      replay es t = t(dn_id (pl_dests p ! idx) \<mapsto> dn_state (pl_dests q ! idx))"
    by (rule touches_events [OF assms(1)]) blast
  obtain fs where fs: "pl_events r = pl_events q @ fs"
    "\<And>t. t (dn_id (pl_dests q ! idx)) = Some (dn_state (pl_dests q ! idx)) \<Longrightarrow>
      replay fs t = t(dn_id (pl_dests q ! idx) \<mapsto> dn_state (pl_dests r ! idx))"
    by (rule touches_events [OF assms(2)]) blast
  note frame = touches_frame [OF assms(1)] touches_frame [OF assms(2)]
  have "\<exists>es. pl_events r = pl_events p @ es \<and>
      (\<forall>t. t (dn_id (pl_dests p ! idx)) = Some (dn_state (pl_dests p ! idx)) \<longrightarrow>
        replay es t = t(dn_id (pl_dests p ! idx) \<mapsto> dn_state (pl_dests r ! idx)))"
    by (rule exI [of _ "es @ fs"]) (use es fs frame(8) in simp)
  moreover have "host_contract sys live \<Longrightarrow>
      accounts (dn_proc (pl_dests p ! idx)) (live (pl_host p)) (dn_proc (pl_dests r ! idx)) (live (pl_host r))"
    using touches_accounts [OF assms(1)] touches_accounts [OF assms(2)] accounts_trans by blast
  ultimately show ?thesis by (simp only: touches_def frame) (simp add: frame)
qed

text \<open>One write to the destination and to the host.\<close>

lemma touches_raw:
  assumes "idx < length (pl_dests p)" "dn_id d = dn_id (pl_dests p ! idx)" "dn_state d = dn_state (pl_dests p ! idx)"
    and "host_contract sys live \<Longrightarrow> accounts (dn_proc (pl_dests p ! idx)) (live (pl_host p)) (dn_proc d) (live w)"
  shows "touches sys live idx p (p\<lparr>pl_host := w, pl_dests := (pl_dests p)[idx := d]\<rparr>)"
proof -
  have "\<exists>es. pl_events p = pl_events p @ es \<and>
        (\<forall>t. t (dn_id (pl_dests p ! idx)) = Some (dn_state (pl_dests p ! idx)) \<longrightarrow>
          replay es t = t(dn_id (pl_dests p ! idx) \<mapsto> dn_state (pl_dests p ! idx)))"
    by (rule exI [of _ "[]"]) (simp add: map_upd_triv)
  then show ?thesis using assms by (simp add: touches_def)
qed

lemma touches_upd:
  assumes "idx < length (pl_dests p)" "\<And>d. dn_id (f d) = dn_id d" "\<And>d. dn_state (f d) = dn_state d"
    "\<And>d. dn_proc (f d) = dn_proc d"
  shows "touches sys live idx p (upd_dest idx f p)"
  using touches_raw [of idx p "f (pl_dests p ! idx)" sys live "pl_host p"] assms by (simp add: upd_dest_def)

lemma touches_host:
  assumes "idx < length (pl_dests p)" "host_contract sys live \<Longrightarrow> live w = live (pl_host p)"
  shows "touches sys live idx p (p\<lparr>pl_host := w\<rparr>)"
  using touches_raw [of idx p "pl_dests p ! idx" sys live w] assms by simp

lemma touches_set_state:
  assumes "idx < length (pl_dests p)"
  shows "touches sys live idx p (set_state idx st p)"
proof (cases "dn_state (pl_dests p ! idx) = fitted st")
  case False
  let ?d = "pl_dests p ! idx"
  have "\<exists>es. pl_events p @ [DestinationChanged (dn_id ?d) (dn_platform ?d) (fitted st)] = pl_events p @ es \<and>
        (\<forall>t. t (dn_id ?d) = Some (dn_state ?d) \<longrightarrow> replay es t = t(dn_id ?d \<mapsto> fitted st))"
    by (rule exI [of _ "[DestinationChanged (dn_id ?d) (dn_platform ?d) (fitted st)]"]) simp
  then show ?thesis using assms False by (simp add: set_state_def touches_def emit_def upd_dest_def Let_def)
qed (simp add: set_state_def)

section \<open>Reading back\<close>

lemma dests_host [simp]: "pl_dests (on_host f p) = pl_dests p" "pl_host (on_host f p) = f (pl_host p)"
  "pl_cfg (on_host f p) = pl_cfg p" "pl_events (on_host f p) = pl_events p"
  "pl_encoder (on_host f p) = pl_encoder p" "pl_started (on_host f p) = pl_started p"
  by (simp_all add: on_host_def)

lemma dests_upd [simp]:
  "pl_dests (upd_dest idx f p) = (pl_dests p)[idx := f (pl_dests p ! idx)]" "pl_host (upd_dest idx f p) = pl_host p"
  "pl_cfg (upd_dest idx f p) = pl_cfg p" "pl_encoder (upd_dest idx f p) = pl_encoder p"
  by (simp_all add: upd_dest_def)

lemma dests_set_state [simp]:
  "pl_dests (set_state idx st p) = (pl_dests p)[idx := (pl_dests p ! idx)\<lparr>dn_state := fitted st\<rparr>]"
  "pl_host (set_state idx st p) = pl_host p" "pl_cfg (set_state idx st p) = pl_cfg p"
  by (auto simp: set_state_def Let_def emit_def)
    (cases "pl_dests p ! idx"; simp; metis list_update_id)

definition dest_ok :: "destination \<Rightarrow> bool" where
  "dest_ok d \<longleftrightarrow> (dn_proc d \<noteq> None \<longleftrightarrow> dn_state d \<in> {DestConnecting, DestLive}) \<and> reason_fitted (dn_state d)"

lemma fitted_simps [simp]:
  "fitted DestIdle = DestIdle" "fitted DestConnecting = DestConnecting" "fitted DestLive = DestLive"
  "fitted (DestFailed r) = DestFailed (fit_stream_reason r)"
  by (simp_all add: fitted_def)

lemma reason_fitted_simps [simp]:
  "reason_fitted DestIdle" "reason_fitted DestConnecting" "reason_fitted DestLive"
  "reason_fitted (DestFailed (fit_stream_reason r))"
  by (auto simp: reason_fitted_def)

section \<open>The operations on a destination\<close>

lemma retry_dest [simp]:
  assumes "idx < length (pl_dests p)"
  shows "dn_proc (pl_dests (retry_later now idx p) ! idx) = dn_proc (pl_dests p ! idx)"
    "dn_state (pl_dests (retry_later now idx p) ! idx) = dn_state (pl_dests p ! idx)"
    "length (pl_dests (retry_later now idx p)) = length (pl_dests p)"
  using assms by (simp_all add: retry_later_def Let_def split_def)

lemma touches_retry: "idx < length (pl_dests p) \<Longrightarrow> touches sys live idx p (retry_later now idx p)"
  unfolding retry_later_def by (rule touches_upd) (simp_all add: Let_def split_def)

lemma touches_fail:
  assumes "idx < length (pl_dests p)" "host_contract sys live \<Longrightarrow> live w = live (pl_host p)"
  shows "touches sys live idx p (set_state idx st (retry_later now idx (p\<lparr>pl_host := w\<rparr>)))"
  by (rule touches_trans [OF touches_host touches_trans [OF touches_retry touches_set_state]])
    (use assms in simp_all)

lemma touches_freed:
  assumes "idx < length (pl_dests p)" "dn_proc (pl_dests p ! idx) = Some proc"
    and "host_contract sys live \<Longrightarrow> live w = live (pl_host p) - {proc}"
  shows "touches sys live idx p (upd_dest idx (\<lambda>d. d\<lparr>dn_proc := None\<rparr>) (p\<lparr>pl_host := w\<rparr>))"
  using touches_raw [of idx p "(pl_dests p ! idx)\<lparr>dn_proc := None\<rparr>" sys live w] assms
  by (simp add: upd_dest_def accounts_def)

lemma touches_stop:
  assumes "idx < length (pl_dests p)"
  shows "touches sys live idx p (stop_destination sys idx p)"
proof (cases "dn_proc (pl_dests p ! idx)")
  case None
  then show ?thesis using assms by (simp add: stop_destination_def on_host_def touches_host)
next
  case (Some proc)
  let ?q = "upd_dest idx (\<lambda>d. d\<lparr>dn_proc := None\<rparr>) (p\<lparr>pl_host := ss_kill sys proc (pl_host p)\<rparr>)"
  have "stop_destination sys idx p =
      ?q\<lparr>pl_host := snd (clear_progress sys (sc_work_dir (pl_cfg p)) (dn_id (pl_dests p ! idx)) (pl_host ?q))\<rparr>"
    using Some by (simp add: stop_destination_def on_host_def upd_dest_def Let_def)
  moreover have "touches sys live idx p ?q" using assms Some by (rule touches_freed) simp
  moreover have "touches sys live idx ?q (?q\<lparr>pl_host :=
      snd (clear_progress sys (sc_work_dir (pl_cfg p)) (dn_id (pl_dests p ! idx)) (pl_host ?q))\<rparr>)"
    by (rule touches_host) (use assms in simp_all)
  ultimately show ?thesis using touches_trans by metis
qed

lemma stop_dest [simp]:
  assumes "idx < length (pl_dests p)"
  shows "dn_proc (pl_dests (stop_destination sys idx p) ! idx) = None"
    "dn_state (pl_dests (stop_destination sys idx p) ! idx) = dn_state (pl_dests p ! idx)"
    "length (pl_dests (stop_destination sys idx p)) = length (pl_dests p)"
  using assms by (simp_all add: stop_destination_def Let_def split: option.split)

lemma spawn_pusher_cases:
  fixes p :: "('w, 'r, 'i) pipeline"
  assumes "idx < length (pl_dests p)" "dn_proc (pl_dests p ! idx) = None"
  obtains (failed) w st q where "spawn_pusher sys idx now p = set_state idx (DestFailed st) q"
      "q = p \<or> q = retry_later now idx (p\<lparr>pl_host := w\<rparr>)"
      "\<And>live. host_contract sys live \<Longrightarrow> live w = live (pl_host p)"
  | (spawned) w proc where "spawn_pusher sys idx now p = set_state idx DestConnecting
        (upd_dest idx (\<lambda>d. d\<lparr>dn_proc := Some proc, dn_progress_at := now, dn_retry_at := None\<rparr>) (p\<lparr>pl_host := w\<rparr>))"
      "\<And>live. host_contract sys live \<Longrightarrow> proc \<notin> live (pl_host p) \<and> live w = insert proc (live (pl_host p))"
proof -
  let ?d = "pl_dests p ! idx" and ?cfg = "pl_cfg p"
  show ?thesis
  proof (cases "catalog_get (pl_catalog p) (dn_platform ?d)")
    case None
    then show ?thesis by (intro failed [of _ p "pl_host p"]) (simp_all add: spawn_pusher_def Let_def)
  next
    case (Some spec)
    obtain r1 w1 where 1: "clear_progress sys (sc_work_dir ?cfg) (dn_id ?d) (pl_host p) = (r1, w1)" by fastforce
    obtain r2 w2 where 2: "stage sys (sc_key_dir ?cfg) (dn_id ?d) (ingest_url spec (dn_key ?d)) w1 = (r2, w2)"
      by fastforce
    have live1: "live w1 = live (pl_host p)" if "host_contract sys live" for live :: "'w \<Rightarrow> nat set"
      using clear_live [OF that 1] .
    have live2: "live w2 = live (pl_host p)" if "host_contract sys live" for live :: "'w \<Rightarrow> nat set"
      using stage_live [OF that 2] live1 [OF that] by simp
    show ?thesis
    proof (cases r1)
      case (Inl err)
      show ?thesis
        by (rule failed [of _ "retry_later now idx (p\<lparr>pl_host := w1\<rparr>)" w1])
          (use Some 1 Inl live1 in \<open>simp_all add: spawn_pusher_def Let_def\<close>)
    next
      case r1: (Inr u)
      show ?thesis
      proof (cases r2)
        case (Inl err)
        show ?thesis
          by (rule failed [of _ "retry_later now idx (p\<lparr>pl_host := w2\<rparr>)" w2])
            (use Some 1 2 r1 Inl live2 in \<open>simp_all add: spawn_pusher_def Let_def\<close>)
      next
        case r2: (Inr path)
        obtain r3 w3 where 3: "ss_spawn sys (pusher_spec ?cfg (dn_id ?d) (dn_platform ?d) path) w2 = (r3, w3)" by fastforce
        show ?thesis
        proof (cases r3)
          case (Inl err)
          let ?w = "discard sys (sc_key_dir ?cfg) (dn_id ?d) w3"
          have "live ?w = live (pl_host p)" if "host_contract sys live" for live :: "'w \<Rightarrow> nat set"
            using live2 [OF that] host_refused [OF that 3 [unfolded Inl]] that by simp
          then show ?thesis
            by (intro failed [of _ "retry_later now idx (p\<lparr>pl_host := ?w\<rparr>)" ?w])
              (use Some 1 2 3 r1 r2 Inl in \<open>simp_all add: spawn_pusher_def Let_def\<close>)
        next
          case (Inr proc)
          have "proc \<notin> live (pl_host p) \<and> live w3 = insert proc (live (pl_host p))"
            if "host_contract sys live" for live :: "'w \<Rightarrow> nat set"
            using live2 [OF that] host_spawned [OF that 3 [unfolded Inr]] by simp
          then show ?thesis
            by (intro spawned [of proc w3])
              (use Some 1 2 3 r1 r2 Inr in \<open>simp_all add: spawn_pusher_def Let_def\<close>)
        qed
      qed
    qed
  qed
qed

lemma spawn_pusher_frame:
  assumes "idx < length (pl_dests p)" "dn_proc (pl_dests p ! idx) = None"
  shows "touches sys live idx p (spawn_pusher sys idx now p)" "dest_ok (pl_dests (spawn_pusher sys idx now p) ! idx)"
proof -
  show "touches sys live idx p (spawn_pusher sys idx now p)"
  proof (cases rule: spawn_pusher_cases [OF assms, where sys = sys and now = now, case_names failed spawned])
    case (failed w st q)
    then show ?thesis using assms touches_fail touches_set_state by metis
  next
    case (spawned w proc)
    let ?f = "\<lambda>d. d\<lparr>dn_proc := Some proc, dn_progress_at := now, dn_retry_at := None\<rparr>"
    have "touches sys live idx p (upd_dest idx ?f (p\<lparr>pl_host := w\<rparr>))"
      using touches_raw [of idx p "?f (pl_dests p ! idx)" sys live w] assms spawned(2) [of live]
      by (simp add: upd_dest_def accounts_def)
    then show ?thesis
      unfolding spawned(1) by (rule touches_trans [OF _ touches_set_state]) (use assms(1) in simp)
  qed
  show "dest_ok (pl_dests (spawn_pusher sys idx now p) ! idx)"
    by (cases rule: spawn_pusher_cases [OF assms, where sys = sys and now = now, case_names failed spawned]) (use assms in \<open>auto simp: dest_ok_def\<close>)
qed

lemma read_report_frame:
  assumes "idx < length (pl_dests p)"
  shows "touches sys live idx p (read_report sys idx now p)"
    "dest_ok (pl_dests p ! idx) \<Longrightarrow> dest_ok (pl_dests (read_report sys idx now p) ! idx)"
proof -
  have up: "touches sys live idx q (upd_dest idx (\<lambda>d. d\<lparr>dn_progress_at := t\<rparr>) q)" if "idx < length (pl_dests q)" for q t
    by (rule touches_upd) (use that in simp_all)
  have live: "touches sys live idx p (set_state idx DestLive (upd_dest idx (\<lambda>d. d\<lparr>dn_backoff := 0\<rparr>) p))"
    by (rule touches_trans [OF touches_upd touches_set_state]) (use assms in simp_all)
  have trim: "touches sys live idx p (on_host (ss_empty_file sys path) p)" for path
    unfolding on_host_def by (rule touches_host) (use assms in simp_all)
  show "touches sys live idx p (read_report sys idx now p)"
    using assms touches_trans [OF live up] touches_trans [OF trim up] up
    by (simp add: read_report_def Let_def split: destination_state.split)
  show "dest_ok (pl_dests p ! idx) \<Longrightarrow> dest_ok (pl_dests (read_report sys idx now p) ! idx)"
    using assms by (auto simp: read_report_def Let_def dest_ok_def split: destination_state.split)
qed

lemma poll_destination_frame:
  assumes "idx < length (pl_dests p)"
  shows "touches sys live idx p (poll_destination sys idx now encoding p)"
    "dest_ok (pl_dests p ! idx) \<Longrightarrow> dest_ok (pl_dests (poll_destination sys idx now encoding p) ! idx)"
proof -
  have "touches sys live idx p (poll_destination sys idx now encoding p) \<and>
    (dest_ok (pl_dests p ! idx) \<longrightarrow> dest_ok (pl_dests (poll_destination sys idx now encoding p) ! idx))"
  proof (cases "dn_proc (pl_dests p ! idx)")
    case None
    have "poll_destination sys idx now encoding p = revive_destination sys idx now encoding p"
      using None by (simp add: poll_destination_def)
    then show ?thesis
      using assms None spawn_pusher_frame [OF assms None]
      by (auto simp: revive_destination_def touches_set_state dest_ok_def split: option.split)
  next
    case (Some proc)
    obtain x w where x: "ss_poll sys proc (pl_host p) = (x, w)" by fastforce
    have host: "touches sys live idx p (p\<lparr>pl_host := w\<rparr>)"
      by (rule touches_host) (use assms host_steps(1) [OF _ x] in simp_all)
    show ?thesis
    proof (cases x)
      case Running
      then show ?thesis
        using Some x assms touches_trans [OF host read_report_frame(1)] read_report_frame(2) [of idx "p\<lparr>pl_host := w\<rparr>"]
        by (simp add: poll_destination_def)
    next
      case (Exited reason)
      let ?q = "upd_dest idx (\<lambda>d. d\<lparr>dn_proc := None\<rparr>) (p\<lparr>pl_host := ss_kill sys proc w\<rparr>)"
      have "touches sys live idx p ?q"
        using assms Some by (rule touches_freed) (use host_steps(1) [OF _ x, of live] in simp)
      moreover have "touches sys live idx ?q (set_state idx st (retry_later now idx ?q))" for st
        by (rule touches_trans [OF touches_retry touches_set_state]) (use assms in simp_all)
      moreover have "poll_destination sys idx now encoding p =
          set_state idx (DestFailed (str ''push failed: '' @ reason)) (retry_later now idx ?q)"
        using Some x Exited by (simp add: poll_destination_def)
      ultimately have "touches sys live idx p (poll_destination sys idx now encoding p)"
        using touches_trans by metis
      then show ?thesis using Some x Exited assms by (simp add: poll_destination_def dest_ok_def)
    qed
  qed
  then show "touches sys live idx p (poll_destination sys idx now encoding p)"
    "dest_ok (pl_dests p ! idx) \<Longrightarrow> dest_ok (pl_dests (poll_destination sys idx now encoding p) ! idx)"
    by blast+
qed

lemma idle_frame:
  assumes "idx < length (pl_dests p)"
  shows "touches sys live idx p (idle_destination sys idx p)"
    "dn_state (pl_dests (idle_destination sys idx p) ! idx) = DestIdle"
    "dest_ok (pl_dests (idle_destination sys idx p) ! idx)"
proof -
  let ?q = "stop_destination sys idx p"
  have "touches sys live idx ?q (idle_destination sys idx p)"
    unfolding idle_destination_def
    by (rule touches_trans [OF touches_upd touches_set_state]) (use assms in simp_all)
  then show "touches sys live idx p (idle_destination sys idx p)" using touches_trans [OF touches_stop [OF assms]] by blast
  show "dn_state (pl_dests (idle_destination sys idx p) ! idx) = DestIdle"
    "dest_ok (pl_dests (idle_destination sys idx p) ! idx)"
    using assms by (simp_all add: idle_destination_def dest_ok_def)
qed

end
