(* ===== verification/PipelineSound.thy ===== *)
theory PipelineSound
  imports PipelineInv
begin

text \<open>
  The invariant of the broadcast supervisor and that the operations keep it: destinations are distinct and
  few, a process goes with the states that have one, the events tell the states, and every process of the
  host is in exactly one slot.
\<close>

section \<open>The encoder's frame\<close>

definition enc_slot :: "('w, 'r, 'i) pipeline \<Rightarrow> nat option" where
  "enc_slot p = map_option ep_proc (pl_encoder p)"

definition touches_encoder ::
  "('w, 'r, 'i) stream_sys \<Rightarrow> ('w \<Rightarrow> nat set) \<Rightarrow> ('w, 'r, 'i) pipeline \<Rightarrow> ('w, 'r, 'i) pipeline \<Rightarrow> bool" where
  "touches_encoder sys live p p' \<longleftrightarrow>
     pl_cfg p' = pl_cfg p \<and> pl_catalog p' = pl_catalog p \<and> pl_started p' = pl_started p \<and> pl_dests p' = pl_dests p \<and>
     (\<exists>es. pl_events p' = pl_events p @ es \<and> (\<forall>t. replay es t = t)) \<and>
     (host_contract sys live \<longrightarrow> accounts (enc_slot p) (live (pl_host p)) (enc_slot p') (live (pl_host p')))"

lemma encoder_refl:
  assumes "pl_cfg p' = pl_cfg p" "pl_catalog p' = pl_catalog p" "pl_started p' = pl_started p"
    "pl_dests p' = pl_dests p" "pl_events p' = pl_events p" "enc_slot p' = enc_slot p"
    and "host_contract sys live \<Longrightarrow> live (pl_host p') = live (pl_host p)"
  shows "touches_encoder sys live p p'"
proof -
  have "\<exists>es. pl_events p' = pl_events p @ es \<and> (\<forall>t. replay es t = t)"
    by (rule exI [of _ "[]"]) (simp add: assms)
  then show ?thesis using assms by (simp add: touches_encoder_def)
qed

lemma encoder_trans:
  assumes "touches_encoder sys live p q" "touches_encoder sys live q r"
  shows "touches_encoder sys live p r"
proof -
  obtain es fs where "pl_events q = pl_events p @ es" "\<And>t. replay es t = t"
    "pl_events r = pl_events q @ fs" "\<And>t. replay fs t = t"
    using assms unfolding touches_encoder_def by metis
  then have "\<exists>es. pl_events r = pl_events p @ es \<and> (\<forall>t. replay es t = t)"
    by (intro exI [of _ "es @ fs"]) simp
  moreover have "host_contract sys live \<Longrightarrow> accounts (enc_slot p) (live (pl_host p)) (enc_slot r) (live (pl_host r))"
    using assms accounts_trans unfolding touches_encoder_def by metis
  ultimately show ?thesis using assms unfolding touches_encoder_def by simp
qed

lemma encoder_later_frame:
  assumes "host_contract sys live \<Longrightarrow> live w = live (pl_host p) - set_option (enc_slot p)"
  shows "touches_encoder sys live p (encoder_later now r (p\<lparr>pl_host := w\<rparr>))"
proof -
  have "\<exists>es. pl_events p @ [EncoderDown r] = pl_events p @ es \<and> (\<forall>t. replay es t = t)"
    by (rule exI [of _ "[EncoderDown r]"]) simp
  then show ?thesis
    using assms by (simp add: touches_encoder_def encoder_later_def emit_def enc_slot_def accounts_def Let_def split_def)
qed

lemma spawn_encoder_frame:
  assumes "pl_encoder p = None"
  shows "touches_encoder sys live p (spawn_encoder sys now p)"
proof -
  obtain r w where r: "ss_spawn sys (encoder_spec (pl_cfg p)) (pl_host p) = (r, w)" by fastforce
  show ?thesis
  proof (cases r)
    case (Inl e)
    have "touches_encoder sys live p (encoder_later now (spawn_reason (ss_machine sys w) (pl_cfg p) e) (p\<lparr>pl_host := w\<rparr>))"
      by (rule encoder_later_frame) (use host_refused [OF _ r [unfolded Inl]] assms in \<open>simp add: enc_slot_def\<close>)
    then show ?thesis using r Inl by (simp add: spawn_encoder_def)
  next
    case (Inr proc)
    have "\<exists>es. pl_events p @ [EncoderUp] = pl_events p @ es \<and> (\<forall>t. replay es t = t)"
      by (rule exI [of _ "[EncoderUp]"]) simp
    then show ?thesis
      using r Inr assms host_spawned [of sys live _ _ proc w]
      by (auto simp: spawn_encoder_def touches_encoder_def emit_def enc_slot_def accounts_def)
  qed
qed

lemma poll_encoder_frame: "touches_encoder sys live p (poll_encoder sys now p)"
proof (cases "pl_encoder p")
  case None
  then show ?thesis by (auto simp: poll_encoder_def spawn_encoder_frame encoder_refl)
next
  case (Some enc)
  obtain x w where x: "ss_poll sys (ep_proc enc) (pl_host p) = (x, w)" by fastforce
  note live = host_steps(1) [OF _ x, of live]
  show ?thesis
  proof (cases x)
    case Running
    show ?thesis by (rule encoder_refl) (use Some x Running live in \<open>simp_all add: poll_encoder_def enc_slot_def\<close>)
  next
    case (Exited reason)
    have "touches_encoder sys live p (encoder_later now reason (p\<lparr>pl_host := ss_kill sys (ep_proc enc) w\<rparr>))"
      by (rule encoder_later_frame) (use live Some in \<open>simp add: enc_slot_def\<close>)
    then show ?thesis using Some x Exited by (simp add: poll_encoder_def)
  qed
qed

lemma encoder_failed_frame: "touches_encoder sys live p (encoder_failed sys now r p)"
proof -
  let ?w = "case pl_encoder p of None \<Rightarrow> pl_host p | Some enc \<Rightarrow> ss_kill sys (ep_proc enc) (pl_host p)"
  have "touches_encoder sys live p (encoder_later now r (p\<lparr>pl_host := ?w\<rparr>))"
    by (rule encoder_later_frame) (auto simp: enc_slot_def split: option.split)
  then show ?thesis by (simp add: encoder_failed_def on_host_def split: option.splits)
qed

lemma encoder_later_none [simp]: "pl_encoder (encoder_later now r p) = None"
  by (simp add: encoder_later_def Let_def split_def emit_def)

lemma encoder_failed_none [simp]: "pl_encoder (encoder_failed sys now r p) = None"
  by (simp add: encoder_failed_def)

section \<open>Feeding\<close>

lemma draw_frame_keeps:
  "draw_frame sys frame lv p = Some q \<Longrightarrow>
   pl_cfg q = pl_cfg p \<and> pl_catalog q = pl_catalog p \<and> pl_started q = pl_started p \<and> pl_dests q = pl_dests p \<and>
   pl_events q = pl_events p \<and> pl_encoder q = pl_encoder p \<and> pl_host q = pl_host p"
  by (auto simp: draw_frame_def Let_def split: prod.splits option.splits)

lemma feed_frames_frame:
  "feed_frames sys now lv proc rendered frames p = Some q \<Longrightarrow>
   touches_encoder sys live p q \<and> (pl_encoder q = pl_encoder p \<or> pl_encoder q = None)"
proof (induction frames arbitrary: rendered p)
  case Nil
  then show ?case by (simp add: encoder_refl)
next
  case (Cons frame frames)
  then obtain p1 where p1: "(if rendered then Some (p\<lparr>pl_repeated := pl_repeated p + 1\<rparr>) else draw_frame sys frame lv p) = Some p1"
    by (auto split: option.splits)
  then have same: "pl_cfg p1 = pl_cfg p \<and> pl_catalog p1 = pl_catalog p \<and> pl_started p1 = pl_started p \<and>
      pl_dests p1 = pl_dests p \<and> pl_events p1 = pl_events p \<and> pl_encoder p1 = pl_encoder p \<and> pl_host p1 = pl_host p"
    using draw_frame_keeps [of sys frame lv p p1] by (cases rendered) auto
  obtain r w where r: "ss_write_fifo sys proc 0 (pl_yuv p1) (pl_host p1) = (r, w)" by fastforce
  note live = host_steps(3) [OF _ r, of live]
  have step: "touches_encoder sys live p (p1\<lparr>pl_host := w, pl_dropped := n\<rparr>)" for n
    by (rule encoder_refl) (use same live in \<open>simp_all add: enc_slot_def\<close>)
  have step0: "touches_encoder sys live p (p1\<lparr>pl_host := w\<rparr>)"
    by (rule encoder_refl) (use same live in \<open>simp_all add: enc_slot_def\<close>)
  show ?case
  proof (cases r)
    case (Inl e)
    then show ?thesis
      using Cons.prems p1 r encoder_trans [OF step0 encoder_failed_frame] by auto
  next
    case (Inr x)
    show ?thesis
    proof (cases x)
      case Queued
      then have "feed_frames sys now lv proc True frames (p1\<lparr>pl_host := w\<rparr>) = Some q"
        using Cons.prems p1 r Inr by simp
      then show ?thesis using Cons.IH encoder_trans [OF step0] same by fastforce
    next
      case Dropped
      then have "feed_frames sys now lv proc True frames (p1\<lparr>pl_host := w, pl_dropped := pl_dropped p1 + 1\<rparr>) = Some q"
        using Cons.prems p1 r Inr by simp
      then show ?thesis using Cons.IH encoder_trans [OF step] same by fastforce
    qed
  qed
qed

lemma push_tick_frame:
  assumes "push_tick sys now audio lv p = Some q"
  shows "touches_encoder sys live p q \<and> (pl_encoder q = pl_encoder p \<or> pl_encoder q = None)"
proof (cases "pl_encoder p")
  case None
  then show ?thesis using assms by (simp add: push_tick_def encoder_refl)
next
  case (Some enc)
  obtain r w where r: "ss_write_stdin sys (ep_proc enc) (pcm_of (ss_fp sys) audio) (pl_host p) = (r, w)" by fastforce
  note live = host_steps(2) [OF _ r, of live]
  have step: "touches_encoder sys live p (p\<lparr>pl_host := w\<rparr>)" "touches_encoder sys live p (p\<lparr>pl_host := w, pl_cadence := c\<rparr>)" for c
    by (rule encoder_refl; use live in \<open>simp add: enc_slot_def\<close>)+
  show ?thesis
  proof (cases r)
    case (Inl e)
    then show ?thesis
      using assms Some r encoder_trans [OF step(1) encoder_failed_frame] by (auto simp: push_tick_def)
  next
    case (Inr u)
    then obtain run c where "feed_frames sys now lv (ep_proc enc) False (run_frames run) (p\<lparr>pl_host := w, pl_cadence := c\<rparr>) = Some q"
      using assms Some r by (auto simp: push_tick_def Let_def split: prod.splits)
    from feed_frames_frame [OF this, of live] show ?thesis using encoder_trans [OF step(2)] by auto
  qed
qed

section \<open>Processes in slots\<close>

definition slot :: "('w, 'r, 'i) pipeline \<Rightarrow> nat \<Rightarrow> nat option" where
  "slot p k =
     (case k of 0 \<Rightarrow> enc_slot p
      | Suc j \<Rightarrow> if j < length (pl_dests p) then dn_proc (pl_dests p ! j) else None)"

lemma slot_simps [simp]:
  "slot p 0 = enc_slot p" "j < length (pl_dests p) \<Longrightarrow> slot p (Suc j) = dn_proc (pl_dests p ! j)"
  by (simp_all add: slot_def)

text \<open>Each process of the host is in one slot, and each slot's process is one of the host's.\<close>

definition slots :: "(nat \<Rightarrow> nat option) \<Rightarrow> nat set \<Rightarrow> bool" where
  "slots s L \<longleftrightarrow> (\<forall>x. x \<in> L \<longleftrightarrow> (\<exists>k. s k = Some x)) \<and> (\<forall>i j x. s i = Some x \<and> s j = Some x \<longrightarrow> i = j)"

lemma slots_change:
  assumes "slots s L" "\<And>k. k \<noteq> i \<Longrightarrow> s' k = s k" "accounts (s i) L (s' i) M"
  shows "slots s' M"
proof -
  have own: "s i = Some x \<Longrightarrow> x \<in> L" for x using assms(1) unfolding slots_def by blast
  then have "set_option (s i) \<subseteq> L" by (cases "s i") auto
  then have M: "M - set_option (s' i) = L - set_option (s i)" "set_option (s' i) \<subseteq> M"
    using assms(3) by (auto simp: accounts_def)
  have rest: "x \<in> M \<and> s' i \<noteq> Some x \<longleftrightarrow> (\<exists>k. k \<noteq> i \<and> s k = Some x)" for x
  proof -
    have "x \<in> M \<and> s' i \<noteq> Some x \<longleftrightarrow> x \<in> L \<and> s i \<noteq> Some x" using M(1) by (auto simp: set_eq_iff)
    also have "\<dots> \<longleftrightarrow> (\<exists>k. k \<noteq> i \<and> s k = Some x)" using assms(1) unfolding slots_def by metis
    finally show ?thesis .
  qed
  have "x \<in> M \<longleftrightarrow> (\<exists>k. s' k = Some x)" for x
  proof
    assume "x \<in> M"
    then show "\<exists>k. s' k = Some x" using rest [of x] assms(2) by metis
  next
    assume "\<exists>k. s' k = Some x"
    then obtain k where "s' k = Some x" ..
    then show "x \<in> M" using rest [of x] assms(2) [of k] M(2) by (cases "k = i") auto
  qed
  moreover have "a = b" if "s' a = Some x" "s' b = Some x" for a b x
  proof -
    have "a = i \<longleftrightarrow> b = i" using that rest [of x] assms(2) by metis
    then show ?thesis using that assms(1,2) unfolding slots_def by metis
  qed
  ultimately show ?thesis by (simp add: slots_def)
qed

lemma slots_reindex:
  assumes "slots s L" "inj f" "\<And>k. k \<notin> range f \<Longrightarrow> s k = None"
  shows "slots (\<lambda>k. s (f k)) L"
proof -
  have "(\<exists>k. s k = Some x) \<longleftrightarrow> (\<exists>k. s (f k) = Some x)" for x
    using assms(3) by (metis option.distinct(1) rangeE)
  moreover have "i = j" if "s (f i) = Some x" "s (f j) = Some x" for i j x
    using that assms(1,2) unfolding slots_def by (metis injD)
  ultimately show ?thesis using assms(1) unfolding slots_def by metis
qed

section \<open>The invariant\<close>

definition base_ok :: "('w, 'r, 'i) pipeline \<Rightarrow> bool" where
  "base_ok p \<longleftrightarrow> distinct (map dn_id (pl_dests p)) \<and> length (pl_dests p) \<le> MAX_DESTINATIONS \<and>
     list_all dest_ok (pl_dests p)"

text \<open>What a listener that has seen \<open>t\<close> knows once it reads the pending events.\<close>

definition hears :: "(destination_id \<Rightarrow> destination_state option) \<Rightarrow> ('w, 'r, 'i) pipeline \<Rightarrow> bool" where
  "hears t p \<longleftrightarrow>
     (\<forall>d \<in> set (pl_dests p). replay (pl_events p) t (dn_id d) = Some (dn_state d)) \<and>
     (\<forall>dest. dest \<notin> dn_id ` set (pl_dests p) \<longrightarrow> replay (pl_events p) t dest \<in> {None, Some DestIdle})"

definition sound ::
  "('w, 'r, 'i) stream_sys \<Rightarrow> ('w \<Rightarrow> nat set) \<Rightarrow> (destination_id \<Rightarrow> destination_state option) \<Rightarrow>
   ('w, 'r, 'i) pipeline \<Rightarrow> bool" where
  "sound sys live t p \<longleftrightarrow> base_ok p \<and> hears t p \<and> (host_contract sys live \<longrightarrow> slots (slot p) (live (pl_host p)))"

definition settled :: "('w, 'r, 'i) pipeline \<Rightarrow> bool" where
  "settled p \<longleftrightarrow> (\<not> pl_started p \<longrightarrow> pl_encoder p = None \<and> list_all (\<lambda>d. dn_state d = DestIdle) (pl_dests p))"

lemma touches_ids: "touches sys live idx p p' \<Longrightarrow> map dn_id (pl_dests p') = map dn_id (pl_dests p)"
  by (rule nth_equalityI) (use touches_frame [of sys live idx p p'] in \<open>simp_all\<close>, metis)

lemma touches_sound:
  assumes "touches sys live idx p p'" "sound sys live t p" "idx < length (pl_dests p)"
    and "dest_ok (pl_dests p' ! idx)"
  shows "sound sys live t p'"
proof -
  note frame = touches_frame [OF assms(1)]
  have "distinct (map dn_id (pl_dests p))" using assms(2) by (simp add: sound_def base_ok_def)
  then have other: "dn_id (pl_dests p ! j) \<noteq> dn_id (pl_dests p ! idx)" if "j < length (pl_dests p)" "j \<noteq> idx" for j
    using that assms(3) by (metis (mono_tags, lifting) length_map nth_eq_iff_index_eq nth_map)
  have "dest_ok (pl_dests p' ! j)" if "j < length (pl_dests p)" for j
    using assms(2,4) frame(7) [of j] that by (cases "j = idx") (simp_all add: sound_def base_ok_def list_all_length)
  then have "base_ok p'"
    using assms(2) frame(6) touches_ids [OF assms(1)] by (simp add: sound_def base_ok_def list_all_length)
  moreover have "hears t p'"
  proof -
    obtain es where es: "pl_events p' = pl_events p @ es"
      "\<And>t. t (dn_id (pl_dests p ! idx)) = Some (dn_state (pl_dests p ! idx)) \<Longrightarrow>
        replay es t = t(dn_id (pl_dests p ! idx) \<mapsto> dn_state (pl_dests p' ! idx))"
      by (rule touches_events [OF assms(1)]) blast
    have h: "hears t p" using assms(2) by (simp add: sound_def)
    then have now: "replay (pl_events p') t =
        (replay (pl_events p) t)(dn_id (pl_dests p ! idx) \<mapsto> dn_state (pl_dests p' ! idx))"
      using es assms(3) by (simp add: hears_def)
    have "replay (pl_events p') t (dn_id (pl_dests p' ! j)) = Some (dn_state (pl_dests p' ! j))"
      if "j < length (pl_dests p')" for j
      using that now h other frame(6-8) by (cases "j = idx") (auto simp: hears_def)
    then have "\<forall>d \<in> set (pl_dests p'). replay (pl_events p') t (dn_id d) = Some (dn_state d)"
      by (metis in_set_conv_nth)
    moreover have "replay (pl_events p') t dest \<in> {None, Some DestIdle}" if "dest \<notin> dn_id ` set (pl_dests p')" for dest
    proof -
      have "dn_id ` set (pl_dests p') = dn_id ` set (pl_dests p)" using touches_ids [OF assms(1)] by (metis list.set_map)
      then have "dest \<notin> dn_id ` set (pl_dests p)" using that by simp
      moreover have "dn_id (pl_dests p ! idx) \<in> dn_id ` set (pl_dests p)" using assms(3) by simp
      ultimately show ?thesis using h now unfolding hears_def by (metis fun_upd_other)
    qed
    ultimately show ?thesis by (simp add: hears_def)
  qed
  moreover have "slots (slot p') (live (pl_host p'))" if "host_contract sys live"
  proof (rule slots_change)
    show "slots (slot p) (live (pl_host p))" using assms(2) that by (simp add: sound_def)
    show "accounts (slot p (Suc idx)) (live (pl_host p)) (slot p' (Suc idx)) (live (pl_host p'))"
      using touches_accounts [OF assms(1) that] assms(3) frame(6) by simp
    show "slot p' k = slot p k" if "k \<noteq> Suc idx" for k
      using that frame(4,6,7) by (auto simp: slot_def enc_slot_def split: nat.split)
  qed
  ultimately show ?thesis by (simp add: sound_def)
qed

lemma encoder_sound:
  assumes "touches_encoder sys live p p'" "sound sys live t p"
  shows "sound sys live t p'"
proof -
  obtain es where "pl_events p' = pl_events p @ es" "\<And>t. replay es t = t"
    using assms(1) by (auto simp: touches_encoder_def)
  moreover have dests: "pl_dests p' = pl_dests p" using assms(1) by (simp add: touches_encoder_def)
  moreover have "slots (slot p') (live (pl_host p'))" if "host_contract sys live"
    by (rule slots_change [of "slot p" "live (pl_host p)" 0])
      (use assms that dests in \<open>auto simp: sound_def touches_encoder_def slot_def split: nat.split\<close>)
  ultimately show ?thesis using assms(2) by (simp add: sound_def base_ok_def hears_def)
qed

text \<open>A loop over the destinations.\<close>

lemma foldl_sound:
  assumes step: "\<And>q idx. idx < length (pl_dests q) \<Longrightarrow> touches sys live idx q (f q idx)"
    and ok: "\<And>q idx. idx < length (pl_dests q) \<Longrightarrow> dest_ok (pl_dests q ! idx) \<Longrightarrow> dest_ok (pl_dests (f q idx) ! idx)"
    and start: "sound sys live t p" and within: "\<forall>idx \<in> set xs. idx < length (pl_dests p)"
  shows "sound sys live t (foldl f p xs) \<and> length (pl_dests (foldl f p xs)) = length (pl_dests p) \<and>
    pl_started (foldl f p xs) = pl_started p \<and> pl_encoder (foldl f p xs) = pl_encoder p \<and>
    pl_cfg (foldl f p xs) = pl_cfg p"
  using start within
proof (induction xs arbitrary: p)
  case (Cons idx xs)
  have idx: "idx < length (pl_dests p)" using Cons.prems by simp
  note frame = touches_frame [OF step [OF idx]]
  have "dest_ok (pl_dests p ! idx)" using Cons.prems(1) idx by (simp add: sound_def base_ok_def list_all_length)
  then have "sound sys live t (f p idx)"
    using touches_sound [OF step [OF idx] Cons.prems(1) idx] ok [OF idx] by blast
  then show ?case using Cons.IH [of "f p idx"] Cons.prems(2) frame by simp
qed simp

lemma poll_sound:
  assumes "sound sys live t p" "settled p"
  shows "sound sys live t (pipeline_poll sys now p)" "settled (pipeline_poll sys now p)"
proof -
  have "sound sys live t (pipeline_poll sys now p) \<and> settled (pipeline_poll sys now p)"
  proof (cases "pl_started p")
    case True
    let ?p = "poll_encoder sys now p"
    have "sound sys live t ?p" using encoder_sound [OF poll_encoder_frame assms(1)] .
    then have "sound sys live t (pipeline_poll sys now p) \<and> pl_started (pipeline_poll sys now p) = pl_started ?p"
      using foldl_sound [OF poll_destination_frame(1) poll_destination_frame(2), of sys live t ?p "[0..<length (pl_dests ?p)]"] True
      by (simp add: pipeline_poll_def poll_destinations_def Let_def)
    moreover have "pl_started ?p" using poll_encoder_frame [of sys live p now] True by (simp add: touches_encoder_def)
    ultimately show ?thesis by (simp add: settled_def)
  qed (use assms in \<open>simp add: pipeline_poll_def\<close>)
  then show "sound sys live t (pipeline_poll sys now p)" "settled (pipeline_poll sys now p)" by simp_all
qed

end
