(* ===== verification/StreamExample.thy ===== *)
theory StreamExample
  imports PipelineInv
begin

text \<open>
  A concrete system for the broadcast supervisor: its world is the list of live processes, every spawn and
  every file operation succeeds, and a pusher has always written its progress block.
\<close>

definition flat_fp :: fp where
  "flat_fp = \<lparr>fp_add = (\<lambda>_ _. 0), fp_sub = (\<lambda>_ _. 0), fp_mul = (\<lambda>x _. x), fp_div = (\<lambda>_ _. 0), fp_sqrt = (\<lambda>_. 0),
     fp_sin = (\<lambda>_. 0), fp_cos = (\<lambda>_. 0), fp_exp = (\<lambda>_. 0), fp_powf = (\<lambda>_ _. 0)\<rparr>"

definition calm_sys :: "(nat list, unit, unit) stream_sys" where
  "calm_sys =
     \<lparr>ss_spawn = (\<lambda>_ ps. (Inr (Suc (sum_list ps)), Suc (sum_list ps) # ps)), ss_poll = (\<lambda>_ ps. (Running, ps)),
      ss_kill = (\<lambda>p ps. filter (\<lambda>q. q \<noteq> p) ps), ss_write_stdin = (\<lambda>_ _ ps. (Inr (), ps)),
      ss_write_fifo = (\<lambda>_ _ _ ps. (Inr Queued, ps)), ss_create_dir_all = (\<lambda>_ ps. (Inr (), ps)),
      ss_create_private_dir = (\<lambda>_ ps. (Inr (), ps)), ss_remove_file = (\<lambda>_ ps. (Inr (), ps)),
      ss_create_0600 = (\<lambda>_ ps. (Inr (), ps)), ss_write_file = (\<lambda>_ _ ps. (Inr (), ps)),
      ss_read_head = (\<lambda>_ _ _. Some PROGRESS_RUNNING), ss_empty_file = (\<lambda>_ ps. ps),
      ss_machine = (\<lambda>_. \<lparr>mc_var = (\<lambda>_. None), mc_is_file = (\<lambda>_. False), mc_temp_dir = [], mc_pid = 1\<rparr>),
      ss_render = (\<lambda>_ _ _ rgba r. (rgba, r)), ss_renderer_new = (\<lambda>_. ()), ss_decode_avatar = (\<lambda>_. None),
      ss_fp = flat_fp\<rparr>"

text \<open>The same, with every process dead when it is looked at.\<close>

definition sick_sys :: "(nat list, unit, unit) stream_sys" where
  "sick_sys = calm_sys\<lparr>ss_poll := (\<lambda>_ ps. (Exited (str ''refused''), ps))\<rparr>"

definition small_cfg :: stream_config where
  "small_cfg = session_vm\<lparr>sc_width := 2, sc_height := 2\<rparr>"

definition started_pipeline :: "(nat list, unit, unit) pipeline" where
  "started_pipeline = the (pipeline_new calm_sys small_cfg [])"

definition added_pipeline :: "(nat list, unit, unit) pipeline" where
  "added_pipeline =
     snd (pipeline_apply calm_sys 0 (AddDestination (DestinationId 1) Twitch (StreamKey (str ''k''))) started_pipeline)"

definition pushing_pipeline :: "(nat list, unit, unit) pipeline" where
  "pushing_pipeline = snd (pipeline_apply calm_sys 0 StreamStart added_pipeline)"

lemma calm_contract: "host_contract calm_sys set"
proof -
  have "Suc (sum_list ps) \<notin> set ps" for ps :: "nat list"
    using member_le_sum_list [of "Suc (sum_list ps)" ps] by auto
  then show ?thesis by (auto simp: host_contract_def calm_sys_def)
qed

lemma started_some: "pipeline_new calm_sys small_cfg [] = Some started_pipeline"
proof -
  have "cadence_new (unat (sc_fps small_cfg)) \<noteq> None"
    by (simp add: cadence_new_def small_cfg_def session_vm_def layout_def bundled_def Let_def)
  then show ?thesis by (auto simp: started_pipeline_def pipeline_new_def)
qed

lemma twitch_listed: "catalog_get bundled Twitch \<noteq> None"
  by code_simp

lemma new_fields:
  "pipeline_new sys cfg w = Some p \<Longrightarrow> pl_dests p = [] \<and> pl_catalog p = bundled \<and> \<not> pl_started p \<and>
   pl_encoder p = None \<and> pl_encoder_retry_at p = None \<and> pl_host p = w"
  by (auto simp: pipeline_new_def split: option.splits)

lemma started_fields:
  "pl_dests started_pipeline = []" "pl_catalog started_pipeline = bundled" "\<not> pl_started started_pipeline"
  "pl_encoder started_pipeline = None" "pl_encoder_retry_at started_pipeline = None" "pl_host started_pipeline = []"
  using new_fields [OF started_some] by simp_all

lemma added_fields:
  "pl_dests added_pipeline = [new_destination (DestinationId 1) Twitch (StreamKey (str ''k''))]"
  "pl_catalog added_pipeline = bundled" "pl_encoder added_pipeline = None" "pl_host added_pipeline = []"
  using twitch_listed
  by (simp_all add: added_pipeline_def add_destination_def started_fields pipeline_poll_def emit_def)

lemma pushing_dests:
  "map (\<lambda>d. (dn_id d, dn_state d, dn_proc d)) (pl_dests pushing_pipeline) = [(DestinationId 1, DestConnecting, Some 2)]"
  "map_option ep_proc (pl_encoder pushing_pipeline) = Some 1"
proof -
  obtain spec where spec: "catalog_get bundled Twitch = Some spec" using twitch_listed by auto
  show "map (\<lambda>d. (dn_id d, dn_state d, dn_proc d)) (pl_dests pushing_pipeline) = [(DestinationId 1, DestConnecting, Some 2)]"
    "map_option ep_proc (pl_encoder pushing_pipeline) = Some 1"
    by (simp_all add: pushing_pipeline_def pipeline_poll_def poll_encoder_def spawn_encoder_def poll_destinations_def
        poll_destination_def revive_destination_def spawn_pusher_def clear_progress_def stage_def set_state_def
        added_fields spec calm_sys_def new_destination_def emit_def upd_dest_def Let_def)
qed

lemma pushing_backoff:
  "dn_backoff (pl_dests pushing_pipeline ! 0) = 0" "dn_progress_at (pl_dests pushing_pipeline ! 0) = 0"
proof -
  obtain spec where spec: "catalog_get bundled Twitch = Some spec" using twitch_listed by auto
  show "dn_backoff (pl_dests pushing_pipeline ! 0) = 0" "dn_progress_at (pl_dests pushing_pipeline ! 0) = 0"
    by (simp_all add: pushing_pipeline_def pipeline_poll_def poll_encoder_def spawn_encoder_def poll_destinations_def
        poll_destination_def revive_destination_def spawn_pusher_def clear_progress_def stage_def set_state_def
        added_fields spec calm_sys_def new_destination_def emit_def upd_dest_def Let_def)
qed

lemma calm_has_pushed: "has_pushed calm_sys path w"
proof -
  have "valid_utf8 PROGRESS_RUNNING" by code_simp
  then have "from_utf8_lossy PROGRESS_RUNNING = PROGRESS_RUNNING" by (rule lossy_valid)
  moreover have "list_ex (\<lambda>line. trim_end line = PROGRESS_RUNNING) (split_byte 10 PROGRESS_RUNNING)" by code_simp
  ultimately have "reports_progress PROGRESS_RUNNING" by (simp only: reports_progress_def)
  moreover have "ss_read_head calm_sys path n w = Some PROGRESS_RUNNING" for n by (simp add: calm_sys_def)
  ultimately show ?thesis by (simp only: has_pushed_def option.case)
qed

end
