(* ===== verification/BroadcastClaims.thy ===== *)
theory BroadcastClaims
  imports PipelineSound StreamExample
begin

text \<open>
  The broadcast supervisor over any run: its invariant, what its events tell, that no process is left
  behind, how failures back off, and that a frame never panics.
\<close>

lemma sound_cong:
  assumes "pl_dests q = pl_dests p" "pl_events q = pl_events p" "pl_host q = pl_host p" "pl_encoder q = pl_encoder p"
  shows "sound sys live t q = sound sys live t p"
proof -
  have "slot q = slot p" using assms by (simp add: slot_def fun_eq_iff enc_slot_def split: nat.split)
  then show ?thesis using assms by (simp add: sound_def base_ok_def hears_def)
qed

section \<open>The host's requests\<close>

lemma dest_index_Some: "dest_index dest ds = Some idx \<Longrightarrow> idx < length ds \<and> dn_id (ds ! idx) = dest"
  by (induction ds arbitrary: idx) (auto split: if_splits)

lemma dest_index_None: "dest_index dest ds = None \<longleftrightarrow> dest \<notin> dn_id ` set ds"
  by (induction ds) auto

lemma touches_settled:
  assumes "touches sys live idx p p'" "settled p" "dn_state (pl_dests p' ! idx) = DestIdle"
  shows "settled p'"
proof -
  note frame = touches_frame [OF assms(1)]
  have "dn_state (pl_dests p' ! j) = DestIdle" if "\<not> pl_started p" "j < length (pl_dests p)" for j
    using that assms(2,3) frame(7) [of j] by (cases "j = idx") (simp_all add: settled_def list_all_length)
  then show ?thesis using assms(2) frame(3,4,6) by (simp add: settled_def list_all_length)
qed

lemma replace_sound:
  assumes "sound sys live t p" "settled p" "idx < length (pl_dests p)"
    and "\<And>d. dn_id (f d) = dn_id d" "\<And>d. dn_state (f d) = dn_state d" "\<And>d. dn_proc (f d) = dn_proc d"
  shows "sound sys live t (set_state idx DestIdle (upd_dest idx f (stop_destination sys idx p)))"
    "settled (set_state idx DestIdle (upd_dest idx f (stop_destination sys idx p)))"
proof -
  let ?q = "stop_destination sys idx p"
  have "touches sys live idx ?q (set_state idx DestIdle (upd_dest idx f ?q))"
    by (rule touches_trans [OF touches_upd touches_set_state]) (use assms in simp_all)
  then have touch: "touches sys live idx p (set_state idx DestIdle (upd_dest idx f ?q))"
    using touches_trans [OF touches_stop [OF assms(3)]] by blast
  show "sound sys live t (set_state idx DestIdle (upd_dest idx f ?q))"
    using touches_sound [OF touch assms(1,3)] assms(3-6) by (simp add: dest_ok_def)
  show "settled (set_state idx DestIdle (upd_dest idx f ?q))"
    using touches_settled [OF touch assms(2)] assms(3) by simp
qed

lemma append_sound:
  assumes "sound sys live t p" "settled p" "dest_index dest (pl_dests p) = None" "length (pl_dests p) < MAX_DESTINATIONS"
  shows "sound sys live t (emit (DestinationChanged dest pf DestIdle) (p\<lparr>pl_dests := pl_dests p @ [new_destination dest pf key]\<rparr>))"
    "settled (emit (DestinationChanged dest pf DestIdle) (p\<lparr>pl_dests := pl_dests p @ [new_destination dest pf key]\<rparr>))"
proof -
  let ?q = "emit (DestinationChanged dest pf DestIdle) (p\<lparr>pl_dests := pl_dests p @ [new_destination dest pf key]\<rparr>)"
  have fresh: "dest \<notin> dn_id ` set (pl_dests p)" using assms(3) by (simp add: dest_index_None)
  have "base_ok ?q"
    using assms fresh by (auto simp: sound_def base_ok_def emit_def new_destination_def dest_ok_def)
  moreover have "hears t ?q"
    using assms(1) fresh by (auto simp: sound_def hears_def emit_def new_destination_def)
  moreover have "slot ?q = slot p"
    by (auto simp: slot_def fun_eq_iff emit_def enc_slot_def new_destination_def nth_append less_Suc_eq split: nat.split)
  ultimately show "sound sys live t ?q" using assms(1) by (simp add: sound_def) (simp add: emit_def)
  show "settled ?q" using assms(2) by (simp add: settled_def emit_def new_destination_def)
qed

lemma removal_sound:
  assumes "sound sys live t p" "settled p" "idx < length (pl_dests p)"
    and "dn_proc (pl_dests p ! idx) = None" "dn_state (pl_dests p ! idx) = DestIdle"
  shows "sound sys live t (p\<lparr>pl_dests := take idx (pl_dests p) @ drop (Suc idx) (pl_dests p)\<rparr>)"
    "settled (p\<lparr>pl_dests := take idx (pl_dests p) @ drop (Suc idx) (pl_dests p)\<rparr>)"
proof -
  let ?ds = "take idx (pl_dests p) @ drop (Suc idx) (pl_dests p)" and ?d = "pl_dests p ! idx"
  let ?q = "p\<lparr>pl_dests := ?ds\<rparr>" and ?f = "\<lambda>k. if k \<le> idx then k else Suc k"
  obtain ds es where ds: "pl_dests p = ds @ ?d # es" "?ds = ds @ es"
    using id_take_nth_drop [OF assms(3)] by blast
  then have sets: "set (pl_dests p) = insert ?d (set ?ds)" by (metis Un_insert_right list.simps(15) set_append)
  have ids: "distinct (map dn_id (ds @ ?d # es))" using assms(1) ds(1) by (simp add: sound_def base_ok_def)
  then have gone: "dn_id ?d \<notin> dn_id ` set ?ds" unfolding ds(2) by auto
  have "length (pl_dests p) = Suc (length ds + length es)" using arg_cong [OF ds(1), of length] by simp
  then have "base_ok ?q"
    using assms(1,3) ids sets ds(2) by (auto simp: sound_def base_ok_def list_all_iff)
  moreover have "hears t ?q"
  proof -
    have h: "hears t p" using assms(1) by (simp add: sound_def)
    have "replay (pl_events p) t dest \<in> {None, Some DestIdle}" if "dest \<notin> dn_id ` set ?ds" for dest
      using h assms(5) sets that unfolding hears_def by (cases "dest = dn_id ?d") auto
    then show ?thesis using h sets by (simp add: hears_def)
  qed
  moreover have "slots (slot ?q) (live (pl_host p))" if "host_contract sys live"
  proof -
    have "slots (\<lambda>k. slot p (?f k)) (live (pl_host p))"
    proof (rule slots_reindex)
      show "slots (slot p) (live (pl_host p))" using assms(1) that by (simp add: sound_def)
      show "inj ?f" by (auto simp: inj_def)
      show "slot p k = None" if "k \<notin> range ?f" for k
      proof -
        have "k = Suc idx"
        proof (rule ccontr)
          assume "k \<noteq> Suc idx"
          then have "k = ?f (if k \<le> idx then k else k - 1)" by auto
          then show False using that by blast
        qed
        then show ?thesis using assms(3,4) by simp
      qed
    qed
    moreover have "slot ?q = (\<lambda>k. slot p (?f k))"
      using assms(3) by (auto simp: fun_eq_iff slot_def enc_slot_def nth_append split: nat.split)
    ultimately show ?thesis by (simp only:)
  qed
  ultimately show "sound sys live t ?q" by (simp add: sound_def)
  show "settled ?q" using assms(2) sets by (simp add: settled_def list_all_iff)
qed

lemma add_sound:
  assumes "sound sys live t p" "settled p" "add_destination sys now dest pf key p = (r, q)"
  shows "sound sys live t q \<and> settled q"
proof (cases "catalog_get (pl_catalog p) pf = None")
  case True
  then show ?thesis using assms by (simp add: add_destination_def)
next
  case False
  show ?thesis
  proof (cases "dest_index dest (pl_dests p)")
    case None
    let ?q = "emit (DestinationChanged dest pf DestIdle) (p\<lparr>pl_dests := pl_dests p @ [new_destination dest pf key]\<rparr>)"
    have "sound sys live t ?q" "settled ?q" if "length (pl_dests p) < MAX_DESTINATIONS"
      using append_sound [OF assms(1,2) None that] by blast+
    then show ?thesis
      using assms False None by (auto simp: add_destination_def not_le intro: poll_sound split: if_splits)
  next
    case (Some idx)
    let ?f = "\<lambda>d. d\<lparr>dn_platform := pf, dn_key := key, dn_backoff := 0, dn_retry_at := None\<rparr>"
    have "idx < length (pl_dests p)" using dest_index_Some [OF Some] by simp
    then have "sound sys live t (set_state idx DestIdle (upd_dest idx ?f (stop_destination sys idx p))) \<and>
        settled (set_state idx DestIdle (upd_dest idx ?f (stop_destination sys idx p)))"
      using replace_sound [OF assms(1,2), of idx ?f] by simp
    then show ?thesis using assms(3) False Some poll_sound by (auto simp: add_destination_def)
  qed
qed

text \<open>What removal leaves: the destination idled and then taken out.\<close>

lemma remove_as_idled:
  assumes "dest_index dest (pl_dests p) = Some idx" "remove_destination sys dest p = (r, q)"
  obtains p1 where "touches sys live idx p p1" "dn_proc (pl_dests p1 ! idx) = None"
    "dn_state (pl_dests p1 ! idx) = DestIdle" "r = Inr ()"
    "q = p1\<lparr>pl_dests := take idx (pl_dests p1) @ drop (Suc idx) (pl_dests p1)\<rparr>"
proof -
  have idx: "idx < length (pl_dests p)" using dest_index_Some [OF assms(1)] by simp
  let ?s = "stop_destination sys idx p"
  let ?h = "on_host (discard sys (sc_key_dir (pl_cfg p)) dest) ?s"
  let ?d = "pl_dests ?h ! idx"
  let ?p1 = "emit (DestinationChanged (dn_id ?d) (dn_platform ?d) DestIdle) (upd_dest idx (\<lambda>d. d\<lparr>dn_state := DestIdle\<rparr>) ?h)"
  have h: "touches sys live idx p ?h"
    unfolding on_host_def by (rule touches_trans [OF touches_stop touches_host]) (use idx in simp_all)
  have "\<exists>es. pl_events ?p1 = pl_events ?h @ es \<and>
      (\<forall>t. t (dn_id ?d) = Some (dn_state ?d) \<longrightarrow> replay es t = t(dn_id ?d \<mapsto> DestIdle))"
    by (rule exI [of _ "[DestinationChanged (dn_id ?d) (dn_platform ?d) DestIdle]"]) (simp add: emit_def upd_dest_def)
  then have "touches sys live idx ?h ?p1"
    using idx by (simp add: touches_def emit_def upd_dest_def)
  then have "touches sys live idx p ?p1" using touches_trans [OF h] by blast
  moreover have "q = ?p1\<lparr>pl_dests := take idx (pl_dests ?p1) @ drop (Suc idx) (pl_dests ?p1)\<rparr>" "r = Inr ()"
    using assms by (auto simp: remove_destination_def Let_def emit_def upd_dest_def)
  moreover have "dn_proc (pl_dests ?p1 ! idx) = None" "dn_state (pl_dests ?p1 ! idx) = DestIdle"
    using idx by (simp_all add: emit_def)
  ultimately show ?thesis using that by blast
qed

lemma remove_sound:
  assumes "sound sys live t p" "settled p" "remove_destination sys dest p = (r, q)"
  shows "sound sys live t q \<and> settled q"
proof (cases "dest_index dest (pl_dests p)")
  case None
  then show ?thesis using assms by (simp add: remove_destination_def)
next
  case (Some idx)
  obtain p1 where p1: "touches sys live idx p p1" "dn_proc (pl_dests p1 ! idx) = None"
    "dn_state (pl_dests p1 ! idx) = DestIdle" "r = Inr ()"
    "q = p1\<lparr>pl_dests := take idx (pl_dests p1) @ drop (Suc idx) (pl_dests p1)\<rparr>"
    by (rule remove_as_idled [OF Some assms(3), of live]) blast
  have idx: "idx < length (pl_dests p)" using dest_index_Some [OF Some] by simp
  have "sound sys live t p1" "settled p1"
    using touches_sound [OF p1(1) assms(1) idx] touches_settled [OF p1(1) assms(2)] p1(2,3) by (simp_all add: dest_ok_def)
  then show ?thesis
    unfolding p1(5) using removal_sound [of sys live t p1 idx] p1(2,3) idx touches_frame(6) [OF p1(1)] by simp
qed

lemma foldl_each:
  assumes step: "\<And>q idx. idx < length (pl_dests q) \<Longrightarrow> touches sys live idx q (f q idx)"
    and own: "\<And>q idx. idx < length (pl_dests q) \<Longrightarrow> P (pl_dests (f q idx) ! idx)"
    and within: "\<forall>idx \<in> set xs. idx < length (pl_dests p)"
  shows "length (pl_dests (foldl f p xs)) = length (pl_dests p) \<and> (\<forall>j \<in> set xs. P (pl_dests (foldl f p xs) ! j))"
  using within
proof (induction xs rule: rev_induct)
  case (snoc x xs)
  let ?q = "foldl f p xs"
  have IH: "length (pl_dests ?q) = length (pl_dests p)" "\<forall>j \<in> set xs. P (pl_dests ?q ! j)" using snoc by simp_all
  have x: "x < length (pl_dests ?q)" using IH(1) snoc.prems by simp
  note frame = touches_frame(6,7) [OF step [OF x]]
  have "P (pl_dests (f ?q x) ! j)" if "j \<in> set (xs @ [x])" for j
    using own [OF x] frame(2) [of j] IH(2) that by (cases "j = x") simp_all
  then show ?case using IH(1) frame(1) by simp
qed simp

lemma stop_sound:
  assumes "sound sys live t p"
  shows "sound sys live t (pipeline_stop sys p) \<and> settled (pipeline_stop sys p) \<and>
    list_all (\<lambda>d. dn_proc d = None) (pl_dests (pipeline_stop sys p))"
proof -
  let ?q = "p\<lparr>pl_started := False\<rparr>"
  let ?p1 = "foldl (\<lambda>p idx. idle_destination sys idx p) ?q [0..<length (pl_dests p)]"
  have "sound sys live t ?q"
    using assms sound_cong [of ?q p] by simp
  then have p1: "sound sys live t ?p1" "length (pl_dests ?p1) = length (pl_dests p)" "\<not> pl_started ?p1"
    using foldl_sound [OF idle_frame(1) idle_frame(3), of sys live t ?q "[0..<length (pl_dests p)]"] by simp_all
  have "\<forall>j \<in> set [0..<length (pl_dests p)]. dn_state (pl_dests ?p1 ! j) = DestIdle"
    by (rule foldl_each [where f = "\<lambda>p idx. idle_destination sys idx p" and P = "\<lambda>d. dn_state d = DestIdle"
          and live = live and sys = sys, THEN conjunct2])
      (simp_all add: idle_frame)
  then have idle: "list_all (\<lambda>d. dn_state d = DestIdle) (pl_dests ?p1)" using p1(2) by (simp add: list_all_length)
  have no_proc: "list_all (\<lambda>d. dn_proc d = None) (pl_dests ?p1)"
    using idle p1(1) by (auto simp: list_all_iff sound_def base_ok_def dest_ok_def)
  let ?down = "\<lambda>enc. emit (EncoderDown (str ''stopped by host'')) (on_host (ss_kill sys (ep_proc enc)) (?p1\<lparr>pl_encoder := None\<rparr>))"
  let ?p2 = "case pl_encoder ?p1 of None \<Rightarrow> ?p1 | Some enc \<Rightarrow> ?down enc"
  have "touches_encoder sys live ?p1 ?p2"
  proof (cases "pl_encoder ?p1")
    case (Some enc)
    have "\<exists>es. pl_events ?p1 @ [EncoderDown (str ''stopped by host'')] = pl_events ?p1 @ es \<and> (\<forall>t. replay es t = t)"
      by (rule exI [of _ "[EncoderDown (str ''stopped by host'')]"]) simp
    then show ?thesis
      using Some by (simp add: touches_encoder_def emit_def on_host_def enc_slot_def accounts_def)
  qed (simp add: encoder_refl)
  then have p2: "sound sys live t ?p2" "pl_dests ?p2 = pl_dests ?p1" "\<not> pl_started ?p2" "pl_encoder ?p2 = None"
    using encoder_sound [OF _ p1(1)] p1(3) by (auto simp: touches_encoder_def emit_def split: option.splits)
  have stop: "pipeline_stop sys p = ?p2\<lparr>pl_encoder_backoff := 0\<rparr>"
    by (simp add: pipeline_stop_def Let_def)
  have "sound sys live t (?p2\<lparr>pl_encoder_backoff := 0\<rparr>)"
    using p2(1) sound_cong [of "?p2\<lparr>pl_encoder_backoff := 0\<rparr>" ?p2] by simp
  then show ?thesis unfolding stop using p2 idle no_proc by (simp add: settled_def)
qed

section \<open>Runs\<close>

text \<open>A listener's table and the pipeline: the pipeline starts, is asked, polled and fed, and the listener
  reads the events when it likes.\<close>

inductive running ::
  "('w, 'r, 'i) stream_sys \<Rightarrow> stream_config \<Rightarrow> 'w \<Rightarrow> (destination_id \<Rightarrow> destination_state option) \<Rightarrow>
   ('w, 'r, 'i) pipeline \<Rightarrow> bool"
  for sys :: "('w, 'r, 'i) stream_sys" and cfg :: stream_config and w :: 'w where
  run_start: "pipeline_new sys cfg w = Some p \<Longrightarrow> running sys cfg w (\<lambda>_. None) p"
| run_op: "running sys cfg w t p \<Longrightarrow> pipeline_apply sys now msg p = (r, q) \<Longrightarrow> running sys cfg w t q"
| run_poll: "running sys cfg w t p \<Longrightarrow> running sys cfg w t (pipeline_poll sys now p)"
| run_tick: "running sys cfg w t p \<Longrightarrow> push_tick sys now audio lv p = Some q \<Longrightarrow> running sys cfg w t q"
| run_roster: "running sys cfg w t p \<Longrightarrow> running sys cfg w t (set_roster sys roster p)"
| run_hear: "running sys cfg w t p \<Longrightarrow> pipeline_events p = (es, q) \<Longrightarrow> running sys cfg w (replay es t) q"

lemma start_sound:
  assumes "pipeline_new sys cfg w = Some p" "live w = {}"
  shows "sound sys live (\<lambda>_. None) p" "settled p"
proof -
  have p: "pl_dests p = []" "pl_events p = []" "pl_encoder p = None" "pl_host p = w"
    using assms(1) by (auto simp: pipeline_new_def split: option.splits)
  have "slot p = (\<lambda>_. None)" using p by (simp add: slot_def enc_slot_def fun_eq_iff split: nat.split)
  then show "sound sys live (\<lambda>_. None) p"
    using p assms(2) by (simp add: sound_def base_ok_def hears_def slots_def)
  show "settled p" using p by (simp add: settled_def)
qed

lemma apply_sound:
  assumes "sound sys live t p" "settled p" "pipeline_apply sys now msg p = (r, q)"
  shows "sound sys live t q \<and> settled q"
proof (cases msg)
  case (AddDestination dest pf key)
  then show ?thesis using add_sound [OF assms(1,2)] assms(3) by simp
next
  case (RemoveDestination dest)
  then show ?thesis using remove_sound [OF assms(1,2)] assms(3) by simp
next
  case StreamStart
  let ?p = "p\<lparr>pl_started := True, pl_encoder_retry_at := None\<rparr>"
  have "sound sys live t ?p" "settled ?p" using assms(1) sound_cong [of ?p p] by (simp_all add: settled_def)
  then show ?thesis using poll_sound [of sys live t ?p now] assms(3) StreamStart by auto
next
  case StreamStop
  then show ?thesis using stop_sound [OF assms(1)] assms(3) by auto
qed

lemma encoder_settled:
  "touches_encoder sys live p q \<Longrightarrow> pl_encoder q = pl_encoder p \<or> pl_encoder q = None \<Longrightarrow> settled p \<Longrightarrow> settled q"
  by (auto simp: settled_def touches_encoder_def)

lemma roster_frame:
  "pl_dests (set_roster sys roster p) = pl_dests p" "pl_events (set_roster sys roster p) = pl_events p"
  "pl_host (set_roster sys roster p) = pl_host p" "pl_encoder (set_roster sys roster p) = pl_encoder p"
  "pl_started (set_roster sys roster p) = pl_started p"
  by (simp_all add: set_roster_def Let_def split_def)

lemma running_sound:
  assumes "running sys cfg w t p" "live w = {}"
  shows "sound sys live t p \<and> settled p"
  using assms(1)
proof induction
  case (run_start p)
  show ?case using start_sound [of sys cfg w p live] run_start assms(2) by simp
next
  case (run_op t p now msg r q)
  show ?case using apply_sound [of sys live t p now msg r q] run_op by simp
next
  case (run_poll t p now)
  show ?case using poll_sound [of sys live t p now] run_poll.IH by simp
next
  case (run_tick t p now audio lv q)
  from push_tick_frame [OF run_tick(2), of live] show ?case
    using run_tick.IH encoder_sound [of sys live p q t] encoder_settled [of sys live p q] by blast
next
  case (run_roster t p roster)
  show ?case
    using run_roster.IH sound_cong [of "set_roster sys roster p" p, OF roster_frame(1-4)]
    by (simp add: settled_def roster_frame)
next
  case (run_hear t p es q)
  then have q: "q = p\<lparr>pl_events := []\<rparr>" "es = pl_events p" by (simp_all add: pipeline_events_def)
  have "slot q = slot p" by (simp add: q slot_def fun_eq_iff enc_slot_def split: nat.split)
  then show ?case using run_hear.IH q by (simp add: sound_def base_ok_def hears_def settled_def)
qed

lemma pushing_running: "running calm_sys small_cfg [] (\<lambda>_. None) pushing_pipeline"
proof -
  have "running calm_sys small_cfg [] (\<lambda>_. None) added_pipeline"
    using run_op [OF run_start [OF started_some] prod.collapse [symmetric]] unfolding added_pipeline_def .
  then show ?thesis unfolding pushing_pipeline_def by (rule run_op [OF _ prod.collapse [symmetric]])
qed

lemma one_pushing:
  obtains d where "pl_dests pushing_pipeline = [d]" "dn_id d = DestinationId 1" "dn_state d = DestConnecting"
    "dn_proc d = Some 2"
  using pushing_dests(1) by (cases "pl_dests pushing_pipeline") auto

lemma running_status_ok:
  assumes "running sys cfg w t p"
  shows "check_lengths (StreamStatus (pipeline_status p)) = Ok ()"
proof (rule fitted_status_sendable)
  have p: "base_ok p" using running_sound [OF assms, of "\<lambda>_. {}"] by (simp add: sound_def)
  then show "length (pipeline_status p) \<le> MAX_DESTINATIONS" by (simp add: pipeline_status_def base_ok_def)
  show "list_all (\<lambda>d. reason_fitted (ds_state d)) (pipeline_status p)"
    using p by (auto simp: pipeline_status_def destination_report_def base_ok_def list_all_iff dest_ok_def)
qed

section \<open>Claims\<close>

text \<open>C20. In any run of the supervisor the destinations are distinct and at most eight, one has a process exactly
  while it is connecting or live, the status it publishes always passes the link's length rules, and once
  stopped nothing runs: no encoder, no pusher, every destination idle, not on air.\<close>

theorem pipeline_invariant:
  assumes "running sys cfg w t p"
  shows "distinct (map dn_id (pl_dests p)) \<and> length (pl_dests p) \<le> MAX_DESTINATIONS \<and>
    (\<forall>d \<in> set (pl_dests p). dn_proc d \<noteq> None \<longleftrightarrow> dn_state d \<in> {DestConnecting, DestLive}) \<and>
    check_lengths (StreamStatus (pipeline_status p)) = Ok () \<and>
    (\<not> pl_started p \<longrightarrow> pl_encoder p = None \<and> \<not> on_air p \<and>
      (\<forall>d \<in> set (pl_dests p). dn_state d = DestIdle \<and> dn_proc d = None))"
proof -
  have p: "base_ok p" "settled p" using running_sound [OF assms, of "\<lambda>_. {}"] by (simp_all add: sound_def)
  have ok: "dest_ok d" if "d \<in> set (pl_dests p)" for d using p(1) that by (simp add: base_ok_def list_all_iff)
  show ?thesis
    using p ok running_status_ok [OF assms] by (auto simp: base_ok_def settled_def list_all_iff on_air_def list_ex_iff dest_ok_def)
qed

theorem pipeline_invariant_witness:
  "length (pl_dests pushing_pipeline) = 1 \<and> check_lengths (StreamStatus (pipeline_status pushing_pipeline)) = Ok ()"
proof -
  have "check_lengths (StreamStatus (pipeline_status pushing_pipeline)) = Ok ()"
    using pipeline_invariant [OF pushing_running] by blast
  then show ?thesis using one_pushing by (metis One_nat_def length_0_conv length_Suc_conv)
qed

text \<open>C36. The events tell the whole story: a listener that only ever applies the events it reads, whenever it
  reads them, knows the state of every configured destination, and of any other that it is idle.\<close>

theorem events_tell_states:
  assumes "running sys cfg w t p"
  shows "(\<forall>d \<in> set (pl_dests p). replay (fst (pipeline_events p)) t (dn_id d) = Some (dn_state d)) \<and>
    (\<forall>dest. dest \<notin> dn_id ` set (pl_dests p) \<longrightarrow> replay (fst (pipeline_events p)) t dest \<in> {None, Some DestIdle})"
  using running_sound [OF assms, of "\<lambda>_. {}"] by (simp add: sound_def hears_def pipeline_events_def)

theorem events_tell_states_witness:
  "replay (fst (pipeline_events pushing_pipeline)) (\<lambda>_. None) (DestinationId 1) = Some DestConnecting"
  using events_tell_states [OF pushing_running] one_pushing by (metis list.set_intros(1))

lemma slots_live:
  assumes "slots (slot p) L"
  shows "L = set_option (enc_slot p) \<union> (\<Union>d \<in> set (pl_dests p). set_option (dn_proc d))"
proof -
  have "(\<exists>k. slot p k = Some x) \<longleftrightarrow> enc_slot p = Some x \<or> (\<exists>d \<in> set (pl_dests p). dn_proc d = Some x)" for x
  proof
    assume "\<exists>k. slot p k = Some x"
    then obtain k where "slot p k = Some x" ..
    then show "enc_slot p = Some x \<or> (\<exists>d \<in> set (pl_dests p). dn_proc d = Some x)"
      by (cases k) (auto simp: slot_def split: if_splits)
  next
    assume "enc_slot p = Some x \<or> (\<exists>d \<in> set (pl_dests p). dn_proc d = Some x)"
    then show "\<exists>k. slot p k = Some x" by (metis in_set_conv_nth slot_simps)
  qed
  then show ?thesis using assms by (auto simp: slots_def)
qed

lemma drop_live:
  assumes "host_contract sys live"
  shows "live (foldl (\<lambda>w d. drop_destination sys cfg d w) w ds) = live w - (\<Union>d \<in> set ds. set_option (dn_proc d))"
proof (induction ds arbitrary: w)
  case (Cons d ds)
  have "live (drop_destination sys cfg d w) = live w - set_option (dn_proc d)"
    using assms by (simp add: drop_destination_def Let_def split: option.split)
  then show ?case using Cons by auto
qed simp

text \<open>C21. No process is left behind: over any run, the processes of the host are exactly those of the running
  encoder and pushers, and none survives the pipeline's drop, on any host whose spawns and kills do what
  \<open>ProcessHost\<close> promises.\<close>

theorem no_orphans:
  assumes "running sys cfg w t p" "host_contract sys live" "live w = {}"
  shows "live (pl_host p) = set_option (enc_slot p) \<union> (\<Union>d \<in> set (pl_dests p). set_option (dn_proc d)) \<and>
    live (pipeline_drop sys p) = {}"
proof -
  have all: "live (pl_host p) = set_option (enc_slot p) \<union> (\<Union>d \<in> set (pl_dests p). set_option (dn_proc d))"
    using running_sound [OF assms(1), of live] assms(2,3) slots_live [of p "live (pl_host p)"] by (simp only: sound_def simp_thms)
  then have "live (pipeline_drop sys p) = {}"
    using drop_live [OF assms(2)] assms(2) by (auto simp: pipeline_drop_def Let_def enc_slot_def split: option.split)
  then show ?thesis using all by blast
qed

theorem no_orphans_witness:
  "set (pl_host pushing_pipeline) = {1, 2} \<and> pipeline_drop calm_sys pushing_pipeline = []"
proof -
  obtain d where "pl_dests pushing_pipeline = [d]" "dn_proc d = Some 2" using one_pushing by blast
  then show ?thesis
    using no_orphans [OF pushing_running calm_contract] pushing_dests(2) by (auto simp: enc_slot_def)
qed

text \<open>One destination's removal touches no other: the others keep their order, configuration, state and
  process, the encoder runs on, and the host loses exactly the removed pusher.\<close>

theorem removal_isolated:
  assumes "running sys cfg w t p" "host_contract sys live" "live w = {}"
    and "d \<in> set (pl_dests p)" "pipeline_apply sys now (RemoveDestination (dn_id d)) p = (r, q)"
  shows "r = Inr () \<and> pl_dests q = filter (\<lambda>e. dn_id e \<noteq> dn_id d) (pl_dests p) \<and> pl_encoder q = pl_encoder p \<and>
    live (pl_host q) = live (pl_host p) - set_option (dn_proc d)"
proof -
  have s: "sound sys live t p" "settled p" using running_sound [OF assms(1), of live] assms(3) by simp_all
  obtain idx where idx: "dest_index (dn_id d) (pl_dests p) = Some idx"
    using assms(4) dest_index_None [of "dn_id d" "pl_dests p"] by (cases "dest_index (dn_id d) (pl_dests p)") auto
  then have at: "idx < length (pl_dests p)" "dn_id (pl_dests p ! idx) = dn_id d" using dest_index_Some by blast+
  have ids: "distinct (map dn_id (pl_dests p))" using s(1) by (simp add: sound_def base_ok_def)
  then have d: "pl_dests p ! idx = d"
    using at assms(4) by (metis distinct_map inj_on_def nth_mem)
  obtain p1 where p1: "touches sys live idx p p1" "dn_proc (pl_dests p1 ! idx) = None"
    "dn_state (pl_dests p1 ! idx) = DestIdle" "r = Inr ()"
    "q = p1\<lparr>pl_dests := take idx (pl_dests p1) @ drop (Suc idx) (pl_dests p1)\<rparr>"
    using remove_as_idled [OF idx, of sys r q live] assms(5) by (metis pipeline_apply.simps(2))
  note frame = touches_frame [OF p1(1)]
  have same: "take idx (pl_dests p1) = take idx (pl_dests p)" "drop (Suc idx) (pl_dests p1) = drop (Suc idx) (pl_dests p)"
    using frame(6,7) by (auto intro!: nth_equalityI)
  obtain ds es where ds: "pl_dests p = ds @ d # es" "take idx (pl_dests p) = ds" "drop (Suc idx) (pl_dests p) = es"
    using id_take_nth_drop [OF at(1)] d by blast
  have "filter (\<lambda>e. dn_id e \<noteq> dn_id d) (pl_dests p) = ds @ es"
  proof -
    have "dn_id d \<notin> dn_id ` (set ds \<union> set es)" using ids unfolding ds(1) by auto
    then have "\<forall>e \<in> set ds \<union> set es. dn_id e \<noteq> dn_id d" by (metis imageI)
    then show ?thesis unfolding ds(1) by (simp add: filter_id_conv)
  qed
  moreover have "live (pl_host p1) = live (pl_host p) - set_option (dn_proc d)"
  proof -
    have "slots (slot p) (live (pl_host p))" using s(1) assms(2) by (simp add: sound_def)
    then have "set_option (dn_proc d) \<subseteq> live (pl_host p)" using slots_live [of p] assms(4) by blast
    then show ?thesis using touches_accounts [OF p1(1) assms(2)] d p1(2) by (simp add: accounts_def)
  qed
  ultimately show ?thesis using p1(4,5) same ds frame(4) by simp
qed

theorem removal_isolated_witness:
  "set (pl_host (snd (pipeline_apply calm_sys 9 (RemoveDestination (DestinationId 1)) pushing_pipeline))) = {1}"
proof -
  obtain d where d: "pl_dests pushing_pipeline = [d]" "dn_id d = DestinationId 1" "dn_proc d = Some 2"
    using one_pushing by blast
  have "set (pl_host pushing_pipeline) = {1, 2}"
    using running_sound [OF pushing_running, of set] slots_live [of pushing_pipeline "set (pl_host pushing_pipeline)"]
      calm_contract pushing_dests(2) d
    by (auto simp: sound_def enc_slot_def)
  then show ?thesis
    using removal_isolated [OF pushing_running calm_contract, of d 9, OF _ _ prod.collapse [symmetric]] d
    by (simp add: insert_Diff_if)
qed

end
