(* ===== verification/BroadcastFeed.thy ===== *)
theory BroadcastFeed
  imports BroadcastClaims
begin

text \<open>
  How the broadcast supervisor retries, what makes a destination live, and that feeding the encoder never
  panics.
\<close>

section \<open>Backoff\<close>

text \<open>After \<open>n\<close> failures in a row the delay has doubled from half a second, capped at sixteen seconds, up
  to the 62nd; from the 63rd on it is zero, because the shift drops every bit of the base before the cap is
  applied, and a child that keeps failing is then respawned at every poll.\<close>

theorem backoff_schedule:
  "delay_ms n = (if n = 0 \<or> 63 \<le> n then 0 else min BACKOFF_MAX_MS (BACKOFF_BASE_MS * 2 ^ (n - 1)))"
proof -
  have "list_all (\<lambda>n. delay_ms n = (if n = 0 \<or> 63 \<le> n then 0 else min BACKOFF_MAX_MS (BACKOFF_BASE_MS * 2 ^ (n - 1)))) [0..<65]"
    by code_simp
  then have small: "delay_ms n = (if n = 0 \<or> 63 \<le> n then 0 else min BACKOFF_MAX_MS (BACKOFF_BASE_MS * 2 ^ (n - 1)))"
    if "n < 65" for n
    using that by (simp only: list_all_iff set_upt atLeastLessThan_iff) simp
  moreover have "delay_ms n = delay_ms 64" if "65 \<le> n" for n
    using that by (simp add: delay_ms_def min_def)
  ultimately show ?thesis using small [of 64] by (cases "n < 65") auto
qed

definition waiting :: "nat \<Rightarrow> nat \<Rightarrow> ('w, 'r, 'i) pipeline \<Rightarrow> bool" where
  "waiting idx again p \<longleftrightarrow> idx < length (pl_dests p) \<and> dn_proc (pl_dests p ! idx) = None \<and>
     dn_retry_at (pl_dests p ! idx) = Some again"

lemma waiting_poll_destination:
  assumes "waiting idx again p" "now < again" "j < length (pl_dests p)"
  shows "waiting idx again (poll_destination sys j now encoding p)"
proof (cases "j = idx")
  case True
  have "poll_destination sys idx now encoding p = revive_destination sys idx now encoding p"
    using assms(1) by (simp add: poll_destination_def waiting_def)
  then show ?thesis
    using True assms by (auto simp: waiting_def revive_destination_def split: option.split)
next
  case False
  then show ?thesis
    using assms touches_frame(6,7) [OF poll_destination_frame(1) [OF assms(3), of sys "\<lambda>_. {}" now encoding]]
    by (simp add: waiting_def)
qed

lemma waiting_poll:
  assumes "waiting idx again p" "now < again"
  shows "waiting idx again (pipeline_poll sys now p)"
proof -
  have loop: "waiting idx again (foldl (\<lambda>p j. poll_destination sys j now e p) q xs)"
    if "waiting idx again q" "\<forall>j \<in> set xs. j < length (pl_dests q)" for q xs e
    using that
  proof (induction xs arbitrary: q)
    case (Cons j xs)
    then have j: "j < length (pl_dests q)" by simp
    show ?case
      using Cons waiting_poll_destination [OF Cons.prems(1) assms(2) j]
        touches_frame(6) [OF poll_destination_frame(1) [OF j, of sys "\<lambda>_. {}" now e]]
      by simp
  qed simp
  have "pl_dests (poll_encoder sys now p) = pl_dests p"
    using poll_encoder_frame [of sys "\<lambda>_. {}" p now] by (simp add: touches_encoder_def)
  then have "waiting idx again (poll_encoder sys now p)" using assms(1) by (simp add: waiting_def)
  then show ?thesis
    using loop [of "poll_encoder sys now p"] assms(1) by (simp add: pipeline_poll_def poll_destinations_def Let_def)
qed

text \<open>A pusher that dies is not restarted before its backoff is over, however often the supervisor polls:
  after its \<open>a\<close>-th failure in a row it stays without a process for 500 ms times \<open>2 ^ a\<close>, at most sixteen
  seconds, for the first 62 failures.\<close>

theorem no_early_restart:
  assumes "idx < length (pl_dests p)" "dn_proc (pl_dests p ! idx) = Some proc"
    and "ss_poll sys proc (pl_host p) = (Exited reason, w)" "dn_backoff (pl_dests p ! idx) = a" "a \<le> 61"
    and "now + BACKOFF_MAX_MS < 2 ^ 64" "\<forall>s \<in> set later. s < now + min BACKOFF_MAX_MS (BACKOFF_BASE_MS * 2 ^ a)"
  shows "dn_proc (pl_dests (foldl (\<lambda>q s. pipeline_poll sys s q) (poll_destination sys idx now encoding p) later) ! idx) = None"
proof -
  let ?again = "now + min BACKOFF_MAX_MS (BACKOFF_BASE_MS * 2 ^ a)"
  have "backoff_fail a = (min BACKOFF_MAX_MS (BACKOFF_BASE_MS * 2 ^ a), a + 1)"
    using assms(5) backoff_schedule [of "a + 1"] by (simp add: backoff_fail_def Let_def)
  moreover have "wrap64 ?again = ?again" using assms(6) by (simp add: wrap64_def)
  ultimately have "waiting idx ?again (poll_destination sys idx now encoding p)"
    using assms(1-4) by (simp add: poll_destination_def waiting_def retry_later_def)
  then have "waiting idx ?again (foldl (\<lambda>q s. pipeline_poll sys s q) (poll_destination sys idx now encoding p) later)"
    using assms(7)
  proof (induction later arbitrary: p rule: rev_induct)
    case (snoc s later)
    then show ?case by (simp add: waiting_poll)
  qed simp
  then show ?thesis by (simp add: waiting_def)
qed

theorem no_early_restart_witness:
  "dn_proc (pl_dests (foldl (\<lambda>q s. pipeline_poll sick_sys s q)
     (poll_destination sick_sys 0 1000 True (pushing_pipeline\<lparr>pl_host := [1, 2]\<rparr>)) [1000, 1200, 1499]) ! 0) = None"
proof -
  obtain d where d: "pl_dests pushing_pipeline = [d]" "dn_proc d = Some 2" using one_pushing by blast
  have "dn_backoff d = 0" using pushing_backoff(1) d(1) by simp
  moreover have "ss_poll sick_sys 2 [1, 2] = (Exited (str ''refused''), [1, 2])" by (simp add: sick_sys_def)
  ultimately show ?thesis
    by (intro no_early_restart [of 0 "pushing_pipeline\<lparr>pl_host := [1, 2]\<rparr>" 2 sick_sys "str ''refused''" "[1, 2]" 0 1000])
      (use d in simp_all)
qed

section \<open>Going live\<close>

text \<open>Live means pushing: a destination becomes live only in a poll that finds its process running and a
  whole progress block in its progress file, and never straight from idle or failed.\<close>

theorem live_means_pushing:
  assumes "idx < length (pl_dests p)" "dn_state (pl_dests p ! idx) \<noteq> DestLive"
    and "dn_state (pl_dests (poll_destination sys idx now encoding p) ! idx) = DestLive"
  shows "dn_state (pl_dests p ! idx) = DestConnecting \<and>
    (\<exists>proc w. dn_proc (pl_dests p ! idx) = Some proc \<and> ss_poll sys proc (pl_host p) = (Running, w) \<and>
      has_pushed sys (progress_path (sc_work_dir (pl_cfg p)) (dn_id (pl_dests p ! idx))) w)"
proof (cases "dn_proc (pl_dests p ! idx)")
  case None
  have "dn_state (pl_dests (spawn_pusher sys idx now p) ! idx) \<noteq> DestLive"
    by (cases rule: spawn_pusher_cases [OF assms(1) None, where sys = sys and now = now, case_names failed spawned])
      (use assms(1) in auto)
  then show ?thesis
    using None assms by (auto simp: poll_destination_def revive_destination_def split: if_splits option.splits)
next
  case (Some proc)
  obtain x w where x: "ss_poll sys proc (pl_host p) = (x, w)" by fastforce
  show ?thesis
    using Some x assms
    by (cases x; cases "dn_state (pl_dests p ! idx)")
      (auto simp: poll_destination_def read_report_def Let_def split: if_splits)
qed

theorem live_means_pushing_witness:
  "dn_state (pl_dests (poll_destination calm_sys 0 300 True pushing_pipeline) ! 0) = DestLive \<and>
   has_pushed calm_sys (progress_path (sc_work_dir (pl_cfg pushing_pipeline)) (DestinationId 1)) (pl_host pushing_pipeline)"
proof -
  obtain d where d: "pl_dests pushing_pipeline = [d]" "dn_id d = DestinationId 1" "dn_state d = DestConnecting"
    "dn_proc d = Some 2"
    using one_pushing by blast
  have poll: "ss_poll calm_sys proc w = (Running, w)" for proc w by (simp add: calm_sys_def)
  have "dn_progress_at d = 0" using pushing_backoff(2) d(1) by simp
  then have live: "dn_state (pl_dests (poll_destination calm_sys 0 300 True pushing_pipeline) ! 0) = DestLive"
    using d by (simp add: poll_destination_def read_report_def poll calm_has_pushed)
  show ?thesis
    using live live_means_pushing [of 0 pushing_pipeline calm_sys 300 True] d calm_has_pushed by simp
qed

section \<open>No panic\<close>

definition bufs :: "('w, 'r, 'i) pipeline \<Rightarrow> stream_config \<times> nat \<times> nat" where
  "bufs p = (pl_cfg p, length (pl_rgba p), length (pl_yuv p))"

lemma bufs_basic [simp]:
  "bufs (p\<lparr>pl_host := w\<rparr>) = bufs p" "bufs (p\<lparr>pl_dests := ds\<rparr>) = bufs p" "bufs (p\<lparr>pl_events := es\<rparr>) = bufs p"
  "bufs (p\<lparr>pl_encoder := e\<rparr>) = bufs p" "bufs (p\<lparr>pl_started := b\<rparr>) = bufs p" "bufs (p\<lparr>pl_encoder_backoff := n\<rparr>) = bufs p"
  "bufs (p\<lparr>pl_encoder_retry_at := r\<rparr>) = bufs p" "bufs (p\<lparr>pl_encoder_reason := y\<rparr>) = bufs p"
  "bufs (p\<lparr>pl_cadence := c\<rparr>) = bufs p" "bufs (p\<lparr>pl_repeated := k\<rparr>) = bufs p" "bufs (p\<lparr>pl_dropped := k\<rparr>) = bufs p"
  "bufs (on_host f p) = bufs p" "bufs (emit ev p) = bufs p" "bufs (upd_dest idx g p) = bufs p"
  by (simp_all add: bufs_def on_host_def emit_def upd_dest_def)

lemma bufs_set_state [simp]: "bufs (set_state idx st p) = bufs p"
  by (simp add: set_state_def Let_def)

lemma bufs_retry [simp]: "bufs (retry_later now idx p) = bufs p"
  by (simp add: retry_later_def)

lemma bufs_stop [simp]: "bufs (stop_destination sys idx p) = bufs p"
  by (simp add: stop_destination_def Let_def split: option.split)

lemma bufs_spawn_pusher [simp]: "bufs (spawn_pusher sys idx now p) = bufs p"
  by (simp add: spawn_pusher_def Let_def split: option.split prod.split sum.split)

lemma bufs_read_report [simp]: "bufs (read_report sys idx now p) = bufs p"
  by (simp add: read_report_def Let_def split: destination_state.split)

lemma bufs_poll_destination [simp]: "bufs (poll_destination sys idx now encoding p) = bufs p"
  by (simp add: poll_destination_def revive_destination_def split: option.split prod.split exit.split)

lemma bufs_foldl: "(\<And>q x. bufs (f q x) = bufs q) \<Longrightarrow> bufs (foldl f p xs) = bufs p"
  by (induction xs arbitrary: p) simp_all

lemma bufs_encoder_later [simp]: "bufs (encoder_later now r p) = bufs p"
  by (simp add: encoder_later_def Let_def split_def)

lemma bufs_encoder_failed [simp]: "bufs (encoder_failed sys now r p) = bufs p"
  by (simp add: encoder_failed_def split: option.split)

lemma bufs_poll_encoder [simp]: "bufs (poll_encoder sys now p) = bufs p"
  by (simp add: poll_encoder_def spawn_encoder_def split: option.split prod.split exit.split sum.split)

lemma bufs_poll [simp]: "bufs (pipeline_poll sys now p) = bufs p"
  by (simp add: pipeline_poll_def poll_destinations_def Let_def bufs_foldl)

lemma bufs_apply: "pipeline_apply sys now msg p = (r, q) \<Longrightarrow> bufs q = bufs p"
  by (cases msg)
    (auto simp: add_destination_def remove_destination_def Let_def pipeline_stop_def idle_destination_def bufs_foldl
      split: if_splits option.splits)

definition render_keeps :: "('w, 'r, 'i) stream_sys \<Rightarrow> bool" where
  "render_keeps sys \<longleftrightarrow> (\<forall>frame vs n rgba r. length (fst (ss_render sys frame vs n rgba r)) = length rgba)"

definition frame_ready :: "('w, 'r, 'i) pipeline \<Rightarrow> bool" where
  "frame_ready p \<longleftrightarrow>
     (let w = unat (sc_width (pl_cfg p)); h = unat (sc_height (pl_cfg p))
      in even w \<and> even h \<and> length (pl_rgba p) = w * h * 4 \<and> length (pl_yuv p) = i420_len w h)"

lemma frame_ready_bufs: "bufs q = bufs p \<Longrightarrow> frame_ready q = frame_ready p"
  by (simp add: bufs_def frame_ready_def)

lemma draw_frame_ready:
  assumes "frame_ready p" "render_keeps sys"
  shows "\<exists>q. draw_frame sys frame lv p = Some q \<and> frame_ready q"
proof -
  let ?w = "unat (sc_width (pl_cfg p))" and ?h = "unat (sc_height (pl_cfg p))"
  let ?vs = "levelled lv (pl_visuals p)"
  obtain rgba r where r: "ss_render sys frame ?vs (sr_listeners (pl_roster p)) (pl_rgba p) (pl_renderer p) = (rgba, r)"
    by fastforce
  have rgba: "length rgba = ?w * ?h * 4"
    using assms r unfolding render_keeps_def frame_ready_def Let_def by (metis fst_conv)
  have even: "even ?w" "even ?h" and yuv: "length (pl_yuv p) = i420_len ?w ?h"
    using assms(1) by (simp_all add: frame_ready_def Let_def)
  obtain out where out: "rgba_to_i420 rgba ?w ?h (i420_len ?w ?h) = Some out" "length out = i420_len ?w ?h"
    using rgba_to_i420_defined [OF even rgba] by blast
  then show ?thesis
    using r yuv rgba even by (simp add: draw_frame_def Let_def frame_ready_def)
qed

lemma feed_frames_ready:
  "frame_ready p \<Longrightarrow> render_keeps sys \<Longrightarrow>
   \<exists>q. feed_frames sys now lv proc rendered frames p = Some q \<and> frame_ready q"
proof (induction frames arbitrary: rendered p)
  case (Cons frame frames)
  obtain p1 where p1: "(if rendered then Some (p\<lparr>pl_repeated := pl_repeated p + 1\<rparr>) else draw_frame sys frame lv p) = Some p1"
    "frame_ready p1"
    using draw_frame_ready [OF Cons.prems, of frame lv] Cons.prems(1) frame_ready_bufs [of "p\<lparr>pl_repeated := pl_repeated p + 1\<rparr>" p]
    by (cases rendered) auto
  obtain r w where r: "ss_write_fifo sys proc 0 (pl_yuv p1) (pl_host p1) = (r, w)" by fastforce
  have ready: "frame_ready (p1\<lparr>pl_host := w\<rparr>)" "frame_ready (p1\<lparr>pl_host := w, pl_dropped := n\<rparr>)"
    "frame_ready (encoder_failed sys now y (p1\<lparr>pl_host := w\<rparr>))" for n y
    using p1(2) frame_ready_bufs [of "p1\<lparr>pl_host := w\<rparr>" p1] frame_ready_bufs [of "p1\<lparr>pl_host := w, pl_dropped := n\<rparr>" p1]
      frame_ready_bufs [of "encoder_failed sys now y (p1\<lparr>pl_host := w\<rparr>)" p1] by simp_all
  show ?case
  proof (cases r)
    case (Inl e)
    then show ?thesis using p1(1) r ready(3) by simp
  next
    case (Inr x)
    show ?thesis
      using Cons.IH [OF ready(1) Cons.prems(2), of True] Cons.IH [OF ready(2) Cons.prems(2), of True] p1(1) r Inr
      by (cases x) simp_all
  qed
qed simp

lemma push_tick_ready:
  assumes "frame_ready p" "render_keeps sys"
  shows "\<exists>q. push_tick sys now audio lv p = Some q \<and> frame_ready q"
proof (cases "pl_encoder p")
  case (Some enc)
  obtain r w where r: "ss_write_stdin sys (ep_proc enc) (pcm_of (ss_fp sys) audio) (pl_host p) = (r, w)" by fastforce
  obtain run c where run: "cadence_advance (pl_cadence p) (length audio div 2) = (run, c)" by fastforce
  show ?thesis
  proof (cases r)
    case (Inl e)
    then show ?thesis
      using Some r assms(1) frame_ready_bufs [of "encoder_failed sys now _ (p\<lparr>pl_host := w\<rparr>)" p] by (simp add: push_tick_def)
  next
    case (Inr u)
    have "frame_ready (p\<lparr>pl_host := w, pl_cadence := c\<rparr>)"
      using assms(1) frame_ready_bufs [of "p\<lparr>pl_host := w, pl_cadence := c\<rparr>" p] by simp
    then show ?thesis using Some r Inr run feed_frames_ready assms(2) by (simp add: push_tick_def)
  qed
qed (use assms in \<open>simp add: push_tick_def\<close>)

lemma running_ready:
  assumes "running sys cfg w t p" "render_keeps sys" "even (unat (sc_width cfg))" "even (unat (sc_height cfg))"
    and "unat (sc_width cfg) * unat (sc_height cfg) * 4 < 2 ^ 32"
  shows "frame_ready p"
  using assms(1)
proof induction
  case (run_start p)
  have "unat (sc_width cfg * sc_height cfg * 4) = (unat (sc_width cfg) * unat (sc_height cfg) * 4) mod 2 ^ 32"
    by (simp add: unat_word_ariths mod_simps)
  also have "\<dots> = unat (sc_width cfg) * unat (sc_height cfg) * 4" using assms(5) by (rule mod_less)
  finally have "unat (sc_width cfg * sc_height cfg * 4) = unat (sc_width cfg) * unat (sc_height cfg) * 4" .
  then show ?case
    using run_start assms(3,4) by (auto simp: pipeline_new_def frame_ready_def Let_def length_planes i420_len_def split: option.splits)
next
  case (run_op t p now msg r q)
  then show ?case using bufs_apply [OF run_op(2)] frame_ready_bufs by blast
next
  case (run_poll t p now)
  then show ?case using frame_ready_bufs [OF bufs_poll] by blast
next
  case (run_tick t p now audio lv q)
  then show ?case using push_tick_ready [OF run_tick.IH assms(2), of now audio lv] by auto
next
  case (run_roster t p roster)
  have "bufs (set_roster sys roster p) = bufs p" by (simp add: set_roster_def Let_def split_def bufs_def)
  then show ?case using run_roster.IH frame_ready_bufs by blast
next
  case (run_hear t p es q)
  then have "bufs q = bufs p" by (auto simp: pipeline_events_def)
  then show ?case using run_hear.IH frame_ready_bufs by blast
qed



end
