(* ===== verification/StreamWorker.thy ===== *)
theory StreamWorker
  imports BroadcastFeed
begin

text \<open>
  The broadcast pipeline on its own thread, \<open>crates/stream/src/worker.rs\<close>: a bounded channel of messages, the
  gap the mix tick counts while the channel is full, and the loop that applies one message at a time and
  publishes the status.
\<close>

section \<open>The worker\<close>

abbreviation (input) QUEUE_TICKS :: nat where "QUEUE_TICKS \<equiv> 200"
abbreviation (input) TICK_STEREO_SAMPLES :: nat where "TICK_STEREO_SAMPLES \<equiv> 240"

datatype worker_msg =
    WorkerTick nat nat "f32 list" levels  \<comment> \<open>now, gap, audio, levels\<close>
  | WorkerRoster stream_roster
  | WorkerOp nat stream_op
  | WorkerBeat nat
  | WorkerShutdown

record ('w, 'r, 'i) worker =
  wk_chan :: "worker_msg list"
  wk_gap :: nat
  wk_pipeline :: "('w, 'r, 'i) pipeline"
  wk_status :: "destination_status list"
  wk_started :: bool
  wk_stopped :: bool

definition silence :: "f32 list" where
  "silence = replicate TICK_STEREO_SAMPLES 0"

definition worker_spawn ::
  "('w, 'r, 'i) stream_sys \<Rightarrow> stream_config \<Rightarrow> 'w \<Rightarrow> ('w, 'r, 'i) worker option" where
  "worker_spawn sys cfg w =
     map_option (\<lambda>p. \<lparr>wk_chan = [], wk_gap = 0, wk_pipeline = p, wk_status = [], wk_started = False, wk_stopped = False\<rparr>)
       (pipeline_new sys cfg w)"

text \<open>The mix tick's side: it never blocks.  The gap is a \<open>u64\<close>, cast to \<open>u32\<close> for the message.\<close>

definition submit_tick :: "nat \<Rightarrow> f32 list \<Rightarrow> levels \<Rightarrow> ('w, 'r, 'i) worker \<Rightarrow> ('w, 'r, 'i) worker" where
  "submit_tick now audio lv wk =
     (let gap = wrap32 (wk_gap wk); wk1 = wk\<lparr>wk_gap := 0\<rparr>
      in if wk_stopped wk then wk1
         else if length (wk_chan wk) < QUEUE_TICKS
         then wk1\<lparr>wk_chan := wk_chan wk @ [WorkerTick now gap audio lv]\<rparr>
         else wk1\<lparr>wk_gap := wrap64 (gap + 1)\<rparr>)"

text \<open>A blocking send: it happens once there is room.\<close>

definition worker_send :: "worker_msg \<Rightarrow> ('w, 'r, 'i) worker \<Rightarrow> ('w, 'r, 'i) worker option" where
  "worker_send msg wk =
     (if length (wk_chan wk) < QUEUE_TICKS then Some (wk\<lparr>wk_chan := wk_chan wk @ [msg]\<rparr>) else None)"

text \<open>The thread's side.  \<open>None\<close> is the pipeline's panic.\<close>

fun push_ticks ::
  "('w, 'r, 'i) stream_sys \<Rightarrow> nat \<Rightarrow> levels \<Rightarrow> f32 list list \<Rightarrow> ('w, 'r, 'i) pipeline \<Rightarrow> ('w, 'r, 'i) pipeline option" where
  "push_ticks sys now lv [] p = Some p"
| "push_ticks sys now lv (audio # as) p =
     (case push_tick sys now audio lv p of None \<Rightarrow> None | Some q \<Rightarrow> push_ticks sys now lv as q)"

definition publish :: "('w, 'r, 'i) pipeline \<Rightarrow> ('w, 'r, 'i) worker \<Rightarrow> ('w, 'r, 'i) worker" where
  "publish p wk = (let (_, q) = pipeline_events p in wk\<lparr>wk_pipeline := q, wk_status := pipeline_status q\<rparr>)"

fun worker_run ::
  "('w, 'r, 'i) stream_sys \<Rightarrow> worker_msg \<Rightarrow> ('w, 'r, 'i) worker \<Rightarrow> ('w, 'r, 'i) worker option" where
  "worker_run sys (WorkerTick now gap audio lv) wk =
     (case push_ticks sys now lv (replicate gap silence @ [audio]) (wk_pipeline wk) of
        None \<Rightarrow> None
      | Some q \<Rightarrow> Some (publish (pipeline_poll sys now q) wk))"
| "worker_run sys (WorkerRoster roster) wk = Some (publish (set_roster sys roster (wk_pipeline wk)) wk)"
| "worker_run sys (WorkerOp now msg) wk =
     (let q = snd (pipeline_apply sys now msg (wk_pipeline wk)) in Some (publish q (wk\<lparr>wk_started := pl_started q\<rparr>)))"
| "worker_run sys (WorkerBeat now) wk = Some (publish (pipeline_poll sys now (wk_pipeline wk)) wk)"
| "worker_run sys WorkerShutdown wk = Some (wk\<lparr>wk_started := False, wk_stopped := True\<rparr>)"

definition worker_recv :: "('w, 'r, 'i) stream_sys \<Rightarrow> ('w, 'r, 'i) worker \<Rightarrow> ('w, 'r, 'i) worker option" where
  "worker_recv sys wk =
     (case wk_chan wk of [] \<Rightarrow> None | msg # msgs \<Rightarrow> worker_run sys msg (wk\<lparr>wk_chan := msgs\<rparr>))"

section \<open>Interleaving\<close>

text \<open>The worker with two histories: what the mix tick has handed over, silence where a tick was refused, and
  what the pipeline has been fed.\<close>

fun fed_by :: "worker_msg \<Rightarrow> f32 list list" where
  "fed_by (WorkerTick _ gap audio _) = replicate gap silence @ [audio]"
| "fed_by _ = []"

definition channel_full :: "('w, 'r, 'i) worker \<Rightarrow> bool" where
  "channel_full wk \<longleftrightarrow> QUEUE_TICKS \<le> length (wk_chan wk)"

inductive working ::
  "('w, 'r, 'i) stream_sys \<Rightarrow> stream_config \<Rightarrow> 'w \<Rightarrow> f32 list list \<Rightarrow> f32 list list \<Rightarrow> ('w, 'r, 'i) worker \<Rightarrow> bool"
  for sys :: "('w, 'r, 'i) stream_sys" and cfg :: stream_config and w :: 'w where
  work_start: "worker_spawn sys cfg w = Some wk \<Longrightarrow> working sys cfg w [] [] wk"
| work_tick: "working sys cfg w out fed wk \<Longrightarrow> \<not> wk_stopped wk \<Longrightarrow>
    working sys cfg w (out @ [if channel_full wk then silence else audio]) fed (submit_tick now audio lv wk)"
| work_send: "working sys cfg w out fed wk \<Longrightarrow> \<not> wk_stopped wk \<Longrightarrow> fed_by msg = [] \<Longrightarrow>
    worker_send msg wk = Some wk' \<Longrightarrow> working sys cfg w out fed wk'"
| work_recv: "working sys cfg w out fed wk \<Longrightarrow> \<not> wk_stopped wk \<Longrightarrow> wk_chan wk = msg # msgs \<Longrightarrow>
    worker_recv sys wk = Some wk' \<Longrightarrow> working sys cfg w out (fed @ fed_by msg) wk'"

lemma push_ticks_running:
  "push_ticks sys now lv as p = Some q \<Longrightarrow> running sys cfg w t p \<Longrightarrow> running sys cfg w t q"
  by (induction as arbitrary: p) (auto split: option.splits intro: run_tick)

lemma published:
  "running sys cfg w t p \<Longrightarrow> \<exists>t. running sys cfg w t (wk_pipeline (publish p wk))"
  "wk_status (publish p wk) = pipeline_status (wk_pipeline (publish p wk))"
  "pl_started (wk_pipeline (publish p wk)) = pl_started p" "wk_chan (publish p wk) = wk_chan wk"
  "wk_gap (publish p wk) = wk_gap wk" "wk_started (publish p wk) = wk_started wk" "wk_stopped (publish p wk) = wk_stopped wk"
  using run_hear by (fastforce simp: publish_def pipeline_events_def)+

lemma poll_started [simp]: "pl_started (pipeline_poll sys now p) = pl_started p"
proof -
  have loop: "pl_started (foldl (\<lambda>p j. poll_destination sys j now e p) q xs) = pl_started q"
    if "\<forall>j \<in> set xs. j < length (pl_dests q)" for q :: "('a, 'b, 'c) pipeline" and xs e
    using that
  proof (induction xs arbitrary: q)
    case (Cons j xs)
    then have j: "j < length (pl_dests q)" by simp
    show ?case
      using Cons touches_frame(3,6) [OF poll_destination_frame(1) [OF j, of sys "\<lambda>_. {}" now e]] by simp
  qed simp
  have "pl_started (poll_encoder sys now p) = pl_started p"
    using poll_encoder_frame [of sys "\<lambda>_. {}" p now] by (simp add: touches_encoder_def)
  then show ?thesis using loop by (simp add: pipeline_poll_def poll_destinations_def Let_def)
qed

lemma ticks_started: "push_ticks sys now lv as p = Some q \<Longrightarrow> pl_started q = pl_started p"
proof (induction as arbitrary: p)
  case (Cons audio as)
  then show ?case
    using push_tick_frame [of sys now audio lv p _ "\<lambda>_. {}"] by (auto simp: touches_encoder_def split: option.splits)
qed simp

definition worker_ok ::
  "('w, 'r, 'i) stream_sys \<Rightarrow> stream_config \<Rightarrow> 'w \<Rightarrow> f32 list list \<Rightarrow> f32 list list \<Rightarrow> ('w, 'r, 'i) worker \<Rightarrow> bool" where
  "worker_ok sys cfg w out fed wk \<longleftrightarrow>
     (\<exists>t. running sys cfg w t (wk_pipeline wk)) \<and> length (wk_chan wk) \<le> QUEUE_TICKS \<and>
     (wk_status wk = [] \<or> wk_status wk = pipeline_status (wk_pipeline wk)) \<and>
     (wk_started wk \<longleftrightarrow> pl_started (wk_pipeline wk) \<and> \<not> wk_stopped wk) \<and>
     wk_gap wk \<le> length out \<and>
     (length out < 2 ^ 32 \<longrightarrow> fed @ concat (map fed_by (wk_chan wk)) @ replicate (wk_gap wk) silence = out)"

lemma run_ok:
  assumes "worker_ok sys cfg w out fed wk" "\<not> wk_stopped wk" "wk_chan wk = msg # msgs"
    and "worker_run sys msg (wk\<lparr>wk_chan := msgs\<rparr>) = Some wk'"
  shows "worker_ok sys cfg w out (fed @ fed_by msg) wk'"
proof -
  obtain t where t: "running sys cfg w t (wk_pipeline wk)" using assms(1) by (auto simp: worker_ok_def)
  have same: "wk_chan wk' = msgs" "wk_gap wk' = wk_gap wk"
    using assms(4) by (cases msg; auto simp: published Let_def split: option.splits)+
  have "(\<exists>t. running sys cfg w t (wk_pipeline wk')) \<and>
      (wk_status wk' = [] \<or> wk_status wk' = pipeline_status (wk_pipeline wk')) \<and>
      (wk_started wk' \<longleftrightarrow> pl_started (wk_pipeline wk') \<and> \<not> wk_stopped wk')"
  proof (cases msg)
    case (WorkerTick now gap audio lv)
    then obtain q where q: "push_ticks sys now lv (replicate gap silence @ [audio]) (wk_pipeline wk) = Some q"
      "wk' = publish (pipeline_poll sys now q) (wk\<lparr>wk_chan := msgs\<rparr>)"
      using assms(4) by (auto split: option.splits)
    show ?thesis
      using published(1) [OF run_poll [OF push_ticks_running [OF q(1) t]]] ticks_started [OF q(1)] assms(1,2)
      by (simp add: q(2) published worker_ok_def)
  next
    case (WorkerRoster roster)
    then show ?thesis
      using published(1) [OF run_roster [OF t, of roster]] assms
      by (auto simp: published worker_ok_def roster_frame)
  next
    case (WorkerOp now m)
    then show ?thesis
      using published(1) [OF run_op [OF t prod.collapse [symmetric], of now m]] assms
      by (auto simp: published worker_ok_def Let_def)
  next
    case (WorkerBeat now)
    then show ?thesis
      using published(1) [OF run_poll [OF t, of now]] assms by (auto simp: published worker_ok_def)
  next
    case WorkerShutdown
    then show ?thesis using assms by (auto simp: worker_ok_def)
  qed
  then show ?thesis using assms(1,3) same by (simp add: worker_ok_def)
qed

lemma working_ok: "working sys cfg w out fed wk \<Longrightarrow> worker_ok sys cfg w out fed wk"
proof (induction rule: working.induct)
  case (work_start wk)
  then obtain p where "pipeline_new sys cfg w = Some p" "wk = \<lparr>wk_chan = [], wk_gap = 0, wk_pipeline = p, wk_status = [],
      wk_started = False, wk_stopped = False\<rparr>"
    by (auto simp: worker_spawn_def)
  then show ?case using run_start [of sys cfg w p] new_fields [of sys cfg w p] by (auto simp: worker_ok_def)
next
  case (work_tick out fed wk audio now lv)
  have gap: "wrap32 (wk_gap wk) = wk_gap wk" "wrap64 (wk_gap wk + 1) = wk_gap wk + 1" if "length out < 2 ^ 32"
    using that work_tick.IH by (simp_all add: worker_ok_def wrap32_def wrap64_def)
  have le: "wrap32 (wk_gap wk) \<le> wk_gap wk" "wrap64 (wrap32 (wk_gap wk) + 1) \<le> wk_gap wk + 1"
    by (simp_all add: wrap32_def wrap64_def le_trans [OF mod_less_eq_dividend])
  show ?case
  proof (cases "channel_full wk")
    case True
    then show ?thesis
      using work_tick gap le by (auto simp: worker_ok_def submit_tick_def channel_full_def Let_def replicate_append_same)
  next
    case False
    then show ?thesis using work_tick gap le by (auto simp: worker_ok_def submit_tick_def channel_full_def Let_def)
  qed
next
  case (work_send out fed wk msg wk')
  then show ?case by (auto simp: worker_ok_def worker_send_def split: if_splits)
next
  case (work_recv out fed wk msg msgs wk')
  then show ?case using run_ok by (auto simp: worker_recv_def)
qed

definition ticked_worker :: "(nat list, unit, unit) worker" where
  "ticked_worker = submit_tick 5 [1, 2] levels_default (the (worker_spawn calm_sys small_cfg []))"

lemma ticked_working: "working calm_sys small_cfg [] [[1, 2]] [] ticked_worker" "\<not> wk_stopped ticked_worker"
  "wk_chan ticked_worker = [WorkerTick 5 0 [1, 2] levels_default]" "wk_gap ticked_worker = 0"
proof -
  obtain wk where wk: "worker_spawn calm_sys small_cfg [] = Some wk" "\<not> wk_stopped wk" "wk_chan wk = []" "wk_gap wk = 0"
    using started_some by (auto simp: worker_spawn_def)
  show "working calm_sys small_cfg [] [[1, 2]] [] ticked_worker"
    using work_tick [OF work_start [OF wk(1)] wk(2), of "[1, 2]" 5 levels_default] wk
    by (simp add: ticked_worker_def channel_full_def)
  show "\<not> wk_stopped ticked_worker" "wk_chan ticked_worker = [WorkerTick 5 0 [1, 2] levels_default]"
    "wk_gap ticked_worker = 0"
    using wk by (simp_all add: ticked_worker_def submit_tick_def Let_def wrap32_def)
qed

section \<open>Claims\<close>



text \<open>What the session reads of the worker is sound at every moment: the flag says whether the pipeline is
  started, and the published status always passes the link's length rules.\<close>

theorem worker_publishes_soundly:
  assumes "working sys cfg w out fed wk" "\<not> wk_stopped wk"
  shows "wk_started wk = pl_started (wk_pipeline wk) \<and> check_lengths (StreamStatus (wk_status wk)) = Ok ()"
proof -
  have ok: "worker_ok sys cfg w out fed wk" using working_ok [OF assms(1)] .
  then obtain t where "running sys cfg w t (wk_pipeline wk)" by (auto simp: worker_ok_def)
  then have "check_lengths (StreamStatus (pipeline_status (wk_pipeline wk))) = Ok ()"
    by (rule running_status_ok)
  moreover have "check_lengths (StreamStatus []) = Ok ()" by simp
  moreover have "wk_status wk = [] \<or> wk_status wk = pipeline_status (wk_pipeline wk)" using ok by (simp add: worker_ok_def)
  ultimately have "check_lengths (StreamStatus (wk_status wk)) = Ok ()" by metis
  then show ?thesis using ok assms(2) unfolding worker_ok_def by blast
qed

theorem worker_publishes_soundly_witness:
  "check_lengths (StreamStatus (wk_status ticked_worker)) = Ok ()"
  using worker_publishes_soundly [OF ticked_working(1,2)] by blast

end
