(* ===== verification/Flac.thy ===== *)
theory Flac
  imports Audio
begin

text \<open>
  The streaming encoder of a recording, \<open>crates/server/src/flac.rs\<close>: samples come in, and the bytes of every
  full block go out.  The flacenc library is the \<open>flac_lib\<close> argument: its STREAMINFO block, and its frame for
  a frame number and the samples of a block.  An error is its text.
\<close>

section \<open>Samples\<close>

text \<open>\<open>round\<close> of a number: half away from zero.\<close>

definition f32_round :: "f32 \<Rightarrow> int" where
  "f32_round x =
     (let e = unat (take_bit 8 (drop_bit 23 x)); m = 2 ^ 23 + unat (take_bit 23 x);
          mag = (if e = 0 then 0
                 else if e < 150 then (2 * m + 2 ^ (150 - e)) div 2 ^ (151 - e)
                 else m * 2 ^ (e - 150))
      in if bit x 31 then - int mag else int mag)"

text \<open>The cast saturates and sends a NaN to 0.\<close>

definition to_i16 :: "fp \<Rightarrow> f32 \<Rightarrow> int" where
  "to_i16 fp sample =
     (let x = fp_mul fp (f32_clamp sample F32_MINUS_ONE F32_ONE) 0x46FFFE00
      in if f32_is_nan x then 0 else min 32767 (max (- 32768) (f32_round x)))"

lemma to_i16_range: "- 32768 \<le> to_i16 fp s \<and> to_i16 fp s \<le> 32767"
  by (simp add: to_i16_def Let_def)

section \<open>The encoder\<close>

record flac_lib =
  fl_info :: "bytes + bytes"
  fl_frame :: "nat \<Rightarrow> int list \<Rightarrow> bytes + bytes"

abbreviation (input) CHANNELS :: nat where "CHANNELS \<equiv> 2"
abbreviation (input) BLOCK_SAMPLES :: nat where "BLOCK_SAMPLES \<equiv> 4096"
abbreviation (input) BLOCK_INTERLEAVED :: nat where "BLOCK_INTERLEAVED \<equiv> 8192"

record flac_encoder =
  fe_pending :: "int list"
  fe_frames :: nat

definition flac_new :: flac_encoder where
  "flac_new = \<lparr>fe_pending = [], fe_frames = 0\<rparr>"

definition resume_silent :: "nat \<Rightarrow> nat \<Rightarrow> flac_encoder" where
  "resume_silent frames pending = \<lparr>fe_pending = replicate pending 0, fe_frames = frames\<rparr>"

definition flac_header :: "flac_lib \<Rightarrow> bytes + bytes" where
  "flac_header lib =
     (case fl_info lib of
        Inl err \<Rightarrow> Inl err
      | Inr info \<Rightarrow> Inr (str ''fLaC'' @ [0x80, 0, 0, 34] @ info))"

text \<open>One block, its bytes appended to \<open>out\<close>.\<close>

definition encode_block ::
  "flac_lib \<Rightarrow> int list \<Rightarrow> bytes \<Rightarrow> flac_encoder \<Rightarrow> (bytes + unit) \<times> bytes \<times> flac_encoder" where
  "encode_block lib block out enc =
     (case fl_frame lib (fe_frames enc) block of
        Inl err \<Rightarrow> (Inl err, out, enc)
      | Inr frame \<Rightarrow> (Inr (), out @ frame, enc\<lparr>fe_frames := fe_frames enc + 1\<rparr>))"

function encode_pending ::
  "flac_lib \<Rightarrow> bytes \<Rightarrow> flac_encoder \<Rightarrow> (bytes + unit) \<times> bytes \<times> flac_encoder" where
  "encode_pending lib out enc =
     (if BLOCK_INTERLEAVED \<le> length (fe_pending enc)
      then case encode_block lib (take BLOCK_INTERLEAVED (fe_pending enc)) out
                  (enc\<lparr>fe_pending := drop BLOCK_INTERLEAVED (fe_pending enc)\<rparr>) of
             (Inl err, out1, enc1) \<Rightarrow> (Inl err, out1, enc1)
           | (Inr _, out1, enc1) \<Rightarrow> encode_pending lib out1 enc1
      else (Inr (), out, enc))"
  by pat_completeness auto

termination
  by (relation "measure (\<lambda>(_, _, enc). length (fe_pending enc))")
    (auto simp: encode_block_def split: sum.splits)

declare encode_pending.simps [simp del]

definition flac_push ::
  "flac_lib \<Rightarrow> fp \<Rightarrow> f32 list \<Rightarrow> bytes \<Rightarrow> flac_encoder \<Rightarrow> (bytes + unit) \<times> bytes \<times> flac_encoder" where
  "flac_push lib fp interleaved out enc =
     encode_pending lib out (enc\<lparr>fe_pending := fe_pending enc @ map (to_i16 fp) interleaved\<rparr>)"

definition flac_finish ::
  "flac_lib \<Rightarrow> bytes \<Rightarrow> flac_encoder \<Rightarrow> (bytes + unit) \<times> bytes \<times> flac_encoder" where
  "flac_finish lib out enc =
     (let tail = fe_pending enc; enc1 = enc\<lparr>fe_pending := []\<rparr>
      in if tail = [] then (Inr (), out, enc1) else encode_block lib tail out enc1)"

section \<open>What the stream holds\<close>

text \<open>The reference: frames \<open>n, n + 1, \<dots>\<close> of the full blocks of a signal.\<close>

fun block_frames :: "flac_lib \<Rightarrow> nat \<Rightarrow> nat \<Rightarrow> int list \<Rightarrow> bytes option" where
  "block_frames lib n 0 xs = Some []"
| "block_frames lib n (Suc k) xs =
     (case (fl_frame lib n (take BLOCK_INTERLEAVED xs), block_frames lib (Suc n) k (drop BLOCK_INTERLEAVED xs)) of
        (Inr frame, Some rest) \<Rightarrow> Some (frame @ rest)
      | _ \<Rightarrow> None)"

text \<open>An encoder that has taken the signal \<open>xs\<close> so far, and \<open>b\<close>, the bytes it has given out.\<close>

definition flac_encoded :: "flac_lib \<Rightarrow> int list \<Rightarrow> bytes \<Rightarrow> flac_encoder \<Rightarrow> bool" where
  "flac_encoded lib xs b enc \<longleftrightarrow>
     fe_frames enc = length xs div BLOCK_INTERLEAVED \<and>
     fe_pending enc = drop (BLOCK_INTERLEAVED * (length xs div BLOCK_INTERLEAVED)) xs \<and>
     block_frames lib 0 (length xs div BLOCK_INTERLEAVED) xs = Some b"

lemma flac_encoded_new: "flac_encoded lib [] [] flac_new"
  by (simp add: flac_encoded_def flac_new_def)

lemma block_frames_append:
  "BLOCK_INTERLEAVED * k \<le> length xs \<Longrightarrow> block_frames lib n k (xs @ ys) = block_frames lib n k xs"
  by (induction k arbitrary: n xs) (simp_all split: sum.splits option.splits)

lemma block_frames_Suc:
  "block_frames lib n (Suc k) xs =
   (case (block_frames lib n k xs, fl_frame lib (n + k) (take BLOCK_INTERLEAVED (drop (BLOCK_INTERLEAVED * k) xs))) of
      (Some b, Inr frame) \<Rightarrow> Some (b @ frame)
    | _ \<Rightarrow> None)"
proof (induction k arbitrary: n xs)
  case (Suc k)
  have d: "drop (BLOCK_INTERLEAVED * k) (drop BLOCK_INTERLEAVED xs) = drop (BLOCK_INTERLEAVED * Suc k) xs"
    by (simp add: add.commute)
  show ?case
    unfolding block_frames.simps(2) [of lib n "Suc k"] Suc.IH [of "Suc n"] d
    by (auto split: sum.splits option.splits)
qed (simp split: sum.splits)

lemma block_frames_add:
  "block_frames lib n (j + k) xs =
   (case (block_frames lib n j xs, block_frames lib (n + j) k (drop (BLOCK_INTERLEAVED * j) xs)) of
      (Some a, Some b) \<Rightarrow> Some (a @ b)
    | _ \<Rightarrow> None)"
proof (induction j arbitrary: n xs)
  case (Suc j)
  have d: "drop (BLOCK_INTERLEAVED * j) (drop BLOCK_INTERLEAVED xs) = drop (BLOCK_INTERLEAVED * Suc j) xs"
    by (simp add: add.commute)
  show ?case
    by (simp only: add_Suc add_Suc_right block_frames.simps Suc.IH [of "Suc n"] d)
      (auto split: sum.splits option.splits)
qed (simp split: option.splits)

lemma encode_pending_step:
  assumes "BLOCK_INTERLEAVED \<le> length (fe_pending enc)"
  shows "encode_pending lib out enc =
    (case fl_frame lib (fe_frames enc) (take BLOCK_INTERLEAVED (fe_pending enc)) of
       Inl err \<Rightarrow> (Inl err, out, enc\<lparr>fe_pending := drop BLOCK_INTERLEAVED (fe_pending enc)\<rparr>)
     | Inr frame \<Rightarrow> encode_pending lib (out @ frame)
         \<lparr>fe_pending = drop BLOCK_INTERLEAVED (fe_pending enc), fe_frames = Suc (fe_frames enc)\<rparr>)"
  using assms by (cases enc, subst encode_pending.simps) (simp add: encode_block_def split: sum.splits)

lemma full_blocks_cases:
  obtains (short) "length p < BLOCK_INTERLEAVED" "length p div BLOCK_INTERLEAVED = 0"
    | (full) k where "BLOCK_INTERLEAVED \<le> length p" "length p div BLOCK_INTERLEAVED = Suc k"
        "length (drop BLOCK_INTERLEAVED p) div BLOCK_INTERLEAVED = k"
  using that by (cases "length p < BLOCK_INTERLEAVED") (auto simp: le_div_geq)

lemma encode_pending_ok:
  "block_frames lib (fe_frames enc) (length (fe_pending enc) div BLOCK_INTERLEAVED) (fe_pending enc) = Some b \<Longrightarrow>
   encode_pending lib out enc =
     (Inr (), out @ b,
      \<lparr>fe_pending = drop (BLOCK_INTERLEAVED * (length (fe_pending enc) div BLOCK_INTERLEAVED)) (fe_pending enc),
       fe_frames = fe_frames enc + length (fe_pending enc) div BLOCK_INTERLEAVED\<rparr>)"
proof (induction "length (fe_pending enc)" arbitrary: enc out b rule: less_induct)
  case less
  consider (short) "length (fe_pending enc) < BLOCK_INTERLEAVED"
      "length (fe_pending enc) div BLOCK_INTERLEAVED = 0"
    | (full) k where "BLOCK_INTERLEAVED \<le> length (fe_pending enc)" "length (fe_pending enc) div BLOCK_INTERLEAVED = Suc k"
        "length (drop BLOCK_INTERLEAVED (fe_pending enc)) div BLOCK_INTERLEAVED = k"
    by (rule full_blocks_cases)
  then show ?case
  proof cases
    case short
    then show ?thesis using less.prems by (subst encode_pending.simps) simp
  next
    case (full k)
    let ?enc = "\<lparr>fe_pending = drop BLOCK_INTERLEAVED (fe_pending enc), fe_frames = Suc (fe_frames enc)\<rparr>"
    obtain frame rest where fr: "fl_frame lib (fe_frames enc) (take BLOCK_INTERLEAVED (fe_pending enc)) = Inr frame"
      "block_frames lib (Suc (fe_frames enc)) k (drop BLOCK_INTERLEAVED (fe_pending enc)) = Some rest" "b = frame @ rest"
      using less.prems full(2) by (auto split: sum.splits option.splits)
    have "encode_pending lib (out @ frame) ?enc =
        (Inr (), (out @ frame) @ rest,
         \<lparr>fe_pending = drop (BLOCK_INTERLEAVED * k) (drop BLOCK_INTERLEAVED (fe_pending enc)),
          fe_frames = Suc (fe_frames enc) + k\<rparr>)"
      using less.hyps [of ?enc rest "out @ frame"] full fr(2) by simp
    then show ?thesis
      using full fr by (simp add: encode_pending_step add.commute)
  qed
qed

lemma encode_pending_err:
  "block_frames lib (fe_frames enc) (length (fe_pending enc) div BLOCK_INTERLEAVED) (fe_pending enc) = None \<Longrightarrow>
   \<not> is_ok (fst (encode_pending lib out enc))"
proof (induction "length (fe_pending enc)" arbitrary: enc out rule: less_induct)
  case less
  consider (short) "length (fe_pending enc) < BLOCK_INTERLEAVED"
      "length (fe_pending enc) div BLOCK_INTERLEAVED = 0"
    | (full) k where "BLOCK_INTERLEAVED \<le> length (fe_pending enc)" "length (fe_pending enc) div BLOCK_INTERLEAVED = Suc k"
        "length (drop BLOCK_INTERLEAVED (fe_pending enc)) div BLOCK_INTERLEAVED = k"
    by (rule full_blocks_cases)
  then show ?case
  proof cases
    case short
    then show ?thesis using less.prems by simp
  next
    case (full k)
    let ?enc = "\<lparr>fe_pending = drop BLOCK_INTERLEAVED (fe_pending enc), fe_frames = Suc (fe_frames enc)\<rparr>"
    show ?thesis
    proof (cases "fl_frame lib (fe_frames enc) (take BLOCK_INTERLEAVED (fe_pending enc))")
      case (Inl err)
      then show ?thesis using full by (simp add: encode_pending_step is_ok_def)
    next
      case (Inr frame)
      then have "block_frames lib (Suc (fe_frames enc)) k (drop BLOCK_INTERLEAVED (fe_pending enc)) = None"
        using less.prems full(2) by (auto split: option.splits)
      then have "\<not> is_ok (fst (encode_pending lib (out @ frame) ?enc))"
        using less.hyps [of ?enc "out @ frame"] full by simp
      then show ?thesis using full Inr by (simp add: encode_pending_step)
    qed
  qed
qed

lemma flac_encoded_pending_short: "flac_encoded lib xs b enc \<Longrightarrow> length (fe_pending enc) < BLOCK_INTERLEAVED"
  by (simp add: flac_encoded_def mult.commute minus_mult_div_eq_mod)

text \<open>A push extends the signal, and its output the stream.\<close>

lemma flac_push_extends:
  assumes "flac_encoded lib xs b enc" "flac_push lib fp s out enc = (Inr u, out', enc')"
  shows "\<exists>b'. out' = out @ b' \<and> flac_encoded lib (xs @ map (to_i16 fp) s) (b @ b') enc'"
proof -
  let ?n = "length xs div BLOCK_INTERLEAVED" and ?ys = "map (to_i16 fp) s"
  let ?p = "fe_pending enc @ ?ys"
  have xs: "BLOCK_INTERLEAVED * ?n \<le> length xs" by simp
  have p: "?p = drop (BLOCK_INTERLEAVED * ?n) (xs @ ?ys)" using assms(1) by (simp add: flac_encoded_def)
  let ?k = "length ?p div BLOCK_INTERLEAVED"
  have nk: "length (xs @ ?ys) div BLOCK_INTERLEAVED = ?n + ?k"
  proof -
    have "length (xs @ ?ys) = length ?p + BLOCK_INTERLEAVED * ?n" unfolding p using xs by simp
    then show ?thesis by simp
  qed
  have f: "fe_frames enc = ?n" using assms(1) by (simp add: flac_encoded_def)
  obtain b' where b': "block_frames lib ?n ?k ?p = Some b'"
    using encode_pending_err [of lib "enc\<lparr>fe_pending := ?p\<rparr>" out] assms(2) f
    by (cases "block_frames lib ?n ?k ?p") (auto simp: flac_push_def is_ok_def)
  have res: "out' = out @ b'" "enc' = \<lparr>fe_pending = drop (BLOCK_INTERLEAVED * ?k) ?p, fe_frames = ?n + ?k\<rparr>"
    using encode_pending_ok [of lib "enc\<lparr>fe_pending := ?p\<rparr>" b' out] assms(2) f b' by (auto simp: flac_push_def)
  have "block_frames lib 0 (?n + ?k) (xs @ ?ys) = Some (b @ b')"
    unfolding block_frames_add p [symmetric] using b' assms(1) block_frames_append [OF xs, of lib 0 ?ys]
    by (simp add: flac_encoded_def)
  moreover have "drop (BLOCK_INTERLEAVED * ?k) ?p = drop (BLOCK_INTERLEAVED * (?n + ?k)) (xs @ ?ys)"
    unfolding p drop_drop by (simp add: distrib_left add.commute)
  ultimately show ?thesis unfolding flac_encoded_def nk using res by simp
qed

text \<open>The signal determines bytes and encoder.\<close>

lemma flac_encoded_unique: "flac_encoded lib xs b enc \<Longrightarrow> flac_encoded lib xs b' enc' \<Longrightarrow> b' = b \<and> enc' = enc"
  by (simp add: flac_encoded_def flac_encoder.equality)

lemma flac_encoded_resume:
  assumes "flac_encoded lib (replicate n 0) b enc"
  shows "resume_silent (n div BLOCK_INTERLEAVED) (n mod BLOCK_INTERLEAVED) = enc"
  using assms by (simp add: flac_encoded_def resume_silent_def flac_encoder.equality mult.commute minus_mult_div_eq_mod)

text \<open>The whole file of a signal: header, full blocks, and the tail as a last short block.\<close>

definition flac_file :: "flac_lib \<Rightarrow> int list \<Rightarrow> bytes option" where
  "flac_file lib xs =
     (let n = length xs div BLOCK_INTERLEAVED; tail = drop (BLOCK_INTERLEAVED * n) xs
      in case (flac_header lib, block_frames lib 0 n xs) of
           (Inr h, Some b) \<Rightarrow>
             (if tail = [] then Some (h @ b)
              else case fl_frame lib n tail of Inl _ \<Rightarrow> None | Inr frame \<Rightarrow> Some (h @ b @ frame))
         | _ \<Rightarrow> None)"

lemma flac_finish_file:
  assumes "flac_encoded lib xs b enc" "flac_header lib = Inr h" "flac_finish lib [] enc = (Inr u, out, enc')"
  shows "flac_file lib xs = Some (h @ b @ out)"
  using assms
  by (auto simp: flac_encoded_def flac_file_def flac_finish_def encode_block_def Let_def split: if_splits sum.splits)

end
