(* ===== verification/Dates.thy ===== *)
theory Dates
  imports Strings
begin

text \<open>
  Days to a date, \<open>crates/cloud/src/date.rs\<close>, and the name of a take, \<open>take_base\<close> of
  \<open>crates/server/src/record.rs\<close>.
\<close>

text \<open>Euclidean division by a positive number is HOL's; the other divisions are of non-negative numbers.\<close>

definition civil_from_days :: "int \<Rightarrow> int \<times> nat \<times> nat" where
  "civil_from_days z0 =
     (let z = z0 + 719468;
          era = z div 146097;
          doe = z mod 146097;
          yoe = (doe - doe div 1460 + doe div 36524 - doe div 146096) div 365;
          doy = doe - (365 * yoe + yoe div 4 - yoe div 100);
          mp = (5 * doy + 2) div 153;
          d = nat (doy - (153 * mp + 2) div 5 + 1);
          m = nat (if mp < 10 then mp + 3 else mp - 9);
          y = yoe + era * 400 + (if m \<le> 2 then 1 else 0)
      in (y, m, d))"

text \<open>\<open>{:0w}\<close> of a non-negative number.\<close>

definition zero_pad :: "nat \<Rightarrow> nat \<Rightarrow> bytes" where
  "zero_pad w n = (let ds = decimal_digits n in replicate (w - length ds) 48 @ ds)"

definition take_base :: "nat \<Rightarrow> bytes" where
  "take_base unix_secs =
     (let (y, m, d) = civil_from_days (int (unix_secs div 86400)); secs = unix_secs mod 86400
      in str ''jamstream-'' @ zero_pad 4 (nat y) @ str ''-'' @ zero_pad 2 m @ str ''-'' @ zero_pad 2 d @ str ''-'' @
         zero_pad 2 (secs div 3600) @ zero_pad 2 (secs mod 3600 div 60))"

section \<open>The calendar\<close>

definition leap_year :: "int \<Rightarrow> bool" where
  "leap_year y \<longleftrightarrow> y mod 4 = 0 \<and> (y mod 100 \<noteq> 0 \<or> y mod 400 = 0)"

definition month_days :: "int \<Rightarrow> nat \<Rightarrow> nat" where
  "month_days y m = (if m = 2 then if leap_year y then 29 else 28 else if m \<in> {4, 6, 9, 11} then 30 else 31)"

text \<open>Days from 1970-01-01 to the first of a year, a month and a day.\<close>

definition year_start :: "int \<Rightarrow> int" where
  "year_start y = 365 * (y - 1970) + ((y - 1) div 4 - 492) - ((y - 1) div 100 - 19) + ((y - 1) div 400 - 4)"

definition month_start :: "int \<Rightarrow> nat \<Rightarrow> nat" where
  "month_start y m = sum_list (map (month_days y) [1..<m])"

definition days_of :: "int \<times> nat \<times> nat \<Rightarrow> int" where
  "days_of = (\<lambda>(y, m, d). year_start y + int (month_start y m) + int d - 1)"

definition valid_date :: "int \<times> nat \<times> nat \<Rightarrow> bool" where
  "valid_date = (\<lambda>(y, m, d). 1 \<le> m \<and> m \<le> 12 \<and> 1 \<le> d \<and> d \<le> month_days y m)"

text \<open>That \<open>year_start\<close> is the calendar's: a year has 365 days or 366.\<close>

lemma year_start_epoch: "year_start 1970 = 0"
  by (simp add: year_start_def)

lemma div_step: "0 < k \<Longrightarrow> y div k = (y - 1) div k + (if y mod k = 0 then 1 else 0)" for y k :: int
proof -
  assume k: "0 < k"
  define q r where "q = y div k" and "r = y mod k"
  have y: "y = k * q + r" "0 \<le> r" "r < k" using k by (simp_all add: q_def r_def)
  show ?thesis
  proof (cases "r = 0")
    case True
    then have "y - 1 = k * (q - 1) + (k - 1)" by (simp add: y(1) right_diff_distrib)
    then have "(y - 1) div k = q - 1" using k by (intro int_div_pos_eq [of _ _ _ "k - 1"]) simp_all
    then show ?thesis using True by (simp add: q_def r_def)
  next
    case False
    then have "(y - 1) div k = q" using y by (intro int_div_pos_eq [of _ _ _ "r - 1"]) simp_all
    then show ?thesis using False by (simp add: q_def r_def)
  qed
qed

lemma year_start_Suc: "year_start (y + 1) = 365 * (y - 1969) + y div 4 - y div 100 + y div 400 - 477"
  by (simp add: year_start_def)

lemma year_step_sum:
  fixes p :: int
  assumes "s = 365 * (y - 1970) + (p - 492) - (p' - 19) + (p'' - 4)" "t = 365 * (y - 1969) + q - q' + q'' - 477"
    and "q = p + (if a then 1 else 0)" "q' = p' + (if b then 1 else 0)" "q'' = p'' + (if c then 1 else 0)"
    and "b \<Longrightarrow> a" "c \<Longrightarrow> b"
  shows "t = s + (if a \<and> (\<not> b \<or> c) then 366 else 365)"
  using assms by (cases a; cases b; cases c) simp_all

lemma year_start_next: "year_start (y + 1) = year_start y + (if leap_year y then 366 else 365)"
  unfolding leap_year_def
  by (rule year_step_sum [OF year_start_def year_start_Suc div_step div_step div_step])
    (use mod_mod_cancel [of 4 100 y] mod_mod_cancel [of 100 400 y] in simp_all)

section \<open>Years of an era\<close>

text \<open>A day of an era by its century, its four-year cycle, its year and the day in that year.\<close>

definition era_day :: "int \<Rightarrow> int \<Rightarrow> int \<Rightarrow> int \<Rightarrow> int" where
  "era_day c q r d = 36524 * c + 1461 * q + 365 * r + d"

definition era_parts :: "int \<Rightarrow> int \<Rightarrow> int \<Rightarrow> int \<Rightarrow> bool" where
  "era_parts c q r d \<longleftrightarrow> 0 \<le> c \<and> c \<le> 3 \<and> 0 \<le> q \<and> q \<le> 24 \<and> 0 \<le> r \<and> r \<le> 3 \<and> 0 \<le> d \<and>
     (d \<le> 364 \<or> d = 365 \<and> r = 3 \<and> (q \<noteq> 24 \<or> c = 3))"

lemma era_day_split:
  assumes "0 \<le> doe" "doe < 146097"
  obtains c q r d where "era_parts c q r d" "doe = era_day c q r d"
proof -
  define c where "c = min 3 (doe div 36524)"
  define rem1 where "rem1 = doe - 36524 * c"
  define q where "q = min 24 (rem1 div 1461)"
  define rem2 where "rem2 = rem1 - 1461 * q"
  define r where "r = min 3 (rem2 div 365)"
  define d where "d = rem2 - 365 * r"
  have c: "0 \<le> c" "c \<le> 3" "0 \<le> rem1" "rem1 < 36524 \<or> c = 3 \<and> rem1 = 36524"
    using assms by (auto simp: c_def rem1_def min_def)
  have q: "0 \<le> q" "q \<le> 24" "0 \<le> rem2" "rem2 < 1461" "q = 24 \<Longrightarrow> rem2 < 1460 \<or> c = 3"
    using c(3,4) by (auto simp: q_def rem2_def min_def)
  have r: "0 \<le> r" "r \<le> 3" "0 \<le> d" "d \<le> 364 \<or> d = 365 \<and> r = 3 \<and> rem2 = 1460"
    using q(3,4) by (auto simp: r_def d_def min_def)
  have "era_parts c q r d" using c q r by (auto simp: era_parts_def)
  moreover have "doe = era_day c q r d" by (simp add: era_day_def d_def rem2_def rem1_def)
  ultimately show thesis by (rule that)
qed

lemma era_year:
  assumes "era_parts c q r d"
  defines "doe \<equiv> era_day c q r d" and "yoe \<equiv> 100 * c + 4 * q + r"
  shows "(doe - doe div 1460 + doe div 36524 - doe div 146096) div 365 = yoe"
    and "doe - (365 * yoe + yoe div 4 - yoe div 100) = d"
    and "0 \<le> yoe" "yoe < 400" "d \<le> 364 \<or> leap_year (yoe + 1)"
proof -
  have b: "0 \<le> c" "c \<le> 3" "0 \<le> q" "q \<le> 24" "0 \<le> r" "r \<le> 3" "0 \<le> d"
    "d \<le> 364 \<or> d = 365 \<and> r = 3 \<and> (q \<noteq> 24 \<or> c = 3)"
    using assms(1) by (auto simp: era_parts_def)
  define e where "e = (if 1460 \<le> 24 * c + q + 365 * r + d then 1 else 0 :: int)"
  define l where "l = (if doe = 146096 then 1 else 0 :: int)"
  have doe: "doe = 36524 * c + 1461 * q + 365 * r + d" by (simp add: doe_def era_day_def)
  have hi: "1461 * q + 365 * r + d < 36524 \<or> c = 3 \<and> 1461 * q + 365 * r + d = 36524" using b by auto
  have d1: "doe div 1460 = 25 * c + q + e"
    by (rule int_div_pos_eq [of _ _ _ "24 * c + q + 365 * r + d - 1460 * e"]) (use b in \<open>auto simp: doe e_def\<close>)
  have d2: "doe div 36524 = c + l"
  proof (cases "1461 * q + 365 * r + d < 36524")
    case True
    then have "l = 0" using b by (auto simp: l_def doe)
    then show ?thesis using True b by (intro int_div_pos_eq [of _ _ _ "1461 * q + 365 * r + d"]) (simp_all add: doe)
  next
    case False
    then have "doe = 146096" "c = 3" using hi by (auto simp: doe)
    then show ?thesis by (simp add: l_def)
  qed
  have d3: "doe div 146096 = l"
  proof (cases "doe = 146096")
    case False
    then have "0 \<le> doe" "doe < 146096" using hi b by (auto simp: doe)
    then show ?thesis using False by (simp add: l_def)
  qed (simp add: l_def)
  have "0 \<le> d - e" "d - e < 365" using b by (auto simp: e_def)
  then show "(doe - doe div 1460 + doe div 36524 - doe div 146096) div 365 = yoe"
    unfolding d1 d2 d3 by (intro int_div_pos_eq [of _ _ _ "d - e"]) (simp_all add: doe yoe_def)
  have "yoe div 4 = 25 * c + q" "yoe div 100 = c"
    using b by (auto simp: yoe_def intro!: int_div_pos_eq [where r = r] int_div_pos_eq [where r = "4 * q + r"])
  then show "doe - (365 * yoe + yoe div 4 - yoe div 100) = d" by (simp add: doe yoe_def)
  show "0 \<le> yoe" "yoe < 400" using b by (auto simp: yoe_def)
  show "d \<le> 364 \<or> leap_year (yoe + 1)"
  proof (cases "d \<le> 364")
    case False
    then have "r = 3" "q \<noteq> 24 \<or> c = 3" using b by auto
    then have y: "yoe + 1 = 100 * c + 4 * (q + 1)" "q + 1 < 25 \<or> c = 3 \<and> q = 24" using b by (auto simp: yoe_def)
    show ?thesis
    proof (cases "c = 3 \<and> q = 24")
      case True
      then show ?thesis using y by (simp add: leap_year_def)
    next
      case False
      then have "(yoe + 1) mod 100 = 4 * (q + 1)" using y b by (intro int_mod_pos_eq [of _ _ c]) auto
      moreover have "(yoe + 1) mod 4 = 0" using y by (intro int_mod_pos_eq [of _ _ "25 * c + q + 1"]) auto
      ultimately show ?thesis using b by (simp add: leap_year_def)
    qed
  qed simp
qed

section \<open>Months\<close>

definition march_days :: "int \<Rightarrow> int" where
  "march_days mp = (153 * mp + 2) div 5"

lemma march_table:
  "march_days 0 = 0" "march_days 1 = 31" "march_days 2 = 61" "march_days 3 = 92" "march_days 4 = 122"
  "march_days 5 = 153" "march_days 6 = 184" "march_days 7 = 214" "march_days 8 = 245" "march_days 9 = 275"
  "march_days 10 = 306" "march_days 11 = 337" "march_days 12 = 367"
  by (simp_all add: march_days_def)

lemma twelve: "0 \<le> mp \<Longrightarrow> mp < 12 \<Longrightarrow> mp \<in> {0, 1, 2, 3, 4, 5, 6, 7, 8, 9, 10, 11}" for mp :: int
  by (simp; presburger)

text \<open>March to December in the year itself, January and February in the next.\<close>

lemma month_start_table:
  "0 \<le> mp \<Longrightarrow> mp < 10 \<Longrightarrow> int (month_start y (nat (mp + 3))) = (if leap_year y then 60 else 59) + march_days mp"
  "0 \<le> mp \<Longrightarrow> mp < 12 \<Longrightarrow> 10 \<le> mp \<Longrightarrow> int (month_start y (nat (mp - 9))) + 306 = march_days mp"
  using twelve [of mp] by (auto simp: month_start_def month_days_def march_table upt_conv_Cons numeral_eq_Suc)

lemma month_days_table:
  "0 \<le> mp \<Longrightarrow> mp < 10 \<Longrightarrow> int (month_days y (nat (mp + 3))) = march_days (mp + 1) - march_days mp"
  "0 \<le> mp \<Longrightarrow> mp < 12 \<Longrightarrow> 10 \<le> mp \<Longrightarrow>
     int (month_days y (nat (mp - 9))) = march_days (mp + 1) - march_days mp - (if mp = 10 then 0 else if leap_year y then 1 else 2)"
  using twelve [of mp] by (auto simp: month_days_def march_table)

lemma march_bounds:
  assumes "0 \<le> doy" "doy \<le> 365"
  defines "mp \<equiv> (5 * doy + 2) div 153"
  shows "0 \<le> mp" "mp < 12" "march_days mp \<le> doy" "doy < march_days (mp + 1)"
proof -
  have m: "153 * mp \<le> 5 * doy + 2" "5 * doy + 2 < 153 * mp + 153"
    unfolding mp_def by simp_all
  then show mp: "0 \<le> mp" "mp < 12" using assms by linarith+
  show "march_days mp \<le> doy" "doy < march_days (mp + 1)"
    using twelve [OF mp] m by (auto simp: march_table)
qed

section \<open>Claims\<close>

lemma march_first:
  assumes "0 \<le> yoe" "yoe < 400"
  shows "year_start (yoe + era * 400 + 1) = 146097 * era + (365 * yoe + yoe div 4 - yoe div 100) - 719468 + 306"
proof -
  have "(yoe + era * 400) div 4 = 100 * era + yoe div 4" "(yoe + era * 400) div 100 = 4 * era + yoe div 100"
    using div_mult_self1 [of 4 yoe "100 * era"] div_mult_self1 [of 100 yoe "4 * era"] by (simp_all add: mult.assoc mult.commute)
  moreover have "(yoe + era * 400) div 400 = era" using assms by simp
  moreover have "365 * (yoe + era * 400 - 1969) + (100 * era + a) - (4 * era + b) + era - 477 =
      146097 * era + (365 * yoe + a - b) - 719468 + 306" for a b
    by simp
  ultimately show ?thesis unfolding year_start_Suc by metis
qed


end
