(* ===== verification/Recorder.thy ===== *)
theory Recorder
  imports Flac Dates AudioProps RateLimits
begin

text \<open>
  Session recording, \<open>crates/server/src/record.rs\<close>: the broadcast mix and, when asked, a stereo stem per
  musician, each flac_encoded to FLAC and handed to a sink.  A sink is a record of the trait's methods over a state
  of its own; a value that goes out of scope is dropped, which is a call too.  Errors are their texts; the two
  scratch buffers of the recorder, cleared before each use, are left out.
\<close>

section \<open>Results and state\<close>

text \<open>The \<open>?\<close> operator with the state it leaves.\<close>

fun try_then :: "(bytes + 'a) \<times> 's \<Rightarrow> ('a \<Rightarrow> 's \<Rightarrow> (bytes + 'b) \<times> 's) \<Rightarrow> (bytes + 'b) \<times> 's" where
  "try_then (Inl err, s) f = (Inl err, s)"
| "try_then (Inr a, s) f = f a s"

record ('o, 'w) recording_sink =
  rk_open :: "bytes \<Rightarrow> 'w \<Rightarrow> (bytes + 'o) \<times> 'w"
  rk_uploads :: bool
  rk_write :: "bytes \<Rightarrow> 'o \<times> 'w \<Rightarrow> (bytes + unit) \<times> 'o \<times> 'w"
  rk_finish :: "'o \<Rightarrow> 'w \<Rightarrow> (bytes + unit) \<times> 'w"
  rk_abort :: "'o \<Rightarrow> 'w \<Rightarrow> 'w"
  rk_drop :: "'o \<Rightarrow> 'w \<Rightarrow> 'w"

text \<open>What the recorder does not have in the repository: the encoder library, float arithmetic and, for names,
  which characters past ASCII are letters or digits.\<close>

record record_env =
  re_flac :: flac_lib
  re_fp :: fp
  re_alnum :: "bytes \<Rightarrow> bool"

section \<open>Data\<close>

abbreviation (input) TICK_STEREO :: nat where "TICK_STEREO \<equiv> 240"

record record_payload =
  rp_mix :: "f32 list"
  rp_stems :: "(member_id \<times> fader \<times> f32 list) list"

definition payload_default :: record_payload where
  "payload_default = \<lparr>rp_mix = replicate TICK_STEREO 0, rp_stems = []\<rparr>"

definition push_stem :: "member_id \<Rightarrow> fader \<Rightarrow> f32 list \<Rightarrow> record_payload \<Rightarrow> record_payload" where
  "push_stem m fader pcm p =
     (if length (rp_stems p) < MAX_MUSICIANS then p\<lparr>rp_stems := rp_stems p @ [(m, fader, pcm)]\<rparr> else p)"

datatype recorder_state = RecorderIdle | RecorderRecording bool | RecorderUploading | RecorderFailed bytes

record 'o track =
  tk_enc :: flac_encoder
  tk_object :: 'o

record silent_head =
  sh_enc :: flac_encoder
  sh_bytes :: bytes
  sh_frame_ends :: "nat list"

record 'o rec_take =
  te_base :: bytes
  te_mix :: "'o track"
  te_stems :: "(member_id, 'o track) bmap option"
  te_silence :: "silent_head option"
  te_roster :: "(member_id \<times> bytes) list"
  te_names :: "bytes list"
  te_ticks :: nat

record ('o, 'w) recorder =
  rc_world :: 'w
  rc_take :: "'o rec_take option"
  rc_state :: recorder_state

section \<open>Tracks\<close>

definition track_write ::
  "('o, 'w) recording_sink \<Rightarrow> bytes \<Rightarrow> 'o track \<times> 'w \<Rightarrow> (bytes + unit) \<times> 'o track \<times> 'w" where
  "track_write sink chunk = (\<lambda>(t, w).
     let (res, ob, w1) = rk_write sink chunk (tk_object t, w) in (res, t\<lparr>tk_object := ob\<rparr>, w1))"

text \<open>Opening writes the header, and the head of the stream when there is one; an error drops the object.\<close>

definition track_start ::
  "record_env \<Rightarrow> ('o, 'w) recording_sink \<Rightarrow> flac_encoder \<Rightarrow> bytes list \<Rightarrow> 'o \<Rightarrow> 'w \<Rightarrow> (bytes + 'o track) \<times> 'w" where
  "track_start env sink enc head ob w =
     (case flac_header (re_flac env) of
        Inl err \<Rightarrow> (Inl err, rk_drop sink ob w)
      | Inr header \<Rightarrow>
          (case foldl (\<lambda>st chunk. try_then st (\<lambda>_. track_write sink chunk))
                  (Inr (), \<lparr>tk_enc = enc, tk_object = ob\<rparr>, w) (header # head) of
             (Inl err, t, w1) \<Rightarrow> (Inl err, rk_drop sink (tk_object t) w1)
           | (Inr _, t, w1) \<Rightarrow> (Inr t, w1)))"

definition track_open ::
  "record_env \<Rightarrow> ('o, 'w) recording_sink \<Rightarrow> bytes \<Rightarrow> 'w \<Rightarrow> (bytes + 'o track) \<times> 'w" where
  "track_open env sink file w =
     try_then (rk_open sink file w) (track_start env sink flac_new [])"

definition open_with_head ::
  "record_env \<Rightarrow> ('o, 'w) recording_sink \<Rightarrow> bytes \<Rightarrow> bytes \<Rightarrow> nat \<Rightarrow> nat \<Rightarrow> 'w \<Rightarrow> (bytes + 'o track) \<times> 'w" where
  "open_with_head env sink file head frames pending w =
     try_then (rk_open sink file w) (track_start env sink (resume_silent frames pending) [head])"

definition track_push ::
  "record_env \<Rightarrow> ('o, 'w) recording_sink \<Rightarrow> f32 list \<Rightarrow> 'o track \<times> 'w \<Rightarrow> (bytes + unit) \<times> 'o track \<times> 'w" where
  "track_push env sink samples = (\<lambda>(t, w).
     case flac_push (re_flac env) (re_fp env) samples [] (tk_enc t) of
       (Inl err, _, enc) \<Rightarrow> (Inl err, t\<lparr>tk_enc := enc\<rparr>, w)
     | (Inr _, out, enc) \<Rightarrow>
         (if out \<noteq> [] then track_write sink out (t\<lparr>tk_enc := enc\<rparr>, w) else (Inr (), t\<lparr>tk_enc := enc\<rparr>, w)))"

definition track_finish ::
  "record_env \<Rightarrow> ('o, 'w) recording_sink \<Rightarrow> 'o track \<Rightarrow> 'w \<Rightarrow> (bytes + unit) \<times> 'w" where
  "track_finish env sink t w =
     (case flac_finish (re_flac env) [] (tk_enc t) of
        (Inl err, _, _) \<Rightarrow> (Inl err, rk_drop sink (tk_object t) w)
      | (Inr _, out, _) \<Rightarrow>
          (case (if out \<noteq> [] then rk_write sink out (tk_object t, w) else (Inr (), tk_object t, w)) of
             (Inl err, ob, w1) \<Rightarrow> (Inl err, rk_drop sink ob w1)
           | (Inr _, ob, w1) \<Rightarrow> rk_finish sink ob w1))"

section \<open>The silent head\<close>

definition silent_head_new :: silent_head where
  "silent_head_new = \<lparr>sh_enc = flac_new, sh_bytes = [], sh_frame_ends = []\<rparr>"

definition silent_advance :: "record_env \<Rightarrow> silent_head \<Rightarrow> (bytes + unit) \<times> silent_head" where
  "silent_advance env s =
     (case flac_push (re_flac env) (re_fp env) (replicate TICK_STEREO 0) [] (sh_enc s) of
        (Inl err, _, enc) \<Rightarrow> (Inl err, s\<lparr>sh_enc := enc\<rparr>)
      | (Inr _, out, enc) \<Rightarrow>
          (Inr (), if out \<noteq> []
             then (let b = sh_bytes s @ out
                   in s\<lparr>sh_enc := enc, sh_bytes := b, sh_frame_ends := sh_frame_ends s @ [length b]\<rparr>)
             else s\<lparr>sh_enc := enc\<rparr>))"

definition silent_split :: "nat \<Rightarrow> silent_head \<Rightarrow> (bytes \<times> nat \<times> nat) option" where
  "silent_split ticks s =
     (let needed = wrap64 (ticks * TICK_STEREO);
          frames = needed div BLOCK_INTERLEAVED;
          pending = needed mod BLOCK_INTERLEAVED
      in case (case frames of 0 \<Rightarrow> Some 0
               | Suc n \<Rightarrow> if n < length (sh_frame_ends s) then Some (sh_frame_ends s ! n) else None) of
           None \<Rightarrow> None
         | Some e \<Rightarrow> Some (take e (sh_bytes s), frames, pending))"

section \<open>Names\<close>

definition is_alphanumeric :: "(bytes \<Rightarrow> bool) \<Rightarrow> bytes \<Rightarrow> bool" where
  "is_alphanumeric table c =
     (case c of
        [b] \<Rightarrow> 48 \<le> b \<and> b \<le> 57 \<or> 65 \<le> b \<and> b \<le> 90 \<or> 97 \<le> b \<and> b \<le> 122
      | _ \<Rightarrow> table c)"

definition sanitize_char :: "(bytes \<Rightarrow> bool) \<Rightarrow> bytes \<Rightarrow> bytes" where
  "sanitize_char table c =
     (if is_alphanumeric table c \<or> c = str ''-'' \<or> c = str ''_'' then c
      else if c \<in> set WHITESPACE then str ''-'' else [])"

definition name_sanitize :: "(bytes \<Rightarrow> bool) \<Rightarrow> bytes \<Rightarrow> bytes" where
  "name_sanitize table name = concat (map (sanitize_char table) (str_chars name))"

definition stem_name ::
  "(bytes \<Rightarrow> bool) \<Rightarrow> (member_id \<times> bytes) list \<Rightarrow> bytes list \<Rightarrow> member_id \<Rightarrow> bytes" where
  "stem_name table roster used m =
     (let given = map_option (name_sanitize table) (map_of roster m);
          name = (case given of
                    Some n \<Rightarrow> if n \<noteq> [] then n else str ''member-'' @ decimal_digits (unat (member_num m))
                  | None \<Rightarrow> str ''member-'' @ decimal_digits (unat (member_num m)))
      in if name \<in> set used then name @ str ''-'' @ decimal_digits (unat (member_num m)) else name)"

section \<open>One tick into one take\<close>

text \<open>The loop that encodes silence when the head does not reach.\<close>

fun push_silent_ticks ::
  "record_env \<Rightarrow> ('o, 'w) recording_sink \<Rightarrow> nat \<Rightarrow> 'o track \<times> 'w \<Rightarrow> (bytes + unit) \<times> 'o track \<times> 'w" where
  "push_silent_ticks env sink 0 st = (Inr (), st)"
| "push_silent_ticks env sink (Suc n) st =
     try_then (track_push env sink (replicate TICK_STEREO 0) st) (\<lambda>_. push_silent_ticks env sink n)"

definition open_silent ::
  "record_env \<Rightarrow> ('o, 'w) recording_sink \<Rightarrow> bytes \<Rightarrow> nat \<Rightarrow> 'w \<Rightarrow> (bytes + 'o track) \<times> 'w" where
  "open_silent env sink file ticks w =
     try_then (track_open env sink file w) (\<lambda>t w1.
       case push_silent_ticks env sink ticks (t, w1) of
         (Inl err, t1, w2) \<Rightarrow> (Inl err, rk_drop sink (tk_object t1) w2)
       | (Inr _, t1, w2) \<Rightarrow> (Inr t1, w2))"

definition stem_file :: "'o rec_take \<Rightarrow> bytes \<Rightarrow> bytes" where
  "stem_file t name = te_base t @ str ''-'' @ name @ str ''.flac''"

definition stem_of :: "'o rec_take \<Rightarrow> member_id \<Rightarrow> 'o track option" where
  "stem_of t m = Option.bind (te_stems t) (\<lambda>stems. bm_get stems m)"

definition put_stem :: "member_id \<Rightarrow> 'o track \<Rightarrow> 'o rec_take \<Rightarrow> 'o rec_take" where
  "put_stem m track t = t\<lparr>te_stems := map_option (bm_insert m track) (te_stems t)\<rparr>"

definition open_stem ::
  "record_env \<Rightarrow> ('o, 'w) recording_sink \<Rightarrow> member_id \<Rightarrow> 'o rec_take \<times> 'w \<Rightarrow> (bytes + unit) \<times> 'o rec_take \<times> 'w" where
  "open_stem env sink m = (\<lambda>(t, w).
     let name = stem_name (re_alnum env) (te_roster t) (te_names t) m;
         file = stem_file t name
     in case (case Option.bind (te_silence t) (silent_split (te_ticks t)) of
                Some (b, frames, pending) \<Rightarrow> open_with_head env sink file b frames pending w
              | None \<Rightarrow> open_silent env sink file (te_ticks t) w) of
          (Inl err, w1) \<Rightarrow> (Inl err, t, w1)
        | (Inr track, w1) \<Rightarrow>
            (Inr (), put_stem m track (t\<lparr>te_names := te_names t @ [name]\<rparr>), w1))"

text \<open>A push to the stem of a member.  The stem is there: the code's \<open>expect\<close> says so.\<close>

definition push_stem_track ::
  "record_env \<Rightarrow> ('o, 'w) recording_sink \<Rightarrow> member_id \<Rightarrow> f32 list \<Rightarrow> 'o rec_take \<times> 'w \<Rightarrow> (bytes + unit) \<times> 'o rec_take \<times> 'w" where
  "push_stem_track env sink m samples = (\<lambda>(t, w).
     case stem_of t m of
       None \<Rightarrow> (Inr (), t, w)
     | Some track \<Rightarrow>
         (let (res, track1, w1) = track_push env sink samples (track, w)
          in (res, put_stem m track1 t, w1)))"

fun feed_stems ::
  "record_env \<Rightarrow> ('o, 'w) recording_sink \<Rightarrow> (member_id \<times> fader \<times> f32 list) list \<Rightarrow>
   'o rec_take \<times> 'w \<Rightarrow> (bytes + unit) \<times> 'o rec_take \<times> 'w" where
  "feed_stems env sink [] st = (Inr (), st)"
| "feed_stems env sink ((m, fader, pcm) # stems) st =
     try_then (if stem_of (fst st) m = None then open_stem env sink m st else (Inr (), st)) (\<lambda>_ st1.
     try_then (push_stem_track env sink m (mix_into (re_fp env) [(m, pcm)] (\<lambda>_. fader) None TICK_STEREO) st1) (\<lambda>_ st2.
     feed_stems env sink stems st2))"

fun feed_silence ::
  "record_env \<Rightarrow> ('o, 'w) recording_sink \<Rightarrow> member_id list \<Rightarrow> member_id list \<Rightarrow>
   'o rec_take \<times> 'w \<Rightarrow> (bytes + unit) \<times> 'o rec_take \<times> 'w" where
  "feed_silence env sink present [] st = (Inr (), st)"
| "feed_silence env sink present (m # ms) st =
     try_then (if m \<notin> set present then push_stem_track env sink m (replicate TICK_STEREO 0) st else (Inr (), st)) (\<lambda>_ st1.
     feed_silence env sink present ms st1)"

definition stem_keys :: "'o rec_take \<Rightarrow> member_id list" where
  "stem_keys t = (case te_stems t of None \<Rightarrow> [] | Some stems \<Rightarrow> bm_keys stems)"

definition push_mix ::
  "record_env \<Rightarrow> ('o, 'w) recording_sink \<Rightarrow> f32 list \<Rightarrow> 'o rec_take \<times> 'w \<Rightarrow> (bytes + unit) \<times> 'o rec_take \<times> 'w" where
  "push_mix env sink samples = (\<lambda>(t, w).
     let (res, track, w1) = track_push env sink samples (te_mix t, w) in (res, t\<lparr>te_mix := track\<rparr>, w1))"

definition count_tick :: "record_env \<Rightarrow> 'o rec_take \<times> 'w \<Rightarrow> (bytes + unit) \<times> 'o rec_take \<times> 'w" where
  "count_tick env = (\<lambda>(t, w).
     let t1 = t\<lparr>te_ticks := wrap64 (te_ticks t + 1)\<rparr>
     in case te_silence t1 of
          None \<Rightarrow> (Inr (), t1, w)
        | Some s \<Rightarrow> (let (res, s1) = silent_advance env s in (res, t1\<lparr>te_silence := Some s1\<rparr>, w)))"

definition feed_all_stems ::
  "record_env \<Rightarrow> ('o, 'w) recording_sink \<Rightarrow> (member_id \<times> fader \<times> f32 list) list \<Rightarrow>
   'o rec_take \<times> 'w \<Rightarrow> (bytes + unit) \<times> 'o rec_take \<times> 'w" where
  "feed_all_stems env sink stems st =
     (if te_stems (fst st) \<noteq> None
      then try_then (feed_stems env sink stems st) (\<lambda>_ st1.
             feed_silence env sink (map fst stems) (stem_keys (fst st1)) st1)
      else (Inr (), st))"

definition feed_take ::
  "record_env \<Rightarrow> ('o, 'w) recording_sink \<Rightarrow> record_payload \<Rightarrow> 'o rec_take \<times> 'w \<Rightarrow> (bytes + unit) \<times> 'o rec_take \<times> 'w" where
  "feed_take env sink p st =
     try_then (push_mix env sink (rp_mix p) st) (\<lambda>_ st1.
     try_then (feed_all_stems env sink (rp_stems p) st1) (\<lambda>_. count_tick env))"

section \<open>The recorder\<close>

definition recorder_new :: "'w \<Rightarrow> ('o, 'w) recorder" where
  "recorder_new w = \<lparr>rc_world = w, rc_take = None, rc_state = RecorderIdle\<rparr>"

definition recorder_start ::
  "record_env \<Rightarrow> ('o, 'w) recording_sink \<Rightarrow> nat \<Rightarrow> (member_id \<times> bytes) list option \<Rightarrow>
   ('o, 'w) recorder \<Rightarrow> ('o, 'w) recorder" where
  "recorder_start env sink unix_secs stems rc =
     (if rc_take rc \<noteq> None then rc
      else (let base = take_base unix_secs
            in case track_open env sink (base @ str ''-mix.flac'') (rc_world rc) of
                 (Inl err, w) \<Rightarrow>
                   rc\<lparr>rc_world := w, rc_state := RecorderFailed (str ''cannot open the mix file: '' @ err)\<rparr>
               | (Inr mix, w) \<Rightarrow>
                   rc\<lparr>rc_world := w, rc_state := RecorderRecording (stems \<noteq> None),
                      rc_take := Some \<lparr>te_base = base, te_mix = mix, te_stems = map_option (\<lambda>_. bm_empty) stems,
                        te_silence = map_option (\<lambda>_. silent_head_new) stems,
                        te_roster = (case stems of None \<Rightarrow> [] | Some r \<Rightarrow> r), te_names = [str ''mix''],
                        te_ticks = 0\<rparr>\<rparr>))"

text \<open>The tracks of a take, the mix first and the stems by member.\<close>

definition take_tracks :: "'o rec_take \<Rightarrow> 'o track list" where
  "take_tracks t = te_mix t # (case te_stems t of None \<Rightarrow> [] | Some stems \<Rightarrow> bm_values stems)"

definition recorder_fail ::
  "('o, 'w) recording_sink \<Rightarrow> bytes \<Rightarrow> ('o, 'w) recorder \<Rightarrow> ('o, 'w) recorder" where
  "recorder_fail sink reason rc =
     (let w = (case rc_take rc of
                 None \<Rightarrow> rc_world rc
               | Some t \<Rightarrow> foldl (\<lambda>w tr. rk_abort sink (tk_object tr) w) (rc_world rc) (take_tracks t))
      in rc\<lparr>rc_world := w, rc_take := None, rc_state := RecorderFailed reason\<rparr>)"

definition recorder_tick ::
  "record_env \<Rightarrow> ('o, 'w) recording_sink \<Rightarrow> record_payload \<Rightarrow> ('o, 'w) recorder \<Rightarrow> ('o, 'w) recorder" where
  "recorder_tick env sink p rc =
     (case rc_take rc of
        None \<Rightarrow> rc
      | Some t \<Rightarrow>
          (case feed_take env sink p (t, rc_world rc) of
             (Inr _, t1, w) \<Rightarrow> rc\<lparr>rc_world := w, rc_take := Some t1\<rparr>
           | (Inl err, t1, w) \<Rightarrow>
               recorder_fail sink (str ''recording failed: '' @ err) (rc\<lparr>rc_world := w, rc_take := Some t1\<rparr>)))"

text \<open>Every track is finished, whatever the ones before came to; \<open>and\<close> keeps the first error.\<close>

fun finish_tracks ::
  "record_env \<Rightarrow> ('o, 'w) recording_sink \<Rightarrow> 'o track list \<Rightarrow> bytes + unit \<Rightarrow> 'w \<Rightarrow> (bytes + unit) \<times> 'w" where
  "finish_tracks env sink [] res w = (res, w)"
| "finish_tracks env sink (t # ts) res w =
     (let (finished, w1) = track_finish env sink t w
      in finish_tracks env sink ts (case res of Inl err \<Rightarrow> Inl err | Inr _ \<Rightarrow> finished) w1)"

definition recorder_stop ::
  "record_env \<Rightarrow> ('o, 'w) recording_sink \<Rightarrow> ('o, 'w) recorder \<Rightarrow> ('o, 'w) recorder" where
  "recorder_stop env sink rc =
     (case rc_take rc of
        None \<Rightarrow> rc
      | Some t \<Rightarrow>
          (case finish_tracks env sink (take_tracks t) (Inr ()) (rc_world rc) of
             (res, w) \<Rightarrow>
               rc\<lparr>rc_world := w, rc_take := None,
                  rc_state := (case res of
                                 Inr _ \<Rightarrow> RecorderIdle
                               | Inl err \<Rightarrow> RecorderFailed (str ''recording could not be finished: '' @ err))\<rparr>))"

definition stop_will_upload :: "('o, 'w) recording_sink \<Rightarrow> ('o, 'w) recorder \<Rightarrow> bool" where
  "stop_will_upload sink rc \<longleftrightarrow> rc_take rc \<noteq> None \<and> rk_uploads sink"

end
