(* ===== verification/RecorderProps.thy ===== *)
theory RecorderProps
  imports Recorder
begin

text \<open>
  What a take holds: under any sink, with any pattern of failing calls, a finished file is the whole FLAC
  stream of its signal, the signals of a take all have the same length, and a take that fails finishes nothing.
  The sink is observed through a wrapper that notes what each object was given and how it ended.
\<close>

section \<open>An observed sink\<close>

datatype ending = EndFinished | EndRefused | EndAborted | EndDropped

type_synonym 'o seen = "'o \<times> bytes \<times> bytes"  \<comment> \<open>the object, its name, the bytes it took\<close>

type_synonym endings = "(bytes \<times> bytes \<times> ending) list"

definition observed ::
  "('o, 'w) recording_sink \<Rightarrow> ('o seen, 'w \<times> endings) recording_sink" where
  "observed sink =
     \<lparr>rk_open = (\<lambda>name (w, l). case rk_open sink name w of
         (Inl err, w1) \<Rightarrow> (Inl err, w1, l)
       | (Inr ob, w1) \<Rightarrow> (Inr (ob, name, []), w1, l)),
      rk_uploads = rk_uploads sink,
      rk_write = (\<lambda>chunk ((ob, name, b), (w, l)). case rk_write sink chunk (ob, w) of
         (Inl err, ob1, w1) \<Rightarrow> (Inl err, (ob1, name, b), w1, l)
       | (Inr _, ob1, w1) \<Rightarrow> (Inr (), (ob1, name, b @ chunk), w1, l)),
      rk_finish = (\<lambda>(ob, name, b) (w, l). case rk_finish sink ob w of
         (Inl err, w1) \<Rightarrow> (Inl err, w1, l @ [(name, b, EndRefused)])
       | (Inr _, w1) \<Rightarrow> (Inr (), w1, l @ [(name, b, EndFinished)])),
      rk_abort = (\<lambda>(ob, name, b) (w, l). (rk_abort sink ob w, l @ [(name, b, EndAborted)])),
      rk_drop = (\<lambda>(ob, name, b) (w, l). (rk_drop sink ob w, l @ [(name, b, EndDropped)]))\<rparr>"

text \<open>Nothing finished is in the list.\<close>

definition nothing_finished :: "endings \<Rightarrow> bool" where
  "nothing_finished l \<longleftrightarrow> (\<forall>e \<in> set l. snd (snd e) \<noteq> EndFinished)"

lemma nothing_finished_simps [simp]:
  "nothing_finished []" "nothing_finished (l @ l') \<longleftrightarrow> nothing_finished l \<and> nothing_finished l'"
  "nothing_finished [e] \<longleftrightarrow> snd (snd e) \<noteq> EndFinished"
  by (auto simp: nothing_finished_def)

section \<open>Tracks\<close>

definition track_holds :: "record_env \<Rightarrow> int list \<Rightarrow> bytes \<Rightarrow> 'o seen track \<Rightarrow> bool" where
  "track_holds env xs name t \<longleftrightarrow>
     (\<exists>h b. flac_header (re_flac env) = Inr h \<and> flac_encoded (re_flac env) xs b (tk_enc t) \<and> snd (tk_object t) = (name, h @ b))"

lemma observed_write:
  assumes "track_write (observed sink) chunk (t, w, l) = (res, t', w', l')"
  shows "l' = l" "tk_enc t' = tk_enc t" "fst (snd (tk_object t')) = fst (snd (tk_object t))"
    "is_ok res \<Longrightarrow> snd (snd (tk_object t')) = snd (snd (tk_object t)) @ chunk"
  using assms
  by (auto simp: track_write_def observed_def is_ok_def split: prod.splits sum.splits)

lemma track_push_holds:
  assumes "track_push env (observed sink) samples (t, w, l) = (res, t', w', l')"
  shows "l' = l"
    and "is_ok res \<Longrightarrow> track_holds env xs name t \<Longrightarrow> track_holds env (xs @ map (to_i16 (re_fp env)) samples) name t'"
proof -
  show "l' = l"
    using assms
    by (auto simp: track_push_def split: prod.splits sum.splits if_splits dest: observed_write(1))
  assume ok: "is_ok res" and holds: "track_holds env xs name t"
  then obtain h b where h: "flac_header (re_flac env) = Inr h" and enc: "flac_encoded (re_flac env) xs b (tk_enc t)"
    and ob: "snd (tk_object t) = (name, h @ b)" by (auto simp: track_holds_def)
  obtain u out enc' where push: "flac_push (re_flac env) (re_fp env) samples [] (tk_enc t) = (Inr u, out, enc')"
    using assms ok by (auto simp: track_push_def is_ok_def split: prod.splits sum.splits)
  have enc': "flac_encoded (re_flac env) (xs @ map (to_i16 (re_fp env)) samples) (b @ out) enc'"
    using flac_push_extends [OF enc push] by auto
  show "track_holds env (xs @ map (to_i16 (re_fp env)) samples) name t'"
  proof (cases "out = []")
    case True
    then have "t' = t\<lparr>tk_enc := enc'\<rparr>" using assms push by (simp add: track_push_def)
    then show ?thesis using enc' h ob True by (auto simp: track_holds_def)
  next
    case False
    then have wr: "track_write (observed sink) out (t\<lparr>tk_enc := enc'\<rparr>, w, l) = (res, t', w', l')"
      using assms push by (simp add: track_push_def)
    have "snd (tk_object t') = (name, (h @ b) @ out)"
      using observed_write(3,4) [OF wr] ok ob by (auto simp: prod_eq_iff)
    then show ?thesis using enc' h observed_write(2) [OF wr] by (auto simp: track_holds_def)
  qed
qed

text \<open>Writes one after the other.\<close>

lemma observed_writes:
  "foldl (\<lambda>st chunk. try_then st (\<lambda>_. track_write (observed sink) chunk)) (Inr (), t, w, l) chunks = (res, t', w', l') \<Longrightarrow>
   l' = l \<and> (is_ok res \<longrightarrow> tk_enc t' = tk_enc t \<and> fst (snd (tk_object t')) = fst (snd (tk_object t)) \<and>
     snd (snd (tk_object t')) = snd (snd (tk_object t)) @ concat chunks)"
proof (induction chunks arbitrary: t w l)
  case (Cons c cs)
  obtain r t1 w1 l1 where wr: "track_write (observed sink) c (t, w, l) = (r, t1, w1, l1)" by (metis prod_cases4)
  have stuck: "foldl (\<lambda>st chunk. try_then st (\<lambda>_. track_write (observed sink) chunk)) (Inl err, st) cs = (Inl err, st)"
    for err :: bytes and st :: "'a seen track \<times> 'b \<times> endings"
    by (induction cs) simp_all
  show ?case
  proof (cases r)
    case (Inl err)
    then show ?thesis using Cons.prems wr observed_write(1) [OF wr] by (auto simp: stuck is_ok_def)
  next
    case (Inr u)
    then show ?thesis
      using Cons.IH [of t1 w1 l1] Cons.prems wr observed_write [OF wr] by (auto simp: is_ok_def)
  qed
qed (auto simp: is_ok_def)

lemma track_start_holds:
  assumes "track_start env (observed sink) enc head (ob, name, []) (w, l) = (res, w', l')"
  shows "nothing_finished l \<Longrightarrow> nothing_finished l'"
    and "res = Inr t \<Longrightarrow> l' = l"
    and "res = Inr t \<Longrightarrow> flac_encoded (re_flac env) xs (concat head) enc \<Longrightarrow> track_holds env xs name t"
proof -
  have "(nothing_finished l \<longrightarrow> nothing_finished l') \<and> (\<forall>t. res = Inr t \<longrightarrow> l' = l \<and>
      (flac_encoded (re_flac env) xs (concat head) enc \<longrightarrow> track_holds env xs name t))"
  proof (cases "flac_header (re_flac env)")
    case (Inl err)
    then show ?thesis using assms by (auto simp: track_start_def observed_def)
  next
    case (Inr h)
    obtain r t1 w1 l1 where fold: "foldl (\<lambda>st chunk. try_then st (\<lambda>_. track_write (observed sink) chunk))
        (Inr (), \<lparr>tk_enc = enc, tk_object = (ob, name, [])\<rparr>, w, l) (h # head) = (r, t1, w1, l1)"
      by (metis prod_cases4)
    note f = observed_writes [OF fold]
    show ?thesis
    proof (cases r)
      case (Inl err)
      then show ?thesis
        using assms unfolding track_start_def \<open>flac_header (re_flac env) = Inr h\<close> sum.case fold prod.case Inl
        using f by (cases "tk_object t1") (auto simp: observed_def)
    next
      case (Inr u)
      have t1: "res = Inr t1" "l1 = l'"
        using assms unfolding track_start_def \<open>flac_header (re_flac env) = Inr h\<close> sum.case fold prod.case Inr by simp_all
      then have "l' = l" "tk_enc t1 = enc" "snd (tk_object t1) = (name, h @ concat head)"
        using f Inr by (auto simp: is_ok_def prod_eq_iff)
      note this t1
      then show ?thesis using \<open>flac_header (re_flac env) = Inr h\<close> by (auto simp: track_holds_def)
    qed
  qed
  then show "nothing_finished l \<Longrightarrow> nothing_finished l'" "res = Inr t \<Longrightarrow> l' = l"
    "res = Inr t \<Longrightarrow> flac_encoded (re_flac env) xs (concat head) enc \<Longrightarrow> track_holds env xs name t"
    by blast+
qed

text \<open>Opening, with a head or without: the object is fresh.\<close>

lemma open_started:
  assumes "try_then (rk_open (observed sink) file (w, l)) (track_start env (observed sink) enc head) = (res, w', l')"
  shows "nothing_finished l \<Longrightarrow> nothing_finished l'"
    and "res = Inr t \<Longrightarrow> l' = l"
    and "res = Inr t \<Longrightarrow> flac_encoded (re_flac env) xs (concat head) enc \<Longrightarrow> track_holds env xs file t"
proof -
  consider (bad) err w1 where "rk_open (observed sink) file (w, l) = (Inl err, w1, l)"
    | (good) ob w1 where "rk_open (observed sink) file (w, l) = (Inr (ob, file, []), w1, l)"
    by (cases "rk_open sink file w"; cases "fst (rk_open sink file w)") (auto simp: observed_def)
  then have "(nothing_finished l \<longrightarrow> nothing_finished l') \<and> (\<forall>t. res = Inr t \<longrightarrow> l' = l \<and>
      (flac_encoded (re_flac env) xs (concat head) enc \<longrightarrow> track_holds env xs file t))"
  proof cases
    case bad
    then show ?thesis using assms by auto
  next
    case (good ob w1)
    then have start: "track_start env (observed sink) enc head (ob, file, []) (w1, l) = (res, w', l')"
      using assms by simp
    show ?thesis
      using track_start_holds(1) [OF start] track_start_holds(2,3) [OF start] by blast
  qed
  then show "nothing_finished l \<Longrightarrow> nothing_finished l'" "res = Inr t \<Longrightarrow> l' = l"
    "res = Inr t \<Longrightarrow> flac_encoded (re_flac env) xs (concat head) enc \<Longrightarrow> track_holds env xs file t"
    by blast+
qed

section \<open>Silence\<close>

text \<open>What is asked of the multiplication: a zero sample stays zero.\<close>

definition zero_stays :: "record_env \<Rightarrow> bool" where
  "zero_stays env \<longleftrightarrow> fp_mul (re_fp env) 0 0x46FFFE00 = 0"

lemma to_i16_zero: "zero_stays env \<Longrightarrow> to_i16 (re_fp env) 0 = 0"
  by (simp add: zero_stays_def to_i16_def f32_clamp_def f32_less_def f32_rank_def f32_abs_def f32_is_nan_def f32_round_def)

lemma silent_samples:
  "zero_stays env \<Longrightarrow> replicate n 0 @ map (to_i16 (re_fp env)) (replicate m 0) = replicate (n + m) 0"
  by (simp add: to_i16_zero replicate_add)

lemma push_silent_holds:
  assumes "zero_stays env"
  shows "push_silent_ticks env (observed sink) n (t, w, l) = (res, t', w', l') \<Longrightarrow> l' = l \<and>
    (is_ok res \<longrightarrow> track_holds env (replicate k 0) name t \<longrightarrow> track_holds env (replicate (k + TICK_STEREO * n) 0) name t')"
proof (induction n arbitrary: t w l k)
  case (Suc n)
  obtain r t1 w1 l1 where push: "track_push env (observed sink) (replicate TICK_STEREO 0) (t, w, l) = (r, t1, w1, l1)"
    by (metis prod_cases4)
  note p = track_push_holds(1) [OF push]
    track_push_holds(2) [OF push, of "replicate k 0" name, unfolded silent_samples [OF assms]]
  show ?case
  proof (cases r)
    case (Inl err)
    then show ?thesis using Suc.prems push p(1) by (auto simp: is_ok_def)
  next
    case (Inr u)
    then have "push_silent_ticks env (observed sink) n (t1, w1, l1) = (res, t', w', l')" using Suc.prems push by simp
    from Suc.IH [OF this, of "k + TICK_STEREO"] show ?thesis using p Inr by (auto simp: is_ok_def add.assoc)
  qed
qed (auto simp: is_ok_def)

definition silent_holds :: "record_env \<Rightarrow> nat \<Rightarrow> silent_head \<Rightarrow> bool" where
  "silent_holds env n s \<longleftrightarrow>
     flac_encoded (re_flac env) (replicate (TICK_STEREO * n) 0) (sh_bytes s) (sh_enc s) \<and>
     length (sh_frame_ends s) \<le> TICK_STEREO * n div BLOCK_INTERLEAVED \<and>
     (length (sh_frame_ends s) = TICK_STEREO * n div BLOCK_INTERLEAVED \<longrightarrow>
        (if sh_frame_ends s = [] then sh_bytes s = [] else last (sh_frame_ends s) = length (sh_bytes s)))"

lemma silent_holds_new: "silent_holds env 0 silent_head_new"
  by (simp add: silent_holds_def silent_head_new_def flac_encoded_new)

lemma silent_advance_holds:
  assumes "zero_stays env" "silent_holds env n s" "silent_advance env s = (res, s')" "is_ok res"
  shows "silent_holds env (Suc n) s'"
proof -
  let ?k = "TICK_STEREO * n div BLOCK_INTERLEAVED" and ?k' = "TICK_STEREO * Suc n div BLOCK_INTERLEAVED"
  obtain u out enc where push: "flac_push (re_flac env) (re_fp env) (replicate TICK_STEREO 0) [] (sh_enc s) = (Inr u, out, enc)"
    using assms(3,4) by (auto simp: silent_advance_def is_ok_def split: prod.splits sum.splits)
  have old: "flac_encoded (re_flac env) (replicate (TICK_STEREO * n) 0) (sh_bytes s) (sh_enc s)"
    using assms(2) by (simp add: silent_holds_def)
  have new: "flac_encoded (re_flac env) (replicate (TICK_STEREO * Suc n) 0) (sh_bytes s @ out) enc"
    using flac_push_extends [OF old push] silent_samples [OF assms(1), of "TICK_STEREO * n" TICK_STEREO]
    by (auto simp: add.commute)
  have k: "?k \<le> ?k'" by (intro div_le_mono) simp
  have same: "out = []" if "?k' = ?k"
  proof -
    have "block_frames (re_flac env) 0 ?k (replicate (TICK_STEREO * n) 0 @ replicate TICK_STEREO 0) =
        block_frames (re_flac env) 0 ?k (replicate (TICK_STEREO * n) 0)"
      by (rule block_frames_append) simp
    then have "Some (sh_bytes s @ out) = Some (sh_bytes s)"
      using new old that by (simp add: flac_encoded_def replicate_add [symmetric] add.commute)
    then show ?thesis by simp
  qed
  show ?thesis
  proof (cases "out = []")
    case True
    then have "s' = s\<lparr>sh_enc := enc\<rparr>" using assms(3) push by (simp add: silent_advance_def)
    then show ?thesis using assms(2) new True k same unfolding silent_holds_def by auto
  next
    case False
    then have s': "s' = s\<lparr>sh_enc := enc, sh_bytes := sh_bytes s @ out,
        sh_frame_ends := sh_frame_ends s @ [length (sh_bytes s @ out)]\<rparr>"
      using assms(3) push by (simp add: silent_advance_def Let_def)
    have "?k < ?k'" using same False k by linarith
    then show ?thesis using assms(2) new unfolding silent_holds_def s' by simp
  qed
qed

text \<open>The copied head is what encoding the silence gives.\<close>

lemma silent_split_head:
  assumes "silent_holds env n s" "TICK_STEREO * n < 2 ^ 64" "silent_split n s = Some (head, frames, pending)"
  shows "head = sh_bytes s" "resume_silent frames pending = sh_enc s"
proof -
  let ?k = "TICK_STEREO * n div BLOCK_INTERLEAVED"
  have w: "wrap64 (n * TICK_STEREO) = TICK_STEREO * n" using assms(2) by (simp add: mult.commute)
  have fp: "frames = ?k" "pending = TICK_STEREO * n mod BLOCK_INTERLEAVED"
    using assms(3) by (auto simp: silent_split_def w Let_def split: option.splits)
  have enc: "flac_encoded (re_flac env) (replicate (TICK_STEREO * n) 0) (sh_bytes s) (sh_enc s)"
    using assms(1) by (simp add: silent_holds_def)
  show "resume_silent frames pending = sh_enc s" unfolding fp by (rule flac_encoded_resume [OF enc])
  show "head = sh_bytes s"
  proof (cases ?k)
    case 0
    then have "sh_bytes s = []" using enc by (simp add: flac_encoded_def)
    then show ?thesis using assms(3) 0 by (simp add: silent_split_def w)
  next
    case (Suc j)
    then have j: "j < length (sh_frame_ends s)" "head = take (sh_frame_ends s ! j) (sh_bytes s)"
      using assms(3) by (auto simp: silent_split_def w split: if_splits)
    then have "length (sh_frame_ends s) = ?k" using assms(1) Suc by (simp add: silent_holds_def)
    then have "last (sh_frame_ends s) = length (sh_bytes s)" "last (sh_frame_ends s) = sh_frame_ends s ! j"
      using assms(1) j(1) Suc by (auto simp: silent_holds_def last_conv_nth split: if_splits)
    then show ?thesis using j(2) by simp
  qed
qed

section \<open>Stems\<close>

definition stems_hold :: "record_env \<Rightarrow> (member_id \<Rightarrow> int list) \<Rightarrow> 'o seen rec_take \<Rightarrow> bool" where
  "stems_hold env sig t \<longleftrightarrow> (\<forall>m tr. stem_of t m = Some tr \<longrightarrow> (\<exists>f. track_holds env (sig m) f tr))"

text \<open>A step that touches no part of a take but its stems and their names.\<close>

definition stems_only :: "'o rec_take \<Rightarrow> 'o rec_take \<Rightarrow> bool" where
  "stems_only t t' \<longleftrightarrow> te_mix t' = te_mix t \<and> te_silence t' = te_silence t \<and> te_ticks t' = te_ticks t \<and>
     te_base t' = te_base t \<and> (te_stems t' = None \<longleftrightarrow> te_stems t = None)"

lemma stems_only_refl [simp]: "stems_only t t"
  by (simp add: stems_only_def)

lemma stems_only_trans: "stems_only t t' \<Longrightarrow> stems_only t' t'' \<Longrightarrow> stems_only t t''"
  by (simp add: stems_only_def)

lemma stem_of_put: "te_stems t \<noteq> None \<Longrightarrow> stem_of (put_stem m tr t) = (stem_of t)(m \<mapsto> tr)"
  by (auto simp: stem_of_def put_stem_def)

lemma put_stem_only: "stems_only t (put_stem m tr t)"
  by (simp add: stems_only_def put_stem_def)

lemma stem_on: "stem_of t m = Some tr \<Longrightarrow> te_stems t \<noteq> None"
  by (auto simp: stem_of_def bind_eq_Some_conv)

lemma push_stem_track_holds:
  assumes "push_stem_track env (observed sink) m samples (t, w, l) = (res, t', w', l')" "stem_of t m \<noteq> None"
  shows "l' = l" "stems_only t t'" "dom (stem_of t') = dom (stem_of t)"
    and "is_ok res \<Longrightarrow> stems_hold env sig t \<Longrightarrow>
      stems_hold env (sig(m := sig m @ map (to_i16 (re_fp env)) samples)) t'"
proof -
  obtain tr where tr: "stem_of t m = Some tr" using assms(2) by auto
  obtain r tr' w1 l1 where push: "track_push env (observed sink) samples (tr, w, l) = (r, tr', w1, l1)"
    by (metis prod_cases4)
  have eq: "res = r" "t' = put_stem m tr' t" "l' = l1" using assms(1) tr push by (auto simp: push_stem_track_def)
  note put = stem_of_put [OF stem_on [OF tr], of m tr']
  show "l' = l" using eq track_push_holds(1) [OF push] by simp
  show "stems_only t t'" using eq by (simp add: put_stem_only)
  show "dom (stem_of t') = dom (stem_of t)" using tr by (auto simp: eq put)
  assume ok: "is_ok res" and hold: "stems_hold env sig t"
  then obtain f where "track_holds env (sig m) f tr" using tr by (auto simp: stems_hold_def)
  then have "track_holds env (sig m @ map (to_i16 (re_fp env)) samples) f tr'"
    using track_push_holds(2) [OF push] ok eq by simp
  then show "stems_hold env (sig(m := sig m @ map (to_i16 (re_fp env)) samples)) t'"
    using hold by (auto simp: stems_hold_def eq put)
qed

lemma open_silent_holds:
  assumes "zero_stays env" "open_silent env (observed sink) file n (w, l) = (res, w', l')"
  shows "nothing_finished l \<Longrightarrow> nothing_finished l'"
    and "res = Inr t \<Longrightarrow> l' = l \<and> track_holds env (replicate (TICK_STEREO * n) 0) file t"
proof -
  obtain r w1 l1 where op: "track_open env (observed sink) file (w, l) = (r, w1, l1)" by (metis prod_cases3)
  note o1 = open_started(1,2) [OF op [unfolded track_open_def]]
    and o3 = open_started(3) [OF op [unfolded track_open_def], of _ "[]"]
  have "(nothing_finished l \<longrightarrow> nothing_finished l') \<and>
      (\<forall>t. res = Inr t \<longrightarrow> l' = l \<and> track_holds env (replicate (TICK_STEREO * n) 0) file t)"
  proof (cases r)
    case (Inl err)
    then show ?thesis using assms(2) op o1(1) by (auto simp: open_silent_def)
  next
    case (Inr t0)
    then have t0: "l1 = l" "track_holds env [] file t0" using o1(2) [OF Inr] o3 [OF Inr] by (simp_all add: flac_encoded_new)
    obtain q t1 w2 l2 where push: "push_silent_ticks env (observed sink) n (t0, w1, l1) = (q, t1, w2, l2)"
      by (metis prod_cases4)
    note p = push_silent_holds [OF assms(1) push, of 0 "file"]
    show ?thesis
      using assms(2) op Inr push p t0
      by (cases q; cases "tk_object t1") (auto simp: open_silent_def observed_def is_ok_def)
  qed
  then show "nothing_finished l \<Longrightarrow> nothing_finished l'"
    "res = Inr t \<Longrightarrow> l' = l \<and> track_holds env (replicate (TICK_STEREO * n) 0) file t" by blast+
qed

text \<open>A stem that opens late holds the silence up to now, copied or encoded.\<close>

definition take_silence :: "record_env \<Rightarrow> 'o rec_take \<Rightarrow> bool" where
  "take_silence env t \<longleftrightarrow> TICK_STEREO * te_ticks t < 2 ^ 64 \<and> te_stems t \<noteq> None \<and>
     (\<forall>s. te_silence t = Some s \<longrightarrow> silent_holds env (te_ticks t) s)"

lemma take_silence_only: "stems_only t t' \<Longrightarrow> take_silence env t \<Longrightarrow> take_silence env t'"
  by (simp add: take_silence_def stems_only_def)

lemma open_stem_holds:
  assumes "zero_stays env" "take_silence env t" "open_stem env (observed sink) m (t, w, l) = (res, t', w', l')"
  shows "nothing_finished l \<Longrightarrow> nothing_finished l'"
    and "is_ok res \<Longrightarrow> l' = l \<and> stems_only t t' \<and> (\<exists>tr f. stem_of t' = (stem_of t)(m \<mapsto> tr) \<and>
      track_holds env (replicate (TICK_STEREO * te_ticks t) 0) f tr)"
proof -
  define name where "name = stem_name (re_alnum env) (te_roster t) (te_names t) m"
  define fl where "fl = stem_file t name"
  define op where "op = (case Option.bind (te_silence t) (silent_split (te_ticks t)) of
      Some (b, frames, pending) \<Rightarrow> open_with_head env (observed sink) fl b frames pending (w, l)
    | None \<Rightarrow> open_silent env (observed sink) fl (te_ticks t) (w, l))"
  obtain r w1 l1 where op3: "op = (r, w1, l1)" by (metis prod_cases3)
  have "(res, t', w', l') = (case op of (Inl err, w1) \<Rightarrow> (Inl err, t, w1)
      | (Inr track, w1) \<Rightarrow> (Inr (), put_stem m track (t\<lparr>te_names := te_names t @ [name]\<rparr>), w1))"
    using assms(3) unfolding open_stem_def Let_def op_def fl_def name_def by simp
  note ev = this [unfolded op3]
  have opened: "(nothing_finished l \<longrightarrow> nothing_finished l1) \<and>
      (\<forall>tr. r = Inr tr \<longrightarrow> l1 = l \<and> track_holds env (replicate (TICK_STEREO * te_ticks t) 0) fl tr)"
  proof (cases "Option.bind (te_silence t) (silent_split (te_ticks t))")
    case None
    then have "open_silent env (observed sink) fl (te_ticks t) (w, l) = (r, w1, l1)" using op3 by (simp add: op_def)
    from open_silent_holds [OF assms(1) this] show ?thesis by blast
  next
    case (Some x)
    obtain b frames pending where x: "x = (b, frames, pending)" by (rule prod_cases3)
    obtain s where s: "te_silence t = Some s" "silent_split (te_ticks t) s = Some (b, frames, pending)"
      using Some unfolding x bind_eq_Some_conv by blast
    have sil: "silent_holds env (te_ticks t) s" "TICK_STEREO * te_ticks t < 2 ^ 64"
      using assms(2) s by (simp_all add: take_silence_def)
    note head = silent_split_head [OF sil s(2)]
    have "open_with_head env (observed sink) fl b frames pending (w, l) = (r, w1, l1)"
      using op3 unfolding op_def Some x by simp
    note o = open_started [OF this [unfolded open_with_head_def]]
    have "flac_encoded (re_flac env) (replicate (TICK_STEREO * te_ticks t) 0) (concat [b]) (resume_silent frames pending)"
      using sil(1) by (simp add: head silent_holds_def)
    then show ?thesis using o by blast
  qed
  have on: "te_stems (t\<lparr>te_names := te_names t @ [name]\<rparr>) \<noteq> None" using assms(2) by (simp add: take_silence_def)
  show "nothing_finished l \<Longrightarrow> nothing_finished l'" using ev opened by (cases r) simp_all
  assume "is_ok res"
  then obtain tr where tr: "r = Inr tr" "t' = put_stem m tr (t\<lparr>te_names := te_names t @ [name]\<rparr>)" "l' = l1"
    using ev by (cases r) (simp_all add: is_ok_def)
  have "stem_of (t\<lparr>te_names := te_names t @ [name]\<rparr>) = stem_of t" by (simp add: stem_of_def fun_eq_iff)
  then have "stem_of t' = (stem_of t)(m \<mapsto> tr)" unfolding tr(2) stem_of_put [OF on] by simp
  moreover have "stems_only t t'" by (simp add: tr(2) stems_only_def put_stem_def)
  ultimately show "l' = l \<and> stems_only t t' \<and> (\<exists>tr f. stem_of t' = (stem_of t)(m \<mapsto> tr) \<and>
      track_holds env (replicate (TICK_STEREO * te_ticks t) 0) f tr)"
    using opened tr by blast
qed

section \<open>One tick\<close>

definition contribution :: "record_env \<Rightarrow> (member_id \<times> fader \<times> f32 list) list \<Rightarrow> member_id \<Rightarrow> int list option" where
  "contribution env stems m =
     map_option (\<lambda>(fader, pcm). map (to_i16 (re_fp env)) (mix_into (re_fp env) [(m, pcm)] (\<lambda>_. fader) None TICK_STEREO))
       (map_of stems m)"

text \<open>What a tick adds to a member's stem.\<close>

definition stem_tick :: "record_env \<Rightarrow> record_payload \<Rightarrow> member_id \<Rightarrow> int list" where
  "stem_tick env p m = (case contribution env (rp_stems p) m of None \<Rightarrow> replicate TICK_STEREO 0 | Some xs \<Rightarrow> xs)"

definition stem_signal :: "record_env \<Rightarrow> record_payload list \<Rightarrow> member_id \<Rightarrow> int list" where
  "stem_signal env ps m = concat (map (\<lambda>p. stem_tick env p m) ps)"

definition mix_signal :: "record_env \<Rightarrow> record_payload list \<Rightarrow> int list" where
  "mix_signal env ps = concat (map (\<lambda>p. map (to_i16 (re_fp env)) (rp_mix p)) ps)"

definition recorded_members :: "record_payload list \<Rightarrow> member_id set" where
  "recorded_members ps = (\<Union>p \<in> set ps. set (map fst (rp_stems p)))"

lemma length_stem_tick: "length (stem_tick env p m) = TICK_STEREO"
  by (auto simp: stem_tick_def contribution_def split: option.splits)

lemma length_stem_signal: "length (stem_signal env ps m) = TICK_STEREO * length ps"
  by (induction ps) (simp_all add: stem_signal_def length_stem_tick)

lemma stem_signal_absent: "m \<notin> recorded_members ps \<Longrightarrow> stem_signal env ps m = replicate (TICK_STEREO * length ps) 0"
proof (induction ps)
  case (Cons p ps)
  then have "map_of (rp_stems p) m = None" by (auto simp: recorded_members_def map_of_eq_None_iff)
  then show ?case
    using Cons by (simp add: stem_signal_def recorded_members_def stem_tick_def contribution_def replicate_add [symmetric])
qed (simp add: stem_signal_def)

lemma feed_stems_holds:
  assumes "zero_stays env"
  shows "feed_stems env (observed sink) xs (t, w, l) = (res, t', w', l') \<Longrightarrow> take_silence env t \<Longrightarrow>
    stems_hold env sig t \<Longrightarrow> distinct (map fst xs) \<Longrightarrow>
    (\<And>m. m \<in> set (map fst xs) \<Longrightarrow> stem_of t m = None \<Longrightarrow> sig m = replicate (TICK_STEREO * te_ticks t) 0) \<Longrightarrow>
    (nothing_finished l \<longrightarrow> nothing_finished l') \<and>
    (is_ok res \<longrightarrow> l' = l \<and> stems_only t t' \<and> dom (stem_of t') = dom (stem_of t) \<union> set (map fst xs) \<and>
      stems_hold env (\<lambda>m. sig m @ (case contribution env xs m of None \<Rightarrow> [] | Some ys \<Rightarrow> ys)) t')"
proof (induction xs arbitrary: t w l sig)
  case Nil
  then show ?case by (auto simp: contribution_def)
next
  case (Cons x xs)
  obtain m fader pcm where x: "x = (m, fader, pcm)" by (metis prod_cases3)
  define samples where "samples = mix_into (re_fp env) [(m, pcm)] (\<lambda>_. fader) None TICK_STEREO"
  define st1 where "st1 = (if stem_of t m = None then open_stem env (observed sink) m (t, w, l) else (Inr (), t, w, l))"
  obtain r1 t1 w1 l1 where st1: "st1 = (r1, t1, w1, l1)" by (metis prod_cases4)
  have first: "(nothing_finished l \<longrightarrow> nothing_finished l1) \<and> (is_ok r1 \<longrightarrow> l1 = l \<and> stems_only t t1 \<and>
      dom (stem_of t1) = insert m (dom (stem_of t)) \<and> stems_hold env sig t1)"
  proof (cases "stem_of t m")
    case None
    then have op: "open_stem env (observed sink) m (t, w, l) = (r1, t1, w1, l1)" using st1 by (simp add: st1_def)
    have sig: "sig m = replicate (TICK_STEREO * te_ticks t) 0" using Cons.prems(5) [of m] None x by simp
    show ?thesis
    proof (intro conjI impI)
      assume "nothing_finished l"
      then show "nothing_finished l1" by (rule open_stem_holds(1) [OF assms Cons.prems(2) op])
    next
      assume "is_ok r1"
      then obtain tr f where o: "l1 = l" "stems_only t t1" "stem_of t1 = (stem_of t)(m \<mapsto> tr)" "track_holds env (sig m) f tr"
        using open_stem_holds(2) [OF assms Cons.prems(2) op] sig by auto
      then show "l1 = l" "stems_only t t1" "dom (stem_of t1) = insert m (dom (stem_of t))" by simp_all
      show "stems_hold env sig t1" using Cons.prems(3) o(3,4) unfolding stems_hold_def by auto
    qed
  next
    case (Some tr)
    then show ?thesis using st1 Cons.prems(3) by (auto simp: st1_def)
  qed
  have run: "(res, t', w', l') = try_then (r1, t1, w1, l1) (\<lambda>_ s1. try_then (push_stem_track env (observed sink) m samples s1)
      (\<lambda>_. feed_stems env (observed sink) xs))"
    using Cons.prems(1) by (simp add: x samples_def st1 [symmetric] st1_def)
  show ?case
  proof (cases r1)
    case (Inl err)
    then show ?thesis using run first by (auto simp: is_ok_def)
  next
    case (Inr u)
    then have f: "l1 = l" "stems_only t t1" "dom (stem_of t1) = insert m (dom (stem_of t))" "stems_hold env sig t1"
      using first by (simp_all add: is_ok_def)
    then have on: "stem_of t1 m \<noteq> None" by auto
    obtain r2 t2 w2 l2 where push: "push_stem_track env (observed sink) m samples (t1, w1, l1) = (r2, t2, w2, l2)"
      by (metis prod_cases4)
    note p = push_stem_track_holds [OF push on]
    show ?thesis
    proof (cases r2)
      case (Inl err)
      then show ?thesis using run push f p \<open>r1 = Inr u\<close> by (auto simp: is_ok_def)
    next
      case (Inr v)
      then have rest: "feed_stems env (observed sink) xs (t2, w2, l2) = (res, t', w', l')" using run push \<open>r1 = Inr u\<close> by simp
      let ?sig = "sig(m := sig m @ map (to_i16 (re_fp env)) samples)"
      have hold: "stems_hold env ?sig t2" using p(4) f(4) Inr by (simp add: is_ok_def)
      have only: "stems_only t t2" using f(2) p(2) by (rule stems_only_trans)
      have fresh: "?sig k = replicate (TICK_STEREO * te_ticks t2) 0"
        if "k \<in> set (map fst xs)" "stem_of t2 k = None" for k
      proof -
        have "k \<notin> dom (stem_of t2)" using that(2) by (simp add: domIff)
        then have "k \<noteq> m" "k \<notin> dom (stem_of t)" unfolding p(3) f(3) by simp_all
        then show ?thesis using Cons.prems(5) [of k] that(1) only x by (simp add: stems_only_def domIff)
      qed
      have IH: "(nothing_finished l2 \<longrightarrow> nothing_finished l') \<and>
          (is_ok res \<longrightarrow> l' = l2 \<and> stems_only t2 t' \<and> dom (stem_of t') = dom (stem_of t2) \<union> set (map fst xs) \<and>
            stems_hold env (\<lambda>k. ?sig k @ (case contribution env xs k of None \<Rightarrow> [] | Some ys \<Rightarrow> ys)) t')"
        by (rule Cons.IH [OF rest take_silence_only [OF only Cons.prems(2)] hold _ fresh]) (use Cons.prems(4) x in simp_all)
      have sig: "(\<lambda>k. ?sig k @ (case contribution env xs k of None \<Rightarrow> [] | Some ys \<Rightarrow> ys)) =
          (\<lambda>k. sig k @ (case contribution env (x # xs) k of None \<Rightarrow> [] | Some ys \<Rightarrow> ys))"
      proof
        fix k
        have "map_of xs m = None" using Cons.prems(4) x by (simp add: map_of_eq_None_iff)
        then show "?sig k @ (case contribution env xs k of None \<Rightarrow> [] | Some ys \<Rightarrow> ys) =
            sig k @ (case contribution env (x # xs) k of None \<Rightarrow> [] | Some ys \<Rightarrow> ys)"
          by (auto simp: contribution_def x samples_def)
      qed
      show ?thesis
        using IH f p only x unfolding sig by (auto intro: stems_only_trans)
    qed
  qed
qed

lemma feed_silence_holds:
  assumes "zero_stays env"
  shows "feed_silence env (observed sink) present ms (t, w, l) = (res, t', w', l') \<Longrightarrow>
    stems_hold env sig t \<Longrightarrow> distinct ms \<Longrightarrow> set ms \<subseteq> dom (stem_of t) \<Longrightarrow>
    l' = l \<and> (is_ok res \<longrightarrow> stems_only t t' \<and> dom (stem_of t') = dom (stem_of t) \<and>
      stems_hold env (\<lambda>m. sig m @ (if m \<in> set ms \<and> m \<notin> set present then replicate TICK_STEREO 0 else [])) t')"
proof (induction ms arbitrary: t w l sig)
  case (Cons m ms)
  show ?case
  proof (cases "m \<in> set present")
    case True
    then have eq: "(\<lambda>k. sig k @ (if k \<in> set ms \<and> k \<notin> set present then replicate TICK_STEREO 0 else [])) =
        (\<lambda>k. sig k @ (if k \<in> set (m # ms) \<and> k \<notin> set present then replicate TICK_STEREO 0 else []))" by auto
    show ?thesis using Cons.IH [of t w l sig, unfolded eq] Cons.prems True by simp
  next
    case False
    obtain r1 t1 w1 l1 where push: "push_stem_track env (observed sink) m (replicate TICK_STEREO 0) (t, w, l) = (r1, t1, w1, l1)"
      by (metis prod_cases4)
    have on: "stem_of t m \<noteq> None" using Cons.prems(4) by auto
    note p = push_stem_track_holds [OF push on]
    show ?thesis
    proof (cases r1)
      case (Inl err)
      then show ?thesis using Cons.prems(1) False push p by (auto simp: is_ok_def)
    next
      case (Inr u)
      let ?sig = "sig(m := sig m @ replicate TICK_STEREO 0)"
      have rest: "feed_silence env (observed sink) present ms (t1, w1, l1) = (res, t', w', l')"
        using Cons.prems(1) False push Inr by simp
      have "stems_hold env ?sig t1"
        using p(4) [of sig] Cons.prems(2) Inr by (simp add: is_ok_def to_i16_zero [OF assms])
      note IH = Cons.IH [OF rest this]
      have eq: "(\<lambda>k. ?sig k @ (if k \<in> set ms \<and> k \<notin> set present then replicate TICK_STEREO 0 else [])) =
          (\<lambda>k. sig k @ (if k \<in> set (m # ms) \<and> k \<notin> set present then replicate TICK_STEREO 0 else []))"
        using Cons.prems(3) False by auto
      show ?thesis
        using IH [unfolded eq] Cons.prems(3,4) p(1-3) by (auto intro: stems_only_trans)
    qed
  qed
qed auto

text \<open>The take after the ticks \<open>ps\<close>.\<close>

definition stems_after :: "record_env \<Rightarrow> record_payload list \<Rightarrow> 'o seen rec_take \<Rightarrow> bool" where
  "stems_after env ps t \<longleftrightarrow>
     te_ticks t = length ps \<and> stems_hold env (stem_signal env ps) t \<and>
     (te_stems t \<noteq> None \<longrightarrow> dom (stem_of t) = recorded_members ps) \<and>
     (\<forall>s. te_silence t = Some s \<longrightarrow> silent_holds env (length ps) s)"

definition take_holds :: "record_env \<Rightarrow> record_payload list \<Rightarrow> 'o seen rec_take \<Rightarrow> bool" where
  "take_holds env ps t \<longleftrightarrow>
     stems_after env ps t \<and> track_holds env (mix_signal env ps) (te_base t @ str ''-mix.flac'') (te_mix t)"

definition tick_ok :: "record_payload \<Rightarrow> bool" where
  "tick_ok p \<longleftrightarrow> length (rp_mix p) = TICK_STEREO \<and> distinct (map fst (rp_stems p))"

lemma set_stem_keys: "te_stems t \<noteq> None \<Longrightarrow> set (stem_keys t) = dom (stem_of t)" "distinct (stem_keys t)"
  by (auto simp: stem_keys_def stem_of_def dom_def set_bm_keys bm_keys_distinct split: option.splits)

lemma push_mix_holds:
  assumes "push_mix env (observed sink) samples (t, w, l) = (res, t', w', l')"
  shows "l' = l" "t' = t\<lparr>te_mix := te_mix t'\<rparr>"
    and "is_ok res \<Longrightarrow> track_holds env xs f (te_mix t) \<Longrightarrow>
      track_holds env (xs @ map (to_i16 (re_fp env)) samples) f (te_mix t')"
proof -
  obtain r tr w1 l1 where push: "track_push env (observed sink) samples (te_mix t, w, l) = (r, tr, w1, l1)"
    by (metis prod_cases4)
  then have eq: "res = r" "t' = t\<lparr>te_mix := tr\<rparr>" "l' = l1" using assms by (auto simp: push_mix_def)
  show "l' = l" "t' = t\<lparr>te_mix := te_mix t'\<rparr>" using eq track_push_holds(1) [OF push] by simp_all
  show "is_ok res \<Longrightarrow> track_holds env xs f (te_mix t) \<Longrightarrow>
      track_holds env (xs @ map (to_i16 (re_fp env)) samples) f (te_mix t')"
    using eq track_push_holds(2) [OF push] by simp
qed

lemma count_tick_holds:
  assumes "zero_stays env" "length ps < 2 ^ 56" "count_tick env (t, w, l) = (res, t', w', l')"
  shows "l' = l" "stem_of t' = stem_of t" "te_mix t' = te_mix t" "te_base t' = te_base t"
    "te_stems t' = te_stems t" "te_ticks t = length ps \<Longrightarrow> te_ticks t' = Suc (length ps)"
    and "is_ok res \<Longrightarrow> (\<forall>s. te_silence t = Some s \<longrightarrow> silent_holds env (length ps) s) \<Longrightarrow>
      te_silence t' = Some s' \<Longrightarrow> silent_holds env (Suc (length ps)) s'"
proof -
  show "l' = l" "stem_of t' = stem_of t" "te_mix t' = te_mix t" "te_base t' = te_base t" "te_stems t' = te_stems t"
    using assms(3) by (auto simp: count_tick_def Let_def stem_of_def fun_eq_iff split: option.splits prod.splits)
  show "te_ticks t' = Suc (length ps)" if "te_ticks t = length ps"
    using assms(2,3) that by (auto simp: count_tick_def Let_def wrap64_def split: option.splits prod.splits)
  show "silent_holds env (Suc (length ps)) s'"
    if "is_ok res" "\<forall>s. te_silence t = Some s \<longrightarrow> silent_holds env (length ps) s" "te_silence t' = Some s'"
    using assms(3) that
    by (auto simp: count_tick_def Let_def split: option.splits prod.splits intro: silent_advance_holds [OF assms(1)])
qed

lemma stem_signal_snoc: "stem_signal env (ps @ [p]) m = stem_signal env ps m @ stem_tick env p m"
  by (simp add: stem_signal_def)

lemma recorded_members_snoc: "recorded_members (ps @ [p]) = recorded_members ps \<union> set (map fst (rp_stems p))"
  by (auto simp: recorded_members_def)

text \<open>Present or not, a member's stem gets its tick.\<close>

lemma stem_tick_split:
  "(case contribution env (rp_stems p) m of None \<Rightarrow> [] | Some ys \<Rightarrow> ys) @
   (if m \<notin> set (map fst (rp_stems p)) then replicate TICK_STEREO 0 else []) = stem_tick env p m"
proof (cases "m \<in> set (map fst (rp_stems p))")
  case True
  then obtain v where "map_of (rp_stems p) m = Some v" by (metis map_of_eq_None_iff not_Some_eq set_map)
  then show ?thesis using True by (simp add: stem_tick_def contribution_def)
next
  case False
  then have "map_of (rp_stems p) m = None" by (simp add: map_of_eq_None_iff)
  then show ?thesis using False by (simp add: stem_tick_def contribution_def)
qed

lemma feed_all_stems_holds:
  assumes zero: "zero_stays env" and hold: "stems_after env ps t" and len: "length ps < 2 ^ 56" and ok: "tick_ok p"
    and run: "feed_all_stems env (observed sink) (rp_stems p) (t, w, l) = (res, t', w', l')"
  shows "(nothing_finished l \<longrightarrow> nothing_finished l') \<and> (is_ok res \<longrightarrow> l' = l \<and> stems_only t t' \<and>
      stems_hold env (stem_signal env (ps @ [p])) t' \<and>
      (te_stems t' \<noteq> None \<longrightarrow> dom (stem_of t') = recorded_members (ps @ [p])))"
proof (cases "te_stems t")
  case None
  then have "stem_of t = (\<lambda>_. None)" by (simp add: stem_of_def fun_eq_iff)
  then show ?thesis using run None by (auto simp: feed_all_stems_def stems_hold_def)
next
  case (Some stems)
  obtain r2 t2 w2 l2 where feed: "feed_stems env (observed sink) (rp_stems p) (t, w, l) = (r2, t2, w2, l2)"
    by (metis prod_cases4)
  have sil: "take_silence env t" using hold len Some by (simp add: take_silence_def stems_after_def)
  have s1: "stems_hold env (stem_signal env ps) t" "dom (stem_of t) = recorded_members ps"
    using hold Some by (simp_all add: stems_after_def)
  have fresh: "stem_signal env ps k = replicate (TICK_STEREO * te_ticks t) 0" if "stem_of t k = None" for k
  proof -
    have "k \<notin> recorded_members ps" using that s1(2) by (auto simp: domIff)
    then show ?thesis using hold by (simp add: stem_signal_absent stems_after_def)
  qed
  have dist: "distinct (map fst (rp_stems p))" using ok by (simp add: tick_ok_def)
  note f = feed_stems_holds [OF zero feed sil s1(1) dist fresh]
  show ?thesis
  proof (cases r2)
    case (Inl err)
    then show ?thesis using f run feed Some by (auto simp: feed_all_stems_def is_ok_def)
  next
    case (Inr u)
    let ?sig = "\<lambda>m. stem_signal env ps m @ (case contribution env (rp_stems p) m of None \<Rightarrow> [] | Some ys \<Rightarrow> ys)"
    let ?sig' = "\<lambda>m. ?sig m @ (if m \<in> set (stem_keys t2) \<and> m \<notin> set (map fst (rp_stems p)) then replicate TICK_STEREO 0 else [])"
    have f2: "l2 = l" "stems_only t t2" "dom (stem_of t2) = recorded_members (ps @ [p])" "stems_hold env ?sig t2"
      using f Inr s1(2) by (simp_all add: is_ok_def recorded_members_snoc)
    have rest: "feed_silence env (observed sink) (map fst (rp_stems p)) (stem_keys t2) (t2, w2, l2) = (res, t', w', l')"
      using run feed Some Inr by (simp add: feed_all_stems_def)
    have keys: "set (stem_keys t2) = dom (stem_of t2)"
      using f2(2) Some by (intro set_stem_keys(1)) (simp add: stems_only_def)
    have q: "l' = l2 \<and> (is_ok res \<longrightarrow> stems_only t2 t' \<and> dom (stem_of t') = dom (stem_of t2) \<and> stems_hold env ?sig' t')"
      by (rule feed_silence_holds [OF zero rest f2(4) set_stem_keys(2)]) (simp add: keys)
    have "?sig' k = stem_signal env (ps @ [p]) k" if "k \<in> dom (stem_of t2)" for k
      using that stem_tick_split [of env p k] by (simp add: keys stem_signal_snoc)
    then have "stems_hold env (stem_signal env (ps @ [p])) t'"
      if "stems_hold env ?sig' t'" "dom (stem_of t') = dom (stem_of t2)"
      using that unfolding stems_hold_def by (metis domI)
    then show ?thesis using q f2 by (auto intro: stems_only_trans)
  qed
qed

lemma feed_take_holds:
  assumes zero: "zero_stays env" and hold: "take_holds env ps t" and len: "length ps < 2 ^ 56" and ok: "tick_ok p"
    and run: "feed_take env (observed sink) p (t, w, l) = (res, t', w', l')"
  shows "(nothing_finished l \<longrightarrow> nothing_finished l') \<and> (is_ok res \<longrightarrow> l' = l \<and> take_holds env (ps @ [p]) t' \<and>
      te_base t' = te_base t \<and> (te_stems t' = None \<longleftrightarrow> te_stems t = None))"
proof -
  obtain r1 t1 w1 l1 where mix: "push_mix env (observed sink) (rp_mix p) (t, w, l) = (r1, t1, w1, l1)"
    by (metis prod_cases4)
  note m = push_mix_holds [OF mix]
  obtain tm where tm: "t1 = t\<lparr>te_mix := tm\<rparr>" using m(2) by blast
  have same: "stem_of t1 = stem_of t" by (simp add: tm stem_of_def fun_eq_iff)
  obtain r3 t3 w3 l3 where st3: "feed_all_stems env (observed sink) (rp_stems p) (t1, w1, l1) = (r3, t3, w3, l3)"
    by (metis prod_cases4)
  show ?thesis
  proof (cases r1)
    case (Inl err)
    then show ?thesis using run mix m(1) by (auto simp: feed_take_def is_ok_def)
  next
    case (Inr u)
    let ?ps = "ps @ [p]"
    have m1: "track_holds env (mix_signal env ?ps) (te_base t @ str ''-mix.flac'') (te_mix t1)"
      using m(3) hold Inr by (simp add: is_ok_def mix_signal_def take_holds_def)
    have run3: "(res, t', w', l') = try_then (r3, t3, w3, l3) (\<lambda>_. count_tick env)"
      using run mix st3 Inr by (simp add: feed_take_def)
    have fed: "(nothing_finished l1 \<longrightarrow> nothing_finished l3) \<and> (is_ok r3 \<longrightarrow> l3 = l1 \<and> stems_only t1 t3 \<and>
        stems_hold env (stem_signal env ?ps) t3 \<and> (te_stems t3 \<noteq> None \<longrightarrow> dom (stem_of t3) = recorded_members ?ps))"
      by (rule feed_all_stems_holds [OF zero _ len ok st3])
        (use hold in \<open>simp add: tm take_holds_def stems_after_def stems_hold_def same [unfolded tm]\<close>)
    show ?thesis
    proof (cases r3)
      case (Inl err)
      then show ?thesis using run3 m(1) fed by (auto simp: is_ok_def)
    next
      case (Inr v)
      then have count: "count_tick env (t3, w3, l3) = (res, t', w', l')" using run3 by simp
      note c = count_tick_holds [OF zero len count]
      have s: "l3 = l1" "stems_only t1 t3" "stems_hold env (stem_signal env ?ps) t3"
        "te_stems t3 \<noteq> None \<longrightarrow> dom (stem_of t3) = recorded_members ?ps"
        using fed Inr by (simp_all add: is_ok_def)
      have t3: "te_mix t3 = te_mix t1" "te_base t3 = te_base t" "te_ticks t3 = length ps" "te_silence t3 = te_silence t"
        "te_stems t3 = None \<longleftrightarrow> te_stems t = None"
        using s(2) hold by (simp_all add: tm stems_only_def take_holds_def stems_after_def)
      have "take_holds env ?ps t'" if "is_ok res"
      proof -
        have "\<forall>s. te_silence t' = Some s \<longrightarrow> silent_holds env (length ?ps) s"
          using c(7) [OF that] hold t3(4) by (simp add: take_holds_def stems_after_def)
        then show ?thesis using c(2-5) c(6) [OF t3(3)] s t3 m1 by (simp add: take_holds_def stems_after_def stems_hold_def)
      qed
      then show ?thesis using c(1,4,5) s(1) m(1) t3 by simp
    qed
  qed
qed

end
