(* ===== verification/RecorderClaims.thy ===== *)
theory RecorderClaims
  imports RecorderProps
begin

text \<open>
  The properties of a take: what its files hold when it ends well, that a failed take finishes nothing, and
  that a take ends well when nothing under it fails.
\<close>

section \<open>Finishing\<close>

lemma track_finish_holds:
  assumes "track_holds env xs f t" "track_finish env (observed sink) t (w, l) = (res, w', l')"
  shows "\<exists>b e. l' = l @ [(f, b, e)] \<and> (is_ok res \<longleftrightarrow> e = EndFinished) \<and>
    (e = EndFinished \<longrightarrow> flac_file (re_flac env) xs = Some b)"
proof -
  obtain h b where h: "flac_header (re_flac env) = Inr h" and enc: "flac_encoded (re_flac env) xs b (tk_enc t)"
    and "snd (tk_object t) = (f, h @ b)" using assms(1) by (auto simp: track_holds_def)
  then obtain ob where ob: "tk_object t = (ob, f, h @ b)" by (metis prod.collapse)
  obtain r out enc' where fin: "flac_finish (re_flac env) [] (tk_enc t) = (r, out, enc')" by (metis prod_cases3)
  show ?thesis
  proof (cases r)
    case (Inl err)
    then show ?thesis using assms(2) fin ob by (auto simp: track_finish_def observed_def is_ok_def)
  next
    case (Inr u)
    then have whole: "flac_file (re_flac env) xs = Some ((h @ b) @ out)" using flac_finish_file [OF enc h] fin by simp
    define wr where "wr = (if out \<noteq> [] then rk_write (observed sink) out (tk_object t, w, l) else (Inr (), tk_object t, w, l))"
    have ev: "(res, w', l') = (case wr of (Inl err, ob, w1) \<Rightarrow> (Inl err, rk_drop (observed sink) ob w1)
        | (Inr _, ob, w1) \<Rightarrow> rk_finish (observed sink) ob w1)"
      using assms(2) fin Inr by (simp add: track_finish_def wr_def)
    consider (bad) err ob1 b1 w1 where "wr = (Inl err, (ob1, f, b1), w1, l)"
      | (good) ob1 w1 where "wr = (Inr (), (ob1, f, (h @ b) @ out), w1, l)"
    proof (cases "out = []")
      case True
      then show thesis using good by (simp add: wr_def ob)
    next
      case False
      obtain q ob1 w1 where "rk_write sink out (ob, w) = (q, ob1, w1)" by (metis prod_cases3)
      then show thesis using False good bad by (cases q) (simp_all add: wr_def ob observed_def)
    qed
    then show ?thesis
    proof cases
      case (bad err ob1 b1 w1)
      then show ?thesis using ev by (auto simp: observed_def is_ok_def)
    next
      case (good ob1 w1)
      then show ?thesis using ev whole by (auto simp: observed_def is_ok_def split: prod.splits sum.splits)
    qed
  qed
qed

text \<open>What one file of a finished take is.\<close>

definition whole_file :: "record_env \<Rightarrow> int list \<Rightarrow> bytes \<times> bytes \<times> ending \<Rightarrow> bool" where
  "whole_file env xs e \<longleftrightarrow> flac_file (re_flac env) xs = Some (fst (snd e)) \<and> snd (snd e) = EndFinished"

lemma finish_tracks_error: "\<not> is_ok res \<Longrightarrow> \<not> is_ok (fst (finish_tracks env sink ts res w))"
proof (induction ts arbitrary: res w)
  case (Cons t ts)
  obtain err where "res = Inl err" using Cons.prems by (cases res) (auto simp: is_ok_def)
  then show ?case using Cons.IH [of "Inl err"] by (auto simp: is_ok_def split: prod.splits)
qed simp

lemma finish_tracks_whole:
  "list_all2 (\<lambda>(xs, f) t. track_holds env xs f t) sigs ts \<Longrightarrow>
   finish_tracks env (observed sink) ts res (w, l) = (res', w', l') \<Longrightarrow> is_ok res' \<Longrightarrow>
   \<exists>ends. l' = l @ ends \<and> list_all2 (\<lambda>(xs, f) e. fst e = f \<and> whole_file env xs e) sigs ends"
proof (induction ts arbitrary: sigs res w l)
  case (Cons t ts)
  obtain xs f sigs' where sigs: "sigs = (xs, f) # sigs'" "track_holds env xs f t"
    "list_all2 (\<lambda>(xs, f) t. track_holds env xs f t) sigs' ts"
    using Cons.prems(1) by (auto simp: list_all2_Cons2)
  obtain r w1 l1 where fin: "track_finish env (observed sink) t (w, l) = (r, w1, l1)" by (metis prod_cases3)
  define res1 where "res1 = (case res of Inl err \<Rightarrow> Inl err | Inr _ \<Rightarrow> r)"
  have rest: "finish_tracks env (observed sink) ts res1 (w1, l1) = (res', w', l')"
    using Cons.prems(2) fin by (simp add: res1_def)
  have "is_ok res1" using finish_tracks_error [of res1 env "observed sink" ts "(w1, l1)"] rest Cons.prems(3) by auto
  then have "is_ok r" by (auto simp: res1_def is_ok_def split: sum.splits)
  then obtain b where b: "l1 = l @ [(f, b, EndFinished)]" "flac_file (re_flac env) xs = Some b"
    using track_finish_holds [OF sigs(2) fin] by auto
  obtain ends where "l' = l1 @ ends" "list_all2 (\<lambda>(xs, f) e. fst e = f \<and> whole_file env xs e) sigs' ends"
    using Cons.IH [OF sigs(3) rest Cons.prems(3)] by blast
  then show ?case
    using b sigs(1) by (intro exI [of _ "(f, b, EndFinished) # ends"]) (simp add: whole_file_def)
qed simp

section \<open>A take from start to stop\<close>

definition recorded ::
  "record_env \<Rightarrow> ('o, 'w) recording_sink \<Rightarrow> nat \<Rightarrow> (member_id \<times> bytes) list option \<Rightarrow> 'w \<Rightarrow>
   record_payload list \<Rightarrow> ('o seen, 'w \<times> endings) recorder" where
  "recorded env sink secs roster w ps =
     foldl (\<lambda>rc p. recorder_tick env (observed sink) p rc)
       (recorder_start env (observed sink) secs roster (recorder_new (w, []))) ps"

definition recorder_holds ::
  "record_env \<Rightarrow> nat \<Rightarrow> bool \<Rightarrow> record_payload list \<Rightarrow> ('o seen, 'w \<times> endings) recorder \<Rightarrow> bool" where
  "recorder_holds env secs stems ps rc \<longleftrightarrow> nothing_finished (snd (rc_world rc)) \<and>
     (case rc_take rc of
        None \<Rightarrow> \<exists>reason. rc_state rc = RecorderFailed reason
      | Some t \<Rightarrow> rc_state rc = RecorderRecording stems \<and> snd (rc_world rc) = [] \<and> take_holds env ps t \<and>
          te_base t = take_base secs \<and> (te_stems t \<noteq> None \<longleftrightarrow> stems))"

lemma abort_tracks:
  "nothing_finished (snd wl) \<Longrightarrow>
   nothing_finished (snd (foldl (\<lambda>w tr. rk_abort (observed sink) (tk_object tr) w) wl ts))"
proof (induction ts arbitrary: wl)
  case (Cons t ts)
  show ?case
    by (simp, rule Cons.IH) (use Cons.prems in \<open>auto simp: observed_def split: prod.splits\<close>)
qed simp

lemma recorded_holds:
  assumes "zero_stays env"
  shows "list_all tick_ok ps \<Longrightarrow> length ps \<le> 2 ^ 56 \<Longrightarrow>
    recorder_holds env secs (roster \<noteq> None) ps (recorded env sink secs roster w ps)"
proof (induction ps rule: rev_induct)
  case Nil
  obtain r w1 l1 where op: "track_open env (observed sink) (take_base secs @ str ''-mix.flac'') (w, []) = (r, w1, l1)"
    by (metis prod_cases3)
  note o1 = open_started(1,2) [OF op [unfolded track_open_def]]
    and o3 = open_started(3) [OF op [unfolded track_open_def], of _ "[]"]
  show ?case
  proof (cases r)
    case (Inl err)
    then show ?thesis
      using op o1(1) by (simp add: recorded_def recorder_start_def recorder_new_def recorder_holds_def Let_def)
  next
    case (Inr t)
    have "track_holds env [] (take_base secs @ str ''-mix.flac'') t" using o3 [OF Inr] by (simp add: flac_encoded_new)
    then show ?thesis
      using op Inr o1(2) [OF Inr]
      by (cases roster) (auto simp: recorded_def recorder_start_def recorder_new_def recorder_holds_def take_holds_def
        stems_after_def mix_signal_def stems_hold_def stem_of_def recorded_members_def silent_holds_new)
  qed
next
  case (snoc p ps)
  let ?rc = "recorded env sink secs roster w ps"
  have IH: "recorder_holds env secs (roster \<noteq> None) ps ?rc" using snoc by simp
  have step: "recorded env sink secs roster w (ps @ [p]) = recorder_tick env (observed sink) p ?rc"
    by (simp add: recorded_def)
  obtain w0 l0 where wl: "rc_world ?rc = (w0, l0)" by (metis prod.exhaust)
  show ?case
  proof (cases "rc_take ?rc")
    case None
    then show ?thesis using IH unfolding step by (simp add: recorder_tick_def recorder_holds_def)
  next
    case (Some t)
    obtain r t1 w1 l1 where feed: "feed_take env (observed sink) p (t, w0, l0) = (r, t1, w1, l1)" by (metis prod_cases4)
    have t: "take_holds env ps t" "l0 = []" "te_base t = take_base secs" "te_stems t \<noteq> None \<longleftrightarrow> roster \<noteq> None"
      using IH Some wl by (simp_all add: recorder_holds_def)
    have f: "(nothing_finished l0 \<longrightarrow> nothing_finished l1) \<and> (is_ok r \<longrightarrow> l1 = l0 \<and> take_holds env (ps @ [p]) t1 \<and>
        te_base t1 = te_base t \<and> (te_stems t1 = None \<longleftrightarrow> te_stems t = None))"
      by (rule feed_take_holds [OF assms t(1) _ _ feed]) (use snoc.prems in simp_all)
    show ?thesis
    proof (cases r)
      case (Inl err)
      have "nothing_finished (snd (foldl (\<lambda>w tr. rk_abort (observed sink) (tk_object tr) w) (w1, l1) (take_tracks t1)))"
        by (rule abort_tracks) (use f t(2) in simp)
      then show ?thesis
        using Some wl feed Inl unfolding step by (simp add: recorder_tick_def recorder_fail_def recorder_holds_def Let_def)
    next
      case (Inr u)
      then have "l1 = []" "take_holds env (ps @ [p]) t1" "te_base t1 = take_base secs" "te_stems t1 \<noteq> None \<longleftrightarrow> roster \<noteq> None"
        using f t by (simp_all add: is_ok_def)
      then show ?thesis
        using Some wl feed Inr IH unfolding step by (simp add: recorder_tick_def recorder_holds_def)
    qed
  qed
qed

lemma stem_tracks:
  assumes "stems_after env ps t" "te_stems t = Some stems"
  shows "list_all2 (\<lambda>m tr. \<exists>f. track_holds env (stem_signal env ps m) f tr)
    (sorted_list_of_set (recorded_members ps)) (bm_values stems)"
proof -
  have get: "stem_of t = bm_get stems" using assms(2) by (simp add: stem_of_def fun_eq_iff)
  have "set (bm_keys stems) = recorded_members ps"
    using assms by (auto simp: stems_after_def get set_bm_keys dom_def)
  moreover have "sorted_wrt (<) (bm_keys stems)" by (rule bm_entries_sorted)
  ultimately have keys: "sorted_list_of_set (recorded_members ps) = bm_keys stems"
    by (metis sorted_list_of_set.idem_if_sorted_distinct strict_sorted_iff)
  have "\<exists>f. track_holds env (stem_signal env ps m) f tr" if "(m, tr) \<in> set (bm_entries stems)" for m tr
    using that assms(1) by (auto simp: stems_after_def stems_hold_def get bm_entries_iff)
  then show ?thesis
    unfolding keys by (auto simp: bm_keys_def bm_values_def list_all2_map1 list_all2_map2 list.rel_refl_strong
      intro!: list.rel_refl_strong)
qed

lemma named_signals:
  "list_all2 (\<lambda>m t. \<exists>f. track_holds env (sig m) f t) ms ts \<Longrightarrow>
   \<exists>sigs. map fst sigs = map sig ms \<and> list_all2 (\<lambda>(xs, f) t. track_holds env xs f t) sigs ts"
proof (induction rule: list_all2_induct)
  case (Cons m ms t ts)
  then obtain f sigs where "track_holds env (sig m) f t" "map fst sigs = map sig ms"
    "list_all2 (\<lambda>(xs, f) t. track_holds env xs f t) sigs ts" by blast
  then show ?case by (intro exI [of _ "(sig m, f) # sigs"]) simp
qed simp

section \<open>When nothing fails\<close>

text \<open>An encoder and a sink none of whose calls fail.\<close>

definition never_fails :: "record_env \<Rightarrow> ('o, 'w) recording_sink \<Rightarrow> bool" where
  "never_fails env sink \<longleftrightarrow> is_ok (flac_header (re_flac env)) \<and> (\<forall>n xs. is_ok (fl_frame (re_flac env) n xs)) \<and>
     (\<forall>f w. is_ok (fst (rk_open sink f w))) \<and> (\<forall>c st. is_ok (fst (rk_write sink c st))) \<and>
     (\<forall>ob w. is_ok (fst (rk_finish sink ob w)))"

lemma ok_Inr: "is_ok r \<longleftrightarrow> (\<exists>a. r = Inr a)"
  by (cases r) (simp_all add: is_ok_def)

lemma try_then_ok: "is_ok (fst st) \<Longrightarrow> (\<And>a s. is_ok (fst (f a s))) \<Longrightarrow> is_ok (fst (try_then st f))"
  by (cases st) (auto simp: ok_Inr)

lemma never_fails_observed: "never_fails env sink \<Longrightarrow> never_fails env (observed sink)"
  unfolding never_fails_def ok_Inr
  by (auto simp: observed_def split: prod.splits sum.splits) (metis Inl_Inr_False fst_conv)+

lemma block_frames_total: "never_fails env sink \<Longrightarrow> block_frames (re_flac env) n k xs \<noteq> None"
proof (induction k arbitrary: n xs)
  case (Suc k)
  then obtain frame where "fl_frame (re_flac env) n (take BLOCK_INTERLEAVED xs) = Inr frame"
    unfolding never_fails_def ok_Inr by blast
  moreover obtain rest where "block_frames (re_flac env) (Suc n) k (drop BLOCK_INTERLEAVED xs) = Some rest"
    using Suc by blast
  ultimately show ?case by simp
qed simp

lemma never_fails_encode:
  assumes "never_fails env sink"
  obtains out' enc' where "flac_push (re_flac env) (re_fp env) samples out enc = (Inr (), out', enc')"
proof -
  let ?e = "enc\<lparr>fe_pending := fe_pending enc @ map (to_i16 (re_fp env)) samples\<rparr>"
  obtain b where "block_frames (re_flac env) (fe_frames ?e) (length (fe_pending ?e) div BLOCK_INTERLEAVED) (fe_pending ?e) = Some b"
    using block_frames_total [OF assms] by blast
  from encode_pending_ok [OF this, of out] show thesis by (intro that) (simp add: flac_push_def)
qed

lemma never_fails_write: "never_fails env sink \<Longrightarrow> is_ok (fst (track_write sink c st))"
proof -
  assume "never_fails env sink"
  then have ok: "is_ok (fst (rk_write sink c (tk_object (fst st), snd st)))" unfolding never_fails_def by blast
  obtain t w where st: "st = (t, w)" by (cases st)
  show ?thesis using ok unfolding st by (cases "rk_write sink c (tk_object t, w)") (simp add: track_write_def)
qed

lemma never_fails_push: "never_fails env sink \<Longrightarrow> is_ok (fst (track_push env sink samples st))"
proof -
  assume nf: "never_fails env sink"
  obtain t w where st: "st = (t, w)" by (cases st)
  obtain out enc where "flac_push (re_flac env) (re_fp env) samples [] (tk_enc t) = (Inr (), out, enc)"
    using nf by (rule never_fails_encode)
  then show ?thesis using never_fails_write [OF nf] by (simp add: st track_push_def is_ok_def)
qed

lemma never_fails_finish: "never_fails env sink \<Longrightarrow> is_ok (fst (track_finish env sink t w))"
proof -
  assume nf: "never_fails env sink"
  have "is_ok (fst (flac_finish (re_flac env) [] (tk_enc t)))"
    using nf by (auto simp: never_fails_def flac_finish_def encode_block_def Let_def ok_Inr split: sum.splits) (metis Inl_Inr_False)
  moreover have "is_ok (fst (rk_write sink c x))" "is_ok (fst (rk_finish sink ob w))" for c x ob w
    using nf unfolding never_fails_def by blast+
  ultimately show ?thesis
    by (auto simp: track_finish_def ok_Inr split: prod.splits sum.splits) (metis Inl_Inr_False fst_conv)+
qed

lemma never_fails_start: "never_fails env sink \<Longrightarrow> is_ok (fst (track_start env sink enc head ob w))"
proof -
  assume nf: "never_fails env sink"
  then obtain h where h: "flac_header (re_flac env) = Inr h" unfolding never_fails_def ok_Inr by blast
  note wr = never_fails_write [OF nf]
  have "is_ok (fst st) \<Longrightarrow> is_ok (fst (foldl (\<lambda>st chunk. try_then st (\<lambda>_. track_write sink chunk)) st cs))" for st cs
  proof (induction cs arbitrary: st)
    case (Cons c cs)
    show ?case unfolding foldl_Cons by (rule Cons.IH) (rule try_then_ok [OF Cons.prems wr])
  qed simp
  from this [of "(Inr (), \<lparr>tk_enc = enc, tk_object = ob\<rparr>, w)" "h # head"] show ?thesis
    by (auto simp: track_start_def h ok_Inr simp del: foldl_Cons split: prod.splits)
qed

lemma never_fails_open_stem: "never_fails env sink \<Longrightarrow> is_ok (fst (open_stem env sink m st))"
proof -
  assume nf: "never_fails env sink"
  have opened: "is_ok (fst (try_then (rk_open sink f w) (track_start env sink enc head)))" for f w enc head
    by (rule try_then_ok) (use nf never_fails_start [OF nf] in \<open>simp_all add: never_fails_def\<close>)
  have silent: "is_ok (fst (push_silent_ticks env sink n st))" for n st
    by (induction n arbitrary: st) (auto intro: try_then_ok never_fails_push [OF nf])
  have "is_ok (fst (case push_silent_ticks env sink n (t, w1) of
      (Inl err, t1, w2) \<Rightarrow> (Inl err, rk_drop sink (tk_object t1) w2) | (Inr _, t1, w2) \<Rightarrow> (Inr t1, w2)))" for n t w1
    using silent [of n "(t, w1)"] by (auto simp: ok_Inr split: prod.splits)
  then have "is_ok (fst (open_silent env sink f n w))" for f n w
    unfolding open_silent_def track_open_def by (intro try_then_ok opened)
  moreover have "is_ok (fst (open_with_head env sink f b k p w))" for f b k p w
    unfolding open_with_head_def by (rule opened)
  ultimately have made: "is_ok (fst (case x of Some (b, k, p) \<Rightarrow> open_with_head env sink f b k p w | None \<Rightarrow> open_silent env sink f n w))"
    for x f n w by (cases x) auto
  obtain t w where st: "st = (t, w)" by (cases st)
  define op where "op = (case Option.bind (te_silence t) (silent_split (te_ticks t)) of
      Some (b, k, p) \<Rightarrow> open_with_head env sink (stem_file t (stem_name (re_alnum env) (te_roster t) (te_names t) m)) b k p w
    | None \<Rightarrow> open_silent env sink (stem_file t (stem_name (re_alnum env) (te_roster t) (te_names t) m)) (te_ticks t) w)"
  obtain tr w1 where "op = (Inr tr, w1)" using made unfolding op_def [symmetric] ok_Inr by (metis prod.collapse op_def)
  then show ?thesis unfolding st open_stem_def Let_def op_def [symmetric] prod.case by simp
qed

lemma never_fails_feed:
  assumes "never_fails env sink"
  shows "is_ok (fst (feed_take env sink p st))"
proof -
  have push: "is_ok (fst (push_stem_track env sink m xs st))" for m xs st
  proof (cases "stem_of (fst st) m")
    case (Some tr)
    then show ?thesis using never_fails_push [OF assms, of xs "(tr, snd st)"]
      by (cases st) (auto simp: push_stem_track_def split: prod.splits)
  qed (cases st, simp add: push_stem_track_def)
  have mix: "is_ok (fst (push_mix env sink xs st))" for xs st
    using never_fails_push [OF assms, of xs "(te_mix (fst st), snd st)"] by (cases st) (auto simp: push_mix_def split: prod.splits)
  have stems: "is_ok (fst (feed_stems env sink stems st))" for stems st
  proof (induction stems arbitrary: st)
    case (Cons x stems)
    obtain m fader pcm where x: "x = (m, fader, pcm)" by (metis prod_cases3)
    show ?case unfolding x feed_stems.simps by (intro try_then_ok push Cons.IH) (simp add: never_fails_open_stem [OF assms])
  qed simp
  have quiet: "is_ok (fst (feed_silence env sink present ms st))" for present ms st
  proof (induction ms arbitrary: st)
    case (Cons m ms)
    show ?case unfolding feed_silence.simps by (intro try_then_ok Cons.IH) (simp add: push)
  qed simp
  have adv: "is_ok (fst (silent_advance env s))" for s
  proof -
    obtain out enc where "flac_push (re_flac env) (re_fp env) (replicate TICK_STEREO 0) [] (sh_enc s) = (Inr (), out, enc)"
      using assms by (rule never_fails_encode)
    then show ?thesis by (simp add: silent_advance_def)
  qed
  have count: "is_ok (fst (count_tick env st))" for st :: "'a rec_take \<times> 'b"
  proof (cases "te_silence (fst st)")
    case (Some s)
    then show ?thesis using adv [of s] by (cases st) (auto simp: count_tick_def Let_def split: prod.splits)
  qed (cases st, simp add: count_tick_def Let_def)
  show ?thesis unfolding feed_take_def feed_all_stems_def
  proof (intro try_then_ok mix count)
    fix a :: unit and s :: "'a rec_take \<times> 'b"
    have "is_ok (fst (try_then (feed_stems env sink (rp_stems p) s) (\<lambda>_ st1.
        feed_silence env sink (map fst (rp_stems p)) (stem_keys (fst st1)) st1)))"
      by (intro try_then_ok stems quiet)
    then show "is_ok (fst (if te_stems (fst s) \<noteq> None then try_then (feed_stems env sink (rp_stems p) s) (\<lambda>_ st1.
        feed_silence env sink (map fst (rp_stems p)) (stem_keys (fst st1)) st1) else (Inr (), s)))" by simp
  qed
qed

lemma never_fails_tick:
  "never_fails env sink \<Longrightarrow> rc_take rc \<noteq> None \<Longrightarrow> rc_take (recorder_tick env sink p rc) \<noteq> None"
proof -
  assume nf: "never_fails env sink" and "rc_take rc \<noteq> None"
  then obtain t where t: "rc_take rc = Some t" by auto
  obtain u t1 w1 where "feed_take env sink p (t, rc_world rc) = (Inr u, t1, w1)"
    using never_fails_feed [OF nf, of p "(t, rc_world rc)"] unfolding ok_Inr by (metis prod.collapse)
  then show ?thesis by (simp add: recorder_tick_def t)
qed

lemma never_fails_all: "never_fails env sink \<Longrightarrow> is_ok res \<Longrightarrow> is_ok (fst (finish_tracks env sink ts res w))"
proof (induction ts arbitrary: res w)
  case (Cons t ts)
  have "is_ok (fst (track_finish env sink t w))" by (rule never_fails_finish [OF Cons.prems(1)])
  then show ?case using Cons by (auto simp: ok_Inr split: prod.splits)
qed simp

lemma recording_lasts:
  assumes "never_fails env sink"
  shows "rc_take (recorded env sink secs roster w ps) \<noteq> None \<and>
    rc_state (recorder_stop env (observed sink) (recorded env sink secs roster w ps)) = RecorderIdle"
proof -
  note nf = never_fails_observed [OF assms]
  have start: "rc_take (recorder_start env (observed sink) secs roster (recorder_new (w, []))) \<noteq> None"
  proof -
    have "is_ok (fst (track_open env (observed sink) f (w, [])))" for f
      unfolding track_open_def
      by (rule try_then_ok) (use nf never_fails_start [OF nf] in \<open>simp_all add: never_fails_def\<close>)
    then obtain t w1 where "track_open env (observed sink) (take_base secs @ str ''-mix.flac'') (w, []) = (Inr t, w1)"
      unfolding ok_Inr by (metis prod.collapse)
    then show ?thesis by (simp add: recorder_start_def recorder_new_def)
  qed
  have on: "rc_take (recorded env sink secs roster w ps) \<noteq> None"
    by (induction ps rule: rev_induct) (use start in \<open>simp_all add: recorded_def never_fails_tick [OF nf]\<close>)
  then obtain t where t: "rc_take (recorded env sink secs roster w ps) = Some t" by auto
  obtain u w1 where "finish_tracks env (observed sink) (take_tracks t) (Inr ()) (rc_world (recorded env sink secs roster w ps)) =
      (Inr u, w1)"
    using never_fails_all [OF nf, of "Inr ()"] unfolding ok_Inr by (metis prod.collapse)
  then show ?thesis using on by (simp add: recorder_stop_def t)
qed

section \<open>Examples\<close>

text \<open>Everything works; and a disk that has room for one file.\<close>

definition plain_env :: record_env where
  "plain_env = \<lparr>re_flac = \<lparr>fl_info = Inr [0], fl_frame = (\<lambda>n xs. Inr [of_nat n, of_nat (length xs)])\<rparr>,
     re_fp = sample_fp, re_alnum = (\<lambda>_. False)\<rparr>"

definition plain_sink :: "nat \<Rightarrow> (unit, nat) recording_sink" where
  "plain_sink room =
     \<lparr>rk_open = (\<lambda>name n. if n < room then (Inr (), n + 1) else (Inl (str ''no space''), n)), rk_uploads = False,
      rk_write = (\<lambda>chunk (u, n). (Inr (), u, n)), rk_finish = (\<lambda>u n. (Inr (), n)), rk_abort = (\<lambda>u n. n),
      rk_drop = (\<lambda>u n. n)\<rparr>"

definition endless_sink :: "(unit, nat) recording_sink" where
  "endless_sink = (plain_sink 0)\<lparr>rk_open := (\<lambda>name n. (Inr (), n + 1))\<rparr>"

definition one_voice :: record_payload where
  "one_voice = push_stem (MemberId 7) fader_default (replicate TICK_STEREO 0) payload_default"

lemma plain_zero: "zero_stays plain_env"
  by (simp add: zero_stays_def plain_env_def sample_fp_def)

lemma one_voice_ok: "tick_ok one_voice"
  by (simp add: tick_ok_def one_voice_def push_stem_def payload_default_def)

lemma endless_never_fails: "never_fails plain_env endless_sink"
  by (simp add: never_fails_def flac_header_def plain_env_def endless_sink_def plain_sink_def split: prod.splits)

lemma one_file_fails: "\<exists>reason. rc_state (recorded plain_env (plain_sink 1) 0 (Some []) 0 [one_voice]) = RecorderFailed reason"
proof -
  define o1 where "o1 = observed (plain_sink 1)"
  define rc where "rc = recorder_start plain_env o1 0 (Some []) (recorder_new (0, []))"
  have rc: "\<exists>t. rc_take rc = Some t \<and> te_stems t = Some bm_empty \<and> te_silence t = Some silent_head_new \<and> te_ticks t = 0 \<and>
      tk_enc (te_mix t) = flac_new \<and> rc_world rc = (1, [])"
    by (simp add: rc_def o1_def recorder_start_def recorder_new_def track_open_def track_start_def observed_def plain_sink_def
      plain_env_def flac_header_def track_write_def Let_def)
  then obtain t where t: "rc_take rc = Some t" "te_stems t = Some bm_empty" "te_silence t = Some silent_head_new" "te_ticks t = 0"
    "tk_enc (te_mix t) = flac_new" "rc_world rc = (1, [])" by blast
  have mix: "push_mix plain_env o1 (rp_mix one_voice) (t, 1, []) =
      (Inr (), t\<lparr>te_mix := (te_mix t)\<lparr>tk_enc := \<lparr>fe_pending = map (to_i16 sample_fp) (replicate TICK_STEREO 0), fe_frames = 0\<rparr>\<rparr>\<rparr>, 1, [])"
    by (simp add: push_mix_def track_push_def flac_push_def t flac_new_def one_voice_def push_stem_def payload_default_def
      encode_pending.simps plain_env_def)
  define t1 where "t1 = t\<lparr>te_mix := (te_mix t)\<lparr>tk_enc := \<lparr>fe_pending = map (to_i16 sample_fp) (replicate TICK_STEREO 0), fe_frames = 0\<rparr>\<rparr>\<rparr>"
  have refused: "rk_open o1 f (1, []) = (Inl (str ''no space''), 1, [])" for f
    by (simp add: o1_def observed_def plain_sink_def)
  have t1: "te_stems t1 = Some bm_empty" "te_silence t1 = Some silent_head_new" "te_ticks t1 = 0"
    using t by (simp_all add: t1_def)
  have "open_stem plain_env o1 (MemberId 7) (t1, 1, []) = (Inl (str ''no space''), t1, 1, [])"
    by (simp add: open_stem_def t1 silent_split_def open_with_head_def refused [unfolded One_nat_def] Let_def)
  then have "feed_all_stems plain_env o1 (rp_stems one_voice) (t1, 1, []) = (Inl (str ''no space''), t1, 1, [])"
    by (simp add: feed_all_stems_def t1 one_voice_def push_stem_def payload_default_def stem_of_def)
  then have "feed_take plain_env o1 one_voice (t, 1, []) = (Inl (str ''no space''), t1, 1, [])"
    by (simp add: feed_take_def mix [folded t1_def, unfolded One_nat_def])
  then show ?thesis
    unfolding recorded_def o1_def [symmetric] foldl.simps rc_def [symmetric]
    by (simp add: recorder_tick_def t recorder_fail_def)
qed

section \<open>Two things the code does not intend\<close>

text \<open>\<open>stem_name\<close> promises distinct files, but checks a name only before it appends the id: after an Alex and
  an Alex-2, a second Alex with the id 2 is given the file that Alex-2 is being written to.\<close>

lemma stem_names_collide:
  defines "roster \<equiv> [(MemberId 1, str ''Alex''), (MemberId 2, str ''Alex''), (MemberId 3, str ''Alex-2'')]"
  shows "stem_name (\<lambda>_. False) roster [str ''mix''] (MemberId 1) = str ''Alex''"
    and "stem_name (\<lambda>_. False) roster [str ''mix'', str ''Alex''] (MemberId 3) = str ''Alex-2''"
    and "stem_name (\<lambda>_. False) roster [str ''mix'', str ''Alex'', str ''Alex-2''] (MemberId 2) = str ''Alex-2''"
  unfolding roster_def by code_simp+

text \<open>Every object is to end in one call of finish or abort, but one whose header is refused is only dropped.\<close>

lemma refused_header_only_drops:
  assumes "flac_header (re_flac env) = Inr h" "rk_open sink f w = (Inr ob, w1)" "rk_write sink h (ob, w1) = (Inl err, ob1, w2)"
  shows "track_open env (observed sink) f (w, []) = (Inl err, rk_drop sink ob1 w2, [(f, [], EndDropped)])"
  using assms by (simp add: track_open_def track_start_def track_write_def observed_def)

section \<open>Claims\<close>

text \<open>C11. A take that ends well is whole and aligned, whatever the sink did in between: the mix file is the FLAC
  stream of the mix ticks, there is one stem per musician heard, in order of their ids, each the FLAC stream of
  that musician's share of the mix with silence for every tick they were absent, those before they were first
  heard included (the copied silent head is what encoding would have given), and all signals have the same length.\<close>

theorem take_files_aligned:
  assumes "zero_stays env" "list_all tick_ok ps" "length ps \<le> 2 ^ 56"
    and "rc_take (recorded env sink secs roster w ps) \<noteq> None"
    and "rc_state (recorder_stop env (observed sink) (recorded env sink secs roster w ps)) = RecorderIdle"
  shows "\<exists>b stems.
    snd (rc_world (recorder_stop env (observed sink) (recorded env sink secs roster w ps))) =
      (take_base secs @ str ''-mix.flac'', b, EndFinished) # stems \<and>
    flac_file (re_flac env) (mix_signal env ps) = Some b \<and>
    list_all2 (\<lambda>m e. whole_file env (stem_signal env ps m) e)
      (if roster = None then [] else sorted_list_of_set (recorded_members ps)) stems \<and>
    length (mix_signal env ps) = TICK_STEREO * length ps \<and>
    (\<forall>m. length (stem_signal env ps m) = length (mix_signal env ps))"
proof -
  let ?rc = "recorded env sink secs roster w ps"
  let ?ms = "if roster = None then [] else sorted_list_of_set (recorded_members ps)"
  obtain t where t: "rc_take ?rc = Some t" using assms(4) by auto
  obtain w0 l0 where wl: "rc_world ?rc = (w0, l0)" by (metis prod.exhaust)
  have hold: "take_holds env ps t" "l0 = []" "te_base t = take_base secs" "te_stems t \<noteq> None \<longleftrightarrow> roster \<noteq> None"
    using recorded_holds [OF assms(1-3), of secs roster sink w] t wl by (simp_all add: recorder_holds_def)
  obtain r w1 l1 where fin: "finish_tracks env (observed sink) (take_tracks t) (Inr ()) (w0, l0) = (r, w1, l1)"
    by (metis prod_cases3)
  have ok: "is_ok r" using assms(5) t wl fin by (auto simp: recorder_stop_def is_ok_def split: sum.splits)
  have stopped: "snd (rc_world (recorder_stop env (observed sink) ?rc)) = l1"
    using t wl fin by (simp add: recorder_stop_def)
  have "list_all2 (\<lambda>m tr. \<exists>f. track_holds env (stem_signal env ps m) f tr) ?ms
      (case te_stems t of None \<Rightarrow> [] | Some stems \<Rightarrow> bm_values stems)"
    using stem_tracks [of env ps t] hold by (cases "te_stems t") (auto simp: take_holds_def)
  from named_signals [OF this] obtain sigs where sigs: "map fst sigs = map (stem_signal env ps) ?ms"
    "list_all2 (\<lambda>(xs, f) t. track_holds env xs f t) sigs (case te_stems t of None \<Rightarrow> [] | Some stems \<Rightarrow> bm_values stems)"
    by blast
  have "list_all2 (\<lambda>(xs, f) t. track_holds env xs f t)
      ((mix_signal env ps, take_base secs @ str ''-mix.flac'') # sigs) (take_tracks t)"
    using hold sigs(2) by (simp add: take_tracks_def take_holds_def)
  from finish_tracks_whole [OF this fin ok] obtain e ends where ends: "l1 = e # ends"
    "fst e = take_base secs @ str ''-mix.flac''" "whole_file env (mix_signal env ps) e"
    "list_all2 (\<lambda>(xs, f) e. fst e = f \<and> whole_file env xs e) sigs ends"
    using hold(2) by (auto simp: list_all2_Cons1)
  have "list_all2 (\<lambda>m e. whole_file env (stem_signal env ps m) e) ?ms ends"
  proof -
    have "list_all2 (\<lambda>s e. whole_file env (fst s) e) sigs ends"
      by (rule list_all2_mono [OF ends(4)]) auto
    then have "list_all2 (whole_file env) (map fst sigs) ends" by (simp add: list_all2_map1)
    then show ?thesis unfolding sigs(1) by (simp only: list_all2_map1)
  qed
  moreover have "length (mix_signal env ps) = TICK_STEREO * length ps"
    using assms(2) by (induction ps) (simp_all add: mix_signal_def tick_ok_def)
  ultimately show ?thesis
    using ends stopped by (intro exI [of _ "fst (snd e)"] exI [of _ ends])
      (cases e, simp add: whole_file_def length_stem_signal)
qed


text \<open>A recording whose encoder and sink never fail comes to its end: the take is never lost, whoever comes and
  goes, and stopping it leaves the recorder idle.\<close>

theorem recording_completes:
  assumes "never_fails env sink"
  shows "rc_take (recorded env sink secs roster w ps) \<noteq> None \<and>
    rc_state (recorder_stop env (observed sink) (recorded env sink secs roster w ps)) = RecorderIdle"
  by (rule recording_lasts [OF assms])

theorem recording_completes_witness:
  "rc_take (recorded plain_env endless_sink 0 (Some []) 0 [one_voice]) \<noteq> None"
  using recording_completes [OF endless_never_fails] by blast

theorem take_files_aligned_witness:
  "length (stem_signal plain_env [one_voice] (MemberId 7)) = length (mix_signal plain_env [one_voice])"
proof -
  have "rc_take (recorded plain_env endless_sink 0 (Some []) 0 [one_voice]) \<noteq> None"
    "rc_state (recorder_stop plain_env (observed endless_sink) (recorded plain_env endless_sink 0 (Some []) 0 [one_voice])) = RecorderIdle"
    using recording_lasts [OF endless_never_fails] by blast+
  from take_files_aligned [OF plain_zero _ _ this] show ?thesis using one_voice_ok by auto
qed


end
