(* ===== verification/RecordWorker.thy ===== *)
theory RecordWorker
  imports RecorderClaims
begin

text \<open>
  The recorder on its own thread, \<open>RecordWorker\<close> and \<open>run\<close> of \<open>crates/server/src/record.rs\<close>: a bounded channel,
  the gap the mix tick counts while it is full, and the loop that takes one message at a time.  A stop is two
  steps, because what it publishes first can be seen while it waits for the sink.
\<close>

section \<open>The worker\<close>

abbreviation (input) RECORD_QUEUE_TICKS :: nat where "RECORD_QUEUE_TICKS \<equiv> 400"

datatype record_msg =
    RecStart nat "(member_id \<times> bytes) list option"
  | RecTick nat record_payload  \<comment> \<open>gap, payload\<close>
  | RecStop
  | RecShutdown

record ('o, 'w) record_worker =
  rw_chan :: "record_msg list"
  rw_gap :: nat
  rw_rec :: "('o, 'w) recorder"
  rw_state :: recorder_state
  rw_recording :: bool
  rw_stopping :: bool
  rw_ended :: bool

definition record_worker_spawn :: "'w \<Rightarrow> ('o, 'w) record_worker" where
  "record_worker_spawn w =
     \<lparr>rw_chan = [], rw_gap = 0, rw_rec = recorder_new w, rw_state = RecorderIdle, rw_recording = False,
      rw_stopping = False, rw_ended = False\<rparr>"

definition record_room :: "('o, 'w) record_worker \<Rightarrow> bool" where
  "record_room wk \<longleftrightarrow> length (rw_chan wk) < RECORD_QUEUE_TICKS"

text \<open>The blocking sends: each happens once there is room.\<close>

definition record_send :: "record_msg \<Rightarrow> ('o, 'w) record_worker \<Rightarrow> ('o, 'w) record_worker option" where
  "record_send msg wk = (if record_room wk then Some (wk\<lparr>rw_chan := rw_chan wk @ [msg]\<rparr>) else None)"

definition worker_start ::
  "nat \<Rightarrow> (member_id \<times> bytes) list option \<Rightarrow> ('o, 'w) record_worker \<Rightarrow> ('o, 'w) record_worker option" where
  "worker_start unix_secs stems wk = record_send (RecStart unix_secs stems) (wk\<lparr>rw_gap := 0\<rparr>)"

definition worker_stop :: "('o, 'w) record_worker \<Rightarrow> ('o, 'w) record_worker option" where
  "worker_stop wk = record_send RecStop wk"

text \<open>The mix tick's side.  The gap is a \<open>u64\<close>, cast to \<open>u32\<close> for the message.\<close>

definition record_submit :: "record_payload \<Rightarrow> ('o, 'w) record_worker \<Rightarrow> ('o, 'w) record_worker" where
  "record_submit p wk =
     (let gap = wrap32 (rw_gap wk); wk1 = wk\<lparr>rw_gap := 0\<rparr>
      in if rw_ended wk then wk1
         else if record_room wk then wk1\<lparr>rw_chan := rw_chan wk @ [RecTick gap p]\<rparr>
         else wk1\<lparr>rw_gap := wrap64 (gap + 1)\<rparr>)"

definition gap_ticks :: "('o, 'w) record_worker \<Rightarrow> nat" where
  "gap_ticks wk = rw_gap wk"

text \<open>The thread's side.\<close>

definition is_recording :: "recorder_state \<Rightarrow> bool" where
  "is_recording st \<longleftrightarrow> (case st of RecorderRecording _ \<Rightarrow> True | _ \<Rightarrow> False)"

definition record_publish :: "('o, 'w) record_worker \<Rightarrow> ('o, 'w) record_worker" where
  "record_publish wk = wk\<lparr>rw_recording := is_recording (rc_state (rw_rec wk)), rw_state := rc_state (rw_rec wk)\<rparr>"

definition ticked ::
  "record_env \<Rightarrow> ('o, 'w) recording_sink \<Rightarrow> record_payload list \<Rightarrow> ('o, 'w) recorder \<Rightarrow> ('o, 'w) recorder" where
  "ticked env sink ps rc = foldl (\<lambda>rc p. recorder_tick env sink p rc) rc ps"

fun record_run ::
  "record_env \<Rightarrow> ('o, 'w) recording_sink \<Rightarrow> record_msg \<Rightarrow> ('o, 'w) record_worker \<Rightarrow> ('o, 'w) record_worker" where
  "record_run env sink (RecStart unix_secs stems) wk =
     record_publish (wk\<lparr>rw_rec := recorder_start env sink unix_secs stems (rw_rec wk)\<rparr>)"
| "record_run env sink (RecTick gap p) wk =
     record_publish (wk\<lparr>rw_rec := ticked env sink (replicate gap payload_default @ [p]) (rw_rec wk)\<rparr>)"
| "record_run env sink RecStop wk =
     wk\<lparr>rw_stopping := True, rw_state := if stop_will_upload sink (rw_rec wk) then RecorderUploading else rw_state wk\<rparr>"
| "record_run env sink RecShutdown wk =
     (let rc = recorder_stop env sink (rw_rec wk)
      in wk\<lparr>rw_rec := rc, rw_recording := False, rw_state := rc_state rc, rw_ended := True\<rparr>)"

definition record_recv ::
  "record_env \<Rightarrow> ('o, 'w) recording_sink \<Rightarrow> ('o, 'w) record_worker \<Rightarrow> ('o, 'w) record_worker option" where
  "record_recv env sink wk =
     (case rw_chan wk of [] \<Rightarrow> None | msg # msgs \<Rightarrow> Some (record_run env sink msg (wk\<lparr>rw_chan := msgs\<rparr>)))"

definition record_stopped ::
  "record_env \<Rightarrow> ('o, 'w) recording_sink \<Rightarrow> ('o, 'w) record_worker \<Rightarrow> ('o, 'w) record_worker" where
  "record_stopped env sink wk =
     record_publish (wk\<lparr>rw_stopping := False, rw_rec := recorder_stop env sink (rw_rec wk)\<rparr>)"

section \<open>Interleaving\<close>

text \<open>What a message means to the recorder.\<close>

datatype record_event = EvStart nat "(member_id \<times> bytes) list option" | EvTick record_payload | EvStop

fun events_of :: "record_msg \<Rightarrow> record_event list" where
  "events_of (RecStart secs stems) = [EvStart secs stems]"
| "events_of (RecTick gap p) = map EvTick (replicate gap payload_default @ [p])"
| "events_of _ = [EvStop]"

fun recorder_event ::
  "record_env \<Rightarrow> ('o, 'w) recording_sink \<Rightarrow> ('o, 'w) recorder \<Rightarrow> record_event \<Rightarrow> ('o, 'w) recorder" where
  "recorder_event env sink rc (EvStart secs stems) = recorder_start env sink secs stems rc"
| "recorder_event env sink rc (EvTick p) = recorder_tick env sink p rc"
| "recorder_event env sink rc EvStop = recorder_stop env sink rc"

abbreviation (input) silent_tick :: record_event where "silent_tick \<equiv> EvTick payload_default"

text \<open>A worker with two histories: what the session handed over, silence where a tick was refused, and what the
  recorder has been given.  The silence owed for the ticks refused last is not part of a take that stops now,
  and a start forgets it.  Fewer than \<open>2 ^ 32\<close> ticks are refused in a row (124 days of them), so the cast of the
  gap loses nothing.\<close>

inductive recording_run ::
  "record_env \<Rightarrow> ('o, 'w) recording_sink \<Rightarrow> 'w \<Rightarrow> record_event list \<Rightarrow> record_event list \<Rightarrow> ('o, 'w) record_worker \<Rightarrow> bool"
  for env :: record_env and sink :: "('o, 'w) recording_sink" and w :: 'w where
  rec_spawn: "recording_run env sink w [] [] (record_worker_spawn w)"
| rec_start: "recording_run env sink w out fed wk \<Longrightarrow> \<not> rw_ended wk \<Longrightarrow> worker_start secs stems wk = Some wk' \<Longrightarrow>
    recording_run env sink w (take (length out - rw_gap wk) out @ [EvStart secs stems]) fed wk'"
| rec_tick: "recording_run env sink w out fed wk \<Longrightarrow> \<not> rw_ended wk \<Longrightarrow> rw_gap wk + 1 < 2 ^ 32 \<Longrightarrow>
    recording_run env sink w (out @ [if record_room wk then EvTick p else silent_tick]) fed (record_submit p wk)"
| rec_stop: "recording_run env sink w out fed wk \<Longrightarrow> \<not> rw_ended wk \<Longrightarrow> msg \<in> {RecStop, RecShutdown} \<Longrightarrow>
    record_send msg wk = Some wk' \<Longrightarrow>
    recording_run env sink w (take (length out - rw_gap wk) out @ [EvStop] @ replicate (rw_gap wk) silent_tick) fed wk'"
| rec_recv: "recording_run env sink w out fed wk \<Longrightarrow> \<not> rw_ended wk \<Longrightarrow> \<not> rw_stopping wk \<Longrightarrow> rw_chan wk = msg # msgs \<Longrightarrow>
    record_recv env sink wk = Some wk' \<Longrightarrow>
    recording_run env sink w out (if msg = RecStop then fed else fed @ events_of msg) wk'"
| rec_done: "recording_run env sink w out fed wk \<Longrightarrow> \<not> rw_ended wk \<Longrightarrow> rw_stopping wk \<Longrightarrow>
    recording_run env sink w out (fed @ [EvStop]) (record_stopped env sink wk)"

definition record_ok ::
  "record_env \<Rightarrow> ('o, 'w) recording_sink \<Rightarrow> 'w \<Rightarrow> record_event list \<Rightarrow> record_event list \<Rightarrow> ('o, 'w) record_worker \<Rightarrow> bool" where
  "record_ok env sink w out fed wk \<longleftrightarrow>
     fed @ (if rw_stopping wk then [EvStop] else []) @ concat (map events_of (rw_chan wk)) @
       replicate (rw_gap wk) silent_tick = out \<and>
     rw_rec wk = foldl (recorder_event env sink) (recorder_new w) fed \<and>
     length (rw_chan wk) \<le> RECORD_QUEUE_TICKS \<and>
     (rw_state wk = rc_state (rw_rec wk) \<or> rw_stopping wk \<and> rw_state wk = RecorderUploading \<and> rc_take (rw_rec wk) \<noteq> None) \<and>
     rw_recording wk = is_recording (rc_state (rw_rec wk))"

lemma ticked_events: "ticked env sink ps rc = foldl (recorder_event env sink) rc (map EvTick ps)"
  by (induction ps arbitrary: rc) (simp_all add: ticked_def)

lemma stopped_idle: "\<not> is_recording (rc_state (recorder_stop env sink rc)) \<or> rc_take rc = None"
  by (auto simp: recorder_stop_def is_recording_def split: option.splits prod.splits sum.splits)

text \<open>While a take is open the recorder is recording, so it never is after a stop.\<close>

definition take_state :: "('o, 'w) recorder \<Rightarrow> bool" where
  "take_state rc \<longleftrightarrow> (rc_take rc \<noteq> None \<longleftrightarrow> is_recording (rc_state rc))"

lemma take_state_event: "take_state rc \<Longrightarrow> take_state (recorder_event env sink rc e)"
  by (cases e)
    (auto simp: take_state_def recorder_start_def recorder_tick_def recorder_fail_def recorder_stop_def is_recording_def Let_def
      split: option.splits prod.splits sum.splits)

lemma take_state_run: "take_state (foldl (recorder_event env sink) (recorder_new w) es)"
  by (induction es rule: rev_induct) (simp_all add: take_state_event, simp add: take_state_def recorder_new_def is_recording_def)

lemma record_run_ok:
  assumes "record_ok env sink w out fed wk" "\<not> rw_stopping wk" "rw_chan wk = msg # msgs"
    and "wk' = record_run env sink msg (wk\<lparr>rw_chan := msgs\<rparr>)"
  shows "record_ok env sink w out (if msg = RecStop then fed else fed @ events_of msg) wk'"
proof (cases msg)
  case (RecStart secs stems)
  then show ?thesis using assms by (auto simp: record_ok_def record_publish_def)
next
  case (RecTick gap p)
  then show ?thesis using assms by (auto simp: record_ok_def record_publish_def ticked_events)
next
  case RecStop
  then show ?thesis using assms by (auto simp: record_ok_def stop_will_upload_def)
next
  case RecShutdown
  have "take_state (recorder_event env sink (rw_rec wk) EvStop)"
    using assms(1) take_state_event take_state_run unfolding record_ok_def by metis
  moreover have "rc_take (recorder_stop env sink (rw_rec wk)) = None"
    by (auto simp: recorder_stop_def split: option.splits prod.splits)
  ultimately show ?thesis using assms RecShutdown by (auto simp: record_ok_def take_state_def Let_def)
qed

lemma recording_run_ok: "recording_run env sink w out fed wk \<Longrightarrow> record_ok env sink w out fed wk"
proof (induction rule: recording_run.induct)
  case rec_spawn
  show ?case by (simp add: record_ok_def record_worker_spawn_def recorder_new_def is_recording_def)
next
  case (rec_start out fed wk secs stems wk')
  then show ?case by (auto simp: record_ok_def worker_start_def record_send_def record_room_def split: if_splits)
next
  case (rec_tick out fed wk p)
  have "wrap32 (rw_gap wk) = rw_gap wk" "wrap64 (Suc (rw_gap wk)) = Suc (rw_gap wk)"
    using rec_tick by (simp_all add: wrap32_def wrap64_def)
  then show ?case
    using rec_tick by (auto simp: record_ok_def record_submit_def record_room_def Let_def replicate_append_same)
next
  case (rec_stop out fed wk msg wk')
  then show ?case by (auto simp: record_ok_def record_send_def record_room_def split: if_splits)
next
  case (rec_recv out fed wk msg msgs wk')
  then show ?case using record_run_ok [OF rec_recv.IH rec_recv.hyps(3,4)] by (auto simp: record_recv_def)
next
  case (rec_done out fed wk)
  then show ?case by (auto simp: record_ok_def record_stopped_def record_publish_def)
qed

section \<open>Claims\<close>


text \<open>What the room is told of a recording is true: the published state is the recorder's own, except that a take
  whose bytes are still going to storage is announced as uploading, and the flag the mix tick reads says
  whether a take is open.\<close>

theorem recording_state_true:
  assumes "recording_run env sink w out fed wk"
  shows "(rw_state wk = rc_state (rw_rec wk) \<or> rw_stopping wk \<and> rw_state wk = RecorderUploading \<and> rc_take (rw_rec wk) \<noteq> None) \<and>
    (rw_recording wk \<longleftrightarrow> rc_take (rw_rec wk) \<noteq> None)"
proof -
  have ok: "record_ok env sink w out fed wk" by (rule recording_run_ok [OF assms])
  then have "take_state (rw_rec wk)" using take_state_run unfolding record_ok_def by metis
  then show ?thesis using ok by (auto simp: record_ok_def take_state_def)
qed


section \<open>Witnesses\<close>

text \<open>One take of one tick, each message taken as it comes.\<close>

lemma one_take_run:
  obtains fed wk where
    "recording_run plain_env (observed endless_sink) (0, []) [EvStart 0 None, EvTick one_voice, EvStop] fed wk"
    "rw_chan wk = []" "rw_gap wk = 0" "\<not> rw_stopping wk" "rw_state wk = rc_state (rw_rec wk)"
proof -
  let ?run = "recording_run plain_env (observed endless_sink) (0, [])"
  let ?at = "\<lambda>out wk. (\<exists>fed. ?run out fed wk) \<and> rw_chan wk = [] \<and> rw_gap wk = 0 \<and> \<not> rw_stopping wk \<and> \<not> rw_ended wk"
  have recv: "\<exists>wk'. ?at out wk'"
    if run: "?run out fed wk" and chan: "rw_chan wk = [msg]" and rest: "rw_gap wk = 0" "\<not> rw_stopping wk" "\<not> rw_ended wk"
      "msg \<noteq> RecShutdown" for out fed wk msg
  proof -
    obtain wk1 where wk1: "record_recv plain_env (observed endless_sink) wk = Some wk1"
      using chan by (simp add: record_recv_def)
    note run1 = rec_recv [OF run rest(3,2) chan wk1]
    have f: "rw_chan wk1 = []" "rw_gap wk1 = 0" "\<not> rw_ended wk1" "rw_stopping wk1 \<longleftrightarrow> msg = RecStop"
      using wk1 chan rest by (cases msg; auto simp: record_recv_def record_publish_def)+
    show ?thesis
    proof (cases "msg = RecStop")
      case True
      then have "?run out (fed @ [EvStop]) (record_stopped plain_env (observed endless_sink) wk1)"
        using rec_done [OF run1 f(3)] f(4) by simp
      then show ?thesis
        using f by (intro exI [of _ "record_stopped plain_env (observed endless_sink) wk1"]) (auto simp: record_stopped_def record_publish_def)
    next
      case False
      then show ?thesis using run1 f by (intro exI [of _ wk1]) auto
    qed
  qed
  obtain wk0 :: "(unit seen, nat \<times> endings) record_worker" where s: "worker_start 0 None (record_worker_spawn (0, [])) = Some wk0"
    "rw_chan wk0 = [RecStart 0 None]" "rw_gap wk0 = 0" "\<not> rw_ended wk0" "\<not> rw_stopping wk0"
    by (simp add: worker_start_def record_send_def record_room_def record_worker_spawn_def)
  have "?run [EvStart 0 None] [] wk0" using rec_start [OF rec_spawn _ s(1)] by (simp add: record_worker_spawn_def)
  from recv [OF this s(2,3,5,4)] obtain wk1 where at1: "?at [EvStart 0 None] wk1" by auto
  then obtain fed1 where "?run [EvStart 0 None] fed1 wk1" by blast
  from rec_tick [OF this, of one_voice] at1
  have "?run [EvStart 0 None, EvTick one_voice] fed1 (record_submit one_voice wk1)" by (simp add: record_room_def)
  then obtain wk2 where at2: "?at [EvStart 0 None, EvTick one_voice] wk2"
    using recv [of _ fed1 "record_submit one_voice wk1" "RecTick 0 one_voice"] at1
    by (auto simp: record_submit_def record_room_def wrap32_def Let_def)
  then obtain fed2 where run2: "?run [EvStart 0 None, EvTick one_voice] fed2 wk2" by blast
  have stop: "worker_stop wk2 = Some (wk2\<lparr>rw_chan := [RecStop]\<rparr>)"
    using at2 by (simp add: worker_stop_def record_send_def record_room_def)
  from rec_stop [OF run2 _ _ stop [unfolded worker_stop_def]] at2
  have "?run [EvStart 0 None, EvTick one_voice, EvStop] fed2 (wk2\<lparr>rw_chan := [RecStop]\<rparr>)" by simp
  from recv [OF this] at2 obtain wk3 where at3: "?at [EvStart 0 None, EvTick one_voice, EvStop] wk3" by auto
  then obtain fed3 where run3: "?run [EvStart 0 None, EvTick one_voice, EvStop] fed3 wk3" by blast
  have "rw_state wk3 = rc_state (rw_rec wk3)" using recording_run_ok [OF run3] at3 by (simp add: record_ok_def)
  then show thesis using that run3 at3 by blast
qed


theorem recording_state_true_witness:
  "\<exists>wk :: (unit seen, nat \<times> endings) record_worker. rw_chan wk = [] \<and> (rw_recording wk \<longleftrightarrow> rc_take (rw_rec wk) \<noteq> None)"
proof -
  obtain fed wk where run: "recording_run plain_env (observed endless_sink) (0, []) [EvStart 0 None, EvTick one_voice, EvStop] fed wk"
    "rw_chan wk = []" "rw_gap wk = 0" "\<not> rw_stopping wk" "rw_state wk = rc_state (rw_rec wk)" by (rule one_take_run)
  show ?thesis using recording_state_true [OF run(1)] run(2) by blast
qed


end
