(* ===== verification/StorageNames.thy ===== *)
theory StorageNames
  imports Strings
begin

text \<open>
  The names recordings are stored under, \<open>crates/cloud/src/storage.rs\<close>: \<open>sanitize_component\<close>,
  \<open>windows_hazard\<close> and \<open>session_prefix\<close>.
\<close>

section \<open>Characters of a name\<close>

definition ascii_alnum :: "u8 \<Rightarrow> bool" where
  "ascii_alnum b \<longleftrightarrow> 48 \<le> b \<and> b \<le> 57 \<or> 65 \<le> b \<and> b \<le> 90 \<or> 97 \<le> b \<and> b \<le> 122"

definition ascii_lower :: "u8 \<Rightarrow> u8" where
  "ascii_lower b = (if 65 \<le> b \<and> b \<le> 90 then b + 32 else b)"

definition same_ignoring_case :: "bytes \<Rightarrow> bytes \<Rightarrow> bool" where
  "same_ignoring_case s t \<longleftrightarrow> map ascii_lower s = map ascii_lower t"

text \<open>One character of a component after \<open>out\<close>: dots never lead and never double.\<close>

definition clean_char :: "bytes \<Rightarrow> bytes \<Rightarrow> bytes" where
  "clean_char out c =
     (if c = str ''.'' then (if out \<noteq> [] \<and> \<not> ends_with (str ''.'') out then out @ str ''.'' else out)
      else if length c = 1 \<and> ascii_alnum (hd c) \<or> c = str ''-'' \<or> c = str ''_'' then out @ c
      else out @ str ''-'')"

section \<open>Hazards\<close>

definition device_stem :: "bytes \<Rightarrow> bool" where
  "device_stem stem \<longleftrightarrow>
     (if \<not> list_all (\<lambda>b. b < 128) stem then False
      else if length stem = 3
      then list_ex (same_ignoring_case stem) [str ''con'', str ''prn'', str ''aux'', str ''nul'']
      else if length stem = 4
      then (same_ignoring_case (take 3 stem) (str ''com'') \<or> same_ignoring_case (take 3 stem) (str ''lpt'')) \<and>
        49 \<le> stem ! 3 \<and> stem ! 3 \<le> 57
      else False)"

definition reserved_device_name :: "bytes \<Rightarrow> bool" where
  "reserved_device_name component = device_stem (takeWhile (\<lambda>b. b \<noteq> 46) component)"

text \<open>The Unicode class \<open>Cc\<close>.\<close>

definition is_control :: "bytes \<Rightarrow> bool" where
  "is_control c = (case c of [b] \<Rightarrow> b < 32 \<or> b = 127 | [a, b] \<Rightarrow> a = 194 \<and> b < 160 | _ \<Rightarrow> False)"

definition hazard_char :: "bytes \<Rightarrow> bool" where
  "hazard_char c \<longleftrightarrow> c \<in> {[60], [62], [58], [34], [124], [63], [42], [92]} \<or> is_control c"

definition windows_hazard :: "bytes \<Rightarrow> bytes option" where
  "windows_hazard component =
     (if list_ex hazard_char (str_chars component) then Some (str ''contains a character Windows reserves'')
      else if ends_with (str ''.'') component \<or> ends_with (str '' '') component
      then Some (str ''ends with a dot or a space, which Windows strips'')
      else if reserved_device_name component then Some (str ''is a DOS device name'')
      else None)"

section \<open>Components and prefixes\<close>

definition trim_matches :: "u8 list \<Rightarrow> bytes \<Rightarrow> bytes" where
  "trim_matches cs s = trim_end_matches cs (trim_start_matches cs s)"

definition sanitize_component :: "bytes \<Rightarrow> bytes" where
  "sanitize_component raw =
     (let out = foldl clean_char [] (str_chars raw);
          out1 = (if ends_with (str ''.'') out then butlast out else out)
      in if trim_matches (str ''-._'') out1 = [] then str ''unnamed''
         else if reserved_device_name out1 then str ''-'' @ out1
         else out1)"

definition RECORDING_PREFIX :: bytes where "RECORDING_PREFIX = str ''jamstream/recordings''"

definition session_prefix :: "bytes \<Rightarrow> bytes" where
  "session_prefix session = RECORDING_PREFIX @ str ''/'' @ sanitize_component session @ str ''/''"

section \<open>Characters of plain text\<close>

lemma char_len_ascii: "b < 128 \<Longrightarrow> char_len (b # s) = 1"
  by (simp add: char_len_def lead_len_def)

lemma str_chars_ascii: "\<forall>b \<in> set s. b < 128 \<Longrightarrow> str_chars s = map (\<lambda>b. [b]) s"
proof (induction s)
  case (Cons b s)
  then show ?case by (subst str_chars.simps) (simp add: char_len_ascii)
qed (simp add: str_chars.simps)

text \<open>The bytes a component may have, and how dots may stand in it.\<close>

definition name_byte :: "u8 \<Rightarrow> bool" where
  "name_byte b \<longleftrightarrow> ascii_alnum b \<or> b = 45 \<or> b = 46 \<or> b = 95"

definition tidy :: "bytes \<Rightarrow> bool" where
  "tidy s \<longleftrightarrow> list_all name_byte s \<and> (s \<noteq> [] \<longrightarrow> hd s \<noteq> 46) \<and> successively (\<lambda>a b. \<not> (a = 46 \<and> b = 46)) s"

lemma name_byte_facts: "name_byte b \<Longrightarrow> b < 128 \<and> 32 < b \<and> b \<noteq> 127 \<and> b \<noteq> 47 \<and> b \<notin> {60, 62, 58, 34, 124, 63, 42, 92, 38}"
  by (auto simp: name_byte_def ascii_alnum_def word_le_nat_alt word_less_nat_alt)

lemma ends_with_byte: "ends_with [b] s \<longleftrightarrow> s \<noteq> [] \<and> last s = b"
  by (cases s rule: rev_cases) (auto simp: ends_with_def starts_with_def)

lemma tidy_snoc: "tidy (s @ [b]) \<longleftrightarrow> tidy s \<and> name_byte b \<and> (b = 46 \<longrightarrow> s \<noteq> [] \<and> last s \<noteq> 46)"
  by (cases "s = []") (auto simp: tidy_def successively_append_iff)

lemma clean_char_tidy: "tidy out \<Longrightarrow> tidy (clean_char out c)"
  by (cases c) (auto simp: clean_char_def str_def tidy_snoc ends_with_byte name_byte_def)

lemma cleaned_tidy: "tidy out \<Longrightarrow> tidy (foldl clean_char out cs)"
  by (induction cs arbitrary: out) (simp_all add: clean_char_tidy)

text \<open>What is left once a trailing dot is gone.\<close>

definition component :: "bytes \<Rightarrow> bool" where
  "component s \<longleftrightarrow> tidy s \<and> s \<noteq> [] \<and> last s \<noteq> 46"

lemma cleaned_component:
  assumes "tidy out" "out1 = (if ends_with (str ''.'') out then butlast out else out)" "out1 \<noteq> []"
  shows "component out1"
proof (cases out rule: rev_cases)
  case Nil
  then show ?thesis using assms by (auto simp: str_def ends_with_byte split: if_splits)
next
  case (snoc s b)
  then show ?thesis using assms by (auto simp: component_def str_def ends_with_byte tidy_snoc split: if_splits)
qed

lemma component_dash: "component s \<Longrightarrow> component (45 # s)"
  by (cases s) (auto simp: component_def tidy_def name_byte_def)

lemma component_not_hazard_char:
  assumes "component s" "\<not> reserved_device_name s"
  shows "windows_hazard s = None"
proof -
  have ok: "\<forall>b \<in> set s. name_byte b" using assms(1) by (simp add: component_def tidy_def list_all_iff)
  then have chars: "str_chars s = map (\<lambda>b. [b]) s" by (intro str_chars_ascii) (auto dest: name_byte_facts)
  have "\<not> hazard_char [b]" if "b \<in> set s" for b
    using name_byte_facts [of b] ok that by (auto simp: hazard_char_def is_control_def)
  then have "\<not> list_ex hazard_char (str_chars s)" by (simp add: chars list_ex_iff)
  moreover have "last s \<noteq> 32" using assms(1) ok name_byte_facts [of "last s"] by (auto simp: component_def)
  ultimately show ?thesis
    using assms by (simp add: windows_hazard_def str_def ends_with_byte component_def)
qed

text \<open>A dash in front makes any device name an ordinary one.\<close>

lemma dash_not_reserved: "\<not> reserved_device_name (45 # s)"
proof -
  let ?stem = "takeWhile (\<lambda>b. b \<noteq> 46) s"
  have "\<not> same_ignoring_case (45 # t) u" if "u \<in> {str ''con'', str ''prn'', str ''aux'', str ''nul'', str ''com'', str ''lpt''}" for t u
    using that by (auto simp: same_ignoring_case_def ascii_lower_def str_def)
  then show ?thesis by (auto simp: reserved_device_name_def device_stem_def)
qed

lemma sanitized_cases:
  obtains (unnamed) "sanitize_component raw = str ''unnamed''"
    | (dashed) s where "sanitize_component raw = 45 # s" "component s"
    | (clean) "component (sanitize_component raw)" "\<not> reserved_device_name (sanitize_component raw)"
proof -
  define out where "out = foldl clean_char [] (str_chars raw)"
  define out1 where "out1 = (if ends_with (str ''.'') out then butlast out else out)"
  have "tidy out" unfolding out_def by (rule cleaned_tidy) (simp add: tidy_def)
  then have comp: "out1 \<noteq> [] \<Longrightarrow> component out1" using cleaned_component out1_def by blast
  have eq: "sanitize_component raw = (if trim_matches (str ''-._'') out1 = [] then str ''unnamed''
      else if reserved_device_name out1 then str ''-'' @ out1 else out1)"
    by (simp add: sanitize_component_def Let_def out_def out1_def)
  show thesis
  proof (cases "trim_matches (str ''-._'') out1 = []")
    case True
    then show thesis using unnamed eq by simp
  next
    case False
    then have "out1 \<noteq> []" by (auto simp: trim_matches_def trim_end_matches_def trim_start_matches_def)
    then show thesis using False eq comp dashed [of out1] clean by (cases "reserved_device_name out1") (simp_all add: str_def)
  qed
qed

lemma sanitized_component: "component (sanitize_component raw) \<and> \<not> reserved_device_name (sanitize_component raw)"
proof -
  have unnamed: "component (str ''unnamed'')" "\<not> reserved_device_name (str ''unnamed'')"
    by (simp_all add: component_def tidy_def name_byte_def ascii_alnum_def str_def reserved_device_name_def device_stem_def)
  show ?thesis
    by (cases raw rule: sanitized_cases) (simp_all add: unnamed component_dash dash_not_reserved)
qed

text \<open>A component is what it is cleaned to.\<close>

lemma clean_component: "tidy (out @ s) \<Longrightarrow> foldl clean_char out (map (\<lambda>b. [b]) s) = out @ s"
proof (induction s arbitrary: out)
  case (Cons b s)
  have "tidy ((out @ [b]) @ s)" using Cons.prems by simp
  moreover have "tidy (out @ [b])"
    using Cons.prems by (auto simp: tidy_def successively_append_iff hd_append split: if_splits)
  then have "clean_char out [b] = out @ [b]"
    by (auto simp: tidy_snoc clean_char_def str_def ends_with_byte name_byte_def)
  ultimately show ?case using Cons.IH [of "out @ [b]"] by simp
qed simp

lemma trim_matches_Nil: "trim_matches cs s = [] \<longleftrightarrow> list_all (\<lambda>b. b \<in> set cs) s"
proof (cases "trim_start_matches cs s")
  case Nil
  then have "list_all (\<lambda>b. b \<in> set cs) s" by (simp add: trim_start_matches_def dropWhile_eq_Nil_conv list_all_iff)
  then show ?thesis using Nil by (simp add: trim_matches_def trim_end_matches_def)
next
  case (Cons b t)
  then have "b \<notin> set cs" "b \<in> set s"
    using hd_dropWhile [of "\<lambda>b. b \<in> set cs" s] set_dropWhileD [of b "\<lambda>b. b \<in> set cs" s]
    by (simp_all add: trim_start_matches_def)
  moreover have "trim_matches cs s \<noteq> []"
    using Cons \<open>b \<notin> set cs\<close> by (simp add: trim_matches_def trim_end_matches_def dropWhile_eq_Nil_conv)
  ultimately show ?thesis by (auto simp: list_all_iff)
qed

lemma sanitized_solid: "trim_matches (str ''-._'') (sanitize_component raw) \<noteq> []"
proof -
  have "trim_matches (str ''-._'') (str ''unnamed'') \<noteq> []" by (simp add: trim_matches_Nil str_def)
  moreover have "trim_matches (str ''-._'') (str ''-'' @ s) \<noteq> []" if "trim_matches (str ''-._'') s \<noteq> []" for s
    using that by (simp add: trim_matches_Nil str_def)
  ultimately show ?thesis by (simp add: sanitize_component_def Let_def del: trim_matches_Nil)
qed

lemma sanitize_component_idem: "sanitize_component (sanitize_component raw) = sanitize_component raw"
proof -
  let ?s = "sanitize_component raw"
  have c: "component ?s" "\<not> reserved_device_name ?s" using sanitized_component by blast+
  then have "\<forall>b \<in> set ?s. b < 128" by (auto simp: component_def tidy_def list_all_iff dest: name_byte_facts)
  then have "foldl clean_char [] (str_chars ?s) = ?s"
    using clean_component [of "[]" ?s] c(1) by (simp add: str_chars_ascii component_def)
  moreover have "\<not> ends_with (str ''.'') ?s" using c(1) by (simp add: component_def str_def ends_with_byte)
  ultimately show ?thesis
    using c(2) sanitized_solid [of raw] by (simp add: sanitize_component_def [of ?s] Let_def)
qed

section \<open>Claims\<close>

text \<open>C27. Any text whatever becomes one safe key component: not empty, only letters, digits, dots, dashes and
  underscores, so no path separator; no dot at either end and never two in a row, so never a step up; nothing
  Windows reads as a device, a stream or another name; and cleaning it again changes nothing.\<close>

theorem sanitized_component_safe:
  "sanitize_component raw \<noteq> [] \<and> (\<forall>b \<in> set (sanitize_component raw). ascii_alnum b \<or> b \<in> {45, 46, 95}) \<and>
   hd (sanitize_component raw) \<noteq> 46 \<and> last (sanitize_component raw) \<noteq> 46 \<and>
   successively (\<lambda>a b. \<not> (a = 46 \<and> b = 46)) (sanitize_component raw) \<and>
   windows_hazard (sanitize_component raw) = None \<and>
   sanitize_component (sanitize_component raw) = sanitize_component raw"
proof -
  have c: "component (sanitize_component raw)" "\<not> reserved_device_name (sanitize_component raw)"
    using sanitized_component by blast+
  then show ?thesis
    using component_not_hazard_char [OF c] sanitize_component_idem [of raw]
    by (auto simp: component_def tidy_def list_all_iff name_byte_def)
qed

theorem sanitized_component_safe_witness:
  "sanitize_component (str ''nul'') = str ''-nul'' \<and> windows_hazard (str ''-nul'') = None \<and>
   (ascii_alnum (last (str ''-nul'')) \<or> last (str ''-nul'') \<in> {45, 46, 95})"
proof -
  have e: "sanitize_component (str ''nul'') = str ''-nul''" by code_simp
  have "last (str ''-nul'') \<in> set (sanitize_component (str ''nul''))" unfolding e by (simp add: str_def)
  then show ?thesis using sanitized_component_safe [of "str ''nul''"] unfolding e by blast
qed

end
