(* ===== verification/Retention.thy ===== *)
theory Retention
  imports StorageNames
begin

text \<open>
  How long a recording lives, \<open>crates/cloud/src/retention.rs\<close>, with the XML scanning of
  \<open>crates/cloud/src/providers/aws.rs\<close> it uses.  The lifecycle document of S3 is text, that of Cloud Storage a
  JSON value.  Offsets into the text fall on ASCII bytes, so no slice panics.
\<close>

section \<open>The choices\<close>

abbreviation (input) ABORT_INCOMPLETE_DAYS :: nat where "ABORT_INCOMPLETE_DAYS \<equiv> 1"
abbreviation (input) DAYS_PER_MONTH :: nat where "DAYS_PER_MONTH \<equiv> 30"
abbreviation (input) S3_MAX_LIFECYCLE_RULES :: nat where "S3_MAX_LIFECYCLE_RULES \<equiv> 1000"
abbreviation (input) GCS_MAX_LIFECYCLE_RULES :: nat where "GCS_MAX_LIFECYCLE_RULES \<equiv> 100"

definition RULE_ID :: bytes where "RULE_ID = str ''jamstream-recording-retention''"

datatype retention = KeepForever | Days7 | Days30 | Days90

definition retention_default :: retention where "retention_default = Days30"

fun retention_as_str :: "retention \<Rightarrow> bytes" where
  "retention_as_str KeepForever = str ''forever''"
| "retention_as_str Days7 = str ''7d''"
| "retention_as_str Days30 = str ''30d''"
| "retention_as_str Days90 = str ''90d''"

fun retention_label :: "retention \<Rightarrow> bytes" where
  "retention_label KeepForever = str ''Keep forever''"
| "retention_label Days7 = str ''Delete after 7 days''"
| "retention_label Days30 = str ''Delete after 30 days''"
| "retention_label Days90 = str ''Delete after 90 days''"

fun retention_days :: "retention \<Rightarrow> nat option" where
  "retention_days KeepForever = None"
| "retention_days Days7 = Some 7"
| "retention_days Days30 = Some 30"
| "retention_days Days90 = Some 90"

definition billed_days :: "retention \<Rightarrow> nat" where
  "billed_days r = (case retention_days r of None \<Rightarrow> DAYS_PER_MONTH | Some d \<Rightarrow> d)"

definition is_recurring :: "retention \<Rightarrow> bool" where
  "is_recurring r \<longleftrightarrow> retention_days r = None"

text \<open>The error carries the text it quotes.\<close>

definition retention_from_str :: "bytes \<Rightarrow> (bytes + retention)" where
  "retention_from_str s =
     (let normalized = map ascii_lower (str_trim s)
      in if normalized \<in> {str ''forever'', str ''keep'', str ''keepforever'', str ''keep-forever''} then Inr KeepForever
         else if normalized \<in> {str ''7d'', str ''7'', str ''week''} then Inr Days7
         else if normalized \<in> {str ''30d'', str ''30'', str ''month''} then Inr Days30
         else if normalized \<in> {str ''90d'', str ''90'', str ''quarter''} then Inr Days90
         else Inl normalized)"

section \<open>Scanning XML\<close>

definition take_tag :: "bytes \<Rightarrow> bytes \<Rightarrow> (bytes \<times> bytes) option" where
  "take_tag xml tag =
     (let open_tag = str ''<'' @ tag @ str ''>''; close_tag = str ''</'' @ tag @ str ''>''
      in case find_sub open_tag xml of
           None \<Rightarrow> None
         | Some i \<Rightarrow>
             (let inner = drop (i + length open_tag) xml
              in case find_sub close_tag inner of
                   None \<Rightarrow> None
                 | Some e \<Rightarrow> Some (take e inner, drop (e + length close_tag) inner)))"

definition xml_value :: "bytes \<Rightarrow> bytes \<Rightarrow> bytes option" where
  "xml_value xml tag = map_option fst (take_tag xml tag)"

definition xml_unescape :: "bytes \<Rightarrow> bytes" where
  "xml_unescape s =
     str_replace (str ''&amp;'') (str ''&'')
       (str_replace (str ''&apos;'') [39]
         (str_replace (str ''&quot;'') [34]
           (str_replace (str ''&gt;'') (str ''>'')
             (str_replace (str ''&lt;'') (str ''<'') s))))"

text \<open>The escaped characters are ASCII, so bytes are as good as characters.\<close>

definition xml_escape :: "bytes \<Rightarrow> bytes" where
  "xml_escape s =
     concat (map (\<lambda>b. if b = 38 then str ''&amp;'' else if b = 60 then str ''&lt;'' else if b = 62 then str ''&gt;''
       else if b = 34 then str ''&quot;'' else if b = 39 then str ''&apos;'' else [b]) s)"

section \<open>Rules of S3\<close>

datatype lifecycle_dialect = S3v2 | SpacesV1

definition rule_id :: "bytes \<Rightarrow> bytes" where
  "rule_id prefix =
     (let tail = trim_matches (str ''/'') (case str_strip_prefix RECORDING_PREFIX prefix of None \<Rightarrow> prefix | Some t \<Rightarrow> t)
      in if tail = [] then RULE_ID else RULE_ID @ str ''-'' @ sanitize_component tail)"

definition is_ours :: "bytes option \<Rightarrow> bool" where
  "is_ours rid = (case rid of None \<Rightarrow> False | Some i \<Rightarrow> i = RULE_ID \<or> starts_with (RULE_ID @ str ''-'') i)"

definition s3_rule_body :: "bytes \<Rightarrow> retention \<Rightarrow> lifecycle_dialect \<Rightarrow> bytes" where
  "s3_rule_body prefix r dialect =
     str ''<ID>'' @ xml_escape (rule_id prefix) @ str ''</ID>'' @
     (case dialect of
        S3v2 \<Rightarrow> str ''<Filter>'' @ str ''<Prefix>'' @ xml_escape prefix @ str ''</Prefix>'' @ str ''</Filter>''
      | SpacesV1 \<Rightarrow> str ''<Prefix>'' @ xml_escape prefix @ str ''</Prefix>'') @
     str ''<Status>Enabled'' @ str ''</Status>'' @
     (case retention_days r of
        Some days \<Rightarrow> str ''<Expiration>'' @ str ''<Days>'' @ decimal_digits days @ str ''</Days>'' @ str ''</Expiration>''
      | None \<Rightarrow> []) @
     str ''<AbortIncompleteMultipartUpload>'' @ str ''<DaysAfterInitiation>'' @ decimal_digits ABORT_INCOMPLETE_DAYS @
     str ''</DaysAfterInitiation>'' @ str ''</AbortIncompleteMultipartUpload>''"

definition rule_element :: "bytes \<Rightarrow> bytes" where
  "rule_element body = str ''<Rule>'' @ body @ str ''</Rule>''"

definition s3_rule :: "bytes \<Rightarrow> retention \<Rightarrow> lifecycle_dialect \<Rightarrow> bytes" where
  "s3_rule prefix r dialect = rule_element (s3_rule_body prefix r dialect)"

definition rule_id_value :: "bytes \<Rightarrow> bytes option" where
  "rule_id_value rule = map_option xml_unescape (xml_value rule (str ''ID''))"

definition s3_replaced :: "bytes \<Rightarrow> bytes \<Rightarrow> bool" where
  "s3_replaced prefix rule \<longleftrightarrow>
     rule_id_value rule = Some (rule_id prefix) \<or>
     is_ours (rule_id_value rule) \<and> map_option xml_unescape (xml_value rule (str ''Prefix'')) = Some prefix"

text \<open>The loop over the rules of a document, keeping those that are not replaced.\<close>

lemma take_tag_shorter: "take_tag xml tag = Some (v, rest) \<Longrightarrow> length rest < length xml"
  by (auto simp: take_tag_def Let_def str_def dest!: find_at_less split: option.splits)

function s3_kept :: "bytes \<Rightarrow> bytes \<Rightarrow> bytes list" where
  "s3_kept prefix xml =
     (case take_tag xml (str ''Rule'') of
        None \<Rightarrow> []
      | Some (rule, rest) \<Rightarrow> (if \<not> s3_replaced prefix rule then [rule] else []) @ s3_kept prefix rest)"
  by pat_completeness auto

termination by (relation "measure (\<lambda>(_, xml). length xml)") (auto dest: take_tag_shorter)

declare s3_kept.simps [simp del]

text \<open>\<open>position\<close>, and the loop that makes room.\<close>

fun first_index :: "('a \<Rightarrow> bool) \<Rightarrow> 'a list \<Rightarrow> nat option" where
  "first_index P [] = None"
| "first_index P (x # xs) = (if P x then Some 0 else map_option Suc (first_index P xs))"

lemma first_index_less: "first_index P xs = Some i \<Longrightarrow> i < length xs"
  by (induction xs arbitrary: i) (auto split: if_splits)

function make_room :: "('a \<Rightarrow> bool) \<Rightarrow> nat \<Rightarrow> 'a list \<Rightarrow> 'a list option" where
  "make_room ours max_rules kept =
     (if max_rules \<le> length kept
      then case first_index ours kept of
             None \<Rightarrow> None
           | Some i \<Rightarrow> make_room ours max_rules (take i kept @ drop (Suc i) kept)
      else Some kept)"
  by pat_completeness auto

termination
  by (relation "measure (\<lambda>(_, _, kept). length kept)") (auto dest!: first_index_less)

declare make_room.simps [simp del]

definition s3_ours :: "bytes \<Rightarrow> bool" where
  "s3_ours rule = is_ours (rule_id_value rule)"

definition S3_HEAD :: bytes where
  "S3_HEAD = str ''<?xml version='' @ [34] @ str ''1.0'' @ [34] @ str '' encoding='' @ [34] @ str ''UTF-8'' @ [34] @
     str ''?><LifecycleConfiguration>''"

definition merge_s3_lifecycle ::
  "bytes \<Rightarrow> bytes \<Rightarrow> retention \<Rightarrow> lifecycle_dialect \<Rightarrow> nat \<Rightarrow> bytes option" where
  "merge_s3_lifecycle existing prefix r dialect max_rules =
     (case make_room s3_ours max_rules (s3_kept prefix existing) of
        None \<Rightarrow> None
      | Some kept \<Rightarrow>
          Some (S3_HEAD @ concat (map rule_element kept) @ s3_rule prefix r dialect @ str ''</LifecycleConfiguration>''))"

text \<open>\<open>None\<close> is the panic of \<open>expect\<close>.\<close>

definition s3_lifecycle_xml :: "bytes \<Rightarrow> retention \<Rightarrow> lifecycle_dialect \<Rightarrow> bytes option" where
  "s3_lifecycle_xml prefix r dialect = merge_s3_lifecycle [] prefix r dialect S3_MAX_LIFECYCLE_RULES"

section \<open>Rules of Cloud Storage\<close>

datatype json = JNull | JBool bool | JNum int | JStr bytes | JArr "json list" | JObj "(bytes \<times> json) list"

text \<open>\<open>get\<close>, and the indexing that gives \<open>Null\<close> where there is nothing.\<close>

fun json_get :: "json \<Rightarrow> bytes \<Rightarrow> json option" where
  "json_get (JObj fields) k = map_of fields k"
| "json_get _ k = None"

definition json_at :: "json \<Rightarrow> bytes \<Rightarrow> json" where
  "json_at v k = (case json_get v k of None \<Rightarrow> JNull | Some x \<Rightarrow> x)"

fun as_array :: "json \<Rightarrow> json list option" where
  "as_array (JArr xs) = Some xs"
| "as_array _ = None"

fun as_str :: "json \<Rightarrow> bytes option" where
  "as_str (JStr s) = Some s"
| "as_str _ = None"

definition gcs_prefixes :: "json \<Rightarrow> json list option" where
  "gcs_prefixes rule = as_array (json_at (json_at rule (str ''condition'')) (str ''matchesPrefix''))"

definition gcs_rule_is_ours :: "json \<Rightarrow> bool" where
  "gcs_rule_is_ours rule \<longleftrightarrow>
     as_str (json_at (json_at rule (str ''action'')) (str ''type'')) = Some (str ''Delete'') \<and>
     (case gcs_prefixes rule of
        None \<Rightarrow> False
      | Some ps \<Rightarrow> ps \<noteq> [] \<and>
          list_all (\<lambda>p. case as_str p of None \<Rightarrow> False | Some s \<Rightarrow> starts_with RECORDING_PREFIX s) ps)"

definition gcs_rule_matches_prefix :: "bytes \<Rightarrow> json \<Rightarrow> bool" where
  "gcs_rule_matches_prefix prefix rule \<longleftrightarrow>
     gcs_rule_is_ours rule \<and>
     (case gcs_prefixes rule of None \<Rightarrow> False | Some ps \<Rightarrow> list_all (\<lambda>p. as_str p = Some prefix) ps)"

definition gcs_rules :: "json \<Rightarrow> json list" where
  "gcs_rules bucket =
     (case Option.bind (Option.bind (json_get bucket (str ''lifecycle'')) (\<lambda>l. json_get l (str ''rule''))) as_array of
        None \<Rightarrow> [] | Some rules \<Rightarrow> rules)"

definition gcs_rule :: "bytes \<Rightarrow> nat \<Rightarrow> json" where
  "gcs_rule prefix days =
     JObj [(str ''action'', JObj [(str ''type'', JStr (str ''Delete''))]),
           (str ''condition'', JObj [(str ''age'', JNum (int days)), (str ''matchesPrefix'', JArr [JStr prefix])])]"

definition merge_gcs_lifecycle :: "json \<Rightarrow> bytes \<Rightarrow> retention \<Rightarrow> nat \<Rightarrow> json option" where
  "merge_gcs_lifecycle bucket prefix r max_rules =
     (let kept = filter (\<lambda>rule. \<not> gcs_rule_matches_prefix prefix rule) (gcs_rules bucket);
          mine = map_option (gcs_rule prefix) (retention_days r)
      in case (if mine \<noteq> None then make_room gcs_rule_is_ours max_rules kept else Some kept) of
           None \<Rightarrow> None
         | Some kept1 \<Rightarrow>
             Some (JObj [(str ''lifecycle'', JObj [(str ''rule'', JArr (kept1 @ (case mine of None \<Rightarrow> [] | Some m \<Rightarrow> [m])))])]))"

definition gcs_lifecycle_patch :: "bytes \<Rightarrow> retention \<Rightarrow> json option" where
  "gcs_lifecycle_patch prefix r = merge_gcs_lifecycle JNull prefix r GCS_MAX_LIFECYCLE_RULES"

section \<open>What the merges promise\<close>

text \<open>
  What the lifecycle merges promise: the rules that are not JamStream's survive in order, JamStream's rule for the
  prefix is there exactly once, and the provider's limit holds.
\<close>

section \<open>Searching in text put together\<close>

text \<open>A pattern whose first byte does not come again in it cannot straddle two pieces.\<close>

definition unbordered :: "bytes \<Rightarrow> bool" where
  "unbordered pat \<longleftrightarrow> pat \<noteq> [] \<and> hd pat \<notin> set (tl pat)"

lemma starts_with_Cons: "starts_with pat (b # s) \<longleftrightarrow> pat = [] \<or> hd pat = b \<and> starts_with (tl pat) s"
  by (cases pat) (auto simp: starts_with_def)

lemma overlap_cases:
  assumes "x @ y = pat @ t"
  obtains u where "x = pat @ u" | u where "pat = x @ u" "u \<noteq> []" "y = u @ t"
proof (cases "length pat \<le> length x")
  case True
  then have "x = pat @ drop (length pat) x"
    using arg_cong [OF assms, of "take (length pat)"] by (metis append_eq_conv_conj append_take_drop_id assms take_all_iff take_append)
  then show thesis using that(1) by blast
next
  case False
  then have x: "x = take (length x) pat" and y: "y = drop (length x) pat @ t"
    using arg_cong [OF assms, of "take (length x)"] arg_cong [OF assms, of "drop (length x)"] by simp_all
  then have "pat = x @ drop (length x) pat" by (metis append_take_drop_id)
  moreover have "drop (length x) pat \<noteq> []" using False by simp
  ultimately show thesis using that(2) y by blast
qed

lemma starts_with_piece:
  assumes "unbordered pat" "starts_with pat (x @ pat @ rest)" "x \<noteq> []"
  shows "starts_with pat x"
proof (rule ccontr)
  assume no: "\<not> starts_with pat x"
  obtain t where t: "x @ pat @ rest = pat @ t" using assms(2) by (auto simp: starts_with_iff)
  from t show False
  proof (cases rule: overlap_cases)
    case (1 u)
    then show False using no by simp
  next
    case (2 u)
    have "hd (pat @ rest) = hd (u @ t)" using 2(3) by (rule arg_cong)
    then have "hd u = hd pat" using 2(2) assms(1) by (simp add: hd_append unbordered_def)
    moreover have "hd u \<in> set (tl pat)" using 2(1,2) assms(3) by (cases x; cases u) auto
    ultimately show False using assms(1) by (simp add: unbordered_def)
  qed
qed

lemma find_sub_piece:
  assumes "unbordered pat" "find_sub pat x = None"
  shows "find_sub pat (x @ pat @ rest) = Some (length x)"
  using assms(2)
proof (induction x)
  case Nil
  then show ?case using assms(1) by (cases pat) (simp_all add: unbordered_def starts_with_def)
next
  case (Cons b x)
  then have "\<not> starts_with pat (b # x)" by (auto split: if_splits)
  then have "\<not> starts_with pat ((b # x) @ pat @ rest)" using starts_with_piece [OF assms(1)] by blast
  moreover have "find_sub pat x = None" using Cons.prems by (auto split: if_splits)
  ultimately show ?case using Cons.IH by simp
qed

lemma find_sub_gap:
  assumes "pat \<noteq> []" "hd pat \<notin> set x"
  shows "find_sub pat (x @ s) = map_option ((+) (length x)) (find_sub pat s)"
  using assms(2)
proof (induction x)
  case Nil
  then show ?case by (simp add: option.map_ident)
next
  case (Cons b x)
  then have "\<not> starts_with pat (b # x @ s)" using assms(1) by (auto simp: starts_with_Cons)
  then show ?case using Cons by (cases "find_sub pat s") simp_all
qed

lemma find_sub_absent: "pat \<noteq> [] \<Longrightarrow> hd pat \<notin> set x \<Longrightarrow> find_sub pat x = None"
  using find_sub_gap [of pat x "[]"] by simp

lemma find_sub_join:
  assumes "unbordered pat" "find_sub pat x = None" "find_sub pat y = None" "y = [] \<or> hd y = hd pat"
  shows "find_sub pat (x @ y) = None"
  using assms(2)
proof (induction x)
  case Nil
  then show ?case using assms(3) by simp
next
  case (Cons b x)
  have "\<not> starts_with pat ((b # x) @ y)"
  proof
    assume "starts_with pat ((b # x) @ y)"
    then obtain t where t: "(b # x) @ y = pat @ t" by (auto simp: starts_with_iff)
    have no: "\<not> starts_with pat (b # x)" using Cons.prems by (auto split: if_splits)
    from t show False
    proof (cases rule: overlap_cases)
      case (1 u)
      then show False using no by simp
    next
      case (2 u)
      then have "hd u = hd pat" using assms(4) by (auto simp: hd_append)
      moreover have "hd u \<in> set (tl pat)" using 2(1,2) by (cases u) simp_all
      ultimately show False using assms(1) by (simp add: unbordered_def)
    qed
  qed
  then show ?case using Cons by (auto split: if_splits)
qed

section \<open>Rules of a document\<close>

function rules_of :: "bytes \<Rightarrow> bytes list" where
  "rules_of xml = (case take_tag xml (str ''Rule'') of None \<Rightarrow> [] | Some (rule, rest) \<Rightarrow> rule # rules_of rest)"
  by pat_completeness auto

termination by (relation "measure length") (auto dest: take_tag_shorter)

declare rules_of.simps [simp del]

lemma s3_kept_rules: "s3_kept prefix xml = filter (\<lambda>r. \<not> s3_replaced prefix r) (rules_of xml)"
proof (induction xml rule: rules_of.induct)
  case (1 xml)
  then show ?case
    by (subst s3_kept.simps, subst rules_of.simps) (auto split: option.splits)
qed

definition rule_text :: "bytes \<Rightarrow> bool" where
  "rule_text r \<longleftrightarrow> find_sub (str ''</Rule>'') r = None"

lemma find_sub_before:
  assumes "find_sub pat s = Some e"
  shows "find_sub pat (take e s) = None"
proof -
  have "\<not> starts_with pat (drop i (take e s))" if "i < e" for i
  proof
    assume "starts_with pat (drop i (take e s))"
    then have "starts_with pat (drop i s)"
      using append_take_drop_id [of "e - i" "drop i s"] by (metis append.assoc drop_take starts_with_iff)
    then show False using assms that by (simp add: find_at_Some)
  qed
  then show ?thesis using assms by (auto simp: find_at_None)
qed

lemma rules_of_text: "r \<in> set (rules_of xml) \<Longrightarrow> rule_text r"
proof (induction xml rule: rules_of.induct)
  case (1 xml)
  show ?case
  proof (cases "take_tag xml (str ''Rule'')")
    case None
    then show ?thesis using "1.prems" by (subst (asm) rules_of.simps) simp
  next
    case (Some p)
    obtain rule rest where p: "p = (rule, rest)" by (cases p)
    have "rule_text rule"
      using Some p by (auto simp: rule_text_def take_tag_def Let_def find_sub_before str_def split: option.splits)
    then show ?thesis using "1.prems" "1.IH" [OF Some, unfolded p, OF refl] Some p by (subst (asm) rules_of.simps) auto
  qed
qed

lemma unbordered_close: "unbordered (str ''</Rule>'')" "unbordered (str ''<Rule>'')"
  by (simp_all add: unbordered_def str_def)

lemma rules_of_element:
  assumes "find_sub (str ''<Rule>'') pre = None" "rule_text r"
  shows "rules_of (pre @ rule_element r @ rest) = r # rules_of rest"
proof -
  have "find_sub (str ''<Rule>'') (pre @ rule_element r @ rest) = Some (length pre)"
    using find_sub_piece [OF unbordered_close(2) assms(1)] by (simp add: rule_element_def)
  moreover have "drop (length pre + length (str ''<Rule>'')) (pre @ rule_element r @ rest) = r @ str ''</Rule>'' @ rest"
    by (simp add: rule_element_def)
  moreover have "find_sub (str ''</Rule>'') (r @ str ''</Rule>'' @ rest) = Some (length r)"
    using find_sub_piece [OF unbordered_close(1)] assms(2) by (simp add: rule_text_def)
  moreover have "str ''<'' @ str ''Rule'' @ str ''>'' = str ''<Rule>''" "str ''</'' @ str ''Rule'' @ str ''>'' = str ''</Rule>''"
    by (simp_all add: str_def)
  ultimately have "take_tag (pre @ rule_element r @ rest) (str ''Rule'') = Some (r, rest)"
    by (simp add: take_tag_def Let_def)
  then show ?thesis by (subst rules_of.simps) simp
qed

lemma rules_of_document:
  assumes "\<forall>r \<in> set rs. rule_text r" "find_sub (str ''<Rule>'') pre = None" "find_sub (str ''<Rule>'') rest = None"
    "find_sub (str ''<Rule>'') (pre @ rest) = None"
  shows "rules_of (pre @ concat (map rule_element rs) @ rest) = rs"
  using assms(1,2,4)
proof (induction rs arbitrary: pre)
  case Nil
  then have "take_tag (pre @ rest) (str ''Rule'') = None"
    by (simp add: take_tag_def Let_def str_def)
  then show ?case by (subst rules_of.simps) simp
next
  case (Cons r rs)
  then show ?case
    using rules_of_element [of pre r] Cons.IH [of "[]"] assms(3) by simp
qed

end
