(* ===== verification/RetentionClaims.thy ===== *)
theory RetentionClaims
  imports Retention
begin

text \<open>
  The claims on the lifecycle merges, and the round trip of XML text.
\<close>

section \<open>Escaping\<close>

definition entity :: "u8 \<Rightarrow> bytes" where
  "entity b =
     (if b = 38 then str ''&amp;'' else if b = 60 then str ''&lt;'' else if b = 62 then str ''&gt;''
      else if b = 34 then str ''&quot;'' else str ''&apos;'')"

definition escape_in :: "u8 set \<Rightarrow> bytes \<Rightarrow> bytes" where
  "escape_in S s = concat (map (\<lambda>b. if b \<in> S then entity b else [b]) s)"

lemma str_replace_Nil [simp]: "str_replace pat to [] = []"
  by (simp add: str_replace.simps)

lemma str_replace_match: "pat \<noteq> [] \<Longrightarrow> str_replace pat to (pat @ t) = to @ str_replace pat to t"
  by (subst str_replace.simps) simp

lemma str_replace_skip: "\<not> starts_with pat (b # t) \<Longrightarrow> str_replace pat to (b # t) = b # str_replace pat to t"
  by (subst str_replace.simps) simp

lemma xml_escape_in: "xml_escape s = escape_in {38, 60, 62, 34, 39} s"
  unfolding xml_escape_def escape_in_def entity_def by (rule arg_cong [of _ _ concat], rule map_cong) auto

lemma str_replace_over:
  assumes "pat \<noteq> []" "hd pat \<notin> set x"
  shows "str_replace pat to (x @ t) = x @ str_replace pat to t"
  using assms(2)
proof (induction x)
  case (Cons b x)
  then have "\<not> starts_with pat (b # x @ t)" using assms(1) by (auto simp: starts_with_Cons)
  then show ?case using Cons by (simp add: str_replace_skip)
qed simp

abbreviation xml_special :: "u8 set" where
  "xml_special \<equiv> {38, 60, 62, 34, 39}"

lemma entity_start:
  assumes "b \<in> xml_special"
  shows "\<exists>e. entity b = 38 # e \<and> 38 \<notin> set e"
  using assms by (auto simp: entity_def str_def)

lemma entity_other:
  assumes "b \<in> xml_special" "c \<in> xml_special" "b \<noteq> c"
  shows "\<not> starts_with (entity c) (entity b @ t)"
  using assms by (auto simp: entity_def str_def starts_with_def)

lemma replace_entity:
  assumes "b \<in> xml_special" "c \<in> xml_special"
  shows "str_replace (entity c) [c] (entity b @ t) = (if b = c then [c] else entity b) @ str_replace (entity c) [c] t"
proof (cases "b = c")
  case True
  have "entity c \<noteq> []" using entity_start [OF assms(2)] by auto
  then show ?thesis using True by (simp add: str_replace_match)
next
  case False
  obtain e where e: "entity b = 38 # e" "38 \<notin> set e" using entity_start [OF assms(1)] by blast
  obtain f where f: "entity c = 38 # f" using entity_start [OF assms(2)] by blast
  have "\<not> starts_with (entity c) (38 # e @ t)" using entity_other [OF assms False, of t] e by simp
  then have "str_replace (entity c) [c] (entity b @ t) = 38 # str_replace (entity c) [c] (e @ t)"
    using e by (simp add: str_replace_skip)
  also have "\<dots> = 38 # e @ str_replace (entity c) [c] t" using e f by (simp add: str_replace_over)
  finally show ?thesis using e False by simp
qed

lemma replace_escaped:
  assumes "S \<subseteq> xml_special" "38 \<in> S" "c \<in> S"
  shows "str_replace (entity c) [c] (escape_in S s) = escape_in (S - {c}) s"
proof (induction s)
  case Nil
  then show ?case by (simp add: escape_in_def)
next
  case (Cons b s)
  have c: "c \<in> xml_special" using assms by blast
  show ?case
  proof (cases "b \<in> S")
    case True
    then have "b \<in> xml_special" using assms by blast
    then show ?thesis using Cons replace_entity [OF _ c] True by (simp add: escape_in_def)
  next
    case False
    obtain f where "entity c = 38 # f" using entity_start [OF c] by blast
    then have "\<not> starts_with (entity c) (b # t)" for t using False assms(2) by (auto simp: starts_with_Cons)
    then show ?thesis using Cons False by (simp add: escape_in_def str_replace_skip)
  qed
qed

lemma unescape_escape: "xml_unescape (xml_escape s) = s"
proof -
  have step: "str_replace (entity c) [c] (escape_in S s) = escape_in (S - {c}) s"
    if "S \<subseteq> xml_special" "38 \<in> S" "c \<in> S" for S c
    using replace_escaped that by blast
  have names: "str ''&amp;'' = entity 38" "str ''&lt;'' = entity 60" "str ''&gt;'' = entity 62" "str ''&quot;'' = entity 34"
    "str ''&apos;'' = entity 39" "str ''&'' = [38]" "str ''<'' = [60]" "str ''>'' = [62]"
    by (simp_all add: entity_def str_def)
  have "xml_unescape (xml_escape s) = escape_in {} s"
    unfolding xml_unescape_def xml_escape_in names
    by (simp add: step insert_Diff_if)
  then show ?thesis by (simp add: escape_in_def)
qed

lemma digit_no_angle: "k < 10 \<Longrightarrow> (of_nat (48 + k) :: u8) \<noteq> 60"
proof
  assume k: "k < 10" and "(of_nat (48 + k) :: u8) = 60"
  then have "unat (of_nat (48 + k) :: u8) = 60" by simp
  then show False using k by (simp add: unat_of_nat take_bit_nat_def del: of_nat_add)
qed

lemma digits_no_angle: "60 \<notin> set (decimal_digits n)"
proof (induction n rule: decimal_digits.induct)
  case (1 n)
  have "(of_nat (48 + n mod 10) :: u8) \<noteq> 60" by (rule digit_no_angle) simp
  then show ?case using 1 digit_no_angle [of n] by (subst decimal_digits.simps) auto
qed

lemma starts_with_Nil [simp]: "starts_with [] s"
  by (simp add: starts_with_def)

lemma escape_no_angle: "60 \<notin> set (xml_escape s)"
  by (auto simp: xml_escape_def str_def)

section \<open>The rule that is written\<close>

lemmas searching = starts_with_Cons find_sub_gap str_def escape_no_angle digits_no_angle

lemma s3_rule_body_text: "rule_text (s3_rule_body prefix r dialect)"
  by (cases "retention_days r"; cases dialect) (simp_all add: rule_text_def s3_rule_body_def searching)

lemma take_tag_first:
  assumes "60 \<notin> set x"
  shows "take_tag (str ''<ID>'' @ x @ str ''</ID>'' @ rest) (str ''ID'') = Some (x, rest)"
  using assms by (simp add: take_tag_def Let_def searching)

lemma s3_rule_body_id: "rule_id_value (s3_rule_body prefix r dialect) = Some (rule_id prefix)"
  by (simp add: rule_id_value_def xml_value_def s3_rule_body_def take_tag_first escape_no_angle unescape_escape)

lemma rule_id_ours: "is_ours (Some (rule_id prefix))"
  by (simp add: is_ours_def rule_id_def Let_def starts_with_def)

lemma replaced_ours: "s3_replaced prefix rule \<Longrightarrow> s3_ours rule"
  using rule_id_ours by (auto simp: s3_replaced_def s3_ours_def)

section \<open>Making room\<close>

lemma first_index_split:
  assumes "first_index P xs = Some i"
  shows "\<exists>ys x zs. xs = ys @ x # zs \<and> length ys = i \<and> P x \<and> filter P ys = []"
  using assms
proof (induction xs arbitrary: i)
  case (Cons x xs)
  show ?case
  proof (cases "P x")
    case True
    then have "i = 0" using Cons.prems by simp
    then show ?thesis using True by (intro exI [of _ "[]"]) simp
  next
    case False
    then obtain j where j: "first_index P xs = Some j" "i = Suc j" using Cons.prems by auto
    obtain ys y zs where "xs = ys @ y # zs" "length ys = j" "P y" "filter P ys = []" using Cons.IH [OF j(1)] by blast
    then show ?thesis using False j(2) by (intro exI [of _ "x # ys"] exI [of _ y] exI [of _ zs]) simp
  qed
qed simp

lemma first_index_None: "first_index P xs = None \<longleftrightarrow> filter P xs = []"
  by (induction xs) auto

lemma length_filter_both: "length xs = length (filter P xs) + length (filter (\<lambda>x. \<not> P x) xs)"
  by (induction xs) auto

definition made_room :: "('a \<Rightarrow> bool) \<Rightarrow> nat \<Rightarrow> 'a list \<Rightarrow> 'a list \<Rightarrow> bool" where
  "made_room ours max_rules kept kept1 \<longleftrightarrow>
     filter (\<lambda>x. \<not> ours x) kept1 = filter (\<lambda>x. \<not> ours x) kept \<and>
     filter ours kept1 = drop (Suc (length kept) - max_rules) (filter ours kept) \<and>
     length kept1 < max_rules \<and> (if length kept < max_rules then kept1 = kept else Suc (length kept1) = max_rules)"

lemma make_room_right:
  "case make_room ours max_rules kept of
     None \<Rightarrow> max_rules \<le> length (filter (\<lambda>x. \<not> ours x) kept)
   | Some kept1 \<Rightarrow> made_room ours max_rules kept kept1"
proof (induction ours max_rules kept rule: make_room.induct)
  case (1 ours m kept)
  show ?case
  proof (cases "m \<le> length kept")
    case False
    then show ?thesis by (subst make_room.simps) (simp add: made_room_def)
  next
    case full: True
    show ?thesis
    proof (cases "first_index ours kept")
      case None
      then have "length (filter (\<lambda>x. \<not> ours x) kept) = length kept"
        using length_filter_both [of kept ours] by (simp add: first_index_None)
      then show ?thesis using full None by (subst make_room.simps) simp
    next
      case (Some i)
      then obtain ys x zs where k: "kept = ys @ x # zs" "length ys = i" "ours x" "filter ours ys = []"
        using first_index_split by blast
      have cut: "take i kept @ drop (Suc i) kept = ys @ zs" using k by simp
      have "make_room ours m kept = make_room ours m (ys @ zs)"
        using full Some cut by (subst make_room.simps) simp
      moreover have "made_room ours m (ys @ zs) kept1 \<Longrightarrow> made_room ours m kept kept1" for kept1
        using full k by (auto simp: made_room_def Suc_diff_le split: if_splits)
      ultimately show ?thesis using "1.IH" [OF full Some] k by (auto simp: cut split: option.splits)
    qed
  qed
qed

section \<open>S3\<close>

lemma S3_HEAD_ruleless: "find_sub (str ''<Rule>'') S3_HEAD = None"
  "find_sub (str ''<Rule>'') (S3_HEAD @ str ''</LifecycleConfiguration>'') = None"
  "find_sub (str ''<Rule>'') (str ''</LifecycleConfiguration>'') = None"
  by (simp_all add: S3_HEAD_def str_def starts_with_Cons)

lemma merged_rules:
  assumes "\<forall>r \<in> set kept. rule_text r"
  shows "rules_of (S3_HEAD @ concat (map rule_element kept) @ s3_rule prefix r dialect @ str ''</LifecycleConfiguration>'') =
    kept @ [s3_rule_body prefix r dialect]"
  using rules_of_document [of "kept @ [s3_rule_body prefix r dialect]" S3_HEAD "str ''</LifecycleConfiguration>''"]
    assms s3_rule_body_text [of prefix r dialect] S3_HEAD_ruleless by (auto simp: s3_rule_def)

lemma kept_without_rule:
  "filter (\<lambda>x. rule_id_value x = Some (rule_id prefix)) (filter (\<lambda>x. \<not> s3_replaced prefix x) rs) = []"
  by (auto simp: filter_empty_conv s3_replaced_def)

lemma filter_host_kept: "filter (\<lambda>x. \<not> s3_replaced prefix x \<and> \<not> s3_ours x) rs = filter (\<lambda>x. \<not> s3_ours x) rs"
  by (induction rs) (auto dest: replaced_ours)

lemma make_room_subset:
  assumes "make_room ours m kept = Some kept1"
  shows "set kept1 \<subseteq> set kept"
proof
  fix x assume x: "x \<in> set kept1"
  have made: "made_room ours m kept kept1" using make_room_right [of m ours kept] assms by simp
  show "x \<in> set kept"
  proof (cases "ours x")
    case True
    then have "x \<in> set (filter ours kept1)" using x by simp
    moreover have "filter ours kept1 = drop (Suc (length kept) - m) (filter ours kept)" using made by (simp add: made_room_def)
    ultimately have "x \<in> set (drop (Suc (length kept) - m) (filter ours kept))" by metis
    then show ?thesis using set_drop_subset by fastforce
  next
    case False
    then have "x \<in> set (filter (\<lambda>x. \<not> ours x) kept1)" using x by simp
    moreover have "filter (\<lambda>x. \<not> ours x) kept1 = filter (\<lambda>x. \<not> ours x) kept" using made by (simp add: made_room_def)
    ultimately have "x \<in> set (filter (\<lambda>x. \<not> ours x) kept)" by metis
    then show ?thesis by simp
  qed
qed

text \<open>C15. Writing a session's expiry rule into a bucket's lifecycle document never costs the host a rule.  It is
  refused exactly when the host's own rules already fill the limit; otherwise the written document, read back,
  holds all the host's rules in their order and no more rules than the limit, and exactly one rule with the
  session's id, which is the new one.  While there is room, JamStream's rules for other sessions stay too; at the
  limit, the oldest of them go first and only as many as needed.\<close>

theorem s3_merge_keeps_host_rules:
  "case merge_s3_lifecycle existing prefix r dialect max_rules of
      None \<Rightarrow> max_rules \<le> length (filter (\<lambda>x. \<not> s3_ours x) (rules_of existing))
    | Some doc \<Rightarrow>
        (\<exists>kept. rules_of doc = kept @ [s3_rule_body prefix r dialect] \<and> length (rules_of doc) \<le> max_rules \<and>
           made_room s3_ours max_rules (filter (\<lambda>x. \<not> s3_replaced prefix x) (rules_of existing)) kept) \<and>
        filter (\<lambda>x. \<not> s3_ours x) (rules_of doc) = filter (\<lambda>x. \<not> s3_ours x) (rules_of existing) \<and>
        filter (\<lambda>x. rule_id_value x = Some (rule_id prefix)) (rules_of doc) = [s3_rule_body prefix r dialect]"
proof -
  let ?before = "rules_of existing" and ?mine = "s3_rule_body prefix r dialect"
  show ?thesis
  proof (cases "make_room s3_ours max_rules (s3_kept prefix existing)")
    case None
    then show ?thesis
      using make_room_right [of max_rules s3_ours "s3_kept prefix existing"]
      by (simp add: merge_s3_lifecycle_def s3_kept_rules filter_host_kept)
  next
    case (Some kept)
    have room: "made_room s3_ours max_rules (filter (\<lambda>x. \<not> s3_replaced prefix x) ?before) kept"
      using make_room_right [of max_rules s3_ours "s3_kept prefix existing"] Some by (simp add: s3_kept_rules)
    have sub: "set kept \<subseteq> set (filter (\<lambda>x. \<not> s3_replaced prefix x) ?before)"
      using make_room_subset [OF Some] by (simp add: s3_kept_rules)
    then have rules: "rules_of (S3_HEAD @ concat (map rule_element kept) @ s3_rule prefix r dialect @ str ''</LifecycleConfiguration>'') =
        kept @ [?mine]"
      by (intro merged_rules) (auto intro: rules_of_text)
    have own: "filter (\<lambda>x. rule_id_value x = Some (rule_id prefix)) kept = []"
      using sub kept_without_rule [of prefix "rules_of existing"] by (auto simp: filter_empty_conv)
    have id: "rule_id_value ?mine = Some (rule_id prefix)" by (simp add: s3_rule_body_id)
    then have "s3_ours ?mine" by (simp add: s3_ours_def rule_id_ours)
    moreover have "filter (\<lambda>x. \<not> s3_ours x) kept = filter (\<lambda>x. \<not> s3_ours x) ?before"
      using room by (simp add: made_room_def filter_host_kept)
    moreover have "length kept < max_rules" using room by (simp add: made_room_def)
    ultimately show ?thesis
      using Some room own id by (auto simp: merge_s3_lifecycle_def rules)
  qed
qed

section \<open>Cloud Storage\<close>

lemma matched_ours: "gcs_rule_matches_prefix prefix rule \<Longrightarrow> gcs_rule_is_ours rule"
  by (simp add: gcs_rule_matches_prefix_def)

lemmas reading_json = gcs_rule_is_ours_def gcs_rule_matches_prefix_def gcs_prefixes_def gcs_rule_def json_at_def str_def

lemma written_rule_matches: "starts_with RECORDING_PREFIX prefix \<Longrightarrow> gcs_rule_matches_prefix prefix (gcs_rule prefix d)"
  by (simp add: reading_json)

lemma gcs_rules_written: "gcs_rules (JObj [(str ''lifecycle'', JObj [(str ''rule'', JArr rs)])]) = rs"
  by (simp add: gcs_rules_def)

lemma gcs_host_kept:
  "filter (\<lambda>x. \<not> gcs_rule_matches_prefix prefix x \<and> \<not> gcs_rule_is_ours x) rs = filter (\<lambda>x. \<not> gcs_rule_is_ours x) rs"
  by (induction rs) (auto dest: matched_ours)

lemma session_prefix_recording: "starts_with RECORDING_PREFIX (session_prefix s)"
  by (simp add: session_prefix_def)

text \<open>The same on Cloud Storage, whose rules have no id: for a session's prefix, the patch keeps every rule that
  is not JamStream's in order, and holds exactly one rule for the prefix when the choice has an end and none when
  the recording is kept for ever.  It is refused only when there is a rule to add and the host's own fill the
  limit, and a patch that adds a rule stays within it.\<close>

theorem gcs_merge_keeps_host_rules:
  "case merge_gcs_lifecycle bucket (session_prefix s) r max_rules of
      None \<Rightarrow> r \<noteq> KeepForever \<and> max_rules \<le> length (filter (\<lambda>x. \<not> gcs_rule_is_ours x) (gcs_rules bucket))
    | Some patch \<Rightarrow>
        filter (\<lambda>x. \<not> gcs_rule_is_ours x) (gcs_rules patch) = filter (\<lambda>x. \<not> gcs_rule_is_ours x) (gcs_rules bucket) \<and>
        filter (gcs_rule_matches_prefix (session_prefix s)) (gcs_rules patch) =
          (case retention_days r of None \<Rightarrow> [] | Some d \<Rightarrow> [gcs_rule (session_prefix s) d]) \<and>
        (r = KeepForever \<or> length (gcs_rules patch) \<le> max_rules)"
proof (cases "retention_days r")
  case None
  then have "r = KeepForever" by (cases r) simp_all
  then show ?thesis
    by (simp add: merge_gcs_lifecycle_def Let_def gcs_rules_written gcs_host_kept)
next
  case (Some d)
  let ?p = "session_prefix s"
  let ?kept = "filter (\<lambda>x. \<not> gcs_rule_matches_prefix ?p x) (gcs_rules bucket)"
  have own: "gcs_rule_matches_prefix ?p (gcs_rule ?p d)" by (rule written_rule_matches [OF session_prefix_recording])
  then have ours: "gcs_rule_is_ours (gcs_rule ?p d)" by (rule matched_ours)
  have r: "r \<noteq> KeepForever" using Some by (cases r) simp_all
  show ?thesis
  proof (cases "make_room gcs_rule_is_ours max_rules ?kept")
    case None
    then show ?thesis
      using make_room_right [of max_rules gcs_rule_is_ours ?kept] Some r
      by (simp add: merge_gcs_lifecycle_def Let_def gcs_host_kept)
  next
    case room: (Some kept1)
    then have made: "made_room gcs_rule_is_ours max_rules ?kept kept1"
      using make_room_right [of max_rules gcs_rule_is_ours ?kept] by simp
    have "filter (gcs_rule_matches_prefix ?p) kept1 = []"
      using make_room_subset [OF room] by (auto simp: filter_empty_conv)
    then show ?thesis
      using made room Some own ours
      by (auto simp: merge_gcs_lifecycle_def Let_def gcs_rules_written gcs_host_kept made_room_def)
  qed
qed

section \<open>Rules of sessions\<close>

lemma trim_component:
  assumes "component s"
  shows "trim_matches (str ''/'') (str ''/'' @ s @ str ''/'') = s"
proof -
  have plain: "\<forall>b \<in> set s. b \<noteq> 47" using assms by (auto simp: component_def tidy_def list_all_iff dest: name_byte_facts)
  have ne: "s \<noteq> []" using assms by (simp add: component_def)
  obtain b t where s: "s = b # t" using ne by (cases s) auto
  obtain u c where s2: "s = u @ [c]" using ne by (cases s rule: rev_cases) auto
  have "trim_start_matches (str ''/'') (str ''/'' @ s @ str ''/'') = s @ str ''/''"
    using plain s by (simp add: trim_start_matches_def str_def)
  moreover have "trim_end_matches (str ''/'') (s @ str ''/'') = s"
    using plain s2 by (simp add: trim_end_matches_def str_def)
  ultimately show ?thesis by (simp add: trim_matches_def)
qed

lemma session_rule_id: "rule_id (session_prefix s) = RULE_ID @ str ''-'' @ sanitize_component s"
proof -
  have c: "component (sanitize_component s)" using sanitized_component by blast
  then have "sanitize_component s \<noteq> []" by (simp add: component_def)
  then show ?thesis
    using trim_component [OF c] by (simp add: rule_id_def Let_def session_prefix_def str_strip_prefix_def sanitize_component_idem)
qed

lemma session_rules_distinct:
  "rule_id (session_prefix a) = rule_id (session_prefix b) \<longleftrightarrow> session_prefix a = session_prefix b"
  unfolding session_rule_id by (simp add: session_prefix_def)

text \<open>The test for JamStream's rules on Cloud Storage does not ask for the slash after the recordings prefix, so
  a rule of the host's for a folder whose name goes on from it counts as JamStream's, and makes room at the limit.\<close>

lemma archive_rule_evicted:
  "merge_gcs_lifecycle
     (JObj [(str ''lifecycle'', JObj [(str ''rule'', JArr [gcs_rule (str ''jamstream/recordings-archive/'') 365])])])
     (session_prefix (str ''demo'')) Days7 1 =
   Some (JObj [(str ''lifecycle'', JObj [(str ''rule'', JArr [gcs_rule (session_prefix (str ''demo'')) 7])])])"
proof -
  let ?host = "gcs_rule (str ''jamstream/recordings-archive/'') 365" and ?p = "session_prefix (str ''demo'')"
  have ours: "gcs_rule_is_ours ?host" by (simp add: reading_json RECORDING_PREFIX_def starts_with_def)
  have other: "\<not> gcs_rule_matches_prefix ?p ?host" by (simp add: reading_json session_prefix_def RECORDING_PREFIX_def)
  have "make_room gcs_rule_is_ours 1 [?host] = Some []"
    using ours by (subst make_room.simps) (simp add: make_room.simps)
  then show ?thesis using other by (simp add: merge_gcs_lifecycle_def Let_def gcs_rules_written)
qed

end
