(* ===== verification/CloudTypes.thy ===== *)
theory CloudTypes
  imports StorageNames Dates Ids
begin

text \<open>
  What every cloud provider shares, \<open>crates/cloud/src/types.rs\<close>: provider names, regions, prices, machines
  and their tags, and the error of \<open>crates/cloud/src/provider.rs\<close>.
\<close>

section \<open>Tags and ports\<close>

definition SESSION_TAG_KEY :: bytes where "SESSION_TAG_KEY = str ''jamstream-session''"

abbreviation (input) DEFAULT_SESSION_PORT :: u16 where "DEFAULT_SESSION_PORT \<equiv> 43210"

definition ANY_IPV4 :: bytes where "ANY_IPV4 = str ''0.0.0.0/0''"
definition ANY_IPV6 :: bytes where "ANY_IPV6 = str ''::/0''"

record ingress_rule =
  ir_protocol :: bytes
  ir_from_port :: u16
  ir_to_port :: u16
  ir_cidrs :: "bytes list"

definition session_udp :: "u16 \<Rightarrow> bytes list \<Rightarrow> ingress_rule" where
  "session_udp port cidrs = \<lparr>ir_protocol = str ''udp'', ir_from_port = port, ir_to_port = port, ir_cidrs = cidrs\<rparr>"

definition is_only_port :: "ingress_rule \<Rightarrow> u16 \<Rightarrow> bool" where
  "is_only_port r port \<longleftrightarrow> ir_from_port r = port \<and> ir_to_port r = port"

definition is_open_to_the_internet :: "ingress_rule \<Rightarrow> bool" where
  "is_open_to_the_internet r \<longleftrightarrow>
     ir_cidrs r \<noteq> [] \<and> list_all (\<lambda>c. c = ANY_IPV4 \<or> c = ANY_IPV6 \<or> c = str ''::0/0'') (ir_cidrs r)"

section \<open>Providers\<close>

datatype provider_kind = Aws | DigitalOcean | Gcp | LocalMachine

definition ALL_PROVIDERS :: "provider_kind list" where
  "ALL_PROVIDERS = [LocalMachine, DigitalOcean, Aws, Gcp]"

fun kind_as_str :: "provider_kind \<Rightarrow> bytes" where
  "kind_as_str Aws = str ''aws''"
| "kind_as_str DigitalOcean = str ''digitalocean''"
| "kind_as_str Gcp = str ''gcp''"
| "kind_as_str LocalMachine = str ''local''"

fun has_object_storage :: "provider_kind \<Rightarrow> bool" where
  "has_object_storage LocalMachine = False"
| "has_object_storage _ = True"

definition name_list :: "provider_kind list \<Rightarrow> bytes" where
  "name_list kinds = str_join (str '', '') (map kind_as_str kinds)"

text \<open>The error message quotes the input and the names of \<open>ALL_PROVIDERS\<close>; here it carries the input.\<close>

definition kind_from_str :: "bytes \<Rightarrow> (provider_kind, bytes) result" where
  "kind_from_str s =
     (let normalized = map ascii_lower (str_trim s)
      in case find (\<lambda>k. kind_as_str k = normalized) ALL_PROVIDERS of None \<Rightarrow> Inl s | Some k \<Rightarrow> Ok k)"

datatype provider_error =
    AuthError bytes
  | QuotaExceeded bytes
  | NotFound bytes
  | RateLimited "nat option"
  | Transient bytes
  | OtherError bytes

fun while_doing :: "provider_error \<Rightarrow> bytes \<Rightarrow> provider_error" where
  "while_doing (AuthError m) op = AuthError (op @ str '': '' @ m)"
| "while_doing (QuotaExceeded m) op = QuotaExceeded (op @ str '': '' @ m)"
| "while_doing (NotFound m) op = NotFound (op @ str '': '' @ m)"
| "while_doing (Transient m) op = Transient (op @ str '': '' @ m)"
| "while_doing (OtherError m) op = OtherError (op @ str '': '' @ m)"
| "while_doing (RateLimited retry_after) op = RateLimited retry_after"

section \<open>Regions and prices\<close>

type_synonym region_id = bytes

record region =
  rg_provider :: provider_kind
  rg_id :: region_id
  rg_display :: bytes
  rg_country :: bytes

record price =
  pr_hourly_microusd :: u64
  pr_egress_microusd_per_gb :: u64
  pr_included_egress_gb :: u32

text \<open>The \<open>while\<close> that pops zeros, on a text of digits.\<close>

function pop_zeros :: "bytes \<Rightarrow> bytes" where
  "pop_zeros s = (if 2 < length s \<and> ends_with (str ''0'') s then pop_zeros (butlast s) else s)"
  by pat_completeness auto

termination by (relation "measure length") auto

declare pop_zeros.simps [simp del]

definition format_microusd :: "u64 \<Rightarrow> bytes" where
  "format_microusd microusd =
     (let dollars = unat microusd div 1000000; frac = unat microusd mod 1000000
      in str ''$'' @ decimal_digits dollars @ str ''.'' @ pop_zeros (zero_pad 6 frac))"

definition hourly_display :: "price \<Rightarrow> bytes" where
  "hourly_display p = format_microusd (pr_hourly_microusd p) @ str ''/hr''"

definition egress_display :: "price \<Rightarrow> bytes" where
  "egress_display p = format_microusd (pr_egress_microusd_per_gb p) @ str ''/GB''"

section \<open>Machines\<close>

type_synonym tags = "(bytes \<times> bytes) list"

definition session_tag :: "bytes \<Rightarrow> bytes \<times> bytes" where
  "session_tag session_id = (SESSION_TAG_KEY, session_id)"

definition session_id_from_tags :: "tags \<Rightarrow> bytes option" where
  "session_id_from_tags tags = map_option snd (find (\<lambda>(k, _). k = SESSION_TAG_KEY) tags)"

datatype instance_class = SmallInstance | StandardInstance

record launch_spec =
  ls_region :: region
  ls_instance_class :: instance_class
  ls_user_data :: bytes
  ls_tags :: tags

definition spec_session_id :: "launch_spec \<Rightarrow> bytes option" where
  "spec_session_id s = session_id_from_tags (ls_tags s)"

record cloud_instance =
  ci_provider :: provider_kind
  ci_region :: region
  ci_id :: bytes
  ci_public_ip :: "ip_addr option"
  ci_tags :: tags

definition instance_session_id :: "cloud_instance \<Rightarrow> bytes option" where
  "instance_session_id i = session_id_from_tags (ci_tags i)"

record listing =
  li_instances :: "cloud_instance list"
  li_unsearched :: "region_id list"

definition complete_listing :: "cloud_instance list \<Rightarrow> listing" where
  "complete_listing xs = \<lparr>li_instances = xs, li_unsearched = []\<rparr>"

definition listing_is_complete :: "listing \<Rightarrow> bool" where
  "listing_is_complete l \<longleftrightarrow> li_unsearched l = []"

definition unsearched_display :: "listing \<Rightarrow> bytes" where
  "unsearched_display l = str_join (str '', '') (li_unsearched l)"

lemma session_tag_found: "session_id_from_tags (session_tag s # tags) = Some s"
  by (simp add: session_id_from_tags_def session_tag_def)

section \<open>The operations of a provider\<close>

text \<open>
  The operations of a provider, the trait of \<open>crates/cloud/src/provider.rs\<close>, with its polling loop, and the region
  table of \<open>regions.rs\<close>.  An operation takes the state of the world the provider lives in and returns it.
  Sleeping is an argument, since the world moves on meanwhile.  A \<open>Duration\<close> is its number of nanoseconds; the
  sums of the loop stay far below the type's bound.
\<close>

record 'w provider =
  pv_kind :: provider_kind
  pv_name :: bytes
  pv_regions :: "'w \<Rightarrow> region list \<times> 'w"
  pv_price :: "region_id \<Rightarrow> 'w \<Rightarrow> (price, provider_error) result \<times> 'w"
  pv_launch :: "launch_spec \<Rightarrow> 'w \<Rightarrow> (cloud_instance, provider_error) result \<times> 'w"
  pv_destroy :: "region_id \<Rightarrow> bytes \<Rightarrow> 'w \<Rightarrow> (unit, provider_error) result \<times> 'w"
  pv_list_tagged :: "bytes option \<Rightarrow> 'w \<Rightarrow> (listing, provider_error) result \<times> 'w"
  pv_session_port :: u16
  pv_session_ingress :: "bytes \<Rightarrow> 'w \<Rightarrow> (ingress_rule list, provider_error) result \<times> 'w"
  pv_destroy_orphan_firewalls :: "'w \<Rightarrow> (bytes list, provider_error) result \<times> 'w"

section \<open>Waiting\<close>

record wait_opts =
  wo_initial_backoff :: nat
  wo_max_backoff :: nat
  wo_total_timeout :: nat

abbreviation (input) millis :: "nat \<Rightarrow> nat" where "millis n \<equiv> n * 1000000"

definition wait_opts_default :: wait_opts where
  "wait_opts_default =
     \<lparr>wo_initial_backoff = millis 500, wo_max_backoff = millis 8000, wo_total_timeout = millis 180000\<rparr>"

text \<open>The loop of \<open>wait_reachable\<close> from a backoff and a time elapsed; \<open>dbg\<close> prints a duration.\<close>

partial_function (option) wait_loop ::
  "(nat \<Rightarrow> bytes) \<Rightarrow> ('w \<Rightarrow> bool \<times> 'w) \<Rightarrow> (nat \<Rightarrow> 'w \<Rightarrow> 'w) \<Rightarrow> wait_opts \<Rightarrow> nat \<Rightarrow> nat \<Rightarrow> 'w \<Rightarrow>
     ((unit, provider_error) result \<times> 'w) option" where
  "wait_loop dbg probe sleep opts backoff elapsed w =
     (let (up, w) = probe w in
      if up then Some (Ok (), w)
      else if wo_total_timeout opts < elapsed + backoff
      then Some (Inl (Transient (str ''instance not reachable within '' @ dbg (wo_total_timeout opts))), w)
      else wait_loop dbg probe sleep opts (min (backoff * 2) (wo_max_backoff opts)) (elapsed + backoff) (sleep backoff w))"

definition wait_reachable ::
  "(nat \<Rightarrow> bytes) \<Rightarrow> ('w \<Rightarrow> bool \<times> 'w) \<Rightarrow> (nat \<Rightarrow> 'w \<Rightarrow> 'w) \<Rightarrow> wait_opts \<Rightarrow> 'w \<Rightarrow>
     ((unit, provider_error) result \<times> 'w) option" where
  "wait_reachable dbg probe sleep opts w = wait_loop dbg probe sleep opts (wo_initial_backoff opts) 0 w"

section \<open>The region table\<close>

record region_table =
  rt_candidates :: "(region \<times> price) list"
  rt_unavailable :: "region list"

fun price_all ::
  "'w provider \<Rightarrow> region list \<Rightarrow> region_table \<Rightarrow> 'w \<Rightarrow> (region_table, provider_error) result \<times> 'w" where
  "price_all p [] table w = (Ok table, w)"
| "price_all p (r # rs) table w =
     (case pv_price p (rg_id r) w of
        (Inr price, w) \<Rightarrow> price_all p rs (table\<lparr>rt_candidates := rt_candidates table @ [(r, price)]\<rparr>) w
      | (Inl err, w) \<Rightarrow>
          (case err of
             NotFound reason \<Rightarrow> price_all p rs (table\<lparr>rt_unavailable := rt_unavailable table @ [r]\<rparr>) w
           | _ \<Rightarrow> (Inl err, w)))"

definition priced_regions :: "'w provider \<Rightarrow> 'w \<Rightarrow> (region_table, provider_error) result \<times> 'w" where
  "priced_regions p w =
     (let (regions, w) = pv_regions p w in
      if regions = [] then (Inl (OtherError (kind_as_str (pv_kind p) @ str '' offers no regions'')), w)
      else
        (case price_all p regions \<lparr>rt_candidates = [], rt_unavailable = []\<rparr> w of
           (Inl err, w) \<Rightarrow> (Inl err, w)
         | (Inr table, w) \<Rightarrow>
             if rt_candidates table = []
             then (Inl (OtherError (str ''no '' @ kind_as_str (pv_kind p) @
                     str '' region can run this session: the machine size is unavailable in all '' @
                     decimal_digits (length regions) @ str '' regions the account offers'')), w)
             else (Ok table, w)))"

end
