(* ===== verification/Sweeper.thy ===== *)
theory Sweeper
  imports CloudTypes
begin

text \<open>
  The orphan sweeper, \<open>crates/cloud/src/sweeper.rs\<close>.
\<close>

datatype sweep_filter = SweepAll | SweepSession bytes | SweepExcluding bytes

fun sweep_matches :: "sweep_filter \<Rightarrow> cloud_instance \<Rightarrow> bool" where
  "sweep_matches SweepAll i = True"
| "sweep_matches (SweepSession s) i = (instance_session_id i = Some s)"
| "sweep_matches (SweepExcluding s) i = (instance_session_id i \<noteq> Some s)"

record provider_search =
  ps_provider :: bytes
  ps_kind :: provider_kind
  ps_unsearched :: "region_id list"

definition search_is_complete :: "provider_search \<Rightarrow> bool" where
  "search_is_complete s \<longleftrightarrow> ps_unsearched s = []"

record sweep_report =
  sw_found :: "cloud_instance list"
  sw_destroyed :: "cloud_instance list"
  sw_failed :: "(cloud_instance \<times> provider_error) list"
  sw_unswept :: "(bytes \<times> provider_error) list"
  sw_searches :: "provider_search list"
  sw_firewalls_removed :: "bytes list"

definition sweep_report_default :: sweep_report where
  "sweep_report_default =
     \<lparr>sw_found = [], sw_destroyed = [], sw_failed = [], sw_unswept = [], sw_searches = [], sw_firewalls_removed = []\<rparr>"

definition sweep_is_clean :: "sweep_report \<Rightarrow> bool" where
  "sweep_is_clean r \<longleftrightarrow> sw_failed r = [] \<and> sw_unswept r = [] \<and> list_all search_is_complete (sw_searches r)"

definition search_for :: "sweep_report \<Rightarrow> bytes \<Rightarrow> provider_search option" where
  "search_for r name = find (\<lambda>s. ps_provider s = name) (sw_searches r)"

section \<open>One sweep\<close>

definition sweep_instance ::
  "'w provider \<Rightarrow> bool \<Rightarrow> cloud_instance \<Rightarrow> sweep_report \<times> 'w \<Rightarrow> sweep_report \<times> 'w" where
  "sweep_instance p dry_run inst rw =
     (let (report, w) = rw;
          report = report\<lparr>sw_found := sw_found report @ [inst]\<rparr>
      in if dry_run then (report, w)
         else
           (case pv_destroy p (rg_id (ci_region inst)) (ci_id inst) w of
              (Inr _, w) \<Rightarrow> (report\<lparr>sw_destroyed := sw_destroyed report @ [inst]\<rparr>, w)
            | (Inl e, w) \<Rightarrow> (report\<lparr>sw_failed := sw_failed report @ [(inst, e)]\<rparr>, w)))"

definition sweep_firewalls :: "'w provider \<Rightarrow> sweep_report \<times> 'w \<Rightarrow> sweep_report \<times> 'w" where
  "sweep_firewalls p rw =
     (let (report, w) = rw in
      case pv_destroy_orphan_firewalls p w of
        (Inr names, w) \<Rightarrow> (report\<lparr>sw_firewalls_removed := sw_firewalls_removed report @ names\<rparr>, w)
      | (Inl e, w) \<Rightarrow> (report, w))"

definition sweep_provider ::
  "sweep_filter \<Rightarrow> bool \<Rightarrow> 'w provider \<Rightarrow> sweep_report \<times> 'w \<Rightarrow> sweep_report \<times> 'w" where
  "sweep_provider flt dry_run p rw =
     (let (report, w) = rw in
      case pv_list_tagged p None w of
        (Inl e, w) \<Rightarrow> (report\<lparr>sw_unswept := sw_unswept report @ [(pv_name p, e)]\<rparr>, w)
      | (Inr listing, w) \<Rightarrow>
          (let report = report\<lparr>sw_searches := sw_searches report @
                 [\<lparr>ps_provider = pv_name p, ps_kind = pv_kind p, ps_unsearched = li_unsearched listing\<rparr>]\<rparr>;
               rw = fold (sweep_instance p dry_run) (filter (sweep_matches flt) (li_instances listing)) (report, w)
           in if dry_run then rw else sweep_firewalls p rw))"

text \<open>The providers in order, each with its own world.\<close>

fun sweep_all ::
  "sweep_filter \<Rightarrow> bool \<Rightarrow> ('w provider \<times> 'w) list \<Rightarrow> sweep_report \<Rightarrow> sweep_report \<times> 'w list" where
  "sweep_all flt dry_run [] report = (report, [])"
| "sweep_all flt dry_run ((p, w) # ps) report =
     (let (report, w) = sweep_provider flt dry_run p (report, w);
          (report, ws) = sweep_all flt dry_run ps report
      in (report, w # ws))"

definition sweep :: "('w provider \<times> 'w) list \<Rightarrow> sweep_filter \<Rightarrow> bool \<Rightarrow> sweep_report \<times> 'w list" where
  "sweep providers flt dry_run = sweep_all flt dry_run providers sweep_report_default"

section \<open>Closing a session's firewall\<close>

definition FIREWALL_WAIT :: wait_opts where
  "FIREWALL_WAIT =
     \<lparr>wo_initial_backoff = millis 1000, wo_max_backoff = millis 8000, wo_total_timeout = millis 90000\<rparr>"

text \<open>What one round learns: the names removed, the last refusal and whether the session still has ingress.\<close>

definition close_round ::
  "'w provider \<Rightarrow> bytes \<Rightarrow> bytes list \<Rightarrow> provider_error option \<Rightarrow> 'w \<Rightarrow>
     bytes list \<times> provider_error option \<times> bool \<times> 'w" where
  "close_round p session removed refusal w =
     (let (swept, w) = pv_destroy_orphan_firewalls p w;
          removed = (case swept of Inr names \<Rightarrow> removed @ names | Inl _ \<Rightarrow> removed);
          refusal = (case swept of Inr _ \<Rightarrow> refusal | Inl err \<Rightarrow> Some err)
      in case pv_session_ingress p session w of
           (Inr rules, w) \<Rightarrow> (removed, refusal, rules = [], w)
         | (Inl err, w) \<Rightarrow> (removed, Some err, False, w))"

partial_function (option) close_loop ::
  "(nat \<Rightarrow> bytes) \<Rightarrow> 'w provider \<Rightarrow> bytes \<Rightarrow> (nat \<Rightarrow> 'w \<Rightarrow> 'w) \<Rightarrow> wait_opts \<Rightarrow> nat \<Rightarrow> nat \<Rightarrow> bytes list \<Rightarrow>
     provider_error option \<Rightarrow> 'w \<Rightarrow> ((bytes list, provider_error) result \<times> 'w) option" where
  "close_loop dbg p session sleep opts backoff elapsed removed refusal w =
     (let (removed, refusal, closed, w) = close_round p session removed refusal w in
      if closed then Some (Ok removed, w)
      else if wo_total_timeout opts < elapsed + backoff
      then Some (Inl (case refusal of
                        Some err \<Rightarrow> err
                      | None \<Rightarrow> Transient (str ''session '' @ session @ str '' still has ingress open after '' @
                                  dbg (wo_total_timeout opts))), w)
      else close_loop dbg p session sleep opts (min (backoff * 2) (wo_max_backoff opts)) (elapsed + backoff)
             removed refusal (sleep backoff w))"

definition close_session_firewall ::
  "(nat \<Rightarrow> bytes) \<Rightarrow> 'w provider \<Rightarrow> bytes \<Rightarrow> (nat \<Rightarrow> 'w \<Rightarrow> 'w) \<Rightarrow> wait_opts \<Rightarrow> 'w \<Rightarrow>
     ((bytes list, provider_error) result \<times> 'w) option" where
  "close_session_firewall dbg p session sleep opts w =
     close_loop dbg p session sleep opts (wo_initial_backoff opts) 0 [] None w"

end
