(* ===== verification/MockCloud.thy ===== *)
theory MockCloud
  imports Sweeper "HOL-Library.AList" "HOL-Library.List_Lexorder" "HOL-Library.Multiset"
begin

text \<open>
  The in-memory provider, \<open>crates/cloud/src/mock.rs\<close>: a complete implementation of the trait that tests, the
  server and the command line run against.  Its lock is never held across an await, so a call is one step.  The
  \<open>HashMap\<close> of firewalls is a list of its entries in the order it iterates.
\<close>

section \<open>State\<close>

datatype mock_call =
    CallRegions
  | CallPrice region_id
  | CallLaunch region_id "bytes option"
  | CallDestroy region_id bytes
  | CallListTagged "bytes option"
  | CallCreateFirewall bytes u16
  | CallDestroyOrphanFirewalls

record mock_state =
  ms_instances :: "cloud_instance list"
  ms_firewalls :: "(bytes \<times> ingress_rule list) list"
  ms_next_id :: u64
  ms_next_ip :: u32
  ms_price_failures :: "provider_error list"
  ms_launch_failures :: "provider_error list"
  ms_destroy_failures :: "provider_error list"
  ms_list_failures :: "provider_error list"
  ms_firewall_failures :: "provider_error list"
  ms_unsearchable :: "region_id list"
  ms_calls :: "mock_call list"

definition mock_state_default :: mock_state where
  "mock_state_default =
     \<lparr>ms_instances = [], ms_firewalls = [], ms_next_id = 0, ms_next_ip = 0, ms_price_failures = [],
      ms_launch_failures = [], ms_destroy_failures = [], ms_list_failures = [], ms_firewall_failures = [],
      ms_unsearchable = [], ms_calls = []\<rparr>"

record mock_config =
  mk_kind :: provider_kind
  mk_regions :: "region list"
  mk_prices :: "region_id \<rightharpoonup> price"
  mk_session_port :: u16

section \<open>Building one\<close>

definition mock_new :: "provider_kind \<Rightarrow> mock_config" where
  "mock_new kind = \<lparr>mk_kind = kind, mk_regions = [], mk_prices = Map.empty, mk_session_port = DEFAULT_SESSION_PORT\<rparr>"

definition with_session_port :: "mock_config \<Rightarrow> u16 \<Rightarrow> mock_config" where
  "with_session_port m port = m\<lparr>mk_session_port := port\<rparr>"

definition with_region :: "mock_config \<Rightarrow> region \<Rightarrow> price \<Rightarrow> mock_config" where
  "with_region m region price =
     m\<lparr>mk_prices := (mk_prices m)(rg_id region \<mapsto> price), mk_regions := mk_regions m @ [region]\<rparr>"

definition with_unpriced_region :: "mock_config \<Rightarrow> region \<Rightarrow> mock_config" where
  "with_unpriced_region m region = m\<lparr>mk_regions := mk_regions m @ [region]\<rparr>"

definition with_default_regions :: "provider_kind \<Rightarrow> mock_config" where
  "with_default_regions kind =
     with_region
       (with_region (mock_new kind)
         \<lparr>rg_provider = kind, rg_id = str ''mock-east'', rg_display = str ''Mock East'', rg_country = str ''US''\<rparr>
         \<lparr>pr_hourly_microusd = 16800, pr_egress_microusd_per_gb = 90000, pr_included_egress_gb = 100\<rparr>)
       \<lparr>rg_provider = kind, rg_id = str ''mock-west'', rg_display = str ''Mock West'', rg_country = str ''US''\<rparr>
       \<lparr>pr_hourly_microusd = 24000, pr_egress_microusd_per_gb = 10000, pr_included_egress_gb = 1000\<rparr>"

definition fail_next_prices :: "nat \<Rightarrow> provider_error \<Rightarrow> mock_state \<Rightarrow> mock_state" where
  "fail_next_prices n err s = s\<lparr>ms_price_failures := ms_price_failures s @ replicate n err\<rparr>"

definition fail_next_launches :: "nat \<Rightarrow> provider_error \<Rightarrow> mock_state \<Rightarrow> mock_state" where
  "fail_next_launches n err s = s\<lparr>ms_launch_failures := ms_launch_failures s @ replicate n err\<rparr>"

definition fail_next_destroys :: "nat \<Rightarrow> provider_error \<Rightarrow> mock_state \<Rightarrow> mock_state" where
  "fail_next_destroys n err s = s\<lparr>ms_destroy_failures := ms_destroy_failures s @ replicate n err\<rparr>"

definition fail_next_firewall_sweeps :: "nat \<Rightarrow> provider_error \<Rightarrow> mock_state \<Rightarrow> mock_state" where
  "fail_next_firewall_sweeps n err s = s\<lparr>ms_firewall_failures := ms_firewall_failures s @ replicate n err\<rparr>"

definition fail_next_lists :: "nat \<Rightarrow> provider_error \<Rightarrow> mock_state \<Rightarrow> mock_state" where
  "fail_next_lists n err s = s\<lparr>ms_list_failures := ms_list_failures s @ replicate n err\<rparr>"

text \<open>\<open>None\<close> is the panic of the assertion.\<close>

definition unsearchable_region :: "mock_config \<Rightarrow> region_id \<Rightarrow> mock_state \<Rightarrow> mock_state option" where
  "unsearchable_region m region s =
     (if list_ex (\<lambda>r. rg_id r = region) (mk_regions m)
      then Some (s\<lparr>ms_unsearchable := ms_unsearchable s @ [region]\<rparr>) else None)"

definition build_instance :: "provider_kind \<Rightarrow> region \<Rightarrow> tags \<Rightarrow> mock_state \<Rightarrow> cloud_instance \<times> mock_state" where
  "build_instance kind region tags s =
     (let s = s\<lparr>ms_next_id := ms_next_id s + 1, ms_next_ip := ms_next_ip s + 1\<rparr>;
          ip = ms_next_ip s
      in (\<lparr>ci_provider = kind, ci_region = region,
           ci_id = str ''mock-'' @ zero_pad 6 (unat (ms_next_id s)),
           ci_public_ip = Some (V4 [10, 0, ucast (drop_bit 8 ip), ucast (and ip 255)]),
           ci_tags = tags\<rparr>, s))"

definition seed_instance :: "mock_config \<Rightarrow> region \<Rightarrow> tags \<Rightarrow> mock_state \<Rightarrow> cloud_instance \<times> mock_state" where
  "seed_instance m region tags s =
     (let (inst, s) = build_instance (mk_kind m) region tags s
      in (inst, s\<lparr>ms_instances := ms_instances s @ [inst]\<rparr>))"

section \<open>The provider's operations\<close>

definition log_call :: "mock_call \<Rightarrow> mock_state \<Rightarrow> mock_state" where
  "log_call c s = s\<lparr>ms_calls := ms_calls s @ [c]\<rparr>"

definition mock_region :: "mock_config \<Rightarrow> region_id \<Rightarrow> (region, provider_error) result" where
  "mock_region m rid =
     (case find (\<lambda>r. rg_id r = rid) (mk_regions m) of
        Some r \<Rightarrow> Ok r | None \<Rightarrow> Inl (NotFound (str ''region '' @ rid)))"

definition mock_regions :: "mock_config \<Rightarrow> mock_state \<Rightarrow> region list \<times> mock_state" where
  "mock_regions m s = (mk_regions m, log_call CallRegions s)"

definition mock_price :: "mock_config \<Rightarrow> region_id \<Rightarrow> mock_state \<Rightarrow> (price, provider_error) result \<times> mock_state" where
  "mock_price m rid s =
     (let s = log_call (CallPrice rid) s in
      case ms_price_failures s of
        err # rest \<Rightarrow> (Inl err, s\<lparr>ms_price_failures := rest\<rparr>)
      | [] \<Rightarrow>
          (case mock_region m rid of
             Inl err \<Rightarrow> (Inl err, s)
           | Inr _ \<Rightarrow>
               (case mk_prices m rid of
                  Some p \<Rightarrow> (Ok p, s)
                | None \<Rightarrow> (Inl (NotFound (str ''price for region '' @ rid)), s))))"

definition mock_launch ::
  "mock_config \<Rightarrow> launch_spec \<Rightarrow> mock_state \<Rightarrow> (cloud_instance, provider_error) result \<times> mock_state" where
  "mock_launch m spec s =
     (let s = log_call (CallLaunch (rg_id (ls_region spec)) (spec_session_id spec)) s in
      case ms_launch_failures s of
        err # rest \<Rightarrow> (Inl err, s\<lparr>ms_launch_failures := rest\<rparr>)
      | [] \<Rightarrow>
          (case mock_region m (rg_id (ls_region spec)) of
             Inl err \<Rightarrow> (Inl err, s)
           | Inr region \<Rightarrow>
               (let s = (case spec_session_id spec of
                           None \<Rightarrow> s
                         | Some session \<Rightarrow>
                             (let s = log_call (CallCreateFirewall session (mk_session_port m)) s
                              in s\<lparr>ms_firewalls :=
                                     AList.update session [session_udp (mk_session_port m) [ANY_IPV4, ANY_IPV6]]
                                       (ms_firewalls s)\<rparr>));
                    (inst, s) = build_instance (mk_kind m) region (ls_tags spec) s
                in (Ok inst, s\<lparr>ms_instances := ms_instances s @ [inst]\<rparr>))))"

definition is_instance :: "region_id \<Rightarrow> bytes \<Rightarrow> cloud_instance \<Rightarrow> bool" where
  "is_instance region iid i \<longleftrightarrow> ci_id i = iid \<and> rg_id (ci_region i) = region"

definition mock_destroy :: "region_id \<Rightarrow> bytes \<Rightarrow> mock_state \<Rightarrow> (unit, provider_error) result \<times> mock_state" where
  "mock_destroy region iid s =
     (let s = log_call (CallDestroy region iid) s in
      case ms_destroy_failures s of
        err # rest \<Rightarrow> (Inl err, s\<lparr>ms_destroy_failures := rest\<rparr>)
      | [] \<Rightarrow>
          (let before = length (ms_instances s);
               s = s\<lparr>ms_instances := filter (\<lambda>i. \<not> is_instance region iid i) (ms_instances s)\<rparr>
           in if length (ms_instances s) = before
              then (Inl (NotFound (str ''instance '' @ iid @ str '' in region '' @ region)), s)
              else (Ok (), s)))"

definition tag_wanted :: "bytes option \<Rightarrow> cloud_instance \<Rightarrow> bool" where
  "tag_wanted want i =
     (case (instance_session_id i, want) of
        (Some sid, Some w) \<Rightarrow> sid = w
      | (Some _, None) \<Rightarrow> True
      | (None, _) \<Rightarrow> False)"

definition mock_list_tagged :: "bytes option \<Rightarrow> mock_state \<Rightarrow> (listing, provider_error) result \<times> mock_state" where
  "mock_list_tagged want s =
     (let s = log_call (CallListTagged want) s in
      case ms_list_failures s of
        err # rest \<Rightarrow> (Inl err, s\<lparr>ms_list_failures := rest\<rparr>)
      | [] \<Rightarrow>
          (let unsearched = remdups_adj (sort (ms_unsearchable s))
           in (Ok \<lparr>li_instances = filter (tag_wanted want)
                     (filter (\<lambda>i. rg_id (ci_region i) \<notin> set unsearched) (ms_instances s)),
                   li_unsearched = unsearched\<rparr>, s)))"

definition mock_session_ingress ::
  "bytes \<Rightarrow> mock_state \<Rightarrow> (ingress_rule list, provider_error) result \<times> mock_state" where
  "mock_session_ingress session s =
     (Ok (case map_of (ms_firewalls s) session of None \<Rightarrow> [] | Some rules \<Rightarrow> rules), s)"

definition mock_destroy_orphan_firewalls :: "mock_state \<Rightarrow> (bytes list, provider_error) result \<times> mock_state" where
  "mock_destroy_orphan_firewalls s =
     (let s = log_call CallDestroyOrphanFirewalls s in
      case ms_firewall_failures s of
        err # rest \<Rightarrow> (Inl err, s\<lparr>ms_firewall_failures := rest\<rparr>)
      | [] \<Rightarrow>
          (let live = List.map_filter instance_session_id (ms_instances s);
               orphans = filter (\<lambda>session. session \<notin> set live) (map fst (ms_firewalls s))
           in (Ok orphans, s\<lparr>ms_firewalls := filter (\<lambda>(session, _). session \<notin> set orphans) (ms_firewalls s)\<rparr>)))"

definition MOCK_NAME :: bytes where "MOCK_NAME = str ''mock''"

definition mock_provider :: "mock_config \<Rightarrow> mock_state provider" where
  "mock_provider m =
     \<lparr>pv_kind = mk_kind m, pv_name = MOCK_NAME, pv_regions = mock_regions m, pv_price = mock_price m,
      pv_launch = mock_launch m, pv_destroy = mock_destroy, pv_list_tagged = mock_list_tagged,
      pv_session_port = mk_session_port m, pv_session_ingress = mock_session_ingress,
      pv_destroy_orphan_firewalls = mock_destroy_orphan_firewalls\<rparr>"

section \<open>The contract of a provider\<close>

text \<open>
  The contract a provider keeps, as a locale over its state, the sweep of one provider under it, and its
  interpretation on the in-memory provider.  The polling loops are compared with a walk over a list of waits.
\<close>

section \<open>Steps of a sweep\<close>

lemma sweep_instance_ok:
  "pv_destroy p (rg_id (ci_region i)) (ci_id i) w = (Inr u, w2) \<Longrightarrow> sweep_instance p False i (report, w) =
     (report\<lparr>sw_found := sw_found report @ [i], sw_destroyed := sw_destroyed report @ [i]\<rparr>, w2)"
  by (simp add: sweep_instance_def Let_def)

lemma sweep_instance_err:
  "pv_destroy p (rg_id (ci_region i)) (ci_id i) w = (Inl e, w2) \<Longrightarrow> sweep_instance p False i (report, w) =
     (report\<lparr>sw_found := sw_found report @ [i], sw_failed := sw_failed report @ [(i, e)]\<rparr>, w2)"
  by (simp add: sweep_instance_def Let_def)

lemma sweep_instance_dry:
  "sweep_instance p True i (report, w) = (report\<lparr>sw_found := sw_found report @ [i]\<rparr>, w)"
  by (simp add: sweep_instance_def Let_def)

lemma sweep_firewalls_searches: "sw_searches (fst (sweep_firewalls p rw)) = sw_searches (fst rw)"
  by (auto simp: sweep_firewalls_def Let_def split: sum.splits prod.splits)

lemma sweep_instance_searches: "sw_searches (fst (sweep_instance p dry i rw)) = sw_searches (fst rw)"
  by (auto simp: sweep_instance_def Let_def split: sum.splits prod.splits)

lemma fold_searches: "sw_searches (fst (fold (sweep_instance p dry) is rw)) = sw_searches (fst rw)"
  by (induction "is" arbitrary: rw) (simp_all add: sweep_instance_searches)

lemma sweep_answered:
  assumes "pv_list_tagged p None w = (Inr l, w0)"
  shows "sweep_provider flt dry p (report, w) =
    (let rw = fold (sweep_instance p dry) (filter (sweep_matches flt) (li_instances l))
       (report\<lparr>sw_searches := sw_searches report @
          [\<lparr>ps_provider = pv_name p, ps_kind = pv_kind p, ps_unsearched = li_unsearched l\<rparr>]\<rparr>, w0)
     in if dry then rw else sweep_firewalls p rw)"
  using assms by (simp add: sweep_provider_def Let_def)

lemma sweep_refused:
  "pv_list_tagged p None w = (Inl e, w0) \<Longrightarrow>
   sweep_provider flt dry p (report, w) = (report\<lparr>sw_unswept := sw_unswept report @ [(pv_name p, e)]\<rparr>, w0)"
  by (simp add: sweep_provider_def)

section \<open>The contract\<close>

definition live_session :: "cloud_instance list \<Rightarrow> bytes \<Rightarrow> bool" where
  "live_session is s \<longleftrightarrow> (\<exists>i \<in> set is. instance_session_id i = Some s)"

locale cloud_laws =
  fixes p :: "'w provider"
    and running :: "'w \<Rightarrow> cloud_instance list"
    and ingress :: "'w \<Rightarrow> bytes \<Rightarrow> ingress_rule list"
  assumes listed: "pv_list_tagged p want w = (Inr l, w1) \<Longrightarrow>
      running w1 = running w \<and> ingress w1 = ingress w \<and>
      li_instances l = filter (\<lambda>i. tag_wanted want i \<and> rg_id (ci_region i) \<notin> set (li_unsearched l)) (running w)"
    and not_listed: "pv_list_tagged p want w = (Inl e, w1) \<Longrightarrow> running w1 = running w \<and> ingress w1 = ingress w"
    and destroyed: "pv_destroy p rid iid w = (Inr u, w1) \<Longrightarrow>
      running w1 = filter (\<lambda>i. \<not> is_instance rid iid i) (running w) \<and> ingress w1 = ingress w"
    and not_destroyed: "pv_destroy p rid iid w = (Inl e, w1) \<Longrightarrow> running w1 = running w \<and> ingress w1 = ingress w"
    and orphans: "pv_destroy_orphan_firewalls p w = (res, w1) \<Longrightarrow>
      running w1 = running w \<and> (live_session (running w) s \<longrightarrow> ingress w1 s = ingress w s)"
    and opened: "pv_session_ingress p s w = (Inr rules, w1) \<Longrightarrow>
      running w1 = running w \<and> ingress w1 = ingress w \<and> rules = ingress w s"
begin

definition gone :: "cloud_instance list \<Rightarrow> cloud_instance \<Rightarrow> bool" where
  "gone ds i \<longleftrightarrow> (\<exists>d \<in> set ds. is_instance (rg_id (ci_region d)) (ci_id d) i)"

lemma sweep_instances:
  assumes "fold (sweep_instance p False) insts (report, w) = (report1, w1)"
  shows "\<exists>ds fs. sw_destroyed report1 = sw_destroyed report @ ds \<and> sw_failed report1 = sw_failed report @ fs \<and>
    mset insts = mset ds + mset (map fst fs) \<and> running w1 = filter (\<lambda>i. \<not> gone ds i) (running w) \<and> ingress w1 = ingress w"
  using assms
proof (induction insts arbitrary: report w)
  case Nil
  then show ?case by (intro exI [of _ "[]"]) (simp add: gone_def)
next
  case (Cons i insts)
  obtain res w2 where d: "pv_destroy p (rg_id (ci_region i)) (ci_id i) w = (res, w2)" by fastforce
  show ?case
  proof (cases res)
    case (Inr u)
    let ?r = "report\<lparr>sw_found := sw_found report @ [i], sw_destroyed := sw_destroyed report @ [i]\<rparr>"
    have "fold (sweep_instance p False) insts (?r, w2) = (report1, w1)"
      using Cons.prems sweep_instance_ok [OF d [unfolded Inr]] by simp
    from Cons.IH [OF this] obtain ds fs where ih: "sw_destroyed report1 = sw_destroyed ?r @ ds"
      "sw_failed report1 = sw_failed ?r @ fs" "mset insts = mset ds + mset (map fst fs)"
      "running w1 = filter (\<lambda>i. \<not> gone ds i) (running w2)" "ingress w1 = ingress w2" by blast
    have "running w1 = filter (\<lambda>x. \<not> gone (i # ds) x) (running w)"
      using ih(4) destroyed [OF d [unfolded Inr]] by (auto simp: gone_def intro: filter_cong)
    then show ?thesis
      using ih destroyed [OF d [unfolded Inr]] by (intro exI [of _ "i # ds"] exI [of _ fs]) simp
  next
    case (Inl e)
    let ?r = "report\<lparr>sw_found := sw_found report @ [i], sw_failed := sw_failed report @ [(i, e)]\<rparr>"
    have "fold (sweep_instance p False) insts (?r, w2) = (report1, w1)"
      using Cons.prems sweep_instance_err [OF d [unfolded Inl]] by simp
    from Cons.IH [OF this] obtain ds fs where ih: "sw_destroyed report1 = sw_destroyed ?r @ ds"
      "sw_failed report1 = sw_failed ?r @ fs" "mset insts = mset ds + mset (map fst fs)"
      "running w1 = filter (\<lambda>i. \<not> gone ds i) (running w2)" "ingress w1 = ingress w2" by blast
    then show ?thesis
      using not_destroyed [OF d [unfolded Inl]] by (intro exI [of _ ds] exI [of _ "(i, e) # fs"]) simp
  qed
qed

text \<open>What a sweep does to one provider that answers.\<close>

lemma sweep_one:
  assumes "sweep_provider flt False p (report, w) = (report1, w1)" "pv_list_tagged p None w = (Inr l, w0)"
  shows "\<exists>ds fs. sw_destroyed report1 = sw_destroyed report @ ds \<and> sw_failed report1 = sw_failed report @ fs \<and>
    mset (filter (sweep_matches flt) (li_instances l)) = mset ds + mset (map fst fs) \<and>
    running w1 = filter (\<lambda>i. \<not> gone ds i) (running w) \<and>
    (\<forall>s. live_session (running w1) s \<longrightarrow> ingress w1 s = ingress w s)"
proof -
  let ?r = "report\<lparr>sw_searches := sw_searches report @
    [\<lparr>ps_provider = pv_name p, ps_kind = pv_kind p, ps_unsearched = li_unsearched l\<rparr>]\<rparr>"
  let ?insts = "filter (sweep_matches flt) (li_instances l)"
  obtain r2 w2 where f: "fold (sweep_instance p False) ?insts (?r, w0) = (r2, w2)" by fastforce
  have fw: "sweep_firewalls p (r2, w2) = (report1, w1)"
    using assms(1) f sweep_answered [OF assms(2), of flt False report] by (simp add: Let_def)
  obtain res w3 where o: "pv_destroy_orphan_firewalls p w2 = (res, w3)" by fastforce
  have w3: "w3 = w1" "sw_destroyed report1 = sw_destroyed r2" "sw_failed report1 = sw_failed r2"
    using fw o by (auto simp: sweep_firewalls_def Let_def split: sum.splits)
  from sweep_instances [OF f] obtain ds fs where i: "sw_destroyed r2 = sw_destroyed ?r @ ds"
    "sw_failed r2 = sw_failed ?r @ fs" "mset ?insts = mset ds + mset (map fst fs)"
    "running w2 = filter (\<lambda>i. \<not> gone ds i) (running w0)" "ingress w2 = ingress w0" by blast
  have "running w1 = running w2" "\<forall>s. live_session (running w1) s \<longrightarrow> ingress w1 s = ingress w2 s"
    using orphans [OF o] w3(1) by simp_all
  then show ?thesis using i w3 listed [OF assms(2)] by (intro exI [of _ ds] exI [of _ fs]) simp
qed

lemma sweep_unanswered:
  assumes "sweep_provider flt dry p (report, w) = (report1, w1)" "pv_list_tagged p None w = (Inl e, w0)"
  shows "running w1 = running w \<and> ingress w1 = ingress w"
  using assms(1) not_listed [OF assms(2)] by (simp add: sweep_refused [OF assms(2)])

lemma dry_instances: "snd (fold (sweep_instance q True) insts (report, w)) = w"
  by (induction insts arbitrary: report) (simp_all add: sweep_instance_dry)

lemma sweep_dry:
  assumes "sweep_provider flt True p (report, w) = (report1, w1)"
  shows "running w1 = running w \<and> ingress w1 = ingress w"
proof (cases "pv_list_tagged p None w")
  case (Pair res w0)
  show ?thesis
  proof (cases res)
    case (Inl e)
    then show ?thesis using sweep_unanswered [OF assms] Pair by blast
  next
    case (Inr l)
    have "w1 = w0"
      using arg_cong [OF assms, of snd] sweep_answered [of p w l w0 flt True report] Pair Inr by (simp add: dry_instances)
    then show ?thesis using listed [of None w l w0] Pair Inr by simp
  qed
qed

text \<open>A machine that no sweep may touch is untouched, with its session's firewall.\<close>

lemma sweep_spares_one:
  assumes "sweep_provider flt dry p (report, w) = (report1, w1)" "i \<in> set (running w)"
    "\<not> (tag_wanted None i \<and> sweep_matches flt i)"
    "\<forall>j \<in> set (running w). is_instance (rg_id (ci_region j)) (ci_id j) i \<longrightarrow> j = i"
  shows "i \<in> set (running w1) \<and> (\<forall>s. instance_session_id i = Some s \<longrightarrow> ingress w1 s = ingress w s)"
proof (cases dry)
  case True
  then show ?thesis using sweep_dry assms by metis
next
  case False
  obtain res w0 where l: "pv_list_tagged p None w = (res, w0)" by fastforce
  show ?thesis
  proof (cases res)
    case (Inl e)
    then show ?thesis using sweep_unanswered [OF assms(1)] l assms(2) by simp
  next
    case (Inr l')
    have sw: "sweep_provider flt False p (report, w) = (report1, w1)" using assms(1) False by simp
    from sweep_one [OF sw l [unfolded Inr]] obtain ds
      and fs :: "(cloud_instance \<times> provider_error) list" where d:
      "mset (filter (sweep_matches flt) (li_instances l')) = mset ds + mset (map fst fs)"
      "running w1 = filter (\<lambda>i. \<not> gone ds i) (running w)" "\<forall>s. live_session (running w1) s \<longrightarrow> ingress w1 s = ingress w s"
      by (elim exE conjE) (rule that, assumption+)
    have "set ds \<subseteq> set (filter (sweep_matches flt) (li_instances l'))"
      using d(1) by (metis mset_subset_eq_add_left set_mset_mono set_mset_mset)
    then have "\<forall>j \<in> set ds. j \<in> set (running w) \<and> tag_wanted None j \<and> sweep_matches flt j"
      using listed [OF l [unfolded Inr]] by auto
    then have "\<not> gone ds i" using assms(3,4) unfolding gone_def by metis
    then have "i \<in> set (running w1)" using d(2) assms(2) by simp
    then show ?thesis using d(3) unfolding live_session_def by blast
  qed
qed

text \<open>A provider that was searched whole with no failure holds nothing that matches.\<close>

lemma sweep_clears_one:
  assumes "sweep_provider flt False p (report, w) = (report1, w1)" "sw_failed report1 = []" "sw_unswept report1 = []"
    "list_all search_is_complete (sw_searches report1)" "i \<in> set (running w1)" "tag_wanted None i"
  shows "\<not> sweep_matches flt i"
proof (cases "pv_list_tagged p None w")
  case (Pair res w0)
  show ?thesis
  proof (cases res)
    case (Inl e)
    then show ?thesis using assms(1,3) sweep_refused [of p w e w0 flt False report] Pair by auto
  next
    case (Inr l)
    from sweep_one [OF assms(1) Pair [unfolded Inr]] obtain ds fs where d:
      "sw_failed report1 = sw_failed report @ fs"
      "mset (filter (sweep_matches flt) (li_instances l)) = mset ds + mset (map fst fs)"
      "running w1 = filter (\<lambda>i. \<not> gone ds i) (running w)" by (elim exE conjE) (rule that, assumption+)
    have searches: "sw_searches report1 = sw_searches report @
        [\<lparr>ps_provider = pv_name p, ps_kind = pv_kind p, ps_unsearched = li_unsearched l\<rparr>]"
      using arg_cong [OF assms(1), of "\<lambda>x. sw_searches (fst x)"] sweep_answered [OF Pair [unfolded Inr], of flt False report]
      by (simp add: Let_def fold_searches sweep_firewalls_searches)
    then have "li_unsearched l = []" using assms(4) by (simp add: search_is_complete_def)
    then have "li_instances l = filter (tag_wanted None) (running w)" using listed [OF Pair [unfolded Inr]] by simp
    moreover have "set (filter (sweep_matches flt) (li_instances l)) = set ds"
      using d(1,2) assms(2) by (metis Nil_is_append_conv add_0_right mset.simps(1) set_mset_mset list.map(1))
    ultimately have "\<forall>j \<in> set (running w). tag_wanted None j \<and> sweep_matches flt j \<longrightarrow> j \<in> set ds" by auto
    moreover have "is_instance (rg_id (ci_region i)) (ci_id i) i" by (simp add: is_instance_def)
    ultimately show ?thesis using d(3) assms(5,6) unfolding gone_def by auto
  qed
qed

end

section \<open>The in-memory provider keeps it\<close>

definition mock_ingress :: "mock_state \<Rightarrow> bytes \<Rightarrow> ingress_rule list" where
  "mock_ingress s session = (case map_of (ms_firewalls s) session of None \<Rightarrow> [] | Some rules \<Rightarrow> rules)"

lemma map_of_filter_key: "map_of (filter (\<lambda>(k, _). P k) xs) k = (if P k then map_of xs k else None)"
  by (induction xs) auto

lemma live_listed: "live_session is s \<longleftrightarrow> s \<in> set (List.map_filter instance_session_id is)"
  by (auto simp: live_session_def List.map_filter_def image_iff)

lemma mock_ingress_cong: "ms_firewalls s = ms_firewalls t \<Longrightarrow> mock_ingress s = mock_ingress t"
  by (simp add: mock_ingress_def fun_eq_iff)

lemma filter_all_kept: "length (filter P xs) = length xs \<Longrightarrow> filter P xs = xs"
proof (induction xs)
  case (Cons x xs)
  then show ?case using length_filter_le [of P xs] by (cases "P x") simp_all
qed simp

lemma mock_listed:
  assumes "mock_list_tagged want w = (res, w1)"
  shows "ms_instances w1 = ms_instances w \<and> ms_firewalls w1 = ms_firewalls w \<and>
    (\<forall>l. res = Inr l \<longrightarrow>
       li_instances l = filter (\<lambda>i. rg_id (ci_region i) \<notin> set (li_unsearched l) \<and> tag_wanted want i) (ms_instances w))"
  using assms
  by (cases "ms_list_failures w") (auto simp: mock_list_tagged_def log_call_def Let_def)

lemma mock_destroyed:
  assumes "mock_destroy rid iid w = (res, w1)"
  shows "ms_firewalls w1 = ms_firewalls w \<and>
    ms_instances w1 = (if isl res then ms_instances w else filter (\<lambda>i. \<not> is_instance rid iid i) (ms_instances w))"
  using assms filter_all_kept [of "\<lambda>i. \<not> is_instance rid iid i" "ms_instances w"]
  by (cases "ms_destroy_failures w") (auto simp: mock_destroy_def log_call_def Let_def split: if_splits)

lemma drop_orphans: "filter (\<lambda>(k, _). k \<notin> set (filter Q (map fst xs))) xs = filter (\<lambda>(k, _). \<not> Q k) xs"
  by (rule filter_cong [OF refl]) (auto intro: rev_image_eqI)

lemma mock_swept:
  assumes "mock_destroy_orphan_firewalls w = (res, w1)"
  shows "ms_instances w1 = ms_instances w \<and>
    ms_firewalls w1 = (if isl res then ms_firewalls w
      else filter (\<lambda>(session, _). session \<in> set (List.map_filter instance_session_id (ms_instances w))) (ms_firewalls w))"
  using assms
  by (cases "ms_firewall_failures w")
    (auto simp: mock_destroy_orphan_firewalls_def log_call_def Let_def drop_orphans simp del: set_filter)

lemma mock_swept_live:
  assumes "mock_destroy_orphan_firewalls w = (res, w1)" "live_session (ms_instances w) s"
  shows "mock_ingress w1 s = mock_ingress w s"
proof -
  have live: "s \<in> set (List.map_filter instance_session_id (ms_instances w))" using assms(2) by (simp add: live_listed)
  have "map_of (ms_firewalls w1) s = map_of (ms_firewalls w) s"
    using mock_swept [OF assms(1)] live by (cases "isl res") (simp_all add: map_of_filter_key)
  then show ?thesis by (simp add: mock_ingress_def)
qed

interpretation mp: cloud_laws "mock_provider m" ms_instances mock_ingress for m
proof
  show "ms_instances w1 = ms_instances w \<and> mock_ingress w1 = mock_ingress w \<and>
      li_instances l = filter (\<lambda>i. tag_wanted want i \<and> rg_id (ci_region i) \<notin> set (li_unsearched l)) (ms_instances w)"
    if "pv_list_tagged (mock_provider m) want w = (Inr l, w1)" for want w l w1
    using mock_listed [of want w "Inr l" w1] that mock_ingress_cong [of w1 w] by (simp add: mock_provider_def conj_commute)
  show "ms_instances w1 = ms_instances w \<and> mock_ingress w1 = mock_ingress w"
    if "pv_list_tagged (mock_provider m) want w = (Inl e, w1)" for want w e w1
    using mock_listed [of want w "Inl e" w1] that mock_ingress_cong [of w1 w] by (simp add: mock_provider_def)
  show "ms_instances w1 = filter (\<lambda>i. \<not> is_instance rid iid i) (ms_instances w) \<and> mock_ingress w1 = mock_ingress w"
    if "pv_destroy (mock_provider m) rid iid w = (Inr u, w1)" for rid iid w u w1
    using mock_destroyed [of rid iid w "Inr u" w1] that mock_ingress_cong [of w1 w] by (simp add: mock_provider_def)
  show "ms_instances w1 = ms_instances w \<and> mock_ingress w1 = mock_ingress w"
    if "pv_destroy (mock_provider m) rid iid w = (Inl e, w1)" for rid iid w e w1
    using mock_destroyed [of rid iid w "Inl e" w1] that mock_ingress_cong [of w1 w] by (simp add: mock_provider_def)
  show "ms_instances w1 = ms_instances w \<and> (live_session (ms_instances w) s \<longrightarrow> mock_ingress w1 s = mock_ingress w s)"
    if "pv_destroy_orphan_firewalls (mock_provider m) w = (res, w1)" for w res w1 s
    using mock_swept [of w res w1] mock_swept_live [of w res w1 s] that by (simp add: mock_provider_def)
  show "ms_instances w1 = ms_instances w \<and> mock_ingress w1 = mock_ingress w \<and> rules = mock_ingress w s"
    if "pv_session_ingress (mock_provider m) s w = (Inr rules, w1)" for s w rules w1
    using that by (auto simp: mock_provider_def mock_session_ingress_def mock_ingress_def)
qed

end
