(* ===== verification/CloudClaims.thy ===== *)
theory CloudClaims
  imports MockCloud
begin

text \<open>
  The claims on sweeping and waiting: what a clean report promises, what a sweep spares, that the polling loops
  return within their budget, and the life of a session on the in-memory provider.
\<close>

section \<open>The report accounts for everything\<close>

text \<open>What a sweep adds to a report; \<open>names\<close> are the providers asked.\<close>

definition report_adds :: "sweep_filter \<Rightarrow> bool \<Rightarrow> bytes list \<Rightarrow> sweep_report \<Rightarrow> sweep_report \<Rightarrow> bool" where
  "report_adds flt dry names r r1 \<longleftrightarrow>
     (\<exists>xs ds fs us ss ns.
        sw_found r1 = sw_found r @ xs \<and> sw_destroyed r1 = sw_destroyed r @ ds \<and> sw_failed r1 = sw_failed r @ fs \<and>
        sw_unswept r1 = sw_unswept r @ us \<and> sw_searches r1 = sw_searches r @ ss \<and>
        sw_firewalls_removed r1 = sw_firewalls_removed r @ ns \<and>
        list_all (sweep_matches flt) xs \<and>
        (if dry then ds = [] \<and> fs = [] \<and> ns = [] else mset xs = mset ds + mset (map fst fs)) \<and>
        mset (map ps_provider ss) + mset (map fst us) = mset names)"

lemma report_adds_refl: "report_adds flt dry [] r r"
  by (simp add: report_adds_def)

lemma report_adds_trans:
  assumes "report_adds flt dry names r r1" "report_adds flt dry names1 r1 r2"
  shows "report_adds flt dry (names @ names1) r r2"
proof -
  from assms(1) obtain xs ds fs us ss ns where a:
    "sw_found r1 = sw_found r @ xs" "sw_destroyed r1 = sw_destroyed r @ ds" "sw_failed r1 = sw_failed r @ fs"
    "sw_unswept r1 = sw_unswept r @ us" "sw_searches r1 = sw_searches r @ ss"
    "sw_firewalls_removed r1 = sw_firewalls_removed r @ ns" "list_all (sweep_matches flt) xs"
    "if dry then ds = [] \<and> fs = [] \<and> ns = [] else mset xs = mset ds + mset (map fst fs)"
    "mset (map ps_provider ss) + mset (map fst us) = mset names" unfolding report_adds_def by blast
  from assms(2) obtain is1 ds1 fs1 us1 ss1 ns1 where b:
    "sw_found r2 = sw_found r1 @ is1" "sw_destroyed r2 = sw_destroyed r1 @ ds1" "sw_failed r2 = sw_failed r1 @ fs1"
    "sw_unswept r2 = sw_unswept r1 @ us1" "sw_searches r2 = sw_searches r1 @ ss1"
    "sw_firewalls_removed r2 = sw_firewalls_removed r1 @ ns1" "list_all (sweep_matches flt) is1"
    "if dry then ds1 = [] \<and> fs1 = [] \<and> ns1 = [] else mset is1 = mset ds1 + mset (map fst fs1)"
    "mset (map ps_provider ss1) + mset (map fst us1) = mset names1" unfolding report_adds_def by blast
  show ?thesis
    unfolding report_adds_def
    using a b
    by (intro exI [of _ "xs @ is1"] exI [of _ "ds @ ds1"] exI [of _ "fs @ fs1"] exI [of _ "us @ us1"]
        exI [of _ "ss @ ss1"] exI [of _ "ns @ ns1"]) (simp add: union_ac split: if_splits)
qed

lemma sweep_instance_adds:
  assumes "sweep_matches flt i" "sweep_instance p dry i (r, w) = (r1, w1)"
  shows "report_adds flt dry [] r r1"
proof (cases dry)
  case True
  then show ?thesis
    using assms by (auto simp: sweep_instance_dry report_adds_def)
next
  case False
  obtain res w2 where d: "pv_destroy p (rg_id (ci_region i)) (ci_id i) w = (res, w2)" by fastforce
  show ?thesis
  proof (cases res)
    case (Inl e)
    then show ?thesis
      using assms sweep_instance_err [of p i w e w2 r] d False by (auto simp: report_adds_def)
  next
    case (Inr u)
    then show ?thesis
      using assms sweep_instance_ok [of p i w u w2 r] d False by (auto simp: report_adds_def)
  qed
qed

lemma sweep_instances_add:
  "list_all (sweep_matches flt) insts \<Longrightarrow> fold (sweep_instance p dry) insts (r, w) = (r1, w1) \<Longrightarrow> report_adds flt dry [] r r1"
proof (induction insts arbitrary: r w)
  case Nil
  then show ?case by (simp add: report_adds_refl)
next
  case (Cons i insts)
  obtain r2 w2 where i: "sweep_instance p dry i (r, w) = (r2, w2)" by fastforce
  have "report_adds flt dry [] r r2" using sweep_instance_adds [OF _ i] Cons.prems(1) by simp
  moreover have "report_adds flt dry [] r2 r1" using Cons.IH [of r2 w2] Cons.prems i by simp
  ultimately show ?case using report_adds_trans [of flt dry "[]" r r2 "[]"] by simp
qed

lemma sweep_firewalls_adds: "sweep_firewalls p (r, w) = (r1, w1) \<Longrightarrow> report_adds flt False [] r r1"
  by (auto simp: sweep_firewalls_def Let_def report_adds_def split: sum.splits prod.splits)

lemma sweep_provider_adds:
  assumes "sweep_provider flt dry p (r, w) = (r1, w1)"
  shows "report_adds flt dry [pv_name p] r r1"
proof -
  obtain res w0 where l: "pv_list_tagged p None w = (res, w0)" by fastforce
  show ?thesis
  proof (cases res)
    case (Inl e)
    then show ?thesis using assms sweep_refused [of p w e w0 flt dry r] l by (auto simp: report_adds_def)
  next
    case (Inr x)
    let ?r = "r\<lparr>sw_searches := sw_searches r @ [\<lparr>ps_provider = pv_name p, ps_kind = pv_kind p, ps_unsearched = li_unsearched x\<rparr>]\<rparr>"
    obtain r2 w2 where f: "fold (sweep_instance p dry) (filter (sweep_matches flt) (li_instances x)) (?r, w0) = (r2, w2)" by fastforce
    have "report_adds flt dry [pv_name p] r ?r" by (simp add: report_adds_def)
    moreover have "report_adds flt dry [] ?r r2" by (rule sweep_instances_add [OF _ f]) (simp add: list_all_iff)
    ultimately have two: "report_adds flt dry [pv_name p] r r2" using report_adds_trans [of flt dry "[pv_name p]" r ?r "[]" r2] by simp
    have "(if dry then (r2, w2) else sweep_firewalls p (r2, w2)) = (r1, w1)"
      using assms f sweep_answered [of p w x w0 flt dry r] l Inr by (simp add: Let_def)
    then show ?thesis
      using two sweep_firewalls_adds [of p r2 w2 r1 w1 flt] report_adds_trans [of flt dry "[pv_name p]" r r2 "[]" r1]
      by (cases dry) simp_all
  qed
qed

lemma sweep_all_adds: "sweep_all flt dry ps r = (r1, ws) \<Longrightarrow> report_adds flt dry (map (\<lambda>(p, _). pv_name p) ps) r r1"
proof (induction ps arbitrary: r ws)
  case Nil
  then show ?case by (simp add: report_adds_refl)
next
  case (Cons pw ps)
  obtain p w where pw: "pw = (p, w)" by (cases pw)
  obtain r2 w2 where s: "sweep_provider flt dry p (r, w) = (r2, w2)" by fastforce
  obtain r3 ws3 where t3: "sweep_all flt dry ps r2 = (r3, ws3)" by fastforce
  then have t: "sweep_all flt dry ps r2 = (r1, ws3)" using Cons.prems pw s by simp
  then show ?case
    using report_adds_trans [OF sweep_provider_adds [OF s] Cons.IH [OF t]] pw by simp
qed

lemma adds_clean:
  assumes "report_adds flt dry names r r1" "sweep_is_clean r1"
  shows "sweep_is_clean r"
  using assms unfolding report_adds_def sweep_is_clean_def by (elim exE conjE) simp

section \<open>Sweeps of several providers\<close>

lemma sweep_all_spares:
  assumes "\<forall>(p, w) \<in> set ps. cloud_laws p running ingress" "sweep_all flt dry ps r = (r1, ws)"
  shows "list_all2 (\<lambda>(p, w) w1.
    (dry \<longrightarrow> running w1 = running w \<and> ingress w1 = ingress w) \<and>
    (\<forall>i \<in> set (running w). \<not> (tag_wanted None i \<and> sweep_matches flt i) \<longrightarrow>
       (\<forall>j \<in> set (running w). is_instance (rg_id (ci_region j)) (ci_id j) i \<longrightarrow> j = i) \<longrightarrow>
       i \<in> set (running w1) \<and> (\<forall>s. instance_session_id i = Some s \<longrightarrow> ingress w1 s = ingress w s))) ps ws"
  using assms
proof (induction ps arbitrary: r ws)
  case (Cons pw ps)
  obtain p w where pw: "pw = (p, w)" by (cases pw)
  obtain r2 w2 where s: "sweep_provider flt dry p (r, w) = (r2, w2)" by fastforce
  obtain r3 ws3 where t3: "sweep_all flt dry ps r2 = (r3, ws3)" by fastforce
  then have t: "sweep_all flt dry ps r2 = (r1, ws3)" and ws: "ws = w2 # ws3" using Cons.prems(2) pw s by simp_all
  have laws: "cloud_laws p running ingress" using Cons.prems(1) pw by simp
  have "dry \<longrightarrow> running w2 = running w \<and> ingress w2 = ingress w"
    using cloud_laws.sweep_dry [OF laws, of flt r w r2 w2] s by (cases dry) simp_all
  then show ?case
    using Cons.IH [OF _ t] Cons.prems(1) cloud_laws.sweep_spares_one [OF laws s] pw ws by simp
qed simp

lemma sweep_all_clears:
  assumes "\<forall>(p, w) \<in> set ps. cloud_laws p running ingress" "sweep_all flt False ps r = (r1, ws)" "sweep_is_clean r1"
  shows "\<forall>w \<in> set ws. \<forall>i \<in> set (running w). \<not> (tag_wanted None i \<and> sweep_matches flt i)"
  using assms(1,2)
proof (induction ps arbitrary: r ws)
  case (Cons pw ps)
  obtain p w where pw: "pw = (p, w)" by (cases pw)
  obtain r2 w2 where s: "sweep_provider flt False p (r, w) = (r2, w2)" by fastforce
  obtain r3 ws3 where t3: "sweep_all flt False ps r2 = (r3, ws3)" by fastforce
  then have t: "sweep_all flt False ps r2 = (r1, ws3)" and ws: "ws = w2 # ws3" using Cons.prems(2) pw s by simp_all
  have laws: "cloud_laws p running ingress" using Cons.prems(1) pw by simp
  have "sweep_is_clean r2" using adds_clean [OF sweep_all_adds [OF t]] assms(3) by simp
  then have "\<forall>i \<in> set (running w2). tag_wanted None i \<longrightarrow> \<not> sweep_matches flt i"
    using cloud_laws.sweep_clears_one [OF laws s] unfolding sweep_is_clean_def by blast
  then show ?case using Cons.IH [OF _ t] Cons.prems(1) ws by simp
qed simp


text \<open>C14. What a sweep spares.  A machine the filter does not ask for, or one without a session's tag, is still running
  afterwards, if no other machine of its provider has its region and id, and the firewall of its session is as it
  was; and a dry run changes nothing anywhere and removes nothing.\<close>

theorem sweep_spares_the_rest:
  assumes "\<forall>(p, w) \<in> set providers. cloud_laws p running ingress"
    and "sweep providers flt dry = (report, ws)"
  shows "list_all2 (\<lambda>(p, w) w1.
      (dry \<longrightarrow> running w1 = running w \<and> ingress w1 = ingress w) \<and>
      (\<forall>i \<in> set (running w). \<not> (tag_wanted None i \<and> sweep_matches flt i) \<longrightarrow>
         (\<forall>j \<in> set (running w). is_instance (rg_id (ci_region j)) (ci_id j) i \<longrightarrow> j = i) \<longrightarrow>
         i \<in> set (running w1) \<and> (\<forall>s. instance_session_id i = Some s \<longrightarrow> ingress w1 s = ingress w s))) providers ws \<and>
    (dry \<longrightarrow> sw_destroyed report = [] \<and> sw_failed report = [] \<and> sw_firewalls_removed report = [])"
proof -
  have s: "sweep_all flt dry providers sweep_report_default = (report, ws)" using assms(2) by (simp add: sweep_def)
  have "report_adds flt dry (map (\<lambda>(p, w). pv_name p) providers) sweep_report_default report" by (rule sweep_all_adds [OF s])
  then have "dry \<longrightarrow> sw_destroyed report = [] \<and> sw_failed report = [] \<and> sw_firewalls_removed report = []"
    unfolding report_adds_def by (elim exE conjE) (simp add: sweep_report_default_def)
  then show ?thesis using sweep_all_spares [OF assms(1) s] by simp
qed

section \<open>The region table\<close>

definition table_of :: "region list \<Rightarrow> region_table \<Rightarrow> region_table \<Rightarrow> bool" where
  "table_of rs t t1 \<longleftrightarrow>
     (\<exists>cs us. rt_candidates t1 = rt_candidates t @ cs \<and> rt_unavailable t1 = rt_unavailable t @ us \<and>
        mset (map fst cs) + mset us = mset rs)"

lemma price_all_right:
  "case fst (price_all p rs t w) of Inl e \<Rightarrow> \<forall>m. e \<noteq> NotFound m | Inr t1 \<Rightarrow> table_of rs t t1"
proof (induction rs arbitrary: t w)
  case Nil
  then show ?case by (simp add: table_of_def)
next
  case (Cons r rs)
  obtain res w1 where p: "pv_price p (rg_id r) w = (res, w1)" by fastforce
  have add: "table_of (r # rs) t t1" if "table_of rs t2 t1" "rt_candidates t2 = rt_candidates t @ cs"
    "rt_unavailable t2 = rt_unavailable t @ us" "mset (map fst cs) + mset us = {#r#}" for t1 t2 cs us
  proof -
    obtain cs1 us1 where t1: "rt_candidates t1 = rt_candidates t2 @ cs1" "rt_unavailable t1 = rt_unavailable t2 @ us1"
      "mset (map fst cs1) + mset us1 = mset rs" using \<open>table_of rs t2 t1\<close> unfolding table_of_def by blast
    then show ?thesis
      unfolding table_of_def using that(2-4)
      by (intro exI [of _ "cs @ cs1"] exI [of _ "us @ us1"]) (simp add: union_ac flip: t1(3))
  qed
  show ?case
  proof (cases res)
    case (Inr price)
    let ?t = "t\<lparr>rt_candidates := rt_candidates t @ [(r, price)]\<rparr>"
    show ?thesis
      using Cons.IH [of ?t w1] p Inr add [of ?t _ "[(r, price)]" "[]"] by (auto split: sum.splits)
  next
    case (Inl e)
    let ?t = "t\<lparr>rt_unavailable := rt_unavailable t @ [r]\<rparr>"
    show ?thesis
      using Cons.IH [of ?t w1] p Inl add [of ?t _ "[]" "[r]"] by (cases e) (auto split: sum.splits)
  qed
qed

text \<open>The region table is never empty and never silently short.  When the provider's regions can be priced, each
  of them is in the table exactly once, as a candidate with its price or as unavailable, and there is a candidate;
  a region that cannot run the session is not an error of the table, so \<open>NotFound\<close> is never what comes back.\<close>

theorem region_table_right:
  "case fst (priced_regions p w) of
     Inl e \<Rightarrow> \<forall>m. e \<noteq> NotFound m
   | Inr t \<Rightarrow> rt_candidates t \<noteq> [] \<and>
       mset (map fst (rt_candidates t)) + mset (rt_unavailable t) = mset (fst (pv_regions p w))"
proof -
  obtain rs w1 where r: "pv_regions p w = (rs, w1)" by fastforce
  let ?t = "\<lparr>rt_candidates = [], rt_unavailable = []\<rparr>"
  show ?thesis
    using price_all_right [of rs ?t p w1] r
    by (auto simp: priced_regions_def table_of_def split: sum.splits prod.splits)
qed

section \<open>Waiting\<close>

text \<open>The waits of a polling loop that never succeeds: doubling up to the cap, while they fit what is left.\<close>

function backoffs :: "nat \<Rightarrow> nat \<Rightarrow> nat \<Rightarrow> nat list" where
  "backoffs b cap left = (if b = 0 \<or> left < b then [] else b # backoffs (min (b * 2) cap) cap (left - b))"
  by pat_completeness auto

termination by (relation "measure (\<lambda>(_, _, left). left)") auto

declare backoffs.simps [simp del]

lemma backoffs_sum: "sum_list (backoffs b cap left) \<le> left"
proof (induction b cap left rule: backoffs.induct)
  case (1 b cap left)
  then show ?case by (subst backoffs.simps) auto
qed

lemma backoffs_bounded: "d \<in> set (backoffs b cap left) \<Longrightarrow> d \<le> max b cap"
proof (induction b cap left rule: backoffs.induct)
  case (1 b cap left)
  then show ?case by (subst (asm) (2) backoffs.simps) (auto split: if_splits simp: min_def)
qed

lemma backoffs_spend: "0 < b \<Longrightarrow> 0 < cap \<Longrightarrow> left < sum_list (backoffs b cap left) + max b cap"
proof (induction b cap left rule: backoffs.induct)
  case (1 b cap left)
  then show ?case by (subst backoffs.simps) (auto simp: min_def max_def split: if_splits)
qed

text \<open>The loops as walks over a list of waits.\<close>

fun wait_over ::
  "(nat \<Rightarrow> bytes) \<Rightarrow> ('w \<Rightarrow> bool \<times> 'w) \<Rightarrow> (nat \<Rightarrow> 'w \<Rightarrow> 'w) \<Rightarrow> nat \<Rightarrow> nat list \<Rightarrow> 'w \<Rightarrow>
     (unit, provider_error) result \<times> 'w" where
  "wait_over dbg probe sleep budget [] w =
     (let (up, w) = probe w
      in (if up then Ok () else Inl (Transient (str ''instance not reachable within '' @ dbg budget)), w))"
| "wait_over dbg probe sleep budget (d # ds) w =
     (let (up, w) = probe w
      in if up then (Ok (), w) else wait_over dbg probe sleep budget ds (sleep d w))"

fun close_over ::
  "(nat \<Rightarrow> bytes) \<Rightarrow> 'w provider \<Rightarrow> bytes \<Rightarrow> (nat \<Rightarrow> 'w \<Rightarrow> 'w) \<Rightarrow> nat \<Rightarrow> nat list \<Rightarrow> bytes list \<Rightarrow>
     provider_error option \<Rightarrow> 'w \<Rightarrow> (bytes list, provider_error) result \<times> 'w" where
  "close_over dbg p session sleep budget [] removed refusal w =
     (let (removed, refusal, closed, w) = close_round p session removed refusal w
      in (if closed then Ok removed
          else Inl (case refusal of
                      Some err \<Rightarrow> err
                    | None \<Rightarrow> Transient (str ''session '' @ session @ str '' still has ingress open after '' @ dbg budget)), w))"
| "close_over dbg p session sleep budget (d # ds) removed refusal w =
     (let (removed, refusal, closed, w) = close_round p session removed refusal w
      in if closed then (Ok removed, w) else close_over dbg p session sleep budget ds removed refusal (sleep d w))"

lemma wait_loop_walks:
  assumes "0 < b" "0 < wo_max_backoff opts" "e \<le> wo_total_timeout opts"
  shows "wait_loop dbg probe sleep opts b e w =
    Some (wait_over dbg probe sleep (wo_total_timeout opts) (backoffs b (wo_max_backoff opts) (wo_total_timeout opts - e)) w)"
  using assms
proof (induction b "wo_max_backoff opts" "wo_total_timeout opts - e" arbitrary: e w rule: backoffs.induct)
  case (1 b e)
  obtain up w1 where p: "probe w = (up, w1)" by fastforce
  show ?case
  proof (cases "wo_total_timeout opts < e + b")
    case True
    then have "backoffs b (wo_max_backoff opts) (wo_total_timeout opts - e) = []" using "1.prems"(3) by (subst backoffs.simps) auto
    then show ?thesis using p True by (subst wait_loop.simps) simp
  next
    case False
    then have "backoffs b (wo_max_backoff opts) (wo_total_timeout opts - e) =
        b # backoffs (min (b * 2) (wo_max_backoff opts)) (wo_max_backoff opts) (wo_total_timeout opts - (e + b))"
      using "1.prems" by (subst backoffs.simps) auto
    moreover have "wait_loop dbg probe sleep opts (min (b * 2) (wo_max_backoff opts)) (e + b) (sleep b w1) =
        Some (wait_over dbg probe sleep (wo_total_timeout opts)
          (backoffs (min (b * 2) (wo_max_backoff opts)) (wo_max_backoff opts) (wo_total_timeout opts - (e + b))) (sleep b w1))"
      using "1.prems" False by (intro "1.hyps") auto
    ultimately show ?thesis using p False by (subst wait_loop.simps) simp
  qed
qed

lemma close_loop_walks:
  assumes "0 < b" "0 < wo_max_backoff opts" "e \<le> wo_total_timeout opts"
  shows "close_loop dbg p session sleep opts b e removed refusal w =
    Some (close_over dbg p session sleep (wo_total_timeout opts)
      (backoffs b (wo_max_backoff opts) (wo_total_timeout opts - e)) removed refusal w)"
  using assms
proof (induction b "wo_max_backoff opts" "wo_total_timeout opts - e" arbitrary: e removed refusal w rule: backoffs.induct)
  case (1 b e)
  obtain removed1 refusal1 closed w1 where p: "close_round p session removed refusal w = (removed1, refusal1, closed, w1)"
    by (cases "close_round p session removed refusal w")
  show ?case
  proof (cases "wo_total_timeout opts < e + b")
    case True
    then have "backoffs b (wo_max_backoff opts) (wo_total_timeout opts - e) = []" using "1.prems"(3) by (subst backoffs.simps) auto
    then show ?thesis using p True by (subst close_loop.simps) simp
  next
    case False
    then have "backoffs b (wo_max_backoff opts) (wo_total_timeout opts - e) =
        b # backoffs (min (b * 2) (wo_max_backoff opts)) (wo_max_backoff opts) (wo_total_timeout opts - (e + b))"
      using "1.prems" by (subst backoffs.simps) auto
    moreover have "close_loop dbg p session sleep opts (min (b * 2) (wo_max_backoff opts)) (e + b) removed1 refusal1 (sleep b w1) =
        Some (close_over dbg p session sleep (wo_total_timeout opts)
          (backoffs (min (b * 2) (wo_max_backoff opts)) (wo_max_backoff opts) (wo_total_timeout opts - (e + b)))
          removed1 refusal1 (sleep b w1))"
      using "1.prems" False by (intro "1.hyps") auto
    ultimately show ?thesis using p False by (subst close_loop.simps) simp
  qed
qed



section \<open>Closing a firewall\<close>

lemma close_round_closed:
  assumes "cloud_laws p running ingress" "close_round p session removed refusal w = (removed1, refusal1, True, w1)"
  shows "ingress w1 session = []"
proof -
  obtain swept w2 where o: "pv_destroy_orphan_firewalls p w = (swept, w2)" by fastforce
  obtain res w3 where g: "pv_session_ingress p session w2 = (res, w3)" by fastforce
  have "res = Inr [] \<and> w3 = w1" using assms(2) o g by (auto simp: close_round_def Let_def split: sum.splits)
  then show ?thesis using cloud_laws.opened [OF assms(1), of session w2 "[]" w3] g by simp
qed

lemma close_over_closed:
  assumes "cloud_laws p running ingress" "close_over dbg p session sleep budget waits removed refusal w = (Inr names, w1)"
  shows "ingress w1 session = []"
  using assms(2)
proof (induction waits arbitrary: removed refusal w)
  case Nil
  obtain removed1 refusal1 closed w2 where r: "close_round p session removed refusal w = (removed1, refusal1, closed, w2)"
    by (cases "close_round p session removed refusal w")
  then have "closed" "w2 = w1" using Nil by (auto split: if_splits)
  then show ?case using close_round_closed [OF assms(1), of session removed refusal w removed1 refusal1 w2] r by simp
next
  case (Cons d waits)
  obtain removed1 refusal1 closed w2 where r: "close_round p session removed refusal w = (removed1, refusal1, closed, w2)"
    by (cases "close_round p session removed refusal w")
  show ?case
  proof (cases closed)
    case True
    then have "w2 = w1" using Cons.prems r by simp
    then show ?thesis using close_round_closed [OF assms(1), of session removed refusal w removed1 refusal1 w2] r True by simp
  next
    case False
    then show ?thesis using Cons.prems r Cons.IH by simp
  qed
qed

text \<open>At a provider that keeps its contract, closing a finished session's firewall always returns, and when it
  returns without an error the session has no ingress left.\<close>

theorem closed_means_closed:
  assumes "cloud_laws p running ingress" "0 < wo_initial_backoff opts" "0 < wo_max_backoff opts"
  shows "\<exists>res w1. close_session_firewall dbg p session sleep opts w = Some (res, w1) \<and> (isl res \<or> ingress w1 session = [])"
proof -
  let ?waits = "backoffs (wo_initial_backoff opts) (wo_max_backoff opts) (wo_total_timeout opts)"
  obtain res w1 where c: "close_over dbg p session sleep (wo_total_timeout opts) ?waits [] None w = (res, w1)" by fastforce
  then have "close_session_firewall dbg p session sleep opts w = Some (res, w1)"
    by (simp add: close_session_firewall_def close_loop_walks [OF assms(2,3)])
  moreover have "isl res \<or> ingress w1 session = []" using close_over_closed [OF assms(1)] c by (cases res) auto
  ultimately show ?thesis by blast
qed

theorem closed_means_closed_witness:
  "\<exists>res w1. close_session_firewall decimal_digits (mock_provider (mock_new Aws)) (str ''demo'') (\<lambda>_ s. s) FIREWALL_WAIT
      mock_state_default = Some (res, w1) \<and> (isl res \<or> mock_ingress w1 (str ''demo'') = [])"
  by (rule closed_means_closed [OF mp.cloud_laws_axioms]) (simp_all add: FIREWALL_WAIT_def)

section \<open>A session on the in-memory provider\<close>

lemma mock_launched:
  assumes "mock_launch m spec s = (Inr inst, s1)" "spec_session_id spec = Some sid"
  shows "ms_instances s1 = ms_instances s @ [inst] \<and> instance_session_id inst = Some sid \<and>
    ms_firewalls s1 = AList.update sid [session_udp (mk_session_port m) [ANY_IPV4, ANY_IPV6]] (ms_firewalls s) \<and>
    ms_destroy_failures s1 = ms_destroy_failures s \<and> ms_firewall_failures s1 = ms_firewall_failures s"
proof -
  have "ms_launch_failures s = []" using assms(1) by (cases "ms_launch_failures s") (simp_all add: mock_launch_def Let_def log_call_def)
  then show ?thesis
    using assms by (cases "mock_region m (rg_id (ls_region spec))")
      (auto simp: mock_launch_def Let_def log_call_def build_instance_def instance_session_id_def spec_session_id_def)
qed

text \<open>The life of a session on the in-memory provider.  A launch that succeeds opens exactly one rule, the session's
  UDP port from everywhere, and its machine is listed.  If the machine's id is new and no failure is scripted,
  destroying it and closing the session's firewall leave the machines as they were and the session without
  ingress, at the first attempt, and the firewall of every other live session as it was.\<close>

theorem mock_session_lifecycle:
  assumes "mock_launch m spec s = (Inr inst, s1)" "spec_session_id spec = Some sid" "\<not> live_session (ms_instances s) sid"
    and "ms_destroy_failures s = []" "ms_firewall_failures s = []"
    and "\<forall>i \<in> set (ms_instances s). \<not> is_instance (rg_id (ci_region inst)) (ci_id inst) i"
  shows "(\<exists>r. mock_session_ingress sid s1 = (Ok [r], s1) \<and> is_only_port r (mk_session_port m) \<and> is_open_to_the_internet r) \<and>
    inst \<in> set (ms_instances s1) \<and> tag_wanted (Some sid) inst \<and>
    (\<exists>s2 names s3. mock_destroy (rg_id (ci_region inst)) (ci_id inst) s1 = (Ok (), s2) \<and>
       close_session_firewall dbg (mock_provider m) sid sleep opts s2 = Some (Ok names, s3) \<and> sid \<in> set names \<and>
       mock_ingress s3 sid = [] \<and> ms_instances s3 = ms_instances s \<and>
       (\<forall>other. live_session (ms_instances s) other \<longrightarrow> mock_ingress s3 other = mock_ingress s other))"
proof -
  note l = mock_launched [OF assms(1,2)]
  let ?rule = "session_udp (mk_session_port m) [ANY_IPV4, ANY_IPV6]"
  let ?s2 = "log_call (CallDestroy (rg_id (ci_region inst)) (ci_id inst)) s1 \<lparr>ms_instances := ms_instances s\<rparr>"
  have one: "mock_session_ingress sid s1 = (Ok [?rule], s1)"
    using l by (simp add: mock_session_ingress_def update_conv')
  have rule: "is_only_port ?rule (mk_session_port m)" "is_open_to_the_internet ?rule"
    by (simp_all add: is_only_port_def session_udp_def is_open_to_the_internet_def)
  have "filter (\<lambda>i. \<not> is_instance (rg_id (ci_region inst)) (ci_id inst) i) (ms_instances s1) = ms_instances s"
    using l assms(6) by (simp add: is_instance_def)
  then have destroy: "mock_destroy (rg_id (ci_region inst)) (ci_id inst) s1 = (Ok (), ?s2)"
    using l assms(4) by (simp add: mock_destroy_def Let_def log_call_def)
  obtain res s3 where o: "mock_destroy_orphan_firewalls ?s2 = (res, s3)" by fastforce
  have res: "res = Ok (filter (\<lambda>session. session \<notin> set (List.map_filter instance_session_id (ms_instances s))) (map fst (ms_firewalls s1)))"
    using o l assms(5) by (simp add: mock_destroy_orphan_firewalls_def Let_def log_call_def)
  have dead: "sid \<notin> set (List.map_filter instance_session_id (ms_instances s))" using assms(3) by (simp add: live_listed)
  have fw: "ms_firewalls s3 = filter (\<lambda>(session, _). session \<in> set (List.map_filter instance_session_id (ms_instances s))) (ms_firewalls s1)"
    and run: "ms_instances s3 = ms_instances s"
    using mock_swept [OF o] res by (simp_all add: log_call_def)
  have shut: "mock_ingress s3 sid = []" using fw dead by (simp add: mock_ingress_def map_of_filter_key)
  obtain names where names: "res = Ok names" "sid \<in> set names"
    using res dead l by (auto simp: dom_update)
  have "close_session_firewall dbg (mock_provider m) sid sleep opts ?s2 = Some (Ok names, s3)"
    using o names shut
    by (subst close_session_firewall_def, subst close_loop.simps)
      (simp add: close_round_def Let_def mock_provider_def mock_session_ingress_def mock_ingress_def)
  moreover have "mock_ingress s3 other = mock_ingress s other" if "live_session (ms_instances s) other" for other
    using that assms(3) fw l by (auto simp: mock_ingress_def map_of_filter_key live_listed update_conv')
  moreover have "tag_wanted (Some sid) inst" using l by (simp add: tag_wanted_def)
  ultimately show ?thesis using one rule destroy l shut run names by auto
qed

section \<open>Witnesses\<close>

definition demo_spec :: "bytes \<Rightarrow> launch_spec" where
  "demo_spec sid = \<lparr>ls_region = hd (mk_regions (with_default_regions Aws)), ls_instance_class = SmallInstance,
     ls_user_data = [], ls_tags = [session_tag sid]\<rparr>"

definition demo_launch :: "bytes \<Rightarrow> mock_state \<Rightarrow> (cloud_instance, provider_error) result \<times> mock_state" where
  "demo_launch sid = mock_launch (with_default_regions Aws) (demo_spec sid)"

lemmas demo_defs = demo_launch_def demo_spec_def mock_launch_def Let_def log_call_def with_default_regions_def with_region_def
  mock_new_def mock_state_default_def mock_region_def spec_session_id_def session_tag_found

lemma demo_session: "spec_session_id (demo_spec sid) = Some sid"
  by (simp add: spec_session_id_def demo_spec_def session_tag_found)

lemma demo_launched: "\<exists>inst s1. demo_launch sid mock_state_default = (Inr inst, s1)"
  by (simp add: demo_defs build_instance_def)

theorem mock_session_lifecycle_witness:
  "\<exists>inst s1 s2 names s3. demo_launch (str ''jam'') mock_state_default = (Inr inst, s1) \<and>
     mock_destroy (rg_id (ci_region inst)) (ci_id inst) s1 = (Ok (), s2) \<and>
     close_session_firewall decimal_digits (mock_provider (with_default_regions Aws)) (str ''jam'') (\<lambda>_ s. s)
       FIREWALL_WAIT s2 = Some (Ok names, s3) \<and> str ''jam'' \<in> set names"
proof -
  obtain inst s1 where l: "mock_launch (with_default_regions Aws) (demo_spec (str ''jam'')) mock_state_default = (Inr inst, s1)"
    using demo_launched [of "str ''jam''"] by (auto simp: demo_launch_def)
  show ?thesis
    using mock_session_lifecycle [OF l demo_session, of decimal_digits "\<lambda>_ s. s" FIREWALL_WAIT] l
    by (auto simp: demo_launch_def mock_state_default_def live_session_def)
qed

text \<open>Two sessions on one provider, one of them to be spared.\<close>

definition demo_machine :: "nat \<Rightarrow> bytes \<Rightarrow> cloud_instance" where
  "demo_machine n sid = \<lparr>ci_provider = Aws, ci_region = hd (mk_regions (with_default_regions Aws)), ci_id = decimal_digits n,
     ci_public_ip = None, ci_tags = [session_tag sid]\<rparr>"

definition demo_world :: mock_state where
  "demo_world = mock_state_default\<lparr>ms_instances := [demo_machine 1 (str ''live''), demo_machine 2 (str ''stray'')]\<rparr>"

lemma demo_laws: "\<forall>(p, w) \<in> set [(mock_provider (with_default_regions Aws), demo_world)]. cloud_laws p ms_instances mock_ingress"
  by (simp add: mp.cloud_laws_axioms)

lemma demo_machines: "set (ms_instances demo_world) = {demo_machine 1 (str ''live''), demo_machine 2 (str ''stray'')}"
  by (simp add: demo_world_def)

lemma demo_machine_facts:
  "instance_session_id (demo_machine n sid) = Some sid"
  "is_instance (rg_id (ci_region (demo_machine n sid))) (ci_id (demo_machine n sid)) (demo_machine k s) \<longleftrightarrow> decimal_digits k = decimal_digits n"
  by (simp_all add: demo_machine_def instance_session_id_def session_tag_found is_instance_def)

lemma demo_sweep_clean:
  "sweep_is_clean (fst (sweep [(mock_provider (with_default_regions Aws), demo_world)] (SweepExcluding (str ''live'')) False))"
proof -
  have "decimal_digits 1 \<noteq> decimal_digits 2" "str ''stray'' \<noteq> str ''live''" by (simp_all add: decimal_digits.simps str_def)
  then show ?thesis
    by (simp add: sweep_def sweep_provider_def mock_provider_def mock_list_tagged_def mock_destroy_def sweep_firewalls_def
      mock_destroy_orphan_firewalls_def sweep_instance_def Let_def log_call_def demo_world_def mock_state_default_def tag_wanted_def
      demo_machine_facts sweep_is_clean_def sweep_report_default_def search_is_complete_def)
qed


theorem sweep_spares_the_rest_witness:
  "\<exists>report w1. sweep [(mock_provider (with_default_regions Aws), demo_world)] (SweepExcluding (str ''live'')) False = (report, [w1]) \<and>
     demo_machine 1 (str ''live'') \<in> set (ms_instances w1) \<and>
     mock_ingress w1 (str ''live'') = mock_ingress demo_world (str ''live'')"
proof -
  obtain report ws where s: "sweep [(mock_provider (with_default_regions Aws), demo_world)] (SweepExcluding (str ''live'')) False = (report, ws)"
    by fastforce
  then obtain w1 where w1: "ws = [w1]" using sweep_spares_the_rest [OF demo_laws s] by (auto simp: list_all2_Cons1)
  have "decimal_digits 1 \<noteq> decimal_digits 2" by (simp add: decimal_digits.simps)
  then show ?thesis
    using sweep_spares_the_rest [OF demo_laws s] s w1
    by (auto simp: demo_machines demo_machine_facts)
qed

end
