(* ===== verification/Solver.thy ===== *)
theory Solver
  imports CloudTypes Audio "HOL-Library.AList" "HOL-Library.List_Lexorder" "HOL-Library.Product_Lexorder"
    "HOL-Library.Multiset"
begin

text \<open>
  The choice of a region, \<open>crates/cloud/src/solver.rs\<close>.  Round trips are \<open>f32\<close> patterns; the arithmetic on them
  is the \<open>fp\<close> argument, comparisons are on the patterns.  A \<open>HashMap\<close> is the list of its entries in the
  order it iterates.
\<close>

section \<open>Patterns\<close>

abbreviation (input) F32_INFINITY :: f32 where "F32_INFINITY \<equiv> 0x7F800000"

definition f32_min :: "f32 \<Rightarrow> f32 \<Rightarrow> f32" where
  "f32_min x y =
     (if f32_is_nan x then y else if f32_is_nan y then x else if f32_less y x then y else x)"

text \<open>The key \<open>total_cmp\<close> compares.\<close>

definition total_key :: "f32 \<Rightarrow> int" where
  "total_key x = sint (if bit x 31 then x XOR 0x7FFFFFFF else x)"

text \<open>\<open>as u64\<close>: towards zero, saturating, a NaN to 0.\<close>

definition f32_as_u64 :: "f32 \<Rightarrow> nat" where
  "f32_as_u64 x =
     (let e = unat (take_bit 8 (drop_bit 23 x)); m = 2 ^ 23 + unat (take_bit 23 x)
      in if f32_is_nan x \<or> bit x 31 \<or> e < 127 then 0
         else min (2 ^ 64 - 1) (if e < 150 then m div 2 ^ (150 - e) else m * 2 ^ (e - 150)))"

section \<open>Probes\<close>

abbreviation (input) OUTLIER_RTT_MS :: f32 where "OUTLIER_RTT_MS \<equiv> 0x43160000"
abbreviation (input) BUCKET_MS :: f32 where "BUCKET_MS \<equiv> 0x40A00000"

type_synonym rtts = "(region_id \<times> f32) list"
type_synonym probe_matrix = "(u16 \<times> rtts) list"

definition probe_insert :: "u16 \<Rightarrow> region_id \<Rightarrow> f32 \<Rightarrow> probe_matrix \<Rightarrow> probe_matrix" where
  "probe_insert member region rtt matrix =
     AList.update member
       (AList.update region rtt (case map_of matrix member of None \<Rightarrow> [] | Some rtts \<Rightarrow> rtts)) matrix"

definition is_outlier :: "rtts \<Rightarrow> bool" where
  "is_outlier rtts \<longleftrightarrow>
     rtts \<noteq> [] \<and> f32_less OUTLIER_RTT_MS (foldl f32_min F32_INFINITY (map snd rtts))"

definition probe_outliers :: "probe_matrix \<Rightarrow> u16 list" where
  "probe_outliers matrix = sort (map fst (filter (\<lambda>(_, rtts). is_outlier rtts) matrix))"

section \<open>Ranking\<close>

record region_score =
  rs_region :: region
  rs_worst_rtt_ms :: f32
  rs_mean_rtt_ms :: f32
  rs_price :: price
  rs_coverage :: f32
  rs_outliers :: "u16 list"

definition rtt_bucket :: "fp \<Rightarrow> f32 \<Rightarrow> nat" where
  "rtt_bucket fp rtt = (if f32_is_finite rtt then f32_as_u64 (fp_div fp rtt BUCKET_MS) else 2 ^ 64 - 1)"

definition eligible_members :: "probe_matrix \<Rightarrow> u16 list" where
  "eligible_members matrix =
     (let eligible = filter (\<lambda>m. m \<notin> set (probe_outliers matrix)) (map fst matrix)
      in if eligible = [] then map fst matrix else eligible)"

definition region_rtts :: "probe_matrix \<Rightarrow> region_id \<Rightarrow> f32 list" where
  "region_rtts matrix rid =
     List.map_filter (\<lambda>m. Option.bind (map_of matrix m) (\<lambda>r. map_of r rid)) (eligible_members matrix)"

text \<open>The sum starts from the first element, which is what starting from \<open>-0.0\<close> gives.\<close>

definition score_region :: "fp \<Rightarrow> probe_matrix \<Rightarrow> region \<times> price \<Rightarrow> region_score" where
  "score_region fp matrix rp =
     (let (region, price) = rp;
          eligible = eligible_members matrix;
          rtts = region_rtts matrix (rg_id region);
          (worst, mean, coverage) =
            (if rtts = [] then (F32_INFINITY, F32_INFINITY, 0)
             else (foldl f32_max 0 rtts,
                   fp_div fp (foldl (fp_add fp) (hd rtts) (tl rtts)) (f32_of_nat (length rtts)),
                   fp_div fp (f32_of_nat (length rtts)) (f32_of_nat (length eligible))))
      in \<lparr>rs_region = region, rs_worst_rtt_ms = worst, rs_mean_rtt_ms = mean, rs_price = price,
          rs_coverage = coverage, rs_outliers = probe_outliers matrix\<rparr>)"

definition full_coverage :: "region_score \<Rightarrow> bool" where
  "full_coverage s \<longleftrightarrow> \<not> f32_is_nan (rs_coverage s) \<and> \<not> f32_less (rs_coverage s) F32_ONE"

text \<open>The chain of comparisons is the lexicographic order of this key; the sort is stable.\<close>

definition score_key :: "fp \<Rightarrow> region_score \<Rightarrow> bool \<times> int \<times> nat \<times> u64 \<times> int \<times> region_id" where
  "score_key fp s =
     (\<not> full_coverage s, - total_key (rs_coverage s), rtt_bucket fp (rs_worst_rtt_ms s),
      pr_hourly_microusd (rs_price s), total_key (rs_mean_rtt_ms s), rg_id (rs_region s))"

definition rank :: "fp \<Rightarrow> probe_matrix \<Rightarrow> (region \<times> price) list \<Rightarrow> region_score list" where
  "rank fp matrix candidates = sort_key (score_key fp) (map (score_region fp matrix) candidates)"

section \<open>The order of the table\<close>

lemma score_region_id [simp]: "rs_region (score_region fp matrix c) = fst c" "rs_price (score_region fp matrix c) = snd c"
  by (cases c; simp add: score_region_def Let_def)+

lemma score_key_inj: "score_key fp s = score_key fp t \<Longrightarrow> rg_id (rs_region s) = rg_id (rs_region t)"
  by (simp add: score_key_def)

lemma rank_ordered:
  assumes "i < j" "j < length (rank fp matrix cs)"
  shows "score_key fp (rank fp matrix cs ! i) \<le> score_key fp (rank fp matrix cs ! j)"
  using assms sorted_nth_mono [OF sorted_sort_key, of i j "score_key fp" "map (score_region fp matrix) cs"]
  by (simp add: rank_def)

lemma length_rank: "length (rank fp matrix cs) = length cs"
  by (simp add: rank_def)

lemma pair_le: "(a, b) \<le> (c, d) \<longleftrightarrow> a < c \<or> a \<le> c \<and> b \<le> d"
  by (simp add: less_eq_prod_def)

definition ranks_before :: "fp \<Rightarrow> region_score \<Rightarrow> region_score \<Rightarrow> bool" where
  "ranks_before fp a b \<longleftrightarrow>
     (full_coverage b \<longrightarrow> full_coverage a) \<and>
     (full_coverage a = full_coverage b \<longrightarrow>
        total_key (rs_coverage b) \<le> total_key (rs_coverage a) \<and>
        (total_key (rs_coverage b) = total_key (rs_coverage a) \<longrightarrow>
           rtt_bucket fp (rs_worst_rtt_ms a) \<le> rtt_bucket fp (rs_worst_rtt_ms b) \<and>
           (rtt_bucket fp (rs_worst_rtt_ms a) = rtt_bucket fp (rs_worst_rtt_ms b) \<longrightarrow>
              pr_hourly_microusd (rs_price a) \<le> pr_hourly_microusd (rs_price b))))"

lemma lex_le:
  fixes a a1 :: "'a :: linorder" and c c1 :: "'c :: linorder" and b b1 :: "'b :: linorder" and p p1 :: "'p :: linorder"
    and r r1 :: "'r :: linorder"
  assumes "(a, c, b, p, r) \<le> (a1, c1, b1, p1, r1)"
  shows "a \<le> a1 \<and> (a = a1 \<longrightarrow> c \<le> c1 \<and> (c = c1 \<longrightarrow> b \<le> b1 \<and> (b = b1 \<longrightarrow> p \<le> p1)))"
proof -
  have step: "x \<le> y \<and> (x = y \<longrightarrow> u \<le> v)" if "(x, u) \<le> (y, v)" for x y :: "'x :: linorder" and u v :: "'y :: linorder"
    using that by (auto simp: pair_le)
  show ?thesis
    using step [OF assms] step [of c "(b, p, r)" c1 "(b1, p1, r1)"] step [of b "(p, r)" b1 "(p1, r1)"] step [of p r p1 r1] by blast
qed

lemma key_ranks:
  assumes "score_key fp a \<le> score_key fp b"
  shows "ranks_before fp a b"
proof -
  note l = lex_le [OF assms [unfolded score_key_def]]
  have "full_coverage b \<longrightarrow> full_coverage a" using l by (auto simp: le_bool_def)
  moreover have "total_key (rs_coverage b) \<le> total_key (rs_coverage a)" if "full_coverage a = full_coverage b"
    using l that by simp
  moreover have "rtt_bucket fp (rs_worst_rtt_ms a) \<le> rtt_bucket fp (rs_worst_rtt_ms b) \<and>
      (rtt_bucket fp (rs_worst_rtt_ms a) = rtt_bucket fp (rs_worst_rtt_ms b) \<longrightarrow>
        pr_hourly_microusd (rs_price a) \<le> pr_hourly_microusd (rs_price b))"
    if "full_coverage a = full_coverage b" "total_key (rs_coverage b) = total_key (rs_coverage a)"
    using l that by simp
  ultimately show ?thesis unfolding ranks_before_def by blast
qed


text \<open>The table does not depend on the order the regions are offered in, when their ids differ.\<close>

theorem rank_order_irrelevant:
  assumes "mset cs = mset ds" "distinct (map (\<lambda>c. rg_id (fst c)) cs)"
  shows "rank fp matrix cs = rank fp matrix ds"
proof -
  let ?S = "map (score_region fp matrix)"
  have inj: "inj_on (score_key fp) (set (?S cs))"
  proof (rule inj_onI)
    fix s t assume s: "s \<in> set (?S cs)" and t: "t \<in> set (?S cs)" and eq: "score_key fp s = score_key fp t"
    obtain c d where c: "c \<in> set cs" "s = score_region fp matrix c" "d \<in> set cs" "t = score_region fp matrix d"
      using s t by auto
    have "rg_id (fst c) = rg_id (fst d)" using score_key_inj [OF eq] c by simp
    then have "c = d" using assms(2) c inj_onD [of "\<lambda>c. rg_id (fst c)" "set cs" c d] by (simp add: distinct_map comp_def)
    then show "s = t" using c by simp
  qed
  have "mset (?S cs) = mset (sort_key (score_key fp) (?S ds))" using assms(1) by simp
  then show ?thesis
    unfolding rank_def by (rule sort_key_inj_key_eq [OF _ inj sorted_sort_key])
qed

theorem rank_order_irrelevant_witness:
  "rank fp [] [(\<lparr>rg_provider = Aws, rg_id = str ''b'', rg_display = [], rg_country = []\<rparr>, p),
      (\<lparr>rg_provider = Aws, rg_id = str ''a'', rg_display = [], rg_country = []\<rparr>, q)] =
   rank fp [] [(\<lparr>rg_provider = Aws, rg_id = str ''a'', rg_display = [], rg_country = []\<rparr>, q),
      (\<lparr>rg_provider = Aws, rg_id = str ''b'', rg_display = [], rg_country = []\<rparr>, p)]"
  by (rule rank_order_irrelevant) (simp_all add: str_def)

section \<open>Outliers\<close>

text \<open>The members on a high-latency link, taken away.\<close>

definition without_outliers :: "probe_matrix \<Rightarrow> probe_matrix" where
  "without_outliers matrix = filter (\<lambda>(_, rtts). \<not> is_outlier rtts) matrix"

lemma outliers_set:
  assumes "distinct (map fst matrix)" "(m, rtts) \<in> set matrix"
  shows "m \<in> set (probe_outliers matrix) \<longleftrightarrow> is_outlier rtts"
proof -
  have one: "rtts1 = rtts" if "(m, rtts1) \<in> set matrix" for rtts1
    using assms that by (meson eq_key_imp_eq_value)
  have "m \<in> set (probe_outliers matrix) \<longleftrightarrow> (\<exists>rtts1. (m, rtts1) \<in> set matrix \<and> is_outlier rtts1)"
    by (force simp: probe_outliers_def)
  then show ?thesis using one assms(2) by blast
qed

lemma without_outliers_keys:
  assumes "distinct (map fst matrix)"
  shows "map fst (without_outliers matrix) = filter (\<lambda>m. m \<notin> set (probe_outliers matrix)) (map fst matrix)"
proof -
  have "filter (\<lambda>x. \<not> is_outlier (snd x)) matrix = filter (\<lambda>x. fst x \<notin> set (probe_outliers matrix)) matrix"
    by (rule filter_cong) (use outliers_set [OF assms] in auto)
  then show ?thesis by (simp add: without_outliers_def case_prod_unfold filter_map comp_def)
qed

lemma without_outliers_none: "probe_outliers (without_outliers matrix) = []"
  by (simp add: probe_outliers_def without_outliers_def case_prod_unfold)

lemma without_outliers_lookup:
  assumes "distinct (map fst matrix)" "m \<in> set (map fst (without_outliers matrix))"
  shows "map_of (without_outliers matrix) m = map_of matrix m"
proof -
  obtain rtts where r: "(m, rtts) \<in> set (without_outliers matrix)" using assms(2) by auto
  then have "(m, rtts) \<in> set matrix" by (simp add: without_outliers_def)
  moreover have "distinct (map fst (without_outliers matrix))"
    using assms(1) by (simp add: without_outliers_def distinct_map_filter)
  ultimately show ?thesis using assms(1) r by simp
qed

lemma map_insort_key: "(\<And>s. k (f s) = k s) \<Longrightarrow> map f (insort_key k x xs) = insort_key k (f x) (map f xs)"
  by (induction xs) simp_all

lemma map_sort_key: "(\<And>s. k (f s) = k s) \<Longrightarrow> map f (sort_key k xs) = sort_key k (map f xs)"
  by (induction xs) (simp_all add: map_insort_key)

text \<open>A member on a high-latency link has no veto.  When somebody is not an outlier, every region's worst and mean
  round trip and coverage, and the order of the table, are what they would be had the outliers never probed.\<close>

theorem outliers_have_no_say:
  assumes "distinct (map fst matrix)" "without_outliers matrix \<noteq> []"
  shows "map (rs_outliers_update (\<lambda>_. [])) (rank fp matrix candidates) = rank fp (without_outliers matrix) candidates"
proof -
  let ?m = "without_outliers matrix"
  have keys: "eligible_members matrix = map fst ?m" "eligible_members ?m = map fst ?m"
    using assms(2) without_outliers_none [of matrix]
    by (simp_all add: eligible_members_def Let_def flip: without_outliers_keys [OF assms(1)])
  have same: "region_rtts matrix x = region_rtts ?m x" for x
    unfolding region_rtts_def keys
    using without_outliers_lookup [OF assms(1)] by (auto simp: List.map_filter_def intro!: map_cong filter_cong)
  have score: "rs_outliers_update (\<lambda>_. []) (score_region fp matrix c) = score_region fp ?m c" for c
    by (simp add: score_region_def keys same without_outliers_none Let_def case_prod_unfold)
  have key: "score_key fp (rs_outliers_update (\<lambda>_. []) s) = score_key fp s" for s
    by (simp add: score_key_def full_coverage_def)
  have "map (rs_outliers_update (\<lambda>_. [])) (rank fp matrix candidates) =
      sort_key (score_key fp) (map (rs_outliers_update (\<lambda>_. [])) (map (score_region fp matrix) candidates))"
    unfolding rank_def by (rule map_sort_key) (rule key)
  then show ?thesis by (simp add: rank_def score comp_def)
qed

text \<open>Member 1 measures 20 ms, member 2 is on a 200 ms link.\<close>

definition demo_matrix :: probe_matrix where
  "demo_matrix = [(1, [(str ''east'', 0x41A00000)]), (2, [(str ''east'', 0x43480000)])]"

lemma demo_outliers: "is_outlier [(r, 0x43480000)]" "\<not> is_outlier [(r, 0x41A00000)]"
  by (simp_all add: is_outlier_def f32_min_def f32_less_def f32_is_nan_def f32_rank_def f32_abs_def)

theorem outliers_have_no_say_witness:
  "map (rs_outliers_update (\<lambda>_. [])) (rank fp demo_matrix cs) = rank fp [(1, [(str ''east'', 0x41A00000)])] cs"
  using outliers_have_no_say [of demo_matrix fp cs] by (simp add: demo_matrix_def without_outliers_def demo_outliers)

end
