(* ===== verification/Upload.thy ===== *)
theory Upload
  imports CloudTypes
begin

text \<open>
  Uploading an object part by part, \<open>crates/cloud/src/storage.rs\<close>: the sources of parts, the driver of a multipart
  upload and the check of a download.  A provider's half is the \<open>backend\<close> argument; its calls and the source's
  act on the state of the world.
\<close>

section \<open>Sizes\<close>

abbreviation (input) MIN_PART_SIZE :: nat where "MIN_PART_SIZE \<equiv> 5242880"
abbreviation (input) PART_SIZE_MULTIPLE :: nat where "PART_SIZE_MULTIPLE \<equiv> 262144"
abbreviation (input) DEFAULT_PART_SIZE :: nat where "DEFAULT_PART_SIZE \<equiv> 16777216"
abbreviation (input) MAX_PARTS :: nat where "MAX_PARTS \<equiv> 10000"

definition next_multiple_of :: "nat \<Rightarrow> nat \<Rightarrow> nat" where
  "next_multiple_of n m = (if n mod m = 0 then n else wrap64 (n + (m - n mod m)))"

definition clamp_part_size :: "nat \<Rightarrow> nat" where
  "clamp_part_size bytes = next_multiple_of (max bytes MIN_PART_SIZE) PART_SIZE_MULTIPLE"

section \<open>Sources\<close>

record bytes_source =
  bs_bytes :: bytes
  bs_pos :: nat

definition bytes_source_new :: "bytes \<Rightarrow> bytes_source" where
  "bytes_source_new b = \<lparr>bs_bytes = b, bs_pos = 0\<rparr>"

definition bytes_next_part :: "nat \<Rightarrow> bytes_source \<Rightarrow> (bytes, provider_error) result \<times> bytes_source" where
  "bytes_next_part mx s =
     (let end_pos = min (length (bs_bytes s)) (min (2 ^ 64 - 1) (bs_pos s + mx))
      in (Ok (take (end_pos - bs_pos s) (drop (bs_pos s) (bs_bytes s))), s\<lparr>bs_pos := end_pos\<rparr>))"

datatype read_outcome = ReadBytes bytes | ReadInterrupted | ReadError bytes

text \<open>The loop that fills a part of \<open>mx\<close> bytes from a reader; a read of nothing is the end of the input.\<close>

partial_function (option) read_fill ::
  "(nat \<Rightarrow> 'r \<Rightarrow> read_outcome \<times> 'r) \<Rightarrow> nat \<Rightarrow> bytes \<Rightarrow> 'r \<Rightarrow> ((bytes, bytes) result \<times> 'r) option" where
  "read_fill rd mx buf r =
     (if length buf = mx then Some (Ok buf, r)
      else
        (case rd (mx - length buf) r of
           (ReadBytes b, r) \<Rightarrow> if b = [] then Some (Ok buf, r) else read_fill rd mx (buf @ b) r
         | (ReadInterrupted, r) \<Rightarrow> read_fill rd mx buf r
         | (ReadError e, r) \<Rightarrow> Some (Inl e, r)))"

section \<open>The driver\<close>

record part =
  pt_number :: nat
  pt_offset :: nat
  pt_last :: bool
  pt_body :: bytes

record object_meta =
  om_key :: bytes
  om_size :: u64
  om_etag :: "bytes option"
  om_content_type :: "bytes option"
  om_last_modified :: "bytes option"

definition object_meta_new :: "bytes \<Rightarrow> u64 \<Rightarrow> object_meta" where
  "object_meta_new key len =
     \<lparr>om_key = key, om_size = len, om_etag = None, om_content_type = None, om_last_modified = None\<rparr>"

text \<open>The calls on one bucket, key and content type, which the driver only hands on.\<close>

record ('s, 'w) backend =
  be_put_single :: "bytes \<Rightarrow> 'w \<Rightarrow> (object_meta, provider_error) result \<times> 'w"
  be_begin :: "'w \<Rightarrow> ('s, provider_error) result \<times> 'w"
  be_send_part :: "'s \<Rightarrow> part \<Rightarrow> 'w \<Rightarrow> (unit, provider_error) result \<times> 'w"
  be_finish :: "'s \<Rightarrow> 'w \<Rightarrow> (object_meta, provider_error) result \<times> 'w"
  be_abort :: "'s \<Rightarrow> 'w \<Rightarrow> (unit, provider_error) result \<times> 'w"

type_synonym 'w part_source = "nat \<Rightarrow> 'w \<Rightarrow> (bytes, provider_error) result \<times> 'w"

definition too_many_parts :: "nat \<Rightarrow> provider_error" where
  "too_many_parts part_size =
     OtherError (str ''recording exceeds '' @ decimal_digits MAX_PARTS @ str '' parts at '' @ decimal_digits part_size @
       str '' bytes each; raise the part size'')"

function feed_parts ::
  "('s, 'w) backend \<Rightarrow> 's \<Rightarrow> 'w part_source \<Rightarrow> nat \<Rightarrow> bytes \<Rightarrow> bytes \<Rightarrow> nat \<Rightarrow> nat \<Rightarrow> 'w \<Rightarrow>
     (unit, provider_error) result \<times> 'w" where
  "feed_parts b session source part_size current coming number offset w =
     (if MAX_PARTS < number then (Inl (too_many_parts part_size), w)
      else
        (let last_one = (coming = [])
         in case be_send_part b session
                   \<lparr>pt_number = number, pt_offset = offset, pt_last = last_one, pt_body = current\<rparr> w of
              (Inl err, w) \<Rightarrow> (Inl err, w)
            | (Inr _, w) \<Rightarrow>
                if last_one then (Ok (), w)
                else
                  (case source part_size w of
                     (Inl err, w) \<Rightarrow> (Inl err, w)
                   | (Inr after, w) \<Rightarrow>
                       feed_parts b session source part_size coming after (number + 1)
                         (wrap64 (offset + length current)) w)))"
  by pat_completeness auto

termination
  by (relation "measure (\<lambda>(_, _, _, _, _, _, number, _, _). Suc MAX_PARTS - number)") auto

declare feed_parts.simps [simp del]

definition drive_upload ::
  "('s, 'w) backend \<Rightarrow> 'w part_source \<Rightarrow> nat \<Rightarrow> 'w \<Rightarrow> (object_meta, provider_error) result \<times> 'w" where
  "drive_upload b source part_size w =
     (let part_size = max part_size 1 in
      case source part_size w of
        (Inl err, w) \<Rightarrow> (Inl err, w)
      | (Inr first, w) \<Rightarrow>
          (case source part_size w of
             (Inl err, w) \<Rightarrow> (Inl err, w)
           | (Inr second, w) \<Rightarrow>
               if second = [] then be_put_single b first w
               else
                 (case be_begin b w of
                    (Inl err, w) \<Rightarrow> (Inl err, w)
                  | (Inr session, w) \<Rightarrow>
                      (let (outcome, w) =
                         (case feed_parts b session source part_size first second 1 0 w of
                            (Inr _, w) \<Rightarrow> be_finish b session w
                          | (Inl err, w) \<Rightarrow> (Inl err, w))
                       in case outcome of
                            Inr meta \<Rightarrow> (Ok meta, w)
                          | Inl err \<Rightarrow> (let (_, w) = be_abort b session w in (Inl err, w))))))"

section \<open>Downloads\<close>

definition check_delivered :: "nat option \<Rightarrow> nat \<Rightarrow> bytes \<Rightarrow> (unit, provider_error) result" where
  "check_delivered expected delivered key =
     (case expected of
        Some e \<Rightarrow>
          if e \<noteq> delivered
          then Inl (OtherError (str ''download of '' @ key @ str '' is truncated: content-length promised '' @
                 decimal_digits e @ str '' bytes, '' @ decimal_digits delivered @ str '' arrived''))
          else Ok ()
      | None \<Rightarrow> Ok ())"

text \<open>The body as the chunks that arrive and whether an error ends them; \<open>write_chunk\<close> is the sink's.\<close>

fun drain_chunks ::
  "(bytes \<Rightarrow> 'w \<Rightarrow> (unit, provider_error) result \<times> 'w) \<Rightarrow> bytes \<Rightarrow> bytes list \<Rightarrow> bytes option \<Rightarrow> nat \<Rightarrow> 'w \<Rightarrow>
     (nat, provider_error) result \<times> 'w" where
  "drain_chunks write_chunk key [] failure delivered w =
     (case failure of
        None \<Rightarrow> (Ok delivered, w)
      | Some e \<Rightarrow> (Inl (OtherError (str ''downloading '' @ key @ str '' failed after '' @ decimal_digits delivered @
                    str '' bytes: '' @ e)), w))"
| "drain_chunks write_chunk key (c # cs) failure delivered w =
     (case write_chunk c w of
        (Inl err, w) \<Rightarrow> (Inl err, w)
      | (Inr _, w) \<Rightarrow> drain_chunks write_chunk key cs failure (wrap64 (delivered + length c)) w)"

record download =
  dl_content_length :: "nat option"
  dl_etag :: "bytes option"
  dl_content_type :: "bytes option"
  dl_last_modified :: "bytes option"
  dl_chunks :: "bytes list"
  dl_failure :: "bytes option"

definition drain_body ::
  "download \<Rightarrow> bytes \<Rightarrow> (bytes \<Rightarrow> 'w \<Rightarrow> (unit, provider_error) result \<times> 'w) \<Rightarrow> 'w \<Rightarrow>
     (object_meta, provider_error) result \<times> 'w" where
  "drain_body resp key write_chunk w =
     (case drain_chunks write_chunk key (dl_chunks resp) (dl_failure resp) 0 w of
        (Inl err, w) \<Rightarrow> (Inl err, w)
      | (Inr delivered, w) \<Rightarrow>
          (case check_delivered (dl_content_length resp) delivered key of
             Inl err \<Rightarrow> (Inl err, w)
           | Inr _ \<Rightarrow>
               (Ok \<lparr>om_key = key, om_size = of_nat delivered, om_etag = dl_etag resp,
                    om_content_type = dl_content_type resp, om_last_modified = dl_last_modified resp\<rparr>, w)))"

section \<open>What the driver promises\<close>

text \<open>
  What the driver of an upload promises whatever the provider and the source do, told by a log of the calls it makes
  and of the parts it reads.
\<close>

section \<open>Watching the calls\<close>

datatype upload_event = EvRead bytes | EvSingle bytes | EvBegin bool | EvPart part | EvFinish | EvAbort

definition watched :: "('s, 'w) backend \<Rightarrow> ('s, 'w \<times> upload_event list) backend" where
  "watched b =
     \<lparr>be_put_single = (\<lambda>body (w, l). let (r, w) = be_put_single b body w in (r, w, l @ [EvSingle body])),
      be_begin = (\<lambda>(w, l). let (r, w) = be_begin b w in (r, w, l @ [EvBegin (\<not> isl r)])),
      be_send_part = (\<lambda>s p (w, l). let (r, w) = be_send_part b s p w in (r, w, l @ [EvPart p])),
      be_finish = (\<lambda>s (w, l). let (r, w) = be_finish b s w in (r, w, l @ [EvFinish])),
      be_abort = (\<lambda>s (w, l). let (r, w) = be_abort b s w in (r, w, l @ [EvAbort]))\<rparr>"

definition watched_source :: "'w part_source \<Rightarrow> ('w \<times> upload_event list) part_source" where
  "watched_source src n wl =
     (let (w, l) = wl; (r, w) = src n w in (r, w, l @ (case r of Inr b \<Rightarrow> [EvRead b] | Inl _ \<Rightarrow> [])))"

fun is_read :: "upload_event \<Rightarrow> bool" where
  "is_read (EvRead b) = True"
| "is_read _ = False"

abbreviation calls :: "upload_event list \<Rightarrow> upload_event list" where
  "calls l \<equiv> filter (\<lambda>e. \<not> is_read e) l"

fun read_bytes :: "upload_event \<Rightarrow> bytes" where
  "read_bytes (EvRead b) = b"
| "read_bytes _ = []"

fun sent_bytes :: "upload_event \<Rightarrow> bytes" where
  "sent_bytes (EvSingle b) = b"
| "sent_bytes (EvPart p) = pt_body p"
| "sent_bytes _ = []"

abbreviation read_all :: "upload_event list \<Rightarrow> bytes" where "read_all l \<equiv> concat (map read_bytes l)"
abbreviation sent_all :: "upload_event list \<Rightarrow> bytes" where "sent_all l \<equiv> concat (map sent_bytes l)"

text \<open>Parts numbered from \<open>n\<close> at their offsets from \<open>off\<close>, only the last one flagged, if any.\<close>

fun parts_in_order :: "nat \<Rightarrow> nat \<Rightarrow> part list \<Rightarrow> bool" where
  "parts_in_order n off [] = True"
| "parts_in_order n off (p # ps) =
     (pt_number p = n \<and> n \<le> MAX_PARTS \<and> pt_offset p = off \<and> (ps \<noteq> [] \<longrightarrow> \<not> pt_last p) \<and>
      parts_in_order (n + 1) (wrap64 (off + length (pt_body p))) ps)"

section \<open>The loop\<close>

lemma feed_parts_watched:
  assumes "feed_parts (watched b) s (watched_source src) ps current coming n off (w, l) = (res, w1, l1)"
  shows "\<exists>l2 parts. l1 = l @ l2 \<and> calls l2 = map EvPart parts \<and> parts_in_order n off parts \<and>
    (\<not> isl res \<longrightarrow> parts \<noteq> [] \<and> pt_last (last parts) \<and> sent_all l2 = current @ coming @ read_all l2)"
  using assms
proof (induction "watched b" s "watched_source src" ps current coming n off "(w, l)" arbitrary: w l rule: feed_parts.induct)
  case (1 s ps current coming n off w l)
  let ?p = "\<lparr>pt_number = n, pt_offset = off, pt_last = coming = [], pt_body = current\<rparr>"
  show ?case
  proof (cases "MAX_PARTS < n")
    case True
    then have "l1 = l" "isl res" using "1.prems" by (auto simp: feed_parts.simps)
    then show ?thesis by (intro exI [of _ "[]"]) simp
  next
    case few: False
    obtain r w2 where send: "be_send_part b s ?p w = (r, w2)" by fastforce
    then have wsend: "be_send_part (watched b) s ?p (w, l) = (r, w2, l @ [EvPart ?p])" by (simp add: watched_def)
    show ?thesis
    proof (cases r)
      case (Inl e)
      then have "l1 = l @ [EvPart ?p]" "isl res"
        using "1.prems" few wsend by (auto simp: feed_parts.simps [of "watched b"] Let_def)
      then show ?thesis using few by (intro exI [of _ "[EvPart ?p]"] exI [of _ "[?p]"]) simp
    next
      case (Inr u)
      show ?thesis
      proof (cases "coming = []")
        case True
        then have "l1 = l @ [EvPart ?p]"
          using "1.prems" few wsend Inr by (simp add: feed_parts.simps [of "watched b"] Let_def)
        then show ?thesis using few True by (intro exI [of _ "[EvPart ?p]"] exI [of _ "[?p]"]) simp
      next
        case more: False
        obtain r3 w3 where src: "src ps w2 = (r3, w3)" by fastforce
        show ?thesis
        proof (cases r3)
          case (Inl e)
          then have "l1 = l @ [EvPart ?p]" "isl res"
            using "1.prems" few wsend Inr more src
            by (auto simp: feed_parts.simps [of "watched b"] Let_def watched_source_def)
          then show ?thesis using few more by (intro exI [of _ "[EvPart ?p]"] exI [of _ "[?p]"]) simp
        next
          case after: (Inr a)
          let ?l = "l @ [EvPart ?p, EvRead a]"
          have wsrc: "watched_source src ps (w2, l @ [EvPart ?p]) = (Inr a, w3, ?l)"
            using src after by (simp add: watched_source_def)
          have step: "feed_parts (watched b) s (watched_source src) ps coming a (n + 1) (wrap64 (off + length current)) (w3, ?l) =
              (res, w1, l1)"
            using "1.prems" few wsend Inr more wsrc by (simp add: feed_parts.simps [of "watched b" s _ ps current] Let_def)
          obtain l2 parts where ih: "l1 = ?l @ l2" "calls l2 = map EvPart parts"
            "parts_in_order (n + 1) (wrap64 (off + length current)) parts"
            "\<not> isl res \<longrightarrow> parts \<noteq> [] \<and> pt_last (last parts) \<and> sent_all l2 = coming @ a @ read_all l2"
            using "1.hyps" [OF few refl wsend [symmetric] Inr more wsrc [symmetric] refl step] by blast
          then show ?thesis
            using few more by (intro exI [of _ "[EvPart ?p, EvRead a] @ l2"] exI [of _ "?p # parts"]) auto
        qed
      qed
    qed
  qed
qed

section \<open>The upload\<close>

text \<open>The calls an upload may make, by its result.\<close>

definition bracketed :: "upload_event list \<Rightarrow> bool \<Rightarrow> bool" where
  "bracketed cs failed \<longleftrightarrow>
     (if failed
      then cs = [] \<or> (\<exists>body. cs = [EvSingle body]) \<or> cs = [EvBegin False] \<or>
        (\<exists>parts. parts_in_order 1 0 parts \<and>
           (cs = EvBegin True # map EvPart parts @ [EvAbort] \<or> cs = EvBegin True # map EvPart parts @ [EvFinish, EvAbort]))
      else (\<exists>body. cs = [EvSingle body]) \<or>
        (\<exists>parts. parts_in_order 1 0 parts \<and> parts \<noteq> [] \<and> pt_last (last parts) \<and>
           cs = EvBegin True # map EvPart parts @ [EvFinish]))"

lemma finish_upload_watched:
  assumes "feed_parts (watched b) s (watched_source src) ps first second 1 0 (w, l) = (r, w1, l1)"
    and "res = (case r of Inr _ \<Rightarrow> fst (be_finish (watched b) s (w1, l1)) | Inl err \<Rightarrow> Inl err)"
    and "l3 = l1 @ (case r of Inr _ \<Rightarrow> [EvFinish] | Inl _ \<Rightarrow> []) @ (if isl res then [EvAbort] else [])"
    and "calls l = [EvBegin True]" "sent_all l = []" "read_all l = first @ second"
  shows "bracketed (calls l3) (isl res) \<and> (\<not> isl res \<longrightarrow> sent_all l3 = read_all l3)"
proof -
  obtain l2 parts where f: "l1 = l @ l2" "calls l2 = map EvPart parts" "parts_in_order 1 0 parts"
    "\<not> isl r \<longrightarrow> parts \<noteq> [] \<and> pt_last (last parts) \<and> sent_all l2 = first @ second @ read_all l2"
    using feed_parts_watched [OF assms(1)] by blast
  show ?thesis
  proof (cases r)
    case (Inl e)
    then show ?thesis using assms(2-6) f by (auto simp: bracketed_def)
  next
    case (Inr u)
    then show ?thesis using assms(2-6) f by (cases "isl res") (auto simp: bracketed_def)
  qed
qed

lemma upload_right_log:
  assumes "drive_upload (watched b) (watched_source src) part_size (w, []) = (res, w1, log)"
  shows "bracketed (calls log) (isl res) \<and> (\<not> isl res \<longrightarrow> sent_all log = read_all log)"
proof -
  let ?ps = "max part_size 1"
  obtain r1 w2 where s1: "src ?ps w = (r1, w2)" by fastforce
  show ?thesis
  proof (cases r1)
    case (Inl e)
    then show ?thesis using assms s1 by (auto simp: drive_upload_def Let_def watched_source_def bracketed_def)
  next
    case first: (Inr a)
    obtain r2 w3 where s2: "src ?ps w2 = (r2, w3)" by fastforce
    show ?thesis
    proof (cases r2)
      case (Inl e)
      then show ?thesis using assms s1 s2 first by (auto simp: drive_upload_def Let_def watched_source_def bracketed_def)
    next
      case second: (Inr c)
      show ?thesis
      proof (cases "c = []")
        case True
        obtain r4 w4 where "be_put_single b a w3 = (r4, w4)" by fastforce
        then show ?thesis
          using assms s1 s2 first second True
          by (auto simp: drive_upload_def Let_def watched_source_def watched_def bracketed_def)
      next
        case False
        obtain r4 w4 where begun: "be_begin b w3 = (r4, w4)" by fastforce
        show ?thesis
        proof (cases r4)
          case (Inl e)
          then show ?thesis
            using assms s1 s2 first second False begun
            by (auto simp: drive_upload_def Let_def watched_source_def watched_def bracketed_def)
        next
          case opened: (Inr s)
          let ?l = "[EvRead a, EvRead c, EvBegin True]"
          obtain r5 w5 l5 where feed: "feed_parts (watched b) s (watched_source src) ?ps a c 1 0 (w4, ?l) = (r5, w5, l5)"
            by (cases "feed_parts (watched b) s (watched_source src) ?ps a c 1 0 (w4, ?l)") auto
          have wbegin: "be_begin (watched b) (w3, [EvRead a, EvRead c]) = (Inr s, w4, ?l)"
            using begun opened by (simp add: watched_def)
          have drive: "drive_upload (watched b) (watched_source src) part_size (w, []) =
            (let (outcome, w) = (case r5 of Inr _ \<Rightarrow> be_finish (watched b) s (w5, l5) | Inl err \<Rightarrow> (Inl err, (w5, l5)))
             in case outcome of Inr meta \<Rightarrow> (Ok meta, w) | Inl err \<Rightarrow> (let (_, w) = be_abort (watched b) s w in (Inl err, w)))"
            using s1 s2 first second False wbegin feed
            by (cases r5) (simp_all add: drive_upload_def Let_def watched_source_def)
          have "res = (case r5 of Inr _ \<Rightarrow> fst (be_finish (watched b) s (w5, l5)) | Inl err \<Rightarrow> Inl err)"
            "log = l5 @ (case r5 of Inr _ \<Rightarrow> [EvFinish] | Inl _ \<Rightarrow> []) @ (if isl res then [EvAbort] else [])"
            using assms unfolding drive
            by (auto simp: watched_def Let_def split: sum.splits prod.splits)
          then show ?thesis using finish_upload_watched [OF feed] by simp
        qed
      qed
    qed
  qed
qed

text \<open>C16. An upload leaves nothing dangling and tells the truth, whatever the provider and the source answer.  It is
  nothing, one plain request, or one opened upload whose parts go out in order, numbered from 1 at their true
  offsets with only the last flagged, at most 10 000 of them, closed by exactly one finish when it succeeds; and
  every opened upload that fails is aborted.  When the upload succeeds, what was sent is all that was read.\<close>

theorem upload_right:
  assumes "drive_upload (watched b) (watched_source src) part_size (w, []) = (res, w1, log)"
  shows "bracketed (calls log) (isl res) \<and> (\<not> isl res \<longrightarrow> sent_all log = read_all log)"
  using upload_right_log [OF assms] .

definition demo_backend :: "(unit, bytes list) backend" where
  "demo_backend =
     \<lparr>be_put_single = (\<lambda>body w. (Ok (object_meta_new [] (of_nat (length body))), w)), be_begin = (\<lambda>w. (Ok (), w)),
      be_send_part = (\<lambda>_ _ w. (Ok (), w)), be_finish = (\<lambda>_ w. (Ok (object_meta_new [] 0), w)),
      be_abort = (\<lambda>_ w. (Ok (), w))\<rparr>"

definition demo_source :: "bytes list part_source" where
  "demo_source n w = (case w of [] \<Rightarrow> (Ok [], []) | b # bs \<Rightarrow> (Ok b, bs))"

theorem upload_right_witness:
  "\<exists>res w1 log. drive_upload (watched demo_backend) (watched_source demo_source) 2 ([[1, 2], [3]], []) = (res, w1, log) \<and>
     \<not> isl res \<and> sent_all log = read_all log"
proof -
  obtain res w1 log where d: "drive_upload (watched demo_backend) (watched_source demo_source) 2 ([[1, 2], [3]], []) = (res, w1, log)"
    by (cases "drive_upload (watched demo_backend) (watched_source demo_source) 2 ([[1, 2], [3]], [])") auto
  then have "\<not> isl res"
    by (auto simp: drive_upload_def watched_def demo_backend_def watched_source_def demo_source_def feed_parts.simps Let_def)
  then show ?thesis using upload_right [OF d] d by blast
qed

section \<open>Sizes and sources\<close>

text \<open>Any part size becomes one both kinds of store take, and the least such that is no smaller.\<close>

lemma clamp_part_size_right:
  assumes "bytes < 2 ^ 63"
  shows "MIN_PART_SIZE \<le> clamp_part_size bytes \<and> bytes \<le> clamp_part_size bytes \<and>
    PART_SIZE_MULTIPLE dvd clamp_part_size bytes \<and> clamp_part_size bytes < max bytes MIN_PART_SIZE + PART_SIZE_MULTIPLE"
proof -
  let ?n = "max bytes MIN_PART_SIZE" and ?m = "PART_SIZE_MULTIPLE"
  have n: "?n < 2 ^ 63" using assms by simp
  have r: "?n mod ?m < ?m" by simp
  have up: "?m dvd ?n + (?m - ?n mod ?m)"
  proof -
    have "?n + (?m - ?n mod ?m) = ?n div ?m * ?m + ?m" using r div_mult_mod_eq [of ?n ?m] by linarith
    then show ?thesis by simp
  qed
  show ?thesis
  proof (cases "?n mod ?m = 0")
    case True
    then show ?thesis by (auto simp: clamp_part_size_def next_multiple_of_def dvd_eq_mod_eq_0)
  next
    case False
    have "clamp_part_size bytes = ?n + (?m - ?n mod ?m)"
      using n r False by (simp add: clamp_part_size_def next_multiple_of_def)
    then show ?thesis using up r False by auto
  qed
qed

text \<open>A reader hands out what is left of its input in order, and nothing only at the end.\<close>

definition reader_ok :: "(nat \<Rightarrow> 'r \<Rightarrow> read_outcome \<times> 'r) \<Rightarrow> ('r \<Rightarrow> bytes) \<Rightarrow> bool" where
  "reader_ok rd rest \<longleftrightarrow>
     (\<forall>n r. case rd n r of
        (ReadBytes b, r1) \<Rightarrow> length b \<le> n \<and> rest r = b @ rest r1 \<and> (b = [] \<longrightarrow> rest r = [])
      | (ReadInterrupted, r1) \<Rightarrow> rest r1 = rest r
      | (ReadError e, r1) \<Rightarrow> True)"

definition fills :: "('r \<Rightarrow> bytes) \<Rightarrow> nat \<Rightarrow> bytes \<Rightarrow> 'r \<Rightarrow> (bytes, bytes) result \<times> 'r \<Rightarrow> bool" where
  "fills rest mx buf r res \<longleftrightarrow>
     (\<forall>out. fst res = Inr out \<longrightarrow>
        out @ rest (snd res) = buf @ rest r \<and> length out \<le> mx \<and> (length out = mx \<or> rest (snd res) = []))"

lemma read_fill_fills: "read_fill rd mx buf r = Some res \<Longrightarrow> reader_ok rd rest \<longrightarrow> length buf \<le> mx \<longrightarrow> fills rest mx buf r res"
proof (erule read_fill.raw_induct [rotated])
  fix fill rd mx buf r res
  assume ih: "\<And>rd mx buf r res. fill rd mx buf r = Some res \<Longrightarrow>
      reader_ok rd rest \<longrightarrow> length buf \<le> mx \<longrightarrow> fills rest mx buf r res"
    and step: "(if length buf = mx then Some (Ok buf, r)
      else case rd (mx - length buf) r of
             (ReadBytes b, r) \<Rightarrow> if b = [] then Some (Ok buf, r) else fill rd mx (buf @ b) r
           | (ReadInterrupted, r) \<Rightarrow> fill rd mx buf r
           | (ReadError e, r) \<Rightarrow> Some (Inl e, r)) = Some res"
  show "reader_ok rd rest \<longrightarrow> length buf \<le> mx \<longrightarrow> fills rest mx buf r res"
  proof (intro impI)
    assume ok: "reader_ok rd rest" and len: "length buf \<le> mx"
    obtain o1 r1 where r: "rd (mx - length buf) r = (o1, r1)" by fastforce
    have c: "case (o1, r1) of (ReadBytes b, r1) \<Rightarrow> length b \<le> mx - length buf \<and> rest r = b @ rest r1 \<and> (b = [] \<longrightarrow> rest r = [])
      | (ReadInterrupted, r1) \<Rightarrow> rest r1 = rest r | (ReadError e, r1) \<Rightarrow> True"
      using ok [unfolded reader_ok_def, rule_format, of "mx - length buf" r] unfolding r .
    show "fills rest mx buf r res"
    proof (cases "length buf = mx")
      case True
      then have "res = (Ok buf, r)" using step by simp
      then show ?thesis using True by (simp add: fills_def)
    next
      case False
      show ?thesis
      proof (cases o1)
        case (ReadBytes b)
        then have b: "length b \<le> mx - length buf" "rest r = b @ rest r1" "b = [] \<longrightarrow> rest r = []"
          using c by auto
        show ?thesis
        proof (cases "b = []")
          case True
          then have "res = (Ok buf, r1)" using step r False ReadBytes by simp
          moreover have "rest r = []" using b(3) True by blast
          moreover have "rest r1 = []" using b(2) \<open>rest r = []\<close> by simp
          ultimately show ?thesis using len by (simp add: fills_def)
        next
          case more: False
          then have "fill rd mx (buf @ b) r1 = Some res" using step r False ReadBytes by simp
          from ih [OF this] have "fills rest mx (buf @ b) r1 res" using ok len b(1) False by simp
          then show ?thesis by (simp add: fills_def b(2))
        qed
      next
        case ReadInterrupted
        then have rest: "rest r1 = rest r" using c by simp
        have "fill rd mx buf r1 = Some res" using step r False ReadInterrupted by simp
        from ih [OF this] show ?thesis using ok len by (simp add: fills_def rest)
      next
        case (ReadError e)
        then have "res = (Inl e, r1)" using step r False by simp
        then show ?thesis by (simp add: fills_def)
      qed
    qed
  qed
qed

text \<open>With a reader that is interrupted only finitely often in a row, the loop returns.\<close>

lemma read_fill_returns:
  fixes patience :: "'r \<Rightarrow> nat"
  assumes rd: "\<And>n r. case rd n r of
      (ReadBytes b, r1) \<Rightarrow> length b \<le> n | (ReadInterrupted, r1) \<Rightarrow> patience r1 < patience r | (ReadError e, r1) \<Rightarrow> True"
    and len: "length buf \<le> mx"
  shows "\<exists>res. read_fill rd mx buf r = Some res"
  using len
proof (induction "(mx - length buf, patience r)" arbitrary: buf r rule: wf_induct [OF wf_lex_prod [OF wf_less wf_less]])
  case 1
  note ih = 1(1) [rule_format, OF _ refl]
  note step = read_fill.simps [of rd mx buf r]
  obtain out r1 where r: "rd (mx - length buf) r = (out, r1)" by fastforce
  show ?case
  proof (cases "length buf = mx")
    case False
    show ?thesis
    proof (cases out)
      case (ReadBytes b)
      then have b: "length b \<le> mx - length buf" using rd [of "mx - length buf" r] r by simp
      show ?thesis
      proof (cases "b = []")
        case more: False
        then have "mx - length (buf @ b) < mx - length buf" using b by (cases b) auto
        then have "\<exists>res. read_fill rd mx (buf @ b) r1 = Some res"
          by (intro ih) (use b False 1(2) in auto)
        then show ?thesis using step r ReadBytes False more by simp
      qed (use step r ReadBytes False in simp)
    next
      case ReadInterrupted
      have "\<exists>res. read_fill rd mx buf r1 = Some res"
        by (rule ih) (use ReadInterrupted r rd [of "mx - length buf" r] 1(2) in auto)
      then show ?thesis using step r ReadInterrupted False by simp
    qed (use step r False in simp)
  qed (simp add: step)
qed

end
