(* ===== verification/ObjectSink.thy ===== *)
theory ObjectSink
  imports Upload
begin

text \<open>
  The chunk-at-a-time upload of a recording, \<open>crates/cloud/src/storage/sink.rs\<close>.  The channel between the sink and
  the upload task is the list of the messages still to come, in order; its end is the sender dropped.  The marker
  file is whether it stands.
\<close>

section \<open>The source\<close>

datatype sink_msg = SinkChunk bytes | SinkFinish

record channel_source =
  cs_rx :: "sink_msg list"
  cs_buf :: bytes
  cs_finished :: bool

definition sink_dropped :: provider_error where
  "sink_dropped = OtherError (str ''recording sink dropped mid-upload'')"

text \<open>The \<open>while\<close> that receives; \<open>False\<close> is the sender dropped.\<close>

fun channel_fill :: "nat \<Rightarrow> sink_msg list \<Rightarrow> bytes \<Rightarrow> bool \<times> channel_source" where
  "channel_fill mx rx buf =
     (if mx \<le> length buf then (True, \<lparr>cs_rx = rx, cs_buf = buf, cs_finished = False\<rparr>)
      else
        (case rx of
           [] \<Rightarrow> (False, \<lparr>cs_rx = [], cs_buf = buf, cs_finished = False\<rparr>)
         | SinkChunk chunk # rx \<Rightarrow> channel_fill mx rx (buf @ chunk)
         | SinkFinish # rx \<Rightarrow> (True, \<lparr>cs_rx = rx, cs_buf = buf, cs_finished = True\<rparr>)))"

declare channel_fill.simps [simp del]

definition channel_next_part :: "channel_source part_source" where
  "channel_next_part mx s =
     (let (up, s) = (if cs_finished s then (True, s) else channel_fill mx (cs_rx s) (cs_buf s))
      in if \<not> up then (Inl sink_dropped, s)
         else (Ok (take mx (cs_buf s)), s\<lparr>cs_buf := drop mx (cs_buf s)\<rparr>))"

section \<open>The sink\<close>

text \<open>The messages sent so far, whether the sender lives, and whether the marker stands.\<close>

record object_sink =
  os_sent :: "sink_msg list"
  os_marker :: bool

definition sink_open :: "bool \<Rightarrow> object_sink" where
  "sink_open marked = \<lparr>os_sent = [], os_marker = marked\<rparr>"

definition upload_over :: provider_error where
  "upload_over = OtherError (str ''recording upload already failed and was aborted; finish() has the reason'')"

text \<open>\<open>alive\<close> is whether the upload task still receives.\<close>

definition sink_write :: "bool \<Rightarrow> bytes \<Rightarrow> object_sink \<Rightarrow> (unit, provider_error) result \<times> object_sink" where
  "sink_write alive chunk s =
     (if chunk = [] then (Ok (), s)
      else if alive then (Ok (), s\<lparr>os_sent := os_sent s @ [SinkChunk chunk]\<rparr>)
      else (Inl upload_over, s))"

text \<open>The task runs the driver on all that was sent; it returns before the marker goes.\<close>

definition lift_backend :: "('s, 'w) backend \<Rightarrow> ('s, 'c \<times> 'w) backend" where
  "lift_backend b =
     \<lparr>be_put_single = (\<lambda>body (c, w). let (r, w) = be_put_single b body w in (r, c, w)),
      be_begin = (\<lambda>(c, w). let (r, w) = be_begin b w in (r, c, w)),
      be_send_part = (\<lambda>s p (c, w). let (r, w) = be_send_part b s p w in (r, c, w)),
      be_finish = (\<lambda>s (c, w). let (r, w) = be_finish b s w in (r, c, w)),
      be_abort = (\<lambda>s (c, w). let (r, w) = be_abort b s w in (r, c, w))\<rparr>"

definition lift_source :: "'c part_source \<Rightarrow> ('c \<times> 'w) part_source" where
  "lift_source src n cw = (let (c, w) = cw; (r, c) = src n c in (r, c, w))"

definition channel_of :: "sink_msg list \<Rightarrow> channel_source" where
  "channel_of sent = \<lparr>cs_rx = sent, cs_buf = [], cs_finished = False\<rparr>"

definition sink_task ::
  "('s, 'w) backend \<Rightarrow> nat \<Rightarrow> sink_msg list \<Rightarrow> 'w \<Rightarrow> (object_meta, provider_error) result \<times> channel_source \<times> 'w" where
  "sink_task b part_size sent w =
     drive_upload (lift_backend b) (lift_source channel_next_part) part_size (channel_of sent, w)"

definition sink_finish ::
  "('s, 'w) backend \<Rightarrow> nat \<Rightarrow> object_sink \<Rightarrow> 'w \<Rightarrow> (object_meta, provider_error) result \<times> object_sink \<times> 'w" where
  "sink_finish b part_size s w =
     (let sent = os_sent s @ [SinkFinish]; (outcome, _, w) = sink_task b part_size sent w
      in (outcome, \<lparr>os_sent = sent, os_marker = False\<rparr>, w))"

definition sink_abort :: "('s, 'w) backend \<Rightarrow> nat \<Rightarrow> object_sink \<Rightarrow> 'w \<Rightarrow> object_sink \<times> 'w" where
  "sink_abort b part_size s w =
     (let (_, _, w) = sink_task b part_size (os_sent s) w in (s\<lparr>os_marker := False\<rparr>, w))"

section \<open>Watching changes nothing\<close>

definition unwatched :: "('r \<times> 'w \<times> upload_event list) \<Rightarrow> 'r \<times> 'w" where
  "unwatched x = (fst x, fst (snd x))"

lemma watched_calls:
  "be_put_single (watched b) body (w, l) = (fst (be_put_single b body w), snd (be_put_single b body w), l @ [EvSingle body])"
  "be_begin (watched b) (w, l) = (fst (be_begin b w), snd (be_begin b w), l @ [EvBegin (\<not> isl (fst (be_begin b w)))])"
  "be_send_part (watched b) s p (w, l) = (fst (be_send_part b s p w), snd (be_send_part b s p w), l @ [EvPart p])"
  "be_finish (watched b) s (w, l) = (fst (be_finish b s w), snd (be_finish b s w), l @ [EvFinish])"
  "be_abort (watched b) s (w, l) = (fst (be_abort b s w), snd (be_abort b s w), l @ [EvAbort])"
  by (simp_all add: watched_def case_prod_unfold Let_def)

lemma watched_source_call:
  "watched_source src n (w, l) =
     (fst (src n w), snd (src n w), l @ (case fst (src n w) of Inr b \<Rightarrow> [EvRead b] | Inl _ \<Rightarrow> []))"
  by (simp add: watched_source_def case_prod_unfold Let_def)

lemma feed_unwatched:
  "unwatched (feed_parts (watched b) s (watched_source src) ps cur coming n off (w, l)) = feed_parts b s src ps cur coming n off w"
proof (induction b s src ps cur coming n off w arbitrary: l rule: feed_parts.induct)
  case (1 b s src ps cur coming n off w)
  let ?p = "\<lparr>pt_number = n, pt_offset = off, pt_last = coming = [], pt_body = cur\<rparr>"
  note feeds = feed_parts.simps [of "watched b" s "watched_source src" ps cur coming n off "(w, l)"]
    feed_parts.simps [of b s src ps cur coming n off w]
  obtain r w2 where send: "be_send_part b s ?p w = (r, w2)" by fastforce
  obtain r3 w3 where src: "src ps w2 = (r3, w3)" by fastforce
  show ?case
  proof (cases "MAX_PARTS < n \<or> isl r \<or> coming = [] \<or> isl r3")
    case True
    then show ?thesis
      using send src unfolding feeds
      by (cases r; cases r3; cases "coming = []") (simp_all add: unwatched_def watched_calls watched_source_call Let_def)
  next
    case False
    then obtain u a where ok: "r = Inr u" "r3 = Inr a" by (cases r; cases r3) auto
    have "unwatched (feed_parts (watched b) s (watched_source src) ps coming a (n + 1) (wrap64 (off + length cur))
        (w3, l @ [EvPart ?p, EvRead a])) = feed_parts b s src ps coming a (n + 1) (wrap64 (off + length cur)) w3"
      using "1.IH" [OF _ refl send [symmetric] ok(1) _ src [symmetric] ok(2)] False by simp
    then show ?thesis
      using False send src ok unfolding feeds
      by (simp add: watched_calls watched_source_call Let_def)
  qed
qed

lemma drive_unwatched: "unwatched (drive_upload (watched b) (watched_source src) ps (w, l)) = drive_upload b src ps w"
proof -
  let ?ps = "max ps 1"
  obtain r1 w2 where s1: "src ?ps w = (r1, w2)" by fastforce
  obtain r2 w3 where s2: "src ?ps w2 = (r2, w3)" by fastforce
  obtain r4 w4 where s4: "be_begin b w3 = (r4, w4)" by fastforce
  note defs = drive_upload_def Let_def watched_calls watched_source_call unwatched_def
  show ?thesis
  proof (cases r1)
    case (Inl e)
    then show ?thesis using s1 by (simp add: defs)
  next
    case first: (Inr a)
    show ?thesis
    proof (cases r2)
      case (Inl e)
      then show ?thesis using s1 s2 first by (simp add: defs)
    next
      case second: (Inr c)
      show ?thesis
      proof (cases "c = [] \<or> isl r4")
        case True
        then show ?thesis
          using s1 s2 s4 first second by (cases r4; cases "c = []") (simp_all add: defs case_prod_unfold)
      next
        case False
        then obtain s where s: "r4 = Inr s" by (cases r4) auto
        let ?l = "l @ [EvRead a] @ [EvRead c] @ [EvBegin True]"
        obtain r5 w5 l5 where feed: "feed_parts (watched b) s (watched_source src) ?ps a c 1 0 (w4, ?l) = (r5, w5, l5)"
          by (cases "feed_parts (watched b) s (watched_source src) ?ps a c 1 0 (w4, ?l)") auto
        then have feed1: "feed_parts b s src ?ps a c 1 0 w4 = (r5, w5)"
          using feed_unwatched [of b s src ?ps a c 1 0 w4 ?l] by (simp add: unwatched_def)
        show ?thesis
          using s1 s2 s4 first second False s feed feed1
          by (cases r5; cases "fst (be_finish b s w5)") (simp_all add: defs case_prod_unfold)
      qed
    qed
  qed
qed

end
