(* ===== verification/SinkClaims.thy ===== *)
theory SinkClaims
  imports ObjectSink
begin

text \<open>
  What a recording's sink promises: a finished one stores what was written, an abandoned one stores nothing.
\<close>

section \<open>Sources that give what they hold\<close>

text \<open>A source over states that satisfy \<open>I\<close>: it gives the bytes of \<open>rest\<close> in order, nothing only at the end.\<close>

definition gives :: "nat \<Rightarrow> ('c \<Rightarrow> bool) \<Rightarrow> ('c \<Rightarrow> bytes) \<Rightarrow> 'c part_source \<Rightarrow> bool" where
  "gives ps I rest src \<longleftrightarrow>
     (\<forall>c b c1. I c \<and> src ps c = (Inr b, c1) \<longrightarrow> I c1 \<and> rest c = b @ rest c1 \<and> (b = [] \<longrightarrow> rest c1 = []))"

text \<open>One that always gives something until it fails.\<close>

definition never_ends :: "nat \<Rightarrow> ('c \<Rightarrow> bool) \<Rightarrow> 'c part_source \<Rightarrow> bool" where
  "never_ends ps I src \<longleftrightarrow> (\<forall>c b c1. I c \<and> src ps c = (Inr b, c1) \<longrightarrow> I c1 \<and> b \<noteq> [])"

lemma lifted_send: "be_send_part (lift_backend b) s p (c, w) = (fst (be_send_part b s p w), c, snd (be_send_part b s p w))"
  by (simp add: lift_backend_def case_prod_unfold Let_def)

lemma lifted_begin: "be_begin (lift_backend b) (c, w) = (fst (be_begin b w), c, snd (be_begin b w))"
  by (simp add: lift_backend_def case_prod_unfold Let_def)

lemma lifted_source: "lift_source src n (c, w) = (fst (src n c), snd (src n c), w)"
  by (simp add: lift_source_def case_prod_unfold Let_def)

lemma feed_reads_rest:
  assumes "gives ps I rest src" "I c" "coming = [] \<longrightarrow> rest c = []"
    and "feed_parts (watched (lift_backend b)) s (watched_source (lift_source src)) ps cur coming n off ((c, w), l) = (res, cw, l1)"
    and "\<not> isl res"
  shows "\<exists>l2. l1 = l @ l2 \<and> read_all l2 = rest c"
  using assms(2-4)
proof (induction "Suc MAX_PARTS - n" arbitrary: cur coming n off c w l rule: less_induct)
  case less
  let ?p = "\<lparr>pt_number = n, pt_offset = off, pt_last = coming = [], pt_body = cur\<rparr>"
  note feed = less.prems(3) [unfolded feed_parts.simps [of _ s _ ps cur coming n off "((c, w), l)"]]
  have few: "n \<le> MAX_PARTS" using feed assms(5) by (auto split: if_splits)
  obtain r w2 where send: "be_send_part b s ?p w = (r, w2)" by fastforce
  obtain u where r: "r = Inr u" using feed few send assms(5) by (cases r) (auto simp: watched_calls lifted_send)
  show ?case
  proof (cases "coming = []")
    case True
    then have "l1 = l @ [EvPart ?p]" using feed few send r by (simp add: watched_calls lifted_send)
    then show ?thesis using less.prems(2) True by (intro exI [of _ "[EvPart ?p]"]) simp
  next
    case False
    obtain r3 c3 where src: "src ps c = (r3, c3)" by fastforce
    obtain a where a: "r3 = Inr a"
      using feed few send r False src assms(5) by (cases r3) (auto simp: watched_calls lifted_send watched_source_call lifted_source)
    have step: "feed_parts (watched (lift_backend b)) s (watched_source (lift_source src)) ps coming a (n + 1) (wrap64 (off + length cur))
        ((c3, w2), (l @ [EvPart ?p]) @ [EvRead a]) = (res, cw, l1)"
      using feed few send r False src a by (simp add: watched_calls lifted_send watched_source_call lifted_source)
    have g: "I c3" "rest c = a @ rest c3" "a = [] \<longrightarrow> rest c3 = []"
      using assms(1) less.prems(1) src a unfolding gives_def by blast+
    have "Suc MAX_PARTS - (n + 1) < Suc MAX_PARTS - n" using few by simp
    then obtain l2 where "l1 = ((l @ [EvPart ?p]) @ [EvRead a]) @ l2" "read_all l2 = rest c3"
      using less.hyps [OF _ g(1) g(3) step] by blast
    then show ?thesis using g(2) by (intro exI [of _ "[EvPart ?p, EvRead a] @ l2"]) simp
  qed
qed

lemma feed_never_ends:
  assumes "never_ends ps I src" "I c" "coming \<noteq> []"
    and "feed_parts (watched (lift_backend b)) s (watched_source (lift_source src)) ps cur coming n off ((c, w), l) = (res, cw, l1)"
  shows "isl res"
  using assms(2-4)
proof (induction "Suc MAX_PARTS - n" arbitrary: cur coming n off c w l rule: less_induct)
  case less
  let ?p = "\<lparr>pt_number = n, pt_offset = off, pt_last = coming = [], pt_body = cur\<rparr>"
  note feed = less.prems(3) [unfolded feed_parts.simps [of _ s _ ps cur coming n off "((c, w), l)"]]
  obtain r w2 where send: "be_send_part b s ?p w = (r, w2)" by fastforce
  obtain r3 c3 where src: "src ps c = (r3, c3)" by fastforce
  show ?case
  proof (cases "MAX_PARTS < n \<or> isl r \<or> isl r3")
    case True
    then show ?thesis
      using feed send src less.prems(2)
      by (cases r; cases r3) (auto simp: watched_calls lifted_send watched_source_call lifted_source split: if_splits)
  next
    case False
    then obtain u a where ok: "r = Inr u" "r3 = Inr a" by (cases r; cases r3) auto
    have step: "feed_parts (watched (lift_backend b)) s (watched_source (lift_source src)) ps coming a (n + 1) (wrap64 (off + length cur))
        ((c3, w2), (l @ [EvPart ?p]) @ [EvRead a]) = (res, cw, l1)"
      using feed False send src ok less.prems(2) by (simp add: watched_calls lifted_send watched_source_call lifted_source)
    have "I c3" "a \<noteq> []" using assms(1) less.prems(1) src ok unfolding never_ends_def by blast+
    moreover have "Suc MAX_PARTS - (n + 1) < Suc MAX_PARTS - n" using False by auto
    ultimately show ?thesis using less.hyps [OF _ _ _ step] by blast
  qed
qed

section \<open>The channel\<close>

fun chunks_sent :: "sink_msg list \<Rightarrow> bytes" where
  "chunks_sent [] = []"
| "chunks_sent (SinkChunk c # ms) = c @ chunks_sent ms"
| "chunks_sent (SinkFinish # ms) = []"

definition channel_rest :: "channel_source \<Rightarrow> bytes" where
  "channel_rest s = cs_buf s @ (if cs_finished s then [] else chunks_sent (cs_rx s))"

lemma channel_fill_rest:
  "channel_fill mx rx buf = (up, s) \<Longrightarrow> channel_rest s = buf @ chunks_sent rx \<and>
     (up \<longrightarrow> cs_finished s \<or> mx \<le> length (cs_buf s)) \<and> (SinkFinish \<notin> set rx \<longrightarrow> \<not> cs_finished s \<and> SinkFinish \<notin> set (cs_rx s))"
proof (induction rx arbitrary: buf)
  case Nil
  then show ?case by (subst (asm) channel_fill.simps) (auto simp: channel_rest_def split: if_splits)
next
  case (Cons m rx)
  show ?case
  proof (cases "mx \<le> length buf")
    case True
    then show ?thesis using Cons.prems by (subst (asm) channel_fill.simps) (auto simp: channel_rest_def)
  next
    case False
    then show ?thesis
      using Cons.prems Cons.IH
      by (cases m; subst (asm) (3) channel_fill.simps) (auto simp: channel_rest_def)
  qed
qed

lemma channel_gives:
  assumes "0 < ps"
  shows "gives ps (\<lambda>_. True) channel_rest channel_next_part"
  unfolding gives_def
proof (intro allI impI)
  fix c b c1
  assume step: "True \<and> channel_next_part ps c = (Inr b, c1)"
  obtain up s where f: "(if cs_finished c then (True, c) else channel_fill ps (cs_rx c) (cs_buf c)) = (up, s)" by fastforce
  have rest: "channel_rest s = channel_rest c \<and> (up \<longrightarrow> cs_finished s \<or> ps \<le> length (cs_buf s))"
    using f channel_fill_rest [of ps "cs_rx c" "cs_buf c" up s] by (auto simp: channel_rest_def split: if_splits)
  have got: "up" "b = take ps (cs_buf s)" "c1 = s\<lparr>cs_buf := drop ps (cs_buf s)\<rparr>"
    using step f by (auto simp: channel_next_part_def Let_def split: if_splits)
  have "channel_rest s = take ps (cs_buf s) @ channel_rest c1" unfolding got(3) channel_rest_def by simp
  then have "channel_rest c = b @ channel_rest c1" using rest got(2) by simp
  moreover have "channel_rest c1 = []" if "b = []"
    using that rest got assms by (auto simp: channel_rest_def)
  ultimately show "True \<and> channel_rest c = b @ channel_rest c1 \<and> (b = [] \<longrightarrow> channel_rest c1 = [])" by simp
qed

lemma channel_never_ends:
  assumes "0 < ps"
  shows "never_ends ps (\<lambda>c. \<not> cs_finished c \<and> SinkFinish \<notin> set (cs_rx c)) channel_next_part"
  unfolding never_ends_def
proof (intro allI impI)
  fix c b c1
  assume step: "(\<not> cs_finished c \<and> SinkFinish \<notin> set (cs_rx c)) \<and> channel_next_part ps c = (Inr b, c1)"
  obtain up s where f: "channel_fill ps (cs_rx c) (cs_buf c) = (up, s)" by fastforce
  have "up \<and> b = take ps (cs_buf s) \<and> c1 = s\<lparr>cs_buf := drop ps (cs_buf s)\<rparr>"
    using step f by (auto simp: channel_next_part_def Let_def split: if_splits)
  then show "(\<not> cs_finished c1 \<and> SinkFinish \<notin> set (cs_rx c1)) \<and> b \<noteq> []"
    using channel_fill_rest [OF f] step assms by auto
qed

section \<open>The upload of a sink\<close>

definition sink_run :: "('s, 'w) backend \<Rightarrow> nat \<Rightarrow> sink_msg list \<Rightarrow> 'w \<Rightarrow>
    (object_meta, provider_error) result \<times> (channel_source \<times> 'w) \<times> upload_event list" where
  "sink_run b ps sent w =
     drive_upload (watched (lift_backend b)) (watched_source (lift_source channel_next_part)) ps ((channel_of sent, w), [])"

lemma sink_run_task: "sink_run b ps sent w = (res, cw, log) \<Longrightarrow> sink_task b ps sent w = (res, cw)"
  using drive_unwatched [of "lift_backend b" "lift_source channel_next_part" ps "(channel_of sent, w)" "[]"]
  by (simp add: sink_run_def sink_task_def unwatched_def)

text \<open>The start of a drive that opened an upload, or its end if it did not.\<close>

lemma drive_lifted_cases:
  assumes "drive_upload (watched (lift_backend b)) (watched_source (lift_source src)) ps ((c, w), []) = (res, cw, log)"
  obtains (early) "isl res" "\<forall>e \<in> set log. e \<noteq> EvFinish \<and> (\<forall>body. e \<noteq> EvSingle body)"
    | (single) a c1 c2 where "src (max ps 1) c = (Inr a, c1)" "src (max ps 1) c1 = (Inr [], c2)" "log = [EvRead a, EvRead [], EvSingle a]"
    | (opened) a d c1 c2 s w1 r cw1 l1 where "src (max ps 1) c = (Inr a, c1)" "src (max ps 1) c1 = (Inr d, c2)" "d \<noteq> []"
        "feed_parts (watched (lift_backend b)) s (watched_source (lift_source src)) (max ps 1) a d 1 0
           ((c2, w1), [EvRead a, EvRead d, EvBegin True]) = (r, cw1, l1)"
        "isl r \<longrightarrow> isl res" "log = l1 @ (if isl r then [] else [EvFinish]) @ (if isl res then [EvAbort] else [])"
proof -
  let ?ps = "max ps 1"
  note calls = watched_calls lifted_send lifted_begin watched_source_call lifted_source
  obtain r1 c1 where s1: "src ?ps c = (r1, c1)" by fastforce
  obtain r2 c2 where s2: "src ?ps c1 = (r2, c2)" by fastforce
  obtain r4 w4 where s4: "be_begin b w = (r4, w4)" by fastforce
  note drive = assms [unfolded drive_upload_def Let_def]
  show thesis
  proof (cases r1)
    case (Inl e)
    then have "log = []" "isl res" using drive s1 by (auto simp: calls)
    then show thesis using early by simp
  next
    case first: (Inr a)
    show thesis
    proof (cases r2)
      case (Inl e)
      then show thesis using early drive s1 s2 first by (simp add: calls) force
    next
      case second: (Inr d)
      show thesis
      proof (cases "d = []")
        case True
        then show thesis using single [of a c1 c2] drive s1 s2 first second by (simp add: calls)
      next
        case more: False
        show thesis
        proof (cases r4)
          case (Inl e)
          then show thesis using early drive s1 s2 s4 first second more by (simp add: calls) force
        next
          case (Inr s)
          let ?l = "[EvRead a, EvRead d, EvBegin True]"
          obtain r5 cw5 l5 where feed: "feed_parts (watched (lift_backend b)) s (watched_source (lift_source src)) ?ps a d 1 0 ((c2, w4), ?l) =
              (r5, cw5, l5)"
            by (cases "feed_parts (watched (lift_backend b)) s (watched_source (lift_source src)) ?ps a d 1 0 ((c2, w4), ?l)") auto
          obtain r6 cw6 where fin: "be_finish (lift_backend b) s cw5 = (r6, cw6)" by (cases "be_finish (lift_backend b) s cw5")
          have "(isl r5 \<longrightarrow> isl res) \<and> log = l5 @ (if isl r5 then [] else [EvFinish]) @ (if isl res then [EvAbort] else [])"
            using drive s1 s2 s4 first second more Inr feed
            by (cases r5; cases r6) (auto simp: calls fin)
          then show thesis using opened [OF s1 [unfolded first] s2 [unfolded second] more feed] by blast
        qed
      qed
    qed
  qed
qed

section \<open>Claims\<close>

definition sink_after :: "bytes list \<Rightarrow> object_sink" where
  "sink_after cs = foldl (\<lambda>s c. snd (sink_write True c s)) (sink_open True) cs"

lemma sink_after_sent: "os_sent (sink_after cs) = map SinkChunk (filter (\<lambda>c. c \<noteq> []) cs)"
  by (induction cs rule: rev_induct) (auto simp: sink_after_def sink_open_def sink_write_def)

lemma chunks_sent_map: "chunks_sent (map SinkChunk cs @ [SinkFinish]) = concat cs"
  by (induction cs) simp_all

lemma concat_nonempty: "concat (filter (\<lambda>c. c \<noteq> []) cs) = concat cs"
  by (induction cs) auto

text \<open>C17. The object of a recording is the recording.  For chunks written to a sink, a finish that succeeds has sent
  exactly those bytes in order, in one request or one upload opened, fed in order and finished; one that fails
  has aborted what it opened.  A sink dropped or aborted instead always fails its upload: no request and no finish
  is ever sent, so no truncated object appears.\<close>

theorem recording_sink_right:
  assumes "sink_run b part_size (os_sent (sink_after cs) @ (if finished then [SinkFinish] else [])) w = (res, cw, log)"
  shows "bracketed (calls log) (isl res) \<and>
    (if finished
     then fst (sink_finish b part_size (sink_after cs) w) = res \<and> (isl res \<or> sent_all log = concat cs)
     else isl res \<and> (\<forall>e \<in> set log. e \<noteq> EvFinish \<and> (\<forall>body. e \<noteq> EvSingle body)))"
proof -
  let ?sent = "os_sent (sink_after cs) @ (if finished then [SinkFinish] else [])" and ?ps = "max part_size 1"
  have run: "drive_upload (watched (lift_backend b)) (watched_source (lift_source channel_next_part)) part_size
      ((channel_of ?sent, w), []) = (res, cw, log)" using assms by (simp add: sink_run_def)
  have right: "bracketed (calls log) (isl res)" "\<not> isl res \<longrightarrow> sent_all log = read_all log"
    using upload_right_log [OF run] by blast+
  show ?thesis
  proof (cases finished)
    case True
    have gives: "gives ?ps (\<lambda>_. True) channel_rest channel_next_part" by (rule channel_gives) simp
    have all: "channel_rest (channel_of ?sent) = concat cs"
      using True by (simp add: channel_rest_def channel_of_def sink_after_sent chunks_sent_map concat_nonempty)
    have "read_all log = concat cs" if ok: "\<not> isl res"
    proof (cases rule: drive_lifted_cases [OF run])
      case 1
      then show ?thesis using ok by simp
    next
      case (2 a c1 c2)
      then show ?thesis using gives all unfolding gives_def by (metis append_Nil2 concat.simps list.simps(8,9) read_bytes.simps)
    next
      case (3 a d c1 c2 s w1 r cw1 l1)
      have c: "channel_rest (channel_of ?sent) = a @ d @ channel_rest c2" "d = [] \<longrightarrow> channel_rest c2 = []"
        using gives 3(1,2) unfolding gives_def by metis+
      have "\<not> isl r" using 3(5) ok by blast
      then obtain l2 where "l1 = [EvRead a, EvRead d, EvBegin True] @ l2" "read_all l2 = channel_rest c2"
        using feed_reads_rest [OF gives TrueI c(2) 3(4)] by blast
      then show ?thesis using 3(6) ok \<open>\<not> isl r\<close> c(1) all by simp
    qed
    moreover have "fst (sink_finish b part_size (sink_after cs) w) = res"
      using sink_run_task [OF assms] True by (simp add: sink_finish_def Let_def case_prod_unfold)
    ultimately show ?thesis using right True by auto
  next
    case False
    have never: "never_ends ?ps (\<lambda>c. \<not> cs_finished c \<and> SinkFinish \<notin> set (cs_rx c)) channel_next_part"
      by (rule channel_never_ends) simp
    have start: "\<not> cs_finished (channel_of ?sent) \<and> SinkFinish \<notin> set (cs_rx (channel_of ?sent))"
      using False by (auto simp: channel_of_def sink_after_sent)
    have "isl res \<and> (\<forall>e \<in> set log. e \<noteq> EvFinish \<and> (\<forall>body. e \<noteq> EvSingle body))"
    proof (cases rule: drive_lifted_cases [OF run])
      case 1
      then show ?thesis by simp
    next
      case (2 a c1 c2)
      then show ?thesis using never start unfolding never_ends_def by blast
    next
      case (3 a d c1 c2 s w1 r cw1 l1)
      have "\<not> cs_finished c2 \<and> SinkFinish \<notin> set (cs_rx c2)"
        using never start 3(1,2) unfolding never_ends_def by blast
      then have r: "isl r" using feed_never_ends [OF never _ 3(3,4)] by blast
      then have res: "isl res" "log = l1 @ [EvAbort]" using 3(5,6) by simp_all
      obtain l2 parts where l: "l1 = [EvRead a, EvRead d, EvBegin True] @ l2" "calls l2 = map EvPart parts"
        using feed_parts_watched [OF 3(4)] by blast
      have "e \<noteq> EvFinish \<and> (\<forall>body. e \<noteq> EvSingle body)" if "e \<in> set l2" for e
      proof (cases "is_read e")
        case True
        then show ?thesis by (cases e) simp_all
      next
        case False
        then have "e \<in> set (calls l2)" using that by simp
        then show ?thesis unfolding l(2) by auto
      qed
      then show ?thesis using res l(1) by auto
    qed
    then show ?thesis using right False by simp
  qed
qed

theorem recording_sink_right_witness:
  "\<exists>res cw log. sink_run demo_backend 2 (os_sent (sink_after [[1], [2, 3]]) @ (if True then [SinkFinish] else [])) [] = (res, cw, log) \<and>
     \<not> isl res \<and> sent_all log = [1, 2, 3]"
proof -
  obtain res cw log where d: "sink_run demo_backend 2 (os_sent (sink_after [[1], [2, 3]]) @ (if True then [SinkFinish] else [])) [] = (res, cw, log)"
    by (cases "sink_run demo_backend 2 (os_sent (sink_after [[1], [2, 3]]) @ (if True then [SinkFinish] else [])) []") auto
  then have "\<not> isl res"
    by (auto simp: sink_run_def drive_upload_def watched_calls watched_source_call lift_backend_def lift_source_def demo_backend_def
      sink_after_sent channel_of_def channel_next_part_def channel_fill.simps feed_parts.simps Let_def)
  then show ?thesis using recording_sink_right [OF d] d by auto
qed

end
