(* ===== verification/CloudHttp.thy ===== *)
theory CloudHttp
  imports CloudTypes Retention
begin

text \<open>
  The retry policy of every call to a provider, \<open>crates/cloud/src/http.rs\<close>, and the check of a server artifact,
  \<open>artifact.rs\<close>.  The HTTP library is what one send answers; a \<open>Duration\<close> is its nanoseconds.
\<close>

section \<open>Answers\<close>

abbreviation (input) MAX_ATTEMPTS :: nat where "MAX_ATTEMPTS \<equiv> 4"
abbreviation (input) BACKOFF_BASE :: nat where "BACKOFF_BASE \<equiv> 250000000"
abbreviation (input) BACKOFF_CAP :: nat where "BACKOFF_CAP \<equiv> 4000000000"
abbreviation (input) RETRY_AFTER_CAP :: nat where "RETRY_AFTER_CAP \<equiv> 15000000000"
abbreviation (input) ERROR_BODY_CAP :: nat where "ERROR_BODY_CAP \<equiv> 4096"

text \<open>A response: status, the seconds of its \<open>retry-after\<close> header if it parses, and the chunks of its body up to
  an error.\<close>

record response =
  rp_status :: nat
  rp_retry_after :: "nat option"
  rp_chunks :: "bytes list"

datatype send_result = Answered response | NoConnection bytes | SendFailed bytes

datatype outcome = OutcomeOk response | OutcomeFatal provider_error | OutcomeRetry provider_error "nat option"

fun snippet_bytes :: "bytes \<Rightarrow> bytes list \<Rightarrow> bytes" where
  "snippet_bytes buf [] = buf"
| "snippet_bytes buf (c # cs) = (if length buf < ERROR_BODY_CAP then snippet_bytes (buf @ c) cs else buf)"

definition error_snippet :: "response \<Rightarrow> bytes" where
  "error_snippet resp = str_trim (from_utf8_lossy (take ERROR_BODY_CAP (snippet_bytes [] (rp_chunks resp))))"

text \<open>\<open>status_text\<close> prints a status with its reason phrase.\<close>

definition error_message :: "(nat \<Rightarrow> bytes) \<Rightarrow> nat \<Rightarrow> bytes \<Rightarrow> bytes" where
  "error_message status_text status snippet =
     (if snippet = [] then str ''http '' @ status_text status else str ''http '' @ status_text status @ str '': '' @ snippet)"

definition classify :: "(nat \<Rightarrow> bytes) \<Rightarrow> nat list \<Rightarrow> response \<Rightarrow> outcome" where
  "classify status_text accept resp =
     (let status = rp_status resp in
      if 200 \<le> status \<and> status < 300 \<or> status \<in> set accept then OutcomeOk resp
      else if status = 429
      then (let retry_after = map_option (\<lambda>s. s * 1000000000) (rp_retry_after resp)
            in OutcomeRetry (RateLimited retry_after) retry_after)
      else
        (let msg = error_message status_text status (error_snippet resp)
         in if status = 401 \<or> status = 403 then OutcomeFatal (AuthError msg)
            else if status = 404 \<or> status = 410 then OutcomeFatal (NotFound msg)
            else if 500 \<le> status \<and> status < 600 then OutcomeRetry (Transient msg) None
            else OutcomeFatal (OtherError msg)))"

section \<open>Retrying\<close>

definition retry_backoff :: "nat \<Rightarrow> nat" where
  "retry_backoff attempt = min (BACKOFF_BASE * 2 ^ min (attempt - 1) 4) BACKOFF_CAP"

text \<open>The loop after \<open>attempt\<close> sends.\<close>

function retry_loop ::
  "(nat \<Rightarrow> bytes) \<Rightarrow> nat list \<Rightarrow> ('w \<Rightarrow> send_result \<times> 'w) \<Rightarrow> (nat \<Rightarrow> 'w \<Rightarrow> 'w) \<Rightarrow> nat \<Rightarrow> 'w \<Rightarrow>
     (response, provider_error) result \<times> 'w" where
  "retry_loop status_text accept send sleep attempts w =
     (let attempt = attempts + 1; (sent, w) = send w
      in case (case sent of
                 Answered resp \<Rightarrow> Ok (classify status_text accept resp)
               | NoConnection e \<Rightarrow> Ok (OutcomeRetry (Transient e) None)
               | SendFailed e \<Rightarrow> Inl (OtherError e)) of
           Inl err \<Rightarrow> (Inl err, w)
         | Inr (OutcomeOk resp) \<Rightarrow> (Ok resp, w)
         | Inr (OutcomeFatal err) \<Rightarrow> (Inl err, w)
         | Inr (OutcomeRetry err retry_after) \<Rightarrow>
             if MAX_ATTEMPTS \<le> attempt then (Inl err, w)
             else
               (let backoff = retry_backoff attempt
                in case retry_after of
                     Some ra \<Rightarrow>
                       if RETRY_AFTER_CAP < ra then (Inl err, w)
                       else retry_loop status_text accept send sleep attempt (sleep (max ra backoff) w)
                   | None \<Rightarrow> retry_loop status_text accept send sleep attempt (sleep backoff w)))"
  by pat_completeness auto

termination
  by (relation "measure (\<lambda>(_, _, _, _, attempts, _). MAX_ATTEMPTS - attempts)") (auto split: if_splits)

declare retry_loop.simps [simp del]

definition send_retrying_accepting ::
  "(nat \<Rightarrow> bytes) \<Rightarrow> nat list \<Rightarrow> ('w \<Rightarrow> send_result \<times> 'w) \<Rightarrow> (nat \<Rightarrow> 'w \<Rightarrow> 'w) \<Rightarrow> 'w \<Rightarrow>
     (response, provider_error) result \<times> 'w" where
  "send_retrying_accepting status_text accept send sleep w = retry_loop status_text accept send sleep 0 w"

definition send_retrying ::
  "(nat \<Rightarrow> bytes) \<Rightarrow> ('w \<Rightarrow> send_result \<times> 'w) \<Rightarrow> (nat \<Rightarrow> 'w \<Rightarrow> 'w) \<Rightarrow> 'w \<Rightarrow>
     (response, provider_error) result \<times> 'w" where
  "send_retrying status_text send sleep w = send_retrying_accepting status_text [] send sleep w"

section \<open>Artifacts\<close>

datatype server_arch = X86_64 | Aarch64

fun arch_as_str :: "server_arch \<Rightarrow> bytes" where
  "arch_as_str X86_64 = str ''x86_64''"
| "arch_as_str Aarch64 = str ''aarch64''"

type_synonym pinned_artifact = "bytes \<times> bytes"

record pinned_artifacts =
  pa_x86_64 :: "pinned_artifact option"
  pa_aarch64 :: "pinned_artifact option"

fun pin_for_arch :: "pinned_artifacts \<Rightarrow> server_arch \<Rightarrow> pinned_artifact option" where
  "pin_for_arch p X86_64 = pa_x86_64 p"
| "pin_for_arch p Aarch64 = pa_aarch64 p"

definition any_pin :: "pinned_artifacts \<Rightarrow> bool" where
  "any_pin p \<longleftrightarrow> pa_x86_64 p \<noteq> None \<or> pa_aarch64 p \<noteq> None"

definition ascii_hexdigit :: "u8 \<Rightarrow> bool" where
  "ascii_hexdigit b \<longleftrightarrow> 48 \<le> b \<and> b \<le> 57 \<or> 65 \<le> b \<and> b \<le> 70 \<or> 97 \<le> b \<and> b \<le> 102"

definition is_url_safe :: "bytes \<Rightarrow> bool" where
  "is_url_safe c \<longleftrightarrow> length c = 1 \<and> (ascii_alnum (hd c) \<or> hd c \<in> set (str ''-._~:/?#[]@!&()*+,;=%'' @ [39]))"

text \<open>Which check fails; the message quotes the values.\<close>

datatype artifact_error = ArtifactUrl | ArtifactUrlChar bytes | ArtifactSha

definition validate_pair :: "bytes \<Rightarrow> bytes \<Rightarrow> (unit, artifact_error) result" where
  "validate_pair url sha256 =
     (if \<not> starts_with (str ''https://'') url \<or> length url \<le> length (str ''https://'') then Inl ArtifactUrl
      else
        (case find (\<lambda>c. \<not> is_url_safe c) (str_chars url) of
           Some bad \<Rightarrow> Inl (ArtifactUrlChar bad)
         | None \<Rightarrow>
             if length sha256 \<noteq> 64 \<or> \<not> list_all ascii_hexdigit sha256 then Inl ArtifactSha else Ok ()))"

text \<open>A release build: the assertions of debug builds are left out.\<close>

definition pin_from :: "bytes option \<Rightarrow> bytes option \<Rightarrow> pinned_artifact option" where
  "pin_from url sha256 =
     (case (url, sha256) of
        (Some u, Some s) \<Rightarrow> if validate_pair u s = Ok () then Some (u, s) else None
      | _ \<Rightarrow> None)"

section \<open>Claims\<close>

text \<open>The sends and the waits, watched.\<close>

datatype retry_event = EvSend send_result | EvWait nat

definition watched_send :: "('w \<Rightarrow> send_result \<times> 'w) \<Rightarrow> 'w \<times> retry_event list \<Rightarrow> send_result \<times> 'w \<times> retry_event list" where
  "watched_send send wl = (let (w, l) = wl; (r, w) = send w in (r, w, l @ [EvSend r]))"

definition watched_sleep :: "(nat \<Rightarrow> 'w \<Rightarrow> 'w) \<Rightarrow> nat \<Rightarrow> 'w \<times> retry_event list \<Rightarrow> 'w \<times> retry_event list" where
  "watched_sleep sleep d wl = (sleep d (fst wl), snd wl @ [EvWait d])"

text \<open>An answer that may be sent again: no connection, too many requests, or a server's own error.\<close>

definition retryable :: "nat list \<Rightarrow> send_result \<Rightarrow> bool" where
  "retryable accept r \<longleftrightarrow>
     (case r of
        Answered resp \<Rightarrow> rp_status resp \<notin> set accept \<and> (rp_status resp = 429 \<or> 500 \<le> rp_status resp \<and> rp_status resp < 600)
      | NoConnection e \<Rightarrow> True
      | SendFailed e \<Rightarrow> False)"

text \<open>A run of sends from the given attempt: each but the last could be repeated and is followed by one wait.\<close>

fun polite :: "nat list \<Rightarrow> nat \<Rightarrow> retry_event list \<Rightarrow> bool" where
  "polite accept k [EvSend r] = (k < MAX_ATTEMPTS)"
| "polite accept k (EvSend r # EvWait d # l) =
     (retryable accept r \<and> retry_backoff (k + 1) \<le> d \<and> d \<le> RETRY_AFTER_CAP \<and> polite accept (k + 1) l)"
| "polite accept k l = False"

lemma retry_backoff_cap: "retry_backoff k \<le> RETRY_AFTER_CAP"
  by (simp add: retry_backoff_def)

lemma classify_retry:
  assumes "classify stx accept resp = OutcomeRetry err ra"
  shows "retryable accept (Answered resp)"
  using assms by (auto simp: classify_def Let_def retryable_def split: if_splits)

definition sent_count :: "retry_event list \<Rightarrow> nat" where
  "sent_count l = length (filter (\<lambda>e. case e of EvSend r \<Rightarrow> True | EvWait d \<Rightarrow> False) l)"

lemma polite_count: "polite accept k l \<Longrightarrow> 1 \<le> sent_count l \<and> k + sent_count l \<le> MAX_ATTEMPTS"
  by (induction accept k l rule: polite.induct) (auto simp: sent_count_def)

text \<open>What a send leads to: a result, or a retry with its own wait.\<close>

lemma retry_step:
  assumes "retry_loop stx accept (watched_send send) (watched_sleep sleep) k (w, l) = (res, w1, l1)" "send w = (r, w2)"
  shows "l1 = l @ [EvSend r] \<or>
    (\<exists>d. retryable accept r \<and> k + 1 < MAX_ATTEMPTS \<and> retry_backoff (k + 1) \<le> d \<and> d \<le> RETRY_AFTER_CAP \<and>
       retry_loop stx accept (watched_send send) (watched_sleep sleep) (k + 1) (sleep d w2, l @ [EvSend r, EvWait d]) = (res, w1, l1))"
proof -
  note loop = assms(1) [unfolded retry_loop.simps [of stx accept _ _ k "(w, l)"]]
  let ?again = "\<lambda>d. retry_loop stx accept (watched_send send) (watched_sleep sleep) (k + 1) (sleep d w2, l @ [EvSend r, EvWait d])"
  have wait: "watched_sleep sleep d (w2, l @ [EvSend x]) = (sleep d w2, l @ [EvSend x, EvWait d])" for d x
    by (simp add: watched_sleep_def)
  have sent: "watched_send send (w, l) = (r, w2, l @ [EvSend r])" using assms(2) by (simp add: watched_send_def)
  note cap = retry_backoff_cap [of "k + 1"]
  show ?thesis
  proof (cases r)
    case (NoConnection e)
    then show ?thesis
      using loop sent cap by (cases "MAX_ATTEMPTS \<le> k + 1") (auto simp: wait Let_def retryable_def)
  next
    case (SendFailed e)
    then show ?thesis using loop sent by (simp add: Let_def)
  next
    case (Answered resp)
    show ?thesis
    proof (cases "classify stx accept resp")
      case (OutcomeRetry err ra)
      then have again: "retryable accept r" using classify_retry Answered by blast
      show ?thesis
      proof (cases "MAX_ATTEMPTS \<le> k + 1")
        case True
        then show ?thesis using loop sent OutcomeRetry Answered by (simp add: Let_def)
      next
        case False
        show ?thesis
        proof (cases ra)
          case None
          then show ?thesis using loop sent OutcomeRetry Answered False again cap by (auto simp: wait Let_def)
        next
          case (Some d)
          then show ?thesis
            using loop sent OutcomeRetry Answered False again cap
            by (cases "RETRY_AFTER_CAP < d") (auto simp: wait Let_def)
        qed
      qed
    qed (use loop sent Answered in \<open>simp_all add: Let_def\<close>)
  qed
qed

lemma retry_loop_polite:
  assumes "retry_loop stx accept (watched_send send) (watched_sleep sleep) k (w, l) = (res, w1, l1)" "k < MAX_ATTEMPTS"
  shows "\<exists>l2. l1 = l @ l2 \<and> polite accept k l2"
  using assms
proof (induction "MAX_ATTEMPTS - k" arbitrary: k w l rule: less_induct)
  case less
  obtain r w2 where s: "send w = (r, w2)" by fastforce
  from retry_step [OF less.prems(1) s] show ?case
  proof (elim disjE exE conjE)
    assume "l1 = l @ [EvSend r]"
    then show ?thesis using less.prems(2) by (intro exI [of _ "[EvSend r]"]) simp
  next
    fix d assume d: "retryable accept r" "k + 1 < MAX_ATTEMPTS" "retry_backoff (k + 1) \<le> d" "d \<le> RETRY_AFTER_CAP"
      and again: "retry_loop stx accept (watched_send send) (watched_sleep sleep) (k + 1) (sleep d w2, l @ [EvSend r, EvWait d]) = (res, w1, l1)"
    have "MAX_ATTEMPTS - (k + 1) < MAX_ATTEMPTS - k" using less.prems(2) by simp
    then obtain l2 where "l1 = (l @ [EvSend r, EvWait d]) @ l2" "polite accept (k + 1) l2"
      using less.hyps [OF _ again d(2)] by blast
    then show ?thesis using d by (intro exI [of _ "EvSend r # EvWait d # l2"]) simp
  qed
qed


section \<open>Artifacts\<close>

text \<open>The characters a shell reads inside double quotes.\<close>

lemma url_safe_no_shell: "is_url_safe c \<Longrightarrow> hd c \<notin> {34, 36, 92, 96, 32, 10}"
  by (auto simp: is_url_safe_def ascii_alnum_def str_def)

lemma validated_pair_safe:
  assumes "validate_pair url sha256 = Ok ()"
  shows "starts_with (str ''https://'') url \<and> (\<forall>c \<in> set (str_chars url). length c = 1 \<and> hd c \<notin> {34, 36, 92, 96, 32, 10}) \<and>
    length sha256 = 64 \<and> list_all ascii_hexdigit sha256"
  using assms url_safe_no_shell
  by (auto simp: validate_pair_def is_url_safe_def find_None_iff split: if_splits option.splits)

end
