(* ===== verification/Cost.thy ===== *)
theory Cost
  imports CloudTypes Retention Flac
begin

text \<open>
  What a session and its recording cost, \<open>crates/cloud/src/cost.rs\<close> and \<open>recording.rs\<close>.  Sums and products of
  \<open>u64\<close> wrap as in a release build; those of \<open>u128\<close> stay in range for prices below \<open>2 ^ 57\<close>.  The bundled price file is the
  \<open>prices\<close> argument, and \<open>one_decimal\<close> prints a number of seconds as hours.
\<close>

section \<open>The session\<close>

abbreviation (input) BYTES_PER_GB :: nat where "BYTES_PER_GB \<equiv> 1000000000"
abbreviation (input) MUSICIAN_DOWNSTREAM_KBPS :: nat where "MUSICIAN_DOWNSTREAM_KBPS \<equiv> 300"
abbreviation (input) STREAM_DEST_VIDEO_KBPS :: nat where "STREAM_DEST_VIDEO_KBPS \<equiv> 2500"
abbreviation (input) STREAM_DEST_AUDIO_KBPS :: nat where "STREAM_DEST_AUDIO_KBPS \<equiv> 128"
abbreviation (input) LISTENER_KBPS :: nat where "LISTENER_KBPS \<equiv> 150"

record line_item =
  ln_label :: bytes
  ln_microusd :: int

record cost_preview =
  cp_line_items :: "line_item list"
  cp_total_microusd :: u64
  cp_egress_bytes_estimate :: u64

definition div_round :: "nat \<Rightarrow> nat \<Rightarrow> u64" where
  "div_round num den = of_nat ((num + den div 2) div den)"

definition gb_display :: "u64 \<Rightarrow> bytes" where
  "gb_display b =
     (let centi_gb = unat (div_round (unat b) 10000000)
      in decimal_digits (centi_gb div 100) @ str ''.'' @ zero_pad 2 (centi_gb mod 100) @ str '' GB'')"

text \<open>Hours to whole seconds: \<open>max(0.0)\<close>, times 3600, rounded, cast.\<close>

definition session_secs :: "fp \<Rightarrow> f32 \<Rightarrow> u64" where
  "session_secs fp hours =
     (let x = fp_mul fp (f32_max hours 0) 0x45610000
      in if f32_is_nan x then 0 else of_int (min (2 ^ 64 - 1) (max 0 (f32_round x))))"

definition cost_compute ::
  "fp \<Rightarrow> (u64 \<Rightarrow> bytes) \<Rightarrow> price \<Rightarrow> f32 \<Rightarrow> nat \<Rightarrow> nat \<Rightarrow> nat \<Rightarrow> cost_preview" where
  "cost_compute fp one_decimal price expected_hours musicians stream_destinations listeners =
     (let secs = session_secs fp expected_hours;
          vm = div_round (unat (pr_hourly_microusd price) * unat secs) 3600;
          kbps = musicians * MUSICIAN_DOWNSTREAM_KBPS +
                 stream_destinations * (STREAM_DEST_VIDEO_KBPS + STREAM_DEST_AUDIO_KBPS) + listeners * LISTENER_KBPS;
          egress_bytes = of_nat kbps * 125 * secs :: u64;
          egress = div_round (unat egress_bytes * unat (pr_egress_microusd_per_gb price)) BYTES_PER_GB;
          credited = min (unat egress_bytes) (unat (pr_included_egress_gb price) * BYTES_PER_GB);
          credit = div_round (credited * unat (pr_egress_microusd_per_gb price)) BYTES_PER_GB;
          items = [\<lparr>ln_label = str ''VM '' @ hourly_display price @ str '' x '' @ one_decimal secs @ str '' h'',
                    ln_microusd = sint vm\<rparr>,
                   \<lparr>ln_label = str ''Egress estimate '' @ gb_display egress_bytes @ str '' at '' @ egress_display price,
                    ln_microusd = sint egress\<rparr>] @
            (if 0 < credit
             then [\<lparr>ln_label = str ''Included egress credit ('' @ decimal_digits (unat (pr_included_egress_gb price)) @
                        str '' GB free)'', ln_microusd = sint (- credit)\<rparr>]
             else [])
      in \<lparr>cp_line_items = items, cp_total_microusd = (let t = vm + egress in if t < credit then 0 else t - credit),
          cp_egress_bytes_estimate = egress_bytes\<rparr>)"

text \<open>\<open>{:<44}\<close> and \<open>{:>12}\<close>, which count characters.\<close>

definition pad_right :: "nat \<Rightarrow> bytes \<Rightarrow> bytes" where
  "pad_right n s = s @ replicate (n - length (str_chars s)) 32"

definition pad_left :: "nat \<Rightarrow> bytes \<Rightarrow> bytes" where
  "pad_left n s = replicate (n - length (str_chars s)) 32 @ s"

definition table_row :: "bytes \<Rightarrow> bytes \<Rightarrow> bytes" where
  "table_row label amount = pad_right 44 label @ str '' '' @ pad_left 12 amount"

definition cost_display_table :: "cost_preview \<Rightarrow> bytes list" where
  "cost_display_table p =
     map (\<lambda>li. table_row (ln_label li)
            (if ln_microusd li < 0 then str ''-'' @ format_microusd (of_int \<bar>ln_microusd li\<bar>)
             else format_microusd (of_int (ln_microusd li))))
       (cp_line_items p) @
     [table_row (str ''Total (estimate)'') (format_microusd (cp_total_microusd p))]"

section \<open>The recording\<close>

abbreviation (input) SAMPLE_RATE_HZ :: nat where "SAMPLE_RATE_HZ \<equiv> 48000"
abbreviation (input) TRACK_CHANNELS :: nat where "TRACK_CHANNELS \<equiv> 2"
abbreviation (input) FLAC_PERCENT_OF_PCM :: nat where "FLAC_PERCENT_OF_PCM \<equiv> 60"

datatype bit_depth = Sixteen | TwentyFour

fun bytes_per_sample :: "bit_depth \<Rightarrow> nat" where
  "bytes_per_sample Sixteen = 2"
| "bytes_per_sample TwentyFour = 3"

fun depth_bits :: "bit_depth \<Rightarrow> nat" where
  "depth_bits Sixteen = 16"
| "depth_bits TwentyFour = 24"

record recording_plan =
  rn_bit_depth :: bit_depth
  rn_stems :: u8
  rn_retention :: retention

definition recording_plan_default :: recording_plan where
  "recording_plan_default = \<lparr>rn_bit_depth = Sixteen, rn_stems = 0, rn_retention = retention_default\<rparr>"

definition with_stems :: "u8 \<Rightarrow> recording_plan" where
  "with_stems stems = recording_plan_default\<lparr>rn_stems := stems\<rparr>"

definition with_bit_depth :: "recording_plan \<Rightarrow> bit_depth \<Rightarrow> recording_plan" where
  "with_bit_depth plan depth = plan\<lparr>rn_bit_depth := depth\<rparr>"

definition with_retention :: "recording_plan \<Rightarrow> retention \<Rightarrow> recording_plan" where
  "with_retention plan r = plan\<lparr>rn_retention := r\<rparr>"

definition track_bytes :: "recording_plan \<Rightarrow> nat \<Rightarrow> u64 \<Rightarrow> u64" where
  "track_bytes plan channels seconds =
     (let pcm = seconds * of_nat SAMPLE_RATE_HZ * of_nat channels * of_nat (bytes_per_sample (rn_bit_depth plan))
      in pcm * of_nat FLAC_PERCENT_OF_PCM div 100)"

definition mix_bytes :: "recording_plan \<Rightarrow> u64 \<Rightarrow> u64" where
  "mix_bytes plan seconds = track_bytes plan TRACK_CHANNELS seconds"

definition stem_bytes :: "recording_plan \<Rightarrow> u64 \<Rightarrow> u64" where
  "stem_bytes plan seconds = track_bytes plan TRACK_CHANNELS seconds"

definition mix_bytes_per_hour :: "recording_plan \<Rightarrow> u64" where
  "mix_bytes_per_hour plan = track_bytes plan TRACK_CHANNELS 3600"

definition stem_bytes_per_hour :: "recording_plan \<Rightarrow> u64" where
  "stem_bytes_per_hour plan = track_bytes plan TRACK_CHANNELS 3600"

definition largest_object_bytes :: "recording_plan \<Rightarrow> u64 \<Rightarrow> u64" where
  "largest_object_bytes plan seconds = mix_bytes plan seconds"

definition total_bytes :: "recording_plan \<Rightarrow> u64 \<Rightarrow> u64" where
  "total_bytes plan seconds = mix_bytes plan seconds + ucast (rn_stems plan) * stem_bytes plan seconds"

definition object_count :: "recording_plan \<Rightarrow> nat" where
  "object_count plan = 1 + unat (rn_stems plan)"

record storage_price =
  sp_provider :: provider_kind
  sp_class :: bytes
  sp_storage_microusd_per_gb_month :: u64
  sp_egress_microusd_per_gb :: u64
  sp_included_storage_gb :: u32
  sp_included_egress_gb :: u32
  sp_base_monthly_microusd :: u64
  sp_note :: bytes

definition storage_display :: "storage_price \<Rightarrow> bytes" where
  "storage_display p = format_microusd (sp_storage_microusd_per_gb_month p) @ str ''/GB-month''"

definition storage_egress_display :: "storage_price \<Rightarrow> bytes" where
  "storage_egress_display p = format_microusd (sp_egress_microusd_per_gb p) @ str ''/GB''"

definition monthly_microusd :: "storage_price \<Rightarrow> u64 \<Rightarrow> u64" where
  "monthly_microusd p b = div_round (unat b * unat (sp_storage_microusd_per_gb_month p)) BYTES_PER_GB"

record recording_estimate =
  re_plan :: recording_plan
  re_price :: storage_price
  re_seconds :: u64
  re_mix_bytes :: u64
  re_stem_bytes :: u64
  re_total_bytes :: u64
  re_object_count :: nat
  re_billable_storage_bytes :: u64
  re_storage_microusd :: u64
  re_download_egress_microusd :: u64
  re_total_microusd :: u64
  re_line_items :: "line_item list"
  re_notes :: "bytes list"

text \<open>The labels are ASCII, so \<open>to_lowercase\<close> is \<open>ascii_lower\<close> on their bytes.\<close>

definition estimate_notes :: "storage_price \<Rightarrow> recording_plan \<Rightarrow> u64 \<Rightarrow> u64 \<Rightarrow> bytes list" where
  "estimate_notes price plan billable storage =
     [sp_class price @ str '' at '' @ storage_display price @ str ''; '' @
        map ascii_lower (retention_label (rn_retention plan)) @ str ''.''] @
     (if is_recurring (rn_retention plan)
      then [str ''Kept forever means the '' @ format_microusd storage @
              str '' storage charge repeats every month until you delete the recording, not once.'']
      else []) @
     (if 0 < sp_included_storage_gb price \<and> billable = 0
      then [str ''Storage is $0.00 because this fits inside the '' @ decimal_digits (unat (sp_included_storage_gb price)) @
              str '' GB your plan already includes.'']
      else []) @
     (if 0 < sp_base_monthly_microusd price
      then [str ''Owning a bucket at all costs '' @ format_microusd (sp_base_monthly_microusd price) @
              str ''/month on this provider, whether or not you record. That is not counted above, which shows only what recording adds.'']
      else []) @
     (if 0 < sp_included_egress_gb price
      then [str ''Your plan includes '' @ decimal_digits (unat (sp_included_egress_gb price)) @
              str '' GB/month of free download, so the download line is an upper bound. It is not discounted here because the session'' @ [39] @
              str ''s own streaming traffic draws on the same allowance and the cost preview already counts that.'']
      else []) @
     [str ''Excludes request charges: '' @ decimal_digits (object_count plan) @
        str '' uploads plus a manifest is about a hundred API calls, under $0.001 on every provider.'',
      str ''Assumes public list prices, 30-day months, and no free-tier or committed-use discount. Billed to your own cloud account; JamStream never sees it.'',
      sp_note price]"

definition estimate_with_price :: "fp \<Rightarrow> storage_price \<Rightarrow> recording_plan \<Rightarrow> f32 \<Rightarrow> recording_estimate" where
  "estimate_with_price fp price plan expected_hours =
     (let seconds = session_secs fp expected_hours;
          mix = mix_bytes plan seconds;
          stem = ucast (rn_stems plan) * stem_bytes plan seconds;
          all_bytes = mix + stem;
          included = unat (sp_included_storage_gb price) * BYTES_PER_GB;
          billable = of_nat (unat all_bytes - included) :: u64;
          days = billed_days (rn_retention plan);
          storage = div_round (unat billable * unat (sp_storage_microusd_per_gb_month price) * days)
                      (BYTES_PER_GB * DAYS_PER_MONTH);
          download = div_round (unat all_bytes * unat (sp_egress_microusd_per_gb price)) BYTES_PER_GB;
          stems = unat (rn_stems plan);
          contents = (if stems = 0 then str ''mix only'' else if stems = 1 then str ''mix + 1 stem''
                      else str ''mix + '' @ decimal_digits stems @ str '' stems'');
          period = (case retention_days (rn_retention plan) of
                      Some d \<Rightarrow> decimal_digits d @ str '' days'' | None \<Rightarrow> str ''1 month, recurring'');
          items = [\<lparr>ln_label = str ''Recording '' @ gb_display all_bytes @ str '' ('' @ contents @ str '', '' @
                        decimal_digits (depth_bits (rn_bit_depth plan)) @ str ''-bit) for '' @ period,
                    ln_microusd = sint storage\<rparr>,
                   \<lparr>ln_label = str ''Download once '' @ gb_display all_bytes @ str '' at '' @ storage_egress_display price,
                    ln_microusd = sint download\<rparr>]
      in \<lparr>re_plan = plan, re_price = price, re_seconds = seconds, re_mix_bytes = mix, re_stem_bytes = stem, re_total_bytes = all_bytes,
          re_object_count = object_count plan, re_billable_storage_bytes = billable, re_storage_microusd = storage,
          re_download_egress_microusd = download, re_total_microusd = storage + download, re_line_items = items,
          re_notes = estimate_notes price plan billable storage\<rparr>)"

text \<open>A row of an amount that is its absolute value.\<close>

definition item_row :: "line_item \<Rightarrow> bytes" where
  "item_row li = table_row (ln_label li) (format_microusd (of_int \<bar>ln_microusd li\<bar>))"

definition estimate_display_table :: "recording_estimate \<Rightarrow> bytes list" where
  "estimate_display_table e =
     map item_row (re_line_items e) @
     [table_row (str ''Recording total (estimate)'') (format_microusd (re_total_microusd e))]"

definition cost_with_recording :: "cost_preview \<Rightarrow> recording_estimate \<Rightarrow> cost_preview" where
  "cost_with_recording p recording =
     p\<lparr>cp_line_items := cp_line_items p @ re_line_items recording,
       cp_total_microusd := cp_total_microusd p + re_total_microusd recording\<rparr>"

record egress_quote =
  eq_price :: storage_price
  eq_bytes :: u64
  eq_microusd :: u64

definition quote_with_price :: "storage_price \<Rightarrow> u64 \<Rightarrow> egress_quote" where
  "quote_with_price price b =
     \<lparr>eq_price = price, eq_bytes = b,
      eq_microusd = div_round (unat b * unat (sp_egress_microusd_per_gb price)) BYTES_PER_GB\<rparr>"

definition quote_line_item :: "egress_quote \<Rightarrow> line_item" where
  "quote_line_item q =
     \<lparr>ln_label = str ''Download '' @ gb_display (eq_bytes q) @ str '' at '' @ storage_egress_display (eq_price q),
      ln_microusd = sint (eq_microusd q)\<rparr>"

definition quote_display_row :: "egress_quote \<Rightarrow> bytes" where
  "quote_display_row q = item_row (quote_line_item q)"

definition quote_notes :: "egress_quote \<Rightarrow> bytes list" where
  "quote_notes q =
     (if 0 < sp_included_egress_gb (eq_price q)
      then [str ''Your plan includes '' @ decimal_digits (unat (sp_included_egress_gb (eq_price q))) @
              str '' GB/month of free download, so this is an upper bound.'']
      else []) @
     [str ''Billed to your own cloud account at list prices; JamStream never sees it.'']"

section \<open>Prices\<close>

record provider_prices =
  pp_class :: bytes
  pp_base_monthly_microusd :: u64
  pp_included_storage_gb :: u32
  pp_included_egress_gb :: u32
  pp_default_storage_microusd_per_gb_month :: u64
  pp_default_egress_microusd_per_gb :: u64
  pp_note :: bytes
  pp_regions :: "region_id \<rightharpoonup> u64 \<times> u64"
  pp_spaces_regions :: "region_id list"

definition storage_price_of ::
  "(bytes \<rightharpoonup> provider_prices) \<Rightarrow> provider_kind \<Rightarrow> region_id \<Rightarrow> (storage_price, provider_error) result" where
  "storage_price_of prices kind region =
     (if kind = LocalMachine
      then Inl (NotFound (str ''a local session records to your own disk, which JamStream does not price''))
      else
        (case prices (kind_as_str kind) of
           None \<Rightarrow> Inl (NotFound (str ''no storage prices bundled for provider '' @ kind_as_str kind))
         | Some p \<Rightarrow>
             if kind = DigitalOcean \<and> region \<notin> set (pp_spaces_regions p)
             then Inl (NotFound (str ''DigitalOcean Spaces is not available in '' @ region @
                    str ''; recordings need a bucket in one of: '' @ str_join (str '', '') (pp_spaces_regions p)))
             else
               (let (storage, egress) =
                  (case pp_regions p region of
                     Some rates \<Rightarrow> rates
                   | None \<Rightarrow> (pp_default_storage_microusd_per_gb_month p, pp_default_egress_microusd_per_gb p))
                in Ok \<lparr>sp_provider = kind, sp_class = pp_class p, sp_storage_microusd_per_gb_month = storage,
                       sp_egress_microusd_per_gb = egress, sp_included_storage_gb = pp_included_storage_gb p,
                       sp_included_egress_gb = pp_included_egress_gb p,
                       sp_base_monthly_microusd = pp_base_monthly_microusd p, sp_note = pp_note p\<rparr>)))"

definition estimate_compute ::
  "(bytes \<rightharpoonup> provider_prices) \<Rightarrow> fp \<Rightarrow> provider_kind \<Rightarrow> region_id \<Rightarrow> recording_plan \<Rightarrow> f32 \<Rightarrow>
     (recording_estimate, provider_error) result" where
  "estimate_compute prices fp kind region plan expected_hours =
     (case storage_price_of prices kind region of
        Inl err \<Rightarrow> Inl err | Inr price \<Rightarrow> Ok (estimate_with_price fp price plan expected_hours))"

definition quote_compute ::
  "(bytes \<rightharpoonup> provider_prices) \<Rightarrow> provider_kind \<Rightarrow> region_id \<Rightarrow> u64 \<Rightarrow> (egress_quote, provider_error) result" where
  "quote_compute prices kind region b =
     (case storage_price_of prices kind region of Inl err \<Rightarrow> Inl err | Inr price \<Rightarrow> Ok (quote_with_price price b))"

section \<open>The rows add up\<close>

lemma unat_div_round:
  assumes "0 < d" "n < 2 ^ 64 * d - d"
  shows "unat (div_round n d) = (n + d div 2) div d"
proof -
  have "n + d div 2 < 2 ^ 64 * d" using assms by linarith
  then have "(n + d div 2) div d < 2 ^ 64" using assms(1) by (simp add: less_mult_imp_div_less)
  then show ?thesis by (simp add: div_round_def unat_of_nat take_bit_nat_def)
qed

lemma div_round_mono:
  assumes "0 < d" "m \<le> n" "n < 2 ^ 64 * d - d"
  shows "unat (div_round m d) \<le> unat (div_round n d)"
  using assms by (simp add: unat_div_round div_le_mono)

lemma uint_small: "unat (v :: u64) < 2 ^ n \<Longrightarrow> uint v < 2 ^ n"
  using of_nat_less_iff [of "unat v" "2 ^ n", where 'a = int] by simp

lemma sint_small: "uint v < 2 ^ 63 \<Longrightarrow> sint (v :: u64) = uint v"
  unfolding sint_uint by (rule trans, rule signed_take_bit_int_eq_self) (auto intro: order_trans [OF _ uint_ge_0])

lemma sint_minus_small: "uint c < 2 ^ 63 \<Longrightarrow> sint (- c :: u64) = - uint c"
proof -
  assume c: "uint c < 2 ^ 63"
  then have "signed_take_bit 63 (- uint c) = - uint c"
    by (intro signed_take_bit_int_eq_self) (auto intro: le_less_trans [of _ 0])
  then show ?thesis by (simp add: sint_word_minus sint_small [OF c])
qed

lemma unat_mult_le: "unat (a * b :: u64) \<le> unat a * unat b"
  by (simp add: unat_word_ariths)

lemma unat_of_nat_le: "unat (of_nat n :: u64) \<le> n"
  by (simp add: unat_of_nat take_bit_nat_def)

lemma unat_bytes_le: "unat (of_nat k * 125 * s :: u64) \<le> k * 125 * unat s"
proof -
  have "unat (of_nat k * 125 :: u64) \<le> unat (of_nat k :: u64) * 125" using unat_mult_le [of "of_nat k" 125] by simp
  also have "\<dots> \<le> k * 125" using unat_of_nat_le [of k] by simp
  finally show ?thesis using unat_mult_le [of "of_nat k * 125" s] mult_le_mono1 order_trans by blast
qed

lemma rows_total:
  fixes v e c :: u64
  assumes "unat v < 2 ^ 62" "unat e < 2 ^ 62" "unat c \<le> unat e"
  shows "sint v + (sint e + (if 0 < c then sint (- c) else 0)) = uint (if v + e < c then 0 else v + e - c)"
proof -
  have small: "uint v < 2 ^ 62" "uint e < 2 ^ 62" "uint c \<le> uint e"
    using assms uint_small [of v 62] uint_small [of e 62] by (simp_all add: word_le_nat_alt flip: word_le_def)
  have ve: "uint (v + e) = uint v + uint e" using small by (simp add: uint_plus_if' uint_word_ariths)
  have "uint c \<le> uint v + uint e" using small(3) uint_ge_0 [of v] by linarith
  then have le: "c \<le> v + e" using ve by (simp add: word_le_def)
  then have "uint (v + e - c) = uint v + uint e - uint c" using ve by (simp add: uint_minus_simple_alt word_le_def uint_sub_if')
  moreover have "sint v = uint v" "sint e = uint e" "sint (- c) = - uint c"
    using small by (auto intro!: sint_small sint_minus_small)
  ultimately show ?thesis using le by (cases "c = 0") (simp_all add: not_less [symmetric] word_gt_0)
qed

lemma rows_sum:
  assumes "sint v + (sint e + (if 0 < c then sint (- c) else 0)) = t"
  shows "sum_list (map ln_microusd (cp_line_items
      \<lparr>cp_line_items = [\<lparr>ln_label = l1, ln_microusd = sint v\<rparr>, \<lparr>ln_label = l2, ln_microusd = sint e\<rparr>] @
         (if 0 < c then [\<lparr>ln_label = l3, ln_microusd = sint (- c)\<rparr>] else []),
       cp_total_microusd = x, cp_egress_bytes_estimate = y\<rparr>)) = t"
  using assms by (cases "0 < c") simp_all

text \<open>The preview's rows add up to its total.  For a session of less than 2 ^ 24 seconds at prices below 2 ^ 36 and
  2 ^ 32 microdollars, nothing wraps or saturates: the machine, the egress and the credit that is shown are exactly
  the total that is shown, and the credit never exceeds the egress it is for.\<close>

theorem cost_rows_add_up:
  assumes "session_secs fp hours < 2 ^ 24" "pr_hourly_microusd price < 2 ^ 36" "pr_egress_microusd_per_gb price < 2 ^ 32"
    and "musicians \<le> 255" "destinations \<le> 255" "listeners \<le> 255"
  shows "sum_list (map ln_microusd (cp_line_items (cost_compute fp one_decimal price hours musicians destinations listeners))) =
      uint (cp_total_microusd (cost_compute fp one_decimal price hours musicians destinations listeners))"
proof -
  let ?secs = "session_secs fp hours" and ?p = "pr_egress_microusd_per_gb price"
  let ?kbps = "musicians * MUSICIAN_DOWNSTREAM_KBPS + destinations * (STREAM_DEST_VIDEO_KBPS + STREAM_DEST_AUDIO_KBPS) +
    listeners * LISTENER_KBPS"
  let ?bytes = "of_nat ?kbps * 125 * ?secs :: u64"
  let ?credited = "min (unat ?bytes) (unat (pr_included_egress_gb price) * BYTES_PER_GB)"
  have secs: "unat ?secs < 2 ^ 24" using assms(1) by (simp add: word_less_nat_alt)
  have hourly: "unat (pr_hourly_microusd price) < 2 ^ 36" using assms(2) by (simp add: word_less_nat_alt)
  have p: "unat ?p < 2 ^ 32" using assms(3) by (simp add: word_less_nat_alt)
  have "unat (pr_hourly_microusd price) * unat ?secs \<le> 2 ^ 36 * 2 ^ 24" using hourly secs by (intro mult_le_mono) auto
  then have vm: "unat (div_round (unat (pr_hourly_microusd price) * unat ?secs) 3600) < 2 ^ 62"
    by (simp add: unat_div_round less_mult_imp_div_less)
  have "?kbps \<le> 784890" using assms(4-6) by simp
  then have "?kbps * 125 * unat ?secs \<le> 784890 * 125 * 2 ^ 24" using secs by (intro mult_le_mono) auto
  moreover have "unat ?bytes \<le> ?kbps * 125 * unat ?secs" by (rule unat_bytes_le)
  ultimately have "unat ?bytes \<le> 784890 * 125 * 2 ^ 24" by linarith
  then have bytes: "unat ?bytes * unat ?p \<le> 784890 * 125 * 2 ^ 24 * 2 ^ 32" using p by (intro mult_le_mono) auto
  then have e: "unat (div_round (unat ?bytes * unat ?p) BYTES_PER_GB) < 2 ^ 62"
    by (simp add: unat_div_round less_mult_imp_div_less)
  have "?credited * unat ?p \<le> unat ?bytes * unat ?p" by (intro mult_le_mono) auto
  then have c: "unat (div_round (?credited * unat ?p) BYTES_PER_GB) \<le> unat (div_round (unat ?bytes * unat ?p) BYTES_PER_GB)"
    using bytes by (intro div_round_mono) auto
  show ?thesis
    using rows_total [OF vm e c] unfolding cost_compute_def Let_def cost_preview.simps by (intro rows_sum [unfolded cost_preview.simps])
qed

text \<open>Two hours at AWS prices, the product of the hours written out.\<close>

theorem cost_rows_add_up_witness:
  "\<exists>fp. session_secs fp 0x40000000 = 7200 \<and>
     sum_list (map ln_microusd (cp_line_items (cost_compute fp (\<lambda>_. []) \<lparr>pr_hourly_microusd = 16800,
       pr_egress_microusd_per_gb = 90000, pr_included_egress_gb = 1\<rparr> 0x40000000 4 2 10))) =
     uint (cp_total_microusd (cost_compute fp (\<lambda>_. []) \<lparr>pr_hourly_microusd = 16800,
       pr_egress_microusd_per_gb = 90000, pr_included_egress_gb = 1\<rparr> 0x40000000 4 2 10))"
proof -
  obtain fp :: fp where mul: "fp_mul fp = (\<lambda>_ _. 0x45E10000)" by (meson fp.select_convs(3))
  have secs: "session_secs fp 0x40000000 = 7200"
    by (simp add: session_secs_def mul f32_is_nan_def f32_abs_def f32_round_def Let_def)
  then show ?thesis by (intro exI [of _ fp] conjI cost_rows_add_up) (simp_all add: secs)
qed

end
