(* ===== verification/Spec2Isabelle.thy ===== *)
theory Spec2Isabelle
  imports JoinClaims LinkNet LogTail ServerLife ChildLog FeedQueue StreamWorker
    RecordWorker RetentionClaims CloudClaims Solver SinkClaims CloudHttp Cost
begin

text \<open>
  A verification library for jamstream, a live jam-session system: musicians send audio to a server
  over UDP, the server mixes a personal feed for each of them every 2.5 ms, and listeners receive a
  limited broadcast mix, which the server can also push to streaming platforms and record, on machines it rents in
  a cloud for the length of a session.  The code is the Rust workspace
  under \<open>src/crates\<close>; the library models the protocol crate, the engine crate, the sans-IO server and client
  cores of the session crate, the stream crate, the recorder of the server crate and what the cloud crate decides
  without its HTTP clients.  Each definition
  is a translation of one function, type or block of the code and keeps its name where HOL allows it;
  a block of a long function (the stages of \<open>tick\<close>, the arms of \<open>handle_control\<close>) is a definition of
  its own, composed the way the code composes them.

  \<^bold>\<open>How the parts interact.\<close>  A joiner decodes an invite (\<open>Invite\<close>), runs the Noise handshake
  (\<open>Transport\<close>) over the packets of \<open>Wire\<close>, and from then on seals media frames (\<open>Media\<close>) and
  packets of the control link (\<open>Link\<close>) into transport datagrams whose counters pass the replay window
  (\<open>Replay\<close>).  The server core takes datagrams and ticks and returns datagrams: \<open>handle_datagram\<close> and
  \<open>tick\<close> of \<open>ServerAdmit\<close> and \<open>ServerTick\<close> call everything else.  The client core is its counterpart:
  \<open>client_datagram\<close>, \<open>client_poll\<close> and the media calls of \<open>ClientRun\<close>; \<open>JoinClaims\<close> puts the two together.
  The server's broadcast view of a tick (\<open>ServerTick\<close>) and its stream orders (\<open>ServerOps\<close>) are what its driver
  hands to the broadcast worker (\<open>StreamWorker\<close>), which applies them one at a time to the supervisor
  (\<open>Pipeline\<close>) of an encoder process and one pusher process per destination; the supervisor feeds the encoder
  through the queues of \<open>FeedQueue\<close> at the pace of the clock of \<open>Cadence\<close>, and a child's stderr passes
  through \<open>ChildLog\<close> before it becomes a reason that a host is shown.
  The same tick view goes to the recorder's thread (\<open>RecordWorker\<close>), which feeds the mix and one stem per musician to
  FLAC encoders (\<open>Recorder\<close>, \<open>Flac\<close>) and their bytes to objects of a sink; a sink in a bucket is an upload part by
  part (\<open>ObjectSink\<close>, \<open>Upload\<close>) whose objects expire by the rule \<open>Retention\<close> writes.  Around a session, \<open>Solver\<close>
  chooses a region, \<open>Cost\<close> quotes it, a \<open>provider\<close> launches the machine and \<open>Sweeper\<close> makes sure that it goes.

  \<^bold>\<open>Theories.\<close>
  \<^item> \<open>Prelude\<close>, \<open>Interfaces\<close>, \<open>BMap\<close>: bytes, little-endian words, \<open>wrap64\<close> for 64-bit additions written on
    naturals, results as sums; the contracts as locales (codec, canonical codec, invariant machine,
    at-most-once filter, rate limiter), each interpreted on the model; \<open>BTreeMap\<close> as a sorted list type.
  \<^item> \<open>Ids\<close>, \<open>Crypto\<close>, \<open>Wire\<close>, \<open>Media\<close>, \<open>Replay\<close>: \<open>protocol/src/{ids,error,wire,media,replay}.rs\<close>.  The parser
    is shown to accept exactly the builders' encodings; frames round trip; MAC inputs never coincide
    across domains; the bitmap refines a set of counters.
  \<^item> \<open>Text\<close>, \<open>Control\<close>, \<open>Link\<close>, \<open>LinkNet\<close>, \<open>Postcard\<close>: \<open>protocol/src/control.rs\<close>.  \<open>Link\<close> has the state of one
    end and its bounds over any run; \<open>LinkNet\<close> has two ends and a network that loses, delays, reorders
    and duplicates, with in-order exactly-once delivery, no loss before acknowledgement, and flow
    control.  \<open>Postcard\<close> is a concrete serialiser that meets the contract \<open>codec_ok\<close> the link relies on.
  \<^item> \<open>Invite\<close>, \<open>Transport\<close>: \<open>protocol/src/{invite,transport}.rs\<close>: tokens, invites, handshake agreement,
    nonce uniqueness, at-most-once opening.
  \<^item> \<open>Floats\<close>, \<open>Jitter\<close>, \<open>Redundancy\<close>, \<open>Drift\<close>: \<open>engine/src/{jitter,redundancy,drift}.rs\<close>: bounds over any
    arrivals, faithful playout, loss accounting, hysteresis, the backlog of the drift compensator.
  \<^item> \<open>Audio\<close>, \<open>AudioProps\<close>: \<open>engine/src/{mixer,limiter,metronome,codec}.rs\<close> on 32-bit sample patterns: the
    limiter never passes its ceiling whatever goes in; a personal mix is the mix of the others; the click
    is a function of the sample clock.
  \<^item> \<open>RateLimits\<close>, \<open>LogTail\<close>, \<open>Avatar\<close>: \<open>session/src/{limits,logtail,avatar}.rs\<close>.
  \<^item> \<open>ServerState\<close>, \<open>ServerOps\<close>, \<open>ServerControl\<close>, \<open>ServerAdmit\<close>, \<open>ServerTick\<close>: \<open>session/src/server.rs\<close>, in this
    order: data; teardown, violations, fan-out, log feed and the driver's calls; one definition per arm
    of \<open>handle_control\<close>; admission, cookies, rejects and \<open>handle_datagram\<close>; the tick.
  \<^item> \<open>ServerInv\<close>, \<open>ServerRun\<close>, \<open>ServerSafety\<close>: the invariant (\<open>core_inv\<close>), the relation \<open>keeps\<close> (what no
    operation but admission can do) and its preservation by every operation; \<open>server_step\<close> is one
    event of the outside and \<open>server_run\<close> a sequence of them; \<open>ServerSafety\<close> ends with concrete parameters for the witnesses.
  \<^item> \<open>ServerClaims\<close>, \<open>ServerGuards\<close>, \<open>ServerLife\<close>: the properties of the server core: capacity and
    well-formedness over all runs, admission only by a valid token, finality of revocation, liveness of
    admission, powerlessness of non-hosts, no amplification, bounded key exchanges, ejection, reaping,
    the cookie round trip, and two behaviours the code does not intend.
  \<^item> \<open>ClientState\<close>, \<open>ClientOps\<close>, \<open>ClientRun\<close>: \<open>session/src/client.rs\<close>: data, \<open>connect\<close> and \<open>reconnect\<close>; the
    application's calls; control messages, avatar transfers, datagrams, media in both directions, poll.
  \<^item> \<open>ClientInv\<close>, \<open>ClientTotal\<close>, \<open>ClientMachine\<close>, \<open>ClientFrame\<close>: the invariant (\<open>client_ok\<close>) and its preservation;
    that the media loops end; \<open>client_step\<close> and \<open>client_run\<close> over all inputs; what operations leave alone.
  \<^item> \<open>ClientClaims\<close>, \<open>JoinClaims\<close>: the client never fails, forged and replayed datagrams are powerless, the
    connection state only moves forward, challenge floods draw bounded answers; a client and a server
    join in one round trip, and captured audio reaches the jitter buffer of its seat whole and in order.
  \<^item> \<open>Strings\<close>, \<open>StreamSpec\<close>, \<open>Cadence\<close>, \<open>Yuv\<close>, \<open>ChildLog\<close>, \<open>FeedQueue\<close>: \<open>stream/src/{platform,tools,proc,cadence,yuv}.rs\<close>:
    byte-string functions of the standard library; the platform catalog, the argument vectors of the
    children, the progress report; the video clock as a function of the samples; RGBA to planar YUV; what is
    kept of a child's stderr, where a URL's secret never arrives but for the one read error that breaks this; the queue of
    one pipe with its two threads interleaving.
  \<^item> \<open>Pipeline\<close>: \<open>stream/src/{pipeline,keys}.rs\<close>: the supervisor's state and every operation on it.
  \<^item> \<open>PipelineInv\<close>, \<open>PipelineSound\<close>, \<open>BroadcastClaims\<close>, \<open>BroadcastFeed\<close>: what an operation on one destination
    may touch, the invariant (\<open>sound\<close>), the runs of a supervisor (\<open>running\<close>), and its properties: no process is
    left behind, the events tell the states, a removal touches nothing else, no restart before its backoff,
    and feeding never panics.  \<open>StreamExample\<close> is a concrete host for the witnesses.
  \<^item> \<open>StreamWorker\<close>: \<open>stream/src/worker.rs\<close>, producer and thread interleaving: the broadcast keeps the session's
    timeline whatever the worker falls behind by.
  \<^item> \<open>Flac\<close>, \<open>Recorder\<close>, \<open>RecorderProps\<close>, \<open>RecorderClaims\<close>: \<open>server/src/{flac,record}.rs\<close>: blocks, tracks, the silent head
    that late stems copy, the take; that its files are the FLAC streams of aligned signals and that a take that
    fails finishes no file.  \<open>RecordWorker\<close> is the recorder's thread with its bounded channel and the gap.
  \<^item> \<open>Dates\<close>, \<open>StorageNames\<close>: \<open>cloud/src/date.rs\<close> and the names of \<open>cloud/src/storage.rs\<close>: civil dates against a calendar;
    key components that are safe for every text.
  \<^item> \<open>Retention\<close>, \<open>RetentionClaims\<close>: \<open>cloud/src/retention.rs\<close>: lifecycle rules merged into a bucket's
    document, what a reader of the result sees, and the one host rule that can be lost.
  \<^item> \<open>CloudTypes\<close>, \<open>Sweeper\<close>, \<open>MockCloud\<close>, \<open>CloudClaims\<close>:
    \<open>cloud/src/{types,provider,regions,sweeper,mock}.rs\<close>: the operations of a provider as a record over the state of its
    world, sweeping, the polling loops, the in-memory provider; the contract of a provider as the locale \<open>cloud_laws\<close>,
    interpreted on the in-memory one; clean reports, spared machines, loops that end.
  \<^item> \<open>Solver\<close>, \<open>Cost\<close>, \<open>CloudHttp\<close>: \<open>cloud/src/{solver,cost,recording,http,artifact}.rs\<close>: the ranking of regions, previews whose
    rows add up, retries and the check of a server artifact.
  \<^item> \<open>Upload\<close>, \<open>ObjectSink\<close>, \<open>SinkClaims\<close>: \<open>cloud/src/storage.rs\<close>, \<open>cloud/src/storage/sink.rs\<close>: the driver of an
    upload, which aborts what it cannot finish, and the sink whose object is the recording or nothing.

  \<^bold>\<open>Parameters.\<close>  Code outside the repository is an argument: \<open>crypto\<close> (Blake2s, XChaCha20-Poly1305,
  X25519, Ed25519, the Noise library), \<open>serde\<close> (base64 and the serialiser of invites and payloads),
  \<open>pc_enc\<close>/\<open>pc_dec\<close> (postcard), \<open>opus\<close> (libopus), \<open>slip\<close> (the rubato resampler), \<open>fp\<close> (the rounded float operations of the
  mix), \<open>stream_sys\<close> (processes, files, the card renderer and the avatar decoder, over a state of the host),
  \<open>flac_lib\<close> (the FLAC encoder), \<open>recording_sink\<close>, \<open>backend\<close> and \<open>provider\<close> (trait objects, over a state of their
  world), the price file, and sending and sleeping where a loop waits.  JSON values are the datatype \<open>json\<close>.  What a property needs of them is a named hypothesis (\<open>mac_widths\<close>, \<open>aead_opens\<close>, \<open>noise_ik\<close>,
  \<open>serde_ok\<close>, \<open>codec_ok\<close>, \<open>host_contract\<close>, \<open>render_keeps\<close>, \<open>zero_stays\<close>, \<open>cloud_laws\<close>, \<dots>), and the witnesses instantiate them with concrete functions.

  \<^bold>\<open>Bounds and fuel.\<close>  Loops are structural or have termination proofs by measures; the media loops of the client
  core, whose end depends on the resampler, are \<open>partial_function (option)\<close>, and \<open>ClientTotal\<close> proves that
  they return under its contract.  The polling loops (\<open>wait_loop\<close>, \<open>close_loop\<close>) and \<open>read_fill\<close> are
  \<open>partial_function (option)\<close> too: \<open>CloudClaims\<close> proves that the first two return whenever their backoffs are not zero,
  \<open>Upload\<close> that the last does with a reader that is not interrupted for ever.  No definition of the code uses fuel.  64-bit counters of the code that are naturals here are wrapped where the code
  adds (release builds wrap); the properties of \<open>LinkNet\<close> assume runs shorter than \<open>2 ^ 64\<close> events,
  which keeps sequence numbers from wrapping.  \<open>f64\<close> arithmetic of the jitter estimate is rounded to
  nearest even on finite values.

  \<^bold>\<open>Not modelled.\<close>  Sockets, files, timers and configuration around the cores
  (\<open>server/src/{runtime,relay,main,config,cloud_sink,logtail,revocations}.rs\<close>, the local disk's sink of \<open>record.rs\<close>), audio
  devices (\<open>audio-io\<close>), the system calls behind \<open>stream_sys\<close> (spawning, waiting, killing, opening a FIFO), rendering
  (\<open>broadcast\<close>), the clients of the clouds and of their storage (\<open>cloud/src/providers\<close>, \<open>cloud/src/storage/{s3,gcs}.rs\<close>),
  the boot script (\<open>cloudinit.rs\<close>), file permissions and probes (\<open>private.rs\<close>, \<open>probe.rs\<close>), user interfaces (\<open>client\<close>, \<open>cli\<close>) and the test harness.  Logging (\<open>tracing\<close>)
  and \<open>Debug\<close> output are left out of the modelled functions.
\<close>

end
